(* ===== verification/Nghttp2_Prelude.thy ===== *)
theory Nghttp2_Prelude
  imports Main "HOL-Library.Word" "HOL-Library.Multiset"
begin

unbundle bit_operations_syntax

text \<open>
  Shared vocabulary of the development: the machine types of the C sources, the library's error
  codes (\<^verbatim>\<open>lib/includes/nghttp2/nghttp2.h\<close>), the application-supplied allocator, and the generic
  lemmas on lists, options and words that the component theories use.

  Conventions.  \<^verbatim>\<open>uint8_t\<close>, \<^verbatim>\<open>uint16_t\<close>, \<^verbatim>\<open>uint32_t\<close> and \<^verbatim>\<open>uint64_t\<close> are words of their width.
  \<^verbatim>\<open>int32_t\<close> quantities (window sizes, stream identifiers, weights) are \<open>int\<close>, because overflow of
  signed arithmetic is undefined in C; the theorems show that the values stay in \<open>int32\<close> range.
  \<^verbatim>\<open>size_t\<close> lengths of objects in memory are \<open>nat\<close>.  A function that returns an error code
  returns a value of \<open>nghttp2_error + 'a\<close>, with \<open>Inl\<close> for the negative codes.
\<close>

type_synonym u8 = "8 word"
type_synonym u16 = "16 word"
type_synonym u32 = "32 word"
type_synonym u64 = "64 word"

named_theorems nghttp2_bits \<open>bit-level facts about masks, flags and byte splits\<close>
named_theorems nghttp2_len \<open>lengths of serialized pieces\<close>

section \<open>Error codes\<close>

datatype nghttp2_error =
    ERR_INVALID_ARGUMENT | ERR_BUFFER_ERROR | ERR_UNSUPPORTED_VERSION | ERR_WOULDBLOCK
  | ERR_PROTO | ERR_INVALID_FRAME | ERR_EOF | ERR_DEFERRED | ERR_STREAM_ID_NOT_AVAILABLE
  | ERR_STREAM_CLOSED | ERR_STREAM_CLOSING | ERR_STREAM_SHUT_WR | ERR_INVALID_STREAM_ID
  | ERR_INVALID_STREAM_STATE | ERR_DEFERRED_DATA_EXIST | ERR_START_STREAM_NOT_ALLOWED
  | ERR_GOAWAY_ALREADY_SENT | ERR_INVALID_HEADER_BLOCK | ERR_INVALID_STATE
  | ERR_TEMPORAL_CALLBACK_FAILURE | ERR_FRAME_SIZE_ERROR | ERR_HEADER_COMP | ERR_FLOW_CONTROL
  | ERR_INSUFF_BUFSIZE | ERR_PAUSE | ERR_TOO_MANY_INFLIGHT_SETTINGS | ERR_PUSH_DISABLED
  | ERR_DATA_EXIST | ERR_SESSION_CLOSING | ERR_HTTP_HEADER | ERR_HTTP_MESSAGING
  | ERR_REFUSED_STREAM | ERR_INTERNAL | ERR_CANCEL | ERR_SETTINGS_EXPECTED | ERR_NOMEM
  | ERR_CALLBACK_FAILURE | ERR_BAD_CLIENT_MAGIC | ERR_FLOODED | ERR_CREDENTIAL_PENDING
  | ERR_IGN_HEADER_BLOCK | ERR_IGN_PAYLOAD | ERR_IGN_HTTP_HEADER | ERR_REMOVE_HTTP_HEADER

fun nghttp2_error_code :: "nghttp2_error \<Rightarrow> int" where
  "nghttp2_error_code ERR_INVALID_ARGUMENT = -501"
| "nghttp2_error_code ERR_BUFFER_ERROR = -502"
| "nghttp2_error_code ERR_UNSUPPORTED_VERSION = -503"
| "nghttp2_error_code ERR_WOULDBLOCK = -504"
| "nghttp2_error_code ERR_PROTO = -505"
| "nghttp2_error_code ERR_INVALID_FRAME = -506"
| "nghttp2_error_code ERR_EOF = -507"
| "nghttp2_error_code ERR_DEFERRED = -508"
| "nghttp2_error_code ERR_STREAM_ID_NOT_AVAILABLE = -509"
| "nghttp2_error_code ERR_STREAM_CLOSED = -510"
| "nghttp2_error_code ERR_STREAM_CLOSING = -511"
| "nghttp2_error_code ERR_STREAM_SHUT_WR = -512"
| "nghttp2_error_code ERR_INVALID_STREAM_ID = -513"
| "nghttp2_error_code ERR_INVALID_STREAM_STATE = -514"
| "nghttp2_error_code ERR_DEFERRED_DATA_EXIST = -515"
| "nghttp2_error_code ERR_START_STREAM_NOT_ALLOWED = -516"
| "nghttp2_error_code ERR_GOAWAY_ALREADY_SENT = -517"
| "nghttp2_error_code ERR_INVALID_HEADER_BLOCK = -518"
| "nghttp2_error_code ERR_INVALID_STATE = -519"
| "nghttp2_error_code ERR_TEMPORAL_CALLBACK_FAILURE = -521"
| "nghttp2_error_code ERR_FRAME_SIZE_ERROR = -522"
| "nghttp2_error_code ERR_HEADER_COMP = -523"
| "nghttp2_error_code ERR_FLOW_CONTROL = -524"
| "nghttp2_error_code ERR_INSUFF_BUFSIZE = -525"
| "nghttp2_error_code ERR_PAUSE = -526"
| "nghttp2_error_code ERR_TOO_MANY_INFLIGHT_SETTINGS = -527"
| "nghttp2_error_code ERR_PUSH_DISABLED = -528"
| "nghttp2_error_code ERR_DATA_EXIST = -529"
| "nghttp2_error_code ERR_SESSION_CLOSING = -530"
| "nghttp2_error_code ERR_HTTP_HEADER = -531"
| "nghttp2_error_code ERR_HTTP_MESSAGING = -532"
| "nghttp2_error_code ERR_REFUSED_STREAM = -533"
| "nghttp2_error_code ERR_INTERNAL = -534"
| "nghttp2_error_code ERR_CANCEL = -535"
| "nghttp2_error_code ERR_SETTINGS_EXPECTED = -536"
| "nghttp2_error_code ERR_NOMEM = -901"
| "nghttp2_error_code ERR_CALLBACK_FAILURE = -902"
| "nghttp2_error_code ERR_BAD_CLIENT_MAGIC = -903"
| "nghttp2_error_code ERR_FLOODED = -904"
| "nghttp2_error_code ERR_CREDENTIAL_PENDING = -101"
| "nghttp2_error_code ERR_IGN_HEADER_BLOCK = -103"
| "nghttp2_error_code ERR_IGN_PAYLOAD = -104"
| "nghttp2_error_code ERR_IGN_HTTP_HEADER = -105"
| "nghttp2_error_code ERR_REMOVE_HTTP_HEADER = -106"

text \<open>
  Error propagation: \<^verbatim>\<open>rv = f(...); if (rv != 0) return rv;\<close> is a bind of the sum type.  The state
  that a C function has already written when it returns an error is kept where a caller can see it,
  by pairing the result with the state; \<open>sum_bind\<close> is used where the caller drops it.
\<close>

fun sum_bind :: "'e + 'a \<Rightarrow> ('a \<Rightarrow> 'e + 'b) \<Rightarrow> 'e + 'b" where
  "sum_bind (Inl e) f = Inl e"
| "sum_bind (Inr x) f = f x"

lemma sum_bind_eq_Inr: "sum_bind r f = Inr y \<longleftrightarrow> (\<exists>x. r = Inr x \<and> f x = Inr y)"
  by (cases r) auto

section \<open>The allocator\<close>

text \<open>
  \<^verbatim>\<open>nghttp2_mem\<close> holds the application's \<^verbatim>\<open>malloc\<close>, \<^verbatim>\<open>realloc\<close> and \<^verbatim>\<open>calloc\<close>.  What the library relies on
  is only whether a call succeeds and, for fresh memory, how many bytes it got.  \<open>mem_ok\<close> lists the
  outcomes of the next calls (past its end every call succeeds); \<open>mem_junk\<close> is the indeterminate
  content of fresh memory.  Both are arbitrary in every theorem.
\<close>

record nghttp2_mem =
  mem_ok :: "bool list"
  mem_junk :: "nat \<Rightarrow> u8"

definition mem_call :: "nghttp2_mem \<Rightarrow> bool \<times> nghttp2_mem" where
  "mem_call m = (case mem_ok m of [] \<Rightarrow> (True, m) | b # bs \<Rightarrow> (b, m\<lparr>mem_ok := bs\<rparr>))"

definition mem_fresh :: "nghttp2_mem \<Rightarrow> nat \<Rightarrow> u8 list" where
  "mem_fresh m n = map (mem_junk m) [0..<n]"

definition mem_reliable :: "nghttp2_mem \<Rightarrow> bool" where
  "mem_reliable m \<longleftrightarrow> list_all id (mem_ok m)"

lemma length_mem_fresh [simp]: "length (mem_fresh m n) = n"
  by (simp add: mem_fresh_def)

lemma mem_call_reliable: "mem_reliable m \<Longrightarrow> fst (mem_call m) \<and> mem_reliable (snd (mem_call m))"
  by (auto simp: mem_call_def mem_reliable_def split: list.splits)

definition mem_mono :: "nghttp2_mem \<Rightarrow> nghttp2_mem \<Rightarrow> bool" where
  "mem_mono m m' \<longleftrightarrow> (mem_reliable m \<longrightarrow> mem_reliable m')"

lemma mem_mono_refl [simp]: "mem_mono m m"
  by (simp add: mem_mono_def)

lemma mem_mono_trans: "mem_mono m m' \<Longrightarrow> mem_mono m' m'' \<Longrightarrow> mem_mono m m''"
  by (simp add: mem_mono_def)

lemma mem_mono_call [simp]: "mem_mono m (snd (mem_call m))"
  using mem_call_reliable by (simp add: mem_mono_def)

section \<open>Byte indices\<close>

text \<open>The byte range as an explicit list, for checking 256-entry tables entry by entry.\<close>

lemma upt_256: "[0..<256] =
   [0, 1, 2, 3, 4, 5, 6, 7, 8, 9, 10, 11, 12, 13, 14, 15, 16, 17, 18, 19, 20, 21, 22, 23,
    24, 25, 26, 27, 28, 29, 30, 31, 32, 33, 34, 35, 36, 37, 38, 39, 40, 41, 42, 43, 44, 45, 46, 47,
    48, 49, 50, 51, 52, 53, 54, 55, 56, 57, 58, 59, 60, 61, 62, 63, 64, 65, 66, 67, 68, 69, 70, 71,
    72, 73, 74, 75, 76, 77, 78, 79, 80, 81, 82, 83, 84, 85, 86, 87, 88, 89, 90, 91, 92, 93, 94, 95,
    96, 97, 98, 99, 100, 101, 102, 103, 104, 105, 106, 107, 108, 109, 110, 111, 112, 113, 114, 115, 116, 117, 118, 119,
    120, 121, 122, 123, 124, 125, 126, 127, 128, 129, 130, 131, 132, 133, 134, 135, 136, 137, 138, 139, 140, 141, 142, 143,
    144, 145, 146, 147, 148, 149, 150, 151, 152, 153, 154, 155, 156, 157, 158, 159, 160, 161, 162, 163, 164, 165, 166, 167,
    168, 169, 170, 171, 172, 173, 174, 175, 176, 177, 178, 179, 180, 181, 182, 183, 184, 185, 186, 187, 188, 189, 190, 191,
    192, 193, 194, 195, 196, 197, 198, 199, 200, 201, 202, 203, 204, 205, 206, 207, 208, 209, 210, 211, 212, 213, 214, 215,
    216, 217, 218, 219, 220, 221, 222, 223, 224, 225, 226, 227, 228, 229, 230, 231, 232, 233, 234, 235, 236, 237, 238, 239,
    240, 241, 242, 243, 244, 245, 246, 247, 248, 249, 250, 251, 252, 253, 254, 255]"
  by (simp add: upt_rec)

section \<open>Words\<close>

lemma bit_u8_beyond [simp, nghttp2_bits]: "8 \<le> n \<Longrightarrow> \<not> bit (b :: u8) n"
  using bit_imp_le_length [of b n] by auto

lemma bit_u16_beyond [simp, nghttp2_bits]: "16 \<le> n \<Longrightarrow> \<not> bit (b :: u16) n"
  using bit_imp_le_length [of b n] by auto

lemma bit_u32_beyond [simp, nghttp2_bits]: "32 \<le> n \<Longrightarrow> \<not> bit (b :: u32) n"
  using bit_imp_le_length [of b n] by auto

lemma of_nat_u32_le: "x < 2 ^ 32 \<Longrightarrow> y < 2 ^ 32 \<Longrightarrow> (of_nat x :: u32) \<le> of_nat y \<longleftrightarrow> x \<le> y"
  by (simp add: word_le_nat_alt unat_of_nat)

lemma unat_of_nat_u32: "x < 2 ^ 32 \<Longrightarrow> unat (of_nat x :: u32) = x"
  by (simp add: unat_of_nat)

lemma unat_of_nat_u8: "x < 256 \<Longrightarrow> unat (of_nat x :: u8) = x"
  by (simp add: unat_of_nat)

lemma of_nat_u8_inj: "x < 256 \<Longrightarrow> y < 256 \<Longrightarrow> (of_nat x :: u8) = of_nat y \<longleftrightarrow> x = y"
  by (metis unat_of_nat_u8)

lemma ucast_of_nat_u8_u32: "x < 256 \<Longrightarrow> (ucast (of_nat x :: u8) :: u32) = of_nat x"
  by (metis of_nat_unat unat_of_nat_u8)

section \<open>Linked chains\<close>

text \<open>
  \<open>links nx p xs\<close>: following \<open>nx\<close> from \<open>p\<close> visits exactly the cells \<open>xs\<close> and then ends; \<open>nx a\<close> is \<open>None\<close>
  if there is no cell at \<open>a\<close>.
\<close>

fun links :: "('a \<Rightarrow> 'a option option) \<Rightarrow> 'a option \<Rightarrow> 'a list \<Rightarrow> bool" where
  "links nx p [] \<longleftrightarrow> p = None"
| "links nx p (x # xs) \<longleftrightarrow> p = Some x \<and> (\<exists>q. nx x = Some q \<and> links nx q xs)"

lemma links_frame: "links nx p xs \<Longrightarrow> (\<And>a. a \<in> set xs \<Longrightarrow> nx' a = nx a) \<Longrightarrow> links nx' p xs"
  by (induction xs arbitrary: p) auto

text \<open>Unlinking \<open>x\<close>: its predecessor, or the head pointer, takes over its successor.\<close>

lemma links_unlink:
  assumes "links nx p (ys @ x # zs)" "distinct (ys @ x # zs)" "nx x = Some q"
  shows "links (nx(x := Some None)) q zs"
    and "ys \<noteq> [] \<Longrightarrow> links (nx(last ys := Some q, x := Some None)) p (ys @ zs)"
  using assms
proof (induction ys arbitrary: p)
  case Nil
  { case 1
    then show ?case by (auto intro: links_frame)
  next
    case 2
    then show ?case by simp
  }
next
  case (Cons y ys)
  { case 1
    then obtain r where "links nx r (ys @ x # zs)" by auto
    then show ?case by (rule Cons.IH(1)) (use 1 in auto)
  next
    case 2
    then obtain r where r: "p = Some y" "nx y = Some r" "links nx r (ys @ x # zs)" by auto
    show ?case
    proof (cases "ys = []")
      case True
      have "links (nx(x := Some None)) q zs" by (rule Cons.IH(1) [OF r(3)]) (use 2 in auto)
      then have "links (nx(y := Some q, x := Some None)) q zs" using 2 True by (auto elim!: links_frame)
      then show ?thesis using True r 2 by (auto simp: fun_upd_def)
    next
      case False
      have "links (nx(last ys := Some q, x := Some None)) r (ys @ zs)" by (rule Cons.IH(2) [OF False r(3)]) (use 2 in auto)
      moreover have "y \<noteq> last ys" "y \<noteq> x" using False 2 by auto
      ultimately show ?thesis using r False by (auto simp: fun_upd_def)
    qed
  }
qed

section \<open>Functional simulation\<close>

text \<open>
  A component as a step function from operations to results, and a sequence of operations run on it.
  The contract between a detailed component and its specification is a functional simulation: an
  abstraction function under which every step gives the result the specification gives.  The
  invariant carries the number of operations the component still has room for.
\<close>

fun run_ops :: "('s \<Rightarrow> 'o \<Rightarrow> 'r \<times> 's) \<Rightarrow> 's \<Rightarrow> 'o list \<Rightarrow> 'r list \<times> 's" where
  "run_ops step s [] = ([], s)"
| "run_ops step s (x # xs) =
     (let (r, s1) = step s x; (rs, s2) = run_ops step s1 xs in (r # rs, s2))"

locale functional_simulation =
  fixes step :: "'s \<Rightarrow> 'o \<Rightarrow> 'r \<times> 's" and spec :: "'a \<Rightarrow> 'o \<Rightarrow> 'r \<times> 'a"
    and inv :: "nat \<Rightarrow> 's \<Rightarrow> bool" and abs :: "'s \<Rightarrow> 'a"
  assumes step_sim: "inv (Suc n) s \<Longrightarrow> inv n (snd (step s x)) \<and>
      spec (abs s) x = (fst (step s x), abs (snd (step s x)))"
begin

lemma run_sim:
  "inv (length xs + n) s \<Longrightarrow> inv n (snd (run_ops step s xs)) \<and>
   run_ops spec (abs s) xs = (fst (run_ops step s xs), abs (snd (run_ops step s xs)))"
proof (induction xs arbitrary: s)
  case (Cons x xs)
  have st: "inv (length xs + n) (snd (step s x))" "spec (abs s) x = (fst (step s x), abs (snd (step s x)))"
    using step_sim [of "length xs + n" s x] Cons.prems by simp_all
  show ?case using Cons.IH [OF st(1)] by (simp add: st(2) Let_def case_prod_beta)
qed simp

end

end
