(* ===== verification/Pq.thy ===== *)
theory Pq
  imports Nghttp2_Prelude
begin

text \<open>
  \<^verbatim>\<open>lib/nghttp2_pq.c\<close>: the array-based priority queue that holds the schedulable children of a stream.

  Entries are intrusive: the queue stores pointers, and each entry carries the position where the
  queue holds it, so that \<^verbatim>\<open>nghttp2_pq_remove\<close> needs no search.  The model keeps the array
  \<^verbatim>\<open>q[0..length)\<close> as a list of entries and the intrusive \<^verbatim>\<open>index\<close> fields as a store, a function from
  entries to positions; two positions that hold the same entry share its index.  \<^verbatim>\<open>less\<close> (here \<open>lt\<close>) is the
  comparison passed to \<^verbatim>\<open>nghttp2_pq_init\<close>.
\<close>

record 'e nghttp2_pq =
  pq_q :: "'e list"
  pq_capacity :: nat
  pq_index :: "'e \<Rightarrow> nat"

abbreviation pq_length :: "'e nghttp2_pq \<Rightarrow> nat" where
  "pq_length pq \<equiv> length (pq_q pq)"

section \<open>Operations\<close>

definition nghttp2_pq_init :: "('e \<Rightarrow> nat) \<Rightarrow> 'e nghttp2_pq" where
  "nghttp2_pq_init idx = \<lparr>pq_q = [], pq_capacity = 0, pq_index = idx\<rparr>"

definition swap :: "'e nghttp2_pq \<Rightarrow> nat \<Rightarrow> nat \<Rightarrow> 'e nghttp2_pq" where
  "swap pq i j =
     (let a = pq_q pq ! i; b = pq_q pq ! j in
      pq\<lparr>pq_q := (pq_q pq)[i := b, j := a], pq_index := (pq_index pq)(b := i, a := j)\<rparr>)"

lemma swap_simps [simp]:
  "pq_q (swap pq i j) = (pq_q pq)[i := pq_q pq ! j, j := pq_q pq ! i]"
  "pq_capacity (swap pq i j) = pq_capacity pq"
  "pq_index (swap pq i j) = (pq_index pq)(pq_q pq ! j := i, pq_q pq ! i := j)"
  by (simp_all add: swap_def Let_def)

fun bubble_up :: "('e \<Rightarrow> 'e \<Rightarrow> bool) \<Rightarrow> 'e nghttp2_pq \<Rightarrow> nat \<Rightarrow> 'e nghttp2_pq" where
  "bubble_up lt pq index =
     (if index \<noteq> 0 then
        (let parent = (index - 1) div 2 in
         if \<not> lt (pq_q pq ! index) (pq_q pq ! parent) then pq
         else bubble_up lt (swap pq parent index) parent)
      else pq)"

declare bubble_up.simps [simp del]

definition nghttp2_pq_push ::
  "('e \<Rightarrow> 'e \<Rightarrow> bool) \<Rightarrow> nghttp2_mem \<Rightarrow> 'e nghttp2_pq \<Rightarrow> 'e \<Rightarrow>
   (nghttp2_error + 'e nghttp2_pq) \<times> nghttp2_mem" where
  "nghttp2_pq_push lt mem pq item =
     (let (ok, mem1, cap) =
        (if pq_capacity pq \<le> pq_length pq then
           (let (ok, mem1) = mem_call mem in (ok, mem1, max 4 (pq_capacity pq * 2)))
         else (True, mem, pq_capacity pq)) in
      if ok then
        (Inr (bubble_up lt
           (pq\<lparr>pq_capacity := cap, pq_q := pq_q pq @ [item],
               pq_index := (pq_index pq)(item := pq_length pq)\<rparr>)
           (pq_length pq)), mem1)
      else (Inl ERR_NOMEM, mem1))"

definition nghttp2_pq_top :: "'e nghttp2_pq \<Rightarrow> 'e option" where
  "nghttp2_pq_top pq = (if pq_length pq = 0 then None else Some (pq_q pq ! 0))"

text \<open>
  The inner loop of \<^verbatim>\<open>bubble_down\<close> runs over the two children of \<open>index\<close> and stops at the first that
  is past the end.
\<close>

definition min_child :: "('e \<Rightarrow> 'e \<Rightarrow> bool) \<Rightarrow> 'e list \<Rightarrow> nat \<Rightarrow> nat" where
  "min_child lt q index =
     (let j = index * 2 + 1 in
      if j \<ge> length q then index
      else
        let minindex = (if lt (q ! j) (q ! index) then j else index) in
        if j + 1 \<ge> length q then minindex
        else if lt (q ! (j + 1)) (q ! minindex) then j + 1 else minindex)"

lemma min_child_bounds:
  "min_child lt q i \<noteq> i \<Longrightarrow> i < min_child lt q i \<and> min_child lt q i < length q"
  by (auto simp: min_child_def Let_def split: if_splits)

function bubble_down :: "('e \<Rightarrow> 'e \<Rightarrow> bool) \<Rightarrow> 'e nghttp2_pq \<Rightarrow> nat \<Rightarrow> 'e nghttp2_pq" where
  "bubble_down lt pq index =
     (let minindex = min_child lt (pq_q pq) index in
      if minindex = index then pq
      else bubble_down lt (swap pq index minindex) minindex)"
  by pat_completeness auto
termination
  by (relation "measure (\<lambda>(lt, pq, index). pq_length pq - index)")
     (auto dest: min_child_bounds intro: diff_less_mono2)

declare bubble_down.simps [simp del]

definition nghttp2_pq_pop :: "('e \<Rightarrow> 'e \<Rightarrow> bool) \<Rightarrow> 'e nghttp2_pq \<Rightarrow> 'e nghttp2_pq" where
  "nghttp2_pq_pop lt pq =
     (if pq_length pq > 0 then
        (let last = pq_q pq ! (pq_length pq - 1) in
         bubble_down lt
           (pq\<lparr>pq_q := butlast ((pq_q pq)[0 := last]), pq_index := (pq_index pq)(last := 0)\<rparr>) 0)
      else pq)"

text \<open>\<open>None\<close> is a failed assertion: the entry is not where its index says.\<close>

definition nghttp2_pq_remove ::
  "('e \<Rightarrow> 'e \<Rightarrow> bool) \<Rightarrow> 'e nghttp2_pq \<Rightarrow> 'e \<Rightarrow> 'e nghttp2_pq option" where
  "nghttp2_pq_remove lt pq item =
     (let index = pq_index pq item in
      if \<not> (index < pq_length pq \<and> pq_q pq ! index = item) then None
      else if index = 0 then Some (nghttp2_pq_pop lt pq)
      else if index = pq_length pq - 1 then Some (pq\<lparr>pq_q := butlast (pq_q pq)\<rparr>)
      else
        let last = pq_q pq ! (pq_length pq - 1);
            pq1 = pq\<lparr>pq_q := butlast ((pq_q pq)[index := last]),
                     pq_index := (pq_index pq)(last := index)\<rparr> in
        if lt item last then Some (bubble_down lt pq1 index)
        else Some (bubble_up lt pq1 index))"

definition nghttp2_pq_empty :: "'e nghttp2_pq \<Rightarrow> bool" where
  "nghttp2_pq_empty pq \<longleftrightarrow> pq_length pq = 0"

definition nghttp2_pq_size :: "'e nghttp2_pq \<Rightarrow> nat" where
  "nghttp2_pq_size pq = pq_length pq"

text \<open>
  \<^verbatim>\<open>nghttp2_pq_update\<close> runs a callback that may rewrite the ordering keys, which live in the entries;
  here they live in a store \<open>'s\<close> that both the callback and \<open>lt\<close> read.  The return values are
  collected with a bitwise or, so one non-zero value rebuilds the heap.
\<close>

fun pq_update_loop :: "('s \<Rightarrow> 'e \<Rightarrow> 's \<times> bool) \<Rightarrow> 's \<Rightarrow> 'e list \<Rightarrow> 's \<times> bool" where
  "pq_update_loop f s [] = (s, False)"
| "pq_update_loop f s (e # es) =
     (let (s1, b) = f s e; (s2, c) = pq_update_loop f s1 es in (s2, b \<or> c))"

fun pq_rebuild :: "('e \<Rightarrow> 'e \<Rightarrow> bool) \<Rightarrow> 'e nghttp2_pq \<Rightarrow> nat \<Rightarrow> 'e nghttp2_pq" where
  "pq_rebuild lt pq 0 = pq"
| "pq_rebuild lt pq (Suc i) = pq_rebuild lt (bubble_down lt pq i) i"

definition nghttp2_pq_update ::
  "('s \<Rightarrow> 'e \<Rightarrow> 'e \<Rightarrow> bool) \<Rightarrow> ('s \<Rightarrow> 'e \<Rightarrow> 's \<times> bool) \<Rightarrow> 's \<Rightarrow> 'e nghttp2_pq \<Rightarrow> 's \<times> 'e nghttp2_pq"
  where
  "nghttp2_pq_update lt f s pq =
     (if pq_length pq = 0 then (s, pq)
      else
        let (s1, rv) = pq_update_loop f s (pq_q pq) in
        (s1, if rv then pq_rebuild (lt s1) pq (pq_length pq) else pq))"

fun pq_each_loop :: "('s \<Rightarrow> 'e \<Rightarrow> 's \<times> bool) \<Rightarrow> 's \<Rightarrow> 'e list \<Rightarrow> 's \<times> bool" where
  "pq_each_loop f s [] = (s, False)"
| "pq_each_loop f s (e # es) =
     (let (s1, b) = f s e in if b then (s1, True) else pq_each_loop f s1 es)"

definition nghttp2_pq_each :: "('s \<Rightarrow> 'e \<Rightarrow> 's \<times> bool) \<Rightarrow> 's \<Rightarrow> 'e nghttp2_pq \<Rightarrow> 's \<times> bool" where
  "nghttp2_pq_each f s pq = (if pq_length pq = 0 then (s, False) else pq_each_loop f s (pq_q pq))"

section \<open>Invariant\<close>

abbreviation parent :: "nat \<Rightarrow> nat" where
  "parent i \<equiv> (i - 1) div 2"

definition heap_from :: "('e \<Rightarrow> 'e \<Rightarrow> bool) \<Rightarrow> 'e list \<Rightarrow> nat \<Rightarrow> bool" where
  "heap_from lt q lo \<longleftrightarrow>
     (\<forall>i. 0 < i \<and> i < length q \<and> lo \<le> parent i \<longrightarrow> \<not> lt (q ! i) (q ! parent i))"

definition heap_up :: "('e \<Rightarrow> 'e \<Rightarrow> bool) \<Rightarrow> 'e list \<Rightarrow> nat \<Rightarrow> bool" where
  "heap_up lt q k \<longleftrightarrow>
     (\<forall>i. 0 < i \<and> i < length q \<and> i \<noteq> k \<longrightarrow> \<not> lt (q ! i) (q ! parent i)) \<and>
     (\<forall>i. 0 < i \<and> i < length q \<and> parent i = k \<and> 0 < k \<longrightarrow> \<not> lt (q ! i) (q ! parent k))"

definition heap_down :: "('e \<Rightarrow> 'e \<Rightarrow> bool) \<Rightarrow> 'e list \<Rightarrow> nat \<Rightarrow> nat \<Rightarrow> bool" where
  "heap_down lt q lo k \<longleftrightarrow>
     (\<forall>i. 0 < i \<and> i < length q \<and> lo \<le> parent i \<and> parent i \<noteq> k \<longrightarrow> \<not> lt (q ! i) (q ! parent i)) \<and>
     (\<forall>i. 0 < i \<and> i < length q \<and> parent i = k \<and> 0 < k \<and> lo \<le> parent k \<longrightarrow>
        \<not> lt (q ! i) (q ! parent k))"

definition index_ok :: "'e nghttp2_pq \<Rightarrow> bool" where
  "index_ok pq \<longleftrightarrow> (\<forall>i < pq_length pq. pq_index pq (pq_q pq ! i) = i)"

lemma index_ok_distinct: "index_ok pq \<Longrightarrow> distinct (pq_q pq)"
  by (metis index_ok_def distinct_conv_nth)

lemma index_ok_swap:
  "index_ok pq \<Longrightarrow> i < pq_length pq \<Longrightarrow> j < pq_length pq \<Longrightarrow> index_ok (swap pq i j)"
  unfolding index_ok_def by (auto simp: nth_list_update) metis+

lemma mset_swap_pq:
  "i < pq_length pq \<Longrightarrow> j < pq_length pq \<Longrightarrow> mset (pq_q (swap pq i j)) = mset (pq_q pq)"
  by (simp add: mset_swap)

lemma parent_less: "0 < i \<Longrightarrow> parent i < i"
  by simp

lemma parent_eq_iff: "0 < i \<Longrightarrow> parent i = k \<longleftrightarrow> i = 2 * k + 1 \<or> i = 2 * k + 2"
  by linarith

lemma mset_replace_last:
  assumes "k < length q"
  shows "mset (butlast (q[k := last q])) = mset q - {#q ! k#}"
proof -
  have "last (q[k := last q]) = last q"
    using assms by (cases "q = []") (auto simp: last_list_update)
  then have "mset (butlast (q[k := last q])) = mset (q[k := last q]) - {#last q#}"
    using assms append_butlast_last_id [of "q[k := last q]"]
    by (metis add_diff_cancel_right' length_greater_0_conv length_list_update mset_append mset_single_iff_right
        not_less_zero gr0I)
  then show ?thesis using assms by (simp add: mset_update)
qed

lemma set_replace_last: "k < length q \<Longrightarrow> set (butlast (q[k := last q])) \<subseteq> set q"
  by (metis mset_replace_last set_mset_mset in_diffD subsetI)

lemma index_ok_replace_last:
  assumes "index_ok pq" "k < pq_length pq - 1"
  shows "index_ok (pq\<lparr>pq_q := butlast ((pq_q pq)[k := last (pq_q pq)]),
                      pq_index := (pq_index pq)(last (pq_q pq) := k)\<rparr>)"
proof -
  have ne: "pq_q pq ! i \<noteq> last (pq_q pq)" if "i < pq_length pq - 1" for i
    using index_ok_distinct [OF assms(1)] that nth_eq_iff_index_eq [of "pq_q pq" i "pq_length pq - 1"]
    by (cases "pq_q pq = []") (auto simp: last_conv_nth)
  have "\<And>i. i < pq_length pq - 1 \<Longrightarrow> pq_index pq (pq_q pq ! i) = i"
    using assms(1) unfolding index_ok_def by simp
  then show ?thesis
    unfolding index_ok_def using ne assms(2) by (auto simp: nth_butlast nth_list_update)
qed

lemma bubble_up_length [simp]: "pq_length (bubble_up lt pq k) = pq_length pq"
  by (induction lt pq k rule: bubble_up.induct) (subst bubble_up.simps, simp add: Let_def)

lemma bubble_down_length [simp]: "pq_length (bubble_down lt pq k) = pq_length pq"
  by (induction lt pq k rule: bubble_down.induct) (subst bubble_down.simps, simp add: Let_def)

definition pq_wf :: "('e \<Rightarrow> 'e \<Rightarrow> bool) \<Rightarrow> 'e nghttp2_pq \<Rightarrow> bool" where
  "pq_wf lt pq \<longleftrightarrow> heap_from lt (pq_q pq) 0 \<and> index_ok pq \<and> pq_length pq \<le> pq_capacity pq"

definition pq_elems :: "'e nghttp2_pq \<Rightarrow> 'e multiset" where
  "pq_elems pq = mset (pq_q pq)"

locale pq_order =
  fixes lt :: "'e \<Rightarrow> 'e \<Rightarrow> bool" and S :: "'e set"
  assumes lt_asym: "a \<in> S \<Longrightarrow> b \<in> S \<Longrightarrow> lt a b \<Longrightarrow> \<not> lt b a"
    and lt_negtrans: "a \<in> S \<Longrightarrow> b \<in> S \<Longrightarrow> c \<in> S \<Longrightarrow> \<not> lt a b \<Longrightarrow> \<not> lt b c \<Longrightarrow> \<not> lt a c"
begin

lemma heap_up_swap:
  assumes h: "heap_up lt q k" and S: "set q \<subseteq> S" and k: "0 < k" "k < length q"
    and lt: "lt (q ! k) (q ! parent k)"
  shows "heap_up lt (q[parent k := q ! k, k := q ! parent k]) (parent k)"
proof -
  let ?p = "parent k" and ?q = "q[parent k := q ! k, k := q ! parent k]"
  have p: "?p < k" using k by simp
  have mem: "\<And>i. i < length q \<Longrightarrow> q ! i \<in> S" using S by auto
  have nth: "\<And>i. i < length q \<Longrightarrow> ?q ! i = (if i = k then q ! ?p else if i = ?p then q ! k else q ! i)"
    using k p by (simp add: nth_list_update)
  have pk: "\<not> lt (q ! ?p) (q ! k)" using lt_asym [OF mem mem lt] k p by simp
  have sib: "\<not> lt (q ! i) (q ! k)" if "0 < i" "i < length q" "i \<noteq> k" "parent i = ?p" for i
  proof -
    have "\<not> lt (q ! i) (q ! ?p)" using h that unfolding heap_up_def by metis
    moreover have "q ! i \<in> S" "q ! k \<in> S" "q ! ?p \<in> S" using mem that k p by auto
    ultimately show ?thesis using lt lt_asym lt_negtrans by blast
  qed
  have a: "\<not> lt (?q ! i) (?q ! parent i)" if i: "0 < i" "i < length q" "i \<noteq> ?p" for i
  proof (cases "i = k")
    case True then show ?thesis using pk p k by (simp add: nth)
  next
    case False
    have pi: "parent i < length q" "parent i \<noteq> i" using i parent_less [of i] by auto
    consider "parent i = k" | "parent i = ?p" | "parent i \<noteq> k" "parent i \<noteq> ?p" by blast
    then show ?thesis
    proof cases
      case 1
      then show ?thesis using h i False k p unfolding heap_up_def by (simp add: nth)
    next
      case 2
      then show ?thesis using sib [of i] i False pi p by (simp add: nth)
    next
      case 3
      then show ?thesis using h i False pi unfolding heap_up_def by (simp add: nth)
    qed
  qed
  have b: "\<not> lt (?q ! i) (?q ! parent ?p)" if i: "0 < i" "i < length q" "parent i = ?p" "0 < ?p" for i
  proof -
    have pp: "parent ?p < ?p" by (rule parent_less [OF i(4)])
    then have pp2: "parent ?p < length q" using p k by linarith
    have gp: "\<not> lt (q ! ?p) (q ! parent ?p)" using h that p k unfolding heap_up_def by auto
    show ?thesis
    proof (cases "i = k")
      case True then show ?thesis using gp pp pp2 p k by (simp add: nth)
    next
      case False
      have "\<not> lt (q ! i) (q ! ?p)" using h i False unfolding heap_up_def by metis
      then have "\<not> lt (q ! i) (q ! parent ?p)" using gp lt_negtrans mem i pp2 p k by (meson order.strict_trans)
      moreover have "i \<noteq> ?p" using i parent_less [of i] by auto
      ultimately show ?thesis using False i pp pp2 p by (simp add: nth)
    qed
  qed
  show ?thesis unfolding heap_up_def using a b by simp
qed

lemma heap_down_swap:
  assumes h: "heap_down lt q lo k" and S: "set q \<subseteq> S" and c: "parent c = k" "0 < c" "c < length q"
    and lo: "lo \<le> k" and lt: "lt (q ! c) (q ! k)"
    and least: "\<And>i. 0 < i \<Longrightarrow> i < length q \<Longrightarrow> parent i = k \<Longrightarrow> \<not> lt (q ! i) (q ! c)"
  shows "heap_down lt (q[k := q ! c, c := q ! k]) lo c"
proof -
  let ?q = "q[k := q ! c, c := q ! k]"
  have kc: "k < c" using parent_less [OF c(2)] c(1) by simp
  have mem: "\<And>i. i < length q \<Longrightarrow> q ! i \<in> S" using S by auto
  have nth: "\<And>i. i < length q \<Longrightarrow> ?q ! i = (if i = c then q ! k else if i = k then q ! c else q ! i)"
    using kc c by (simp add: nth_list_update)
  have h1: "\<And>i. 0 < i \<Longrightarrow> i < length q \<Longrightarrow> lo \<le> parent i \<Longrightarrow> parent i \<noteq> k \<Longrightarrow> \<not> lt (q ! i) (q ! parent i)"
    and h2: "\<And>i. 0 < i \<Longrightarrow> i < length q \<Longrightarrow> parent i = k \<Longrightarrow> 0 < k \<Longrightarrow> lo \<le> parent k \<Longrightarrow> \<not> lt (q ! i) (q ! parent k)"
    using h unfolding heap_down_def by blast+
  have a: "\<not> lt (?q ! i) (?q ! parent i)" if i: "0 < i" "i < length q" "lo \<le> parent i" "parent i \<noteq> c" for i
  proof -
    have pi: "parent i < i" by (rule parent_less [OF i(1)])
    consider "i = c" | "i \<noteq> c" "parent i = k" | "i = k" | "i \<noteq> c" "i \<noteq> k" "parent i \<noteq> k" by blast
    then show ?thesis
    proof cases
      case 1
      then show ?thesis using lt_asym [OF mem mem lt] c kc by (simp add: nth)
    next
      case 2
      then show ?thesis using least [of i] i pi kc c by (simp add: nth)
    next
      case 3
      then show ?thesis using h2 [of c] c i pi kc by (simp add: nth)
    next
      case 4
      then show ?thesis using h1 [of i] i pi by (simp add: nth)
    qed
  qed
  have b: "\<not> lt (?q ! i) (?q ! parent c)" if i: "0 < i" "i < length q" "parent i = c" for i
  proof -
    have "parent i < i" by (rule parent_less [OF i(1)])
    then show ?thesis using h1 [of i] i lo kc c by (simp add: nth)
  qed
  show ?thesis unfolding heap_down_def length_list_update using a b by blast
qed

lemma heap_down_done:
  assumes "heap_down lt q lo k"
    and "\<And>i. 0 < i \<Longrightarrow> i < length q \<Longrightarrow> parent i = k \<Longrightarrow> \<not> lt (q ! i) (q ! k)"
  shows "heap_from lt q lo"
  using assms unfolding heap_down_def heap_from_def by blast

lemma bubble_up_correct:
  assumes "heap_up lt (pq_q pq) k" "set (pq_q pq) \<subseteq> S" "k < pq_length pq" "index_ok pq"
  shows "heap_from lt (pq_q (bubble_up lt pq k)) 0 \<and> index_ok (bubble_up lt pq k) \<and>
         mset (pq_q (bubble_up lt pq k)) = mset (pq_q pq) \<and>
         pq_capacity (bubble_up lt pq k) = pq_capacity pq"
  using assms
proof (induction k arbitrary: pq rule: less_induct)
  case (less k pq)
  note step = bubble_up.simps [of lt pq k]
  show ?case
  proof (cases "k \<noteq> 0 \<and> lt (pq_q pq ! k) (pq_q pq ! parent k)")
    case True
    let ?pq = "swap pq (parent k) k"
    have p: "parent k < k" using True parent_less [of k] by blast
    then have pl: "parent k < pq_length pq" using less.prems by linarith
    have "heap_up lt (pq_q ?pq) (parent k)"
      using heap_up_swap [of "pq_q pq" k] less.prems True by simp
    moreover have m: "mset (pq_q ?pq) = mset (pq_q pq)" using mset_swap_pq pl less.prems by blast
    moreover have "set (pq_q ?pq) = set (pq_q pq)" using m by (rule mset_eq_setD)
    moreover have "index_ok ?pq" using index_ok_swap pl less.prems by blast
    moreover have "bubble_up lt pq k = bubble_up lt ?pq (parent k)" using True by (simp add: step Let_def)
    ultimately show ?thesis using less.IH [OF p, of ?pq] less.prems pl by simp
  next
    case False
    then have "bubble_up lt pq k = pq" by (auto simp: step Let_def)
    moreover have "heap_from lt (pq_q pq) 0"
      using less.prems(1) False unfolding heap_up_def heap_from_def by (metis bot_nat_0.not_eq_extremum)
    ultimately show ?thesis using less by simp
  qed
qed

lemma min_child_least:
  assumes "set q \<subseteq> S" "k < length q" "0 < i" "i < length q" "parent i = k"
  shows "\<not> lt (q ! i) (q ! min_child lt q k)"
proof -
  have i: "i = k * 2 + 1 \<or> i = k * 2 + 2" using assms by linarith
  have mem: "\<And>j. j < length q \<Longrightarrow> q ! j \<in> S" using assms by auto
  have irr: "\<not> lt (q ! i) (q ! i)" using mem [OF assms(4)] lt_asym by blast
  let ?j = "k * 2 + 1" and ?r = "k * 2 + 2"
  have sib: "\<not> lt (q ! ?j) (q ! ?r)"
    if "?r < length q" "lt (q ! ?r) (q ! (if lt (q ! ?j) (q ! k) then ?j else k))"
  proof -
    have m: "q ! ?j \<in> S" "q ! ?r \<in> S" "q ! k \<in> S" using mem assms(2) that(1) by simp_all
    show ?thesis
    proof (cases "lt (q ! ?j) (q ! k)")
      case True
      then show ?thesis using that(2) lt_asym [OF m(2,1)] by simp
    next
      case False
      then have "\<not> lt (q ! k) (q ! ?r)" using that(2) lt_asym [OF m(2,3)] by simp
      then show ?thesis using lt_negtrans [OF m(1,3,2) False] by simp
    qed
  qed
  from i show ?thesis
  proof
    assume "i = ?j"
    then show ?thesis using sib irr assms(4) by (simp add: min_child_def Let_def)
  next
    assume "i = ?r"
    then show ?thesis using irr assms(4) by (simp add: min_child_def Let_def)
  qed
qed

lemma min_child_step:
  assumes "set q \<subseteq> S" "k < length q" "min_child lt q k \<noteq> k"
  shows "lt (q ! min_child lt q k) (q ! k)" "parent (min_child lt q k) = k"
proof -
  let ?j = "k * 2 + 1" and ?r = "k * 2 + 2"
  have mem: "\<And>j. j < length q \<Longrightarrow> q ! j \<in> S" using assms by auto
  have tr: "lt (q ! ?r) (q ! k)" if "?r < length q" "lt (q ! ?r) (q ! ?j)" "lt (q ! ?j) (q ! k)"
  proof -
    have m: "q ! ?j \<in> S" "q ! ?r \<in> S" "q ! k \<in> S" using mem assms(2) that(1) by simp_all
    then show ?thesis using that(2,3) lt_asym [OF m(1,3)] lt_negtrans [OF m(2,3,1)] by blast
  qed
  show "lt (q ! min_child lt q k) (q ! k)"
    using assms(3) tr by (simp add: min_child_def Let_def split: if_splits)
  show "parent (min_child lt q k) = k"
    using assms(3) by (simp add: min_child_def Let_def split: if_splits)
qed

lemma bubble_down_correct:
  assumes "heap_down lt (pq_q pq) lo k" "lo \<le> k" "set (pq_q pq) \<subseteq> S" "k < pq_length pq" "index_ok pq"
  shows "heap_from lt (pq_q (bubble_down lt pq k)) lo \<and> index_ok (bubble_down lt pq k) \<and>
         mset (pq_q (bubble_down lt pq k)) = mset (pq_q pq) \<and>
         pq_capacity (bubble_down lt pq k) = pq_capacity pq"
  using assms
proof (induction "pq_length pq - k" arbitrary: k pq rule: less_induct)
  case (less k pq)
  let ?c = "min_child lt (pq_q pq) k"
  note step = bubble_down.simps [of lt pq k]
  note least = min_child_least [OF less.prems(3,4)]
  show ?case
  proof (cases "?c = k")
    case True
    then have "bubble_down lt pq k = pq" by (simp add: step)
    moreover have "heap_from lt (pq_q pq) lo"
      using heap_down_done [OF less.prems(1)] least True by simp
    ultimately show ?thesis using less by simp
  next
    case False
    let ?pq = "swap pq k ?c"
    note c = min_child_step [OF less.prems(3,4) False] min_child_bounds [OF False]
    have "heap_down lt (pq_q ?pq) lo ?c"
      using heap_down_swap [OF less.prems(1,3) c(2) _ _ less.prems(2) c(1)] least c by simp
    moreover have m: "mset (pq_q ?pq) = mset (pq_q pq)" using mset_swap_pq c less.prems by blast
    moreover have "set (pq_q ?pq) = set (pq_q pq)" using m by (rule mset_eq_setD)
    moreover have "index_ok ?pq" using index_ok_swap c less.prems by blast
    moreover have "bubble_down lt pq k = bubble_down lt ?pq ?c" using False by (simp add: step Let_def)
    moreover have "pq_length ?pq - ?c < pq_length pq - k" using c(3) by (simp add: diff_less_mono2)
    ultimately show ?thesis using less.hyps [of ?pq ?c] less.prems c by simp
  qed
qed

lemma heap_from_top:
  assumes "heap_from lt q 0" "set q \<subseteq> S" "i < length q"
  shows "\<not> lt (q ! i) (q ! 0)"
  using assms(3)
proof (induction i rule: less_induct)
  case (less i)
  have mem: "\<And>j. j < length q \<Longrightarrow> q ! j \<in> S" using assms(2) by auto
  then have m: "q ! i \<in> S" "q ! 0 \<in> S" using less.prems mem [of 0] mem [of i] by linarith+
  show ?case
  proof (cases "i = 0")
    case True
    then show ?thesis using lt_asym m by blast
  next
    case False
    then have p: "parent i < i" by (intro parent_less) simp
    have pl: "parent i < length q" using p less.prems by (rule order.strict_trans)
    have "\<not> lt (q ! i) (q ! parent i)" using assms(1) False less.prems by (simp add: heap_from_def)
    then show ?thesis by (rule lt_negtrans [OF m(1) mem [OF pl] m(2) _ less.IH [OF p pl]])
  qed
qed

lemma heap_up_append:
  assumes "heap_from lt q 0"
  shows "heap_up lt (q @ [x]) (length q)"
proof -
  have "\<not> lt ((q @ [x]) ! i) ((q @ [x]) ! parent i)" if "0 < i" "i < length q" for i
    using assms that parent_less [OF that(1)] unfolding heap_from_def by (simp add: nth_append)
  moreover have "parent i \<noteq> length q" if "0 < i" "i < Suc (length q)" for i
    using parent_less [OF that(1)] that by linarith
  ultimately show ?thesis unfolding heap_up_def by (auto simp: less_Suc_eq)
qed

lemma heap_grandparent:
  assumes "heap_from lt q 0" "set q \<subseteq> S" "0 < i" "i < length q" "parent i = k" "0 < k"
  shows "\<not> lt (q ! i) (q ! parent k)"
proof -
  have p: "k < i" "parent k < k" using parent_less [OF assms(3)] parent_less [OF assms(6)] assms(5) by simp_all
  have m: "q ! i \<in> S" "q ! k \<in> S" "q ! parent k \<in> S"
    using assms(2,4) p by (auto intro!: subsetD [OF assms(2)] nth_mem)
  have "\<not> lt (q ! i) (q ! k)" "\<not> lt (q ! k) (q ! parent k)"
    using assms p unfolding heap_from_def by auto
  then show ?thesis by (rule lt_negtrans [OF m])
qed

lemma nth_replace_last:
  "i < length q - 1 \<Longrightarrow> butlast (q[k := x]) ! i = (if i = k then x else q ! i)"
  by (simp add: nth_butlast nth_list_update)

lemma replace_last_children:
  assumes "heap_from lt q 0" "set q \<subseteq> S" "0 < i" "i < length q - 1" "parent i = k" "0 < k"
  shows "\<not> lt (butlast (q[k := x]) ! i) (butlast (q[k := x]) ! parent k)"
proof -
  have p: "k < i" "parent k < k" using parent_less [OF assms(3)] parent_less [OF assms(6)] assms(5) by simp_all
  then have "parent k < length q - 1" using assms(4) by linarith
  then show ?thesis
    using heap_grandparent [OF assms(1-3) _ assms(5,6)] p assms(4)
    by (simp add: nth_replace_last)
qed

lemma heap_down_replace_last:
  assumes h: "heap_from lt q 0" and S: "set q \<subseteq> S" and k: "k < length q - 1"
    and lt: "k = 0 \<or> lt (q ! k) (last q)"
  shows "heap_down lt (butlast (q[k := last q])) 0 k"
proof -
  let ?q = "butlast (q[k := last q])"
  have h1: "\<And>i. 0 < i \<Longrightarrow> i < length q \<Longrightarrow> \<not> lt (q ! i) (q ! parent i)"
    using h unfolding heap_from_def by simp
  have mem: "\<And>i. i < length q \<Longrightarrow> q ! i \<in> S" using S by auto
  have last: "last q \<in> S" using S k last_in_set [of q] by (cases "q = []") auto
  have up: "\<not> lt (last q) (q ! parent k)" if "0 < k"
  proof -
    have p: "parent k < length q" "k < length q" using parent_less [OF that] k by linarith+
    have "\<not> lt (last q) (q ! k)" using lt that lt_asym [OF mem [OF p(2)] last] by simp
    then show ?thesis by (rule lt_negtrans [OF last mem [OF p(2)] mem [OF p(1)] _ h1 [OF that p(2)]])
  qed
  have a: "\<not> lt (?q ! i) (?q ! parent i)" if "0 < i" "i < length q - 1" "parent i \<noteq> k" for i
  proof -
    have p: "parent i < length q - 1" using parent_less [OF that(1)] that by linarith
    show ?thesis
      using nth_replace_last [OF that(2)] nth_replace_last [OF p] that up h1 [of i] by (cases "i = k") simp_all
  qed
  show ?thesis unfolding heap_down_def length_butlast length_list_update
    using a replace_last_children [OF h S] by blast
qed

lemma heap_up_replace_last:
  assumes h: "heap_from lt q 0" and S: "set q \<subseteq> S" and k: "k < length q - 1"
    and lt: "\<not> lt (q ! k) (last q)"
  shows "heap_up lt (butlast (q[k := last q])) k"
proof -
  let ?q = "butlast (q[k := last q])"
  have h1: "\<And>i. 0 < i \<Longrightarrow> i < length q \<Longrightarrow> \<not> lt (q ! i) (q ! parent i)"
    using h unfolding heap_from_def by simp
  have mem: "\<And>i. i < length q \<Longrightarrow> q ! i \<in> S" using S by auto
  have last: "last q \<in> S" using S k last_in_set [of q] by (cases "q = []") auto
  have a: "\<not> lt (?q ! i) (?q ! parent i)" if i: "0 < i" "i < length q - 1" "i \<noteq> k" for i
  proof -
    have p: "parent i < length q - 1" "i < length q" "k < length q"
      using parent_less [OF that(1)] that k by linarith+
    have "\<not> lt (q ! i) (last q)" if "parent i = k"
      using lt_negtrans [OF mem [OF p(2)] mem [OF p(3)] last] h1 [OF i(1) p(2)] lt that by simp
    then show ?thesis
      using nth_replace_last [OF i(2)] nth_replace_last [OF p(1)] i h1 [OF i(1) p(2)]
      by (cases "parent i = k") simp_all
  qed
  show ?thesis unfolding heap_up_def length_butlast length_list_update
    using a replace_last_children [OF h S] by blast
qed

lemma push_correct:
  assumes wf: "pq_wf lt pq" and S: "set (pq_q pq) \<subseteq> S" "item \<in> S" and new: "item \<notin># pq_elems pq"
    and push: "nghttp2_pq_push lt mem pq item = (Inr pq', mem')"
  shows "pq_wf lt pq' \<and> pq_elems pq' = add_mset item (pq_elems pq)"
proof -
  obtain cap where cap: "pq_length pq < cap"
    and pq': "pq' = bubble_up lt (pq\<lparr>pq_capacity := cap, pq_q := pq_q pq @ [item],
               pq_index := (pq_index pq)(item := pq_length pq)\<rparr>) (pq_length pq)"
  proof (cases "pq_capacity pq \<le> pq_length pq")
    case True
    have "pq_length pq < max 4 (pq_capacity pq * 2)" using wf True by (auto simp: pq_wf_def)
    then show thesis using that push True
      by (auto simp: nghttp2_pq_push_def Let_def split: prod.splits if_splits)
  next
    case False
    then show thesis using that [of "pq_capacity pq"] push
      by (auto simp: nghttp2_pq_push_def Let_def split: prod.splits if_splits)
  qed
  let ?pq = "pq\<lparr>pq_capacity := cap, pq_q := pq_q pq @ [item],
               pq_index := (pq_index pq)(item := pq_length pq)\<rparr>"
  have "index_ok ?pq"
    using wf new unfolding index_ok_def pq_wf_def pq_elems_def
    by (auto simp: nth_append less_Suc_eq)
  then show ?thesis
    using bubble_up_correct [of ?pq "pq_length pq"] heap_up_append [of "pq_q pq" item] wf S cap
    unfolding pq' pq_wf_def pq_elems_def by simp
qed

lemma pop_correct:
  assumes wf: "pq_wf lt pq" and S: "set (pq_q pq) \<subseteq> S" and ne: "pq_q pq \<noteq> []"
  shows "pq_wf lt (nghttp2_pq_pop lt pq) \<and>
         pq_elems (nghttp2_pq_pop lt pq) = pq_elems pq - {#pq_q pq ! 0#}"
proof -
  let ?l = "last (pq_q pq)"
  let ?pq = "pq\<lparr>pq_q := butlast ((pq_q pq)[0 := ?l]), pq_index := (pq_index pq)(?l := 0)\<rparr>"
  have pop: "nghttp2_pq_pop lt pq = bubble_down lt ?pq 0"
    using ne by (simp add: nghttp2_pq_pop_def last_conv_nth Let_def)
  have m: "mset (pq_q ?pq) = mset (pq_q pq) - {#pq_q pq ! 0#}" using mset_replace_last [of 0] ne by simp
  have sub: "set (pq_q ?pq) \<subseteq> S"
    using S set_replace_last [of 0 "pq_q pq"] ne by auto
  show ?thesis
  proof (cases "pq_length pq - 1 = 0")
    case True
    then have "pq_q ?pq = []" by (cases "pq_q pq") auto
    then have "bubble_down lt ?pq 0 = ?pq" by (simp add: bubble_down.simps [of _ _ 0] min_child_def)
    then show ?thesis using m True \<open>pq_q ?pq = []\<close>
      unfolding pop pq_wf_def pq_elems_def by (simp add: heap_from_def index_ok_def)
  next
    case False
    then have k: "0 < pq_length pq - 1" by simp
    have "heap_down lt (pq_q ?pq) 0 0"
      using heap_down_replace_last [OF _ S k] wf by (simp add: pq_wf_def)
    moreover have "index_ok ?pq" using index_ok_replace_last [OF _ k] wf by (simp add: pq_wf_def)
    ultimately show ?thesis
      using bubble_down_correct [of ?pq 0 0, OF _ _ sub] m k wf
      unfolding pop pq_wf_def pq_elems_def by auto
  qed
qed

lemma remove_correct:
  assumes wf: "pq_wf lt pq" and S: "set (pq_q pq) \<subseteq> S" and item: "item \<in># pq_elems pq"
  shows "\<exists>pq'. nghttp2_pq_remove lt pq item = Some pq' \<and> pq_wf lt pq' \<and>
                pq_elems pq' = pq_elems pq - {#item#}"
proof -
  let ?k = "pq_index pq item" and ?q = "pq_q pq" and ?l = "last (pq_q pq)"
  let ?pq = "pq\<lparr>pq_q := butlast (?q[?k := ?l]), pq_index := (pq_index pq)(?l := ?k)\<rparr>"
  obtain i where "i < length ?q" "?q ! i = item"
    using item by (auto simp: pq_elems_def in_set_conv_nth)
  then have k: "?k < length ?q" "?q ! ?k = item" using wf by (auto simp: pq_wf_def index_ok_def)
  have m: "mset (butlast (?q[?k := ?l])) = mset ?q - {#item#}" using mset_replace_last [OF k(1)] k by simp
  have heap: "heap_from lt ?q 0" and ix: "index_ok pq" and cap: "length ?q \<le> pq_capacity pq"
    using wf by (simp_all add: pq_wf_def)
  consider "?k = 0" | "?k \<noteq> 0" "?k = length ?q - 1" | "?k \<noteq> 0" "?k < length ?q - 1" using k(1) by linarith
  then show ?thesis
  proof cases
    case 1
    then have "nghttp2_pq_remove lt pq item = Some (nghttp2_pq_pop lt pq)"
      using k by (simp add: nghttp2_pq_remove_def)
    then show ?thesis using pop_correct [OF wf S] k 1 by auto
  next
    case 2
    then have bl: "butlast (?q[?k := ?l]) = butlast ?q" using k by (simp add: butlast_list_update)
    have "nghttp2_pq_remove lt pq item = Some (pq\<lparr>pq_q := butlast ?q\<rparr>)"
      using 2 k by (simp add: nghttp2_pq_remove_def)
    moreover have "heap_from lt (butlast ?q) 0"
    proof -
      have "parent i < length ?q - 1" if "0 < i" "i < length ?q - 1" for i
        using parent_less [OF that(1)] that by linarith
      then show ?thesis using heap by (auto simp: heap_from_def nth_butlast)
    qed
    moreover have "index_ok (pq\<lparr>pq_q := butlast ?q\<rparr>)" using ix by (simp add: index_ok_def nth_butlast)
    ultimately show ?thesis using cap m bl by (simp add: pq_wf_def pq_elems_def)
  next
    case 3
    have sub: "set (pq_q ?pq) \<subseteq> S" using S set_replace_last [OF k(1)] by auto
    have ixp: "index_ok ?pq" using index_ok_replace_last [OF ix 3(2)] by simp
    have lk: "?k < pq_length ?pq" using 3 by simp
    have l: "?q ! (length ?q - Suc 0) = ?l" using k(1) by (cases "?q = []") (auto simp: last_conv_nth)
    show ?thesis
    proof (cases "lt item ?l")
      case True
      have "nghttp2_pq_remove lt pq item = Some (bubble_down lt ?pq ?k)"
        using 3 k True by (simp add: nghttp2_pq_remove_def Let_def l)
      then show ?thesis
        using bubble_down_correct [of ?pq 0 ?k, OF _ _ sub lk ixp] heap_down_replace_last [OF heap S 3(2)]
          True k m cap by (auto simp: pq_wf_def pq_elems_def)
    next
      case False
      have "nghttp2_pq_remove lt pq item = Some (bubble_up lt ?pq ?k)"
        using 3 k False by (simp add: nghttp2_pq_remove_def Let_def l)
      then show ?thesis
        using bubble_up_correct [of ?pq ?k, OF _ sub lk ixp] heap_up_replace_last [OF heap S 3(2)]
          False k m cap by (auto simp: pq_wf_def pq_elems_def)
    qed
  qed
qed

lemma rebuild_correct:
  assumes "heap_from lt (pq_q pq) n" "set (pq_q pq) \<subseteq> S" "n \<le> pq_length pq" "index_ok pq"
  shows "heap_from lt (pq_q (pq_rebuild lt pq n)) 0 \<and> index_ok (pq_rebuild lt pq n) \<and>
         mset (pq_q (pq_rebuild lt pq n)) = mset (pq_q pq) \<and>
         pq_capacity (pq_rebuild lt pq n) = pq_capacity pq"
  using assms
proof (induction n arbitrary: pq)
  case 0
  then show ?case by simp
next
  case (Suc n)
  have "heap_down lt (pq_q pq) n n"
    using Suc.prems(1) unfolding heap_from_def heap_down_def
    by (metis Suc_leI le_antisym le_less_linear less_imp_le_nat not_less_eq_eq parent_less)
  then have d: "heap_from lt (pq_q (bubble_down lt pq n)) n \<and> index_ok (bubble_down lt pq n) \<and>
       mset (pq_q (bubble_down lt pq n)) = mset (pq_q pq) \<and> pq_capacity (bubble_down lt pq n) = pq_capacity pq"
    using bubble_down_correct [of pq n n] Suc.prems by simp
  then have "set (pq_q (bubble_down lt pq n)) = set (pq_q pq)" "pq_length (bubble_down lt pq n) = pq_length pq"
    by (auto dest: mset_eq_setD mset_eq_length)
  then show ?case using Suc.IH [of "bubble_down lt pq n"] Suc.prems d by simp
qed

end

section \<open>The contract its clients rely on\<close>

text \<open>Repeated \<^verbatim>\<open>nghttp2_pq_top\<close>/\<^verbatim>\<open>nghttp2_pq_pop\<close>, the way the stream scheduler consumes a queue.\<close>

fun pq_drain :: "('q \<Rightarrow> 'e option) \<Rightarrow> ('q \<Rightarrow> 'q) \<Rightarrow> nat \<Rightarrow> 'q \<Rightarrow> 'e list" where
  "pq_drain peek pop 0 pq = []"
| "pq_drain peek pop (Suc n) pq =
     (case peek pq of None \<Rightarrow> [] | Some e \<Rightarrow> e # pq_drain peek pop n (pop pq))"

locale min_queue =
  fixes lt :: "'e \<Rightarrow> 'e \<Rightarrow> bool" and S :: "'e set" and wf :: "'q \<Rightarrow> bool" and elems :: "'q \<Rightarrow> 'e multiset"
    and peek :: "'q \<Rightarrow> 'e option" and pop :: "'q \<Rightarrow> 'q"
  assumes top_None: "wf q \<Longrightarrow> peek q = None \<Longrightarrow> elems q = {#}"
    and top_Some: "wf q \<Longrightarrow> set_mset (elems q) \<subseteq> S \<Longrightarrow> peek q = Some x \<Longrightarrow>
        x \<in># elems q \<and> (\<forall>y. y \<in># elems q \<longrightarrow> \<not> lt y x)"
    and pop_Some: "wf q \<Longrightarrow> set_mset (elems q) \<subseteq> S \<Longrightarrow> peek q = Some x \<Longrightarrow>
        wf (pop q) \<and> elems (pop q) = elems q - {#x#}"
begin

lemma drain_sorted:
  assumes "wf q" "set_mset (elems q) \<subseteq> S" "size (elems q) \<le> n"
  shows "mset (pq_drain peek pop n q) = elems q \<and> sorted_wrt (\<lambda>x y. \<not> lt y x) (pq_drain peek pop n q)"
  using assms
proof (induction n arbitrary: q)
  case 0
  then show ?case by simp
next
  case (Suc n)
  show ?case
  proof (cases "peek q")
    case None
    then show ?thesis using top_None [OF Suc.prems(1)] by simp
  next
    case (Some x)
    note t = top_Some [OF Suc.prems(1,2) Some] and p = pop_Some [OF Suc.prems(1,2) Some]
    have "set_mset (elems (pop q)) \<subseteq> S" using p Suc.prems(2) by (auto dest: in_diffD)
    moreover have "size (elems (pop q)) \<le> n" using p t Suc.prems(3) by (simp add: size_Diff_singleton)
    ultimately have ih: "mset (pq_drain peek pop n (pop q)) = elems (pop q)"
      "sorted_wrt (\<lambda>x y. \<not> lt y x) (pq_drain peek pop n (pop q))" using Suc.IH p by blast+
    have "\<not> lt y x" if "y \<in> set (pq_drain peek pop n (pop q))" for y
      using that t p ih(1) by (metis in_diffD set_mset_mset)
    then show ?thesis using ih p t Some by simp
  qed
qed

end

sublocale pq_order \<subseteq> scheduler: min_queue lt S "pq_wf lt" pq_elems nghttp2_pq_top "nghttp2_pq_pop lt"
proof unfold_locales
  fix q :: "'e nghttp2_pq" and x
  assume wf: "pq_wf lt q"
  show "nghttp2_pq_top q = None \<Longrightarrow> pq_elems q = {#}"
    by (auto simp: nghttp2_pq_top_def pq_elems_def split: if_splits)
  assume S: "set_mset (pq_elems q) \<subseteq> S" and peek: "nghttp2_pq_top q = Some x"
  have x: "pq_q q \<noteq> []" "x = pq_q q ! 0" using peek by (auto simp: nghttp2_pq_top_def split: if_splits)
  have S': "set (pq_q q) \<subseteq> S" using S by (simp add: pq_elems_def)
  have "\<not> lt y x" if "y \<in> set (pq_q q)" for y
    using that heap_from_top [OF _ S'] wf x by (auto simp: pq_wf_def in_set_conv_nth)
  then show "x \<in># pq_elems q \<and> (\<forall>y. y \<in># pq_elems q \<longrightarrow> \<not> lt y x)"
    using x by (simp add: pq_elems_def)
  show "pq_wf lt (nghttp2_pq_pop lt q) \<and> pq_elems (nghttp2_pq_pop lt q) = pq_elems q - {#x#}"
    using pop_correct [OF wf S' x(1)] x(2) by simp
qed

context pq_order
begin

lemmas drain_correct = scheduler.drain_sorted

end

section \<open>Properties\<close>

lemma nat_pq_order: "pq_order ((<) :: nat \<Rightarrow> nat \<Rightarrow> bool) UNIV"
  by unfold_locales auto

lemma pq_wf_init: "pq_wf lt (nghttp2_pq_init idx)"
  by (simp add: pq_wf_def nghttp2_pq_init_def heap_from_def index_ok_def)

text \<open>
  C25: pushing an entry that is not queued keeps the heap order, the intrusive indices and the capacity
  bound, and adds exactly that entry; if the array cannot grow, the only error is NGHTTP2_ERR_NOMEM.
\<close>

theorem pq_push_keeps_heap:
  assumes "pq_order lt S" "pq_wf lt pq" "set_mset (pq_elems pq) \<subseteq> S" "item \<in> S" "item \<notin># pq_elems pq"
  shows "case fst (nghttp2_pq_push lt mem pq item) of
           Inl e \<Rightarrow> e = ERR_NOMEM \<and> \<not> mem_reliable mem
         | Inr pq' \<Rightarrow> pq_wf lt pq' \<and> pq_elems pq' = add_mset item (pq_elems pq)"
proof (cases "nghttp2_pq_push lt mem pq item")
  case (Pair r mem')
  show ?thesis
  proof (cases r)
    case (Inl e)
    then show ?thesis using Pair
      by (auto simp: nghttp2_pq_push_def Let_def mem_call_def mem_reliable_def split: prod.splits if_splits list.splits)
  next
    case (Inr pq')
    then show ?thesis
      using pq_order.push_correct [OF assms(1,2) _ assms(4,5), of mem pq' mem'] Pair assms(3)
      by (simp add: pq_elems_def)
  qed
qed

definition pq_sample :: "nat nghttp2_pq" where
  "pq_sample = \<lparr>pq_q = [1, 5, 3], pq_capacity = 4, pq_index = (\<lambda>_. 0)(5 := 1, 3 := 2)\<rparr>"

lemma pq_wf_code:
  "pq_wf lt pq \<longleftrightarrow> list_all (\<lambda>i. \<not> lt (pq_q pq ! i) (pq_q pq ! parent i)) [1..<pq_length pq] \<and>
     list_all (\<lambda>i. pq_index pq (pq_q pq ! i) = i) [0..<pq_length pq] \<and> pq_length pq \<le> pq_capacity pq"
  by (auto simp: pq_wf_def heap_from_def index_ok_def list_all_iff)

lemma pq_sample_wf: "pq_wf (<) pq_sample"
  by (simp add: pq_wf_code pq_sample_def upt_rec)

lemma pq_sample_elems: "pq_elems pq_sample = {#1, 5, 3#}"
  by (simp add: pq_elems_def pq_sample_def)

theorem pq_push_keeps_heap_witness:
  "\<exists>pq'. fst (nghttp2_pq_push (<) \<lparr>mem_ok = [], mem_junk = \<lambda>_. 0\<rparr> pq_sample 2) = Inr pq' \<and>
     pq_wf (<) pq' \<and> pq_elems pq' = {#2, 1, 5, 3#}"
  using pq_push_keeps_heap [OF nat_pq_order pq_sample_wf, of 2 "\<lparr>mem_ok = [], mem_junk = \<lambda>_. 0\<rparr>"]
  by (simp add: pq_sample_elems mem_reliable_def split: sum.splits)

text \<open>
  C9: in a queue that satisfies the invariant, for a comparison that orders its entries, removing a queued
  entry succeeds (the assertion on its index never fails), keeps the invariant and removes exactly that
  entry, wherever it is in the array; removing the entry at the top has the result of \<^verbatim>\<open>nghttp2_pq_pop\<close>.
\<close>

theorem pq_remove_exact:
  assumes "pq_order lt S" "pq_wf lt pq" "set_mset (pq_elems pq) \<subseteq> S" "item \<in># pq_elems pq"
  shows "\<exists>pq'. nghttp2_pq_remove lt pq item = Some pq' \<and> pq_wf lt pq' \<and>
                pq_elems pq' = pq_elems pq - {#item#} \<and>
                (nghttp2_pq_top pq = Some item \<longrightarrow> pq' = nghttp2_pq_pop lt pq)"
proof -
  have "nghttp2_pq_remove lt pq item = Some (nghttp2_pq_pop lt pq)" if "nghttp2_pq_top pq = Some item"
    using that assms(2) by (auto simp: nghttp2_pq_remove_def nghttp2_pq_top_def pq_wf_def index_ok_def split: if_splits)
  then show ?thesis
    using pq_order.remove_correct [OF assms(1,2) _ assms(4)] assms(3) by (auto simp: pq_elems_def)
qed

theorem pq_remove_exact_witness:
  "(\<exists>pq'. nghttp2_pq_remove (<) pq_sample 5 = Some pq' \<and> pq_wf (<) pq' \<and> pq_elems pq' = {#1, 3#}) \<and>
   nghttp2_pq_remove (<) pq_sample 1 = Some (nghttp2_pq_pop (<) pq_sample)"
proof -
  have "nghttp2_pq_top pq_sample = Some 1" by (simp add: pq_sample_def nghttp2_pq_top_def)
  then show ?thesis
    using pq_remove_exact [OF nat_pq_order pq_sample_wf, of 5] pq_remove_exact [OF nat_pq_order pq_sample_wf, of 1]
    by (auto simp: pq_sample_elems)
qed

text \<open>
  C26: \<^verbatim>\<open>nghttp2_pq_update\<close>, whose callback may rewrite the ordering keys of every entry, leaves a heap for the
  keys after the callback, with the same entries: either the callback reported a change and the heap is
  rebuilt, or it reported none and the caller promises that the old order still stands.
\<close>

theorem pq_update_restores_heap:
  assumes "pq_order (lt s') S" "pq_wf (lt s) pq" "set_mset (pq_elems pq) \<subseteq> S"
    and "pq_update_loop f s (pq_q pq) = (s', changed)" "\<not> changed \<Longrightarrow> lt s' = lt s"
  shows "let (s1, pq') = nghttp2_pq_update lt f s pq in
           pq_wf (lt s1) pq' \<and> pq_elems pq' = pq_elems pq"
proof (cases "pq_q pq = [] \<or> \<not> changed")
  case True
  then show ?thesis using assms by (auto simp: nghttp2_pq_update_def Let_def)
next
  case False
  have "heap_from (lt s') (pq_q pq) (pq_length pq)"
    unfolding heap_from_def using parent_less by (meson leD order.strict_trans)
  then have "heap_from (lt s') (pq_q (pq_rebuild (lt s') pq (pq_length pq))) 0 \<and>
      index_ok (pq_rebuild (lt s') pq (pq_length pq)) \<and>
      mset (pq_q (pq_rebuild (lt s') pq (pq_length pq))) = mset (pq_q pq) \<and>
      pq_capacity (pq_rebuild (lt s') pq (pq_length pq)) = pq_capacity pq"
    using pq_order.rebuild_correct [OF assms(1)] assms(2,3) by (simp add: pq_wf_def pq_elems_def)
  then show ?thesis using assms(2,4) False
    by (auto simp: nghttp2_pq_update_def Let_def pq_wf_def pq_elems_def dest: mset_eq_length)
qed

theorem pq_update_restores_heap_witness:
  "let (s1, pq') = nghttp2_pq_update (\<lambda>k a b. (a + k) mod 6 < (b + k) mod 6) (\<lambda>k e. (k + 1, True)) 0 pq_sample in
     pq_wf (\<lambda>a b. (a + s1) mod 6 < (b + s1) mod 6) pq' \<and> pq_elems pq' = {#1, 5, 3 :: nat#}"
proof -
  have o: "pq_order (\<lambda>a b :: nat. (a + 3) mod 6 < (b + 3) mod 6) UNIV" by unfold_locales auto
  have "pq_wf (\<lambda>a b. (a + 0) mod 6 < (b + 0) mod 6) pq_sample"
    by (simp add: pq_wf_code pq_sample_def upt_rec)
  then show ?thesis
    using pq_update_restores_heap [where lt = "\<lambda>k a b. (a + k) mod 6 < (b + k) mod 6" and s = 0 and pq = pq_sample
        and f = "\<lambda>k e. (k + 1, True)" and s' = 3 and changed = True, OF o]
    by (simp add: pq_sample_elems) (simp add: pq_sample_def)
qed

text \<open>
  C18: taking the top and popping it until the queue is empty yields every entry exactly once, in priority
  order: no entry comes out before one that is smaller.
\<close>

theorem pq_drain_in_order:
  assumes "pq_order lt S" "pq_wf lt pq" "set_mset (pq_elems pq) \<subseteq> S" "nghttp2_pq_size pq \<le> n"
  shows "mset (pq_drain nghttp2_pq_top (nghttp2_pq_pop lt) n pq) = pq_elems pq \<and>
         sorted_wrt (\<lambda>x y. \<not> lt y x) (pq_drain nghttp2_pq_top (nghttp2_pq_pop lt) n pq)"
  using pq_order.drain_correct [OF assms(1-3), of n] assms(4)
  by (simp add: pq_elems_def nghttp2_pq_size_def)

theorem pq_drain_in_order_witness:
  "nghttp2_pq_size pq_sample \<le> 3 \<and>
   mset (pq_drain nghttp2_pq_top (nghttp2_pq_pop (<)) 3 pq_sample) = {#1, 5, 3#} \<and>
   sorted_wrt (\<lambda>x y. \<not> y < x) (pq_drain nghttp2_pq_top (nghttp2_pq_pop (<)) 3 pq_sample)"
proof -
  have "nghttp2_pq_size pq_sample \<le> 3" by (simp add: nghttp2_pq_size_def pq_sample_def)
  then show ?thesis using pq_drain_in_order [OF nat_pq_order pq_sample_wf, of 3] by (simp add: pq_sample_elems)
qed

end
