(* ===== verification/Hash_Map.thy ===== *)
theory Hash_Map
  imports Nghttp2_Prelude
begin

unbundle bit_operations_syntax

text \<open>
  \<^verbatim>\<open>lib/nghttp2_map.c\<close>: the chained hash table that maps stream ids to streams.

  A bucket is the list of the entries its \<^verbatim>\<open>next\<close> pointers link, each entry its key with the object it
  is embedded in.  Keys are \<^verbatim>\<open>int32_t\<close> and are only compared and hashed through \<^verbatim>\<open>(uint32_t)key\<close>, so
  they are 32-bit words here.  An entry handed to \<^verbatim>\<open>nghttp2_map_insert\<close> comes with the chain its own \<^verbatim>\<open>next\<close>
  pointer refers to, which the code does not reset when the bucket is empty; \<^verbatim>\<open>nghttp2_map_entry_init\<close>
  makes it empty.
\<close>

type_synonym 'a map_chain = "(u32 \<times> 'a) list"

record 'a nghttp2_map =
  table :: "'a map_chain list"
  map_size :: nat
  tablelen :: u32

section \<open>Operations\<close>

definition INITIAL_TABLE_LENGTH :: u32 where
  "INITIAL_TABLE_LENGTH = 256"

definition calloc_table :: "u32 \<Rightarrow> 'a map_chain list" where
  "calloc_table n = replicate (unat n) []"

definition nghttp2_map_init :: "nghttp2_mem \<Rightarrow> (nghttp2_error + 'a nghttp2_map) \<times> nghttp2_mem" where
  "nghttp2_map_init mem =
     (let (ok, mem1) = mem_call mem in
      if ok then
        (Inr \<lparr>table = calloc_table INITIAL_TABLE_LENGTH, map_size = 0, tablelen = INITIAL_TABLE_LENGTH\<rparr>, mem1)
      else (Inl ERR_NOMEM, mem1))"

text \<open>The entry with its \<^verbatim>\<open>next\<close> chain.\<close>

definition nghttp2_map_entry_init :: "'a \<Rightarrow> u32 \<Rightarrow> (u32 \<times> 'a) \<times> 'a map_chain" where
  "nghttp2_map_entry_init obj key = ((key, obj), [])"

definition hash :: "u32 \<Rightarrow> u32 \<Rightarrow> u32" where
  "hash key md =
     (let h = key;
          h1 = h XOR (drop_bit 20 h XOR drop_bit 12 h);
          h2 = h1 XOR (drop_bit 7 h1 XOR drop_bit 4 h1) in
      h2 AND (md - 1))"

definition insert_tbl ::
  "'a map_chain list \<Rightarrow> u32 \<Rightarrow> (u32 \<times> 'a) \<times> 'a map_chain \<Rightarrow> (nghttp2_error + unit) \<times> 'a map_chain list" where
  "insert_tbl tbl len ent =
     (let (entry, nxt) = ent; h = unat (hash (fst entry) len) in
      if tbl ! h = [] then (Inr (), tbl[h := entry # nxt])
      else if list_ex (\<lambda>p. fst p = fst entry) (tbl ! h) then (Inl ERR_INVALID_ARGUMENT, tbl)
      else (Inr (), tbl[h := entry # tbl ! h]))"

text \<open>The inner and the outer loop of \<^verbatim>\<open>resize\<close>; the result of \<^verbatim>\<open>insert\<close> is ignored there.\<close>

definition rehash_chain :: "u32 \<Rightarrow> 'a map_chain list \<Rightarrow> 'a map_chain \<Rightarrow> 'a map_chain list" where
  "rehash_chain len tbl chain = foldl (\<lambda>t e. snd (insert_tbl t len (e, []))) tbl chain"

definition resize :: "nghttp2_mem \<Rightarrow> 'a nghttp2_map \<Rightarrow> u32 \<Rightarrow> (nghttp2_error + unit) \<times> 'a nghttp2_map \<times> nghttp2_mem"
  where
  "resize mem m new_tablelen =
     (let (ok, mem1) = mem_call mem in
      if \<not> ok then (Inl ERR_NOMEM, m, mem1)
      else
        (Inr (), m\<lparr>table := foldl (rehash_chain new_tablelen) (calloc_table new_tablelen)
                            (take (unat (tablelen m)) (table m)),
                   tablelen := new_tablelen\<rparr>, mem1))"

text \<open>\<^verbatim>\<open>size\<close> is a \<^verbatim>\<open>size_t\<close>, but \<^verbatim>\<open>tablelen * 3\<close> and \<^verbatim>\<open>tablelen * 2\<close> are computed in 32 bits.\<close>

definition nghttp2_map_insert ::
  "nghttp2_mem \<Rightarrow> 'a nghttp2_map \<Rightarrow> (u32 \<times> 'a) \<times> 'a map_chain \<Rightarrow>
   (nghttp2_error + unit) \<times> 'a nghttp2_map \<times> nghttp2_mem" where
  "nghttp2_map_insert mem m new_entry =
     (let (rv, m1, mem1) =
        (if (map_size m + 1) * 4 > unat (tablelen m * 3) then resize mem m (tablelen m * 2)
         else (Inr (), m, mem)) in
      case rv of
        Inl e \<Rightarrow> (Inl e, m1, mem1)
      | Inr _ \<Rightarrow>
          (case insert_tbl (table m1) (tablelen m1) new_entry of
             (Inl e, _) \<Rightarrow> (Inl e, m1, mem1)
           | (Inr _, t) \<Rightarrow> (Inr (), m1\<lparr>table := t, map_size := map_size m1 + 1\<rparr>, mem1)))"

definition nghttp2_map_find :: "'a nghttp2_map \<Rightarrow> u32 \<Rightarrow> 'a option" where
  "nghttp2_map_find m key =
     map_option snd (List.find (\<lambda>e. fst e = key) (table m ! unat (hash key (tablelen m))))"

fun unlink_key :: "u32 \<Rightarrow> 'a map_chain \<Rightarrow> 'a map_chain option" where
  "unlink_key key [] = None"
| "unlink_key key (e # es) =
     (if fst e \<noteq> key then map_option ((#) e) (unlink_key key es) else Some es)"

definition nghttp2_map_remove :: "'a nghttp2_map \<Rightarrow> u32 \<Rightarrow> (nghttp2_error + unit) \<times> 'a nghttp2_map" where
  "nghttp2_map_remove m key =
     (let h = unat (hash key (tablelen m)) in
      case unlink_key key (table m ! h) of
        None \<Rightarrow> (Inl ERR_INVALID_ARGUMENT, m)
      | Some chain \<Rightarrow> (Inr (), m\<lparr>table := (table m)[h := chain], map_size := map_size m - 1\<rparr>))"

definition nghttp2_map_size :: "'a nghttp2_map \<Rightarrow> nat" where
  "nghttp2_map_size m = map_size m"

text \<open>\<^verbatim>\<open>nghttp2_map_each\<close> stops at the first non-zero return value; \<^verbatim>\<open>nghttp2_map_each_free\<close> ignores them.\<close>

fun each_chain :: "('s \<Rightarrow> u32 \<times> 'a \<Rightarrow> int \<times> 's) \<Rightarrow> 's \<Rightarrow> 'a map_chain \<Rightarrow> int \<times> 's" where
  "each_chain f s [] = (0, s)"
| "each_chain f s (e # es) = (let (rv, s1) = f s e in if rv \<noteq> 0 then (rv, s1) else each_chain f s1 es)"

fun each_table :: "('s \<Rightarrow> u32 \<times> 'a \<Rightarrow> int \<times> 's) \<Rightarrow> 's \<Rightarrow> 'a map_chain list \<Rightarrow> int \<times> 's" where
  "each_table f s [] = (0, s)"
| "each_table f s (c # cs) =
     (let (rv, s1) = each_chain f s c in if rv \<noteq> 0 then (rv, s1) else each_table f s1 cs)"

definition nghttp2_map_each :: "('s \<Rightarrow> u32 \<times> 'a \<Rightarrow> int \<times> 's) \<Rightarrow> 's \<Rightarrow> 'a nghttp2_map \<Rightarrow> int \<times> 's" where
  "nghttp2_map_each f s m = each_table f s (take (unat (tablelen m)) (table m))"

definition nghttp2_map_each_free ::
  "('s \<Rightarrow> u32 \<times> 'a \<Rightarrow> int \<times> 's) \<Rightarrow> 's \<Rightarrow> 'a nghttp2_map \<Rightarrow> 's \<times> 'a nghttp2_map" where
  "nghttp2_map_each_free f s m =
     (foldl (\<lambda>s e. snd (f s e)) s (concat (take (unat (tablelen m)) (table m))),
      m\<lparr>table := map (\<lambda>_. []) (take (unat (tablelen m)) (table m)) @ drop (unat (tablelen m)) (table m)\<rparr>)"

section \<open>Invariant and abstraction\<close>

definition tbl_wf :: "u32 \<Rightarrow> 'a map_chain list \<Rightarrow> bool" where
  "tbl_wf len tbl \<longleftrightarrow> len \<noteq> 0 \<and> length tbl = unat len \<and>
     (\<forall>h < length tbl. distinct (map fst (tbl ! h)) \<and> (\<forall>e \<in> set (tbl ! h). unat (hash (fst e) len) = h))"

definition tbl_abs :: "u32 \<Rightarrow> 'a map_chain list \<Rightarrow> u32 \<rightharpoonup> 'a" where
  "tbl_abs len tbl key = map_of (tbl ! unat (hash key len)) key"

definition tbl_count :: "'a map_chain list \<Rightarrow> nat" where
  "tbl_count tbl = sum_list (map length tbl)"

definition pow2_len :: "u32 \<Rightarrow> bool" where
  "pow2_len len \<longleftrightarrow> (\<exists>k. k \<le> 30 \<and> len = 2 ^ k)"

definition map_wf :: "'a nghttp2_map \<Rightarrow> bool" where
  "map_wf m \<longleftrightarrow> tbl_wf (tablelen m) (table m) \<and> map_size m = tbl_count (table m) \<and>
     pow2_len (tablelen m)"

definition map_abs :: "'a nghttp2_map \<Rightarrow> u32 \<rightharpoonup> 'a" where
  "map_abs m = tbl_abs (tablelen m) (table m)"

lemma hash_less: "len \<noteq> 0 \<Longrightarrow> unat (hash key len) < unat len"
proof -
  assume "len \<noteq> 0"
  have "hash key len \<le> len - 1" by (simp add: hash_def Let_def word_and_le1)
  also have "len - 1 < len" using \<open>len \<noteq> 0\<close> by (simp add: word_less_nat_alt unat_minus_one unat_gt_0)
  finally show ?thesis by (simp add: word_less_nat_alt)
qed

lemma tbl_count_update: "h < length t \<Longrightarrow> tbl_count (t[h := c]) + length (t ! h) = tbl_count t + length c"
proof -
  assume h: "h < length t"
  have "length (t ! h) \<le> tbl_count t"
    using h unfolding tbl_count_def by (auto intro!: member_le_sum_list)
  then show ?thesis using h by (simp add: tbl_count_def map_update sum_list_update)
qed

lemma list_ex_key: "list_ex (\<lambda>p. fst p = k) es \<longleftrightarrow> map_of es k \<noteq> None"
  by (induction es) auto

lemma tbl_wf_update:
  assumes "tbl_wf len t" "h < length t" "distinct (map fst c)" "\<And>e. e \<in> set c \<Longrightarrow> unat (hash (fst e) len) = h"
  shows "tbl_wf len (t[h := c])"
  using assms by (auto simp: tbl_wf_def nth_list_update)

lemma tbl_abs_update:
  assumes "tbl_wf len t" "h < length t" "\<And>k. unat (hash k len) = h \<Longrightarrow> map_of c k = g k"
    and "\<And>k. unat (hash k len) \<noteq> h \<Longrightarrow> g k = tbl_abs len t k"
  shows "tbl_abs len (t[h := c]) = g"
  using assms by (auto simp: tbl_abs_def fun_eq_iff nth_list_update)

lemma insert_tbl_dup:
  "tbl_abs len t k \<noteq> None \<Longrightarrow> insert_tbl t len ((k, v), nxt) = (Inl ERR_INVALID_ARGUMENT, t)"
  by (auto simp: insert_tbl_def Let_def list_ex_key tbl_abs_def)

lemma insert_tbl_new:
  assumes wf: "tbl_wf len t" and new: "tbl_abs len t k = None"
  shows "\<exists>t'. insert_tbl t len ((k, v), []) = (Inr (), t') \<and> tbl_wf len t' \<and>
              tbl_abs len t' = (tbl_abs len t)(k \<mapsto> v) \<and> tbl_count t' = Suc (tbl_count t)"
proof -
  let ?h = "unat (hash k len)"
  let ?t = "t[?h := (k, v) # t ! ?h]"
  have h: "?h < length t" using wf hash_less by (simp add: tbl_wf_def)
  have "insert_tbl t len ((k, v), []) = (Inr (), ?t)"
    using new by (auto simp: insert_tbl_def Let_def list_ex_key tbl_abs_def)
  moreover have "k \<notin> fst ` set (t ! ?h)" using new by (simp add: tbl_abs_def map_of_eq_None_iff)
  then have "tbl_wf len ?t" using wf h by (intro tbl_wf_update) (auto simp: tbl_wf_def)
  moreover have "tbl_abs len ?t = (tbl_abs len t)(k \<mapsto> v)"
    using wf h by (intro tbl_abs_update) (auto simp: tbl_abs_def)
  moreover have "tbl_count ?t = Suc (tbl_count t)" using tbl_count_update [OF h, of "(k, v) # t ! ?h"] by simp
  ultimately show ?thesis by blast
qed

lemma rehash_entries:
  assumes "tbl_wf len t" "distinct (map fst es)" "\<And>k. k \<in> fst ` set es \<Longrightarrow> tbl_abs len t k = None"
  shows "tbl_wf len (rehash_chain len t es) \<and>
         tbl_abs len (rehash_chain len t es) = tbl_abs len t ++ map_of es \<and>
         tbl_count (rehash_chain len t es) = tbl_count t + length es"
  using assms
proof (induction es arbitrary: t)
  case Nil
  then show ?case by (simp add: rehash_chain_def)
next
  case (Cons e es)
  obtain k v where e: "e = (k, v)" by force
  obtain t' where t': "insert_tbl t len ((k, v), []) = (Inr (), t')" "tbl_wf len t'"
    "tbl_abs len t' = (tbl_abs len t)(k \<mapsto> v)" "tbl_count t' = Suc (tbl_count t)"
    using insert_tbl_new [OF Cons.prems(1), of k v] Cons.prems(3) e by auto
  have step: "rehash_chain len t (e # es) = rehash_chain len t' es" by (simp add: rehash_chain_def e t')
  have k: "k \<notin> fst ` set es" using Cons.prems(2) e by simp
  have "tbl_abs len t' k' = None" if "k' \<in> fst ` set es" for k'
    using that Cons.prems(3) k t'(3) e by auto
  moreover have "distinct (map fst es)" using Cons.prems(2) by simp
  ultimately have ih: "tbl_wf len (rehash_chain len t' es)"
    "tbl_abs len (rehash_chain len t' es) = (tbl_abs len t)(k \<mapsto> v) ++ map_of es"
    "tbl_count (rehash_chain len t' es) = Suc (tbl_count t) + length es"
    using Cons.IH [OF t'(2)] unfolding t'(3,4) by blast+
  have "(tbl_abs len t)(k \<mapsto> v) ++ map_of es = tbl_abs len t ++ map_of (e # es)"
    using k map_of_eq_None_iff [of es k] by (auto simp: e fun_eq_iff map_add_def split: option.splits)
  then show ?case unfolding step ih(2,3) using ih(1) by (simp del: map_of.simps)
qed

lemma rehash_concat: "foldl (rehash_chain len) t cs = rehash_chain len t (concat cs)"
  by (induction cs arbitrary: t) (simp_all add: rehash_chain_def)

lemma bucket_lookup:
  assumes "tbl_wf len t" "h < length t"
  shows "map_of (t ! h) k = (if unat (hash k len) = h then tbl_abs len t k else None)"
  using assms by (auto simp: tbl_abs_def tbl_wf_def map_of_eq_None_iff)

lemma distinct_keys_prefix:
  assumes "tbl_wf len t" "n \<le> length t"
  shows "distinct (map fst (concat (take n t))) \<and>
         (\<forall>k. map_of (concat (take n t)) k = (if unat (hash k len) < n then tbl_abs len t k else None))"
  using assms(2)
proof (induction n)
  case 0
  then show ?case by simp
next
  case (Suc n)
  have n: "n < length t" using Suc.prems by simp
  have split: "concat (take (Suc n) t) = concat (take n t) @ t ! n" using n by (simp add: take_Suc_conv_app_nth)
  have ih: "distinct (map fst (concat (take n t)))"
    "\<And>k. map_of (concat (take n t)) k = (if unat (hash k len) < n then tbl_abs len t k else None)"
    using Suc by auto
  have "k \<notin> fst ` set (t ! n)" if "k \<in> fst ` set (concat (take n t))" for k
  proof -
    have "map_of (concat (take n t)) k \<noteq> None" using that map_of_eq_None_iff [of "concat (take n t)" k] by simp
    then have "unat (hash k len) \<noteq> n" using ih(2) [of k] by (auto split: if_splits)
    then show ?thesis using bucket_lookup [OF assms(1) n, of k] map_of_eq_None_iff [of "t ! n" k] by simp
  qed
  moreover have "distinct (map fst (t ! n))" using assms(1) n by (simp add: tbl_wf_def)
  ultimately have "distinct (map fst (concat (take (Suc n) t)))" using ih(1) unfolding split by auto
  moreover have "map_of (concat (take (Suc n) t)) k =
      (if unat (hash k len) < Suc n then tbl_abs len t k else None)" for k
    using ih(2) [of k] bucket_lookup [OF assms(1) n, of k]
    by (auto simp: split map_add_def less_Suc_eq split: option.splits)
  ultimately show ?case by blast
qed

lemma table_entries:
  assumes "tbl_wf len t"
  shows "distinct (map fst (concat t))" "map_of (concat t) = tbl_abs len t" "length (concat t) = tbl_count t"
proof -
  have "\<And>k. unat (hash k len) < length t" using assms hash_less by (simp add: tbl_wf_def)
  then show "distinct (map fst (concat t))" "map_of (concat t) = tbl_abs len t"
    using distinct_keys_prefix [OF assms order.refl] by (auto simp: fun_eq_iff)
  show "length (concat t) = tbl_count t" by (simp add: tbl_count_def length_concat)
qed

lemma card_dom_tbl_abs:
  assumes "tbl_wf len t"
  shows "card (dom (tbl_abs len t)) = tbl_count t"
proof -
  have "dom (tbl_abs len t) = fst ` set (concat t)" using table_entries(2) [OF assms] dom_map_of_conv_image_fst by metis
  then have "card (dom (tbl_abs len t)) = length (map fst (concat t))"
    using distinct_card [OF table_entries(1) [OF assms]] by simp
  then show ?thesis using table_entries(3) [OF assms] by simp
qed

lemma calloc_table_wf: "len \<noteq> 0 \<Longrightarrow> tbl_wf len (calloc_table len) \<and> tbl_abs len (calloc_table len) = Map.empty \<and>
    tbl_count (calloc_table len) = 0"
  using hash_less by (auto simp: tbl_wf_def calloc_table_def tbl_abs_def tbl_count_def fun_eq_iff sum_list_replicate)

lemma resize_correct:
  assumes "tbl_wf (tablelen m) (table m)" "new_tablelen \<noteq> 0" "resize mem m new_tablelen = (Inr (), m', mem')"
  shows "tablelen m' = new_tablelen \<and> tbl_wf new_tablelen (table m') \<and> map_abs m' = map_abs m \<and>
         map_size m' = map_size m \<and> tbl_count (table m') = tbl_count (table m)"
proof -
  have len: "take (unat (tablelen m)) (table m) = table m" using assms(1) by (simp add: tbl_wf_def)
  have c: "tbl_wf new_tablelen (calloc_table new_tablelen)" "tbl_abs new_tablelen (calloc_table new_tablelen) = Map.empty"
    "tbl_count (calloc_table new_tablelen) = 0" using calloc_table_wf [OF assms(2)] by auto
  note e = table_entries [OF assms(1)]
  have m': "tablelen m' = new_tablelen" "map_size m' = map_size m"
    "table m' = rehash_chain new_tablelen (calloc_table new_tablelen) (concat (table m))"
    using assms(3) len by (auto simp: resize_def Let_def rehash_concat split: prod.splits if_splits)
  show ?thesis
    using rehash_entries [OF c(1) e(1)] unfolding c e m' map_abs_def by simp
qed

lemma pow2_len_nz: "pow2_len len \<Longrightarrow> len \<noteq> 0"
proof -
  assume "pow2_len len"
  then obtain k where k: "k \<le> 30" "len = 2 ^ k" by (auto simp: pow2_len_def)
  have "bit len k" using k by (simp add: bit_exp_iff)
  then show ?thesis by auto
qed

lemma map_insert_tablelen:
  assumes wf: "map_wf m" and small: "map_size m < 3 * 2 ^ 28"
  shows "unat (tablelen m * 3) = unat (tablelen m) * 3"
    and "(map_size m + 1) * 4 > unat (tablelen m * 3) \<Longrightarrow> pow2_len (tablelen m * 2)"
proof -
  obtain k where k: "k \<le> 30" "tablelen m = 2 ^ k" using wf by (auto simp: map_wf_def pow2_len_def)
  have le: "(2 :: nat) ^ k \<le> 2 ^ 30" using k(1) by (intro power_increasing) simp_all
  then have u: "unat (2 ^ k :: u32) = 2 ^ k" using unat_of_nat_u32 [of "2 ^ k"] by simp
  have "unat (tablelen m) * 3 < 2 ^ 32" using k u le by simp
  then show three: "unat (tablelen m * 3) = unat (tablelen m) * 3" by (simp add: unat_mult_lem [THEN iffD1])
  assume "(map_size m + 1) * 4 > unat (tablelen m * 3)"
  then have "(2 :: nat) ^ k < 2 ^ 30" using three small u k(2) by simp
  then have "k < 30" by (rule power_less_imp_less_exp [rotated]) simp
  then show "pow2_len (tablelen m * 2)" using k(2) unfolding pow2_len_def by (intro exI [of _ "Suc k"]) simp
qed

lemma map_insert_resized:
  assumes wf: "map_wf m" and small: "map_size m < 3 * 2 ^ 28"
    and r: "(if (map_size m + 1) * 4 > unat (tablelen m * 3) then resize mem m (tablelen m * 2) else (Inr (), m, mem))
            = (Inr (), m1, mem1)"
  shows "map_wf m1 \<and> map_abs m1 = map_abs m \<and> map_size m1 = map_size m"
proof (cases "(map_size m + 1) * 4 > unat (tablelen m * 3)")
  case True
  have k: "pow2_len (tablelen m * 2)" using map_insert_tablelen(2) [OF wf small True] .
  then have "tablelen m * 2 \<noteq> 0" by (rule pow2_len_nz)
  then show ?thesis
    using resize_correct [of m "tablelen m * 2" mem m1 mem1] r True wf k by (auto simp: map_wf_def)
next
  case False
  then show ?thesis using r wf by simp
qed

lemma map_insert_correct:
  assumes wf: "map_wf m" and small: "map_size m < 3 * 2 ^ 28"
  shows "case nghttp2_map_insert mem m ((k, v), []) of
      (Inl e, m', mem') \<Rightarrow> map_wf m' \<and> map_abs m' = map_abs m \<and> map_size m' = map_size m \<and>
         (e = ERR_INVALID_ARGUMENT \<and> k \<in> dom (map_abs m) \<or> e = ERR_NOMEM \<and> \<not> mem_reliable mem)
    | (Inr _, m', mem') \<Rightarrow> map_wf m' \<and> k \<notin> dom (map_abs m) \<and> map_abs m' = (map_abs m)(k \<mapsto> v) \<and>
         map_size m' = map_size m + 1"
proof -
  let ?r = "if (map_size m + 1) * 4 > unat (tablelen m * 3) then resize mem m (tablelen m * 2) else (Inr (), m, mem)"
  obtain rv m1 mem1 where r: "?r = (rv, m1, mem1)" by (metis prod_cases3)
  show ?thesis
  proof (cases rv)
    case (Inl e)
    then have "e = ERR_NOMEM \<and> m1 = m \<and> \<not> fst (mem_call mem)"
      using r by (auto simp: resize_def Let_def split: if_splits prod.splits)
    then show ?thesis using Inl r wf mem_call_reliable [of mem]
      unfolding nghttp2_map_insert_def by (auto simp: Let_def)
  next
    case (Inr u)
    then have m1: "map_wf m1" "map_abs m1 = map_abs m" "map_size m1 = map_size m"
      using map_insert_resized [OF wf small, of mem m1 mem1] r by auto
    have ins: "nghttp2_map_insert mem m ((k, v), []) =
        (case insert_tbl (table m1) (tablelen m1) ((k, v), []) of
           (Inl e, _) \<Rightarrow> (Inl e, m1, mem1)
         | (Inr _, t) \<Rightarrow> (Inr (), m1\<lparr>table := t, map_size := map_size m1 + 1\<rparr>, mem1))"
      unfolding nghttp2_map_insert_def r by (simp add: Inr)
    have wf1: "tbl_wf (tablelen m1) (table m1)" using m1(1) by (simp add: map_wf_def)
    show ?thesis
    proof (cases "map_abs m k")
      case None
      then show ?thesis using insert_tbl_new [OF wf1, of k v] m1 unfolding ins
        by (auto simp: map_abs_def map_wf_def)
    next
      case (Some x)
      then show ?thesis using insert_tbl_dup [of "tablelen m1" "table m1" k v "[]"] m1 unfolding ins
        by (auto simp: map_abs_def)
    qed
  qed
qed

lemma unlink_key_None: "unlink_key k es = None \<longleftrightarrow> map_of es k = None"
  by (induction es) auto

lemma unlink_key_Some:
  "unlink_key k es = Some c \<Longrightarrow> distinct (map fst es) \<Longrightarrow>
   map_of c = (map_of es)(k := None) \<and> set c \<subseteq> set es \<and> distinct (map fst c) \<and> length es = Suc (length c)"
proof (induction es arbitrary: c)
  case (Cons e es)
  show ?case
  proof (cases "fst e = k")
    case True
    then have "map_of es k = None" using Cons.prems(2) by (auto simp: map_of_eq_None_iff)
    then show ?thesis using True Cons.prems by (auto simp: fun_eq_iff)
  next
    case False
    then obtain c' where c': "unlink_key k es = Some c'" "c = e # c'" using Cons.prems(1) by auto
    then show ?thesis using Cons.IH [OF c'(1)] Cons.prems(2) False by (auto simp: fun_eq_iff)
  qed
qed simp

lemma map_remove_correct:
  assumes wf: "map_wf m"
  shows "case nghttp2_map_remove m k of
      (Inl e, m') \<Rightarrow> e = ERR_INVALID_ARGUMENT \<and> m' = m \<and> k \<notin> dom (map_abs m)
    | (Inr _, m') \<Rightarrow> map_wf m' \<and> k \<in> dom (map_abs m) \<and> map_abs m' = (map_abs m)(k := None) \<and>
         map_size m' + 1 = map_size m"
proof -
  let ?h = "unat (hash k (tablelen m))"
  have wf': "tbl_wf (tablelen m) (table m)" using wf by (simp add: map_wf_def)
  have h: "?h < length (table m)" using wf' hash_less by (simp add: tbl_wf_def)
  have abs: "map_of (table m ! ?h) k = map_abs m k" by (simp add: map_abs_def tbl_abs_def)
  show ?thesis
  proof (cases "unlink_key k (table m ! ?h)")
    case None
    then show ?thesis using abs unlink_key_None [of k "table m ! ?h"] by (auto simp: nghttp2_map_remove_def)
  next
    case (Some c)
    have d: "distinct (map fst (table m ! ?h))" using wf' h by (simp add: tbl_wf_def)
    note c = unlink_key_Some [OF Some d]
    have b: "\<And>e. e \<in> set (table m ! ?h) \<Longrightarrow> unat (hash (fst e) (tablelen m)) = ?h"
      using wf' h by (simp add: tbl_wf_def)
    have "tbl_wf (tablelen m) ((table m)[?h := c])"
      using tbl_wf_update [OF wf' h] c b by blast
    moreover have "tbl_abs (tablelen m) ((table m)[?h := c]) = (map_abs m)(k := None)"
      using wf' h c by (intro tbl_abs_update) (auto simp: tbl_abs_def map_abs_def)
    moreover have "Suc (tbl_count ((table m)[?h := c])) = tbl_count (table m)"
      using tbl_count_update [OF h, of c] c by simp
    moreover have "k \<in> dom (map_abs m)" using Some abs unlink_key_None [of k "table m ! ?h"] by auto
    ultimately show ?thesis using Some wf by (auto simp: nghttp2_map_remove_def Let_def map_wf_def map_abs_def)
  qed
qed

lemma map_find_abs: "nghttp2_map_find m k = map_abs m k"
proof -
  have "map_option snd (List.find (\<lambda>e. fst e = k) es) = map_of es k" for es :: "'a map_chain"
    by (induction es) auto
  then show ?thesis by (simp add: nghttp2_map_find_def map_abs_def tbl_abs_def)
qed

lemma map_size_card: "map_wf m \<Longrightarrow> map_size m = card (dom (map_abs m))"
  using card_dom_tbl_abs [of "tablelen m" "table m"] by (simp add: map_wf_def map_abs_def)

section \<open>Refinement of a finite map\<close>

text \<open>The operations the session calls on its stream table, and what they mean on a finite map.\<close>

datatype 'a map_op = Map_insert u32 'a | Map_remove u32 | Map_find u32 | Map_size

datatype 'a map_res = Res_rv "nghttp2_error + unit" | Res_entry "'a option" | Res_size nat

fun map_step :: "'a nghttp2_map \<times> nghttp2_mem \<Rightarrow> 'a map_op \<Rightarrow> 'a map_res \<times> 'a nghttp2_map \<times> nghttp2_mem" where
  "map_step (m, mem) (Map_insert k v) =
     (let (rv, m1, mem1) = nghttp2_map_insert mem m (nghttp2_map_entry_init v k) in (Res_rv rv, m1, mem1))"
| "map_step (m, mem) (Map_remove k) = (let (rv, m1) = nghttp2_map_remove m k in (Res_rv rv, m1, mem))"
| "map_step (m, mem) (Map_find k) = (Res_entry (nghttp2_map_find m k), m, mem)"
| "map_step (m, mem) Map_size = (Res_size (nghttp2_map_size m), m, mem)"

fun map_spec :: "(u32 \<rightharpoonup> 'a) \<Rightarrow> 'a map_op \<Rightarrow> 'a map_res \<times> (u32 \<rightharpoonup> 'a)" where
  "map_spec f (Map_insert k v) =
     (if k \<in> dom f then (Res_rv (Inl ERR_INVALID_ARGUMENT), f) else (Res_rv (Inr ()), f(k \<mapsto> v)))"
| "map_spec f (Map_remove k) =
     (if k \<in> dom f then (Res_rv (Inr ()), f(k := None)) else (Res_rv (Inl ERR_INVALID_ARGUMENT), f))"
| "map_spec f (Map_find k) = (Res_entry (f k), f)"
| "map_spec f Map_size = (Res_size (card (dom f)), f)"

definition map_room :: "nat \<Rightarrow> 'a nghttp2_map \<times> nghttp2_mem \<Rightarrow> bool" where
  "map_room n s \<longleftrightarrow> map_wf (fst s) \<and> mem_reliable (snd s) \<and> map_size (fst s) + n \<le> 3 * 2 ^ 28"

lemma map_insert_mem_reliable:
  "mem_reliable mem \<Longrightarrow> mem_reliable (snd (snd (nghttp2_map_insert mem m e)))"
  using mem_call_reliable [of mem]
  by (auto simp: nghttp2_map_insert_def resize_def Let_def split: prod.splits sum.splits if_splits)

lemma map_step_sim:
  assumes "map_room (Suc n) s"
  shows "map_room n (snd (map_step s x)) \<and>
         map_spec (map_abs (fst s)) x = (fst (map_step s x), map_abs (fst (snd (map_step s x))))"
proof -
  obtain m mem where s: "s = (m, mem)" by force
  have wf: "map_wf m" and mem: "mem_reliable mem" and room: "map_size m + Suc n \<le> 3 * 2 ^ 28"
    using assms by (simp_all add: s map_room_def)
  show ?thesis
  proof (cases x)
    case (Map_insert k v)
    obtain rv m1 mem1 where i: "nghttp2_map_insert mem m ((k, v), []) = (rv, m1, mem1)" by (metis prod_cases3)
    then have "mem_reliable mem1" using map_insert_mem_reliable [OF mem, of m "((k, v), [])"] by simp
    then show ?thesis
      using map_insert_correct [OF wf, where mem = mem and k = k and v = v] room mem
      by (cases rv) (auto simp: s Map_insert i nghttp2_map_entry_init_def map_room_def)
  next
    case (Map_remove k)
    obtain rv m1 where r: "nghttp2_map_remove m k = (rv, m1)" by force
    then show ?thesis
      using map_remove_correct [OF wf, of k] wf room mem
      by (cases rv) (auto simp: s Map_remove map_room_def)
  next
    case (Map_find k)
    then show ?thesis using wf room mem by (simp add: s map_room_def map_find_abs)
  next
    case Map_size
    then show ?thesis using wf room mem map_size_card [OF wf] by (simp add: s map_room_def nghttp2_map_size_def)
  qed
qed

interpretation map_sim: functional_simulation map_step map_spec map_room "\<lambda>s. map_abs (fst s)"
  by unfold_locales (rule map_step_sim)

lemma map_init_room:
  assumes "nghttp2_map_init mem = (Inr m, mem1)" "mem_reliable mem" "n \<le> 3 * 2 ^ 28"
  shows "map_room n (m, mem1) \<and> map_abs m = Map.empty"
proof -
  have p: "pow2_len INITIAL_TABLE_LENGTH"
    unfolding pow2_len_def INITIAL_TABLE_LENGTH_def by (intro exI [of _ 8]) simp
  moreover have "m = \<lparr>table = calloc_table INITIAL_TABLE_LENGTH, map_size = 0, tablelen = INITIAL_TABLE_LENGTH\<rparr>"
    "mem1 = snd (mem_call mem)"
    using assms(1) by (auto simp: nghttp2_map_init_def Let_def split: prod.splits if_splits)
  ultimately show ?thesis
    using mem_call_reliable [OF assms(2)] assms(3)
    by (simp add: map_room_def map_wf_def map_abs_def calloc_table_wf [OF pow2_len_nz [OF p]])
qed

section \<open>Properties\<close>

text \<open>
  C5: the stream table refines a finite map.  For every sequence of insertions, removals, lookups and size
  queries on a table made by \<^verbatim>\<open>nghttp2_map_init\<close>, every return value is the one a finite map gives
  (a duplicate insertion and the removal of an absent key are NGHTTP2_ERR_INVALID_ARGUMENT and change
  nothing), through every resize of the table, as long as fewer than 3 * 2^28 operations run and no
  allocation fails.
\<close>

theorem hash_map_refines_finite_map:
  assumes "nghttp2_map_init mem = (Inr m, mem1)" "mem_reliable mem" "length xs \<le> 3 * 2 ^ 28"
  shows "fst (run_ops map_step (m, mem1) xs) = fst (run_ops map_spec Map.empty xs) \<and>
         map_abs (fst (snd (run_ops map_step (m, mem1) xs))) = snd (run_ops map_spec Map.empty xs)"
proof -
  have "map_room (length xs + 0) (m, mem1)" "map_abs m = Map.empty" using map_init_room [OF assms] by simp_all
  then show ?thesis using map_sim.run_sim [of xs 0 "(m, mem1)"] by simp
qed

theorem hash_map_refines_finite_map_witness:
  "fst (run_ops map_step
     (\<lparr>table = calloc_table INITIAL_TABLE_LENGTH, map_size = 0, tablelen = INITIAL_TABLE_LENGTH\<rparr>,
      \<lparr>mem_ok = [], mem_junk = \<lambda>_. 0\<rparr>)
     [Map_insert 1 ''a'', Map_insert 257 ''b'', Map_insert 1 ''c'', Map_find 257, Map_remove 1, Map_find 1, Map_size]) =
   [Res_rv (Inr ()), Res_rv (Inr ()), Res_rv (Inl ERR_INVALID_ARGUMENT), Res_entry (Some ''b''), Res_rv (Inr ()),
    Res_entry None, Res_size 1]"
proof -
  let ?mem = "\<lparr>mem_ok = [], mem_junk = \<lambda>_. 0\<rparr>"
  let ?xs = "[Map_insert 1 ''a'', Map_insert 257 ''b'', Map_insert 1 ''c'', Map_find 257, Map_remove 1, Map_find 1,
    Map_size]"
  have rel: "mem_reliable ?mem" by (simp add: mem_reliable_def)
  have init: "nghttp2_map_init ?mem = (Inr \<lparr>table = calloc_table INITIAL_TABLE_LENGTH, map_size = 0,
      tablelen = INITIAL_TABLE_LENGTH\<rparr>, ?mem)"
    by (simp add: nghttp2_map_init_def mem_call_def)
  have "length ?xs \<le> 3 * 2 ^ 28" by simp
  note hash_map_refines_finite_map [OF init rel this, THEN conjunct1]
  also have "fst (run_ops map_spec Map.empty ?xs) = [Res_rv (Inr ()), Res_rv (Inr ()),
      Res_rv (Inl ERR_INVALID_ARGUMENT), Res_entry (Some ''b''), Res_rv (Inr ()), Res_entry None, Res_size 1]"
    by simp
  finally show ?thesis .
qed

end
