(* ===== verification/Helper.thy ===== *)
theory Helper
  imports Nghttp2_Prelude
begin

unbundle bit_operations_syntax

text \<open>
  \<^verbatim>\<open>lib/nghttp2_helper.c\<close>, \<^verbatim>\<open>lib/nghttp2_priority_spec.c\<close> and \<^verbatim>\<open>lib/nghttp2_npn.c\<close>: network byte order,
  the character tables, the local window arithmetic of flow control, priority specifications and
  the ALPN selection loop.
\<close>

section \<open>Network byte order\<close>

text \<open>
  \<^verbatim>\<open>htonl\<close> followed by \<^verbatim>\<open>memcpy\<close> stores the most significant byte first on every host; the model
  returns the bytes stored, in address order.
\<close>

definition nghttp2_put_uint16be :: "u16 \<Rightarrow> u8 list" where
  "nghttp2_put_uint16be n = [ucast (drop_bit 8 n), ucast n]"

definition nghttp2_put_uint32be :: "u32 \<Rightarrow> u8 list" where
  "nghttp2_put_uint32be n =
     [ucast (drop_bit 24 n), ucast (drop_bit 16 n), ucast (drop_bit 8 n), ucast n]"

definition nghttp2_get_uint16 :: "u8 list \<Rightarrow> u16" where
  "nghttp2_get_uint16 d = push_bit 8 (ucast (d ! 0)) OR ucast (d ! 1)"

definition nghttp2_get_uint32 :: "u8 list \<Rightarrow> u32" where
  "nghttp2_get_uint32 d =
     push_bit 24 (ucast (d ! 0)) OR push_bit 16 (ucast (d ! 1)) OR
     push_bit 8 (ucast (d ! 2)) OR ucast (d ! 3)"

lemma length_put_uint16be [simp, nghttp2_len]: "length (nghttp2_put_uint16be n) = 2"
  by (simp add: nghttp2_put_uint16be_def)

lemma length_put_uint32be [simp, nghttp2_len]: "length (nghttp2_put_uint32be n) = 4"
  by (simp add: nghttp2_put_uint32be_def)

lemma get_put_uint16 [simp]: "nghttp2_get_uint16 (nghttp2_put_uint16be n @ r) = n"
  unfolding nghttp2_get_uint16_def nghttp2_put_uint16be_def
  by (rule bit_word_eqI) (auto simp: bit_simps not_le less_diff_conv2)

lemma get_put_uint32 [simp]: "nghttp2_get_uint32 (nghttp2_put_uint32be n @ r) = n"
proof (rule bit_word_eqI)
  fix i :: nat
  assume "i < LENGTH(32)"
  then consider "i < 8" | "8 \<le> i" "i < 16" | "16 \<le> i" "i < 24" | "24 \<le> i" "i < 32"
    by fastforce
  then show "bit (nghttp2_get_uint32 (nghttp2_put_uint32be n @ r)) i = bit n i"
    by cases (simp_all add: nghttp2_get_uint32_def nghttp2_put_uint32be_def bit_simps less_diff_conv2)
qed

lemma put_get_uint16:
  assumes "length d = 2"
  shows "nghttp2_put_uint16be (nghttp2_get_uint16 d) = d"
proof -
  from assms obtain a b where d: "d = [a, b]"
    by (auto simp: length_Suc_conv numeral_2_eq_2)
  show ?thesis
    unfolding d nghttp2_get_uint16_def nghttp2_put_uint16be_def
    by (auto intro!: bit_word_eqI simp: bit_simps)
qed

lemma put_get_uint32:
  assumes "length d = 4"
  shows "nghttp2_put_uint32be (nghttp2_get_uint32 d) = d"
proof -
  from assms obtain a b c e where d: "d = [a, b, c, e]"
    by (auto simp: length_Suc_conv numeral_eq_Suc)
  show ?thesis
    unfolding d nghttp2_get_uint32_def nghttp2_put_uint32be_def
    by (auto intro!: bit_word_eqI simp: bit_simps)
qed

section \<open>Character tables\<close>

definition DOWNCASE_TBL :: "u8 list" where
  "DOWNCASE_TBL =
     [0, 1, 2, 3, 4, 5, 6, 7, 8, 9, 10, 11, 12, 13, 14, 15,
      16, 17, 18, 19, 20, 21, 22, 23, 24, 25, 26, 27, 28, 29, 30, 31,
      32, 33, 34, 35, 36, 37, 38, 39, 40, 41, 42, 43, 44, 45, 46, 47,
      48, 49, 50, 51, 52, 53, 54, 55, 56, 57, 58, 59, 60, 61, 62, 63,
      64, 97, 98, 99, 100, 101, 102, 103, 104, 105, 106, 107, 108, 109, 110, 111,
      112, 113, 114, 115, 116, 117, 118, 119, 120, 121, 122, 91, 92, 93, 94, 95,
      96, 97, 98, 99, 100, 101, 102, 103, 104, 105, 106, 107, 108, 109, 110, 111,
      112, 113, 114, 115, 116, 117, 118, 119, 120, 121, 122, 123, 124, 125, 126, 127,
      128, 129, 130, 131, 132, 133, 134, 135, 136, 137, 138, 139, 140, 141, 142, 143,
      144, 145, 146, 147, 148, 149, 150, 151, 152, 153, 154, 155, 156, 157, 158, 159,
      160, 161, 162, 163, 164, 165, 166, 167, 168, 169, 170, 171, 172, 173, 174, 175,
      176, 177, 178, 179, 180, 181, 182, 183, 184, 185, 186, 187, 188, 189, 190, 191,
      192, 193, 194, 195, 196, 197, 198, 199, 200, 201, 202, 203, 204, 205, 206, 207,
      208, 209, 210, 211, 212, 213, 214, 215, 216, 217, 218, 219, 220, 221, 222, 223,
      224, 225, 226, 227, 228, 229, 230, 231, 232, 233, 234, 235, 236, 237, 238, 239,
      240, 241, 242, 243, 244, 245, 246, 247, 248, 249, 250, 251, 252, 253, 254, 255]"

definition nghttp2_downcase :: "u8 list \<Rightarrow> u8 list" where
  "nghttp2_downcase s = map (\<lambda>c. DOWNCASE_TBL ! unat c) s"

definition VALID_HD_NAME_CHARS :: "nat list" where
  "VALID_HD_NAME_CHARS =
     [0, 0, 0, 0, 0, 0, 0, 0, 0, 0, 0, 0, 0, 0, 0, 0,
      0, 0, 0, 0, 0, 0, 0, 0, 0, 0, 0, 0, 0, 0, 0, 0,
      0, 1, 0, 1, 1, 1, 1, 1, 0, 0, 1, 1, 0, 1, 1, 0,
      1, 1, 1, 1, 1, 1, 1, 1, 1, 1, 0, 0, 0, 0, 0, 0,
      0, 0, 0, 0, 0, 0, 0, 0, 0, 0, 0, 0, 0, 0, 0, 0,
      0, 0, 0, 0, 0, 0, 0, 0, 0, 0, 0, 0, 0, 0, 1, 1,
      1, 1, 1, 1, 1, 1, 1, 1, 1, 1, 1, 1, 1, 1, 1, 1,
      1, 1, 1, 1, 1, 1, 1, 1, 1, 1, 1, 0, 1, 0, 1, 0,
      0, 0, 0, 0, 0, 0, 0, 0, 0, 0, 0, 0, 0, 0, 0, 0,
      0, 0, 0, 0, 0, 0, 0, 0, 0, 0, 0, 0, 0, 0, 0, 0,
      0, 0, 0, 0, 0, 0, 0, 0, 0, 0, 0, 0, 0, 0, 0, 0,
      0, 0, 0, 0, 0, 0, 0, 0, 0, 0, 0, 0, 0, 0, 0, 0,
      0, 0, 0, 0, 0, 0, 0, 0, 0, 0, 0, 0, 0, 0, 0, 0,
      0, 0, 0, 0, 0, 0, 0, 0, 0, 0, 0, 0, 0, 0, 0, 0,
      0, 0, 0, 0, 0, 0, 0, 0, 0, 0, 0, 0, 0, 0, 0, 0,
      0, 0, 0, 0, 0, 0, 0, 0, 0, 0, 0, 0, 0, 0, 0, 0]"

text \<open>
  The C loop advances a pointer over the name; the model recurses over the bytes.  The first
  conditional skips one leading colon, and a colon alone is refused.
\<close>

fun check_name_loop :: "u8 list \<Rightarrow> bool" where
  "check_name_loop [] = True"
| "check_name_loop (c # cs) =
     (if VALID_HD_NAME_CHARS ! unat c = 0 then False else check_name_loop cs)"

definition nghttp2_check_header_name :: "u8 list \<Rightarrow> bool" where
  "nghttp2_check_header_name name =
     (case name of
        [] \<Rightarrow> False
      | c # cs \<Rightarrow>
          if c = 58 then (if cs = [] then False else check_name_loop cs)
          else check_name_loop (c # cs))"

definition VALID_HD_VALUE_CHARS :: "nat list" where
  "VALID_HD_VALUE_CHARS =
     [0, 0, 0, 0, 0, 0, 0, 0, 0, 1, 0, 0, 0, 0, 0, 0,
      0, 0, 0, 0, 0, 0, 0, 0, 0, 0, 0, 0, 0, 0, 0, 0,
      1, 1, 1, 1, 1, 1, 1, 1, 1, 1, 1, 1, 1, 1, 1, 1,
      1, 1, 1, 1, 1, 1, 1, 1, 1, 1, 1, 1, 1, 1, 1, 1,
      1, 1, 1, 1, 1, 1, 1, 1, 1, 1, 1, 1, 1, 1, 1, 1,
      1, 1, 1, 1, 1, 1, 1, 1, 1, 1, 1, 1, 1, 1, 1, 1,
      1, 1, 1, 1, 1, 1, 1, 1, 1, 1, 1, 1, 1, 1, 1, 1,
      1, 1, 1, 1, 1, 1, 1, 1, 1, 1, 1, 1, 1, 1, 1, 0,
      1, 1, 1, 1, 1, 1, 1, 1, 1, 1, 1, 1, 1, 1, 1, 1,
      1, 1, 1, 1, 1, 1, 1, 1, 1, 1, 1, 1, 1, 1, 1, 1,
      1, 1, 1, 1, 1, 1, 1, 1, 1, 1, 1, 1, 1, 1, 1, 1,
      1, 1, 1, 1, 1, 1, 1, 1, 1, 1, 1, 1, 1, 1, 1, 1,
      1, 1, 1, 1, 1, 1, 1, 1, 1, 1, 1, 1, 1, 1, 1, 1,
      1, 1, 1, 1, 1, 1, 1, 1, 1, 1, 1, 1, 1, 1, 1, 1,
      1, 1, 1, 1, 1, 1, 1, 1, 1, 1, 1, 1, 1, 1, 1, 1,
      1, 1, 1, 1, 1, 1, 1, 1, 1, 1, 1, 1, 1, 1, 1, 1]"

fun nghttp2_check_header_value :: "u8 list \<Rightarrow> bool" where
  "nghttp2_check_header_value [] = True"
| "nghttp2_check_header_value (c # cs) =
     (if VALID_HD_VALUE_CHARS ! unat c = 0 then False else nghttp2_check_header_value cs)"

text \<open>
  What the tables mean: ASCII upper case to lower case; the \<^verbatim>\<open>tchar\<close> characters of RFC 7230 without
  the upper case letters; every byte but the control characters other than tab.
\<close>

definition ascii_lower :: "u8 \<Rightarrow> u8" where
  "ascii_lower c = (if 65 \<le> unat c \<and> unat c \<le> 90 then c + 32 else c)"

definition tchar_code :: "nat \<Rightarrow> bool" where
  "tchar_code i \<longleftrightarrow> i = 33 \<or> (35 \<le> i \<and> i \<le> 39) \<or> i = 42 \<or> i = 43 \<or> i = 45 \<or> i = 46 \<or>
     (48 \<le> i \<and> i \<le> 57) \<or> (94 \<le> i \<and> i \<le> 122) \<or> i = 124 \<or> i = 126"

definition lower_tchar :: "u8 \<Rightarrow> bool" where
  "lower_tchar c \<longleftrightarrow> tchar_code (unat c)"

definition field_value_char :: "u8 \<Rightarrow> bool" where
  "field_value_char c \<longleftrightarrow> unat c = 9 \<or> (32 \<le> unat c \<and> unat c \<noteq> 127)"

text \<open>A 256-entry table is a function of the byte once each entry is checked.\<close>

lemma nth_table_u8:
  assumes "tbl = map f [0..<256]"
  shows "tbl ! unat (c :: u8) = f (unat c)"
proof -
  have "unat c < 256"
    using unsigned_less [of c] by simp
  then show ?thesis
    by (simp add: assms)
qed

lemma DOWNCASE_TBL_nth: "DOWNCASE_TBL ! unat c = ascii_lower c"
proof -
  have "DOWNCASE_TBL = map (\<lambda>i. of_nat (if 65 \<le> i \<and> i \<le> 90 then i + 32 else i)) [0..<256]"
    unfolding DOWNCASE_TBL_def upt_256 list.map by simp
  from nth_table_u8 [OF this, of c] show ?thesis
    by (simp add: ascii_lower_def)
qed

lemma VALID_HD_NAME_CHARS_nth: "VALID_HD_NAME_CHARS ! unat c = of_bool (lower_tchar c)"
proof -
  have "VALID_HD_NAME_CHARS = map (\<lambda>i. of_bool (tchar_code i)) [0..<256]"
    unfolding VALID_HD_NAME_CHARS_def upt_256 list.map by (simp add: tchar_code_def)
  from nth_table_u8 [OF this, of c] show ?thesis
    by (simp add: lower_tchar_def)
qed

lemma VALID_HD_VALUE_CHARS_nth: "VALID_HD_VALUE_CHARS ! unat c = of_bool (field_value_char c)"
proof -
  have "VALID_HD_VALUE_CHARS = map (\<lambda>i. of_bool (i = 9 \<or> (32 \<le> i \<and> i \<noteq> 127))) [0..<256]"
    unfolding VALID_HD_VALUE_CHARS_def upt_256 list.map by simp
  from nth_table_u8 [OF this, of c] show ?thesis
    by (simp add: field_value_char_def)
qed

lemma check_name_loop_iff: "check_name_loop s \<longleftrightarrow> list_all lower_tchar s"
  by (induction s) (auto simp: VALID_HD_NAME_CHARS_nth)

lemma nghttp2_downcase_lower: "nghttp2_downcase s = map ascii_lower s"
  by (simp add: nghttp2_downcase_def DOWNCASE_TBL_nth)

lemma ascii_lower_idem [simp]: "ascii_lower (ascii_lower c) = ascii_lower c"
proof (cases "65 \<le> unat c \<and> unat c \<le> 90")
  case True
  then have "unat (c + 32) = unat c + 32"
    by (simp add: unat_word_ariths)
  with True show ?thesis
    by (simp add: ascii_lower_def)
qed (simp add: ascii_lower_def)

section \<open>Local windows\<close>

text \<open>
  The connection and every stream keep three \<^verbatim>\<open>int32_t\<close> fields for the receiving direction:
  \<^verbatim>\<open>local_window_size\<close>, \<^verbatim>\<open>recv_window_size\<close> and \<^verbatim>\<open>recv_reduction\<close>.  The two functions below take
  pointers to them and to \<^verbatim>\<open>delta\<close>; the value left in \<^verbatim>\<open>*delta_ptr\<close> is the increment that the caller
  announces to the peer in a WINDOW_UPDATE frame.  The model returns the record and that increment.
\<close>

record flow_window =
  local_window_size :: int
  recv_window_size :: int
  recv_reduction :: int

definition NGHTTP2_MAX_WINDOW_SIZE :: int where
  "NGHTTP2_MAX_WINDOW_SIZE = 2 ^ 31 - 1"

abbreviation INT32_MIN :: int where
  "INT32_MIN \<equiv> - (2 ^ 31)"

abbreviation INT32_MAX :: int where
  "INT32_MAX \<equiv> 2 ^ 31 - 1"

definition int32 :: "int \<Rightarrow> bool" where
  "int32 x \<longleftrightarrow> INT32_MIN \<le> x \<and> x \<le> INT32_MAX"

definition nghttp2_adjust_local_window_size ::
  "flow_window \<Rightarrow> int \<Rightarrow> nghttp2_error + flow_window \<times> int" where
  "nghttp2_adjust_local_window_size w delta =
     (if delta > 0 then
        let new_recv_window_size = max 0 (recv_window_size w) - delta in
        if new_recv_window_size \<ge> 0 then
          Inr (w\<lparr>recv_window_size := new_recv_window_size\<rparr>, delta)
        else
          let d = - new_recv_window_size in
          if local_window_size w > NGHTTP2_MAX_WINDOW_SIZE - d then Inl ERR_FLOW_CONTROL
          else
            let recv_reduction_delta = min (recv_reduction w) d in
            Inr (w\<lparr>local_window_size := local_window_size w + d,
                    recv_reduction := recv_reduction w - recv_reduction_delta,
                    recv_window_size :=
                      (if recv_window_size w < 0 then recv_window_size w + recv_reduction_delta
                       else recv_reduction_delta)\<rparr>,
                 delta - recv_reduction_delta)
      else if local_window_size w + delta < 0 \<or> recv_window_size w < INT32_MIN - delta \<or>
              recv_reduction w > INT32_MAX + delta then Inl ERR_FLOW_CONTROL
      else
        Inr (w\<lparr>local_window_size := local_window_size w + delta,
                recv_window_size := recv_window_size w + delta,
                recv_reduction := recv_reduction w - delta\<rparr>, 0))"

text \<open>\<^verbatim>\<open>nghttp2_increase_local_window_size\<close> asserts that \<open>delta\<close> is not negative; \<open>None\<close> is the failed assertion.\<close>

definition nghttp2_increase_local_window_size ::
  "flow_window \<Rightarrow> int \<Rightarrow> (nghttp2_error + flow_window \<times> int) option" where
  "nghttp2_increase_local_window_size w delta =
     (if \<not> delta \<ge> 0 then None
      else if local_window_size w > NGHTTP2_MAX_WINDOW_SIZE - delta then Some (Inl ERR_FLOW_CONTROL)
      else
        let recv_reduction_delta = min (recv_reduction w) delta in
        Some (Inr (w\<lparr>local_window_size := local_window_size w + delta,
                      recv_reduction := recv_reduction w - recv_reduction_delta,
                      recv_window_size := recv_window_size w + recv_reduction_delta\<rparr>,
                   delta - recv_reduction_delta)))"

text \<open>C integer division truncates towards zero.\<close>

definition nghttp2_should_send_window_update :: "int \<Rightarrow> int \<Rightarrow> bool" where
  "nghttp2_should_send_window_update local_ws recv_ws \<longleftrightarrow>
     recv_ws > 0 \<and> recv_ws \<ge> (if local_ws < 0 then - ((- local_ws) div 2) else local_ws div 2)"

text \<open>
  The fields' ranges.  A received byte count never exceeds the advertised window, and a reduction
  is a sum of negative deltas, hence not negative.
\<close>

definition flow_window_wf :: "flow_window \<Rightarrow> bool" where
  "flow_window_wf w \<longleftrightarrow> 0 \<le> local_window_size w \<and> local_window_size w \<le> NGHTTP2_MAX_WINDOW_SIZE \<and>
     int32 (recv_window_size w) \<and> 0 \<le> recv_reduction w \<and> int32 (recv_reduction w) \<and>
     recv_window_size w \<le> local_window_size w"

text \<open>The number of bytes the peer may still send, as the peer computes it.\<close>

definition peer_window :: "flow_window \<Rightarrow> int" where
  "peer_window w = local_window_size w - recv_window_size w"

text \<open>
  A sequence of window changes of either kind, in any order, as \<^verbatim>\<open>nghttp2_session_set_local_window_size\<close> and
  \<^verbatim>\<open>nghttp2_submit_window_update\<close> make them.  Both functions write their fields only after every check has
  passed, so a refused change leaves the record as it was; the announced increments add up.
\<close>

datatype window_op = Adjust_window int | Increase_window int

fun window_op_ok :: "window_op \<Rightarrow> bool" where
  "window_op_ok (Adjust_window d) \<longleftrightarrow> int32 d"
| "window_op_ok (Increase_window d) \<longleftrightarrow> 0 \<le> d \<and> int32 d"

fun window_op_step :: "flow_window \<Rightarrow> window_op \<Rightarrow> (nghttp2_error + flow_window \<times> int) option" where
  "window_op_step w (Adjust_window d) = Some (nghttp2_adjust_local_window_size w d)"
| "window_op_step w (Increase_window d) = nghttp2_increase_local_window_size w d"

fun window_run ::
  "(flow_window \<Rightarrow> 'd \<Rightarrow> (nghttp2_error + flow_window \<times> int) option) \<Rightarrow> flow_window \<Rightarrow> 'd list \<Rightarrow>
   (flow_window \<times> int) option" where
  "window_run change w [] = Some (w, 0)"
| "window_run change w (d # ds) =
     (case change w d of
        None \<Rightarrow> None
      | Some (Inl e) \<Rightarrow> window_run change w ds
      | Some (Inr (w1, a)) \<Rightarrow> map_option (\<lambda>(w2, s). (w2, a + s)) (window_run change w1 ds))"

text \<open>
  The contract of a window change, which \<^verbatim>\<open>nghttp2_session.c\<close> relies on when it sends the announced
  increment to the peer: an allowed change does not fail an assertion, and the peer's window grows by
  exactly what is announced.
\<close>

locale window_change =
  fixes change :: "flow_window \<Rightarrow> 'd \<Rightarrow> (nghttp2_error + flow_window \<times> int) option"
    and allowed :: "'d \<Rightarrow> bool"
  assumes change_defined: "allowed d \<Longrightarrow> change w d \<noteq> None"
    and change_peer: "change w d = Some (Inr (w1, a)) \<Longrightarrow> peer_window w1 = peer_window w + a"
    and change_wf: "flow_window_wf w \<Longrightarrow> allowed d \<Longrightarrow> change w d = Some (Inr (w1, a)) \<Longrightarrow> flow_window_wf w1 \<and> 0 \<le> a"
begin

lemma run_conserves:
  "flow_window_wf w \<Longrightarrow> list_all allowed ds \<Longrightarrow>
   \<exists>w1 s. window_run change w ds = Some (w1, s) \<and> peer_window w1 = peer_window w + s \<and> flow_window_wf w1 \<and> 0 \<le> s"
proof (induction ds arbitrary: w)
  case (Cons d ds)
  have d: "allowed d" "list_all allowed ds" using Cons.prems(2) by simp_all
  consider e where "change w d = Some (Inl e)" | w1 a where "change w d = Some (Inr (w1, a))"
    using change_defined [OF d(1), of w] by (metis not_None_eq old.sum.exhaust surj_pair)
  then show ?case
  proof cases
    case 1
    then show ?thesis using Cons.IH [OF Cons.prems(1) d(2)] by simp
  next
    case 2
    then have w1: "flow_window_wf w1" "0 \<le> a" "peer_window w1 = peer_window w + a"
      using change_wf [OF Cons.prems(1) d(1)] change_peer by blast+
    then show ?thesis using Cons.IH [OF w1(1) d(2)] 2 by auto
  qed
qed simp

end

lemmas window_defs =
  nghttp2_adjust_local_window_size_def nghttp2_increase_local_window_size_def
  flow_window_wf_def peer_window_def int32_def NGHTTP2_MAX_WINDOW_SIZE_def Let_def

interpretation adjust: window_change "\<lambda>w d. Some (nghttp2_adjust_local_window_size w d)" int32
  by unfold_locales (auto simp: window_defs min_def max_def split: if_splits)

interpretation increase: window_change nghttp2_increase_local_window_size "\<lambda>d. 0 \<le> d \<and> int32 d"
  by unfold_locales (auto simp: window_defs min_def max_def split: if_splits)

interpretation window_ops: window_change window_op_step window_op_ok
proof unfold_locales
  fix d w w1 a
  show "window_op_ok d \<Longrightarrow> window_op_step w d \<noteq> None"
    using increase.change_defined by (cases d) auto
  assume s: "window_op_step w d = Some (Inr (w1, a))"
  then show "peer_window w1 = peer_window w + a"
    using adjust.change_peer increase.change_peer by (cases d) auto
  show "flow_window_wf w1 \<and> 0 \<le> a" if "flow_window_wf w" "window_op_ok d"
    using s that adjust.change_wf [of w _ w1 a] increase.change_wf [of w _ w1 a] by (cases d) auto
qed

section \<open>Priority specifications\<close>

record nghttp2_priority_spec =
  ps_stream_id :: int
  ps_weight :: int
  ps_exclusive :: bool

definition NGHTTP2_DEFAULT_WEIGHT :: int where "NGHTTP2_DEFAULT_WEIGHT = 16"
definition NGHTTP2_MAX_WEIGHT :: int where "NGHTTP2_MAX_WEIGHT = 256"
definition NGHTTP2_MIN_WEIGHT :: int where "NGHTTP2_MIN_WEIGHT = 1"

definition nghttp2_priority_spec_init :: "int \<Rightarrow> int \<Rightarrow> int \<Rightarrow> nghttp2_priority_spec" where
  "nghttp2_priority_spec_init stream_id weight exclusive =
     \<lparr>ps_stream_id = stream_id, ps_weight = weight, ps_exclusive = (exclusive \<noteq> 0)\<rparr>"

definition nghttp2_priority_spec_default_init :: nghttp2_priority_spec where
  "nghttp2_priority_spec_default_init =
     \<lparr>ps_stream_id = 0, ps_weight = NGHTTP2_DEFAULT_WEIGHT, ps_exclusive = False\<rparr>"

definition nghttp2_priority_spec_check_default :: "nghttp2_priority_spec \<Rightarrow> bool" where
  "nghttp2_priority_spec_check_default p \<longleftrightarrow>
     ps_stream_id p = 0 \<and> ps_weight p = NGHTTP2_DEFAULT_WEIGHT \<and> \<not> ps_exclusive p"

definition nghttp2_priority_spec_normalize_weight ::
  "nghttp2_priority_spec \<Rightarrow> nghttp2_priority_spec" where
  "nghttp2_priority_spec_normalize_weight p =
     (if ps_weight p < NGHTTP2_MIN_WEIGHT then p\<lparr>ps_weight := NGHTTP2_MIN_WEIGHT\<rparr>
      else if ps_weight p > NGHTTP2_MAX_WEIGHT then p\<lparr>ps_weight := NGHTTP2_MAX_WEIGHT\<rparr>
      else p)"

lemma normalize_weight_range:
  "NGHTTP2_MIN_WEIGHT \<le> ps_weight (nghttp2_priority_spec_normalize_weight p) \<and>
   ps_weight (nghttp2_priority_spec_normalize_weight p) \<le> NGHTTP2_MAX_WEIGHT"
  by (simp add: nghttp2_priority_spec_normalize_weight_def NGHTTP2_MIN_WEIGHT_def
      NGHTTP2_MAX_WEIGHT_def)

section \<open>Protocol selection\<close>

text \<open>
  The loop index is an \<^verbatim>\<open>unsigned int\<close>; its additions wrap at 32 bits.  The result is the offset and
  length of the selected protocol name.  \<open>None\<close> would be a loop that does not end.
\<close>

partial_function (option) select_next_protocol_loop ::
  "u8 list \<Rightarrow> u8 list \<Rightarrow> u32 \<Rightarrow> (nat \<times> nat) option option" where
  "select_next_protocol_loop inp key i =
     (if i + of_nat (length key) \<le> of_nat (length inp) then
        (if take (length key) (drop (unat i) inp) = key then
           Some (Some (unat (i + 1), unat (inp ! unat i)))
         else select_next_protocol_loop inp key (i + (ucast (inp ! unat i) + 1)))
      else Some None)"

definition select_next_protocol :: "u8 list \<Rightarrow> u8 list \<Rightarrow> (nat \<times> nat) option option" where
  "select_next_protocol inp key = select_next_protocol_loop inp key 0"

definition NGHTTP2_PROTO_ALPN :: "u8 list" where
  "NGHTTP2_PROTO_ALPN = [2, 104, 50]"

definition NGHTTP2_HTTP_1_1_ALPN :: "u8 list" where
  "NGHTTP2_HTTP_1_1_ALPN = [8, 104, 116, 116, 112, 47, 49, 46, 49]"

text \<open>The return value (1 for h2, 0 for http/1.1, -1 for none) and the selected range.\<close>

definition nghttp2_select_next_protocol :: "u8 list \<Rightarrow> (int \<times> (nat \<times> nat) option) option" where
  "nghttp2_select_next_protocol inp =
     Option.bind (select_next_protocol inp NGHTTP2_PROTO_ALPN) (\<lambda>r1.
       case r1 of
         Some out \<Rightarrow> Some (1, Some out)
       | None \<Rightarrow>
           Option.bind (select_next_protocol inp NGHTTP2_HTTP_1_1_ALPN) (\<lambda>r2.
             case r2 of
               Some out \<Rightarrow> Some (0, Some out)
             | None \<Rightarrow> Some (-1, None)))"

text \<open>The wire form of a protocol list: each name preceded by its length in one byte.\<close>

definition alpn_wire :: "u8 list list \<Rightarrow> u8 list" where
  "alpn_wire ps = concat (map (\<lambda>p. of_nat (length p) # p) ps)"

lemma alpn_wire_simps [simp]: "alpn_wire [] = []" "alpn_wire (p # ps) = of_nat (length p) # p @ alpn_wire ps"
  "alpn_wire (ps @ qs) = alpn_wire ps @ alpn_wire qs"
  by (simp_all add: alpn_wire_def)

lemma alpn_wire_member: "p \<in> set ps \<Longrightarrow> length p + 1 \<le> length (alpn_wire ps)"
  by (induction ps) auto

lemma alpn_entry_match:
  assumes "length p < 256" "length name < 256"
  shows "take (Suc (length name)) (of_nat (length p) # p @ r) = (of_nat (length name) :: u8) # name \<longleftrightarrow> p = name"
  using assms by (auto simp: of_nat_u8_inj)

lemma select_loop:
  assumes "\<forall>p \<in> set (d @ ps). length p < 256" "length name < 256"
    and "length (alpn_wire (d @ ps)) < 2 ^ 31"
  shows "\<exists>r. select_next_protocol_loop (alpn_wire (d @ ps)) (of_nat (length name) # name)
           (of_nat (length (alpn_wire d))) = Some r \<and>
         (r = None \<longleftrightarrow> name \<notin> set ps) \<and>
         (\<forall>off len. r = Some (off, len) \<longrightarrow> take len (drop off (alpn_wire (d @ ps))) = name)"
  using assms
proof (induction ps arbitrary: d)
  case Nil
  then show ?case
    by (subst select_next_protocol_loop.simps)
       (simp add: of_nat_u32_le flip: of_nat_add of_nat_Suc)
next
  case (Cons p ps)
  let ?inp = "alpn_wire (d @ p # ps)" and ?n = "length (alpn_wire d)" and ?k = "Suc (length name)"
  let ?key = "of_nat (length name) # name :: u8 list"
  have p: "length p < 256" and n: "?n + Suc (length p) \<le> length ?inp" and l: "length ?inp < 2 ^ 31"
    using Cons.prems by auto
  have i: "unat (of_nat ?n :: u32) = ?n"
    using n l by (simp add: unat_of_nat_u32)
  have test: "(of_nat ?n + of_nat (length ?key) :: u32) \<le> of_nat (length ?inp) \<longleftrightarrow> ?n + ?k \<le> length ?inp"
    using Cons.prems(2) n l of_nat_u32_le [of "?n + ?k" "length ?inp"]
    by (simp add: algebra_simps)
  have drop: "drop ?n ?inp = of_nat (length p) # p @ alpn_wire ps" and hd: "?inp ! ?n = of_nat (length p)"
    by simp_all
  have nxt: "of_nat ?n + (ucast (?inp ! unat (of_nat ?n :: u32)) + 1) = (of_nat (length (alpn_wire (d @ [p]))) :: u32)"
    unfolding i hd using p by (simp add: ucast_of_nat_u8_u32 algebra_simps)
  note IH = Cons.IH [of "d @ [p]"]
  show ?case
  proof (cases "?n + ?k \<le> length ?inp")
    case False
    then have "name \<notin> set (p # ps)"
      using alpn_wire_member [of name "p # ps"] by auto
    with False test show ?thesis
      by (subst select_next_protocol_loop.simps) auto
  next
    case fits: True
    show ?thesis
    proof (cases "p = name")
      case True
      have "unat (of_nat ?n + 1 :: u32) = Suc ?n"
        using n l unat_of_nat_u32 [of "Suc ?n"] by (simp add: add.commute)
      with True fits test i p show ?thesis
        by (subst select_next_protocol_loop.simps) (auto simp: drop hd unat_of_nat_u8)
    next
      case False
      then have ne: "take (length ?key) (drop (unat (of_nat ?n :: u32)) ?inp) \<noteq> ?key"
        using alpn_entry_match [OF p Cons.prems(2), of "alpn_wire ps"] by (simp add: i drop)
      have "select_next_protocol_loop ?inp ?key (of_nat ?n) =
         select_next_protocol_loop ?inp ?key (of_nat (length (alpn_wire (d @ [p]))))"
        unfolding select_next_protocol_loop.simps [of ?inp ?key "of_nat ?n"]
        using test fits ne by (simp only: nxt if_True if_False simp_thms)
      with IH Cons.prems False show ?thesis
        by auto
    qed
  qed
qed

section \<open>Properties\<close>

text \<open>
  C8.  Flow control conservation.  Start from a window whose fields are in their ranges, with no more bytes
  received than the window allows, and apply any sequence of \<^verbatim>\<open>nghttp2_adjust_local_window_size\<close> with any
  \<^verbatim>\<open>int32_t\<close> and \<^verbatim>\<open>nghttp2_increase_local_window_size\<close> with any non-negative \<^verbatim>\<open>int32_t\<close>, in any order, refused
  changes included.  No assertion fails; the window that the peer sees (\<open>local_window_size\<close> minus
  \<open>recv_window_size\<close>) is the initial one plus the sum of the increments announced to it; the fields are in
  their ranges again (so no \<^verbatim>\<open>int32_t\<close> arithmetic overflows); and the announced total is not negative.
\<close>

theorem window_changes_conserve_peer_window:
  assumes "flow_window_wf w" and "list_all window_op_ok ops"
  shows "\<exists>w1 s. window_run window_op_step w ops = Some (w1, s) \<and>
    peer_window w1 = peer_window w + s \<and> flow_window_wf w1 \<and> 0 \<le> s"
  by (rule window_ops.run_conserves [OF assms])

theorem window_changes_conserve_peer_window_witness:
  "\<exists>w1 s. window_run window_op_step \<lparr>local_window_size = 65535, recv_window_size = 5000, recv_reduction = 0\<rparr>
       [Adjust_window (-100), Increase_window 40, Adjust_window 70000, Increase_window 100] = Some (w1, s) \<and>
     peer_window w1 = 60535 + s \<and> flow_window_wf w1 \<and> 0 \<le> s"
proof -
  let ?w = "\<lparr>local_window_size = 65535, recv_window_size = 5000, recv_reduction = 0\<rparr>"
  let ?ops = "[Adjust_window (-100), Increase_window 40, Adjust_window 70000, Increase_window 100]"
  have "flow_window_wf ?w" "list_all window_op_ok ?ops" by (simp_all add: flow_window_wf_def int32_def NGHTTP2_MAX_WINDOW_SIZE_def)
  from window_changes_conserve_peer_window [OF this] show ?thesis by (simp add: peer_window_def)
qed

text \<open>
  C24.  Header field names and values.  \<^verbatim>\<open>nghttp2_check_header_name\<close> accepts exactly the non-empty
  names made of lower case token characters, with at most one leading colon that something
  follows; \<^verbatim>\<open>nghttp2_check_header_value\<close> accepts exactly the values without control characters other
  than tab; and \<^verbatim>\<open>nghttp2_downcase\<close> folds ASCII upper case, once and for all.
\<close>

theorem header_character_classes:
  "(nghttp2_check_header_name name \<longleftrightarrow>
      (\<exists>cs. cs \<noteq> [] \<and> list_all lower_tchar cs \<and> (name = cs \<or> name = 58 # cs))) \<and>
   (nghttp2_check_header_value val \<longleftrightarrow> list_all field_value_char val) \<and>
   nghttp2_downcase s = map ascii_lower s \<and>
   nghttp2_downcase (nghttp2_downcase s) = nghttp2_downcase s"
proof (intro conjI)
  have "\<not> lower_tchar 58"
    by (simp add: lower_tchar_def tchar_code_def)
  then show "nghttp2_check_header_name name \<longleftrightarrow>
      (\<exists>cs. cs \<noteq> [] \<and> list_all lower_tchar cs \<and> (name = cs \<or> name = 58 # cs))"
    by (auto simp: nghttp2_check_header_name_def check_name_loop_iff simp del: check_name_loop.simps
        split: list.splits)
  show "nghttp2_check_header_value val \<longleftrightarrow> list_all field_value_char val"
    by (induction val) (auto simp: VALID_HD_VALUE_CHARS_nth)
  show "nghttp2_downcase s = map ascii_lower s"
    by (rule nghttp2_downcase_lower)
  show "nghttp2_downcase (nghttp2_downcase s) = nghttp2_downcase s"
    by (simp add: nghttp2_downcase_lower)
qed

text \<open>
  C30.  Protocol selection.  On the wire form of any list of protocol names,
  \<^verbatim>\<open>nghttp2_select_next_protocol\<close> terminates, prefers h2, falls back to http/1.1, reports -1 when
  neither is offered, and the selected range of the input holds the selected name.
\<close>

theorem select_next_protocol_correct:
  assumes "\<forall>p \<in> set ps. length p < 256" and "length (alpn_wire ps) < 2 ^ 31"
  shows "\<exists>rv out. nghttp2_select_next_protocol (alpn_wire ps) = Some (rv, out) \<and>
     rv = (if [104, 50] \<in> set ps then 1
           else if [104, 116, 116, 112, 47, 49, 46, 49] \<in> set ps then 0 else -1) \<and>
     (out = None \<longleftrightarrow> rv = -1) \<and>
     (\<forall>off len. out = Some (off, len) \<longrightarrow>
        take len (drop off (alpn_wire ps)) =
          (if rv = 1 then [104, 50] else [104, 116, 116, 112, 47, 49, 46, 49]))"
proof -
  have len: "length (alpn_wire ps) < 2147483648"
    using assms(2) by simp
  note loop = select_loop [of "[]" ps, simplified, OF assms(1) _ len]
  from loop [of "[104, 50]"] loop [of "[104, 116, 116, 112, 47, 49, 46, 49]"] show ?thesis
    unfolding nghttp2_select_next_protocol_def select_next_protocol_def
      NGHTTP2_PROTO_ALPN_def NGHTTP2_HTTP_1_1_ALPN_def
    by (auto split: option.splits)
qed

theorem select_next_protocol_correct_witness:
  "\<exists>out. nghttp2_select_next_protocol (alpn_wire [[115, 112, 100, 121], [104, 50]]) = Some (1, out)"
  using select_next_protocol_correct [of "[[115, 112, 100, 121], [104, 50]]"] by auto

end
