(* ===== verification/Huffman_Data.thy ===== *)
theory Huffman_Data
  imports Nghttp2_Prelude
begin

text \<open>
  \<^verbatim>\<open>lib/nghttp2_hd_huffman_data.c\<close>: the code of every symbol and the decoding automaton, as the source has
  them, and the code tree they both come from.  A row of \<^verbatim>\<open>huff_decode_table\<close> has an entry for each value of
  the next four bits; the rows are given in groups of eight.
\<close>

text \<open>\<^verbatim>\<open>nghttp2_huff_sym\<close>: the number of bits and the code, aligned to the least significant bit.\<close>

datatype nghttp2_huff_sym = Huff_sym (hs_nbits: u32) (hs_code: u32)

text \<open>\<^verbatim>\<open>nghttp2_huff_decode\<close>: the next state, the flags and the symbol.\<close>

datatype nghttp2_huff_decode = Huff_dec (dec_state: u8) (dec_flags: u8) (dec_sym: u8)

section \<open>The symbol table\<close>

definition huff_sym_table :: "nghttp2_huff_sym list" where
  "huff_sym_table = [
     Huff_sym 13 0x1ff8, Huff_sym 23 0x7fffd8, Huff_sym 28 0xfffffe2, Huff_sym 28 0xfffffe3, Huff_sym 28 0xfffffe4,
     Huff_sym 28 0xfffffe5, Huff_sym 28 0xfffffe6, Huff_sym 28 0xfffffe7, Huff_sym 28 0xfffffe8,
     Huff_sym 24 0xffffea, Huff_sym 30 0x3ffffffc, Huff_sym 28 0xfffffe9, Huff_sym 28 0xfffffea,
     Huff_sym 30 0x3ffffffd, Huff_sym 28 0xfffffeb, Huff_sym 28 0xfffffec, Huff_sym 28 0xfffffed,
     Huff_sym 28 0xfffffee, Huff_sym 28 0xfffffef, Huff_sym 28 0xffffff0, Huff_sym 28 0xffffff1,
     Huff_sym 28 0xffffff2, Huff_sym 30 0x3ffffffe, Huff_sym 28 0xffffff3, Huff_sym 28 0xffffff4,
     Huff_sym 28 0xffffff5, Huff_sym 28 0xffffff6, Huff_sym 28 0xffffff7, Huff_sym 28 0xffffff8,
     Huff_sym 28 0xffffff9, Huff_sym 28 0xffffffa, Huff_sym 28 0xffffffb, Huff_sym 6 0x14, Huff_sym 10 0x3f8,
     Huff_sym 10 0x3f9, Huff_sym 12 0xffa, Huff_sym 13 0x1ff9, Huff_sym 6 0x15, Huff_sym 8 0xf8, Huff_sym 11 0x7fa,
     Huff_sym 10 0x3fa, Huff_sym 10 0x3fb, Huff_sym 8 0xf9, Huff_sym 11 0x7fb, Huff_sym 8 0xfa, Huff_sym 6 0x16,
     Huff_sym 6 0x17, Huff_sym 6 0x18, Huff_sym 5 0x0, Huff_sym 5 0x1, Huff_sym 5 0x2, Huff_sym 6 0x19,
     Huff_sym 6 0x1a, Huff_sym 6 0x1b, Huff_sym 6 0x1c, Huff_sym 6 0x1d, Huff_sym 6 0x1e, Huff_sym 6 0x1f,
     Huff_sym 7 0x5c, Huff_sym 8 0xfb, Huff_sym 15 0x7ffc, Huff_sym 6 0x20, Huff_sym 12 0xffb, Huff_sym 10 0x3fc,
     Huff_sym 13 0x1ffa, Huff_sym 6 0x21, Huff_sym 7 0x5d, Huff_sym 7 0x5e, Huff_sym 7 0x5f, Huff_sym 7 0x60,
     Huff_sym 7 0x61, Huff_sym 7 0x62, Huff_sym 7 0x63, Huff_sym 7 0x64, Huff_sym 7 0x65, Huff_sym 7 0x66,
     Huff_sym 7 0x67, Huff_sym 7 0x68, Huff_sym 7 0x69, Huff_sym 7 0x6a, Huff_sym 7 0x6b, Huff_sym 7 0x6c,
     Huff_sym 7 0x6d, Huff_sym 7 0x6e, Huff_sym 7 0x6f, Huff_sym 7 0x70, Huff_sym 7 0x71, Huff_sym 7 0x72,
     Huff_sym 8 0xfc, Huff_sym 7 0x73, Huff_sym 8 0xfd, Huff_sym 13 0x1ffb, Huff_sym 19 0x7fff0,
     Huff_sym 13 0x1ffc, Huff_sym 14 0x3ffc, Huff_sym 6 0x22, Huff_sym 15 0x7ffd, Huff_sym 5 0x3, Huff_sym 6 0x23,
     Huff_sym 5 0x4, Huff_sym 6 0x24, Huff_sym 5 0x5, Huff_sym 6 0x25, Huff_sym 6 0x26, Huff_sym 6 0x27,
     Huff_sym 5 0x6, Huff_sym 7 0x74, Huff_sym 7 0x75, Huff_sym 6 0x28, Huff_sym 6 0x29, Huff_sym 6 0x2a,
     Huff_sym 5 0x7, Huff_sym 6 0x2b, Huff_sym 7 0x76, Huff_sym 6 0x2c, Huff_sym 5 0x8, Huff_sym 5 0x9,
     Huff_sym 6 0x2d, Huff_sym 7 0x77, Huff_sym 7 0x78, Huff_sym 7 0x79, Huff_sym 7 0x7a, Huff_sym 7 0x7b,
     Huff_sym 15 0x7ffe, Huff_sym 11 0x7fc, Huff_sym 14 0x3ffd, Huff_sym 13 0x1ffd, Huff_sym 28 0xffffffc,
     Huff_sym 20 0xfffe6, Huff_sym 22 0x3fffd2, Huff_sym 20 0xfffe7, Huff_sym 20 0xfffe8, Huff_sym 22 0x3fffd3,
     Huff_sym 22 0x3fffd4, Huff_sym 22 0x3fffd5, Huff_sym 23 0x7fffd9, Huff_sym 22 0x3fffd6, Huff_sym 23 0x7fffda,
     Huff_sym 23 0x7fffdb, Huff_sym 23 0x7fffdc, Huff_sym 23 0x7fffdd, Huff_sym 23 0x7fffde, Huff_sym 24 0xffffeb,
     Huff_sym 23 0x7fffdf, Huff_sym 24 0xffffec, Huff_sym 24 0xffffed, Huff_sym 22 0x3fffd7, Huff_sym 23 0x7fffe0,
     Huff_sym 24 0xffffee, Huff_sym 23 0x7fffe1, Huff_sym 23 0x7fffe2, Huff_sym 23 0x7fffe3, Huff_sym 23 0x7fffe4,
     Huff_sym 21 0x1fffdc, Huff_sym 22 0x3fffd8, Huff_sym 23 0x7fffe5, Huff_sym 22 0x3fffd9, Huff_sym 23 0x7fffe6,
     Huff_sym 23 0x7fffe7, Huff_sym 24 0xffffef, Huff_sym 22 0x3fffda, Huff_sym 21 0x1fffdd, Huff_sym 20 0xfffe9,
     Huff_sym 22 0x3fffdb, Huff_sym 22 0x3fffdc, Huff_sym 23 0x7fffe8, Huff_sym 23 0x7fffe9, Huff_sym 21 0x1fffde,
     Huff_sym 23 0x7fffea, Huff_sym 22 0x3fffdd, Huff_sym 22 0x3fffde, Huff_sym 24 0xfffff0, Huff_sym 21 0x1fffdf,
     Huff_sym 22 0x3fffdf, Huff_sym 23 0x7fffeb, Huff_sym 23 0x7fffec, Huff_sym 21 0x1fffe0, Huff_sym 21 0x1fffe1,
     Huff_sym 22 0x3fffe0, Huff_sym 21 0x1fffe2, Huff_sym 23 0x7fffed, Huff_sym 22 0x3fffe1, Huff_sym 23 0x7fffee,
     Huff_sym 23 0x7fffef, Huff_sym 20 0xfffea, Huff_sym 22 0x3fffe2, Huff_sym 22 0x3fffe3, Huff_sym 22 0x3fffe4,
     Huff_sym 23 0x7ffff0, Huff_sym 22 0x3fffe5, Huff_sym 22 0x3fffe6, Huff_sym 23 0x7ffff1, Huff_sym 26 0x3ffffe0,
     Huff_sym 26 0x3ffffe1, Huff_sym 20 0xfffeb, Huff_sym 19 0x7fff1, Huff_sym 22 0x3fffe7, Huff_sym 23 0x7ffff2,
     Huff_sym 22 0x3fffe8, Huff_sym 25 0x1ffffec, Huff_sym 26 0x3ffffe2, Huff_sym 26 0x3ffffe3,
     Huff_sym 26 0x3ffffe4, Huff_sym 27 0x7ffffde, Huff_sym 27 0x7ffffdf, Huff_sym 26 0x3ffffe5,
     Huff_sym 24 0xfffff1, Huff_sym 25 0x1ffffed, Huff_sym 19 0x7fff2, Huff_sym 21 0x1fffe3, Huff_sym 26 0x3ffffe6,
     Huff_sym 27 0x7ffffe0, Huff_sym 27 0x7ffffe1, Huff_sym 26 0x3ffffe7, Huff_sym 27 0x7ffffe2,
     Huff_sym 24 0xfffff2, Huff_sym 21 0x1fffe4, Huff_sym 21 0x1fffe5, Huff_sym 26 0x3ffffe8,
     Huff_sym 26 0x3ffffe9, Huff_sym 28 0xffffffd, Huff_sym 27 0x7ffffe3, Huff_sym 27 0x7ffffe4,
     Huff_sym 27 0x7ffffe5, Huff_sym 20 0xfffec, Huff_sym 24 0xfffff3, Huff_sym 20 0xfffed, Huff_sym 21 0x1fffe6,
     Huff_sym 22 0x3fffe9, Huff_sym 21 0x1fffe7, Huff_sym 21 0x1fffe8, Huff_sym 23 0x7ffff3, Huff_sym 22 0x3fffea,
     Huff_sym 22 0x3fffeb, Huff_sym 25 0x1ffffee, Huff_sym 25 0x1ffffef, Huff_sym 24 0xfffff4,
     Huff_sym 24 0xfffff5, Huff_sym 26 0x3ffffea, Huff_sym 23 0x7ffff4, Huff_sym 26 0x3ffffeb,
     Huff_sym 27 0x7ffffe6, Huff_sym 26 0x3ffffec, Huff_sym 26 0x3ffffed, Huff_sym 27 0x7ffffe7,
     Huff_sym 27 0x7ffffe8, Huff_sym 27 0x7ffffe9, Huff_sym 27 0x7ffffea, Huff_sym 27 0x7ffffeb,
     Huff_sym 28 0xffffffe, Huff_sym 27 0x7ffffec, Huff_sym 27 0x7ffffed, Huff_sym 27 0x7ffffee,
     Huff_sym 27 0x7ffffef, Huff_sym 27 0x7fffff0, Huff_sym 26 0x3ffffee, Huff_sym 30 0x3fffffff
   ]"

section \<open>The decoding table\<close>

definition huff_decode_rows_0 :: "nghttp2_huff_decode list list" where
  "huff_decode_rows_0 = [
     [Huff_dec 4 0 0, Huff_dec 5 0 0, Huff_dec 7 0 0, Huff_dec 8 0 0, Huff_dec 11 0 0, Huff_dec 12 0 0,
     Huff_dec 16 0 0, Huff_dec 19 0 0, Huff_dec 25 0 0, Huff_dec 28 0 0, Huff_dec 32 0 0, Huff_dec 35 0 0,
     Huff_dec 42 0 0, Huff_dec 49 0 0, Huff_dec 57 0 0, Huff_dec 64 1 0],
     [Huff_dec 0 3 48, Huff_dec 0 3 49, Huff_dec 0 3 50, Huff_dec 0 3 97, Huff_dec 0 3 99, Huff_dec 0 3 101,
     Huff_dec 0 3 105, Huff_dec 0 3 111, Huff_dec 0 3 115, Huff_dec 0 3 116, Huff_dec 13 0 0, Huff_dec 14 0 0,
     Huff_dec 17 0 0, Huff_dec 18 0 0, Huff_dec 20 0 0, Huff_dec 21 0 0],
     [Huff_dec 1 2 48, Huff_dec 22 3 48, Huff_dec 1 2 49, Huff_dec 22 3 49, Huff_dec 1 2 50, Huff_dec 22 3 50,
     Huff_dec 1 2 97, Huff_dec 22 3 97, Huff_dec 1 2 99, Huff_dec 22 3 99, Huff_dec 1 2 101, Huff_dec 22 3 101,
     Huff_dec 1 2 105, Huff_dec 22 3 105, Huff_dec 1 2 111, Huff_dec 22 3 111],
     [Huff_dec 2 2 48, Huff_dec 9 2 48, Huff_dec 23 2 48, Huff_dec 40 3 48, Huff_dec 2 2 49, Huff_dec 9 2 49,
     Huff_dec 23 2 49, Huff_dec 40 3 49, Huff_dec 2 2 50, Huff_dec 9 2 50, Huff_dec 23 2 50, Huff_dec 40 3 50,
     Huff_dec 2 2 97, Huff_dec 9 2 97, Huff_dec 23 2 97, Huff_dec 40 3 97],
     [Huff_dec 3 2 48, Huff_dec 6 2 48, Huff_dec 10 2 48, Huff_dec 15 2 48, Huff_dec 24 2 48, Huff_dec 31 2 48,
     Huff_dec 41 2 48, Huff_dec 56 3 48, Huff_dec 3 2 49, Huff_dec 6 2 49, Huff_dec 10 2 49, Huff_dec 15 2 49,
     Huff_dec 24 2 49, Huff_dec 31 2 49, Huff_dec 41 2 49, Huff_dec 56 3 49],
     [Huff_dec 3 2 50, Huff_dec 6 2 50, Huff_dec 10 2 50, Huff_dec 15 2 50, Huff_dec 24 2 50, Huff_dec 31 2 50,
     Huff_dec 41 2 50, Huff_dec 56 3 50, Huff_dec 3 2 97, Huff_dec 6 2 97, Huff_dec 10 2 97, Huff_dec 15 2 97,
     Huff_dec 24 2 97, Huff_dec 31 2 97, Huff_dec 41 2 97, Huff_dec 56 3 97],
     [Huff_dec 2 2 99, Huff_dec 9 2 99, Huff_dec 23 2 99, Huff_dec 40 3 99, Huff_dec 2 2 101, Huff_dec 9 2 101,
     Huff_dec 23 2 101, Huff_dec 40 3 101, Huff_dec 2 2 105, Huff_dec 9 2 105, Huff_dec 23 2 105,
     Huff_dec 40 3 105, Huff_dec 2 2 111, Huff_dec 9 2 111, Huff_dec 23 2 111, Huff_dec 40 3 111],
     [Huff_dec 3 2 99, Huff_dec 6 2 99, Huff_dec 10 2 99, Huff_dec 15 2 99, Huff_dec 24 2 99, Huff_dec 31 2 99,
     Huff_dec 41 2 99, Huff_dec 56 3 99, Huff_dec 3 2 101, Huff_dec 6 2 101, Huff_dec 10 2 101, Huff_dec 15 2 101,
     Huff_dec 24 2 101, Huff_dec 31 2 101, Huff_dec 41 2 101, Huff_dec 56 3 101]
   ]"

definition huff_decode_rows_8 :: "nghttp2_huff_decode list list" where
  "huff_decode_rows_8 = [
     [Huff_dec 3 2 105, Huff_dec 6 2 105, Huff_dec 10 2 105, Huff_dec 15 2 105, Huff_dec 24 2 105,
     Huff_dec 31 2 105, Huff_dec 41 2 105, Huff_dec 56 3 105, Huff_dec 3 2 111, Huff_dec 6 2 111,
     Huff_dec 10 2 111, Huff_dec 15 2 111, Huff_dec 24 2 111, Huff_dec 31 2 111, Huff_dec 41 2 111,
     Huff_dec 56 3 111],
     [Huff_dec 1 2 115, Huff_dec 22 3 115, Huff_dec 1 2 116, Huff_dec 22 3 116, Huff_dec 0 3 32, Huff_dec 0 3 37,
     Huff_dec 0 3 45, Huff_dec 0 3 46, Huff_dec 0 3 47, Huff_dec 0 3 51, Huff_dec 0 3 52, Huff_dec 0 3 53,
     Huff_dec 0 3 54, Huff_dec 0 3 55, Huff_dec 0 3 56, Huff_dec 0 3 57],
     [Huff_dec 2 2 115, Huff_dec 9 2 115, Huff_dec 23 2 115, Huff_dec 40 3 115, Huff_dec 2 2 116, Huff_dec 9 2 116,
     Huff_dec 23 2 116, Huff_dec 40 3 116, Huff_dec 1 2 32, Huff_dec 22 3 32, Huff_dec 1 2 37, Huff_dec 22 3 37,
     Huff_dec 1 2 45, Huff_dec 22 3 45, Huff_dec 1 2 46, Huff_dec 22 3 46],
     [Huff_dec 3 2 115, Huff_dec 6 2 115, Huff_dec 10 2 115, Huff_dec 15 2 115, Huff_dec 24 2 115,
     Huff_dec 31 2 115, Huff_dec 41 2 115, Huff_dec 56 3 115, Huff_dec 3 2 116, Huff_dec 6 2 116,
     Huff_dec 10 2 116, Huff_dec 15 2 116, Huff_dec 24 2 116, Huff_dec 31 2 116, Huff_dec 41 2 116,
     Huff_dec 56 3 116],
     [Huff_dec 2 2 32, Huff_dec 9 2 32, Huff_dec 23 2 32, Huff_dec 40 3 32, Huff_dec 2 2 37, Huff_dec 9 2 37,
     Huff_dec 23 2 37, Huff_dec 40 3 37, Huff_dec 2 2 45, Huff_dec 9 2 45, Huff_dec 23 2 45, Huff_dec 40 3 45,
     Huff_dec 2 2 46, Huff_dec 9 2 46, Huff_dec 23 2 46, Huff_dec 40 3 46],
     [Huff_dec 3 2 32, Huff_dec 6 2 32, Huff_dec 10 2 32, Huff_dec 15 2 32, Huff_dec 24 2 32, Huff_dec 31 2 32,
     Huff_dec 41 2 32, Huff_dec 56 3 32, Huff_dec 3 2 37, Huff_dec 6 2 37, Huff_dec 10 2 37, Huff_dec 15 2 37,
     Huff_dec 24 2 37, Huff_dec 31 2 37, Huff_dec 41 2 37, Huff_dec 56 3 37],
     [Huff_dec 3 2 45, Huff_dec 6 2 45, Huff_dec 10 2 45, Huff_dec 15 2 45, Huff_dec 24 2 45, Huff_dec 31 2 45,
     Huff_dec 41 2 45, Huff_dec 56 3 45, Huff_dec 3 2 46, Huff_dec 6 2 46, Huff_dec 10 2 46, Huff_dec 15 2 46,
     Huff_dec 24 2 46, Huff_dec 31 2 46, Huff_dec 41 2 46, Huff_dec 56 3 46],
     [Huff_dec 1 2 47, Huff_dec 22 3 47, Huff_dec 1 2 51, Huff_dec 22 3 51, Huff_dec 1 2 52, Huff_dec 22 3 52,
     Huff_dec 1 2 53, Huff_dec 22 3 53, Huff_dec 1 2 54, Huff_dec 22 3 54, Huff_dec 1 2 55, Huff_dec 22 3 55,
     Huff_dec 1 2 56, Huff_dec 22 3 56, Huff_dec 1 2 57, Huff_dec 22 3 57]
   ]"

definition huff_decode_rows_16 :: "nghttp2_huff_decode list list" where
  "huff_decode_rows_16 = [
     [Huff_dec 2 2 47, Huff_dec 9 2 47, Huff_dec 23 2 47, Huff_dec 40 3 47, Huff_dec 2 2 51, Huff_dec 9 2 51,
     Huff_dec 23 2 51, Huff_dec 40 3 51, Huff_dec 2 2 52, Huff_dec 9 2 52, Huff_dec 23 2 52, Huff_dec 40 3 52,
     Huff_dec 2 2 53, Huff_dec 9 2 53, Huff_dec 23 2 53, Huff_dec 40 3 53],
     [Huff_dec 3 2 47, Huff_dec 6 2 47, Huff_dec 10 2 47, Huff_dec 15 2 47, Huff_dec 24 2 47, Huff_dec 31 2 47,
     Huff_dec 41 2 47, Huff_dec 56 3 47, Huff_dec 3 2 51, Huff_dec 6 2 51, Huff_dec 10 2 51, Huff_dec 15 2 51,
     Huff_dec 24 2 51, Huff_dec 31 2 51, Huff_dec 41 2 51, Huff_dec 56 3 51],
     [Huff_dec 3 2 52, Huff_dec 6 2 52, Huff_dec 10 2 52, Huff_dec 15 2 52, Huff_dec 24 2 52, Huff_dec 31 2 52,
     Huff_dec 41 2 52, Huff_dec 56 3 52, Huff_dec 3 2 53, Huff_dec 6 2 53, Huff_dec 10 2 53, Huff_dec 15 2 53,
     Huff_dec 24 2 53, Huff_dec 31 2 53, Huff_dec 41 2 53, Huff_dec 56 3 53],
     [Huff_dec 2 2 54, Huff_dec 9 2 54, Huff_dec 23 2 54, Huff_dec 40 3 54, Huff_dec 2 2 55, Huff_dec 9 2 55,
     Huff_dec 23 2 55, Huff_dec 40 3 55, Huff_dec 2 2 56, Huff_dec 9 2 56, Huff_dec 23 2 56, Huff_dec 40 3 56,
     Huff_dec 2 2 57, Huff_dec 9 2 57, Huff_dec 23 2 57, Huff_dec 40 3 57],
     [Huff_dec 3 2 54, Huff_dec 6 2 54, Huff_dec 10 2 54, Huff_dec 15 2 54, Huff_dec 24 2 54, Huff_dec 31 2 54,
     Huff_dec 41 2 54, Huff_dec 56 3 54, Huff_dec 3 2 55, Huff_dec 6 2 55, Huff_dec 10 2 55, Huff_dec 15 2 55,
     Huff_dec 24 2 55, Huff_dec 31 2 55, Huff_dec 41 2 55, Huff_dec 56 3 55],
     [Huff_dec 3 2 56, Huff_dec 6 2 56, Huff_dec 10 2 56, Huff_dec 15 2 56, Huff_dec 24 2 56, Huff_dec 31 2 56,
     Huff_dec 41 2 56, Huff_dec 56 3 56, Huff_dec 3 2 57, Huff_dec 6 2 57, Huff_dec 10 2 57, Huff_dec 15 2 57,
     Huff_dec 24 2 57, Huff_dec 31 2 57, Huff_dec 41 2 57, Huff_dec 56 3 57],
     [Huff_dec 26 0 0, Huff_dec 27 0 0, Huff_dec 29 0 0, Huff_dec 30 0 0, Huff_dec 33 0 0, Huff_dec 34 0 0,
     Huff_dec 36 0 0, Huff_dec 37 0 0, Huff_dec 43 0 0, Huff_dec 46 0 0, Huff_dec 50 0 0, Huff_dec 53 0 0,
     Huff_dec 58 0 0, Huff_dec 61 0 0, Huff_dec 65 0 0, Huff_dec 68 1 0],
     [Huff_dec 0 3 61, Huff_dec 0 3 65, Huff_dec 0 3 95, Huff_dec 0 3 98, Huff_dec 0 3 100, Huff_dec 0 3 102,
     Huff_dec 0 3 103, Huff_dec 0 3 104, Huff_dec 0 3 108, Huff_dec 0 3 109, Huff_dec 0 3 110, Huff_dec 0 3 112,
     Huff_dec 0 3 114, Huff_dec 0 3 117, Huff_dec 38 0 0, Huff_dec 39 0 0]
   ]"

definition huff_decode_rows_24 :: "nghttp2_huff_decode list list" where
  "huff_decode_rows_24 = [
     [Huff_dec 1 2 61, Huff_dec 22 3 61, Huff_dec 1 2 65, Huff_dec 22 3 65, Huff_dec 1 2 95, Huff_dec 22 3 95,
     Huff_dec 1 2 98, Huff_dec 22 3 98, Huff_dec 1 2 100, Huff_dec 22 3 100, Huff_dec 1 2 102, Huff_dec 22 3 102,
     Huff_dec 1 2 103, Huff_dec 22 3 103, Huff_dec 1 2 104, Huff_dec 22 3 104],
     [Huff_dec 2 2 61, Huff_dec 9 2 61, Huff_dec 23 2 61, Huff_dec 40 3 61, Huff_dec 2 2 65, Huff_dec 9 2 65,
     Huff_dec 23 2 65, Huff_dec 40 3 65, Huff_dec 2 2 95, Huff_dec 9 2 95, Huff_dec 23 2 95, Huff_dec 40 3 95,
     Huff_dec 2 2 98, Huff_dec 9 2 98, Huff_dec 23 2 98, Huff_dec 40 3 98],
     [Huff_dec 3 2 61, Huff_dec 6 2 61, Huff_dec 10 2 61, Huff_dec 15 2 61, Huff_dec 24 2 61, Huff_dec 31 2 61,
     Huff_dec 41 2 61, Huff_dec 56 3 61, Huff_dec 3 2 65, Huff_dec 6 2 65, Huff_dec 10 2 65, Huff_dec 15 2 65,
     Huff_dec 24 2 65, Huff_dec 31 2 65, Huff_dec 41 2 65, Huff_dec 56 3 65],
     [Huff_dec 3 2 95, Huff_dec 6 2 95, Huff_dec 10 2 95, Huff_dec 15 2 95, Huff_dec 24 2 95, Huff_dec 31 2 95,
     Huff_dec 41 2 95, Huff_dec 56 3 95, Huff_dec 3 2 98, Huff_dec 6 2 98, Huff_dec 10 2 98, Huff_dec 15 2 98,
     Huff_dec 24 2 98, Huff_dec 31 2 98, Huff_dec 41 2 98, Huff_dec 56 3 98],
     [Huff_dec 2 2 100, Huff_dec 9 2 100, Huff_dec 23 2 100, Huff_dec 40 3 100, Huff_dec 2 2 102, Huff_dec 9 2 102,
     Huff_dec 23 2 102, Huff_dec 40 3 102, Huff_dec 2 2 103, Huff_dec 9 2 103, Huff_dec 23 2 103,
     Huff_dec 40 3 103, Huff_dec 2 2 104, Huff_dec 9 2 104, Huff_dec 23 2 104, Huff_dec 40 3 104],
     [Huff_dec 3 2 100, Huff_dec 6 2 100, Huff_dec 10 2 100, Huff_dec 15 2 100, Huff_dec 24 2 100,
     Huff_dec 31 2 100, Huff_dec 41 2 100, Huff_dec 56 3 100, Huff_dec 3 2 102, Huff_dec 6 2 102,
     Huff_dec 10 2 102, Huff_dec 15 2 102, Huff_dec 24 2 102, Huff_dec 31 2 102, Huff_dec 41 2 102,
     Huff_dec 56 3 102],
     [Huff_dec 3 2 103, Huff_dec 6 2 103, Huff_dec 10 2 103, Huff_dec 15 2 103, Huff_dec 24 2 103,
     Huff_dec 31 2 103, Huff_dec 41 2 103, Huff_dec 56 3 103, Huff_dec 3 2 104, Huff_dec 6 2 104,
     Huff_dec 10 2 104, Huff_dec 15 2 104, Huff_dec 24 2 104, Huff_dec 31 2 104, Huff_dec 41 2 104,
     Huff_dec 56 3 104],
     [Huff_dec 1 2 108, Huff_dec 22 3 108, Huff_dec 1 2 109, Huff_dec 22 3 109, Huff_dec 1 2 110,
     Huff_dec 22 3 110, Huff_dec 1 2 112, Huff_dec 22 3 112, Huff_dec 1 2 114, Huff_dec 22 3 114, Huff_dec 1 2 117,
     Huff_dec 22 3 117, Huff_dec 0 3 58, Huff_dec 0 3 66, Huff_dec 0 3 67, Huff_dec 0 3 68]
   ]"

definition huff_decode_rows_32 :: "nghttp2_huff_decode list list" where
  "huff_decode_rows_32 = [
     [Huff_dec 2 2 108, Huff_dec 9 2 108, Huff_dec 23 2 108, Huff_dec 40 3 108, Huff_dec 2 2 109, Huff_dec 9 2 109,
     Huff_dec 23 2 109, Huff_dec 40 3 109, Huff_dec 2 2 110, Huff_dec 9 2 110, Huff_dec 23 2 110,
     Huff_dec 40 3 110, Huff_dec 2 2 112, Huff_dec 9 2 112, Huff_dec 23 2 112, Huff_dec 40 3 112],
     [Huff_dec 3 2 108, Huff_dec 6 2 108, Huff_dec 10 2 108, Huff_dec 15 2 108, Huff_dec 24 2 108,
     Huff_dec 31 2 108, Huff_dec 41 2 108, Huff_dec 56 3 108, Huff_dec 3 2 109, Huff_dec 6 2 109,
     Huff_dec 10 2 109, Huff_dec 15 2 109, Huff_dec 24 2 109, Huff_dec 31 2 109, Huff_dec 41 2 109,
     Huff_dec 56 3 109],
     [Huff_dec 3 2 110, Huff_dec 6 2 110, Huff_dec 10 2 110, Huff_dec 15 2 110, Huff_dec 24 2 110,
     Huff_dec 31 2 110, Huff_dec 41 2 110, Huff_dec 56 3 110, Huff_dec 3 2 112, Huff_dec 6 2 112,
     Huff_dec 10 2 112, Huff_dec 15 2 112, Huff_dec 24 2 112, Huff_dec 31 2 112, Huff_dec 41 2 112,
     Huff_dec 56 3 112],
     [Huff_dec 2 2 114, Huff_dec 9 2 114, Huff_dec 23 2 114, Huff_dec 40 3 114, Huff_dec 2 2 117, Huff_dec 9 2 117,
     Huff_dec 23 2 117, Huff_dec 40 3 117, Huff_dec 1 2 58, Huff_dec 22 3 58, Huff_dec 1 2 66, Huff_dec 22 3 66,
     Huff_dec 1 2 67, Huff_dec 22 3 67, Huff_dec 1 2 68, Huff_dec 22 3 68],
     [Huff_dec 3 2 114, Huff_dec 6 2 114, Huff_dec 10 2 114, Huff_dec 15 2 114, Huff_dec 24 2 114,
     Huff_dec 31 2 114, Huff_dec 41 2 114, Huff_dec 56 3 114, Huff_dec 3 2 117, Huff_dec 6 2 117,
     Huff_dec 10 2 117, Huff_dec 15 2 117, Huff_dec 24 2 117, Huff_dec 31 2 117, Huff_dec 41 2 117,
     Huff_dec 56 3 117],
     [Huff_dec 2 2 58, Huff_dec 9 2 58, Huff_dec 23 2 58, Huff_dec 40 3 58, Huff_dec 2 2 66, Huff_dec 9 2 66,
     Huff_dec 23 2 66, Huff_dec 40 3 66, Huff_dec 2 2 67, Huff_dec 9 2 67, Huff_dec 23 2 67, Huff_dec 40 3 67,
     Huff_dec 2 2 68, Huff_dec 9 2 68, Huff_dec 23 2 68, Huff_dec 40 3 68],
     [Huff_dec 3 2 58, Huff_dec 6 2 58, Huff_dec 10 2 58, Huff_dec 15 2 58, Huff_dec 24 2 58, Huff_dec 31 2 58,
     Huff_dec 41 2 58, Huff_dec 56 3 58, Huff_dec 3 2 66, Huff_dec 6 2 66, Huff_dec 10 2 66, Huff_dec 15 2 66,
     Huff_dec 24 2 66, Huff_dec 31 2 66, Huff_dec 41 2 66, Huff_dec 56 3 66],
     [Huff_dec 3 2 67, Huff_dec 6 2 67, Huff_dec 10 2 67, Huff_dec 15 2 67, Huff_dec 24 2 67, Huff_dec 31 2 67,
     Huff_dec 41 2 67, Huff_dec 56 3 67, Huff_dec 3 2 68, Huff_dec 6 2 68, Huff_dec 10 2 68, Huff_dec 15 2 68,
     Huff_dec 24 2 68, Huff_dec 31 2 68, Huff_dec 41 2 68, Huff_dec 56 3 68]
   ]"

definition huff_decode_rows_40 :: "nghttp2_huff_decode list list" where
  "huff_decode_rows_40 = [
     [Huff_dec 44 0 0, Huff_dec 45 0 0, Huff_dec 47 0 0, Huff_dec 48 0 0, Huff_dec 51 0 0, Huff_dec 52 0 0,
     Huff_dec 54 0 0, Huff_dec 55 0 0, Huff_dec 59 0 0, Huff_dec 60 0 0, Huff_dec 62 0 0, Huff_dec 63 0 0,
     Huff_dec 66 0 0, Huff_dec 67 0 0, Huff_dec 69 0 0, Huff_dec 72 1 0],
     [Huff_dec 0 3 69, Huff_dec 0 3 70, Huff_dec 0 3 71, Huff_dec 0 3 72, Huff_dec 0 3 73, Huff_dec 0 3 74,
     Huff_dec 0 3 75, Huff_dec 0 3 76, Huff_dec 0 3 77, Huff_dec 0 3 78, Huff_dec 0 3 79, Huff_dec 0 3 80,
     Huff_dec 0 3 81, Huff_dec 0 3 82, Huff_dec 0 3 83, Huff_dec 0 3 84],
     [Huff_dec 1 2 69, Huff_dec 22 3 69, Huff_dec 1 2 70, Huff_dec 22 3 70, Huff_dec 1 2 71, Huff_dec 22 3 71,
     Huff_dec 1 2 72, Huff_dec 22 3 72, Huff_dec 1 2 73, Huff_dec 22 3 73, Huff_dec 1 2 74, Huff_dec 22 3 74,
     Huff_dec 1 2 75, Huff_dec 22 3 75, Huff_dec 1 2 76, Huff_dec 22 3 76],
     [Huff_dec 2 2 69, Huff_dec 9 2 69, Huff_dec 23 2 69, Huff_dec 40 3 69, Huff_dec 2 2 70, Huff_dec 9 2 70,
     Huff_dec 23 2 70, Huff_dec 40 3 70, Huff_dec 2 2 71, Huff_dec 9 2 71, Huff_dec 23 2 71, Huff_dec 40 3 71,
     Huff_dec 2 2 72, Huff_dec 9 2 72, Huff_dec 23 2 72, Huff_dec 40 3 72],
     [Huff_dec 3 2 69, Huff_dec 6 2 69, Huff_dec 10 2 69, Huff_dec 15 2 69, Huff_dec 24 2 69, Huff_dec 31 2 69,
     Huff_dec 41 2 69, Huff_dec 56 3 69, Huff_dec 3 2 70, Huff_dec 6 2 70, Huff_dec 10 2 70, Huff_dec 15 2 70,
     Huff_dec 24 2 70, Huff_dec 31 2 70, Huff_dec 41 2 70, Huff_dec 56 3 70],
     [Huff_dec 3 2 71, Huff_dec 6 2 71, Huff_dec 10 2 71, Huff_dec 15 2 71, Huff_dec 24 2 71, Huff_dec 31 2 71,
     Huff_dec 41 2 71, Huff_dec 56 3 71, Huff_dec 3 2 72, Huff_dec 6 2 72, Huff_dec 10 2 72, Huff_dec 15 2 72,
     Huff_dec 24 2 72, Huff_dec 31 2 72, Huff_dec 41 2 72, Huff_dec 56 3 72],
     [Huff_dec 2 2 73, Huff_dec 9 2 73, Huff_dec 23 2 73, Huff_dec 40 3 73, Huff_dec 2 2 74, Huff_dec 9 2 74,
     Huff_dec 23 2 74, Huff_dec 40 3 74, Huff_dec 2 2 75, Huff_dec 9 2 75, Huff_dec 23 2 75, Huff_dec 40 3 75,
     Huff_dec 2 2 76, Huff_dec 9 2 76, Huff_dec 23 2 76, Huff_dec 40 3 76],
     [Huff_dec 3 2 73, Huff_dec 6 2 73, Huff_dec 10 2 73, Huff_dec 15 2 73, Huff_dec 24 2 73, Huff_dec 31 2 73,
     Huff_dec 41 2 73, Huff_dec 56 3 73, Huff_dec 3 2 74, Huff_dec 6 2 74, Huff_dec 10 2 74, Huff_dec 15 2 74,
     Huff_dec 24 2 74, Huff_dec 31 2 74, Huff_dec 41 2 74, Huff_dec 56 3 74]
   ]"

definition huff_decode_rows_48 :: "nghttp2_huff_decode list list" where
  "huff_decode_rows_48 = [
     [Huff_dec 3 2 75, Huff_dec 6 2 75, Huff_dec 10 2 75, Huff_dec 15 2 75, Huff_dec 24 2 75, Huff_dec 31 2 75,
     Huff_dec 41 2 75, Huff_dec 56 3 75, Huff_dec 3 2 76, Huff_dec 6 2 76, Huff_dec 10 2 76, Huff_dec 15 2 76,
     Huff_dec 24 2 76, Huff_dec 31 2 76, Huff_dec 41 2 76, Huff_dec 56 3 76],
     [Huff_dec 1 2 77, Huff_dec 22 3 77, Huff_dec 1 2 78, Huff_dec 22 3 78, Huff_dec 1 2 79, Huff_dec 22 3 79,
     Huff_dec 1 2 80, Huff_dec 22 3 80, Huff_dec 1 2 81, Huff_dec 22 3 81, Huff_dec 1 2 82, Huff_dec 22 3 82,
     Huff_dec 1 2 83, Huff_dec 22 3 83, Huff_dec 1 2 84, Huff_dec 22 3 84],
     [Huff_dec 2 2 77, Huff_dec 9 2 77, Huff_dec 23 2 77, Huff_dec 40 3 77, Huff_dec 2 2 78, Huff_dec 9 2 78,
     Huff_dec 23 2 78, Huff_dec 40 3 78, Huff_dec 2 2 79, Huff_dec 9 2 79, Huff_dec 23 2 79, Huff_dec 40 3 79,
     Huff_dec 2 2 80, Huff_dec 9 2 80, Huff_dec 23 2 80, Huff_dec 40 3 80],
     [Huff_dec 3 2 77, Huff_dec 6 2 77, Huff_dec 10 2 77, Huff_dec 15 2 77, Huff_dec 24 2 77, Huff_dec 31 2 77,
     Huff_dec 41 2 77, Huff_dec 56 3 77, Huff_dec 3 2 78, Huff_dec 6 2 78, Huff_dec 10 2 78, Huff_dec 15 2 78,
     Huff_dec 24 2 78, Huff_dec 31 2 78, Huff_dec 41 2 78, Huff_dec 56 3 78],
     [Huff_dec 3 2 79, Huff_dec 6 2 79, Huff_dec 10 2 79, Huff_dec 15 2 79, Huff_dec 24 2 79, Huff_dec 31 2 79,
     Huff_dec 41 2 79, Huff_dec 56 3 79, Huff_dec 3 2 80, Huff_dec 6 2 80, Huff_dec 10 2 80, Huff_dec 15 2 80,
     Huff_dec 24 2 80, Huff_dec 31 2 80, Huff_dec 41 2 80, Huff_dec 56 3 80],
     [Huff_dec 2 2 81, Huff_dec 9 2 81, Huff_dec 23 2 81, Huff_dec 40 3 81, Huff_dec 2 2 82, Huff_dec 9 2 82,
     Huff_dec 23 2 82, Huff_dec 40 3 82, Huff_dec 2 2 83, Huff_dec 9 2 83, Huff_dec 23 2 83, Huff_dec 40 3 83,
     Huff_dec 2 2 84, Huff_dec 9 2 84, Huff_dec 23 2 84, Huff_dec 40 3 84],
     [Huff_dec 3 2 81, Huff_dec 6 2 81, Huff_dec 10 2 81, Huff_dec 15 2 81, Huff_dec 24 2 81, Huff_dec 31 2 81,
     Huff_dec 41 2 81, Huff_dec 56 3 81, Huff_dec 3 2 82, Huff_dec 6 2 82, Huff_dec 10 2 82, Huff_dec 15 2 82,
     Huff_dec 24 2 82, Huff_dec 31 2 82, Huff_dec 41 2 82, Huff_dec 56 3 82],
     [Huff_dec 3 2 83, Huff_dec 6 2 83, Huff_dec 10 2 83, Huff_dec 15 2 83, Huff_dec 24 2 83, Huff_dec 31 2 83,
     Huff_dec 41 2 83, Huff_dec 56 3 83, Huff_dec 3 2 84, Huff_dec 6 2 84, Huff_dec 10 2 84, Huff_dec 15 2 84,
     Huff_dec 24 2 84, Huff_dec 31 2 84, Huff_dec 41 2 84, Huff_dec 56 3 84]
   ]"

definition huff_decode_rows_56 :: "nghttp2_huff_decode list list" where
  "huff_decode_rows_56 = [
     [Huff_dec 0 3 85, Huff_dec 0 3 86, Huff_dec 0 3 87, Huff_dec 0 3 89, Huff_dec 0 3 106, Huff_dec 0 3 107,
     Huff_dec 0 3 113, Huff_dec 0 3 118, Huff_dec 0 3 119, Huff_dec 0 3 120, Huff_dec 0 3 121, Huff_dec 0 3 122,
     Huff_dec 70 0 0, Huff_dec 71 0 0, Huff_dec 73 0 0, Huff_dec 74 1 0],
     [Huff_dec 1 2 85, Huff_dec 22 3 85, Huff_dec 1 2 86, Huff_dec 22 3 86, Huff_dec 1 2 87, Huff_dec 22 3 87,
     Huff_dec 1 2 89, Huff_dec 22 3 89, Huff_dec 1 2 106, Huff_dec 22 3 106, Huff_dec 1 2 107, Huff_dec 22 3 107,
     Huff_dec 1 2 113, Huff_dec 22 3 113, Huff_dec 1 2 118, Huff_dec 22 3 118],
     [Huff_dec 2 2 85, Huff_dec 9 2 85, Huff_dec 23 2 85, Huff_dec 40 3 85, Huff_dec 2 2 86, Huff_dec 9 2 86,
     Huff_dec 23 2 86, Huff_dec 40 3 86, Huff_dec 2 2 87, Huff_dec 9 2 87, Huff_dec 23 2 87, Huff_dec 40 3 87,
     Huff_dec 2 2 89, Huff_dec 9 2 89, Huff_dec 23 2 89, Huff_dec 40 3 89],
     [Huff_dec 3 2 85, Huff_dec 6 2 85, Huff_dec 10 2 85, Huff_dec 15 2 85, Huff_dec 24 2 85, Huff_dec 31 2 85,
     Huff_dec 41 2 85, Huff_dec 56 3 85, Huff_dec 3 2 86, Huff_dec 6 2 86, Huff_dec 10 2 86, Huff_dec 15 2 86,
     Huff_dec 24 2 86, Huff_dec 31 2 86, Huff_dec 41 2 86, Huff_dec 56 3 86],
     [Huff_dec 3 2 87, Huff_dec 6 2 87, Huff_dec 10 2 87, Huff_dec 15 2 87, Huff_dec 24 2 87, Huff_dec 31 2 87,
     Huff_dec 41 2 87, Huff_dec 56 3 87, Huff_dec 3 2 89, Huff_dec 6 2 89, Huff_dec 10 2 89, Huff_dec 15 2 89,
     Huff_dec 24 2 89, Huff_dec 31 2 89, Huff_dec 41 2 89, Huff_dec 56 3 89],
     [Huff_dec 2 2 106, Huff_dec 9 2 106, Huff_dec 23 2 106, Huff_dec 40 3 106, Huff_dec 2 2 107, Huff_dec 9 2 107,
     Huff_dec 23 2 107, Huff_dec 40 3 107, Huff_dec 2 2 113, Huff_dec 9 2 113, Huff_dec 23 2 113,
     Huff_dec 40 3 113, Huff_dec 2 2 118, Huff_dec 9 2 118, Huff_dec 23 2 118, Huff_dec 40 3 118],
     [Huff_dec 3 2 106, Huff_dec 6 2 106, Huff_dec 10 2 106, Huff_dec 15 2 106, Huff_dec 24 2 106,
     Huff_dec 31 2 106, Huff_dec 41 2 106, Huff_dec 56 3 106, Huff_dec 3 2 107, Huff_dec 6 2 107,
     Huff_dec 10 2 107, Huff_dec 15 2 107, Huff_dec 24 2 107, Huff_dec 31 2 107, Huff_dec 41 2 107,
     Huff_dec 56 3 107],
     [Huff_dec 3 2 113, Huff_dec 6 2 113, Huff_dec 10 2 113, Huff_dec 15 2 113, Huff_dec 24 2 113,
     Huff_dec 31 2 113, Huff_dec 41 2 113, Huff_dec 56 3 113, Huff_dec 3 2 118, Huff_dec 6 2 118,
     Huff_dec 10 2 118, Huff_dec 15 2 118, Huff_dec 24 2 118, Huff_dec 31 2 118, Huff_dec 41 2 118,
     Huff_dec 56 3 118]
   ]"

definition huff_decode_rows_64 :: "nghttp2_huff_decode list list" where
  "huff_decode_rows_64 = [
     [Huff_dec 1 2 119, Huff_dec 22 3 119, Huff_dec 1 2 120, Huff_dec 22 3 120, Huff_dec 1 2 121,
     Huff_dec 22 3 121, Huff_dec 1 2 122, Huff_dec 22 3 122, Huff_dec 0 3 38, Huff_dec 0 3 42, Huff_dec 0 3 44,
     Huff_dec 0 3 59, Huff_dec 0 3 88, Huff_dec 0 3 90, Huff_dec 75 0 0, Huff_dec 78 0 0],
     [Huff_dec 2 2 119, Huff_dec 9 2 119, Huff_dec 23 2 119, Huff_dec 40 3 119, Huff_dec 2 2 120, Huff_dec 9 2 120,
     Huff_dec 23 2 120, Huff_dec 40 3 120, Huff_dec 2 2 121, Huff_dec 9 2 121, Huff_dec 23 2 121,
     Huff_dec 40 3 121, Huff_dec 2 2 122, Huff_dec 9 2 122, Huff_dec 23 2 122, Huff_dec 40 3 122],
     [Huff_dec 3 2 119, Huff_dec 6 2 119, Huff_dec 10 2 119, Huff_dec 15 2 119, Huff_dec 24 2 119,
     Huff_dec 31 2 119, Huff_dec 41 2 119, Huff_dec 56 3 119, Huff_dec 3 2 120, Huff_dec 6 2 120,
     Huff_dec 10 2 120, Huff_dec 15 2 120, Huff_dec 24 2 120, Huff_dec 31 2 120, Huff_dec 41 2 120,
     Huff_dec 56 3 120],
     [Huff_dec 3 2 121, Huff_dec 6 2 121, Huff_dec 10 2 121, Huff_dec 15 2 121, Huff_dec 24 2 121,
     Huff_dec 31 2 121, Huff_dec 41 2 121, Huff_dec 56 3 121, Huff_dec 3 2 122, Huff_dec 6 2 122,
     Huff_dec 10 2 122, Huff_dec 15 2 122, Huff_dec 24 2 122, Huff_dec 31 2 122, Huff_dec 41 2 122,
     Huff_dec 56 3 122],
     [Huff_dec 1 2 38, Huff_dec 22 3 38, Huff_dec 1 2 42, Huff_dec 22 3 42, Huff_dec 1 2 44, Huff_dec 22 3 44,
     Huff_dec 1 2 59, Huff_dec 22 3 59, Huff_dec 1 2 88, Huff_dec 22 3 88, Huff_dec 1 2 90, Huff_dec 22 3 90,
     Huff_dec 76 0 0, Huff_dec 77 0 0, Huff_dec 79 0 0, Huff_dec 81 0 0],
     [Huff_dec 2 2 38, Huff_dec 9 2 38, Huff_dec 23 2 38, Huff_dec 40 3 38, Huff_dec 2 2 42, Huff_dec 9 2 42,
     Huff_dec 23 2 42, Huff_dec 40 3 42, Huff_dec 2 2 44, Huff_dec 9 2 44, Huff_dec 23 2 44, Huff_dec 40 3 44,
     Huff_dec 2 2 59, Huff_dec 9 2 59, Huff_dec 23 2 59, Huff_dec 40 3 59],
     [Huff_dec 3 2 38, Huff_dec 6 2 38, Huff_dec 10 2 38, Huff_dec 15 2 38, Huff_dec 24 2 38, Huff_dec 31 2 38,
     Huff_dec 41 2 38, Huff_dec 56 3 38, Huff_dec 3 2 42, Huff_dec 6 2 42, Huff_dec 10 2 42, Huff_dec 15 2 42,
     Huff_dec 24 2 42, Huff_dec 31 2 42, Huff_dec 41 2 42, Huff_dec 56 3 42],
     [Huff_dec 3 2 44, Huff_dec 6 2 44, Huff_dec 10 2 44, Huff_dec 15 2 44, Huff_dec 24 2 44, Huff_dec 31 2 44,
     Huff_dec 41 2 44, Huff_dec 56 3 44, Huff_dec 3 2 59, Huff_dec 6 2 59, Huff_dec 10 2 59, Huff_dec 15 2 59,
     Huff_dec 24 2 59, Huff_dec 31 2 59, Huff_dec 41 2 59, Huff_dec 56 3 59]
   ]"

definition huff_decode_rows_72 :: "nghttp2_huff_decode list list" where
  "huff_decode_rows_72 = [
     [Huff_dec 2 2 88, Huff_dec 9 2 88, Huff_dec 23 2 88, Huff_dec 40 3 88, Huff_dec 2 2 90, Huff_dec 9 2 90,
     Huff_dec 23 2 90, Huff_dec 40 3 90, Huff_dec 0 3 33, Huff_dec 0 3 34, Huff_dec 0 3 40, Huff_dec 0 3 41,
     Huff_dec 0 3 63, Huff_dec 80 0 0, Huff_dec 82 0 0, Huff_dec 84 0 0],
     [Huff_dec 3 2 88, Huff_dec 6 2 88, Huff_dec 10 2 88, Huff_dec 15 2 88, Huff_dec 24 2 88, Huff_dec 31 2 88,
     Huff_dec 41 2 88, Huff_dec 56 3 88, Huff_dec 3 2 90, Huff_dec 6 2 90, Huff_dec 10 2 90, Huff_dec 15 2 90,
     Huff_dec 24 2 90, Huff_dec 31 2 90, Huff_dec 41 2 90, Huff_dec 56 3 90],
     [Huff_dec 1 2 33, Huff_dec 22 3 33, Huff_dec 1 2 34, Huff_dec 22 3 34, Huff_dec 1 2 40, Huff_dec 22 3 40,
     Huff_dec 1 2 41, Huff_dec 22 3 41, Huff_dec 1 2 63, Huff_dec 22 3 63, Huff_dec 0 3 39, Huff_dec 0 3 43,
     Huff_dec 0 3 124, Huff_dec 83 0 0, Huff_dec 85 0 0, Huff_dec 88 0 0],
     [Huff_dec 2 2 33, Huff_dec 9 2 33, Huff_dec 23 2 33, Huff_dec 40 3 33, Huff_dec 2 2 34, Huff_dec 9 2 34,
     Huff_dec 23 2 34, Huff_dec 40 3 34, Huff_dec 2 2 40, Huff_dec 9 2 40, Huff_dec 23 2 40, Huff_dec 40 3 40,
     Huff_dec 2 2 41, Huff_dec 9 2 41, Huff_dec 23 2 41, Huff_dec 40 3 41],
     [Huff_dec 3 2 33, Huff_dec 6 2 33, Huff_dec 10 2 33, Huff_dec 15 2 33, Huff_dec 24 2 33, Huff_dec 31 2 33,
     Huff_dec 41 2 33, Huff_dec 56 3 33, Huff_dec 3 2 34, Huff_dec 6 2 34, Huff_dec 10 2 34, Huff_dec 15 2 34,
     Huff_dec 24 2 34, Huff_dec 31 2 34, Huff_dec 41 2 34, Huff_dec 56 3 34],
     [Huff_dec 3 2 40, Huff_dec 6 2 40, Huff_dec 10 2 40, Huff_dec 15 2 40, Huff_dec 24 2 40, Huff_dec 31 2 40,
     Huff_dec 41 2 40, Huff_dec 56 3 40, Huff_dec 3 2 41, Huff_dec 6 2 41, Huff_dec 10 2 41, Huff_dec 15 2 41,
     Huff_dec 24 2 41, Huff_dec 31 2 41, Huff_dec 41 2 41, Huff_dec 56 3 41],
     [Huff_dec 2 2 63, Huff_dec 9 2 63, Huff_dec 23 2 63, Huff_dec 40 3 63, Huff_dec 1 2 39, Huff_dec 22 3 39,
     Huff_dec 1 2 43, Huff_dec 22 3 43, Huff_dec 1 2 124, Huff_dec 22 3 124, Huff_dec 0 3 35, Huff_dec 0 3 62,
     Huff_dec 86 0 0, Huff_dec 87 0 0, Huff_dec 89 0 0, Huff_dec 90 0 0],
     [Huff_dec 3 2 63, Huff_dec 6 2 63, Huff_dec 10 2 63, Huff_dec 15 2 63, Huff_dec 24 2 63, Huff_dec 31 2 63,
     Huff_dec 41 2 63, Huff_dec 56 3 63, Huff_dec 2 2 39, Huff_dec 9 2 39, Huff_dec 23 2 39, Huff_dec 40 3 39,
     Huff_dec 2 2 43, Huff_dec 9 2 43, Huff_dec 23 2 43, Huff_dec 40 3 43]
   ]"

definition huff_decode_rows_80 :: "nghttp2_huff_decode list list" where
  "huff_decode_rows_80 = [
     [Huff_dec 3 2 39, Huff_dec 6 2 39, Huff_dec 10 2 39, Huff_dec 15 2 39, Huff_dec 24 2 39, Huff_dec 31 2 39,
     Huff_dec 41 2 39, Huff_dec 56 3 39, Huff_dec 3 2 43, Huff_dec 6 2 43, Huff_dec 10 2 43, Huff_dec 15 2 43,
     Huff_dec 24 2 43, Huff_dec 31 2 43, Huff_dec 41 2 43, Huff_dec 56 3 43],
     [Huff_dec 2 2 124, Huff_dec 9 2 124, Huff_dec 23 2 124, Huff_dec 40 3 124, Huff_dec 1 2 35, Huff_dec 22 3 35,
     Huff_dec 1 2 62, Huff_dec 22 3 62, Huff_dec 0 3 0, Huff_dec 0 3 36, Huff_dec 0 3 64, Huff_dec 0 3 91,
     Huff_dec 0 3 93, Huff_dec 0 3 126, Huff_dec 91 0 0, Huff_dec 92 0 0],
     [Huff_dec 3 2 124, Huff_dec 6 2 124, Huff_dec 10 2 124, Huff_dec 15 2 124, Huff_dec 24 2 124,
     Huff_dec 31 2 124, Huff_dec 41 2 124, Huff_dec 56 3 124, Huff_dec 2 2 35, Huff_dec 9 2 35, Huff_dec 23 2 35,
     Huff_dec 40 3 35, Huff_dec 2 2 62, Huff_dec 9 2 62, Huff_dec 23 2 62, Huff_dec 40 3 62],
     [Huff_dec 3 2 35, Huff_dec 6 2 35, Huff_dec 10 2 35, Huff_dec 15 2 35, Huff_dec 24 2 35, Huff_dec 31 2 35,
     Huff_dec 41 2 35, Huff_dec 56 3 35, Huff_dec 3 2 62, Huff_dec 6 2 62, Huff_dec 10 2 62, Huff_dec 15 2 62,
     Huff_dec 24 2 62, Huff_dec 31 2 62, Huff_dec 41 2 62, Huff_dec 56 3 62],
     [Huff_dec 1 2 0, Huff_dec 22 3 0, Huff_dec 1 2 36, Huff_dec 22 3 36, Huff_dec 1 2 64, Huff_dec 22 3 64,
     Huff_dec 1 2 91, Huff_dec 22 3 91, Huff_dec 1 2 93, Huff_dec 22 3 93, Huff_dec 1 2 126, Huff_dec 22 3 126,
     Huff_dec 0 3 94, Huff_dec 0 3 125, Huff_dec 93 0 0, Huff_dec 94 0 0],
     [Huff_dec 2 2 0, Huff_dec 9 2 0, Huff_dec 23 2 0, Huff_dec 40 3 0, Huff_dec 2 2 36, Huff_dec 9 2 36,
     Huff_dec 23 2 36, Huff_dec 40 3 36, Huff_dec 2 2 64, Huff_dec 9 2 64, Huff_dec 23 2 64, Huff_dec 40 3 64,
     Huff_dec 2 2 91, Huff_dec 9 2 91, Huff_dec 23 2 91, Huff_dec 40 3 91],
     [Huff_dec 3 2 0, Huff_dec 6 2 0, Huff_dec 10 2 0, Huff_dec 15 2 0, Huff_dec 24 2 0, Huff_dec 31 2 0,
     Huff_dec 41 2 0, Huff_dec 56 3 0, Huff_dec 3 2 36, Huff_dec 6 2 36, Huff_dec 10 2 36, Huff_dec 15 2 36,
     Huff_dec 24 2 36, Huff_dec 31 2 36, Huff_dec 41 2 36, Huff_dec 56 3 36],
     [Huff_dec 3 2 64, Huff_dec 6 2 64, Huff_dec 10 2 64, Huff_dec 15 2 64, Huff_dec 24 2 64, Huff_dec 31 2 64,
     Huff_dec 41 2 64, Huff_dec 56 3 64, Huff_dec 3 2 91, Huff_dec 6 2 91, Huff_dec 10 2 91, Huff_dec 15 2 91,
     Huff_dec 24 2 91, Huff_dec 31 2 91, Huff_dec 41 2 91, Huff_dec 56 3 91]
   ]"

definition huff_decode_rows_88 :: "nghttp2_huff_decode list list" where
  "huff_decode_rows_88 = [
     [Huff_dec 2 2 93, Huff_dec 9 2 93, Huff_dec 23 2 93, Huff_dec 40 3 93, Huff_dec 2 2 126, Huff_dec 9 2 126,
     Huff_dec 23 2 126, Huff_dec 40 3 126, Huff_dec 1 2 94, Huff_dec 22 3 94, Huff_dec 1 2 125, Huff_dec 22 3 125,
     Huff_dec 0 3 60, Huff_dec 0 3 96, Huff_dec 0 3 123, Huff_dec 95 0 0],
     [Huff_dec 3 2 93, Huff_dec 6 2 93, Huff_dec 10 2 93, Huff_dec 15 2 93, Huff_dec 24 2 93, Huff_dec 31 2 93,
     Huff_dec 41 2 93, Huff_dec 56 3 93, Huff_dec 3 2 126, Huff_dec 6 2 126, Huff_dec 10 2 126, Huff_dec 15 2 126,
     Huff_dec 24 2 126, Huff_dec 31 2 126, Huff_dec 41 2 126, Huff_dec 56 3 126],
     [Huff_dec 2 2 94, Huff_dec 9 2 94, Huff_dec 23 2 94, Huff_dec 40 3 94, Huff_dec 2 2 125, Huff_dec 9 2 125,
     Huff_dec 23 2 125, Huff_dec 40 3 125, Huff_dec 1 2 60, Huff_dec 22 3 60, Huff_dec 1 2 96, Huff_dec 22 3 96,
     Huff_dec 1 2 123, Huff_dec 22 3 123, Huff_dec 96 0 0, Huff_dec 110 0 0],
     [Huff_dec 3 2 94, Huff_dec 6 2 94, Huff_dec 10 2 94, Huff_dec 15 2 94, Huff_dec 24 2 94, Huff_dec 31 2 94,
     Huff_dec 41 2 94, Huff_dec 56 3 94, Huff_dec 3 2 125, Huff_dec 6 2 125, Huff_dec 10 2 125, Huff_dec 15 2 125,
     Huff_dec 24 2 125, Huff_dec 31 2 125, Huff_dec 41 2 125, Huff_dec 56 3 125],
     [Huff_dec 2 2 60, Huff_dec 9 2 60, Huff_dec 23 2 60, Huff_dec 40 3 60, Huff_dec 2 2 96, Huff_dec 9 2 96,
     Huff_dec 23 2 96, Huff_dec 40 3 96, Huff_dec 2 2 123, Huff_dec 9 2 123, Huff_dec 23 2 123, Huff_dec 40 3 123,
     Huff_dec 97 0 0, Huff_dec 101 0 0, Huff_dec 111 0 0, Huff_dec 133 0 0],
     [Huff_dec 3 2 60, Huff_dec 6 2 60, Huff_dec 10 2 60, Huff_dec 15 2 60, Huff_dec 24 2 60, Huff_dec 31 2 60,
     Huff_dec 41 2 60, Huff_dec 56 3 60, Huff_dec 3 2 96, Huff_dec 6 2 96, Huff_dec 10 2 96, Huff_dec 15 2 96,
     Huff_dec 24 2 96, Huff_dec 31 2 96, Huff_dec 41 2 96, Huff_dec 56 3 96],
     [Huff_dec 3 2 123, Huff_dec 6 2 123, Huff_dec 10 2 123, Huff_dec 15 2 123, Huff_dec 24 2 123,
     Huff_dec 31 2 123, Huff_dec 41 2 123, Huff_dec 56 3 123, Huff_dec 98 0 0, Huff_dec 99 0 0, Huff_dec 102 0 0,
     Huff_dec 105 0 0, Huff_dec 112 0 0, Huff_dec 119 0 0, Huff_dec 134 0 0, Huff_dec 153 0 0],
     [Huff_dec 0 3 92, Huff_dec 0 3 195, Huff_dec 0 3 208, Huff_dec 100 0 0, Huff_dec 103 0 0, Huff_dec 104 0 0,
     Huff_dec 106 0 0, Huff_dec 107 0 0, Huff_dec 113 0 0, Huff_dec 116 0 0, Huff_dec 120 0 0, Huff_dec 126 0 0,
     Huff_dec 135 0 0, Huff_dec 142 0 0, Huff_dec 154 0 0, Huff_dec 169 0 0]
   ]"

definition huff_decode_rows_96 :: "nghttp2_huff_decode list list" where
  "huff_decode_rows_96 = [
     [Huff_dec 1 2 92, Huff_dec 22 3 92, Huff_dec 1 2 195, Huff_dec 22 3 195, Huff_dec 1 2 208, Huff_dec 22 3 208,
     Huff_dec 0 3 128, Huff_dec 0 3 130, Huff_dec 0 3 131, Huff_dec 0 3 162, Huff_dec 0 3 184, Huff_dec 0 3 194,
     Huff_dec 0 3 224, Huff_dec 0 3 226, Huff_dec 108 0 0, Huff_dec 109 0 0],
     [Huff_dec 2 2 92, Huff_dec 9 2 92, Huff_dec 23 2 92, Huff_dec 40 3 92, Huff_dec 2 2 195, Huff_dec 9 2 195,
     Huff_dec 23 2 195, Huff_dec 40 3 195, Huff_dec 2 2 208, Huff_dec 9 2 208, Huff_dec 23 2 208,
     Huff_dec 40 3 208, Huff_dec 1 2 128, Huff_dec 22 3 128, Huff_dec 1 2 130, Huff_dec 22 3 130],
     [Huff_dec 3 2 92, Huff_dec 6 2 92, Huff_dec 10 2 92, Huff_dec 15 2 92, Huff_dec 24 2 92, Huff_dec 31 2 92,
     Huff_dec 41 2 92, Huff_dec 56 3 92, Huff_dec 3 2 195, Huff_dec 6 2 195, Huff_dec 10 2 195, Huff_dec 15 2 195,
     Huff_dec 24 2 195, Huff_dec 31 2 195, Huff_dec 41 2 195, Huff_dec 56 3 195],
     [Huff_dec 3 2 208, Huff_dec 6 2 208, Huff_dec 10 2 208, Huff_dec 15 2 208, Huff_dec 24 2 208,
     Huff_dec 31 2 208, Huff_dec 41 2 208, Huff_dec 56 3 208, Huff_dec 2 2 128, Huff_dec 9 2 128,
     Huff_dec 23 2 128, Huff_dec 40 3 128, Huff_dec 2 2 130, Huff_dec 9 2 130, Huff_dec 23 2 130,
     Huff_dec 40 3 130],
     [Huff_dec 3 2 128, Huff_dec 6 2 128, Huff_dec 10 2 128, Huff_dec 15 2 128, Huff_dec 24 2 128,
     Huff_dec 31 2 128, Huff_dec 41 2 128, Huff_dec 56 3 128, Huff_dec 3 2 130, Huff_dec 6 2 130,
     Huff_dec 10 2 130, Huff_dec 15 2 130, Huff_dec 24 2 130, Huff_dec 31 2 130, Huff_dec 41 2 130,
     Huff_dec 56 3 130],
     [Huff_dec 1 2 131, Huff_dec 22 3 131, Huff_dec 1 2 162, Huff_dec 22 3 162, Huff_dec 1 2 184,
     Huff_dec 22 3 184, Huff_dec 1 2 194, Huff_dec 22 3 194, Huff_dec 1 2 224, Huff_dec 22 3 224, Huff_dec 1 2 226,
     Huff_dec 22 3 226, Huff_dec 0 3 153, Huff_dec 0 3 161, Huff_dec 0 3 167, Huff_dec 0 3 172],
     [Huff_dec 2 2 131, Huff_dec 9 2 131, Huff_dec 23 2 131, Huff_dec 40 3 131, Huff_dec 2 2 162, Huff_dec 9 2 162,
     Huff_dec 23 2 162, Huff_dec 40 3 162, Huff_dec 2 2 184, Huff_dec 9 2 184, Huff_dec 23 2 184,
     Huff_dec 40 3 184, Huff_dec 2 2 194, Huff_dec 9 2 194, Huff_dec 23 2 194, Huff_dec 40 3 194],
     [Huff_dec 3 2 131, Huff_dec 6 2 131, Huff_dec 10 2 131, Huff_dec 15 2 131, Huff_dec 24 2 131,
     Huff_dec 31 2 131, Huff_dec 41 2 131, Huff_dec 56 3 131, Huff_dec 3 2 162, Huff_dec 6 2 162,
     Huff_dec 10 2 162, Huff_dec 15 2 162, Huff_dec 24 2 162, Huff_dec 31 2 162, Huff_dec 41 2 162,
     Huff_dec 56 3 162]
   ]"

definition huff_decode_rows_104 :: "nghttp2_huff_decode list list" where
  "huff_decode_rows_104 = [
     [Huff_dec 3 2 184, Huff_dec 6 2 184, Huff_dec 10 2 184, Huff_dec 15 2 184, Huff_dec 24 2 184,
     Huff_dec 31 2 184, Huff_dec 41 2 184, Huff_dec 56 3 184, Huff_dec 3 2 194, Huff_dec 6 2 194,
     Huff_dec 10 2 194, Huff_dec 15 2 194, Huff_dec 24 2 194, Huff_dec 31 2 194, Huff_dec 41 2 194,
     Huff_dec 56 3 194],
     [Huff_dec 2 2 224, Huff_dec 9 2 224, Huff_dec 23 2 224, Huff_dec 40 3 224, Huff_dec 2 2 226, Huff_dec 9 2 226,
     Huff_dec 23 2 226, Huff_dec 40 3 226, Huff_dec 1 2 153, Huff_dec 22 3 153, Huff_dec 1 2 161,
     Huff_dec 22 3 161, Huff_dec 1 2 167, Huff_dec 22 3 167, Huff_dec 1 2 172, Huff_dec 22 3 172],
     [Huff_dec 3 2 224, Huff_dec 6 2 224, Huff_dec 10 2 224, Huff_dec 15 2 224, Huff_dec 24 2 224,
     Huff_dec 31 2 224, Huff_dec 41 2 224, Huff_dec 56 3 224, Huff_dec 3 2 226, Huff_dec 6 2 226,
     Huff_dec 10 2 226, Huff_dec 15 2 226, Huff_dec 24 2 226, Huff_dec 31 2 226, Huff_dec 41 2 226,
     Huff_dec 56 3 226],
     [Huff_dec 2 2 153, Huff_dec 9 2 153, Huff_dec 23 2 153, Huff_dec 40 3 153, Huff_dec 2 2 161, Huff_dec 9 2 161,
     Huff_dec 23 2 161, Huff_dec 40 3 161, Huff_dec 2 2 167, Huff_dec 9 2 167, Huff_dec 23 2 167,
     Huff_dec 40 3 167, Huff_dec 2 2 172, Huff_dec 9 2 172, Huff_dec 23 2 172, Huff_dec 40 3 172],
     [Huff_dec 3 2 153, Huff_dec 6 2 153, Huff_dec 10 2 153, Huff_dec 15 2 153, Huff_dec 24 2 153,
     Huff_dec 31 2 153, Huff_dec 41 2 153, Huff_dec 56 3 153, Huff_dec 3 2 161, Huff_dec 6 2 161,
     Huff_dec 10 2 161, Huff_dec 15 2 161, Huff_dec 24 2 161, Huff_dec 31 2 161, Huff_dec 41 2 161,
     Huff_dec 56 3 161],
     [Huff_dec 3 2 167, Huff_dec 6 2 167, Huff_dec 10 2 167, Huff_dec 15 2 167, Huff_dec 24 2 167,
     Huff_dec 31 2 167, Huff_dec 41 2 167, Huff_dec 56 3 167, Huff_dec 3 2 172, Huff_dec 6 2 172,
     Huff_dec 10 2 172, Huff_dec 15 2 172, Huff_dec 24 2 172, Huff_dec 31 2 172, Huff_dec 41 2 172,
     Huff_dec 56 3 172],
     [Huff_dec 114 0 0, Huff_dec 115 0 0, Huff_dec 117 0 0, Huff_dec 118 0 0, Huff_dec 121 0 0, Huff_dec 123 0 0,
     Huff_dec 127 0 0, Huff_dec 130 0 0, Huff_dec 136 0 0, Huff_dec 139 0 0, Huff_dec 143 0 0, Huff_dec 146 0 0,
     Huff_dec 155 0 0, Huff_dec 162 0 0, Huff_dec 170 0 0, Huff_dec 180 0 0],
     [Huff_dec 0 3 176, Huff_dec 0 3 177, Huff_dec 0 3 179, Huff_dec 0 3 209, Huff_dec 0 3 216, Huff_dec 0 3 217,
     Huff_dec 0 3 227, Huff_dec 0 3 229, Huff_dec 0 3 230, Huff_dec 122 0 0, Huff_dec 124 0 0, Huff_dec 125 0 0,
     Huff_dec 128 0 0, Huff_dec 129 0 0, Huff_dec 131 0 0, Huff_dec 132 0 0]
   ]"

definition huff_decode_rows_112 :: "nghttp2_huff_decode list list" where
  "huff_decode_rows_112 = [
     [Huff_dec 1 2 176, Huff_dec 22 3 176, Huff_dec 1 2 177, Huff_dec 22 3 177, Huff_dec 1 2 179,
     Huff_dec 22 3 179, Huff_dec 1 2 209, Huff_dec 22 3 209, Huff_dec 1 2 216, Huff_dec 22 3 216, Huff_dec 1 2 217,
     Huff_dec 22 3 217, Huff_dec 1 2 227, Huff_dec 22 3 227, Huff_dec 1 2 229, Huff_dec 22 3 229],
     [Huff_dec 2 2 176, Huff_dec 9 2 176, Huff_dec 23 2 176, Huff_dec 40 3 176, Huff_dec 2 2 177, Huff_dec 9 2 177,
     Huff_dec 23 2 177, Huff_dec 40 3 177, Huff_dec 2 2 179, Huff_dec 9 2 179, Huff_dec 23 2 179,
     Huff_dec 40 3 179, Huff_dec 2 2 209, Huff_dec 9 2 209, Huff_dec 23 2 209, Huff_dec 40 3 209],
     [Huff_dec 3 2 176, Huff_dec 6 2 176, Huff_dec 10 2 176, Huff_dec 15 2 176, Huff_dec 24 2 176,
     Huff_dec 31 2 176, Huff_dec 41 2 176, Huff_dec 56 3 176, Huff_dec 3 2 177, Huff_dec 6 2 177,
     Huff_dec 10 2 177, Huff_dec 15 2 177, Huff_dec 24 2 177, Huff_dec 31 2 177, Huff_dec 41 2 177,
     Huff_dec 56 3 177],
     [Huff_dec 3 2 179, Huff_dec 6 2 179, Huff_dec 10 2 179, Huff_dec 15 2 179, Huff_dec 24 2 179,
     Huff_dec 31 2 179, Huff_dec 41 2 179, Huff_dec 56 3 179, Huff_dec 3 2 209, Huff_dec 6 2 209,
     Huff_dec 10 2 209, Huff_dec 15 2 209, Huff_dec 24 2 209, Huff_dec 31 2 209, Huff_dec 41 2 209,
     Huff_dec 56 3 209],
     [Huff_dec 2 2 216, Huff_dec 9 2 216, Huff_dec 23 2 216, Huff_dec 40 3 216, Huff_dec 2 2 217, Huff_dec 9 2 217,
     Huff_dec 23 2 217, Huff_dec 40 3 217, Huff_dec 2 2 227, Huff_dec 9 2 227, Huff_dec 23 2 227,
     Huff_dec 40 3 227, Huff_dec 2 2 229, Huff_dec 9 2 229, Huff_dec 23 2 229, Huff_dec 40 3 229],
     [Huff_dec 3 2 216, Huff_dec 6 2 216, Huff_dec 10 2 216, Huff_dec 15 2 216, Huff_dec 24 2 216,
     Huff_dec 31 2 216, Huff_dec 41 2 216, Huff_dec 56 3 216, Huff_dec 3 2 217, Huff_dec 6 2 217,
     Huff_dec 10 2 217, Huff_dec 15 2 217, Huff_dec 24 2 217, Huff_dec 31 2 217, Huff_dec 41 2 217,
     Huff_dec 56 3 217],
     [Huff_dec 3 2 227, Huff_dec 6 2 227, Huff_dec 10 2 227, Huff_dec 15 2 227, Huff_dec 24 2 227,
     Huff_dec 31 2 227, Huff_dec 41 2 227, Huff_dec 56 3 227, Huff_dec 3 2 229, Huff_dec 6 2 229,
     Huff_dec 10 2 229, Huff_dec 15 2 229, Huff_dec 24 2 229, Huff_dec 31 2 229, Huff_dec 41 2 229,
     Huff_dec 56 3 229],
     [Huff_dec 1 2 230, Huff_dec 22 3 230, Huff_dec 0 3 129, Huff_dec 0 3 132, Huff_dec 0 3 133, Huff_dec 0 3 134,
     Huff_dec 0 3 136, Huff_dec 0 3 146, Huff_dec 0 3 154, Huff_dec 0 3 156, Huff_dec 0 3 160, Huff_dec 0 3 163,
     Huff_dec 0 3 164, Huff_dec 0 3 169, Huff_dec 0 3 170, Huff_dec 0 3 173]
   ]"

definition huff_decode_rows_120 :: "nghttp2_huff_decode list list" where
  "huff_decode_rows_120 = [
     [Huff_dec 2 2 230, Huff_dec 9 2 230, Huff_dec 23 2 230, Huff_dec 40 3 230, Huff_dec 1 2 129,
     Huff_dec 22 3 129, Huff_dec 1 2 132, Huff_dec 22 3 132, Huff_dec 1 2 133, Huff_dec 22 3 133, Huff_dec 1 2 134,
     Huff_dec 22 3 134, Huff_dec 1 2 136, Huff_dec 22 3 136, Huff_dec 1 2 146, Huff_dec 22 3 146],
     [Huff_dec 3 2 230, Huff_dec 6 2 230, Huff_dec 10 2 230, Huff_dec 15 2 230, Huff_dec 24 2 230,
     Huff_dec 31 2 230, Huff_dec 41 2 230, Huff_dec 56 3 230, Huff_dec 2 2 129, Huff_dec 9 2 129,
     Huff_dec 23 2 129, Huff_dec 40 3 129, Huff_dec 2 2 132, Huff_dec 9 2 132, Huff_dec 23 2 132,
     Huff_dec 40 3 132],
     [Huff_dec 3 2 129, Huff_dec 6 2 129, Huff_dec 10 2 129, Huff_dec 15 2 129, Huff_dec 24 2 129,
     Huff_dec 31 2 129, Huff_dec 41 2 129, Huff_dec 56 3 129, Huff_dec 3 2 132, Huff_dec 6 2 132,
     Huff_dec 10 2 132, Huff_dec 15 2 132, Huff_dec 24 2 132, Huff_dec 31 2 132, Huff_dec 41 2 132,
     Huff_dec 56 3 132],
     [Huff_dec 2 2 133, Huff_dec 9 2 133, Huff_dec 23 2 133, Huff_dec 40 3 133, Huff_dec 2 2 134, Huff_dec 9 2 134,
     Huff_dec 23 2 134, Huff_dec 40 3 134, Huff_dec 2 2 136, Huff_dec 9 2 136, Huff_dec 23 2 136,
     Huff_dec 40 3 136, Huff_dec 2 2 146, Huff_dec 9 2 146, Huff_dec 23 2 146, Huff_dec 40 3 146],
     [Huff_dec 3 2 133, Huff_dec 6 2 133, Huff_dec 10 2 133, Huff_dec 15 2 133, Huff_dec 24 2 133,
     Huff_dec 31 2 133, Huff_dec 41 2 133, Huff_dec 56 3 133, Huff_dec 3 2 134, Huff_dec 6 2 134,
     Huff_dec 10 2 134, Huff_dec 15 2 134, Huff_dec 24 2 134, Huff_dec 31 2 134, Huff_dec 41 2 134,
     Huff_dec 56 3 134],
     [Huff_dec 3 2 136, Huff_dec 6 2 136, Huff_dec 10 2 136, Huff_dec 15 2 136, Huff_dec 24 2 136,
     Huff_dec 31 2 136, Huff_dec 41 2 136, Huff_dec 56 3 136, Huff_dec 3 2 146, Huff_dec 6 2 146,
     Huff_dec 10 2 146, Huff_dec 15 2 146, Huff_dec 24 2 146, Huff_dec 31 2 146, Huff_dec 41 2 146,
     Huff_dec 56 3 146],
     [Huff_dec 1 2 154, Huff_dec 22 3 154, Huff_dec 1 2 156, Huff_dec 22 3 156, Huff_dec 1 2 160,
     Huff_dec 22 3 160, Huff_dec 1 2 163, Huff_dec 22 3 163, Huff_dec 1 2 164, Huff_dec 22 3 164, Huff_dec 1 2 169,
     Huff_dec 22 3 169, Huff_dec 1 2 170, Huff_dec 22 3 170, Huff_dec 1 2 173, Huff_dec 22 3 173],
     [Huff_dec 2 2 154, Huff_dec 9 2 154, Huff_dec 23 2 154, Huff_dec 40 3 154, Huff_dec 2 2 156, Huff_dec 9 2 156,
     Huff_dec 23 2 156, Huff_dec 40 3 156, Huff_dec 2 2 160, Huff_dec 9 2 160, Huff_dec 23 2 160,
     Huff_dec 40 3 160, Huff_dec 2 2 163, Huff_dec 9 2 163, Huff_dec 23 2 163, Huff_dec 40 3 163]
   ]"

definition huff_decode_rows_128 :: "nghttp2_huff_decode list list" where
  "huff_decode_rows_128 = [
     [Huff_dec 3 2 154, Huff_dec 6 2 154, Huff_dec 10 2 154, Huff_dec 15 2 154, Huff_dec 24 2 154,
     Huff_dec 31 2 154, Huff_dec 41 2 154, Huff_dec 56 3 154, Huff_dec 3 2 156, Huff_dec 6 2 156,
     Huff_dec 10 2 156, Huff_dec 15 2 156, Huff_dec 24 2 156, Huff_dec 31 2 156, Huff_dec 41 2 156,
     Huff_dec 56 3 156],
     [Huff_dec 3 2 160, Huff_dec 6 2 160, Huff_dec 10 2 160, Huff_dec 15 2 160, Huff_dec 24 2 160,
     Huff_dec 31 2 160, Huff_dec 41 2 160, Huff_dec 56 3 160, Huff_dec 3 2 163, Huff_dec 6 2 163,
     Huff_dec 10 2 163, Huff_dec 15 2 163, Huff_dec 24 2 163, Huff_dec 31 2 163, Huff_dec 41 2 163,
     Huff_dec 56 3 163],
     [Huff_dec 2 2 164, Huff_dec 9 2 164, Huff_dec 23 2 164, Huff_dec 40 3 164, Huff_dec 2 2 169, Huff_dec 9 2 169,
     Huff_dec 23 2 169, Huff_dec 40 3 169, Huff_dec 2 2 170, Huff_dec 9 2 170, Huff_dec 23 2 170,
     Huff_dec 40 3 170, Huff_dec 2 2 173, Huff_dec 9 2 173, Huff_dec 23 2 173, Huff_dec 40 3 173],
     [Huff_dec 3 2 164, Huff_dec 6 2 164, Huff_dec 10 2 164, Huff_dec 15 2 164, Huff_dec 24 2 164,
     Huff_dec 31 2 164, Huff_dec 41 2 164, Huff_dec 56 3 164, Huff_dec 3 2 169, Huff_dec 6 2 169,
     Huff_dec 10 2 169, Huff_dec 15 2 169, Huff_dec 24 2 169, Huff_dec 31 2 169, Huff_dec 41 2 169,
     Huff_dec 56 3 169],
     [Huff_dec 3 2 170, Huff_dec 6 2 170, Huff_dec 10 2 170, Huff_dec 15 2 170, Huff_dec 24 2 170,
     Huff_dec 31 2 170, Huff_dec 41 2 170, Huff_dec 56 3 170, Huff_dec 3 2 173, Huff_dec 6 2 173,
     Huff_dec 10 2 173, Huff_dec 15 2 173, Huff_dec 24 2 173, Huff_dec 31 2 173, Huff_dec 41 2 173,
     Huff_dec 56 3 173],
     [Huff_dec 137 0 0, Huff_dec 138 0 0, Huff_dec 140 0 0, Huff_dec 141 0 0, Huff_dec 144 0 0, Huff_dec 145 0 0,
     Huff_dec 147 0 0, Huff_dec 150 0 0, Huff_dec 156 0 0, Huff_dec 159 0 0, Huff_dec 163 0 0, Huff_dec 166 0 0,
     Huff_dec 171 0 0, Huff_dec 174 0 0, Huff_dec 181 0 0, Huff_dec 190 0 0],
     [Huff_dec 0 3 178, Huff_dec 0 3 181, Huff_dec 0 3 185, Huff_dec 0 3 186, Huff_dec 0 3 187, Huff_dec 0 3 189,
     Huff_dec 0 3 190, Huff_dec 0 3 196, Huff_dec 0 3 198, Huff_dec 0 3 228, Huff_dec 0 3 232, Huff_dec 0 3 233,
     Huff_dec 148 0 0, Huff_dec 149 0 0, Huff_dec 151 0 0, Huff_dec 152 0 0],
     [Huff_dec 1 2 178, Huff_dec 22 3 178, Huff_dec 1 2 181, Huff_dec 22 3 181, Huff_dec 1 2 185,
     Huff_dec 22 3 185, Huff_dec 1 2 186, Huff_dec 22 3 186, Huff_dec 1 2 187, Huff_dec 22 3 187, Huff_dec 1 2 189,
     Huff_dec 22 3 189, Huff_dec 1 2 190, Huff_dec 22 3 190, Huff_dec 1 2 196, Huff_dec 22 3 196]
   ]"

definition huff_decode_rows_136 :: "nghttp2_huff_decode list list" where
  "huff_decode_rows_136 = [
     [Huff_dec 2 2 178, Huff_dec 9 2 178, Huff_dec 23 2 178, Huff_dec 40 3 178, Huff_dec 2 2 181, Huff_dec 9 2 181,
     Huff_dec 23 2 181, Huff_dec 40 3 181, Huff_dec 2 2 185, Huff_dec 9 2 185, Huff_dec 23 2 185,
     Huff_dec 40 3 185, Huff_dec 2 2 186, Huff_dec 9 2 186, Huff_dec 23 2 186, Huff_dec 40 3 186],
     [Huff_dec 3 2 178, Huff_dec 6 2 178, Huff_dec 10 2 178, Huff_dec 15 2 178, Huff_dec 24 2 178,
     Huff_dec 31 2 178, Huff_dec 41 2 178, Huff_dec 56 3 178, Huff_dec 3 2 181, Huff_dec 6 2 181,
     Huff_dec 10 2 181, Huff_dec 15 2 181, Huff_dec 24 2 181, Huff_dec 31 2 181, Huff_dec 41 2 181,
     Huff_dec 56 3 181],
     [Huff_dec 3 2 185, Huff_dec 6 2 185, Huff_dec 10 2 185, Huff_dec 15 2 185, Huff_dec 24 2 185,
     Huff_dec 31 2 185, Huff_dec 41 2 185, Huff_dec 56 3 185, Huff_dec 3 2 186, Huff_dec 6 2 186,
     Huff_dec 10 2 186, Huff_dec 15 2 186, Huff_dec 24 2 186, Huff_dec 31 2 186, Huff_dec 41 2 186,
     Huff_dec 56 3 186],
     [Huff_dec 2 2 187, Huff_dec 9 2 187, Huff_dec 23 2 187, Huff_dec 40 3 187, Huff_dec 2 2 189, Huff_dec 9 2 189,
     Huff_dec 23 2 189, Huff_dec 40 3 189, Huff_dec 2 2 190, Huff_dec 9 2 190, Huff_dec 23 2 190,
     Huff_dec 40 3 190, Huff_dec 2 2 196, Huff_dec 9 2 196, Huff_dec 23 2 196, Huff_dec 40 3 196],
     [Huff_dec 3 2 187, Huff_dec 6 2 187, Huff_dec 10 2 187, Huff_dec 15 2 187, Huff_dec 24 2 187,
     Huff_dec 31 2 187, Huff_dec 41 2 187, Huff_dec 56 3 187, Huff_dec 3 2 189, Huff_dec 6 2 189,
     Huff_dec 10 2 189, Huff_dec 15 2 189, Huff_dec 24 2 189, Huff_dec 31 2 189, Huff_dec 41 2 189,
     Huff_dec 56 3 189],
     [Huff_dec 3 2 190, Huff_dec 6 2 190, Huff_dec 10 2 190, Huff_dec 15 2 190, Huff_dec 24 2 190,
     Huff_dec 31 2 190, Huff_dec 41 2 190, Huff_dec 56 3 190, Huff_dec 3 2 196, Huff_dec 6 2 196,
     Huff_dec 10 2 196, Huff_dec 15 2 196, Huff_dec 24 2 196, Huff_dec 31 2 196, Huff_dec 41 2 196,
     Huff_dec 56 3 196],
     [Huff_dec 1 2 198, Huff_dec 22 3 198, Huff_dec 1 2 228, Huff_dec 22 3 228, Huff_dec 1 2 232,
     Huff_dec 22 3 232, Huff_dec 1 2 233, Huff_dec 22 3 233, Huff_dec 0 3 1, Huff_dec 0 3 135, Huff_dec 0 3 137,
     Huff_dec 0 3 138, Huff_dec 0 3 139, Huff_dec 0 3 140, Huff_dec 0 3 141, Huff_dec 0 3 143],
     [Huff_dec 2 2 198, Huff_dec 9 2 198, Huff_dec 23 2 198, Huff_dec 40 3 198, Huff_dec 2 2 228, Huff_dec 9 2 228,
     Huff_dec 23 2 228, Huff_dec 40 3 228, Huff_dec 2 2 232, Huff_dec 9 2 232, Huff_dec 23 2 232,
     Huff_dec 40 3 232, Huff_dec 2 2 233, Huff_dec 9 2 233, Huff_dec 23 2 233, Huff_dec 40 3 233]
   ]"

definition huff_decode_rows_144 :: "nghttp2_huff_decode list list" where
  "huff_decode_rows_144 = [
     [Huff_dec 3 2 198, Huff_dec 6 2 198, Huff_dec 10 2 198, Huff_dec 15 2 198, Huff_dec 24 2 198,
     Huff_dec 31 2 198, Huff_dec 41 2 198, Huff_dec 56 3 198, Huff_dec 3 2 228, Huff_dec 6 2 228,
     Huff_dec 10 2 228, Huff_dec 15 2 228, Huff_dec 24 2 228, Huff_dec 31 2 228, Huff_dec 41 2 228,
     Huff_dec 56 3 228],
     [Huff_dec 3 2 232, Huff_dec 6 2 232, Huff_dec 10 2 232, Huff_dec 15 2 232, Huff_dec 24 2 232,
     Huff_dec 31 2 232, Huff_dec 41 2 232, Huff_dec 56 3 232, Huff_dec 3 2 233, Huff_dec 6 2 233,
     Huff_dec 10 2 233, Huff_dec 15 2 233, Huff_dec 24 2 233, Huff_dec 31 2 233, Huff_dec 41 2 233,
     Huff_dec 56 3 233],
     [Huff_dec 1 2 1, Huff_dec 22 3 1, Huff_dec 1 2 135, Huff_dec 22 3 135, Huff_dec 1 2 137, Huff_dec 22 3 137,
     Huff_dec 1 2 138, Huff_dec 22 3 138, Huff_dec 1 2 139, Huff_dec 22 3 139, Huff_dec 1 2 140, Huff_dec 22 3 140,
     Huff_dec 1 2 141, Huff_dec 22 3 141, Huff_dec 1 2 143, Huff_dec 22 3 143],
     [Huff_dec 2 2 1, Huff_dec 9 2 1, Huff_dec 23 2 1, Huff_dec 40 3 1, Huff_dec 2 2 135, Huff_dec 9 2 135,
     Huff_dec 23 2 135, Huff_dec 40 3 135, Huff_dec 2 2 137, Huff_dec 9 2 137, Huff_dec 23 2 137,
     Huff_dec 40 3 137, Huff_dec 2 2 138, Huff_dec 9 2 138, Huff_dec 23 2 138, Huff_dec 40 3 138],
     [Huff_dec 3 2 1, Huff_dec 6 2 1, Huff_dec 10 2 1, Huff_dec 15 2 1, Huff_dec 24 2 1, Huff_dec 31 2 1,
     Huff_dec 41 2 1, Huff_dec 56 3 1, Huff_dec 3 2 135, Huff_dec 6 2 135, Huff_dec 10 2 135, Huff_dec 15 2 135,
     Huff_dec 24 2 135, Huff_dec 31 2 135, Huff_dec 41 2 135, Huff_dec 56 3 135],
     [Huff_dec 3 2 137, Huff_dec 6 2 137, Huff_dec 10 2 137, Huff_dec 15 2 137, Huff_dec 24 2 137,
     Huff_dec 31 2 137, Huff_dec 41 2 137, Huff_dec 56 3 137, Huff_dec 3 2 138, Huff_dec 6 2 138,
     Huff_dec 10 2 138, Huff_dec 15 2 138, Huff_dec 24 2 138, Huff_dec 31 2 138, Huff_dec 41 2 138,
     Huff_dec 56 3 138],
     [Huff_dec 2 2 139, Huff_dec 9 2 139, Huff_dec 23 2 139, Huff_dec 40 3 139, Huff_dec 2 2 140, Huff_dec 9 2 140,
     Huff_dec 23 2 140, Huff_dec 40 3 140, Huff_dec 2 2 141, Huff_dec 9 2 141, Huff_dec 23 2 141,
     Huff_dec 40 3 141, Huff_dec 2 2 143, Huff_dec 9 2 143, Huff_dec 23 2 143, Huff_dec 40 3 143],
     [Huff_dec 3 2 139, Huff_dec 6 2 139, Huff_dec 10 2 139, Huff_dec 15 2 139, Huff_dec 24 2 139,
     Huff_dec 31 2 139, Huff_dec 41 2 139, Huff_dec 56 3 139, Huff_dec 3 2 140, Huff_dec 6 2 140,
     Huff_dec 10 2 140, Huff_dec 15 2 140, Huff_dec 24 2 140, Huff_dec 31 2 140, Huff_dec 41 2 140,
     Huff_dec 56 3 140]
   ]"

definition huff_decode_rows_152 :: "nghttp2_huff_decode list list" where
  "huff_decode_rows_152 = [
     [Huff_dec 3 2 141, Huff_dec 6 2 141, Huff_dec 10 2 141, Huff_dec 15 2 141, Huff_dec 24 2 141,
     Huff_dec 31 2 141, Huff_dec 41 2 141, Huff_dec 56 3 141, Huff_dec 3 2 143, Huff_dec 6 2 143,
     Huff_dec 10 2 143, Huff_dec 15 2 143, Huff_dec 24 2 143, Huff_dec 31 2 143, Huff_dec 41 2 143,
     Huff_dec 56 3 143],
     [Huff_dec 157 0 0, Huff_dec 158 0 0, Huff_dec 160 0 0, Huff_dec 161 0 0, Huff_dec 164 0 0, Huff_dec 165 0 0,
     Huff_dec 167 0 0, Huff_dec 168 0 0, Huff_dec 172 0 0, Huff_dec 173 0 0, Huff_dec 175 0 0, Huff_dec 177 0 0,
     Huff_dec 182 0 0, Huff_dec 185 0 0, Huff_dec 191 0 0, Huff_dec 207 0 0],
     [Huff_dec 0 3 147, Huff_dec 0 3 149, Huff_dec 0 3 150, Huff_dec 0 3 151, Huff_dec 0 3 152, Huff_dec 0 3 155,
     Huff_dec 0 3 157, Huff_dec 0 3 158, Huff_dec 0 3 165, Huff_dec 0 3 166, Huff_dec 0 3 168, Huff_dec 0 3 174,
     Huff_dec 0 3 175, Huff_dec 0 3 180, Huff_dec 0 3 182, Huff_dec 0 3 183],
     [Huff_dec 1 2 147, Huff_dec 22 3 147, Huff_dec 1 2 149, Huff_dec 22 3 149, Huff_dec 1 2 150,
     Huff_dec 22 3 150, Huff_dec 1 2 151, Huff_dec 22 3 151, Huff_dec 1 2 152, Huff_dec 22 3 152, Huff_dec 1 2 155,
     Huff_dec 22 3 155, Huff_dec 1 2 157, Huff_dec 22 3 157, Huff_dec 1 2 158, Huff_dec 22 3 158],
     [Huff_dec 2 2 147, Huff_dec 9 2 147, Huff_dec 23 2 147, Huff_dec 40 3 147, Huff_dec 2 2 149, Huff_dec 9 2 149,
     Huff_dec 23 2 149, Huff_dec 40 3 149, Huff_dec 2 2 150, Huff_dec 9 2 150, Huff_dec 23 2 150,
     Huff_dec 40 3 150, Huff_dec 2 2 151, Huff_dec 9 2 151, Huff_dec 23 2 151, Huff_dec 40 3 151],
     [Huff_dec 3 2 147, Huff_dec 6 2 147, Huff_dec 10 2 147, Huff_dec 15 2 147, Huff_dec 24 2 147,
     Huff_dec 31 2 147, Huff_dec 41 2 147, Huff_dec 56 3 147, Huff_dec 3 2 149, Huff_dec 6 2 149,
     Huff_dec 10 2 149, Huff_dec 15 2 149, Huff_dec 24 2 149, Huff_dec 31 2 149, Huff_dec 41 2 149,
     Huff_dec 56 3 149],
     [Huff_dec 3 2 150, Huff_dec 6 2 150, Huff_dec 10 2 150, Huff_dec 15 2 150, Huff_dec 24 2 150,
     Huff_dec 31 2 150, Huff_dec 41 2 150, Huff_dec 56 3 150, Huff_dec 3 2 151, Huff_dec 6 2 151,
     Huff_dec 10 2 151, Huff_dec 15 2 151, Huff_dec 24 2 151, Huff_dec 31 2 151, Huff_dec 41 2 151,
     Huff_dec 56 3 151],
     [Huff_dec 2 2 152, Huff_dec 9 2 152, Huff_dec 23 2 152, Huff_dec 40 3 152, Huff_dec 2 2 155, Huff_dec 9 2 155,
     Huff_dec 23 2 155, Huff_dec 40 3 155, Huff_dec 2 2 157, Huff_dec 9 2 157, Huff_dec 23 2 157,
     Huff_dec 40 3 157, Huff_dec 2 2 158, Huff_dec 9 2 158, Huff_dec 23 2 158, Huff_dec 40 3 158]
   ]"

definition huff_decode_rows_160 :: "nghttp2_huff_decode list list" where
  "huff_decode_rows_160 = [
     [Huff_dec 3 2 152, Huff_dec 6 2 152, Huff_dec 10 2 152, Huff_dec 15 2 152, Huff_dec 24 2 152,
     Huff_dec 31 2 152, Huff_dec 41 2 152, Huff_dec 56 3 152, Huff_dec 3 2 155, Huff_dec 6 2 155,
     Huff_dec 10 2 155, Huff_dec 15 2 155, Huff_dec 24 2 155, Huff_dec 31 2 155, Huff_dec 41 2 155,
     Huff_dec 56 3 155],
     [Huff_dec 3 2 157, Huff_dec 6 2 157, Huff_dec 10 2 157, Huff_dec 15 2 157, Huff_dec 24 2 157,
     Huff_dec 31 2 157, Huff_dec 41 2 157, Huff_dec 56 3 157, Huff_dec 3 2 158, Huff_dec 6 2 158,
     Huff_dec 10 2 158, Huff_dec 15 2 158, Huff_dec 24 2 158, Huff_dec 31 2 158, Huff_dec 41 2 158,
     Huff_dec 56 3 158],
     [Huff_dec 1 2 165, Huff_dec 22 3 165, Huff_dec 1 2 166, Huff_dec 22 3 166, Huff_dec 1 2 168,
     Huff_dec 22 3 168, Huff_dec 1 2 174, Huff_dec 22 3 174, Huff_dec 1 2 175, Huff_dec 22 3 175, Huff_dec 1 2 180,
     Huff_dec 22 3 180, Huff_dec 1 2 182, Huff_dec 22 3 182, Huff_dec 1 2 183, Huff_dec 22 3 183],
     [Huff_dec 2 2 165, Huff_dec 9 2 165, Huff_dec 23 2 165, Huff_dec 40 3 165, Huff_dec 2 2 166, Huff_dec 9 2 166,
     Huff_dec 23 2 166, Huff_dec 40 3 166, Huff_dec 2 2 168, Huff_dec 9 2 168, Huff_dec 23 2 168,
     Huff_dec 40 3 168, Huff_dec 2 2 174, Huff_dec 9 2 174, Huff_dec 23 2 174, Huff_dec 40 3 174],
     [Huff_dec 3 2 165, Huff_dec 6 2 165, Huff_dec 10 2 165, Huff_dec 15 2 165, Huff_dec 24 2 165,
     Huff_dec 31 2 165, Huff_dec 41 2 165, Huff_dec 56 3 165, Huff_dec 3 2 166, Huff_dec 6 2 166,
     Huff_dec 10 2 166, Huff_dec 15 2 166, Huff_dec 24 2 166, Huff_dec 31 2 166, Huff_dec 41 2 166,
     Huff_dec 56 3 166],
     [Huff_dec 3 2 168, Huff_dec 6 2 168, Huff_dec 10 2 168, Huff_dec 15 2 168, Huff_dec 24 2 168,
     Huff_dec 31 2 168, Huff_dec 41 2 168, Huff_dec 56 3 168, Huff_dec 3 2 174, Huff_dec 6 2 174,
     Huff_dec 10 2 174, Huff_dec 15 2 174, Huff_dec 24 2 174, Huff_dec 31 2 174, Huff_dec 41 2 174,
     Huff_dec 56 3 174],
     [Huff_dec 2 2 175, Huff_dec 9 2 175, Huff_dec 23 2 175, Huff_dec 40 3 175, Huff_dec 2 2 180, Huff_dec 9 2 180,
     Huff_dec 23 2 180, Huff_dec 40 3 180, Huff_dec 2 2 182, Huff_dec 9 2 182, Huff_dec 23 2 182,
     Huff_dec 40 3 182, Huff_dec 2 2 183, Huff_dec 9 2 183, Huff_dec 23 2 183, Huff_dec 40 3 183],
     [Huff_dec 3 2 175, Huff_dec 6 2 175, Huff_dec 10 2 175, Huff_dec 15 2 175, Huff_dec 24 2 175,
     Huff_dec 31 2 175, Huff_dec 41 2 175, Huff_dec 56 3 175, Huff_dec 3 2 180, Huff_dec 6 2 180,
     Huff_dec 10 2 180, Huff_dec 15 2 180, Huff_dec 24 2 180, Huff_dec 31 2 180, Huff_dec 41 2 180,
     Huff_dec 56 3 180]
   ]"

definition huff_decode_rows_168 :: "nghttp2_huff_decode list list" where
  "huff_decode_rows_168 = [
     [Huff_dec 3 2 182, Huff_dec 6 2 182, Huff_dec 10 2 182, Huff_dec 15 2 182, Huff_dec 24 2 182,
     Huff_dec 31 2 182, Huff_dec 41 2 182, Huff_dec 56 3 182, Huff_dec 3 2 183, Huff_dec 6 2 183,
     Huff_dec 10 2 183, Huff_dec 15 2 183, Huff_dec 24 2 183, Huff_dec 31 2 183, Huff_dec 41 2 183,
     Huff_dec 56 3 183],
     [Huff_dec 0 3 188, Huff_dec 0 3 191, Huff_dec 0 3 197, Huff_dec 0 3 231, Huff_dec 0 3 239, Huff_dec 176 0 0,
     Huff_dec 178 0 0, Huff_dec 179 0 0, Huff_dec 183 0 0, Huff_dec 184 0 0, Huff_dec 186 0 0, Huff_dec 187 0 0,
     Huff_dec 192 0 0, Huff_dec 199 0 0, Huff_dec 208 0 0, Huff_dec 223 0 0],
     [Huff_dec 1 2 188, Huff_dec 22 3 188, Huff_dec 1 2 191, Huff_dec 22 3 191, Huff_dec 1 2 197,
     Huff_dec 22 3 197, Huff_dec 1 2 231, Huff_dec 22 3 231, Huff_dec 1 2 239, Huff_dec 22 3 239, Huff_dec 0 3 9,
     Huff_dec 0 3 142, Huff_dec 0 3 144, Huff_dec 0 3 145, Huff_dec 0 3 148, Huff_dec 0 3 159],
     [Huff_dec 2 2 188, Huff_dec 9 2 188, Huff_dec 23 2 188, Huff_dec 40 3 188, Huff_dec 2 2 191, Huff_dec 9 2 191,
     Huff_dec 23 2 191, Huff_dec 40 3 191, Huff_dec 2 2 197, Huff_dec 9 2 197, Huff_dec 23 2 197,
     Huff_dec 40 3 197, Huff_dec 2 2 231, Huff_dec 9 2 231, Huff_dec 23 2 231, Huff_dec 40 3 231],
     [Huff_dec 3 2 188, Huff_dec 6 2 188, Huff_dec 10 2 188, Huff_dec 15 2 188, Huff_dec 24 2 188,
     Huff_dec 31 2 188, Huff_dec 41 2 188, Huff_dec 56 3 188, Huff_dec 3 2 191, Huff_dec 6 2 191,
     Huff_dec 10 2 191, Huff_dec 15 2 191, Huff_dec 24 2 191, Huff_dec 31 2 191, Huff_dec 41 2 191,
     Huff_dec 56 3 191],
     [Huff_dec 3 2 197, Huff_dec 6 2 197, Huff_dec 10 2 197, Huff_dec 15 2 197, Huff_dec 24 2 197,
     Huff_dec 31 2 197, Huff_dec 41 2 197, Huff_dec 56 3 197, Huff_dec 3 2 231, Huff_dec 6 2 231,
     Huff_dec 10 2 231, Huff_dec 15 2 231, Huff_dec 24 2 231, Huff_dec 31 2 231, Huff_dec 41 2 231,
     Huff_dec 56 3 231],
     [Huff_dec 2 2 239, Huff_dec 9 2 239, Huff_dec 23 2 239, Huff_dec 40 3 239, Huff_dec 1 2 9, Huff_dec 22 3 9,
     Huff_dec 1 2 142, Huff_dec 22 3 142, Huff_dec 1 2 144, Huff_dec 22 3 144, Huff_dec 1 2 145, Huff_dec 22 3 145,
     Huff_dec 1 2 148, Huff_dec 22 3 148, Huff_dec 1 2 159, Huff_dec 22 3 159],
     [Huff_dec 3 2 239, Huff_dec 6 2 239, Huff_dec 10 2 239, Huff_dec 15 2 239, Huff_dec 24 2 239,
     Huff_dec 31 2 239, Huff_dec 41 2 239, Huff_dec 56 3 239, Huff_dec 2 2 9, Huff_dec 9 2 9, Huff_dec 23 2 9,
     Huff_dec 40 3 9, Huff_dec 2 2 142, Huff_dec 9 2 142, Huff_dec 23 2 142, Huff_dec 40 3 142]
   ]"

definition huff_decode_rows_176 :: "nghttp2_huff_decode list list" where
  "huff_decode_rows_176 = [
     [Huff_dec 3 2 9, Huff_dec 6 2 9, Huff_dec 10 2 9, Huff_dec 15 2 9, Huff_dec 24 2 9, Huff_dec 31 2 9,
     Huff_dec 41 2 9, Huff_dec 56 3 9, Huff_dec 3 2 142, Huff_dec 6 2 142, Huff_dec 10 2 142, Huff_dec 15 2 142,
     Huff_dec 24 2 142, Huff_dec 31 2 142, Huff_dec 41 2 142, Huff_dec 56 3 142],
     [Huff_dec 2 2 144, Huff_dec 9 2 144, Huff_dec 23 2 144, Huff_dec 40 3 144, Huff_dec 2 2 145, Huff_dec 9 2 145,
     Huff_dec 23 2 145, Huff_dec 40 3 145, Huff_dec 2 2 148, Huff_dec 9 2 148, Huff_dec 23 2 148,
     Huff_dec 40 3 148, Huff_dec 2 2 159, Huff_dec 9 2 159, Huff_dec 23 2 159, Huff_dec 40 3 159],
     [Huff_dec 3 2 144, Huff_dec 6 2 144, Huff_dec 10 2 144, Huff_dec 15 2 144, Huff_dec 24 2 144,
     Huff_dec 31 2 144, Huff_dec 41 2 144, Huff_dec 56 3 144, Huff_dec 3 2 145, Huff_dec 6 2 145,
     Huff_dec 10 2 145, Huff_dec 15 2 145, Huff_dec 24 2 145, Huff_dec 31 2 145, Huff_dec 41 2 145,
     Huff_dec 56 3 145],
     [Huff_dec 3 2 148, Huff_dec 6 2 148, Huff_dec 10 2 148, Huff_dec 15 2 148, Huff_dec 24 2 148,
     Huff_dec 31 2 148, Huff_dec 41 2 148, Huff_dec 56 3 148, Huff_dec 3 2 159, Huff_dec 6 2 159,
     Huff_dec 10 2 159, Huff_dec 15 2 159, Huff_dec 24 2 159, Huff_dec 31 2 159, Huff_dec 41 2 159,
     Huff_dec 56 3 159],
     [Huff_dec 0 3 171, Huff_dec 0 3 206, Huff_dec 0 3 215, Huff_dec 0 3 225, Huff_dec 0 3 236, Huff_dec 0 3 237,
     Huff_dec 188 0 0, Huff_dec 189 0 0, Huff_dec 193 0 0, Huff_dec 196 0 0, Huff_dec 200 0 0, Huff_dec 203 0 0,
     Huff_dec 209 0 0, Huff_dec 216 0 0, Huff_dec 224 0 0, Huff_dec 238 0 0],
     [Huff_dec 1 2 171, Huff_dec 22 3 171, Huff_dec 1 2 206, Huff_dec 22 3 206, Huff_dec 1 2 215,
     Huff_dec 22 3 215, Huff_dec 1 2 225, Huff_dec 22 3 225, Huff_dec 1 2 236, Huff_dec 22 3 236, Huff_dec 1 2 237,
     Huff_dec 22 3 237, Huff_dec 0 3 199, Huff_dec 0 3 207, Huff_dec 0 3 234, Huff_dec 0 3 235],
     [Huff_dec 2 2 171, Huff_dec 9 2 171, Huff_dec 23 2 171, Huff_dec 40 3 171, Huff_dec 2 2 206, Huff_dec 9 2 206,
     Huff_dec 23 2 206, Huff_dec 40 3 206, Huff_dec 2 2 215, Huff_dec 9 2 215, Huff_dec 23 2 215,
     Huff_dec 40 3 215, Huff_dec 2 2 225, Huff_dec 9 2 225, Huff_dec 23 2 225, Huff_dec 40 3 225],
     [Huff_dec 3 2 171, Huff_dec 6 2 171, Huff_dec 10 2 171, Huff_dec 15 2 171, Huff_dec 24 2 171,
     Huff_dec 31 2 171, Huff_dec 41 2 171, Huff_dec 56 3 171, Huff_dec 3 2 206, Huff_dec 6 2 206,
     Huff_dec 10 2 206, Huff_dec 15 2 206, Huff_dec 24 2 206, Huff_dec 31 2 206, Huff_dec 41 2 206,
     Huff_dec 56 3 206]
   ]"

definition huff_decode_rows_184 :: "nghttp2_huff_decode list list" where
  "huff_decode_rows_184 = [
     [Huff_dec 3 2 215, Huff_dec 6 2 215, Huff_dec 10 2 215, Huff_dec 15 2 215, Huff_dec 24 2 215,
     Huff_dec 31 2 215, Huff_dec 41 2 215, Huff_dec 56 3 215, Huff_dec 3 2 225, Huff_dec 6 2 225,
     Huff_dec 10 2 225, Huff_dec 15 2 225, Huff_dec 24 2 225, Huff_dec 31 2 225, Huff_dec 41 2 225,
     Huff_dec 56 3 225],
     [Huff_dec 2 2 236, Huff_dec 9 2 236, Huff_dec 23 2 236, Huff_dec 40 3 236, Huff_dec 2 2 237, Huff_dec 9 2 237,
     Huff_dec 23 2 237, Huff_dec 40 3 237, Huff_dec 1 2 199, Huff_dec 22 3 199, Huff_dec 1 2 207,
     Huff_dec 22 3 207, Huff_dec 1 2 234, Huff_dec 22 3 234, Huff_dec 1 2 235, Huff_dec 22 3 235],
     [Huff_dec 3 2 236, Huff_dec 6 2 236, Huff_dec 10 2 236, Huff_dec 15 2 236, Huff_dec 24 2 236,
     Huff_dec 31 2 236, Huff_dec 41 2 236, Huff_dec 56 3 236, Huff_dec 3 2 237, Huff_dec 6 2 237,
     Huff_dec 10 2 237, Huff_dec 15 2 237, Huff_dec 24 2 237, Huff_dec 31 2 237, Huff_dec 41 2 237,
     Huff_dec 56 3 237],
     [Huff_dec 2 2 199, Huff_dec 9 2 199, Huff_dec 23 2 199, Huff_dec 40 3 199, Huff_dec 2 2 207, Huff_dec 9 2 207,
     Huff_dec 23 2 207, Huff_dec 40 3 207, Huff_dec 2 2 234, Huff_dec 9 2 234, Huff_dec 23 2 234,
     Huff_dec 40 3 234, Huff_dec 2 2 235, Huff_dec 9 2 235, Huff_dec 23 2 235, Huff_dec 40 3 235],
     [Huff_dec 3 2 199, Huff_dec 6 2 199, Huff_dec 10 2 199, Huff_dec 15 2 199, Huff_dec 24 2 199,
     Huff_dec 31 2 199, Huff_dec 41 2 199, Huff_dec 56 3 199, Huff_dec 3 2 207, Huff_dec 6 2 207,
     Huff_dec 10 2 207, Huff_dec 15 2 207, Huff_dec 24 2 207, Huff_dec 31 2 207, Huff_dec 41 2 207,
     Huff_dec 56 3 207],
     [Huff_dec 3 2 234, Huff_dec 6 2 234, Huff_dec 10 2 234, Huff_dec 15 2 234, Huff_dec 24 2 234,
     Huff_dec 31 2 234, Huff_dec 41 2 234, Huff_dec 56 3 234, Huff_dec 3 2 235, Huff_dec 6 2 235,
     Huff_dec 10 2 235, Huff_dec 15 2 235, Huff_dec 24 2 235, Huff_dec 31 2 235, Huff_dec 41 2 235,
     Huff_dec 56 3 235],
     [Huff_dec 194 0 0, Huff_dec 195 0 0, Huff_dec 197 0 0, Huff_dec 198 0 0, Huff_dec 201 0 0, Huff_dec 202 0 0,
     Huff_dec 204 0 0, Huff_dec 205 0 0, Huff_dec 210 0 0, Huff_dec 213 0 0, Huff_dec 217 0 0, Huff_dec 220 0 0,
     Huff_dec 225 0 0, Huff_dec 231 0 0, Huff_dec 239 0 0, Huff_dec 246 0 0],
     [Huff_dec 0 3 192, Huff_dec 0 3 193, Huff_dec 0 3 200, Huff_dec 0 3 201, Huff_dec 0 3 202, Huff_dec 0 3 205,
     Huff_dec 0 3 210, Huff_dec 0 3 213, Huff_dec 0 3 218, Huff_dec 0 3 219, Huff_dec 0 3 238, Huff_dec 0 3 240,
     Huff_dec 0 3 242, Huff_dec 0 3 243, Huff_dec 0 3 255, Huff_dec 206 0 0]
   ]"

definition huff_decode_rows_192 :: "nghttp2_huff_decode list list" where
  "huff_decode_rows_192 = [
     [Huff_dec 1 2 192, Huff_dec 22 3 192, Huff_dec 1 2 193, Huff_dec 22 3 193, Huff_dec 1 2 200,
     Huff_dec 22 3 200, Huff_dec 1 2 201, Huff_dec 22 3 201, Huff_dec 1 2 202, Huff_dec 22 3 202, Huff_dec 1 2 205,
     Huff_dec 22 3 205, Huff_dec 1 2 210, Huff_dec 22 3 210, Huff_dec 1 2 213, Huff_dec 22 3 213],
     [Huff_dec 2 2 192, Huff_dec 9 2 192, Huff_dec 23 2 192, Huff_dec 40 3 192, Huff_dec 2 2 193, Huff_dec 9 2 193,
     Huff_dec 23 2 193, Huff_dec 40 3 193, Huff_dec 2 2 200, Huff_dec 9 2 200, Huff_dec 23 2 200,
     Huff_dec 40 3 200, Huff_dec 2 2 201, Huff_dec 9 2 201, Huff_dec 23 2 201, Huff_dec 40 3 201],
     [Huff_dec 3 2 192, Huff_dec 6 2 192, Huff_dec 10 2 192, Huff_dec 15 2 192, Huff_dec 24 2 192,
     Huff_dec 31 2 192, Huff_dec 41 2 192, Huff_dec 56 3 192, Huff_dec 3 2 193, Huff_dec 6 2 193,
     Huff_dec 10 2 193, Huff_dec 15 2 193, Huff_dec 24 2 193, Huff_dec 31 2 193, Huff_dec 41 2 193,
     Huff_dec 56 3 193],
     [Huff_dec 3 2 200, Huff_dec 6 2 200, Huff_dec 10 2 200, Huff_dec 15 2 200, Huff_dec 24 2 200,
     Huff_dec 31 2 200, Huff_dec 41 2 200, Huff_dec 56 3 200, Huff_dec 3 2 201, Huff_dec 6 2 201,
     Huff_dec 10 2 201, Huff_dec 15 2 201, Huff_dec 24 2 201, Huff_dec 31 2 201, Huff_dec 41 2 201,
     Huff_dec 56 3 201],
     [Huff_dec 2 2 202, Huff_dec 9 2 202, Huff_dec 23 2 202, Huff_dec 40 3 202, Huff_dec 2 2 205, Huff_dec 9 2 205,
     Huff_dec 23 2 205, Huff_dec 40 3 205, Huff_dec 2 2 210, Huff_dec 9 2 210, Huff_dec 23 2 210,
     Huff_dec 40 3 210, Huff_dec 2 2 213, Huff_dec 9 2 213, Huff_dec 23 2 213, Huff_dec 40 3 213],
     [Huff_dec 3 2 202, Huff_dec 6 2 202, Huff_dec 10 2 202, Huff_dec 15 2 202, Huff_dec 24 2 202,
     Huff_dec 31 2 202, Huff_dec 41 2 202, Huff_dec 56 3 202, Huff_dec 3 2 205, Huff_dec 6 2 205,
     Huff_dec 10 2 205, Huff_dec 15 2 205, Huff_dec 24 2 205, Huff_dec 31 2 205, Huff_dec 41 2 205,
     Huff_dec 56 3 205],
     [Huff_dec 3 2 210, Huff_dec 6 2 210, Huff_dec 10 2 210, Huff_dec 15 2 210, Huff_dec 24 2 210,
     Huff_dec 31 2 210, Huff_dec 41 2 210, Huff_dec 56 3 210, Huff_dec 3 2 213, Huff_dec 6 2 213,
     Huff_dec 10 2 213, Huff_dec 15 2 213, Huff_dec 24 2 213, Huff_dec 31 2 213, Huff_dec 41 2 213,
     Huff_dec 56 3 213],
     [Huff_dec 1 2 218, Huff_dec 22 3 218, Huff_dec 1 2 219, Huff_dec 22 3 219, Huff_dec 1 2 238,
     Huff_dec 22 3 238, Huff_dec 1 2 240, Huff_dec 22 3 240, Huff_dec 1 2 242, Huff_dec 22 3 242, Huff_dec 1 2 243,
     Huff_dec 22 3 243, Huff_dec 1 2 255, Huff_dec 22 3 255, Huff_dec 0 3 203, Huff_dec 0 3 204]
   ]"

definition huff_decode_rows_200 :: "nghttp2_huff_decode list list" where
  "huff_decode_rows_200 = [
     [Huff_dec 2 2 218, Huff_dec 9 2 218, Huff_dec 23 2 218, Huff_dec 40 3 218, Huff_dec 2 2 219, Huff_dec 9 2 219,
     Huff_dec 23 2 219, Huff_dec 40 3 219, Huff_dec 2 2 238, Huff_dec 9 2 238, Huff_dec 23 2 238,
     Huff_dec 40 3 238, Huff_dec 2 2 240, Huff_dec 9 2 240, Huff_dec 23 2 240, Huff_dec 40 3 240],
     [Huff_dec 3 2 218, Huff_dec 6 2 218, Huff_dec 10 2 218, Huff_dec 15 2 218, Huff_dec 24 2 218,
     Huff_dec 31 2 218, Huff_dec 41 2 218, Huff_dec 56 3 218, Huff_dec 3 2 219, Huff_dec 6 2 219,
     Huff_dec 10 2 219, Huff_dec 15 2 219, Huff_dec 24 2 219, Huff_dec 31 2 219, Huff_dec 41 2 219,
     Huff_dec 56 3 219],
     [Huff_dec 3 2 238, Huff_dec 6 2 238, Huff_dec 10 2 238, Huff_dec 15 2 238, Huff_dec 24 2 238,
     Huff_dec 31 2 238, Huff_dec 41 2 238, Huff_dec 56 3 238, Huff_dec 3 2 240, Huff_dec 6 2 240,
     Huff_dec 10 2 240, Huff_dec 15 2 240, Huff_dec 24 2 240, Huff_dec 31 2 240, Huff_dec 41 2 240,
     Huff_dec 56 3 240],
     [Huff_dec 2 2 242, Huff_dec 9 2 242, Huff_dec 23 2 242, Huff_dec 40 3 242, Huff_dec 2 2 243, Huff_dec 9 2 243,
     Huff_dec 23 2 243, Huff_dec 40 3 243, Huff_dec 2 2 255, Huff_dec 9 2 255, Huff_dec 23 2 255,
     Huff_dec 40 3 255, Huff_dec 1 2 203, Huff_dec 22 3 203, Huff_dec 1 2 204, Huff_dec 22 3 204],
     [Huff_dec 3 2 242, Huff_dec 6 2 242, Huff_dec 10 2 242, Huff_dec 15 2 242, Huff_dec 24 2 242,
     Huff_dec 31 2 242, Huff_dec 41 2 242, Huff_dec 56 3 242, Huff_dec 3 2 243, Huff_dec 6 2 243,
     Huff_dec 10 2 243, Huff_dec 15 2 243, Huff_dec 24 2 243, Huff_dec 31 2 243, Huff_dec 41 2 243,
     Huff_dec 56 3 243],
     [Huff_dec 3 2 255, Huff_dec 6 2 255, Huff_dec 10 2 255, Huff_dec 15 2 255, Huff_dec 24 2 255,
     Huff_dec 31 2 255, Huff_dec 41 2 255, Huff_dec 56 3 255, Huff_dec 2 2 203, Huff_dec 9 2 203,
     Huff_dec 23 2 203, Huff_dec 40 3 203, Huff_dec 2 2 204, Huff_dec 9 2 204, Huff_dec 23 2 204,
     Huff_dec 40 3 204],
     [Huff_dec 3 2 203, Huff_dec 6 2 203, Huff_dec 10 2 203, Huff_dec 15 2 203, Huff_dec 24 2 203,
     Huff_dec 31 2 203, Huff_dec 41 2 203, Huff_dec 56 3 203, Huff_dec 3 2 204, Huff_dec 6 2 204,
     Huff_dec 10 2 204, Huff_dec 15 2 204, Huff_dec 24 2 204, Huff_dec 31 2 204, Huff_dec 41 2 204,
     Huff_dec 56 3 204],
     [Huff_dec 211 0 0, Huff_dec 212 0 0, Huff_dec 214 0 0, Huff_dec 215 0 0, Huff_dec 218 0 0, Huff_dec 219 0 0,
     Huff_dec 221 0 0, Huff_dec 222 0 0, Huff_dec 226 0 0, Huff_dec 228 0 0, Huff_dec 232 0 0, Huff_dec 235 0 0,
     Huff_dec 240 0 0, Huff_dec 243 0 0, Huff_dec 247 0 0, Huff_dec 250 0 0]
   ]"

definition huff_decode_rows_208 :: "nghttp2_huff_decode list list" where
  "huff_decode_rows_208 = [
     [Huff_dec 0 3 211, Huff_dec 0 3 212, Huff_dec 0 3 214, Huff_dec 0 3 221, Huff_dec 0 3 222, Huff_dec 0 3 223,
     Huff_dec 0 3 241, Huff_dec 0 3 244, Huff_dec 0 3 245, Huff_dec 0 3 246, Huff_dec 0 3 247, Huff_dec 0 3 248,
     Huff_dec 0 3 250, Huff_dec 0 3 251, Huff_dec 0 3 252, Huff_dec 0 3 253],
     [Huff_dec 1 2 211, Huff_dec 22 3 211, Huff_dec 1 2 212, Huff_dec 22 3 212, Huff_dec 1 2 214,
     Huff_dec 22 3 214, Huff_dec 1 2 221, Huff_dec 22 3 221, Huff_dec 1 2 222, Huff_dec 22 3 222, Huff_dec 1 2 223,
     Huff_dec 22 3 223, Huff_dec 1 2 241, Huff_dec 22 3 241, Huff_dec 1 2 244, Huff_dec 22 3 244],
     [Huff_dec 2 2 211, Huff_dec 9 2 211, Huff_dec 23 2 211, Huff_dec 40 3 211, Huff_dec 2 2 212, Huff_dec 9 2 212,
     Huff_dec 23 2 212, Huff_dec 40 3 212, Huff_dec 2 2 214, Huff_dec 9 2 214, Huff_dec 23 2 214,
     Huff_dec 40 3 214, Huff_dec 2 2 221, Huff_dec 9 2 221, Huff_dec 23 2 221, Huff_dec 40 3 221],
     [Huff_dec 3 2 211, Huff_dec 6 2 211, Huff_dec 10 2 211, Huff_dec 15 2 211, Huff_dec 24 2 211,
     Huff_dec 31 2 211, Huff_dec 41 2 211, Huff_dec 56 3 211, Huff_dec 3 2 212, Huff_dec 6 2 212,
     Huff_dec 10 2 212, Huff_dec 15 2 212, Huff_dec 24 2 212, Huff_dec 31 2 212, Huff_dec 41 2 212,
     Huff_dec 56 3 212],
     [Huff_dec 3 2 214, Huff_dec 6 2 214, Huff_dec 10 2 214, Huff_dec 15 2 214, Huff_dec 24 2 214,
     Huff_dec 31 2 214, Huff_dec 41 2 214, Huff_dec 56 3 214, Huff_dec 3 2 221, Huff_dec 6 2 221,
     Huff_dec 10 2 221, Huff_dec 15 2 221, Huff_dec 24 2 221, Huff_dec 31 2 221, Huff_dec 41 2 221,
     Huff_dec 56 3 221],
     [Huff_dec 2 2 222, Huff_dec 9 2 222, Huff_dec 23 2 222, Huff_dec 40 3 222, Huff_dec 2 2 223, Huff_dec 9 2 223,
     Huff_dec 23 2 223, Huff_dec 40 3 223, Huff_dec 2 2 241, Huff_dec 9 2 241, Huff_dec 23 2 241,
     Huff_dec 40 3 241, Huff_dec 2 2 244, Huff_dec 9 2 244, Huff_dec 23 2 244, Huff_dec 40 3 244],
     [Huff_dec 3 2 222, Huff_dec 6 2 222, Huff_dec 10 2 222, Huff_dec 15 2 222, Huff_dec 24 2 222,
     Huff_dec 31 2 222, Huff_dec 41 2 222, Huff_dec 56 3 222, Huff_dec 3 2 223, Huff_dec 6 2 223,
     Huff_dec 10 2 223, Huff_dec 15 2 223, Huff_dec 24 2 223, Huff_dec 31 2 223, Huff_dec 41 2 223,
     Huff_dec 56 3 223],
     [Huff_dec 3 2 241, Huff_dec 6 2 241, Huff_dec 10 2 241, Huff_dec 15 2 241, Huff_dec 24 2 241,
     Huff_dec 31 2 241, Huff_dec 41 2 241, Huff_dec 56 3 241, Huff_dec 3 2 244, Huff_dec 6 2 244,
     Huff_dec 10 2 244, Huff_dec 15 2 244, Huff_dec 24 2 244, Huff_dec 31 2 244, Huff_dec 41 2 244,
     Huff_dec 56 3 244]
   ]"

definition huff_decode_rows_216 :: "nghttp2_huff_decode list list" where
  "huff_decode_rows_216 = [
     [Huff_dec 1 2 245, Huff_dec 22 3 245, Huff_dec 1 2 246, Huff_dec 22 3 246, Huff_dec 1 2 247,
     Huff_dec 22 3 247, Huff_dec 1 2 248, Huff_dec 22 3 248, Huff_dec 1 2 250, Huff_dec 22 3 250, Huff_dec 1 2 251,
     Huff_dec 22 3 251, Huff_dec 1 2 252, Huff_dec 22 3 252, Huff_dec 1 2 253, Huff_dec 22 3 253],
     [Huff_dec 2 2 245, Huff_dec 9 2 245, Huff_dec 23 2 245, Huff_dec 40 3 245, Huff_dec 2 2 246, Huff_dec 9 2 246,
     Huff_dec 23 2 246, Huff_dec 40 3 246, Huff_dec 2 2 247, Huff_dec 9 2 247, Huff_dec 23 2 247,
     Huff_dec 40 3 247, Huff_dec 2 2 248, Huff_dec 9 2 248, Huff_dec 23 2 248, Huff_dec 40 3 248],
     [Huff_dec 3 2 245, Huff_dec 6 2 245, Huff_dec 10 2 245, Huff_dec 15 2 245, Huff_dec 24 2 245,
     Huff_dec 31 2 245, Huff_dec 41 2 245, Huff_dec 56 3 245, Huff_dec 3 2 246, Huff_dec 6 2 246,
     Huff_dec 10 2 246, Huff_dec 15 2 246, Huff_dec 24 2 246, Huff_dec 31 2 246, Huff_dec 41 2 246,
     Huff_dec 56 3 246],
     [Huff_dec 3 2 247, Huff_dec 6 2 247, Huff_dec 10 2 247, Huff_dec 15 2 247, Huff_dec 24 2 247,
     Huff_dec 31 2 247, Huff_dec 41 2 247, Huff_dec 56 3 247, Huff_dec 3 2 248, Huff_dec 6 2 248,
     Huff_dec 10 2 248, Huff_dec 15 2 248, Huff_dec 24 2 248, Huff_dec 31 2 248, Huff_dec 41 2 248,
     Huff_dec 56 3 248],
     [Huff_dec 2 2 250, Huff_dec 9 2 250, Huff_dec 23 2 250, Huff_dec 40 3 250, Huff_dec 2 2 251, Huff_dec 9 2 251,
     Huff_dec 23 2 251, Huff_dec 40 3 251, Huff_dec 2 2 252, Huff_dec 9 2 252, Huff_dec 23 2 252,
     Huff_dec 40 3 252, Huff_dec 2 2 253, Huff_dec 9 2 253, Huff_dec 23 2 253, Huff_dec 40 3 253],
     [Huff_dec 3 2 250, Huff_dec 6 2 250, Huff_dec 10 2 250, Huff_dec 15 2 250, Huff_dec 24 2 250,
     Huff_dec 31 2 250, Huff_dec 41 2 250, Huff_dec 56 3 250, Huff_dec 3 2 251, Huff_dec 6 2 251,
     Huff_dec 10 2 251, Huff_dec 15 2 251, Huff_dec 24 2 251, Huff_dec 31 2 251, Huff_dec 41 2 251,
     Huff_dec 56 3 251],
     [Huff_dec 3 2 252, Huff_dec 6 2 252, Huff_dec 10 2 252, Huff_dec 15 2 252, Huff_dec 24 2 252,
     Huff_dec 31 2 252, Huff_dec 41 2 252, Huff_dec 56 3 252, Huff_dec 3 2 253, Huff_dec 6 2 253,
     Huff_dec 10 2 253, Huff_dec 15 2 253, Huff_dec 24 2 253, Huff_dec 31 2 253, Huff_dec 41 2 253,
     Huff_dec 56 3 253],
     [Huff_dec 0 3 254, Huff_dec 227 0 0, Huff_dec 229 0 0, Huff_dec 230 0 0, Huff_dec 233 0 0, Huff_dec 234 0 0,
     Huff_dec 236 0 0, Huff_dec 237 0 0, Huff_dec 241 0 0, Huff_dec 242 0 0, Huff_dec 244 0 0, Huff_dec 245 0 0,
     Huff_dec 248 0 0, Huff_dec 249 0 0, Huff_dec 251 0 0, Huff_dec 252 0 0]
   ]"

definition huff_decode_rows_224 :: "nghttp2_huff_decode list list" where
  "huff_decode_rows_224 = [
     [Huff_dec 1 2 254, Huff_dec 22 3 254, Huff_dec 0 3 2, Huff_dec 0 3 3, Huff_dec 0 3 4, Huff_dec 0 3 5,
     Huff_dec 0 3 6, Huff_dec 0 3 7, Huff_dec 0 3 8, Huff_dec 0 3 11, Huff_dec 0 3 12, Huff_dec 0 3 14,
     Huff_dec 0 3 15, Huff_dec 0 3 16, Huff_dec 0 3 17, Huff_dec 0 3 18],
     [Huff_dec 2 2 254, Huff_dec 9 2 254, Huff_dec 23 2 254, Huff_dec 40 3 254, Huff_dec 1 2 2, Huff_dec 22 3 2,
     Huff_dec 1 2 3, Huff_dec 22 3 3, Huff_dec 1 2 4, Huff_dec 22 3 4, Huff_dec 1 2 5, Huff_dec 22 3 5,
     Huff_dec 1 2 6, Huff_dec 22 3 6, Huff_dec 1 2 7, Huff_dec 22 3 7],
     [Huff_dec 3 2 254, Huff_dec 6 2 254, Huff_dec 10 2 254, Huff_dec 15 2 254, Huff_dec 24 2 254,
     Huff_dec 31 2 254, Huff_dec 41 2 254, Huff_dec 56 3 254, Huff_dec 2 2 2, Huff_dec 9 2 2, Huff_dec 23 2 2,
     Huff_dec 40 3 2, Huff_dec 2 2 3, Huff_dec 9 2 3, Huff_dec 23 2 3, Huff_dec 40 3 3],
     [Huff_dec 3 2 2, Huff_dec 6 2 2, Huff_dec 10 2 2, Huff_dec 15 2 2, Huff_dec 24 2 2, Huff_dec 31 2 2,
     Huff_dec 41 2 2, Huff_dec 56 3 2, Huff_dec 3 2 3, Huff_dec 6 2 3, Huff_dec 10 2 3, Huff_dec 15 2 3,
     Huff_dec 24 2 3, Huff_dec 31 2 3, Huff_dec 41 2 3, Huff_dec 56 3 3],
     [Huff_dec 2 2 4, Huff_dec 9 2 4, Huff_dec 23 2 4, Huff_dec 40 3 4, Huff_dec 2 2 5, Huff_dec 9 2 5,
     Huff_dec 23 2 5, Huff_dec 40 3 5, Huff_dec 2 2 6, Huff_dec 9 2 6, Huff_dec 23 2 6, Huff_dec 40 3 6,
     Huff_dec 2 2 7, Huff_dec 9 2 7, Huff_dec 23 2 7, Huff_dec 40 3 7],
     [Huff_dec 3 2 4, Huff_dec 6 2 4, Huff_dec 10 2 4, Huff_dec 15 2 4, Huff_dec 24 2 4, Huff_dec 31 2 4,
     Huff_dec 41 2 4, Huff_dec 56 3 4, Huff_dec 3 2 5, Huff_dec 6 2 5, Huff_dec 10 2 5, Huff_dec 15 2 5,
     Huff_dec 24 2 5, Huff_dec 31 2 5, Huff_dec 41 2 5, Huff_dec 56 3 5],
     [Huff_dec 3 2 6, Huff_dec 6 2 6, Huff_dec 10 2 6, Huff_dec 15 2 6, Huff_dec 24 2 6, Huff_dec 31 2 6,
     Huff_dec 41 2 6, Huff_dec 56 3 6, Huff_dec 3 2 7, Huff_dec 6 2 7, Huff_dec 10 2 7, Huff_dec 15 2 7,
     Huff_dec 24 2 7, Huff_dec 31 2 7, Huff_dec 41 2 7, Huff_dec 56 3 7],
     [Huff_dec 1 2 8, Huff_dec 22 3 8, Huff_dec 1 2 11, Huff_dec 22 3 11, Huff_dec 1 2 12, Huff_dec 22 3 12,
     Huff_dec 1 2 14, Huff_dec 22 3 14, Huff_dec 1 2 15, Huff_dec 22 3 15, Huff_dec 1 2 16, Huff_dec 22 3 16,
     Huff_dec 1 2 17, Huff_dec 22 3 17, Huff_dec 1 2 18, Huff_dec 22 3 18]
   ]"

definition huff_decode_rows_232 :: "nghttp2_huff_decode list list" where
  "huff_decode_rows_232 = [
     [Huff_dec 2 2 8, Huff_dec 9 2 8, Huff_dec 23 2 8, Huff_dec 40 3 8, Huff_dec 2 2 11, Huff_dec 9 2 11,
     Huff_dec 23 2 11, Huff_dec 40 3 11, Huff_dec 2 2 12, Huff_dec 9 2 12, Huff_dec 23 2 12, Huff_dec 40 3 12,
     Huff_dec 2 2 14, Huff_dec 9 2 14, Huff_dec 23 2 14, Huff_dec 40 3 14],
     [Huff_dec 3 2 8, Huff_dec 6 2 8, Huff_dec 10 2 8, Huff_dec 15 2 8, Huff_dec 24 2 8, Huff_dec 31 2 8,
     Huff_dec 41 2 8, Huff_dec 56 3 8, Huff_dec 3 2 11, Huff_dec 6 2 11, Huff_dec 10 2 11, Huff_dec 15 2 11,
     Huff_dec 24 2 11, Huff_dec 31 2 11, Huff_dec 41 2 11, Huff_dec 56 3 11],
     [Huff_dec 3 2 12, Huff_dec 6 2 12, Huff_dec 10 2 12, Huff_dec 15 2 12, Huff_dec 24 2 12, Huff_dec 31 2 12,
     Huff_dec 41 2 12, Huff_dec 56 3 12, Huff_dec 3 2 14, Huff_dec 6 2 14, Huff_dec 10 2 14, Huff_dec 15 2 14,
     Huff_dec 24 2 14, Huff_dec 31 2 14, Huff_dec 41 2 14, Huff_dec 56 3 14],
     [Huff_dec 2 2 15, Huff_dec 9 2 15, Huff_dec 23 2 15, Huff_dec 40 3 15, Huff_dec 2 2 16, Huff_dec 9 2 16,
     Huff_dec 23 2 16, Huff_dec 40 3 16, Huff_dec 2 2 17, Huff_dec 9 2 17, Huff_dec 23 2 17, Huff_dec 40 3 17,
     Huff_dec 2 2 18, Huff_dec 9 2 18, Huff_dec 23 2 18, Huff_dec 40 3 18],
     [Huff_dec 3 2 15, Huff_dec 6 2 15, Huff_dec 10 2 15, Huff_dec 15 2 15, Huff_dec 24 2 15, Huff_dec 31 2 15,
     Huff_dec 41 2 15, Huff_dec 56 3 15, Huff_dec 3 2 16, Huff_dec 6 2 16, Huff_dec 10 2 16, Huff_dec 15 2 16,
     Huff_dec 24 2 16, Huff_dec 31 2 16, Huff_dec 41 2 16, Huff_dec 56 3 16],
     [Huff_dec 3 2 17, Huff_dec 6 2 17, Huff_dec 10 2 17, Huff_dec 15 2 17, Huff_dec 24 2 17, Huff_dec 31 2 17,
     Huff_dec 41 2 17, Huff_dec 56 3 17, Huff_dec 3 2 18, Huff_dec 6 2 18, Huff_dec 10 2 18, Huff_dec 15 2 18,
     Huff_dec 24 2 18, Huff_dec 31 2 18, Huff_dec 41 2 18, Huff_dec 56 3 18],
     [Huff_dec 0 3 19, Huff_dec 0 3 20, Huff_dec 0 3 21, Huff_dec 0 3 23, Huff_dec 0 3 24, Huff_dec 0 3 25,
     Huff_dec 0 3 26, Huff_dec 0 3 27, Huff_dec 0 3 28, Huff_dec 0 3 29, Huff_dec 0 3 30, Huff_dec 0 3 31,
     Huff_dec 0 3 127, Huff_dec 0 3 220, Huff_dec 0 3 249, Huff_dec 253 0 0],
     [Huff_dec 1 2 19, Huff_dec 22 3 19, Huff_dec 1 2 20, Huff_dec 22 3 20, Huff_dec 1 2 21, Huff_dec 22 3 21,
     Huff_dec 1 2 23, Huff_dec 22 3 23, Huff_dec 1 2 24, Huff_dec 22 3 24, Huff_dec 1 2 25, Huff_dec 22 3 25,
     Huff_dec 1 2 26, Huff_dec 22 3 26, Huff_dec 1 2 27, Huff_dec 22 3 27]
   ]"

definition huff_decode_rows_240 :: "nghttp2_huff_decode list list" where
  "huff_decode_rows_240 = [
     [Huff_dec 2 2 19, Huff_dec 9 2 19, Huff_dec 23 2 19, Huff_dec 40 3 19, Huff_dec 2 2 20, Huff_dec 9 2 20,
     Huff_dec 23 2 20, Huff_dec 40 3 20, Huff_dec 2 2 21, Huff_dec 9 2 21, Huff_dec 23 2 21, Huff_dec 40 3 21,
     Huff_dec 2 2 23, Huff_dec 9 2 23, Huff_dec 23 2 23, Huff_dec 40 3 23],
     [Huff_dec 3 2 19, Huff_dec 6 2 19, Huff_dec 10 2 19, Huff_dec 15 2 19, Huff_dec 24 2 19, Huff_dec 31 2 19,
     Huff_dec 41 2 19, Huff_dec 56 3 19, Huff_dec 3 2 20, Huff_dec 6 2 20, Huff_dec 10 2 20, Huff_dec 15 2 20,
     Huff_dec 24 2 20, Huff_dec 31 2 20, Huff_dec 41 2 20, Huff_dec 56 3 20],
     [Huff_dec 3 2 21, Huff_dec 6 2 21, Huff_dec 10 2 21, Huff_dec 15 2 21, Huff_dec 24 2 21, Huff_dec 31 2 21,
     Huff_dec 41 2 21, Huff_dec 56 3 21, Huff_dec 3 2 23, Huff_dec 6 2 23, Huff_dec 10 2 23, Huff_dec 15 2 23,
     Huff_dec 24 2 23, Huff_dec 31 2 23, Huff_dec 41 2 23, Huff_dec 56 3 23],
     [Huff_dec 2 2 24, Huff_dec 9 2 24, Huff_dec 23 2 24, Huff_dec 40 3 24, Huff_dec 2 2 25, Huff_dec 9 2 25,
     Huff_dec 23 2 25, Huff_dec 40 3 25, Huff_dec 2 2 26, Huff_dec 9 2 26, Huff_dec 23 2 26, Huff_dec 40 3 26,
     Huff_dec 2 2 27, Huff_dec 9 2 27, Huff_dec 23 2 27, Huff_dec 40 3 27],
     [Huff_dec 3 2 24, Huff_dec 6 2 24, Huff_dec 10 2 24, Huff_dec 15 2 24, Huff_dec 24 2 24, Huff_dec 31 2 24,
     Huff_dec 41 2 24, Huff_dec 56 3 24, Huff_dec 3 2 25, Huff_dec 6 2 25, Huff_dec 10 2 25, Huff_dec 15 2 25,
     Huff_dec 24 2 25, Huff_dec 31 2 25, Huff_dec 41 2 25, Huff_dec 56 3 25],
     [Huff_dec 3 2 26, Huff_dec 6 2 26, Huff_dec 10 2 26, Huff_dec 15 2 26, Huff_dec 24 2 26, Huff_dec 31 2 26,
     Huff_dec 41 2 26, Huff_dec 56 3 26, Huff_dec 3 2 27, Huff_dec 6 2 27, Huff_dec 10 2 27, Huff_dec 15 2 27,
     Huff_dec 24 2 27, Huff_dec 31 2 27, Huff_dec 41 2 27, Huff_dec 56 3 27],
     [Huff_dec 1 2 28, Huff_dec 22 3 28, Huff_dec 1 2 29, Huff_dec 22 3 29, Huff_dec 1 2 30, Huff_dec 22 3 30,
     Huff_dec 1 2 31, Huff_dec 22 3 31, Huff_dec 1 2 127, Huff_dec 22 3 127, Huff_dec 1 2 220, Huff_dec 22 3 220,
     Huff_dec 1 2 249, Huff_dec 22 3 249, Huff_dec 254 0 0, Huff_dec 255 0 0],
     [Huff_dec 2 2 28, Huff_dec 9 2 28, Huff_dec 23 2 28, Huff_dec 40 3 28, Huff_dec 2 2 29, Huff_dec 9 2 29,
     Huff_dec 23 2 29, Huff_dec 40 3 29, Huff_dec 2 2 30, Huff_dec 9 2 30, Huff_dec 23 2 30, Huff_dec 40 3 30,
     Huff_dec 2 2 31, Huff_dec 9 2 31, Huff_dec 23 2 31, Huff_dec 40 3 31]
   ]"

definition huff_decode_rows_248 :: "nghttp2_huff_decode list list" where
  "huff_decode_rows_248 = [
     [Huff_dec 3 2 28, Huff_dec 6 2 28, Huff_dec 10 2 28, Huff_dec 15 2 28, Huff_dec 24 2 28, Huff_dec 31 2 28,
     Huff_dec 41 2 28, Huff_dec 56 3 28, Huff_dec 3 2 29, Huff_dec 6 2 29, Huff_dec 10 2 29, Huff_dec 15 2 29,
     Huff_dec 24 2 29, Huff_dec 31 2 29, Huff_dec 41 2 29, Huff_dec 56 3 29],
     [Huff_dec 3 2 30, Huff_dec 6 2 30, Huff_dec 10 2 30, Huff_dec 15 2 30, Huff_dec 24 2 30, Huff_dec 31 2 30,
     Huff_dec 41 2 30, Huff_dec 56 3 30, Huff_dec 3 2 31, Huff_dec 6 2 31, Huff_dec 10 2 31, Huff_dec 15 2 31,
     Huff_dec 24 2 31, Huff_dec 31 2 31, Huff_dec 41 2 31, Huff_dec 56 3 31],
     [Huff_dec 2 2 127, Huff_dec 9 2 127, Huff_dec 23 2 127, Huff_dec 40 3 127, Huff_dec 2 2 220, Huff_dec 9 2 220,
     Huff_dec 23 2 220, Huff_dec 40 3 220, Huff_dec 2 2 249, Huff_dec 9 2 249, Huff_dec 23 2 249,
     Huff_dec 40 3 249, Huff_dec 0 3 10, Huff_dec 0 3 13, Huff_dec 0 3 22, Huff_dec 0 4 0],
     [Huff_dec 3 2 127, Huff_dec 6 2 127, Huff_dec 10 2 127, Huff_dec 15 2 127, Huff_dec 24 2 127,
     Huff_dec 31 2 127, Huff_dec 41 2 127, Huff_dec 56 3 127, Huff_dec 3 2 220, Huff_dec 6 2 220,
     Huff_dec 10 2 220, Huff_dec 15 2 220, Huff_dec 24 2 220, Huff_dec 31 2 220, Huff_dec 41 2 220,
     Huff_dec 56 3 220],
     [Huff_dec 3 2 249, Huff_dec 6 2 249, Huff_dec 10 2 249, Huff_dec 15 2 249, Huff_dec 24 2 249,
     Huff_dec 31 2 249, Huff_dec 41 2 249, Huff_dec 56 3 249, Huff_dec 1 2 10, Huff_dec 22 3 10, Huff_dec 1 2 13,
     Huff_dec 22 3 13, Huff_dec 1 2 22, Huff_dec 22 3 22, Huff_dec 0 4 0, Huff_dec 0 4 0],
     [Huff_dec 2 2 10, Huff_dec 9 2 10, Huff_dec 23 2 10, Huff_dec 40 3 10, Huff_dec 2 2 13, Huff_dec 9 2 13,
     Huff_dec 23 2 13, Huff_dec 40 3 13, Huff_dec 2 2 22, Huff_dec 9 2 22, Huff_dec 23 2 22, Huff_dec 40 3 22,
     Huff_dec 0 4 0, Huff_dec 0 4 0, Huff_dec 0 4 0, Huff_dec 0 4 0],
     [Huff_dec 3 2 10, Huff_dec 6 2 10, Huff_dec 10 2 10, Huff_dec 15 2 10, Huff_dec 24 2 10, Huff_dec 31 2 10,
     Huff_dec 41 2 10, Huff_dec 56 3 10, Huff_dec 3 2 13, Huff_dec 6 2 13, Huff_dec 10 2 13, Huff_dec 15 2 13,
     Huff_dec 24 2 13, Huff_dec 31 2 13, Huff_dec 41 2 13, Huff_dec 56 3 13],
     [Huff_dec 3 2 22, Huff_dec 6 2 22, Huff_dec 10 2 22, Huff_dec 15 2 22, Huff_dec 24 2 22, Huff_dec 31 2 22,
     Huff_dec 41 2 22, Huff_dec 56 3 22, Huff_dec 0 4 0, Huff_dec 0 4 0, Huff_dec 0 4 0, Huff_dec 0 4 0,
     Huff_dec 0 4 0, Huff_dec 0 4 0, Huff_dec 0 4 0, Huff_dec 0 4 0]
   ]"

definition huff_decode_table :: "nghttp2_huff_decode list list" where
  "huff_decode_table =
     huff_decode_rows_0 @ huff_decode_rows_8 @ huff_decode_rows_16 @ huff_decode_rows_24 @
     huff_decode_rows_32 @ huff_decode_rows_40 @ huff_decode_rows_48 @ huff_decode_rows_56 @
     huff_decode_rows_64 @ huff_decode_rows_72 @ huff_decode_rows_80 @ huff_decode_rows_88 @
     huff_decode_rows_96 @ huff_decode_rows_104 @ huff_decode_rows_112 @ huff_decode_rows_120 @
     huff_decode_rows_128 @ huff_decode_rows_136 @ huff_decode_rows_144 @ huff_decode_rows_152 @
     huff_decode_rows_160 @ huff_decode_rows_168 @ huff_decode_rows_176 @ huff_decode_rows_184 @
     huff_decode_rows_192 @ huff_decode_rows_200 @ huff_decode_rows_208 @ huff_decode_rows_216 @
     huff_decode_rows_224 @ huff_decode_rows_232 @ huff_decode_rows_240 @ huff_decode_rows_248"

section \<open>The code tree\<close>

text \<open>
  The tree of the canonical code, one constant per inner node.  A node carries the number of the
  automaton state that stands for it and whether it accepts: whether the bits from the root to it are a
  valid padding, fewer than eight ones.  Symbol 256 is the end-of-string symbol.
\<close>

datatype huff_tree = Huff_eos | Huff_leaf u8 | Huff_node u8 bool huff_tree huff_tree

definition huff_node_255 :: huff_tree where
  "huff_node_255 = Huff_node 255 False (Huff_leaf 22) Huff_eos"

definition huff_node_254 :: huff_tree where
  "huff_node_254 = Huff_node 254 False (Huff_leaf 10) (Huff_leaf 13)"

definition huff_node_253 :: huff_tree where
  "huff_node_253 = Huff_node 253 False huff_node_254 huff_node_255"

definition huff_node_252 :: huff_tree where
  "huff_node_252 = Huff_node 252 False (Huff_leaf 249) huff_node_253"

definition huff_node_251 :: huff_tree where
  "huff_node_251 = Huff_node 251 False (Huff_leaf 127) (Huff_leaf 220)"

definition huff_node_250 :: huff_tree where
  "huff_node_250 = Huff_node 250 False huff_node_251 huff_node_252"

definition huff_node_249 :: huff_tree where
  "huff_node_249 = Huff_node 249 False (Huff_leaf 30) (Huff_leaf 31)"

definition huff_node_248 :: huff_tree where
  "huff_node_248 = Huff_node 248 False (Huff_leaf 28) (Huff_leaf 29)"

definition huff_node_247 :: huff_tree where
  "huff_node_247 = Huff_node 247 False huff_node_248 huff_node_249"

definition huff_node_246 :: huff_tree where
  "huff_node_246 = Huff_node 246 False huff_node_247 huff_node_250"

definition huff_node_245 :: huff_tree where
  "huff_node_245 = Huff_node 245 False (Huff_leaf 26) (Huff_leaf 27)"

definition huff_node_244 :: huff_tree where
  "huff_node_244 = Huff_node 244 False (Huff_leaf 24) (Huff_leaf 25)"

definition huff_node_243 :: huff_tree where
  "huff_node_243 = Huff_node 243 False huff_node_244 huff_node_245"

definition huff_node_242 :: huff_tree where
  "huff_node_242 = Huff_node 242 False (Huff_leaf 21) (Huff_leaf 23)"

definition huff_node_241 :: huff_tree where
  "huff_node_241 = Huff_node 241 False (Huff_leaf 19) (Huff_leaf 20)"

definition huff_node_240 :: huff_tree where
  "huff_node_240 = Huff_node 240 False huff_node_241 huff_node_242"

definition huff_node_239 :: huff_tree where
  "huff_node_239 = Huff_node 239 False huff_node_240 huff_node_243"

definition huff_node_238 :: huff_tree where
  "huff_node_238 = Huff_node 238 False huff_node_239 huff_node_246"

definition huff_node_237 :: huff_tree where
  "huff_node_237 = Huff_node 237 False (Huff_leaf 17) (Huff_leaf 18)"

definition huff_node_236 :: huff_tree where
  "huff_node_236 = Huff_node 236 False (Huff_leaf 15) (Huff_leaf 16)"

definition huff_node_235 :: huff_tree where
  "huff_node_235 = Huff_node 235 False huff_node_236 huff_node_237"

definition huff_node_234 :: huff_tree where
  "huff_node_234 = Huff_node 234 False (Huff_leaf 12) (Huff_leaf 14)"

definition huff_node_233 :: huff_tree where
  "huff_node_233 = Huff_node 233 False (Huff_leaf 8) (Huff_leaf 11)"

definition huff_node_232 :: huff_tree where
  "huff_node_232 = Huff_node 232 False huff_node_233 huff_node_234"

definition huff_node_231 :: huff_tree where
  "huff_node_231 = Huff_node 231 False huff_node_232 huff_node_235"

definition huff_node_230 :: huff_tree where
  "huff_node_230 = Huff_node 230 False (Huff_leaf 6) (Huff_leaf 7)"

definition huff_node_229 :: huff_tree where
  "huff_node_229 = Huff_node 229 False (Huff_leaf 4) (Huff_leaf 5)"

definition huff_node_228 :: huff_tree where
  "huff_node_228 = Huff_node 228 False huff_node_229 huff_node_230"

definition huff_node_227 :: huff_tree where
  "huff_node_227 = Huff_node 227 False (Huff_leaf 2) (Huff_leaf 3)"

definition huff_node_226 :: huff_tree where
  "huff_node_226 = Huff_node 226 False (Huff_leaf 254) huff_node_227"

definition huff_node_225 :: huff_tree where
  "huff_node_225 = Huff_node 225 False huff_node_226 huff_node_228"

definition huff_node_224 :: huff_tree where
  "huff_node_224 = Huff_node 224 False huff_node_225 huff_node_231"

definition huff_node_223 :: huff_tree where
  "huff_node_223 = Huff_node 223 False huff_node_224 huff_node_238"

definition huff_node_222 :: huff_tree where
  "huff_node_222 = Huff_node 222 False (Huff_leaf 252) (Huff_leaf 253)"

definition huff_node_221 :: huff_tree where
  "huff_node_221 = Huff_node 221 False (Huff_leaf 250) (Huff_leaf 251)"

definition huff_node_220 :: huff_tree where
  "huff_node_220 = Huff_node 220 False huff_node_221 huff_node_222"

definition huff_node_219 :: huff_tree where
  "huff_node_219 = Huff_node 219 False (Huff_leaf 247) (Huff_leaf 248)"

definition huff_node_218 :: huff_tree where
  "huff_node_218 = Huff_node 218 False (Huff_leaf 245) (Huff_leaf 246)"

definition huff_node_217 :: huff_tree where
  "huff_node_217 = Huff_node 217 False huff_node_218 huff_node_219"

definition huff_node_216 :: huff_tree where
  "huff_node_216 = Huff_node 216 False huff_node_217 huff_node_220"

definition huff_node_215 :: huff_tree where
  "huff_node_215 = Huff_node 215 False (Huff_leaf 241) (Huff_leaf 244)"

definition huff_node_214 :: huff_tree where
  "huff_node_214 = Huff_node 214 False (Huff_leaf 222) (Huff_leaf 223)"

definition huff_node_213 :: huff_tree where
  "huff_node_213 = Huff_node 213 False huff_node_214 huff_node_215"

definition huff_node_212 :: huff_tree where
  "huff_node_212 = Huff_node 212 False (Huff_leaf 214) (Huff_leaf 221)"

definition huff_node_211 :: huff_tree where
  "huff_node_211 = Huff_node 211 False (Huff_leaf 211) (Huff_leaf 212)"

definition huff_node_210 :: huff_tree where
  "huff_node_210 = Huff_node 210 False huff_node_211 huff_node_212"

definition huff_node_209 :: huff_tree where
  "huff_node_209 = Huff_node 209 False huff_node_210 huff_node_213"

definition huff_node_208 :: huff_tree where
  "huff_node_208 = Huff_node 208 False huff_node_209 huff_node_216"

definition huff_node_207 :: huff_tree where
  "huff_node_207 = Huff_node 207 False huff_node_208 huff_node_223"

definition huff_node_206 :: huff_tree where
  "huff_node_206 = Huff_node 206 False (Huff_leaf 203) (Huff_leaf 204)"

definition huff_node_205 :: huff_tree where
  "huff_node_205 = Huff_node 205 False (Huff_leaf 255) huff_node_206"

definition huff_node_204 :: huff_tree where
  "huff_node_204 = Huff_node 204 False (Huff_leaf 242) (Huff_leaf 243)"

definition huff_node_203 :: huff_tree where
  "huff_node_203 = Huff_node 203 False huff_node_204 huff_node_205"

definition huff_node_202 :: huff_tree where
  "huff_node_202 = Huff_node 202 False (Huff_leaf 238) (Huff_leaf 240)"

definition huff_node_201 :: huff_tree where
  "huff_node_201 = Huff_node 201 False (Huff_leaf 218) (Huff_leaf 219)"

definition huff_node_200 :: huff_tree where
  "huff_node_200 = Huff_node 200 False huff_node_201 huff_node_202"

definition huff_node_199 :: huff_tree where
  "huff_node_199 = Huff_node 199 False huff_node_200 huff_node_203"

definition huff_node_198 :: huff_tree where
  "huff_node_198 = Huff_node 198 False (Huff_leaf 210) (Huff_leaf 213)"

definition huff_node_197 :: huff_tree where
  "huff_node_197 = Huff_node 197 False (Huff_leaf 202) (Huff_leaf 205)"

definition huff_node_196 :: huff_tree where
  "huff_node_196 = Huff_node 196 False huff_node_197 huff_node_198"

definition huff_node_195 :: huff_tree where
  "huff_node_195 = Huff_node 195 False (Huff_leaf 200) (Huff_leaf 201)"

definition huff_node_194 :: huff_tree where
  "huff_node_194 = Huff_node 194 False (Huff_leaf 192) (Huff_leaf 193)"

definition huff_node_193 :: huff_tree where
  "huff_node_193 = Huff_node 193 False huff_node_194 huff_node_195"

definition huff_node_192 :: huff_tree where
  "huff_node_192 = Huff_node 192 False huff_node_193 huff_node_196"

definition huff_node_191 :: huff_tree where
  "huff_node_191 = Huff_node 191 False huff_node_192 huff_node_199"

definition huff_node_190 :: huff_tree where
  "huff_node_190 = Huff_node 190 False huff_node_191 huff_node_207"

definition huff_node_189 :: huff_tree where
  "huff_node_189 = Huff_node 189 False (Huff_leaf 234) (Huff_leaf 235)"

definition huff_node_188 :: huff_tree where
  "huff_node_188 = Huff_node 188 False (Huff_leaf 199) (Huff_leaf 207)"

definition huff_node_187 :: huff_tree where
  "huff_node_187 = Huff_node 187 False huff_node_188 huff_node_189"

definition huff_node_186 :: huff_tree where
  "huff_node_186 = Huff_node 186 False (Huff_leaf 236) (Huff_leaf 237)"

definition huff_node_185 :: huff_tree where
  "huff_node_185 = Huff_node 185 False huff_node_186 huff_node_187"

definition huff_node_184 :: huff_tree where
  "huff_node_184 = Huff_node 184 False (Huff_leaf 215) (Huff_leaf 225)"

definition huff_node_183 :: huff_tree where
  "huff_node_183 = Huff_node 183 False (Huff_leaf 171) (Huff_leaf 206)"

definition huff_node_182 :: huff_tree where
  "huff_node_182 = Huff_node 182 False huff_node_183 huff_node_184"

definition huff_node_181 :: huff_tree where
  "huff_node_181 = Huff_node 181 False huff_node_182 huff_node_185"

definition huff_node_180 :: huff_tree where
  "huff_node_180 = Huff_node 180 False huff_node_181 huff_node_190"

definition huff_node_179 :: huff_tree where
  "huff_node_179 = Huff_node 179 False (Huff_leaf 148) (Huff_leaf 159)"

definition huff_node_178 :: huff_tree where
  "huff_node_178 = Huff_node 178 False (Huff_leaf 144) (Huff_leaf 145)"

definition huff_node_177 :: huff_tree where
  "huff_node_177 = Huff_node 177 False huff_node_178 huff_node_179"

definition huff_node_176 :: huff_tree where
  "huff_node_176 = Huff_node 176 False (Huff_leaf 9) (Huff_leaf 142)"

definition huff_node_175 :: huff_tree where
  "huff_node_175 = Huff_node 175 False (Huff_leaf 239) huff_node_176"

definition huff_node_174 :: huff_tree where
  "huff_node_174 = Huff_node 174 False huff_node_175 huff_node_177"

definition huff_node_173 :: huff_tree where
  "huff_node_173 = Huff_node 173 False (Huff_leaf 197) (Huff_leaf 231)"

definition huff_node_172 :: huff_tree where
  "huff_node_172 = Huff_node 172 False (Huff_leaf 188) (Huff_leaf 191)"

definition huff_node_171 :: huff_tree where
  "huff_node_171 = Huff_node 171 False huff_node_172 huff_node_173"

definition huff_node_170 :: huff_tree where
  "huff_node_170 = Huff_node 170 False huff_node_171 huff_node_174"

definition huff_node_169 :: huff_tree where
  "huff_node_169 = Huff_node 169 False huff_node_170 huff_node_180"

definition huff_node_168 :: huff_tree where
  "huff_node_168 = Huff_node 168 False (Huff_leaf 182) (Huff_leaf 183)"

definition huff_node_167 :: huff_tree where
  "huff_node_167 = Huff_node 167 False (Huff_leaf 175) (Huff_leaf 180)"

definition huff_node_166 :: huff_tree where
  "huff_node_166 = Huff_node 166 False huff_node_167 huff_node_168"

definition huff_node_165 :: huff_tree where
  "huff_node_165 = Huff_node 165 False (Huff_leaf 168) (Huff_leaf 174)"

definition huff_node_164 :: huff_tree where
  "huff_node_164 = Huff_node 164 False (Huff_leaf 165) (Huff_leaf 166)"

definition huff_node_163 :: huff_tree where
  "huff_node_163 = Huff_node 163 False huff_node_164 huff_node_165"

definition huff_node_162 :: huff_tree where
  "huff_node_162 = Huff_node 162 False huff_node_163 huff_node_166"

definition huff_node_161 :: huff_tree where
  "huff_node_161 = Huff_node 161 False (Huff_leaf 157) (Huff_leaf 158)"

definition huff_node_160 :: huff_tree where
  "huff_node_160 = Huff_node 160 False (Huff_leaf 152) (Huff_leaf 155)"

definition huff_node_159 :: huff_tree where
  "huff_node_159 = Huff_node 159 False huff_node_160 huff_node_161"

definition huff_node_158 :: huff_tree where
  "huff_node_158 = Huff_node 158 False (Huff_leaf 150) (Huff_leaf 151)"

definition huff_node_157 :: huff_tree where
  "huff_node_157 = Huff_node 157 False (Huff_leaf 147) (Huff_leaf 149)"

definition huff_node_156 :: huff_tree where
  "huff_node_156 = Huff_node 156 False huff_node_157 huff_node_158"

definition huff_node_155 :: huff_tree where
  "huff_node_155 = Huff_node 155 False huff_node_156 huff_node_159"

definition huff_node_154 :: huff_tree where
  "huff_node_154 = Huff_node 154 False huff_node_155 huff_node_162"

definition huff_node_153 :: huff_tree where
  "huff_node_153 = Huff_node 153 False huff_node_154 huff_node_169"

definition huff_node_152 :: huff_tree where
  "huff_node_152 = Huff_node 152 False (Huff_leaf 141) (Huff_leaf 143)"

definition huff_node_151 :: huff_tree where
  "huff_node_151 = Huff_node 151 False (Huff_leaf 139) (Huff_leaf 140)"

definition huff_node_150 :: huff_tree where
  "huff_node_150 = Huff_node 150 False huff_node_151 huff_node_152"

definition huff_node_149 :: huff_tree where
  "huff_node_149 = Huff_node 149 False (Huff_leaf 137) (Huff_leaf 138)"

definition huff_node_148 :: huff_tree where
  "huff_node_148 = Huff_node 148 False (Huff_leaf 1) (Huff_leaf 135)"

definition huff_node_147 :: huff_tree where
  "huff_node_147 = Huff_node 147 False huff_node_148 huff_node_149"

definition huff_node_146 :: huff_tree where
  "huff_node_146 = Huff_node 146 False huff_node_147 huff_node_150"

definition huff_node_145 :: huff_tree where
  "huff_node_145 = Huff_node 145 False (Huff_leaf 232) (Huff_leaf 233)"

definition huff_node_144 :: huff_tree where
  "huff_node_144 = Huff_node 144 False (Huff_leaf 198) (Huff_leaf 228)"

definition huff_node_143 :: huff_tree where
  "huff_node_143 = Huff_node 143 False huff_node_144 huff_node_145"

definition huff_node_142 :: huff_tree where
  "huff_node_142 = Huff_node 142 False huff_node_143 huff_node_146"

definition huff_node_141 :: huff_tree where
  "huff_node_141 = Huff_node 141 False (Huff_leaf 190) (Huff_leaf 196)"

definition huff_node_140 :: huff_tree where
  "huff_node_140 = Huff_node 140 False (Huff_leaf 187) (Huff_leaf 189)"

definition huff_node_139 :: huff_tree where
  "huff_node_139 = Huff_node 139 False huff_node_140 huff_node_141"

definition huff_node_138 :: huff_tree where
  "huff_node_138 = Huff_node 138 False (Huff_leaf 185) (Huff_leaf 186)"

definition huff_node_137 :: huff_tree where
  "huff_node_137 = Huff_node 137 False (Huff_leaf 178) (Huff_leaf 181)"

definition huff_node_136 :: huff_tree where
  "huff_node_136 = Huff_node 136 False huff_node_137 huff_node_138"

definition huff_node_135 :: huff_tree where
  "huff_node_135 = Huff_node 135 False huff_node_136 huff_node_139"

definition huff_node_134 :: huff_tree where
  "huff_node_134 = Huff_node 134 False huff_node_135 huff_node_142"

definition huff_node_133 :: huff_tree where
  "huff_node_133 = Huff_node 133 False huff_node_134 huff_node_153"

definition huff_node_132 :: huff_tree where
  "huff_node_132 = Huff_node 132 False (Huff_leaf 170) (Huff_leaf 173)"

definition huff_node_131 :: huff_tree where
  "huff_node_131 = Huff_node 131 False (Huff_leaf 164) (Huff_leaf 169)"

definition huff_node_130 :: huff_tree where
  "huff_node_130 = Huff_node 130 False huff_node_131 huff_node_132"

definition huff_node_129 :: huff_tree where
  "huff_node_129 = Huff_node 129 False (Huff_leaf 160) (Huff_leaf 163)"

definition huff_node_128 :: huff_tree where
  "huff_node_128 = Huff_node 128 False (Huff_leaf 154) (Huff_leaf 156)"

definition huff_node_127 :: huff_tree where
  "huff_node_127 = Huff_node 127 False huff_node_128 huff_node_129"

definition huff_node_126 :: huff_tree where
  "huff_node_126 = Huff_node 126 False huff_node_127 huff_node_130"

definition huff_node_125 :: huff_tree where
  "huff_node_125 = Huff_node 125 False (Huff_leaf 136) (Huff_leaf 146)"

definition huff_node_124 :: huff_tree where
  "huff_node_124 = Huff_node 124 False (Huff_leaf 133) (Huff_leaf 134)"

definition huff_node_123 :: huff_tree where
  "huff_node_123 = Huff_node 123 False huff_node_124 huff_node_125"

definition huff_node_122 :: huff_tree where
  "huff_node_122 = Huff_node 122 False (Huff_leaf 129) (Huff_leaf 132)"

definition huff_node_121 :: huff_tree where
  "huff_node_121 = Huff_node 121 False (Huff_leaf 230) huff_node_122"

definition huff_node_120 :: huff_tree where
  "huff_node_120 = Huff_node 120 False huff_node_121 huff_node_123"

definition huff_node_119 :: huff_tree where
  "huff_node_119 = Huff_node 119 False huff_node_120 huff_node_126"

definition huff_node_118 :: huff_tree where
  "huff_node_118 = Huff_node 118 False (Huff_leaf 227) (Huff_leaf 229)"

definition huff_node_117 :: huff_tree where
  "huff_node_117 = Huff_node 117 False (Huff_leaf 216) (Huff_leaf 217)"

definition huff_node_116 :: huff_tree where
  "huff_node_116 = Huff_node 116 False huff_node_117 huff_node_118"

definition huff_node_115 :: huff_tree where
  "huff_node_115 = Huff_node 115 False (Huff_leaf 179) (Huff_leaf 209)"

definition huff_node_114 :: huff_tree where
  "huff_node_114 = Huff_node 114 False (Huff_leaf 176) (Huff_leaf 177)"

definition huff_node_113 :: huff_tree where
  "huff_node_113 = Huff_node 113 False huff_node_114 huff_node_115"

definition huff_node_112 :: huff_tree where
  "huff_node_112 = Huff_node 112 False huff_node_113 huff_node_116"

definition huff_node_111 :: huff_tree where
  "huff_node_111 = Huff_node 111 False huff_node_112 huff_node_119"

definition huff_node_110 :: huff_tree where
  "huff_node_110 = Huff_node 110 False huff_node_111 huff_node_133"

definition huff_node_109 :: huff_tree where
  "huff_node_109 = Huff_node 109 False (Huff_leaf 167) (Huff_leaf 172)"

definition huff_node_108 :: huff_tree where
  "huff_node_108 = Huff_node 108 False (Huff_leaf 153) (Huff_leaf 161)"

definition huff_node_107 :: huff_tree where
  "huff_node_107 = Huff_node 107 False huff_node_108 huff_node_109"

definition huff_node_106 :: huff_tree where
  "huff_node_106 = Huff_node 106 False (Huff_leaf 224) (Huff_leaf 226)"

definition huff_node_105 :: huff_tree where
  "huff_node_105 = Huff_node 105 False huff_node_106 huff_node_107"

definition huff_node_104 :: huff_tree where
  "huff_node_104 = Huff_node 104 False (Huff_leaf 184) (Huff_leaf 194)"

definition huff_node_103 :: huff_tree where
  "huff_node_103 = Huff_node 103 False (Huff_leaf 131) (Huff_leaf 162)"

definition huff_node_102 :: huff_tree where
  "huff_node_102 = Huff_node 102 False huff_node_103 huff_node_104"

definition huff_node_101 :: huff_tree where
  "huff_node_101 = Huff_node 101 False huff_node_102 huff_node_105"

definition huff_node_100 :: huff_tree where
  "huff_node_100 = Huff_node 100 False (Huff_leaf 128) (Huff_leaf 130)"

definition huff_node_99 :: huff_tree where
  "huff_node_99 = Huff_node 99 False (Huff_leaf 208) huff_node_100"

definition huff_node_98 :: huff_tree where
  "huff_node_98 = Huff_node 98 False (Huff_leaf 92) (Huff_leaf 195)"

definition huff_node_97 :: huff_tree where
  "huff_node_97 = Huff_node 97 False huff_node_98 huff_node_99"

definition huff_node_96 :: huff_tree where
  "huff_node_96 = Huff_node 96 False huff_node_97 huff_node_101"

definition huff_node_95 :: huff_tree where
  "huff_node_95 = Huff_node 95 False huff_node_96 huff_node_110"

definition huff_node_94 :: huff_tree where
  "huff_node_94 = Huff_node 94 False (Huff_leaf 123) huff_node_95"

definition huff_node_93 :: huff_tree where
  "huff_node_93 = Huff_node 93 False (Huff_leaf 60) (Huff_leaf 96)"

definition huff_node_92 :: huff_tree where
  "huff_node_92 = Huff_node 92 False huff_node_93 huff_node_94"

definition huff_node_91 :: huff_tree where
  "huff_node_91 = Huff_node 91 False (Huff_leaf 94) (Huff_leaf 125)"

definition huff_node_90 :: huff_tree where
  "huff_node_90 = Huff_node 90 False huff_node_91 huff_node_92"

definition huff_node_89 :: huff_tree where
  "huff_node_89 = Huff_node 89 False (Huff_leaf 93) (Huff_leaf 126)"

definition huff_node_88 :: huff_tree where
  "huff_node_88 = Huff_node 88 False huff_node_89 huff_node_90"

definition huff_node_87 :: huff_tree where
  "huff_node_87 = Huff_node 87 False (Huff_leaf 64) (Huff_leaf 91)"

definition huff_node_86 :: huff_tree where
  "huff_node_86 = Huff_node 86 False (Huff_leaf 0) (Huff_leaf 36)"

definition huff_node_85 :: huff_tree where
  "huff_node_85 = Huff_node 85 False huff_node_86 huff_node_87"

definition huff_node_84 :: huff_tree where
  "huff_node_84 = Huff_node 84 False huff_node_85 huff_node_88"

definition huff_node_83 :: huff_tree where
  "huff_node_83 = Huff_node 83 False (Huff_leaf 35) (Huff_leaf 62)"

definition huff_node_82 :: huff_tree where
  "huff_node_82 = Huff_node 82 False (Huff_leaf 124) huff_node_83"

definition huff_node_81 :: huff_tree where
  "huff_node_81 = Huff_node 81 False huff_node_82 huff_node_84"

definition huff_node_80 :: huff_tree where
  "huff_node_80 = Huff_node 80 False (Huff_leaf 39) (Huff_leaf 43)"

definition huff_node_79 :: huff_tree where
  "huff_node_79 = Huff_node 79 False (Huff_leaf 63) huff_node_80"

definition huff_node_78 :: huff_tree where
  "huff_node_78 = Huff_node 78 False huff_node_79 huff_node_81"

definition huff_node_77 :: huff_tree where
  "huff_node_77 = Huff_node 77 False (Huff_leaf 40) (Huff_leaf 41)"

definition huff_node_76 :: huff_tree where
  "huff_node_76 = Huff_node 76 False (Huff_leaf 33) (Huff_leaf 34)"

definition huff_node_75 :: huff_tree where
  "huff_node_75 = Huff_node 75 False huff_node_76 huff_node_77"

definition huff_node_74 :: huff_tree where
  "huff_node_74 = Huff_node 74 True huff_node_75 huff_node_78"

definition huff_node_73 :: huff_tree where
  "huff_node_73 = Huff_node 73 False (Huff_leaf 88) (Huff_leaf 90)"

definition huff_node_72 :: huff_tree where
  "huff_node_72 = Huff_node 72 True huff_node_73 huff_node_74"

definition huff_node_71 :: huff_tree where
  "huff_node_71 = Huff_node 71 False (Huff_leaf 44) (Huff_leaf 59)"

definition huff_node_70 :: huff_tree where
  "huff_node_70 = Huff_node 70 False (Huff_leaf 38) (Huff_leaf 42)"

definition huff_node_69 :: huff_tree where
  "huff_node_69 = Huff_node 69 False huff_node_70 huff_node_71"

definition huff_node_68 :: huff_tree where
  "huff_node_68 = Huff_node 68 True huff_node_69 huff_node_72"

definition huff_node_67 :: huff_tree where
  "huff_node_67 = Huff_node 67 False (Huff_leaf 121) (Huff_leaf 122)"

definition huff_node_66 :: huff_tree where
  "huff_node_66 = Huff_node 66 False (Huff_leaf 119) (Huff_leaf 120)"

definition huff_node_65 :: huff_tree where
  "huff_node_65 = Huff_node 65 False huff_node_66 huff_node_67"

definition huff_node_64 :: huff_tree where
  "huff_node_64 = Huff_node 64 True huff_node_65 huff_node_68"

definition huff_node_63 :: huff_tree where
  "huff_node_63 = Huff_node 63 False (Huff_leaf 113) (Huff_leaf 118)"

definition huff_node_62 :: huff_tree where
  "huff_node_62 = Huff_node 62 False (Huff_leaf 106) (Huff_leaf 107)"

definition huff_node_61 :: huff_tree where
  "huff_node_61 = Huff_node 61 False huff_node_62 huff_node_63"

definition huff_node_60 :: huff_tree where
  "huff_node_60 = Huff_node 60 False (Huff_leaf 87) (Huff_leaf 89)"

definition huff_node_59 :: huff_tree where
  "huff_node_59 = Huff_node 59 False (Huff_leaf 85) (Huff_leaf 86)"

definition huff_node_58 :: huff_tree where
  "huff_node_58 = Huff_node 58 False huff_node_59 huff_node_60"

definition huff_node_57 :: huff_tree where
  "huff_node_57 = Huff_node 57 False huff_node_58 huff_node_61"

definition huff_node_56 :: huff_tree where
  "huff_node_56 = Huff_node 56 True huff_node_57 huff_node_64"

definition huff_node_55 :: huff_tree where
  "huff_node_55 = Huff_node 55 False (Huff_leaf 83) (Huff_leaf 84)"

definition huff_node_54 :: huff_tree where
  "huff_node_54 = Huff_node 54 False (Huff_leaf 81) (Huff_leaf 82)"

definition huff_node_53 :: huff_tree where
  "huff_node_53 = Huff_node 53 False huff_node_54 huff_node_55"

definition huff_node_52 :: huff_tree where
  "huff_node_52 = Huff_node 52 False (Huff_leaf 79) (Huff_leaf 80)"

definition huff_node_51 :: huff_tree where
  "huff_node_51 = Huff_node 51 False (Huff_leaf 77) (Huff_leaf 78)"

definition huff_node_50 :: huff_tree where
  "huff_node_50 = Huff_node 50 False huff_node_51 huff_node_52"

definition huff_node_49 :: huff_tree where
  "huff_node_49 = Huff_node 49 False huff_node_50 huff_node_53"

definition huff_node_48 :: huff_tree where
  "huff_node_48 = Huff_node 48 False (Huff_leaf 75) (Huff_leaf 76)"

definition huff_node_47 :: huff_tree where
  "huff_node_47 = Huff_node 47 False (Huff_leaf 73) (Huff_leaf 74)"

definition huff_node_46 :: huff_tree where
  "huff_node_46 = Huff_node 46 False huff_node_47 huff_node_48"

definition huff_node_45 :: huff_tree where
  "huff_node_45 = Huff_node 45 False (Huff_leaf 71) (Huff_leaf 72)"

definition huff_node_44 :: huff_tree where
  "huff_node_44 = Huff_node 44 False (Huff_leaf 69) (Huff_leaf 70)"

definition huff_node_43 :: huff_tree where
  "huff_node_43 = Huff_node 43 False huff_node_44 huff_node_45"

definition huff_node_42 :: huff_tree where
  "huff_node_42 = Huff_node 42 False huff_node_43 huff_node_46"

definition huff_node_41 :: huff_tree where
  "huff_node_41 = Huff_node 41 False huff_node_42 huff_node_49"

definition huff_node_40 :: huff_tree where
  "huff_node_40 = Huff_node 40 True huff_node_41 huff_node_56"

definition huff_node_39 :: huff_tree where
  "huff_node_39 = Huff_node 39 False (Huff_leaf 67) (Huff_leaf 68)"

definition huff_node_38 :: huff_tree where
  "huff_node_38 = Huff_node 38 False (Huff_leaf 58) (Huff_leaf 66)"

definition huff_node_37 :: huff_tree where
  "huff_node_37 = Huff_node 37 False huff_node_38 huff_node_39"

definition huff_node_36 :: huff_tree where
  "huff_node_36 = Huff_node 36 False (Huff_leaf 114) (Huff_leaf 117)"

definition huff_node_35 :: huff_tree where
  "huff_node_35 = Huff_node 35 False huff_node_36 huff_node_37"

definition huff_node_34 :: huff_tree where
  "huff_node_34 = Huff_node 34 False (Huff_leaf 110) (Huff_leaf 112)"

definition huff_node_33 :: huff_tree where
  "huff_node_33 = Huff_node 33 False (Huff_leaf 108) (Huff_leaf 109)"

definition huff_node_32 :: huff_tree where
  "huff_node_32 = Huff_node 32 False huff_node_33 huff_node_34"

definition huff_node_31 :: huff_tree where
  "huff_node_31 = Huff_node 31 False huff_node_32 huff_node_35"

definition huff_node_30 :: huff_tree where
  "huff_node_30 = Huff_node 30 False (Huff_leaf 103) (Huff_leaf 104)"

definition huff_node_29 :: huff_tree where
  "huff_node_29 = Huff_node 29 False (Huff_leaf 100) (Huff_leaf 102)"

definition huff_node_28 :: huff_tree where
  "huff_node_28 = Huff_node 28 False huff_node_29 huff_node_30"

definition huff_node_27 :: huff_tree where
  "huff_node_27 = Huff_node 27 False (Huff_leaf 95) (Huff_leaf 98)"

definition huff_node_26 :: huff_tree where
  "huff_node_26 = Huff_node 26 False (Huff_leaf 61) (Huff_leaf 65)"

definition huff_node_25 :: huff_tree where
  "huff_node_25 = Huff_node 25 False huff_node_26 huff_node_27"

definition huff_node_24 :: huff_tree where
  "huff_node_24 = Huff_node 24 False huff_node_25 huff_node_28"

definition huff_node_23 :: huff_tree where
  "huff_node_23 = Huff_node 23 False huff_node_24 huff_node_31"

definition huff_node_22 :: huff_tree where
  "huff_node_22 = Huff_node 22 True huff_node_23 huff_node_40"

definition huff_node_21 :: huff_tree where
  "huff_node_21 = Huff_node 21 False (Huff_leaf 56) (Huff_leaf 57)"

definition huff_node_20 :: huff_tree where
  "huff_node_20 = Huff_node 20 False (Huff_leaf 54) (Huff_leaf 55)"

definition huff_node_19 :: huff_tree where
  "huff_node_19 = Huff_node 19 False huff_node_20 huff_node_21"

definition huff_node_18 :: huff_tree where
  "huff_node_18 = Huff_node 18 False (Huff_leaf 52) (Huff_leaf 53)"

definition huff_node_17 :: huff_tree where
  "huff_node_17 = Huff_node 17 False (Huff_leaf 47) (Huff_leaf 51)"

definition huff_node_16 :: huff_tree where
  "huff_node_16 = Huff_node 16 False huff_node_17 huff_node_18"

definition huff_node_15 :: huff_tree where
  "huff_node_15 = Huff_node 15 False huff_node_16 huff_node_19"

definition huff_node_14 :: huff_tree where
  "huff_node_14 = Huff_node 14 False (Huff_leaf 45) (Huff_leaf 46)"

definition huff_node_13 :: huff_tree where
  "huff_node_13 = Huff_node 13 False (Huff_leaf 32) (Huff_leaf 37)"

definition huff_node_12 :: huff_tree where
  "huff_node_12 = Huff_node 12 False huff_node_13 huff_node_14"

definition huff_node_11 :: huff_tree where
  "huff_node_11 = Huff_node 11 False (Huff_leaf 115) (Huff_leaf 116)"

definition huff_node_10 :: huff_tree where
  "huff_node_10 = Huff_node 10 False huff_node_11 huff_node_12"

definition huff_node_9 :: huff_tree where
  "huff_node_9 = Huff_node 9 False huff_node_10 huff_node_15"

definition huff_node_8 :: huff_tree where
  "huff_node_8 = Huff_node 8 False (Huff_leaf 105) (Huff_leaf 111)"

definition huff_node_7 :: huff_tree where
  "huff_node_7 = Huff_node 7 False (Huff_leaf 99) (Huff_leaf 101)"

definition huff_node_6 :: huff_tree where
  "huff_node_6 = Huff_node 6 False huff_node_7 huff_node_8"

definition huff_node_5 :: huff_tree where
  "huff_node_5 = Huff_node 5 False (Huff_leaf 50) (Huff_leaf 97)"

definition huff_node_4 :: huff_tree where
  "huff_node_4 = Huff_node 4 False (Huff_leaf 48) (Huff_leaf 49)"

definition huff_node_3 :: huff_tree where
  "huff_node_3 = Huff_node 3 False huff_node_4 huff_node_5"

definition huff_node_2 :: huff_tree where
  "huff_node_2 = Huff_node 2 False huff_node_3 huff_node_6"

definition huff_node_1 :: huff_tree where
  "huff_node_1 = Huff_node 1 False huff_node_2 huff_node_9"

definition huff_node_0 :: huff_tree where
  "huff_node_0 = Huff_node 0 True huff_node_1 huff_node_22"

text \<open>The nodes in the order of their states.\<close>

definition huff_nodes_0 :: "huff_tree list" where
  "huff_nodes_0 = [
     huff_node_0, huff_node_1, huff_node_2, huff_node_3, huff_node_4, huff_node_5, huff_node_6, huff_node_7]"

definition huff_nodes_8 :: "huff_tree list" where
  "huff_nodes_8 = [
     huff_node_8, huff_node_9, huff_node_10, huff_node_11, huff_node_12, huff_node_13, huff_node_14,
     huff_node_15]"

definition huff_nodes_16 :: "huff_tree list" where
  "huff_nodes_16 = [
     huff_node_16, huff_node_17, huff_node_18, huff_node_19, huff_node_20, huff_node_21, huff_node_22,
     huff_node_23]"

definition huff_nodes_24 :: "huff_tree list" where
  "huff_nodes_24 = [
     huff_node_24, huff_node_25, huff_node_26, huff_node_27, huff_node_28, huff_node_29, huff_node_30,
     huff_node_31]"

definition huff_nodes_32 :: "huff_tree list" where
  "huff_nodes_32 = [
     huff_node_32, huff_node_33, huff_node_34, huff_node_35, huff_node_36, huff_node_37, huff_node_38,
     huff_node_39]"

definition huff_nodes_40 :: "huff_tree list" where
  "huff_nodes_40 = [
     huff_node_40, huff_node_41, huff_node_42, huff_node_43, huff_node_44, huff_node_45, huff_node_46,
     huff_node_47]"

definition huff_nodes_48 :: "huff_tree list" where
  "huff_nodes_48 = [
     huff_node_48, huff_node_49, huff_node_50, huff_node_51, huff_node_52, huff_node_53, huff_node_54,
     huff_node_55]"

definition huff_nodes_56 :: "huff_tree list" where
  "huff_nodes_56 = [
     huff_node_56, huff_node_57, huff_node_58, huff_node_59, huff_node_60, huff_node_61, huff_node_62,
     huff_node_63]"

definition huff_nodes_64 :: "huff_tree list" where
  "huff_nodes_64 = [
     huff_node_64, huff_node_65, huff_node_66, huff_node_67, huff_node_68, huff_node_69, huff_node_70,
     huff_node_71]"

definition huff_nodes_72 :: "huff_tree list" where
  "huff_nodes_72 = [
     huff_node_72, huff_node_73, huff_node_74, huff_node_75, huff_node_76, huff_node_77, huff_node_78,
     huff_node_79]"

definition huff_nodes_80 :: "huff_tree list" where
  "huff_nodes_80 = [
     huff_node_80, huff_node_81, huff_node_82, huff_node_83, huff_node_84, huff_node_85, huff_node_86,
     huff_node_87]"

definition huff_nodes_88 :: "huff_tree list" where
  "huff_nodes_88 = [
     huff_node_88, huff_node_89, huff_node_90, huff_node_91, huff_node_92, huff_node_93, huff_node_94,
     huff_node_95]"

definition huff_nodes_96 :: "huff_tree list" where
  "huff_nodes_96 = [
     huff_node_96, huff_node_97, huff_node_98, huff_node_99, huff_node_100, huff_node_101, huff_node_102,
     huff_node_103]"

definition huff_nodes_104 :: "huff_tree list" where
  "huff_nodes_104 = [
     huff_node_104, huff_node_105, huff_node_106, huff_node_107, huff_node_108, huff_node_109, huff_node_110,
     huff_node_111]"

definition huff_nodes_112 :: "huff_tree list" where
  "huff_nodes_112 = [
     huff_node_112, huff_node_113, huff_node_114, huff_node_115, huff_node_116, huff_node_117, huff_node_118,
     huff_node_119]"

definition huff_nodes_120 :: "huff_tree list" where
  "huff_nodes_120 = [
     huff_node_120, huff_node_121, huff_node_122, huff_node_123, huff_node_124, huff_node_125, huff_node_126,
     huff_node_127]"

definition huff_nodes_128 :: "huff_tree list" where
  "huff_nodes_128 = [
     huff_node_128, huff_node_129, huff_node_130, huff_node_131, huff_node_132, huff_node_133, huff_node_134,
     huff_node_135]"

definition huff_nodes_136 :: "huff_tree list" where
  "huff_nodes_136 = [
     huff_node_136, huff_node_137, huff_node_138, huff_node_139, huff_node_140, huff_node_141, huff_node_142,
     huff_node_143]"

definition huff_nodes_144 :: "huff_tree list" where
  "huff_nodes_144 = [
     huff_node_144, huff_node_145, huff_node_146, huff_node_147, huff_node_148, huff_node_149, huff_node_150,
     huff_node_151]"

definition huff_nodes_152 :: "huff_tree list" where
  "huff_nodes_152 = [
     huff_node_152, huff_node_153, huff_node_154, huff_node_155, huff_node_156, huff_node_157, huff_node_158,
     huff_node_159]"

definition huff_nodes_160 :: "huff_tree list" where
  "huff_nodes_160 = [
     huff_node_160, huff_node_161, huff_node_162, huff_node_163, huff_node_164, huff_node_165, huff_node_166,
     huff_node_167]"

definition huff_nodes_168 :: "huff_tree list" where
  "huff_nodes_168 = [
     huff_node_168, huff_node_169, huff_node_170, huff_node_171, huff_node_172, huff_node_173, huff_node_174,
     huff_node_175]"

definition huff_nodes_176 :: "huff_tree list" where
  "huff_nodes_176 = [
     huff_node_176, huff_node_177, huff_node_178, huff_node_179, huff_node_180, huff_node_181, huff_node_182,
     huff_node_183]"

definition huff_nodes_184 :: "huff_tree list" where
  "huff_nodes_184 = [
     huff_node_184, huff_node_185, huff_node_186, huff_node_187, huff_node_188, huff_node_189, huff_node_190,
     huff_node_191]"

definition huff_nodes_192 :: "huff_tree list" where
  "huff_nodes_192 = [
     huff_node_192, huff_node_193, huff_node_194, huff_node_195, huff_node_196, huff_node_197, huff_node_198,
     huff_node_199]"

definition huff_nodes_200 :: "huff_tree list" where
  "huff_nodes_200 = [
     huff_node_200, huff_node_201, huff_node_202, huff_node_203, huff_node_204, huff_node_205, huff_node_206,
     huff_node_207]"

definition huff_nodes_208 :: "huff_tree list" where
  "huff_nodes_208 = [
     huff_node_208, huff_node_209, huff_node_210, huff_node_211, huff_node_212, huff_node_213, huff_node_214,
     huff_node_215]"

definition huff_nodes_216 :: "huff_tree list" where
  "huff_nodes_216 = [
     huff_node_216, huff_node_217, huff_node_218, huff_node_219, huff_node_220, huff_node_221, huff_node_222,
     huff_node_223]"

definition huff_nodes_224 :: "huff_tree list" where
  "huff_nodes_224 = [
     huff_node_224, huff_node_225, huff_node_226, huff_node_227, huff_node_228, huff_node_229, huff_node_230,
     huff_node_231]"

definition huff_nodes_232 :: "huff_tree list" where
  "huff_nodes_232 = [
     huff_node_232, huff_node_233, huff_node_234, huff_node_235, huff_node_236, huff_node_237, huff_node_238,
     huff_node_239]"

definition huff_nodes_240 :: "huff_tree list" where
  "huff_nodes_240 = [
     huff_node_240, huff_node_241, huff_node_242, huff_node_243, huff_node_244, huff_node_245, huff_node_246,
     huff_node_247]"

definition huff_nodes_248 :: "huff_tree list" where
  "huff_nodes_248 = [
     huff_node_248, huff_node_249, huff_node_250, huff_node_251, huff_node_252, huff_node_253, huff_node_254,
     huff_node_255]"

definition huff_nodes :: "huff_tree list" where
  "huff_nodes =
     huff_nodes_0 @ huff_nodes_8 @ huff_nodes_16 @ huff_nodes_24 @ huff_nodes_32 @ huff_nodes_40 @
     huff_nodes_48 @ huff_nodes_56 @ huff_nodes_64 @ huff_nodes_72 @ huff_nodes_80 @ huff_nodes_88 @
     huff_nodes_96 @ huff_nodes_104 @ huff_nodes_112 @ huff_nodes_120 @ huff_nodes_128 @ huff_nodes_136 @
     huff_nodes_144 @ huff_nodes_152 @ huff_nodes_160 @ huff_nodes_168 @ huff_nodes_176 @ huff_nodes_184 @
     huff_nodes_192 @ huff_nodes_200 @ huff_nodes_208 @ huff_nodes_216 @ huff_nodes_224 @ huff_nodes_232 @
     huff_nodes_240 @ huff_nodes_248"

lemmas huff_node_defs =
  huff_node_0_def huff_node_1_def huff_node_2_def huff_node_3_def huff_node_4_def huff_node_5_def
  huff_node_6_def huff_node_7_def huff_node_8_def huff_node_9_def huff_node_10_def huff_node_11_def
  huff_node_12_def huff_node_13_def huff_node_14_def huff_node_15_def huff_node_16_def huff_node_17_def
  huff_node_18_def huff_node_19_def huff_node_20_def huff_node_21_def huff_node_22_def huff_node_23_def
  huff_node_24_def huff_node_25_def huff_node_26_def huff_node_27_def huff_node_28_def huff_node_29_def
  huff_node_30_def huff_node_31_def huff_node_32_def huff_node_33_def huff_node_34_def huff_node_35_def
  huff_node_36_def huff_node_37_def huff_node_38_def huff_node_39_def huff_node_40_def huff_node_41_def
  huff_node_42_def huff_node_43_def huff_node_44_def huff_node_45_def huff_node_46_def huff_node_47_def
  huff_node_48_def huff_node_49_def huff_node_50_def huff_node_51_def huff_node_52_def huff_node_53_def
  huff_node_54_def huff_node_55_def huff_node_56_def huff_node_57_def huff_node_58_def huff_node_59_def
  huff_node_60_def huff_node_61_def huff_node_62_def huff_node_63_def huff_node_64_def huff_node_65_def
  huff_node_66_def huff_node_67_def huff_node_68_def huff_node_69_def huff_node_70_def huff_node_71_def
  huff_node_72_def huff_node_73_def huff_node_74_def huff_node_75_def huff_node_76_def huff_node_77_def
  huff_node_78_def huff_node_79_def huff_node_80_def huff_node_81_def huff_node_82_def huff_node_83_def
  huff_node_84_def huff_node_85_def huff_node_86_def huff_node_87_def huff_node_88_def huff_node_89_def
  huff_node_90_def huff_node_91_def huff_node_92_def huff_node_93_def huff_node_94_def huff_node_95_def
  huff_node_96_def huff_node_97_def huff_node_98_def huff_node_99_def huff_node_100_def huff_node_101_def
  huff_node_102_def huff_node_103_def huff_node_104_def huff_node_105_def huff_node_106_def huff_node_107_def
  huff_node_108_def huff_node_109_def huff_node_110_def huff_node_111_def huff_node_112_def huff_node_113_def
  huff_node_114_def huff_node_115_def huff_node_116_def huff_node_117_def huff_node_118_def huff_node_119_def
  huff_node_120_def huff_node_121_def huff_node_122_def huff_node_123_def huff_node_124_def huff_node_125_def
  huff_node_126_def huff_node_127_def huff_node_128_def huff_node_129_def huff_node_130_def huff_node_131_def
  huff_node_132_def huff_node_133_def huff_node_134_def huff_node_135_def huff_node_136_def huff_node_137_def
  huff_node_138_def huff_node_139_def huff_node_140_def huff_node_141_def huff_node_142_def huff_node_143_def
  huff_node_144_def huff_node_145_def huff_node_146_def huff_node_147_def huff_node_148_def huff_node_149_def
  huff_node_150_def huff_node_151_def huff_node_152_def huff_node_153_def huff_node_154_def huff_node_155_def
  huff_node_156_def huff_node_157_def huff_node_158_def huff_node_159_def huff_node_160_def huff_node_161_def
  huff_node_162_def huff_node_163_def huff_node_164_def huff_node_165_def huff_node_166_def huff_node_167_def
  huff_node_168_def huff_node_169_def huff_node_170_def huff_node_171_def huff_node_172_def huff_node_173_def
  huff_node_174_def huff_node_175_def huff_node_176_def huff_node_177_def huff_node_178_def huff_node_179_def
  huff_node_180_def huff_node_181_def huff_node_182_def huff_node_183_def huff_node_184_def huff_node_185_def
  huff_node_186_def huff_node_187_def huff_node_188_def huff_node_189_def huff_node_190_def huff_node_191_def
  huff_node_192_def huff_node_193_def huff_node_194_def huff_node_195_def huff_node_196_def huff_node_197_def
  huff_node_198_def huff_node_199_def huff_node_200_def huff_node_201_def huff_node_202_def huff_node_203_def
  huff_node_204_def huff_node_205_def huff_node_206_def huff_node_207_def huff_node_208_def huff_node_209_def
  huff_node_210_def huff_node_211_def huff_node_212_def huff_node_213_def huff_node_214_def huff_node_215_def
  huff_node_216_def huff_node_217_def huff_node_218_def huff_node_219_def huff_node_220_def huff_node_221_def
  huff_node_222_def huff_node_223_def huff_node_224_def huff_node_225_def huff_node_226_def huff_node_227_def
  huff_node_228_def huff_node_229_def huff_node_230_def huff_node_231_def huff_node_232_def huff_node_233_def
  huff_node_234_def huff_node_235_def huff_node_236_def huff_node_237_def huff_node_238_def huff_node_239_def
  huff_node_240_def huff_node_241_def huff_node_242_def huff_node_243_def huff_node_244_def huff_node_245_def
  huff_node_246_def huff_node_247_def huff_node_248_def huff_node_249_def huff_node_250_def huff_node_251_def
  huff_node_252_def huff_node_253_def huff_node_254_def huff_node_255_def

lemmas huff_decode_rows_defs =
  huff_decode_rows_0_def huff_decode_rows_8_def huff_decode_rows_16_def huff_decode_rows_24_def
  huff_decode_rows_32_def huff_decode_rows_40_def huff_decode_rows_48_def huff_decode_rows_56_def
  huff_decode_rows_64_def huff_decode_rows_72_def huff_decode_rows_80_def huff_decode_rows_88_def
  huff_decode_rows_96_def huff_decode_rows_104_def huff_decode_rows_112_def huff_decode_rows_120_def
  huff_decode_rows_128_def huff_decode_rows_136_def huff_decode_rows_144_def huff_decode_rows_152_def
  huff_decode_rows_160_def huff_decode_rows_168_def huff_decode_rows_176_def huff_decode_rows_184_def
  huff_decode_rows_192_def huff_decode_rows_200_def huff_decode_rows_208_def huff_decode_rows_216_def
  huff_decode_rows_224_def huff_decode_rows_232_def huff_decode_rows_240_def huff_decode_rows_248_def

lemmas huff_nodes_defs =
  huff_nodes_0_def huff_nodes_8_def huff_nodes_16_def huff_nodes_24_def huff_nodes_32_def huff_nodes_40_def
  huff_nodes_48_def huff_nodes_56_def huff_nodes_64_def huff_nodes_72_def huff_nodes_80_def huff_nodes_88_def
  huff_nodes_96_def huff_nodes_104_def huff_nodes_112_def huff_nodes_120_def huff_nodes_128_def
  huff_nodes_136_def huff_nodes_144_def huff_nodes_152_def huff_nodes_160_def huff_nodes_168_def
  huff_nodes_176_def huff_nodes_184_def huff_nodes_192_def huff_nodes_200_def huff_nodes_208_def
  huff_nodes_216_def huff_nodes_224_def huff_nodes_232_def huff_nodes_240_def huff_nodes_248_def

end
