(* ===== verification/Huffman_Tree.thy ===== *)
theory Huffman_Tree
  imports Huffman_Data
begin

unbundle bit_operations_syntax

text \<open>
  The code tree as the common reference of the two tables of \<^verbatim>\<open>lib/nghttp2_hd_huffman_data.c\<close>: every code of
  \<^verbatim>\<open>huff_sym_table\<close> leads from the root to the leaf of its symbol and to no other, and \<^verbatim>\<open>huff_decode_table\<close>
  is the tree walked four bits at a time.  The checks evaluate both tables entry by entry, one node at
  a time.
\<close>

section \<open>Walking the tree\<close>

definition byte_bits :: "u8 \<Rightarrow> bool list" where
  "byte_bits b = map (bit b) [7, 6, 5, 4, 3, 2, 1, 0]"

definition nibble_bits :: "u8 \<Rightarrow> bool list" where
  "nibble_bits b = map (bit b) [3, 2, 1, 0]"

fun code_bits :: "nat \<Rightarrow> u32 \<Rightarrow> bool list" where
  "code_bits 0 c = []"
| "code_bits (Suc n) c = bit c n # code_bits n c"

definition sym_bits :: "nghttp2_huff_sym \<Rightarrow> bool list" where
  "sym_bits hs = code_bits (unat (hs_nbits hs)) (hs_code hs)"

definition huff_bits :: "u8 list \<Rightarrow> bool list" where
  "huff_bits src = concat (map (\<lambda>b. sym_bits (huff_sym_table ! unat b)) src)"

fun node_id :: "huff_tree \<Rightarrow> u8" where
  "node_id (Huff_node i a l r) = i"
| "node_id _ = 0"

fun node_accept :: "huff_tree \<Rightarrow> bool" where
  "node_accept (Huff_node i a l r) = a"
| "node_accept _ = False"

text \<open>
  Walking bits from a node, restarting at the root after each leaf: the symbols met and the node where
  the bits end; \<open>None\<close> if the end-of-string leaf is met.
\<close>

fun tree_decode :: "huff_tree \<Rightarrow> bool list \<Rightarrow> (u8 list \<times> huff_tree) option"
and tree_branch :: "huff_tree \<Rightarrow> bool list \<Rightarrow> (u8 list \<times> huff_tree) option" where
  "tree_decode t [] = Some ([], t)"
| "tree_decode (Huff_node i a l r) (b # bs) = tree_branch (if b then r else l) bs"
| "tree_decode _ (b # bs) = None"
| "tree_branch Huff_eos bs = None"
| "tree_branch (Huff_leaf s) bs = map_option (apfst ((#) s)) (tree_decode huff_node_0 bs)"
| "tree_branch (Huff_node i a l r) bs = tree_decode (Huff_node i a l r) bs"

fun tree_entry :: "(u8 list \<times> huff_tree) option \<Rightarrow> nghttp2_huff_decode" where
  "tree_entry (Some ([], u)) = Huff_dec (node_id u) (if node_accept u then 1 else 0) 0"
| "tree_entry (Some ([s], u)) = Huff_dec (node_id u) (if node_accept u then 3 else 2) s"
| "tree_entry _ = Huff_dec 0 4 0"

definition nibbles :: "bool list list" where
  "nibbles = List.product_lists [[False, True], [False, True], [False, True], [False, True]]"

definition tree_row :: "huff_tree \<Rightarrow> nghttp2_huff_decode list" where
  "tree_row t = map (\<lambda>bs. tree_entry (tree_decode t bs)) nibbles"

fun tree_nodes :: "huff_tree \<Rightarrow> huff_tree list \<Rightarrow> huff_tree list" where
  "tree_nodes (Huff_node i a l r) acc = Huff_node i a l r # tree_nodes l (tree_nodes r acc)"
| "tree_nodes _ acc = acc"

text \<open>No leaf within \<open>k\<close> bits; every leaf is at the code of its symbol; a node accepts after at most \<open>k - 1\<close> ones.\<close>

fun no_leaf :: "nat \<Rightarrow> huff_tree \<Rightarrow> bool" where
  "no_leaf k (Huff_node i a l r) = (case k of 0 \<Rightarrow> True | Suc n \<Rightarrow> no_leaf n l \<and> no_leaf n r)"
| "no_leaf k _ = False"

fun leaf_codes :: "bool list \<Rightarrow> huff_tree \<Rightarrow> bool" where
  "leaf_codes p (Huff_node i a l r) \<longleftrightarrow> leaf_codes (False # p) l \<and> leaf_codes (True # p) r"
| "leaf_codes p (Huff_leaf s) \<longleftrightarrow> rev p = sym_bits (huff_sym_table ! unat s)"
| "leaf_codes p Huff_eos \<longleftrightarrow> rev p = sym_bits (huff_sym_table ! 256)"

fun accept_ones :: "nat \<Rightarrow> huff_tree \<Rightarrow> bool" where
  "accept_ones k (Huff_node i a l r) \<longleftrightarrow> a = (0 < k) \<and> accept_ones 0 l \<and> accept_ones (k - 1) r"
| "accept_ones k _ \<longleftrightarrow> True"

subsection \<open>Unfolding one node at a time\<close>

lemma node_unfold:
  assumes "t = Huff_node i a l r"
  shows "tree_decode t (False # bs) = tree_branch l bs" "tree_decode t (True # bs) = tree_branch r bs"
    "tree_branch t bs = tree_decode t bs" "node_id t = i" "node_accept t = a"
    "tree_nodes t acc = t # tree_nodes l (tree_nodes r acc)"
    "no_leaf 0 t = True" "no_leaf (Suc k) t = (no_leaf k l \<and> no_leaf k r)"
    "leaf_codes p t = (leaf_codes (False # p) l \<and> leaf_codes (True # p) r)"
    "accept_ones k t = (a = (0 < k) \<and> accept_ones 0 l \<and> accept_ones (k - 1) r)"
  by (simp_all add: assms)

lemmas decode_rules = huff_node_defs [THEN node_unfold(1)] huff_node_defs [THEN node_unfold(2)]
  huff_node_defs [THEN node_unfold(3)] tree_branch.simps(1,2) tree_decode.simps(1)

lemmas node_rules = huff_node_defs [THEN node_unfold(4)] huff_node_defs [THEN node_unfold(5)]

lemma nibbles_eq: "nibbles =
  [[False, False, False, False], [False, False, False, True], [False, False, True, False], [False, False, True, True],
   [False, True, False, False], [False, True, False, True], [False, True, True, False], [False, True, True, True],
   [True, False, False, False], [True, False, False, True], [True, False, True, False], [True, False, True, True],
   [True, True, False, False], [True, True, False, True], [True, True, True, False], [True, True, True, True]]"
  by (simp add: nibbles_def)

lemmas row_eval = tree_row_def nibbles_eq list.map tree_entry.simps option.map apfst_conv if_True if_False
  decode_rules node_rules

text \<open>The decoding table is the tree walked four bits at a time, row by row.\<close>

lemma huff_decode_table_rows: "map tree_row huff_nodes = huff_decode_table"
  by (simp only: huff_nodes_def huff_decode_table_def map_append row_eval huff_decode_rows_defs huff_nodes_defs)

lemma huff_nodes_tree: "tree_nodes huff_node_0 [] = huff_nodes"
  by (simp only: huff_node_defs [THEN node_unfold(6)] tree_nodes.simps(2,3) huff_nodes_def huff_nodes_defs append.simps)

lemma huff_nodes_ids: "map node_id huff_nodes = map of_nat [0..<256]"
  unfolding upt_256 by (simp add: huff_nodes_def huff_nodes_defs node_rules)

lemma no_leaf_root: "no_leaf (Suc (Suc (Suc (Suc 0)))) huff_node_0"
  by (simp only: huff_node_defs [THEN node_unfold(7)] huff_node_defs [THEN node_unfold(8)] simp_thms)

lemma code_bits_numeral: "code_bits (numeral k) c = bit c (pred_numeral k) # code_bits (pred_numeral k) c"
  by (simp add: numeral_eq_Suc)

lemma accept_ones_root: "accept_ones 8 huff_node_0"
  by (simp add: huff_node_defs [THEN node_unfold(10)])

lemma leaf_codes_root: "leaf_codes [] huff_node_0"
  by (simp add: huff_node_defs [THEN node_unfold(9)] huff_sym_table_def sym_bits_def code_bits_numeral)

subsection \<open>Properties of walks\<close>

lemma append_section: "(@) [] = id" "(@) (x # xs) = (\<lambda>ys. x # xs @ ys)"
  "(@) (xs @ zs) = (\<lambda>ys. xs @ zs @ ys)"
  by (simp_all add: fun_eq_iff)

lemma tree_decode_append:
  "tree_decode t (xs @ ys) =
     (case tree_decode t xs of None \<Rightarrow> None
      | Some (out, u) \<Rightarrow> map_option (apfst ((@) out)) (tree_decode u ys))"
  "tree_branch t (xs @ ys) =
     (case tree_branch t xs of None \<Rightarrow> None
      | Some (out, u) \<Rightarrow> map_option (apfst ((@) out)) (tree_decode u ys))"
  by (induction t xs and t xs rule: tree_decode_tree_branch.induct)
     (auto simp: map_option.compositionality apfst_compose comp_def append_section option.map_id split: option.splits)

lemma tree_nodes_append: "tree_nodes t acc = tree_nodes t [] @ acc"
proof (induction t arbitrary: acc)
  case (Huff_node i a l r)
  show ?case using Huff_node.IH(1) [of "tree_nodes r acc"] Huff_node.IH(1) [of "tree_nodes r []"] Huff_node.IH(2) [of acc]
    by simp
qed simp_all

fun is_node :: "huff_tree \<Rightarrow> bool" where
  "is_node (Huff_node i a l r) = True"
| "is_node _ = False"

lemma tree_nodes_children:
  "Huff_node i a l r \<in> set (tree_nodes t []) \<Longrightarrow>
   (is_node l \<longrightarrow> l \<in> set (tree_nodes t [])) \<and> (is_node r \<longrightarrow> r \<in> set (tree_nodes t []))"
proof (induction t)
  case (Huff_node j b x y)
  have n: "tree_nodes (Huff_node j b x y) [] = Huff_node j b x y # tree_nodes x [] @ tree_nodes y []"
    using tree_nodes_append [of x "tree_nodes y []"] by simp
  have self: "is_node v \<Longrightarrow> v \<in> set (tree_nodes v [])" for v by (cases v) auto
  show ?case using Huff_node self [of x] self [of y] unfolding n by auto
qed simp_all

lemma huff_root_node: "huff_node_0 \<in> set huff_nodes"
  by (simp add: huff_nodes_def huff_nodes_0_def)

lemma huff_nodes_is_node: "t \<in> set huff_nodes \<Longrightarrow> is_node t"
proof -
  have "t \<in> set (tree_nodes v []) \<Longrightarrow> is_node t" for v
  proof (induction v)
    case (Huff_node j b x y)
    then show ?case using tree_nodes_append [of x "tree_nodes y []"] by auto
  qed simp_all
  then show "t \<in> set huff_nodes \<Longrightarrow> is_node t" using huff_nodes_tree by metis
qed

lemma huff_nodes_cases:
  assumes "t \<in> set huff_nodes"
  obtains i a l r where "t = Huff_node i a l r" "is_node l \<longrightarrow> l \<in> set huff_nodes" "is_node r \<longrightarrow> r \<in> set huff_nodes"
proof -
  obtain i a l r where t: "t = Huff_node i a l r" using huff_nodes_is_node [OF assms] by (cases t) auto
  then show thesis using that [OF t] tree_nodes_children [of i a l r huff_node_0] assms unfolding huff_nodes_tree by blast
qed

lemma tree_decode_closed:
  "t \<in> set huff_nodes \<Longrightarrow> tree_decode t bs = Some (out, u) \<Longrightarrow> u \<in> set huff_nodes"
proof (induction bs arbitrary: t out rule: length_induct)
  case (1 bs)
  show ?case
  proof (cases bs)
    case Nil
    then show ?thesis using 1 by simp
  next
    case (Cons b bs')
    obtain i a l r where t: "t = Huff_node i a l r" "is_node l \<longrightarrow> l \<in> set huff_nodes" "is_node r \<longrightarrow> r \<in> set huff_nodes"
      using huff_nodes_cases 1(2) by metis
    let ?c = "if b then r else l"
    have c: "is_node ?c \<longrightarrow> ?c \<in> set huff_nodes" using t by auto
    have br: "tree_branch ?c bs' = Some (out, u)" using 1(3) t(1) Cons by simp
    have ih: "\<And>v o'. v \<in> set huff_nodes \<Longrightarrow> tree_decode v bs' = Some (o', u) \<Longrightarrow> u \<in> set huff_nodes"
      using 1(1) Cons by (metis length_Cons lessI)
    show ?thesis
    proof (cases ?c)
      case Huff_eos
      then show ?thesis using br by simp
    next
      case (Huff_leaf s)
      then show ?thesis using br ih [OF huff_root_node] by auto
    next
      case (Huff_node j b x y)
      then have "tree_decode ?c bs' = Some (out, u)" "?c \<in> set huff_nodes" using br c by auto
      then show ?thesis using ih by blast
    qed
  qed
qed

lemma no_leaf_decode:
  "no_leaf k t \<Longrightarrow> length bs \<le> k \<Longrightarrow> \<exists>u. tree_decode t bs = Some ([], u)"
proof (induction bs arbitrary: k t)
  case (Cons b bs)
  then obtain n where k: "k = Suc n" by (cases k) auto
  obtain i a l r where t: "t = Huff_node i a l r" using Cons.prems(1) by (cases t) auto
  let ?c = "if b then r else l"
  have c: "no_leaf n ?c" using Cons.prems(1) k t by auto
  then obtain j d x y where "?c = Huff_node j d x y" by (cases ?c) auto
  then have "tree_decode t (b # bs) = tree_decode ?c bs" using t by simp
  then show ?case using Cons.IH [OF c] Cons.prems(2) k by simp
qed simp

text \<open>No code is shorter than five bits, so four bits complete at most one symbol.\<close>

lemma nibble_one_symbol:
  "length bs \<le> 4 \<Longrightarrow> tree_decode t bs = Some (out, u) \<Longrightarrow> length out \<le> 1"
proof (induction bs arbitrary: t)
  case (Cons b bs)
  obtain i a l r where t: "t = Huff_node i a l r" using Cons.prems(2) by (cases t) auto
  let ?c = "if b then r else l"
  have br: "tree_branch ?c bs = Some (out, u)" using Cons.prems(2) t by simp
  show ?case
  proof (cases ?c)
    case Huff_eos
    then show ?thesis using br by simp
  next
    case (Huff_leaf s)
    obtain v where "tree_decode huff_node_0 bs = Some ([], v)"
      using no_leaf_decode [OF no_leaf_root, of bs] Cons.prems(1) by auto
    then show ?thesis using br Huff_leaf by auto
  next
    case (Huff_node j d x y)
    then show ?thesis using br Cons.IH [of ?c] Cons.prems(1) by simp
  qed
qed simp

subsection \<open>The decoding table against the tree\<close>

lemma huff_table_lookup:
  assumes "t \<in> set huff_nodes"
  shows "huff_decode_table ! unat (node_id t) = tree_row t"
proof -
  obtain k where k: "k < length huff_nodes" "huff_nodes ! k = t" using assms by (auto simp: in_set_conv_nth)
  have len: "length huff_nodes = 256" using arg_cong [OF huff_nodes_ids, of length] by simp
  then have "node_id t = of_nat k" using k arg_cong [OF huff_nodes_ids, of "\<lambda>xs. xs ! k"] by simp
  then have "unat (node_id t) = k" using k len unat_of_nat_u8 by simp
  then show ?thesis using k arg_cong [OF huff_decode_table_rows, of "\<lambda>xs. xs ! k"] by simp
qed

lemma nibbles_nth:
  assumes "idx < (16 :: u8)"
  shows "nibbles ! unat idx = nibble_bits idx" "unat idx < length nibbles"
proof -
  have "list_all (\<lambda>k. nibbles ! k = nibble_bits (of_nat k)) [0..<16]"
    by (simp add: nibbles_eq nibble_bits_def upt_rec)
  moreover have u: "unat idx < 16" using assms by (simp add: word_less_nat_alt)
  ultimately show "nibbles ! unat idx = nibble_bits idx" by (auto simp: list_all_iff)
  show "unat idx < length nibbles" using u by (simp add: nibbles_eq)
qed

lemma byte_bits_nibbles: "byte_bits b = nibble_bits (drop_bit 4 b) @ nibble_bits (b AND 0xf)"
  by (simp add: byte_bits_def nibble_bits_def bit_simps)

lemma nibble_less: "drop_bit 4 b < (16 :: u8)" "b AND 0xf < (16 :: u8)"
proof -
  have "unat (drop_bit 4 b) = unat b div 16" by (simp add: drop_bit_eq_div unat_div)
  moreover have "unat b < 256" using unsigned_less [of b] by simp
  ultimately show "drop_bit 4 b < (16 :: u8)" by (simp add: word_less_nat_alt)
  have "b AND 0xf \<le> 0xf" by (rule word_and_le1)
  then show "b AND 0xf < (16 :: u8)" by (rule order_le_less_trans) simp
qed

definition bytes_bits :: "u8 list \<Rightarrow> bool list" where
  "bytes_bits bs = concat (map byte_bits bs)"

lemma bytes_bits_simps [simp]:
  "bytes_bits [] = []" "bytes_bits (b # bs) = byte_bits b @ bytes_bits bs"
  "bytes_bits (xs @ ys) = bytes_bits xs @ bytes_bits ys"
  by (simp_all add: bytes_bits_def)

lemma tree_decode_length: "tree_decode t (bytes_bits src) = Some (out, u) \<Longrightarrow> length out \<le> 2 * length src"
proof (induction src arbitrary: t out)
  case (Cons b src)
  let ?hi = "nibble_bits (drop_bit 4 b)" and ?lo = "nibble_bits (b AND 0xf)"
  have split: "bytes_bits (b # src) = ?hi @ ?lo @ bytes_bits src" by (simp add: byte_bits_nibbles)
  obtain o1 u1 o2 u2 o3 where o: "tree_decode t ?hi = Some (o1, u1)" "tree_decode u1 ?lo = Some (o2, u2)"
    "tree_decode u2 (bytes_bits src) = Some (o3, u)" "out = o1 @ o2 @ o3"
    using Cons.prems unfolding split by (auto simp: tree_decode_append split: option.splits)
  have "length o1 \<le> 1" "length o2 \<le> 1"
    using nibble_one_symbol [OF _ o(1)] nibble_one_symbol [OF _ o(2)] by (simp_all add: nibble_bits_def)
  then show ?case using Cons.IH [OF o(3)] o(4) by simp
qed simp

subsection \<open>The code of a string\<close>

lemma huff_codes_decode_table:
  "map (\<lambda>hs. tree_decode huff_node_0 (sym_bits hs)) (take 256 huff_sym_table) =
   map (\<lambda>k. Some ([of_nat k], huff_node_0)) [0..<256]"
  unfolding upt_256 by (simp add: huff_sym_table_def sym_bits_def code_bits_numeral decode_rules)

lemma huff_code_decode: "tree_decode huff_node_0 (sym_bits (huff_sym_table ! unat b)) = Some ([b], huff_node_0)"
proof -
  have b: "unat b < 256" using unsigned_less [of b] by simp
  have len: "length huff_sym_table = 257" by (simp add: huff_sym_table_def)
  show ?thesis using arg_cong [OF huff_codes_decode_table, of "\<lambda>xs. xs ! unat b"] b len by simp
qed

lemma huff_ones_decode:
  "k < 8 \<Longrightarrow> \<exists>u. tree_decode huff_node_0 (replicate k True) = Some ([], u) \<and> node_accept u"
proof -
  have "list_all (\<lambda>k. \<exists>u. tree_decode huff_node_0 (replicate k True) = Some ([], u) \<and> node_accept u) [0..<8]"
    by (simp add: upt_rec numeral_eq_Suc decode_rules node_rules)
  then show "k < 8 \<Longrightarrow> ?thesis" by (simp add: list_all_iff)
qed

lemma huff_bits_decode:
  "tree_decode huff_node_0 (huff_bits src @ p) = map_option (apfst ((@) src)) (tree_decode huff_node_0 p)"
proof (induction src)
  case Nil
  then show ?case by (cases "tree_decode huff_node_0 p") (auto simp: huff_bits_def)
next
  case (Cons b src)
  have "huff_bits (b # src) @ p = sym_bits (huff_sym_table ! unat b) @ huff_bits src @ p" by (simp add: huff_bits_def)
  then show ?case
    by (simp add: tree_decode_append(1) [of _ "sym_bits (huff_sym_table ! unat b)"] huff_code_decode Cons
        map_option.compositionality apfst_compose comp_def append_section)
qed

definition ones_left :: "bool list \<Rightarrow> nat" where
  "ones_left p = (if list_all id p then 8 - length p else 0)"

definition node_at :: "bool list \<Rightarrow> huff_tree \<Rightarrow> bool" where
  "node_at p t \<longleftrightarrow> leaf_codes (rev p) t \<and> accept_ones (ones_left p) t"

lemma node_at_root: "node_at [] huff_node_0"
  using leaf_codes_root accept_ones_root by (simp add: node_at_def ones_left_def)

lemma node_at_child: "node_at p (Huff_node i a l r) \<Longrightarrow> node_at (p @ [b]) (if b then r else l)"
  by (auto simp: node_at_def ones_left_def split: if_splits)

lemma tree_decode_sound:
  "node_at p t \<Longrightarrow> tree_decode t bs = Some (out, u) \<Longrightarrow> \<exists>q. p @ bs = huff_bits out @ q \<and> node_at q u"
proof (induction bs arbitrary: p t out rule: length_induct)
  case (1 bs)
  show ?case
  proof (cases bs)
    case Nil
    then show ?thesis using 1 by (simp add: huff_bits_def)
  next
    case (Cons b bs')
    obtain i a l r where t: "t = Huff_node i a l r" using 1(3) Cons by (cases t) auto
    let ?c = "if b then r else l"
    have c: "node_at (p @ [b]) ?c" using node_at_child 1(2) t by blast
    have br: "tree_branch ?c bs' = Some (out, u)" using 1(3) t Cons by simp
    have ih: "\<And>p v o'. node_at p v \<Longrightarrow> tree_decode v bs' = Some (o', u) \<Longrightarrow> \<exists>q. p @ bs' = huff_bits o' @ q \<and> node_at q u"
      using 1(1) Cons by (metis length_Cons lessI)
    show ?thesis
    proof (cases ?c)
      case Huff_eos
      then show ?thesis using br by simp
    next
      case (Huff_leaf s)
      then obtain o' where o': "tree_decode huff_node_0 bs' = Some (o', u)" "out = s # o'" using br by auto
      obtain q where q: "bs' = huff_bits o' @ q" "node_at q u" using ih [OF node_at_root o'(1)] by auto
      have "p @ [b] = sym_bits (huff_sym_table ! unat s)" using c Huff_leaf by (simp add: node_at_def)
      then have "p @ bs = sym_bits (huff_sym_table ! unat s) @ bs'" using Cons by (metis append.assoc append_Cons append_Nil)
      then show ?thesis using q o'(2) by (auto simp: huff_bits_def)
    next
      case (Huff_node j d x y)
      then have "tree_decode ?c bs' = Some (out, u)" using br by simp
      then show ?thesis using ih [OF c] Cons by simp
    qed
  qed
qed

lemma node_at_accept:
  "node_at q u \<Longrightarrow> node_accept u \<Longrightarrow> \<exists>k < 8. q = replicate k True"
proof -
  assume "node_at q u" "node_accept u"
  then have "0 < ones_left q" by (cases u) (auto simp: node_at_def)
  then have "list_all id q" "length q < 8" by (auto simp: ones_left_def split: if_splits)
  moreover have "list_all id q \<Longrightarrow> q = replicate (length q) True" by (induction q) auto
  ultimately show ?thesis by blast
qed

lemma tree_accepts_iff:
  "(\<exists>u. tree_decode huff_node_0 bs = Some (out, u) \<and> node_accept u) \<longleftrightarrow>
   (\<exists>k < 8. bs = huff_bits out @ replicate k True)"
proof
  assume "\<exists>u. tree_decode huff_node_0 bs = Some (out, u) \<and> node_accept u"
  then show "\<exists>k < 8. bs = huff_bits out @ replicate k True"
    using tree_decode_sound [OF node_at_root] node_at_accept by (metis append_Nil)
next
  assume "\<exists>k < 8. bs = huff_bits out @ replicate k True"
  then show "\<exists>u. tree_decode huff_node_0 bs = Some (out, u) \<and> node_accept u"
    using huff_bits_decode huff_ones_decode by fastforce
qed

end
