(* ===== verification/Buf.thy ===== *)
theory Buf
  imports Nghttp2_Prelude
begin

unbundle bit_operations_syntax

text \<open>
  \<^verbatim>\<open>lib/nghttp2_buf.c\<close> and \<^verbatim>\<open>lib/nghttp2_buf.h\<close>: single buffers and chains of buffers.

  A \<^verbatim>\<open>nghttp2_buf\<close> is the bytes of its memory \<^verbatim>\<open>[begin, end)\<close> with \<^verbatim>\<open>pos\<close>, \<^verbatim>\<open>last\<close> and \<^verbatim>\<open>mark\<close> as offsets from
  \<^verbatim>\<open>begin\<close>.  The chain of a \<^verbatim>\<open>nghttp2_bufs\<close> is the list of the buffers its \<^verbatim>\<open>next\<close> pointers link, \<^verbatim>\<open>cur\<close> a
  position in it; the state of the allocator the structure points to is a field.  A store past the
  end of a buffer leaves the list of bytes as it is but still moves \<^verbatim>\<open>last\<close>, so that the invariant
  \<^verbatim>\<open>last <= end\<close> is what excludes it.
\<close>

section \<open>A single buffer\<close>

record nghttp2_buf =
  buf_data :: "u8 list"
  buf_pos :: nat
  buf_last :: nat
  buf_mark :: nat

definition nghttp2_buf_len :: "nghttp2_buf \<Rightarrow> nat" where
  "nghttp2_buf_len buf = buf_last buf - buf_pos buf"

definition nghttp2_buf_cap :: "nghttp2_buf \<Rightarrow> nat" where
  "nghttp2_buf_cap buf = length (buf_data buf)"

text \<open>\<^verbatim>\<open>nghttp2_buf_avail\<close> is a difference of pointers as a 64-bit \<^verbatim>\<open>size_t\<close>: it wraps around if \<^verbatim>\<open>last\<close> is past \<^verbatim>\<open>end\<close>.\<close>

definition nghttp2_buf_avail :: "nghttp2_buf \<Rightarrow> nat" where
  "nghttp2_buf_avail buf =
     (if buf_last buf \<le> length (buf_data buf) then length (buf_data buf) - buf_last buf
      else 2 ^ 64 - (buf_last buf - length (buf_data buf)))"

definition nghttp2_buf_mark_avail :: "nghttp2_buf \<Rightarrow> nat" where
  "nghttp2_buf_mark_avail buf = buf_mark buf - buf_last buf"

definition nghttp2_buf_shift_right :: "nghttp2_buf \<Rightarrow> nat \<Rightarrow> nghttp2_buf" where
  "nghttp2_buf_shift_right buf amt = buf\<lparr>buf_pos := buf_pos buf + amt, buf_last := buf_last buf + amt\<rparr>"

definition nghttp2_buf_shift_left :: "nghttp2_buf \<Rightarrow> nat \<Rightarrow> nghttp2_buf" where
  "nghttp2_buf_shift_left buf amt = buf\<lparr>buf_pos := buf_pos buf - amt, buf_last := buf_last buf - amt\<rparr>"

definition nghttp2_buf_init :: nghttp2_buf where
  "nghttp2_buf_init = \<lparr>buf_data = [], buf_pos = 0, buf_last = 0, buf_mark = 0\<rparr>"

definition nghttp2_buf_reserve ::
  "nghttp2_mem \<Rightarrow> nghttp2_buf \<Rightarrow> nat \<Rightarrow> (nghttp2_error + unit) \<times> nghttp2_buf \<times> nghttp2_mem" where
  "nghttp2_buf_reserve mem buf new_cap =
     (let cap = nghttp2_buf_cap buf in
      if cap \<ge> new_cap then (Inr (), buf, mem)
      else
        let new_cap = max new_cap (cap * 2); (ok, mem1) = mem_call mem in
        if \<not> ok then (Inl ERR_NOMEM, buf, mem1)
        else (Inr (), buf\<lparr>buf_data := buf_data buf @ mem_fresh mem (new_cap - cap)\<rparr>, mem1))"

definition nghttp2_buf_init2 ::
  "nghttp2_mem \<Rightarrow> nat \<Rightarrow> (nghttp2_error + unit) \<times> nghttp2_buf \<times> nghttp2_mem" where
  "nghttp2_buf_init2 mem initial = nghttp2_buf_reserve mem nghttp2_buf_init initial"

definition nghttp2_buf_reset :: "nghttp2_buf \<Rightarrow> nghttp2_buf" where
  "nghttp2_buf_reset buf = buf\<lparr>buf_pos := 0, buf_last := 0, buf_mark := 0\<rparr>"

definition nghttp2_buf_wrap_init :: "u8 list \<Rightarrow> nghttp2_buf" where
  "nghttp2_buf_wrap_init mem_range = \<lparr>buf_data = mem_range, buf_pos = 0, buf_last = 0, buf_mark = 0\<rparr>"

text \<open>\<^verbatim>\<open>memcpy\<close> of \<open>bs\<close> to offset \<open>at\<close>, and \<^verbatim>\<open>buf->last = nghttp2_cpymem(buf->last, p, n)\<close>.\<close>

fun write_bytes :: "u8 list \<Rightarrow> nat \<Rightarrow> u8 list \<Rightarrow> u8 list" where
  "write_bytes d at [] = d"
| "write_bytes d at (b # bs) = write_bytes (d[at := b]) (Suc at) bs"

definition buf_cpymem :: "nghttp2_buf \<Rightarrow> u8 list \<Rightarrow> nghttp2_buf" where
  "buf_cpymem buf bs =
     buf\<lparr>buf_data := write_bytes (buf_data buf) (buf_last buf) bs, buf_last := buf_last buf + length bs\<rparr>"

text \<open>The bytes between \<^verbatim>\<open>pos\<close> and \<^verbatim>\<open>last\<close>.\<close>

definition buf_bytes :: "nghttp2_buf \<Rightarrow> u8 list" where
  "buf_bytes buf = take (nghttp2_buf_len buf) (drop (buf_pos buf) (buf_data buf))"

section \<open>Chains of buffers\<close>

record nghttp2_bufs =
  bufs_chain :: "nghttp2_buf list"
  bufs_cur :: nat
  bufs_mem :: nghttp2_mem
  chunk_length :: nat
  max_chunk :: nat
  chunk_used :: nat
  chunk_keep :: nat
  bufs_offset :: nat

abbreviation cur_buf :: "nghttp2_bufs \<Rightarrow> nghttp2_buf" where
  "cur_buf bufs \<equiv> bufs_chain bufs ! bufs_cur bufs"

definition set_cur_buf :: "nghttp2_bufs \<Rightarrow> nghttp2_buf \<Rightarrow> nghttp2_bufs" where
  "set_cur_buf bufs buf = bufs\<lparr>bufs_chain := (bufs_chain bufs)[bufs_cur bufs := buf]\<rparr>"

definition buf_chain_new :: "nghttp2_mem \<Rightarrow> nat \<Rightarrow> (nghttp2_error + nghttp2_buf) \<times> nghttp2_mem" where
  "buf_chain_new mem clen =
     (let (ok, mem1) = mem_call mem in
      if \<not> ok then (Inl ERR_NOMEM, mem1)
      else
        case nghttp2_buf_init2 mem1 clen of
          (Inl _, _, mem2) \<Rightarrow> (Inl ERR_NOMEM, mem2)
        | (Inr _, buf, mem2) \<Rightarrow> (Inr buf, mem2))"

definition nghttp2_bufs_init3 ::
  "nghttp2_mem \<Rightarrow> nat \<Rightarrow> nat \<Rightarrow> nat \<Rightarrow> nat \<Rightarrow> (nghttp2_error + nghttp2_bufs) \<times> nghttp2_mem" where
  "nghttp2_bufs_init3 mem clen mx keep off =
     (if keep = 0 \<or> mx < keep \<or> clen < off then (Inl ERR_INVALID_ARGUMENT, mem)
      else
        case buf_chain_new mem clen of
          (Inl e, mem1) \<Rightarrow> (Inl e, mem1)
        | (Inr buf, mem1) \<Rightarrow>
            (Inr \<lparr>bufs_chain = [nghttp2_buf_shift_right buf off], bufs_cur = 0, bufs_mem = mem1,
                  chunk_length = clen, max_chunk = mx, chunk_used = 1, chunk_keep = keep, bufs_offset = off\<rparr>,
             mem1))"

definition nghttp2_bufs_init2 ::
  "nghttp2_mem \<Rightarrow> nat \<Rightarrow> nat \<Rightarrow> nat \<Rightarrow> (nghttp2_error + nghttp2_bufs) \<times> nghttp2_mem" where
  "nghttp2_bufs_init2 mem clen mx off = nghttp2_bufs_init3 mem clen mx mx off"

definition nghttp2_bufs_init ::
  "nghttp2_mem \<Rightarrow> nat \<Rightarrow> nat \<Rightarrow> (nghttp2_error + nghttp2_bufs) \<times> nghttp2_mem" where
  "nghttp2_bufs_init mem clen mx = nghttp2_bufs_init2 mem clen mx 0"

definition nghttp2_bufs_realloc :: "nghttp2_bufs \<Rightarrow> nat \<Rightarrow> (nghttp2_error + unit) \<times> nghttp2_bufs" where
  "nghttp2_bufs_realloc bufs clen =
     (if clen < bufs_offset bufs then (Inl ERR_INVALID_ARGUMENT, bufs)
      else
        case buf_chain_new (bufs_mem bufs) clen of
          (Inl e, mem1) \<Rightarrow> (Inl e, bufs\<lparr>bufs_mem := mem1\<rparr>)
        | (Inr buf, mem1) \<Rightarrow>
            (Inr (), bufs\<lparr>bufs_mem := mem1, bufs_chain := [nghttp2_buf_shift_right buf (bufs_offset bufs)],
                          bufs_cur := 0, chunk_length := clen, chunk_used := 1\<rparr>))"

definition nghttp2_bufs_wrap_init :: "nghttp2_mem \<Rightarrow> u8 list \<Rightarrow> (nghttp2_error + nghttp2_bufs) \<times> nghttp2_mem"
  where
  "nghttp2_bufs_wrap_init mem mem_range =
     (let (ok, mem1) = mem_call mem in
      if \<not> ok then (Inl ERR_NOMEM, mem1)
      else
        (Inr \<lparr>bufs_chain = [nghttp2_buf_wrap_init mem_range], bufs_cur = 0, bufs_mem = mem1,
              chunk_length = length mem_range, max_chunk = 1, chunk_used = 1, chunk_keep = 1, bufs_offset = 0\<rparr>,
         mem1))"

definition nghttp2_bufs_wrap_init2 ::
  "nghttp2_mem \<Rightarrow> u8 list list \<Rightarrow> (nghttp2_error + nghttp2_bufs) \<times> nghttp2_mem" where
  "nghttp2_bufs_wrap_init2 mem vec =
     (let veclen = length vec in
      if veclen = 0 then nghttp2_bufs_wrap_init mem []
      else
        let (ok, mem1) = mem_call mem in
        if \<not> ok then (Inl ERR_NOMEM, mem1)
        else
          (Inr \<lparr>bufs_chain = map nghttp2_buf_wrap_init vec, bufs_cur = 0, bufs_mem = mem1,
                chunk_length = 0, max_chunk = veclen, chunk_used = veclen, chunk_keep = veclen,
                bufs_offset = 0\<rparr>, mem1))"

fun seek_last :: "nghttp2_buf list \<Rightarrow> nat \<Rightarrow> nat \<Rightarrow> nat" where
  "seek_last [] ci cur = cur"
| "seek_last (buf # rest) ci cur = (if nghttp2_buf_len buf = 0 then cur else seek_last rest (Suc ci) ci)"

definition nghttp2_bufs_seek_last_present :: "nghttp2_bufs \<Rightarrow> nghttp2_bufs" where
  "nghttp2_bufs_seek_last_present bufs =
     bufs\<lparr>bufs_cur := seek_last (drop (bufs_cur bufs) (bufs_chain bufs)) (bufs_cur bufs) (bufs_cur bufs)\<rparr>"

definition nghttp2_bufs_len :: "nghttp2_bufs \<Rightarrow> nat" where
  "nghttp2_bufs_len bufs = sum_list (map nghttp2_buf_len (bufs_chain bufs))"

definition bufs_alloc_chain :: "nghttp2_bufs \<Rightarrow> (nghttp2_error + unit) \<times> nghttp2_bufs" where
  "bufs_alloc_chain bufs =
     (if Suc (bufs_cur bufs) < length (bufs_chain bufs) then
        (Inr (), bufs\<lparr>bufs_cur := Suc (bufs_cur bufs)\<rparr>)
      else if max_chunk bufs = chunk_used bufs then (Inl ERR_BUFFER_ERROR, bufs)
      else
        case buf_chain_new (bufs_mem bufs) (chunk_length bufs) of
          (Inl e, mem1) \<Rightarrow> (Inl e, bufs\<lparr>bufs_mem := mem1\<rparr>)
        | (Inr buf, mem1) \<Rightarrow>
            (Inr (), bufs\<lparr>bufs_mem := mem1, chunk_used := chunk_used bufs + 1,
                          bufs_chain := bufs_chain bufs @ [nghttp2_buf_shift_right buf (bufs_offset bufs)],
                          bufs_cur := Suc (bufs_cur bufs)\<rparr>))"

text \<open>\<open>None\<close> is a call that never returns.\<close>

partial_function (option) nghttp2_bufs_add ::
  "nghttp2_bufs \<Rightarrow> u8 list \<Rightarrow> ((nghttp2_error + unit) \<times> nghttp2_bufs) option" where
  "nghttp2_bufs_add bufs data =
     (if data = [] then Some (Inr (), bufs)
      else
        let buf = cur_buf bufs; nwrite = min (nghttp2_buf_avail buf) (length data) in
        if nwrite = 0 then
          (case bufs_alloc_chain bufs of
             (Inl e, bufs1) \<Rightarrow> Some (Inl e, bufs1)
           | (Inr _, bufs1) \<Rightarrow> nghttp2_bufs_add bufs1 data)
        else nghttp2_bufs_add (set_cur_buf bufs (buf_cpymem buf (take nwrite data))) (drop nwrite data))"

definition bufs_ensure_addb :: "nghttp2_bufs \<Rightarrow> (nghttp2_error + unit) \<times> nghttp2_bufs" where
  "bufs_ensure_addb bufs =
     (if nghttp2_buf_avail (cur_buf bufs) > 0 then (Inr (), bufs) else bufs_alloc_chain bufs)"

text \<open>The \<^verbatim>\<open>fast\<close> macros store without looking at the space left.\<close>

definition nghttp2_bufs_fast_addb :: "nghttp2_bufs \<Rightarrow> u8 \<Rightarrow> nghttp2_bufs" where
  "nghttp2_bufs_fast_addb bufs b = set_cur_buf bufs (buf_cpymem (cur_buf bufs) [b])"

definition nghttp2_bufs_fast_addb_hold :: "nghttp2_bufs \<Rightarrow> u8 \<Rightarrow> nghttp2_bufs" where
  "nghttp2_bufs_fast_addb_hold bufs b =
     (let buf = cur_buf bufs in set_cur_buf bufs (buf\<lparr>buf_data := (buf_data buf)[buf_last buf := b]\<rparr>))"

definition nghttp2_bufs_fast_orb :: "nghttp2_bufs \<Rightarrow> u8 \<Rightarrow> nghttp2_bufs" where
  "nghttp2_bufs_fast_orb bufs b =
     (let buf = cur_buf bufs in set_cur_buf bufs (buf_cpymem buf [(buf_data buf ! buf_last buf) OR b]))"

definition nghttp2_bufs_fast_orb_hold :: "nghttp2_bufs \<Rightarrow> u8 \<Rightarrow> nghttp2_bufs" where
  "nghttp2_bufs_fast_orb_hold bufs b =
     (let buf = cur_buf bufs in
      set_cur_buf bufs (buf\<lparr>buf_data := (buf_data buf)[buf_last buf := (buf_data buf ! buf_last buf) OR b]\<rparr>))"

definition after_ensure ::
  "(nghttp2_bufs \<Rightarrow> nghttp2_bufs) \<Rightarrow> nghttp2_bufs \<Rightarrow> (nghttp2_error + unit) \<times> nghttp2_bufs" where
  "after_ensure store bufs =
     (case bufs_ensure_addb bufs of (Inl e, bufs1) \<Rightarrow> (Inl e, bufs1) | (Inr _, bufs1) \<Rightarrow> (Inr (), store bufs1))"

definition nghttp2_bufs_addb :: "nghttp2_bufs \<Rightarrow> u8 \<Rightarrow> (nghttp2_error + unit) \<times> nghttp2_bufs" where
  "nghttp2_bufs_addb bufs b = after_ensure (\<lambda>s. nghttp2_bufs_fast_addb s b) bufs"

definition nghttp2_bufs_addb_hold :: "nghttp2_bufs \<Rightarrow> u8 \<Rightarrow> (nghttp2_error + unit) \<times> nghttp2_bufs" where
  "nghttp2_bufs_addb_hold bufs b = after_ensure (\<lambda>s. nghttp2_bufs_fast_addb_hold s b) bufs"

definition nghttp2_bufs_orb :: "nghttp2_bufs \<Rightarrow> u8 \<Rightarrow> (nghttp2_error + unit) \<times> nghttp2_bufs" where
  "nghttp2_bufs_orb bufs b = after_ensure (\<lambda>s. nghttp2_bufs_fast_orb s b) bufs"

definition nghttp2_bufs_orb_hold :: "nghttp2_bufs \<Rightarrow> u8 \<Rightarrow> (nghttp2_error + unit) \<times> nghttp2_bufs" where
  "nghttp2_bufs_orb_hold bufs b = after_ensure (\<lambda>s. nghttp2_bufs_fast_orb_hold s b) bufs"

text \<open>
  \<^verbatim>\<open>nghttp2_bufs_remove\<close> returns the length and, unless it is 0, the new memory with the bytes of every
  chunk; \<open>None\<close> says that \<^verbatim>\<open>*out\<close> is not assigned, which is so for length 0, where the code sets only its local
  \<^verbatim>\<open>res\<close>; \<^verbatim>\<open>nghttp2_bufs_remove_copy\<close> writes them to the caller's memory \<open>out\<close>.
\<close>

definition nghttp2_bufs_remove_copy :: "nghttp2_bufs \<Rightarrow> u8 list \<Rightarrow> nat \<times> u8 list" where
  "nghttp2_bufs_remove_copy bufs out =
     (nghttp2_bufs_len bufs,
      buf_data (foldl (\<lambda>res buf. buf_cpymem res (buf_bytes buf)) (nghttp2_buf_wrap_init out) (bufs_chain bufs)))"

definition nghttp2_bufs_remove :: "nghttp2_bufs \<Rightarrow> (nghttp2_error + nat \<times> u8 list option) \<times> nghttp2_bufs" where
  "nghttp2_bufs_remove bufs =
     (let len = sum_list (map nghttp2_buf_len (bufs_chain bufs)) in
      if len = 0 then (Inr (0, None), bufs)
      else
        let (ok, mem1) = mem_call (bufs_mem bufs); bufs1 = bufs\<lparr>bufs_mem := mem1\<rparr> in
        if \<not> ok then (Inl ERR_NOMEM, bufs1)
        else
          (Inr (len, Some (buf_data (foldl (\<lambda>res buf. buf_cpymem res (buf_bytes buf))
             (nghttp2_buf_wrap_init (mem_fresh (bufs_mem bufs) len)) (bufs_chain bufs)))), bufs1))"

text \<open>The loop of \<^verbatim>\<open>nghttp2_bufs_reset\<close>: the chunks kept, and whether the rest was cut off.\<close>

fun reset_chunks :: "nat \<Rightarrow> nat \<Rightarrow> nghttp2_buf list \<Rightarrow> nghttp2_buf list \<times> bool" where
  "reset_chunks off k [] = ([], False)"
| "reset_chunks off k (buf # rest) =
     (let buf1 = nghttp2_buf_shift_right (nghttp2_buf_reset buf) off in
      if k = 1 then ([buf1], True)
      else let (bs, cut) = reset_chunks off (k - 1) rest in (buf1 # bs, cut))"

definition nghttp2_bufs_reset :: "nghttp2_bufs \<Rightarrow> nghttp2_bufs" where
  "nghttp2_bufs_reset bufs =
     (let (bs, cut) = reset_chunks (bufs_offset bufs) (chunk_keep bufs) (bufs_chain bufs) in
      bufs\<lparr>bufs_chain := bs, chunk_used := (if cut then chunk_keep bufs else chunk_used bufs), bufs_cur := 0\<rparr>)"

definition nghttp2_bufs_advance :: "nghttp2_bufs \<Rightarrow> (nghttp2_error + unit) \<times> nghttp2_bufs" where
  "nghttp2_bufs_advance bufs = bufs_alloc_chain bufs"

definition nghttp2_bufs_next_present :: "nghttp2_bufs \<Rightarrow> bool" where
  "nghttp2_bufs_next_present bufs \<longleftrightarrow>
     Suc (bufs_cur bufs) < length (bufs_chain bufs) \<and>
     nghttp2_buf_len (bufs_chain bufs ! Suc (bufs_cur bufs)) \<noteq> 0"

definition nghttp2_bufs_rewind :: "nghttp2_bufs \<Rightarrow> nghttp2_bufs" where
  "nghttp2_bufs_rewind bufs = bufs\<lparr>bufs_cur := 0\<rparr>"

section \<open>Invariant and contents\<close>

definition buf_wf :: "nghttp2_buf \<Rightarrow> bool" where
  "buf_wf buf \<longleftrightarrow> buf_pos buf \<le> buf_last buf \<and> buf_last buf \<le> length (buf_data buf)"

definition bufs_wf :: "nghttp2_bufs \<Rightarrow> bool" where
  "bufs_wf bufs \<longleftrightarrow> bufs_cur bufs < length (bufs_chain bufs) \<and> chunk_used bufs = length (bufs_chain bufs) \<and>
     chunk_used bufs \<le> max_chunk bufs \<and> 0 < chunk_keep bufs \<and> chunk_keep bufs \<le> max_chunk bufs \<and>
     bufs_offset bufs \<le> chunk_length bufs \<and> list_all buf_wf (bufs_chain bufs) \<and>
     list_all (\<lambda>buf. nghttp2_buf_len buf = 0) (drop (Suc (bufs_cur bufs)) (bufs_chain bufs))"

definition bufs_bytes :: "nghttp2_bufs \<Rightarrow> u8 list" where
  "bufs_bytes bufs = concat (map buf_bytes (bufs_chain bufs))"

text \<open>The number of bytes a chain still takes when no allocation fails.\<close>

definition bufs_room :: "nghttp2_bufs \<Rightarrow> nat" where
  "bufs_room bufs = sum_list (map nghttp2_buf_avail (drop (bufs_cur bufs) (bufs_chain bufs))) +
     (max_chunk bufs - chunk_used bufs) * (chunk_length bufs - bufs_offset bufs)"

definition bufs_cfg :: "nghttp2_bufs \<Rightarrow> nat \<times> nat \<times> nat \<times> nat" where
  "bufs_cfg bufs = (chunk_length bufs, max_chunk bufs, chunk_keep bufs, bufs_offset bufs)"

lemma write_bytes_append:
  "n + length bs \<le> length d \<Longrightarrow> write_bytes d n bs = take n d @ bs @ drop (n + length bs) d"
proof (induction bs arbitrary: d n)
  case (Cons b bs)
  then have "write_bytes d n (b # bs) = take (Suc n) (d[n := b]) @ bs @ drop (Suc n + length bs) (d[n := b])"
    by simp
  then show ?case using Cons.prems by (simp add: take_Suc_conv_app_nth)
qed simp

lemma length_write_bytes [simp]: "length (write_bytes d n bs) = length d"
  by (induction d n bs rule: write_bytes.induct) auto

lemma buf_cpymem_fields [simp]:
  "buf_pos (buf_cpymem buf bs) = buf_pos buf" "buf_last (buf_cpymem buf bs) = buf_last buf + length bs"
  "length (buf_data (buf_cpymem buf bs)) = length (buf_data buf)"
  by (simp_all add: buf_cpymem_def)

lemma buf_cpymem_avail [simp]:
  "buf_wf buf \<Longrightarrow> length bs \<le> nghttp2_buf_avail buf \<Longrightarrow>
   nghttp2_buf_avail (buf_cpymem buf bs) = nghttp2_buf_avail buf - length bs"
  by (auto simp: buf_wf_def nghttp2_buf_avail_def)

lemma buf_cpymem_correct:
  assumes "buf_wf buf" "length bs \<le> nghttp2_buf_avail buf"
  shows "buf_wf (buf_cpymem buf bs) \<and> buf_bytes (buf_cpymem buf bs) = buf_bytes buf @ bs"
proof -
  have le: "buf_pos buf \<le> buf_last buf" "buf_last buf + length bs \<le> length (buf_data buf)"
    using assms by (auto simp: buf_wf_def nghttp2_buf_avail_def)
  have "drop (buf_pos buf) (take (buf_last buf) (buf_data buf) @ bs @ drop (buf_last buf + length bs) (buf_data buf)) =
      drop (buf_pos buf) (take (buf_last buf) (buf_data buf)) @ bs @ drop (buf_last buf + length bs) (buf_data buf)"
    using le by simp
  moreover have "drop (buf_pos buf) (take (buf_last buf) (buf_data buf)) = buf_bytes buf"
    using le by (simp add: buf_bytes_def nghttp2_buf_len_def drop_take)
  moreover have "length (buf_bytes buf) = buf_last buf - buf_pos buf"
    using le by (simp add: buf_bytes_def nghttp2_buf_len_def)
  moreover have "buf_bytes (buf_cpymem buf bs) = take (buf_last buf + length bs - buf_pos buf)
      (drop (buf_pos buf) (take (buf_last buf) (buf_data buf) @ bs @ drop (buf_last buf + length bs) (buf_data buf)))"
    using le by (simp add: buf_bytes_def nghttp2_buf_len_def) (simp add: buf_cpymem_def write_bytes_append)
  ultimately have "buf_bytes (buf_cpymem buf bs) = buf_bytes buf @ bs" using le by simp
  then show ?thesis using le by (simp add: buf_wf_def)
qed

lemma set_cur_buf_fields [simp]:
  "bufs_chain (set_cur_buf bufs buf) = (bufs_chain bufs)[bufs_cur bufs := buf]"
  "bufs_cur (set_cur_buf bufs buf) = bufs_cur bufs" "bufs_mem (set_cur_buf bufs buf) = bufs_mem bufs"
  "chunk_length (set_cur_buf bufs buf) = chunk_length bufs" "max_chunk (set_cur_buf bufs buf) = max_chunk bufs"
  "chunk_used (set_cur_buf bufs buf) = chunk_used bufs" "chunk_keep (set_cur_buf bufs buf) = chunk_keep bufs"
  "bufs_offset (set_cur_buf bufs buf) = bufs_offset bufs" "bufs_cfg (set_cur_buf bufs buf) = bufs_cfg bufs"
  by (simp_all add: set_cur_buf_def bufs_cfg_def)

lemma buf_bytes_empty: "nghttp2_buf_len buf = 0 \<Longrightarrow> buf_bytes buf = []"
  by (simp add: buf_bytes_def)

lemma bufs_split:
  assumes "bufs_cur bufs < length (bufs_chain bufs)"
  shows "bufs_chain bufs = take (bufs_cur bufs) (bufs_chain bufs) @ cur_buf bufs # drop (Suc (bufs_cur bufs)) (bufs_chain bufs)"
  using assms by (simp add: id_take_nth_drop)

lemma set_cur_buf_correct:
  assumes wf: "bufs_wf bufs" and buf: "buf_wf buf" "buf_bytes buf = buf_bytes (cur_buf bufs) @ bs"
    and avail: "nghttp2_buf_avail buf + length bs = nghttp2_buf_avail (cur_buf bufs)"
  shows "bufs_wf (set_cur_buf bufs buf) \<and> bufs_bytes (set_cur_buf bufs buf) = bufs_bytes bufs @ bs \<and>
         bufs_room (set_cur_buf bufs buf) + length bs = bufs_room bufs"
proof -
  let ?i = "bufs_cur bufs" and ?ch = "bufs_chain bufs"
  have i: "?i < length ?ch" using wf by (simp add: bufs_wf_def)
  have up: "?ch[?i := buf] = take ?i ?ch @ buf # drop (Suc ?i) ?ch" using i by (simp add: upd_conv_take_nth_drop)
  have tail: "concat (map buf_bytes (drop (Suc ?i) ?ch)) = []"
    using wf buf_bytes_empty by (auto simp: bufs_wf_def list_all_iff)
  have "bufs_bytes (set_cur_buf bufs buf) = concat (map buf_bytes (take ?i ?ch)) @ buf_bytes (cur_buf bufs) @ bs"
    using tail buf(2) by (simp add: bufs_bytes_def up)
  moreover have "bufs_bytes bufs = concat (map buf_bytes (take ?i ?ch)) @ buf_bytes (cur_buf bufs)"
    using arg_cong [OF bufs_split [OF i], of "\<lambda>c. concat (map buf_bytes c)"] tail by (simp add: bufs_bytes_def)
  moreover have "bufs_room (set_cur_buf bufs buf) + length bs = bufs_room bufs"
    using i avail by (simp add: bufs_room_def up) (simp add: Cons_nth_drop_Suc [symmetric])
  moreover have "bufs_wf (set_cur_buf bufs buf)"
    using wf buf(1) by (auto simp: bufs_wf_def list_all_length nth_list_update)
  ultimately show ?thesis by simp
qed

lemma bufs_write_correct:
  assumes "bufs_wf bufs" "length bs \<le> nghttp2_buf_avail (cur_buf bufs)"
  shows "bufs_wf (set_cur_buf bufs (buf_cpymem (cur_buf bufs) bs)) \<and>
         bufs_bytes (set_cur_buf bufs (buf_cpymem (cur_buf bufs) bs)) = bufs_bytes bufs @ bs \<and>
         bufs_room (set_cur_buf bufs (buf_cpymem (cur_buf bufs) bs)) + length bs = bufs_room bufs"
proof (rule set_cur_buf_correct [OF assms(1)])
  have "buf_wf (cur_buf bufs)" using assms(1) by (auto simp: bufs_wf_def list_all_length)
  then show "buf_wf (buf_cpymem (cur_buf bufs) bs)"
    "buf_bytes (buf_cpymem (cur_buf bufs) bs) = buf_bytes (cur_buf bufs) @ bs"
    "nghttp2_buf_avail (buf_cpymem (cur_buf bufs) bs) + length bs = nghttp2_buf_avail (cur_buf bufs)"
    using buf_cpymem_correct [OF _ assms(2)] assms(2) by simp_all
qed

definition bufs_steps :: "nghttp2_bufs \<Rightarrow> nat" where
  "bufs_steps bufs = (length (bufs_chain bufs) - bufs_cur bufs) + (max_chunk bufs - chunk_used bufs)"

lemma buf_chain_new_cases:
  "case buf_chain_new mem clen of
     (Inl e, mem') \<Rightarrow> e = ERR_NOMEM \<and> \<not> mem_reliable mem
   | (Inr buf, mem') \<Rightarrow> mem_mono mem mem' \<and> buf_pos buf = 0 \<and> buf_last buf = 0 \<and> length (buf_data buf) = clen"
proof -
  obtain ok mem1 where c: "mem_call mem = (ok, mem1)" by force
  have r: "mem_reliable mem \<Longrightarrow> ok \<and> mem_reliable mem1" using mem_call_reliable [of mem] c by simp
  obtain ok2 mem2 where c2: "mem_call mem1 = (ok2, mem2)" by force
  have r2: "mem_reliable mem1 \<Longrightarrow> ok2 \<and> mem_reliable mem2" using mem_call_reliable [of mem1] c2 by simp
  show ?thesis using r r2
    by (auto simp: buf_chain_new_def c c2 nghttp2_buf_init2_def nghttp2_buf_reserve_def nghttp2_buf_init_def
        nghttp2_buf_cap_def Let_def mem_mono_def max_def)
qed

lemma bufs_alloc_chain_correct:
  assumes wf: "bufs_wf bufs"
  shows "case bufs_alloc_chain bufs of
     (Inl e, bufs') \<Rightarrow> bufs_wf bufs' \<and> bufs_bytes bufs' = bufs_bytes bufs \<and> bufs_cfg bufs' = bufs_cfg bufs \<and>
       (e = ERR_BUFFER_ERROR \<and> bufs_room bufs = nghttp2_buf_avail (cur_buf bufs) \<or>
        e = ERR_NOMEM \<and> \<not> mem_reliable (bufs_mem bufs))
   | (Inr _, bufs') \<Rightarrow> bufs_wf bufs' \<and> bufs_bytes bufs' = bufs_bytes bufs \<and> bufs_cfg bufs' = bufs_cfg bufs \<and>
       mem_mono (bufs_mem bufs) (bufs_mem bufs') \<and> bufs_steps bufs' < bufs_steps bufs \<and>
       bufs_room bufs' + nghttp2_buf_avail (cur_buf bufs) = bufs_room bufs"
proof -
  let ?i = "bufs_cur bufs" and ?ch = "bufs_chain bufs"
  have i: "?i < length ?ch" using wf by (simp add: bufs_wf_def)
  have d: "drop ?i ?ch = cur_buf bufs # drop (Suc ?i) ?ch" using i by (simp add: Cons_nth_drop_Suc)
  show ?thesis
  proof (cases "Suc ?i < length ?ch")
    case True
    have "list_all (\<lambda>buf. nghttp2_buf_len buf = 0) (drop (Suc (Suc ?i)) ?ch)"
      using wf True by (auto simp: bufs_wf_def Cons_nth_drop_Suc [symmetric])
    then show ?thesis using wf True i
      by (auto simp: bufs_alloc_chain_def bufs_wf_def bufs_bytes_def bufs_cfg_def bufs_steps_def bufs_room_def d)
  next
    case False
    then have last: "drop (Suc ?i) ?ch = []" "Suc ?i = length ?ch" using i by simp_all
    show ?thesis
    proof (cases "max_chunk bufs = chunk_used bufs")
      case True
      then show ?thesis using wf False by (simp add: bufs_alloc_chain_def bufs_room_def d last)
    next
      case nmax: False
      then have used: "chunk_used bufs < max_chunk bufs" using wf by (simp add: bufs_wf_def)
      obtain r mem1 where new: "buf_chain_new (bufs_mem bufs) (chunk_length bufs) = (r, mem1)" by force
      note nc = buf_chain_new_cases [of "bufs_mem bufs" "chunk_length bufs", unfolded new]
      show ?thesis
      proof (cases r)
        case (Inl e)
        then show ?thesis using nc wf False nmax
          by (simp add: bufs_alloc_chain_def new bufs_wf_def bufs_bytes_def bufs_cfg_def)
      next
        case (Inr buf)
        let ?b = "nghttp2_buf_shift_right buf (bufs_offset bufs)"
        have b: "buf_pos ?b = bufs_offset bufs" "buf_last ?b = bufs_offset bufs" "length (buf_data ?b) = chunk_length bufs"
          using nc Inr by (simp_all add: nghttp2_buf_shift_right_def)
        have bw: "buf_wf ?b" using wf b by (simp add: buf_wf_def bufs_wf_def)
        then have b0: "nghttp2_buf_len ?b = 0" "nghttp2_buf_avail ?b = chunk_length bufs - bufs_offset bufs"
          using b by (simp_all add: nghttp2_buf_len_def nghttp2_buf_avail_def buf_wf_def)
        have room: "(max_chunk bufs - chunk_used bufs) * (chunk_length bufs - bufs_offset bufs) =
            (chunk_length bufs - bufs_offset bufs) + (max_chunk bufs - Suc (chunk_used bufs)) * (chunk_length bufs - bufs_offset bufs)"
          using used by (metis Suc_diff_Suc mult_Suc)
        show ?thesis using wf False nmax Inr nc used b0 bw room
          by (auto simp: bufs_alloc_chain_def new bufs_wf_def bufs_bytes_def bufs_cfg_def bufs_steps_def bufs_room_def d
              last buf_bytes_empty add.commute)
      qed
    qed
  qed
qed

lemma bufs_add_correct:
  assumes "bufs_wf bufs"
  shows "\<exists>r bufs' n. nghttp2_bufs_add bufs data = Some (r, bufs') \<and> bufs_wf bufs' \<and> bufs_cfg bufs' = bufs_cfg bufs \<and>
      n \<le> length data \<and> bufs_bytes bufs' = bufs_bytes bufs @ take n data \<and>
      (case r of
         Inr _ \<Rightarrow> n = length data \<and> bufs_room bufs' + n = bufs_room bufs \<and> mem_mono (bufs_mem bufs) (bufs_mem bufs')
       | Inl e \<Rightarrow> e = ERR_BUFFER_ERROR \<and> bufs_room bufs < length data \<or> e = ERR_NOMEM \<and> \<not> mem_reliable (bufs_mem bufs))"
  using assms
proof (induction "length data + bufs_steps bufs" arbitrary: bufs data rule: less_induct)
  case less
  note step = nghttp2_bufs_add.simps [of bufs data]
  let ?nw = "min (nghttp2_buf_avail (cur_buf bufs)) (length data)"
  show ?case
  proof (cases "data = []")
    case True
    then have "nghttp2_bufs_add bufs data = Some (Inr (), bufs)" by (subst step) simp
    then show ?thesis using less.prems True by (intro exI [of _ "Inr ()"] exI [of _ bufs] exI [of _ 0]) simp
  next
    case data: False
    show ?thesis
    proof (cases "?nw = 0")
      case True
      then have av: "nghttp2_buf_avail (cur_buf bufs) = 0" using data by (simp add: min_def split: if_splits)
      obtain r bufs1 where al: "bufs_alloc_chain bufs = (r, bufs1)" by force
      note c = bufs_alloc_chain_correct [OF less.prems, unfolded al]
      show ?thesis
      proof (cases r)
        case (Inl e)
        then have "nghttp2_bufs_add bufs data = Some (Inl e, bufs1)" using step True al data by simp
        then show ?thesis using c Inl av data by (auto intro!: exI [of _ 0])
      next
        case (Inr u)
        have "nghttp2_bufs_add bufs data = nghttp2_bufs_add bufs1 data" using step True al data Inr by simp
        moreover have "bufs_wf bufs1" "length data + bufs_steps bufs1 < length data + bufs_steps bufs"
          "bufs_cfg bufs1 = bufs_cfg bufs" "bufs_bytes bufs1 = bufs_bytes bufs" "bufs_room bufs1 = bufs_room bufs"
          "mem_mono (bufs_mem bufs) (bufs_mem bufs1)"
          using c Inr av by auto
        ultimately show ?thesis using less.hyps [of data bufs1]
          by (auto simp: mem_mono_def split: sum.splits)
      qed
    next
      case False
      let ?b = "set_cur_buf bufs (buf_cpymem (cur_buf bufs) (take ?nw data))"
      have "length (take ?nw data) \<le> nghttp2_buf_avail (cur_buf bufs)" by simp
      note w = bufs_write_correct [OF less.prems this]
      have eq: "nghttp2_bufs_add bufs data = nghttp2_bufs_add ?b (drop ?nw data)"
        using step data False by (simp add: Let_def)
      have "length (drop ?nw data) + bufs_steps ?b < length data + bufs_steps bufs"
        using False data by (simp add: bufs_steps_def) 
      moreover have "bufs_wf ?b" using w by blast
      ultimately obtain r bufs' n where ih: "nghttp2_bufs_add ?b (drop ?nw data) = Some (r, bufs')" "bufs_wf bufs'"
        "bufs_cfg bufs' = bufs_cfg bufs" "n \<le> length (drop ?nw data)"
        "bufs_bytes bufs' = bufs_bytes ?b @ take n (drop ?nw data)"
        "case r of Inr _ \<Rightarrow> n = length (drop ?nw data) \<and> bufs_room bufs' + n = bufs_room ?b \<and>
              mem_mono (bufs_mem bufs) (bufs_mem bufs')
         | Inl e \<Rightarrow> e = ERR_BUFFER_ERROR \<and> bufs_room ?b < length (drop ?nw data) \<or>
              e = ERR_NOMEM \<and> \<not> mem_reliable (bufs_mem bufs)"
        using less.hyps [of "drop ?nw data" ?b] unfolding set_cur_buf_fields by blast
      have "bufs_bytes bufs' = bufs_bytes bufs @ take (?nw + n) data"
        using ih(5) w by (simp add: take_add)
      then show ?thesis unfolding eq using ih w
        by (intro exI [of _ r] exI [of _ bufs'] exI [of _ "?nw + n"]) (auto split: sum.splits)
    qed
  qed
qed

section \<open>Chains made of chunks of one size\<close>

text \<open>
  \<^verbatim>\<open>bufs_ensure_addb\<close> moves to the next chunk at most once, so byte-wise writing needs every later chunk
  to have room.  Chains made by \<^verbatim>\<open>nghttp2_bufs_init\<close> have it.
\<close>

definition bufs_regular :: "nghttp2_bufs \<Rightarrow> bool" where
  "bufs_regular bufs \<longleftrightarrow> bufs_wf bufs \<and> bufs_offset bufs < chunk_length bufs \<and>
     list_all (\<lambda>buf. bufs_offset bufs < length (buf_data buf)) (bufs_chain bufs) \<and>
     list_all (\<lambda>buf. buf_pos buf = bufs_offset bufs \<and> buf_last buf = bufs_offset bufs)
       (drop (Suc (bufs_cur bufs)) (bufs_chain bufs))"

definition bufs_pending :: "nghttp2_bufs \<Rightarrow> u8" where
  "bufs_pending bufs = buf_data (cur_buf bufs) ! buf_last (cur_buf bufs)"

abbreviation bufs_cur_avail :: "nghttp2_bufs \<Rightarrow> nat" where
  "bufs_cur_avail bufs \<equiv> nghttp2_buf_avail (cur_buf bufs)"

lemma regular_wf: "bufs_regular bufs \<Longrightarrow> bufs_wf bufs"
  by (simp add: bufs_regular_def)

lemma regular_set_cur:
  assumes "bufs_regular bufs" "bufs_wf (set_cur_buf bufs buf)" "length (buf_data buf) = length (buf_data (cur_buf bufs))"
  shows "bufs_regular (set_cur_buf bufs buf)"
  using assms by (auto simp: bufs_regular_def bufs_wf_def list_all_length nth_list_update)

lemma cur_set_cur: "bufs_wf bufs \<Longrightarrow> cur_buf (set_cur_buf bufs buf) = buf"
  by (simp add: bufs_wf_def)

text \<open>What a step that reports success keeps, and what one that fails reports.\<close>

definition bufs_kept :: "nghttp2_bufs \<Rightarrow> nghttp2_bufs \<Rightarrow> bool" where
  "bufs_kept bufs bufs' \<longleftrightarrow> bufs_regular bufs' \<and> bufs_cfg bufs' = bufs_cfg bufs \<and>
     mem_mono (bufs_mem bufs) (bufs_mem bufs')"

definition bufs_failed :: "nghttp2_bufs \<Rightarrow> nat \<Rightarrow> nghttp2_error \<Rightarrow> nghttp2_bufs \<Rightarrow> bool" where
  "bufs_failed bufs need e bufs' \<longleftrightarrow> bufs_regular bufs' \<and> bufs_cfg bufs' = bufs_cfg bufs \<and>
     (e = ERR_BUFFER_ERROR \<and> bufs_room bufs < need \<or> e = ERR_NOMEM \<and> \<not> mem_reliable (bufs_mem bufs))"

lemma bufs_kept_refl: "bufs_regular bufs \<Longrightarrow> bufs_kept bufs bufs"
  by (simp add: bufs_kept_def)

lemma bufs_kept_trans: "bufs_kept a b \<Longrightarrow> bufs_kept b c \<Longrightarrow> bufs_kept a c"
  by (auto simp: bufs_kept_def intro: mem_mono_trans)

lemma bufs_kept_failed:
  "bufs_kept a b \<Longrightarrow> bufs_failed b need e c \<Longrightarrow> bufs_room b + n = bufs_room a \<Longrightarrow> n + need \<le> need' \<Longrightarrow>
   bufs_failed a need' e c"
  by (auto simp: bufs_kept_def bufs_failed_def mem_mono_def)

lemma fast_addb_correct:
  assumes "bufs_regular bufs" "bufs_cur_avail bufs > 0"
  shows "bufs_kept bufs (nghttp2_bufs_fast_addb bufs b)"
    "bufs_bytes (nghttp2_bufs_fast_addb bufs b) = bufs_bytes bufs @ [b]"
    "bufs_room (nghttp2_bufs_fast_addb bufs b) + 1 = bufs_room bufs"
    "bufs_cur_avail (nghttp2_bufs_fast_addb bufs b) = bufs_cur_avail bufs - 1"
proof -
  have wf: "bufs_wf bufs" using assms(1) by (rule regular_wf)
  have w: "bufs_wf (nghttp2_bufs_fast_addb bufs b) \<and> bufs_bytes (nghttp2_bufs_fast_addb bufs b) = bufs_bytes bufs @ [b] \<and>
      bufs_room (nghttp2_bufs_fast_addb bufs b) + 1 = bufs_room bufs"
    using bufs_write_correct [OF wf, of "[b]"] assms(2) by (simp add: nghttp2_bufs_fast_addb_def)
  then show "bufs_bytes (nghttp2_bufs_fast_addb bufs b) = bufs_bytes bufs @ [b]"
    "bufs_room (nghttp2_bufs_fast_addb bufs b) + 1 = bufs_room bufs" by auto
  show "bufs_kept bufs (nghttp2_bufs_fast_addb bufs b)"
    using regular_set_cur [OF assms(1)] w by (simp add: bufs_kept_def nghttp2_bufs_fast_addb_def)
  have "buf_wf (cur_buf bufs)" using wf by (auto simp: bufs_wf_def list_all_length)
  then show "bufs_cur_avail (nghttp2_bufs_fast_addb bufs b) = bufs_cur_avail bufs - 1"
    using cur_set_cur [OF wf] assms(2) by (simp add: nghttp2_bufs_fast_addb_def)
qed

lemma fast_addb_hold_correct:
  assumes "bufs_regular bufs" "bufs_cur_avail bufs > 0"
  shows "bufs_kept bufs (nghttp2_bufs_fast_addb_hold bufs b)"
    "bufs_bytes (nghttp2_bufs_fast_addb_hold bufs b) = bufs_bytes bufs"
    "bufs_room (nghttp2_bufs_fast_addb_hold bufs b) = bufs_room bufs"
    "bufs_cur_avail (nghttp2_bufs_fast_addb_hold bufs b) = bufs_cur_avail bufs"
    "bufs_pending (nghttp2_bufs_fast_addb_hold bufs b) = b"
proof -
  let ?buf = "(cur_buf bufs)\<lparr>buf_data := (buf_data (cur_buf bufs))[buf_last (cur_buf bufs) := b]\<rparr>"
  have h: "nghttp2_bufs_fast_addb_hold bufs b = set_cur_buf bufs ?buf"
    by (simp add: nghttp2_bufs_fast_addb_hold_def Let_def)
  have wf: "bufs_wf bufs" using assms(1) by (rule regular_wf)
  have bw: "buf_wf (cur_buf bufs)" using wf by (auto simp: bufs_wf_def list_all_length)
  have same: "buf_wf ?buf" "buf_bytes ?buf = buf_bytes (cur_buf bufs) @ []" "nghttp2_buf_avail ?buf + length [] = bufs_cur_avail bufs"
    using bw by (auto simp: buf_wf_def buf_bytes_def nghttp2_buf_len_def nghttp2_buf_avail_def take_drop)
  note s = set_cur_buf_correct [OF wf same]
  show "bufs_kept bufs (nghttp2_bufs_fast_addb_hold bufs b)"
    using regular_set_cur [OF assms(1)] s by (simp add: h bufs_kept_def)
  show "bufs_bytes (nghttp2_bufs_fast_addb_hold bufs b) = bufs_bytes bufs"
    "bufs_room (nghttp2_bufs_fast_addb_hold bufs b) = bufs_room bufs" using s by (simp_all add: h)
  show "bufs_cur_avail (nghttp2_bufs_fast_addb_hold bufs b) = bufs_cur_avail bufs"
    unfolding h cur_set_cur [OF wf] by (simp add: nghttp2_buf_avail_def)
  show "bufs_pending (nghttp2_bufs_fast_addb_hold bufs b) = b"
    unfolding bufs_pending_def h cur_set_cur [OF wf] using assms(2) bw by (simp add: nghttp2_buf_avail_def buf_wf_def)
qed

lemma fast_orb_pending:
  "nghttp2_bufs_fast_orb bufs b = nghttp2_bufs_fast_addb bufs (bufs_pending bufs OR b)"
  "nghttp2_bufs_fast_orb_hold bufs b = nghttp2_bufs_fast_addb_hold bufs (bufs_pending bufs OR b)"
  by (simp_all add: nghttp2_bufs_fast_orb_def nghttp2_bufs_fast_addb_def nghttp2_bufs_fast_orb_hold_def
      nghttp2_bufs_fast_addb_hold_def bufs_pending_def Let_def)

lemma alloc_chain_regular:
  assumes r: "bufs_regular bufs"
  shows "case bufs_alloc_chain bufs of (Inl e, bufs') \<Rightarrow> bufs_regular bufs'
      | (Inr _, bufs') \<Rightarrow> bufs_regular bufs' \<and> bufs_cur_avail bufs' > 0"
proof -
  have "case bufs_alloc_chain bufs of (Inl e, bufs') \<Rightarrow> bufs_wf bufs' \<longrightarrow> bufs_regular bufs'
      | (Inr _, bufs') \<Rightarrow> bufs_wf bufs' \<longrightarrow> bufs_regular bufs' \<and> bufs_cur_avail bufs' > 0"
  proof (cases "Suc (bufs_cur bufs) < length (bufs_chain bufs)")
    case True
    have "bufs_offset bufs < length (buf_data (bufs_chain bufs ! Suc (bufs_cur bufs)))"
      using r True by (simp add: bufs_regular_def list_all_length)
    then show ?thesis using r True
      by (auto simp: bufs_alloc_chain_def bufs_regular_def nghttp2_buf_avail_def Cons_nth_drop_Suc [symmetric])
  next
    case False
    then show ?thesis using r buf_chain_new_cases [of "bufs_mem bufs" "chunk_length bufs"]
      by (auto simp: bufs_alloc_chain_def bufs_regular_def nghttp2_buf_avail_def nghttp2_buf_shift_right_def
          nth_append bufs_wf_def split: sum.splits prod.splits)
  qed
  then show ?thesis using bufs_alloc_chain_correct [OF regular_wf [OF r]] by (auto split: sum.splits prod.splits)
qed

lemma ensure_addb_correct:
  assumes r: "bufs_regular bufs"
  shows "case bufs_ensure_addb bufs of
     (Inl e, bufs') \<Rightarrow> bufs_failed bufs 1 e bufs' \<and> bufs_bytes bufs' = bufs_bytes bufs
   | (Inr _, bufs') \<Rightarrow> bufs_kept bufs bufs' \<and> bufs_bytes bufs' = bufs_bytes bufs \<and>
       bufs_room bufs' = bufs_room bufs \<and> bufs_cur_avail bufs' > 0"
proof (cases "bufs_cur_avail bufs > 0")
  case True
  then show ?thesis using r by (simp add: bufs_ensure_addb_def bufs_kept_refl)
next
  case False
  then have eq: "bufs_ensure_addb bufs = bufs_alloc_chain bufs" by (simp add: bufs_ensure_addb_def)
  show ?thesis using bufs_alloc_chain_correct [OF regular_wf [OF r]] alloc_chain_regular [OF r] False unfolding eq
    by (auto simp: bufs_kept_def bufs_failed_def split: sum.splits prod.splits)
qed

lemma addb_correct:
  assumes r: "bufs_regular bufs"
  shows "case nghttp2_bufs_addb bufs b of
     (Inl e, bufs') \<Rightarrow> bufs_failed bufs 1 e bufs' \<and> bufs_bytes bufs' = bufs_bytes bufs
   | (Inr _, bufs') \<Rightarrow> bufs_kept bufs bufs' \<and> bufs_bytes bufs' = bufs_bytes bufs @ [b] \<and>
       bufs_room bufs' + 1 = bufs_room bufs"
  using ensure_addb_correct [OF r] fast_addb_correct [of _ b]
  by (auto simp: nghttp2_bufs_addb_def after_ensure_def bufs_kept_def intro: bufs_kept_trans mem_mono_trans
      split: sum.splits prod.splits)

lemma addb_hold_correct:
  assumes r: "bufs_regular bufs"
  shows "case nghttp2_bufs_addb_hold bufs b of
     (Inl e, bufs') \<Rightarrow> bufs_failed bufs 1 e bufs' \<and> bufs_bytes bufs' = bufs_bytes bufs
   | (Inr _, bufs') \<Rightarrow> bufs_kept bufs bufs' \<and> bufs_bytes bufs' = bufs_bytes bufs \<and>
       bufs_room bufs' = bufs_room bufs \<and> bufs_cur_avail bufs' > 0 \<and> bufs_pending bufs' = b"
  using ensure_addb_correct [OF r] fast_addb_hold_correct [of _ b]
  by (auto simp: nghttp2_bufs_addb_hold_def after_ensure_def bufs_kept_def intro: bufs_kept_trans mem_mono_trans
      split: sum.splits prod.splits)

lemma bufs_add_regular:
  "bufs_regular bufs \<Longrightarrow> nghttp2_bufs_add bufs data = Some (rv, bufs') \<Longrightarrow> bufs_regular bufs'"
proof (induction "length data + bufs_steps bufs" arbitrary: bufs data rule: less_induct)
  case less
  note step = nghttp2_bufs_add.simps [of bufs data]
  let ?nw = "min (nghttp2_buf_avail (cur_buf bufs)) (length data)"
  show ?case
  proof (cases "data = []")
    case True
    then have "nghttp2_bufs_add bufs data = Some (Inr (), bufs)" by (subst step) simp
    then show ?thesis using less.prems by simp
  next
    case data: False
    show ?thesis
    proof (cases "?nw = 0")
      case True
      obtain r bufs1 where al: "bufs_alloc_chain bufs = (r, bufs1)" by force
      note c = alloc_chain_regular [OF less.prems(1), unfolded al]
        bufs_alloc_chain_correct [OF regular_wf [OF less.prems(1)], unfolded al]
      show ?thesis
      proof (cases r)
        case (Inl e)
        then have "nghttp2_bufs_add bufs data = Some (Inl e, bufs1)" using step True al data by simp
        then show ?thesis using c Inl less.prems(2) by simp
      next
        case (Inr u)
        have "nghttp2_bufs_add bufs data = nghttp2_bufs_add bufs1 data" using step True al data Inr by simp
        then show ?thesis using less.hyps [of data bufs1] c Inr less.prems(2) by simp
      qed
    next
      case False
      let ?b = "set_cur_buf bufs (buf_cpymem (cur_buf bufs) (take ?nw data))"
      have "length (take ?nw data) \<le> nghttp2_buf_avail (cur_buf bufs)" by simp
      note w = bufs_write_correct [OF regular_wf [OF less.prems(1)] this]
      have "nghttp2_bufs_add bufs data = nghttp2_bufs_add ?b (drop ?nw data)"
        using step data False by (simp add: Let_def)
      moreover have "length (drop ?nw data) + bufs_steps ?b < length data + bufs_steps bufs"
        using False data by (simp add: bufs_steps_def)
      moreover have "bufs_regular ?b" using w by (intro regular_set_cur [OF less.prems(1)]) simp_all
      ultimately show ?thesis using less.hyps [of "drop ?nw data" ?b] less.prems(2) by metis
    qed
  qed
qed

text \<open>The contract of \<^verbatim>\<open>nghttp2_bufs_add\<close> on a regular chain, in the terms of the byte-wise functions.\<close>

lemma bufs_add_regular_correct:
  assumes r: "bufs_regular bufs"
  obtains e bufs' n where "nghttp2_bufs_add bufs data = Some (Inl e, bufs')" "bufs_failed bufs (length data) e bufs'"
      "bufs_bytes bufs' = bufs_bytes bufs @ take n data"
    | bufs' where "nghttp2_bufs_add bufs data = Some (Inr (), bufs')" "bufs_kept bufs bufs'"
      "bufs_bytes bufs' = bufs_bytes bufs @ data" "bufs_room bufs' + length data = bufs_room bufs"
proof -
  obtain rv bufs' n where a: "nghttp2_bufs_add bufs data = Some (rv, bufs')" "bufs_cfg bufs' = bufs_cfg bufs"
    "bufs_bytes bufs' = bufs_bytes bufs @ take n data"
    "case rv of Inr _ \<Rightarrow> n = length data \<and> bufs_room bufs' + n = bufs_room bufs \<and> mem_mono (bufs_mem bufs) (bufs_mem bufs')
     | Inl e \<Rightarrow> e = ERR_BUFFER_ERROR \<and> bufs_room bufs < length data \<or> e = ERR_NOMEM \<and> \<not> mem_reliable (bufs_mem bufs)"
    using bufs_add_correct [OF regular_wf [OF r], of data] by blast
  have "bufs_regular bufs'" using bufs_add_regular [OF r a(1)] .
  then show thesis using a that by (cases rv) (auto simp: bufs_kept_def bufs_failed_def)
qed

section \<open>Making, resetting and reading a chain\<close>

lemma bufs_init3_correct:
  assumes "nghttp2_bufs_init3 mem clen mx keep off = (Inr bufs, mem')" "off < clen"
  shows "bufs_regular bufs \<and> bufs_bytes bufs = [] \<and> bufs_cfg bufs = (clen, mx, keep, off) \<and>
         bufs_room bufs = mx * (clen - off) \<and> mem_mono mem (bufs_mem bufs)"
proof -
  obtain buf where buf: "buf_chain_new mem clen = (Inr buf, mem')" and k: "keep \<noteq> 0" "keep \<le> mx"
    and b: "bufs = \<lparr>bufs_chain = [nghttp2_buf_shift_right buf off], bufs_cur = 0, bufs_mem = mem',
              chunk_length = clen, max_chunk = mx, chunk_used = 1, chunk_keep = keep, bufs_offset = off\<rparr>"
    using assms(1) by (auto simp: nghttp2_bufs_init3_def split: if_splits prod.splits sum.splits)
  have f: "buf_pos buf = 0" "buf_last buf = 0" "length (buf_data buf) = clen" "mem_mono mem mem'"
    using buf_chain_new_cases [of mem clen] buf by auto
  have "(clen - off) + (mx - 1) * (clen - off) = mx * (clen - off)" using k by (cases mx) auto
  then show ?thesis using f k assms(2)
    by (simp add: b bufs_regular_def bufs_wf_def buf_wf_def nghttp2_buf_shift_right_def bufs_bytes_def buf_bytes_def
        nghttp2_buf_len_def nghttp2_buf_avail_def bufs_cfg_def bufs_room_def)
qed

lemma reset_chunks_correct:
  "reset_chunks off k chain = (bs, trunc) \<Longrightarrow>
   bs = map (\<lambda>buf. nghttp2_buf_shift_right (nghttp2_buf_reset buf) off) (if k = 0 then chain else take k chain) \<and>
   trunc = (0 < k \<and> k \<le> length chain)"
proof (induction off k chain arbitrary: bs trunc rule: reset_chunks.induct)
  case (2 off k buf rest)
  obtain bs' trunc' where r: "reset_chunks off (k - 1) rest = (bs', trunc')" by force
  show ?case
  proof (cases "k = 1")
    case True
    then show ?thesis using "2.prems" by auto
  next
    case False
    then show ?thesis using "2.IH" [OF _ False r] "2.prems" r by (cases k) (auto simp: Let_def split: if_splits)
  qed
qed (auto split: if_splits)

lemma bufs_reset_correct:
  assumes "bufs_regular bufs"
  shows "bufs_regular (nghttp2_bufs_reset bufs) \<and> bufs_bytes (nghttp2_bufs_reset bufs) = [] \<and>
         bufs_cfg (nghttp2_bufs_reset bufs) = bufs_cfg bufs \<and> bufs_mem (nghttp2_bufs_reset bufs) = bufs_mem bufs"
proof -
  obtain bs trunc where r: "reset_chunks (bufs_offset bufs) (chunk_keep bufs) (bufs_chain bufs) = (bs, trunc)" by force
  have keep: "0 < chunk_keep bufs" using assms by (simp add: bufs_regular_def bufs_wf_def)
  note c = reset_chunks_correct [OF r]
  have bs: "bs = map (\<lambda>buf. nghttp2_buf_shift_right (nghttp2_buf_reset buf) (bufs_offset bufs))
      (take (chunk_keep bufs) (bufs_chain bufs))" and trunc: "trunc = (chunk_keep bufs \<le> length (bufs_chain bufs))"
    using c keep by auto
  have sub: "set (take (chunk_keep bufs) (bufs_chain bufs)) \<subseteq> set (bufs_chain bufs)" by (rule set_take_subset)
  have el: "\<forall>buf \<in> set bs. buf_pos buf = bufs_offset bufs \<and> buf_last buf = bufs_offset bufs \<and>
      bufs_offset bufs < length (buf_data buf)"
    using assms sub by (auto simp: bs nghttp2_buf_shift_right_def nghttp2_buf_reset_def bufs_regular_def list_all_iff)
  have ne: "bs \<noteq> []" using assms keep by (auto simp: bs bufs_regular_def bufs_wf_def)
  have lb: "length bs = (if trunc then chunk_keep bufs else chunk_used bufs)"
    using assms by (auto simp: bs trunc bufs_regular_def bufs_wf_def)
  have "concat (map buf_bytes bs) = []" using el by (simp add: buf_bytes_def nghttp2_buf_len_def)
  moreover have "\<forall>buf \<in> set (drop (Suc 0) bs). buf_pos buf = bufs_offset bufs \<and> buf_last buf = bufs_offset bufs"
    using el by (auto dest: in_set_dropD)
  ultimately show ?thesis using assms el ne lb r
    by (auto simp: nghttp2_bufs_reset_def bufs_regular_def bufs_wf_def buf_wf_def bufs_bytes_def bufs_cfg_def list_all_iff
        nghttp2_buf_len_def Let_def)
qed

lemma buf_cpymem_simps:
  "buf_cpymem buf [] = buf" "buf_cpymem (buf_cpymem buf xs) ys = buf_cpymem buf (xs @ ys)"
proof -
  have "write_bytes (write_bytes d n xs) (n + length xs) ys = write_bytes d n (xs @ ys)" for d n
    by (induction d n xs rule: write_bytes.induct) auto
  then show "buf_cpymem buf [] = buf" "buf_cpymem (buf_cpymem buf xs) ys = buf_cpymem buf (xs @ ys)"
    by (simp_all add: buf_cpymem_def)
qed

lemma chain_bytes_length:
  "list_all buf_wf chain \<Longrightarrow> length (concat (map buf_bytes chain)) = sum_list (map nghttp2_buf_len chain)"
  by (induction chain) (auto simp: buf_wf_def buf_bytes_def nghttp2_buf_len_def)

lemma bufs_gather:
  assumes "list_all buf_wf chain" "length d = sum_list (map nghttp2_buf_len chain)"
  shows "buf_data (foldl (\<lambda>res buf. buf_cpymem res (buf_bytes buf)) (nghttp2_buf_wrap_init d) chain) =
         concat (map buf_bytes chain)"
proof -
  have f: "foldl (\<lambda>res buf. buf_cpymem res (buf_bytes buf)) b chain = buf_cpymem b (concat (map buf_bytes chain))" for b
    by (induction chain arbitrary: b) (simp_all add: buf_cpymem_simps)
  show ?thesis using assms(2) chain_bytes_length [OF assms(1)]
    unfolding f by (simp add: buf_cpymem_def nghttp2_buf_wrap_init_def write_bytes_append)
qed

section \<open>Properties\<close>

text \<open>
  C10: \<^verbatim>\<open>nghttp2_bufs_add\<close> always returns.  On success the chain holds exactly the old bytes followed by the
  new ones and has that much less room; it fails only if the data is longer than the room left, or an
  allocation failed, and what it wrote before is a prefix of the data.  No buffer is overrun.
\<close>

theorem bufs_add_appends:
  assumes "bufs_wf bufs"
  shows "\<exists>r bufs' n. nghttp2_bufs_add bufs data = Some (r, bufs') \<and> bufs_wf bufs' \<and> n \<le> length data \<and>
      bufs_bytes bufs' = bufs_bytes bufs @ take n data \<and>
      (case r of
         Inr _ \<Rightarrow> n = length data \<and> bufs_room bufs' + n = bufs_room bufs
       | Inl e \<Rightarrow> e = ERR_BUFFER_ERROR \<and> bufs_room bufs < length data \<or>
                  e = ERR_NOMEM \<and> \<not> mem_reliable (bufs_mem bufs))"
  using bufs_add_correct [OF assms, of data] by (fastforce split: sum.splits)

definition bufs_sample :: nghttp2_bufs where
  "bufs_sample = \<lparr>bufs_chain = [\<lparr>buf_data = [0, 0, 0], buf_pos = 1, buf_last = 1, buf_mark = 0\<rparr>], bufs_cur = 0,
     bufs_mem = \<lparr>mem_ok = [], mem_junk = \<lambda>_. 255\<rparr>, chunk_length = 3, max_chunk = 2, chunk_used = 1,
     chunk_keep = 1, bufs_offset = 1\<rparr>"

lemma bufs_sample_regular: "bufs_regular bufs_sample" "bufs_wf bufs_sample"
  "bufs_bytes bufs_sample = []" "bufs_room bufs_sample = 4" "mem_reliable (bufs_mem bufs_sample)"
  by (simp_all add: bufs_sample_def bufs_regular_def bufs_wf_def buf_wf_def bufs_bytes_def buf_bytes_def
      nghttp2_buf_len_def nghttp2_buf_avail_def bufs_room_def mem_reliable_def)

theorem bufs_add_appends_witness:
  "\<exists>bufs'. nghttp2_bufs_add bufs_sample [10, 11, 12] = Some (Inr (), bufs') \<and> bufs_wf bufs' \<and>
     bufs_bytes bufs' = [10, 11, 12] \<and> bufs_room bufs' = 1"
proof -
  obtain r bufs' n where a: "nghttp2_bufs_add bufs_sample [10, 11, 12] = Some (r, bufs')" "bufs_wf bufs'"
    "bufs_bytes bufs' = bufs_bytes bufs_sample @ take n [10, 11, 12]"
    "case r of Inr _ \<Rightarrow> n = length [10, 11, 12 :: u8] \<and> bufs_room bufs' + n = bufs_room bufs_sample
     | Inl e \<Rightarrow> e = ERR_BUFFER_ERROR \<and> bufs_room bufs_sample < length [10, 11, 12 :: u8] \<or>
         e = ERR_NOMEM \<and> \<not> mem_reliable (bufs_mem bufs_sample)"
    using bufs_add_appends [OF bufs_sample_regular(2), of "[10, 11, 12]"] by blast
  then show ?thesis using bufs_sample_regular by (cases r) auto
qed

text \<open>
  C31: \<^verbatim>\<open>nghttp2_bufs_addb\<close> on a chain of equal chunks: one byte is appended inside the memory of a chunk, or
  the chain is full, or an allocation failed.
\<close>

theorem bufs_addb_appends:
  assumes "bufs_regular bufs"
  shows "case nghttp2_bufs_addb bufs b of
     (Inl e, bufs') \<Rightarrow> bufs_regular bufs' \<and> bufs_bytes bufs' = bufs_bytes bufs \<and>
       (e = ERR_BUFFER_ERROR \<and> bufs_room bufs = 0 \<or> e = ERR_NOMEM \<and> \<not> mem_reliable (bufs_mem bufs))
   | (Inr _, bufs') \<Rightarrow> bufs_regular bufs' \<and> bufs_bytes bufs' = bufs_bytes bufs @ [b] \<and>
       bufs_room bufs' + 1 = bufs_room bufs"
  using addb_correct [OF assms, of b] by (auto simp: bufs_failed_def bufs_kept_def split: sum.splits)

theorem bufs_addb_appends_witness:
  "\<exists>bufs'. nghttp2_bufs_addb bufs_sample 7 = (Inr (), bufs') \<and> bufs_bytes bufs' = [7] \<and> bufs_room bufs' = 3"
  using bufs_addb_appends [OF bufs_sample_regular(1), of 7] bufs_sample_regular
  by (auto split: prod.splits sum.splits)

text \<open>
  A flaw: wrapping application memory in pieces, one of which is empty, breaks \<^verbatim>\<open>nghttp2_bufs_addb\<close>:
  \<^verbatim>\<open>bufs_ensure_addb\<close> moves to the next piece only once and does not look at its size, so the second
  byte is stored past the end of the empty piece although the third piece has room.
\<close>

lemma bufs_addb_overruns_empty_piece:
  "\<exists>bufs bufs1 bufs2 mem'. nghttp2_bufs_wrap_init2 \<lparr>mem_ok = [], mem_junk = \<lambda>_. 0\<rparr> [[0], [], [0]] = (Inr bufs, mem') \<and>
     bufs_wf bufs \<and> bufs_room bufs = 2 \<and> nghttp2_bufs_addb bufs 1 = (Inr (), bufs1) \<and>
     nghttp2_bufs_addb bufs1 2 = (Inr (), bufs2) \<and>
     buf_last (cur_buf bufs2) > length (buf_data (cur_buf bufs2)) \<and> bufs_bytes bufs2 = [1]"
  by (simp add: nghttp2_bufs_wrap_init2_def nghttp2_buf_wrap_init_def mem_call_def bufs_wf_def buf_wf_def
      nghttp2_buf_len_def bufs_room_def nghttp2_buf_avail_def nghttp2_bufs_addb_def after_ensure_def bufs_ensure_addb_def
      bufs_alloc_chain_def nghttp2_bufs_fast_addb_def set_cur_buf_def buf_cpymem_def bufs_bytes_def buf_bytes_def)

text \<open>
  C27: \<^verbatim>\<open>nghttp2_bufs_remove\<close> gives the bytes of the whole chain in order and their number, and leaves the chain
  as it was; \<^verbatim>\<open>nghttp2_bufs_remove_copy\<close> gives the same to memory of that size.
\<close>

theorem bufs_remove_gathers:
  assumes "bufs_wf bufs" "length dest = nghttp2_bufs_len bufs"
  shows "(case fst (nghttp2_bufs_remove bufs) of
            Inl e \<Rightarrow> e = ERR_NOMEM \<and> \<not> mem_reliable (bufs_mem bufs)
          | Inr (len, out) \<Rightarrow> len = length (bufs_bytes bufs) \<and> out = (if len = 0 then None else Some (bufs_bytes bufs))) \<and>
         bufs_bytes (snd (nghttp2_bufs_remove bufs)) = bufs_bytes bufs \<and>
         nghttp2_bufs_remove_copy bufs dest = (length (bufs_bytes bufs), bufs_bytes bufs)"
proof -
  have wf: "list_all buf_wf (bufs_chain bufs)" using assms by (simp add: bufs_wf_def)
  note len = chain_bytes_length [OF wf, symmetric]
  have copy: "nghttp2_bufs_remove_copy bufs dest = (length (bufs_bytes bufs), bufs_bytes bufs)"
    using bufs_gather [OF wf, of dest] assms(2)
    by (simp add: nghttp2_bufs_remove_copy_def nghttp2_bufs_len_def bufs_bytes_def len)
  obtain ok mem1 where c: "mem_call (bufs_mem bufs) = (ok, mem1)" by force
  have ok: "mem_reliable (bufs_mem bufs) \<Longrightarrow> ok" using mem_call_reliable [of "bufs_mem bufs"] c by simp
  have "buf_data (foldl (\<lambda>res buf. buf_cpymem res (buf_bytes buf))
      (nghttp2_buf_wrap_init (mem_fresh (bufs_mem bufs) (length (bufs_bytes bufs)))) (bufs_chain bufs)) = bufs_bytes bufs"
    using bufs_gather [OF wf, of "mem_fresh (bufs_mem bufs) (length (bufs_bytes bufs))"] len by (simp add: bufs_bytes_def)
  then show ?thesis using copy ok len
    by (auto simp: nghttp2_bufs_remove_def Let_def c bufs_bytes_def [symmetric]) (auto simp: bufs_bytes_def)
qed

theorem bufs_remove_gathers_witness:
  "nghttp2_bufs_remove_copy (nghttp2_bufs_fast_addb bufs_sample 9) [0] = (1, [9])"
proof -
  have av: "bufs_cur_avail bufs_sample > 0" by (simp add: bufs_sample_def nghttp2_buf_avail_def)
  note f = fast_addb_correct [OF bufs_sample_regular(1) av, of 9]
  have wf: "bufs_wf (nghttp2_bufs_fast_addb bufs_sample 9)" using f(1) by (simp add: bufs_kept_def bufs_regular_def)
  have "length [0 :: u8] = nghttp2_bufs_len (nghttp2_bufs_fast_addb bufs_sample 9)"
    by (simp add: nghttp2_bufs_fast_addb_def bufs_sample_def nghttp2_bufs_len_def nghttp2_buf_len_def set_cur_buf_def
        buf_cpymem_def)
  then show ?thesis using bufs_remove_gathers [OF wf, of "[0]"] f(2) bufs_sample_regular(3) by simp
qed

end
