(* ===== verification/Huffman.thy ===== *)
theory Huffman
  imports Huffman_Tree Buf
begin

unbundle bit_operations_syntax

text \<open>
  \<^verbatim>\<open>lib/nghttp2_hd_huffman.c\<close>: Huffman coding of header strings into a buffer chain, and decoding with an
  automaton that takes four bits at a time.
\<close>

section \<open>Encoding\<close>

text \<open>A conditional \<^verbatim>\<open>nghttp2_bufs_addb\<close> of the slow path, and a conditional store of the fast path.\<close>

definition addb_if :: "bool \<Rightarrow> u8 \<Rightarrow> nghttp2_bufs \<Rightarrow> (nghttp2_error + unit) \<times> nghttp2_bufs" where
  "addb_if c b bufs = (if c then nghttp2_bufs_addb bufs b else (Inr (), bufs))"

definition fast_addb_if :: "bool \<Rightarrow> u8 \<Rightarrow> nghttp2_bufs \<Rightarrow> nghttp2_bufs" where
  "fast_addb_if c b bufs = (if c then nghttp2_bufs_fast_addb bufs b else bufs)"

definition dec8_if :: "nat \<Rightarrow> nat \<Rightarrow> nat" where
  "dec8_if m nbits = (if nbits > m then nbits - 8 else nbits)"

text \<open>
  Results are the number of unfilled bits of the byte at \<^verbatim>\<open>last\<close>, the local \<^verbatim>\<open>avail\<close> and the chain.
\<close>

definition huff_slow_path ::
  "nghttp2_bufs \<Rightarrow> nat \<Rightarrow> nat \<Rightarrow> u32 \<Rightarrow> (nghttp2_error + nat) \<times> nat \<times> nghttp2_bufs" where
  "huff_slow_path bufs avail nbits code =
     (case addb_if (nbits > 24) (ucast (drop_bit 24 code)) bufs of
        (Inl e, bufs1) \<Rightarrow> (Inl e, avail, bufs1)
      | (Inr _, bufs1) \<Rightarrow>
          let nbits1 = dec8_if 24 nbits in
          (case addb_if (nbits1 > 16) (ucast (drop_bit 16 code)) bufs1 of
             (Inl e, bufs2) \<Rightarrow> (Inl e, avail, bufs2)
           | (Inr _, bufs2) \<Rightarrow>
               let nbits2 = dec8_if 16 nbits1 in
               (case addb_if (nbits2 > 8) (ucast (drop_bit 8 code)) bufs2 of
                  (Inl e, bufs3) \<Rightarrow> (Inl e, avail, bufs3)
                | (Inr _, bufs3) \<Rightarrow>
                    let nbits3 = dec8_if 8 nbits2 in
                    if nbits3 = 8 then
                      (case nghttp2_bufs_addb bufs3 (ucast code) of
                         (Inl e, bufs4) \<Rightarrow> (Inl e, avail, bufs4)
                       | (Inr _, bufs4) \<Rightarrow> (Inr 8, nghttp2_buf_avail (cur_buf bufs4), bufs4))
                    else
                      (case nghttp2_bufs_addb_hold bufs3 (ucast code) of
                         (Inl e, bufs4) \<Rightarrow> (Inl e, avail, bufs4)
                       | (Inr _, bufs4) \<Rightarrow> (Inr (8 - nbits3), nghttp2_buf_avail (cur_buf bufs4), bufs4)))))"

definition huff_fast_path :: "nghttp2_bufs \<Rightarrow> nat \<Rightarrow> u32 \<Rightarrow> (nghttp2_error + nat) \<times> nat \<times> nghttp2_bufs" where
  "huff_fast_path bufs nbits code =
     (if nbits < 8 then
        let bufs1 = nghttp2_bufs_fast_addb_hold bufs (ucast code) in
        (Inr (8 - nbits), nghttp2_buf_avail (cur_buf bufs1), bufs1)
      else
        let bufs1 = fast_addb_if (nbits > 24) (ucast (drop_bit 24 code)) bufs;
            nbits1 = dec8_if 24 nbits;
            bufs2 = fast_addb_if (nbits1 > 16) (ucast (drop_bit 16 code)) bufs1;
            nbits2 = dec8_if 16 nbits1;
            bufs3 = fast_addb_if (nbits2 > 8) (ucast (drop_bit 8 code)) bufs2;
            nbits3 = dec8_if 8 nbits2 in
        if nbits3 = 8 then
          let bufs4 = nghttp2_bufs_fast_addb bufs3 (ucast code) in
          (Inr 8, nghttp2_buf_avail (cur_buf bufs4), bufs4)
        else
          let bufs4 = nghttp2_bufs_fast_addb_hold bufs3 (ucast code) in
          (Inr (8 - nbits3), nghttp2_buf_avail (cur_buf bufs4), bufs4))"

definition huff_encode_sym ::
  "nghttp2_bufs \<Rightarrow> nat \<Rightarrow> nat \<Rightarrow> nghttp2_huff_sym \<Rightarrow> (nghttp2_error + nat) \<times> nat \<times> nghttp2_bufs" where
  "huff_encode_sym bufs avail rembits hs =
     (let nbits = unat (hs_nbits hs); code = hs_code hs in
      if rembits > nbits then
        (Inr (rembits - nbits), avail, nghttp2_bufs_fast_orb_hold bufs (ucast (push_bit (rembits - nbits) code)))
      else if rembits = nbits then (Inr 8, avail - 1, nghttp2_bufs_fast_orb bufs (ucast code))
      else
        let bufs1 = nghttp2_bufs_fast_orb bufs (ucast (drop_bit (nbits - rembits) code));
            avail1 = avail - 1;
            nbits1 = nbits - rembits;
            code1 = (if nbits1 mod 8 \<noteq> 0 then push_bit (8 - nbits1 mod 8) code else code) in
        if avail1 < (nbits1 + 7) div 8 then huff_slow_path bufs1 avail1 nbits1 code1
        else huff_fast_path bufs1 nbits1 code1)"

definition nghttp2_hd_huff_encode_count :: "u8 list \<Rightarrow> nat" where
  "nghttp2_hd_huff_encode_count src =
     (sum_list (map (\<lambda>b. unat (hs_nbits (huff_sym_table ! unat b))) src) + 7) div 8"

text \<open>The loop of \<^verbatim>\<open>nghttp2_hd_huff_encode\<close>.\<close>

fun huff_encode_loop ::
  "nghttp2_bufs \<Rightarrow> nat \<Rightarrow> nat \<Rightarrow> u8 list \<Rightarrow> (nghttp2_error + nat) \<times> nat \<times> nghttp2_bufs" where
  "huff_encode_loop bufs avail rembits [] = (Inr rembits, avail, bufs)"
| "huff_encode_loop bufs avail rembits (b # src) =
     (let (rv, avail1, bufs1) =
        (if rembits = 8 then
           (if avail \<noteq> 0 then (Inr (), avail, nghttp2_bufs_fast_addb_hold bufs 0)
            else
              (case nghttp2_bufs_addb_hold bufs 0 of
                 (Inl e, bufs1) \<Rightarrow> (Inl e, avail, bufs1)
               | (Inr _, bufs1) \<Rightarrow> (Inr (), nghttp2_buf_avail (cur_buf bufs1), bufs1)))
         else (Inr (), avail, bufs)) in
      case rv of
        Inl e \<Rightarrow> (Inl e, avail1, bufs1)
      | Inr _ \<Rightarrow>
          (case huff_encode_sym bufs1 avail1 rembits (huff_sym_table ! unat b) of
             (Inl e, avail2, bufs2) \<Rightarrow> (Inl e, avail2, bufs2)
           | (Inr rembits1, avail2, bufs2) \<Rightarrow> huff_encode_loop bufs2 avail2 rembits1 src))"

text \<open>\<open>None\<close> is the failed assertion before the padding.\<close>

definition nghttp2_hd_huff_encode ::
  "nghttp2_bufs \<Rightarrow> u8 list \<Rightarrow> ((nghttp2_error + unit) \<times> nghttp2_bufs) option" where
  "nghttp2_hd_huff_encode bufs src =
     (case huff_encode_loop bufs (nghttp2_buf_avail (cur_buf bufs)) 8 src of
        (Inl e, _, bufs1) \<Rightarrow> Some (Inl e, bufs1)
      | (Inr rembits, avail, bufs1) \<Rightarrow>
          if rembits < 8 then
            (if avail = 0 then None
             else
               let hs = huff_sym_table ! 256 in
               Some (Inr (), nghttp2_bufs_fast_orb bufs1
                 (ucast (drop_bit (unat (hs_nbits hs) - rembits) (hs_code hs)))))
          else Some (Inr (), bufs1))"

section \<open>Decoding\<close>

record nghttp2_hd_huff_decode_context =
  hc_state :: u8
  hc_accept :: u8

definition nghttp2_hd_huff_decode_context_init :: nghttp2_hd_huff_decode_context where
  "nghttp2_hd_huff_decode_context_init = \<lparr>hc_state = 0, hc_accept = 1\<rparr>"

definition HUFF_ACCEPTED :: u8 where "HUFF_ACCEPTED = 1"
definition HUFF_SYM :: u8 where "HUFF_SYM = 2"
definition HUFF_FAIL :: u8 where "HUFF_FAIL = 4"

text \<open>One half of the loop body: the entry for four bits; \<open>None\<close> if it fails.\<close>

definition huff_decode_nibble :: "u8 \<Rightarrow> u8 \<Rightarrow> nghttp2_buf \<Rightarrow> (nghttp2_huff_decode \<times> nghttp2_buf) option" where
  "huff_decode_nibble st idx buf =
     (let t = huff_decode_table ! unat st ! unat idx in
      if dec_flags t AND HUFF_FAIL \<noteq> 0 then None
      else Some (t, if dec_flags t AND HUFF_SYM \<noteq> 0 then buf_cpymem buf [dec_sym t] else buf))"

text \<open>On failure the context keeps the state of the last whole byte; the symbols already written stay.\<close>

fun huff_decode_loop ::
  "nghttp2_hd_huff_decode_context \<Rightarrow> nghttp2_buf \<Rightarrow> u8 list \<Rightarrow>
   (nghttp2_error + unit) \<times> nghttp2_hd_huff_decode_context \<times> nghttp2_buf" where
  "huff_decode_loop ctx buf [] = (Inr (), ctx, buf)"
| "huff_decode_loop ctx buf (b # src) =
     (case huff_decode_nibble (hc_state ctx) (drop_bit 4 b) buf of
        None \<Rightarrow> (Inl ERR_HEADER_COMP, ctx, buf)
      | Some (t, buf1) \<Rightarrow>
          (case huff_decode_nibble (dec_state t) (b AND 0xf) buf1 of
             None \<Rightarrow> (Inl ERR_HEADER_COMP, ctx, buf1)
           | Some (t, buf2) \<Rightarrow>
               huff_decode_loop
                 (ctx\<lparr>hc_state := dec_state t,
                      hc_accept := (if dec_flags t AND HUFF_ACCEPTED \<noteq> 0 then 1 else 0)\<rparr>) buf2 src))"

definition nghttp2_hd_huff_decode ::
  "nghttp2_hd_huff_decode_context \<Rightarrow> nghttp2_buf \<Rightarrow> u8 list \<Rightarrow> bool \<Rightarrow>
   (nghttp2_error + nat) \<times> nghttp2_hd_huff_decode_context \<times> nghttp2_buf" where
  "nghttp2_hd_huff_decode ctx buf src final =
     (case huff_decode_loop ctx buf src of
        (Inl e, ctx1, buf1) \<Rightarrow> (Inl e, ctx1, buf1)
      | (Inr _, ctx1, buf1) \<Rightarrow>
          if final \<and> hc_accept ctx1 = 0 then (Inl ERR_HEADER_COMP, ctx1, buf1)
          else (Inr (length src), ctx1, buf1))"

section \<open>Decoding follows the tree\<close>

lemma huff_decode_nibble_tree:
  assumes t: "t \<in> set huff_nodes" and idx: "idx < 16"
  shows "case tree_decode t (nibble_bits idx) of
           None \<Rightarrow> huff_decode_nibble (node_id t) idx buf = None
         | Some (out, u) \<Rightarrow> \<exists>e. huff_decode_nibble (node_id t) idx buf = Some (e, buf_cpymem buf out) \<and>
             dec_state e = node_id u \<and> (dec_flags e AND HUFF_ACCEPTED \<noteq> 0) = node_accept u"
proof -
  have e: "huff_decode_table ! unat (node_id t) ! unat idx = tree_entry (tree_decode t (nibble_bits idx))"
    using huff_table_lookup [OF t] nibbles_nth [OF idx] by (simp add: tree_row_def)
  show ?thesis
  proof (cases "tree_decode t (nibble_bits idx)")
    case None
    then show ?thesis by (simp add: huff_decode_nibble_def e HUFF_FAIL_def)
  next
    case (Some p)
    then obtain out u where p: "tree_decode t (nibble_bits idx) = Some (out, u)" by (cases p) auto
    have "length out \<le> 1" by (rule nibble_one_symbol [OF _ p]) (simp add: nibble_bits_def)
    then consider "out = []" | s where "out = [s]" by (cases out) auto
    then show ?thesis
      by cases (simp_all add: p huff_decode_nibble_def e HUFF_FAIL_def HUFF_SYM_def HUFF_ACCEPTED_def buf_cpymem_def)
  qed
qed

lemma huff_decode_loop_tree:
  assumes "t \<in> set huff_nodes" "hc_state ctx = node_id t" "(hc_accept ctx \<noteq> 0) = node_accept t"
  shows "case tree_decode t (bytes_bits src) of
           None \<Rightarrow> fst (huff_decode_loop ctx buf src) = Inl ERR_HEADER_COMP
         | Some (out, u) \<Rightarrow> \<exists>ctx'. huff_decode_loop ctx buf src = (Inr (), ctx', buf_cpymem buf out) \<and>
             hc_state ctx' = node_id u \<and> (hc_accept ctx' \<noteq> 0) = node_accept u"
  using assms
proof (induction src arbitrary: t ctx buf)
  case Nil
  then show ?case by (simp add: buf_cpymem_simps)
next
  case (Cons b src)
  note n1 = huff_decode_nibble_tree [OF Cons.prems(1) nibble_less(1), of b buf]
  let ?hi = "nibble_bits (drop_bit 4 b)" and ?lo = "nibble_bits (b AND 0xf)"
  have split: "bytes_bits (b # src) = ?hi @ ?lo @ bytes_bits src" by (simp add: byte_bits_nibbles)
  show ?case
  proof (cases "tree_decode t ?hi")
    case None
    then show ?thesis using n1 Cons.prems(2) unfolding split by (simp add: tree_decode_append)
  next
    case (Some p)
    obtain o1 u1 where p: "tree_decode t ?hi = Some (o1, u1)" using Some by (cases p) auto
    obtain e1 where e1: "huff_decode_nibble (node_id t) (drop_bit 4 b) buf = Some (e1, buf_cpymem buf o1)"
      "dec_state e1 = node_id u1" using n1 p by auto
    have u1: "u1 \<in> set huff_nodes" using tree_decode_closed [OF Cons.prems(1) p] .
    note n2 = huff_decode_nibble_tree [OF u1 nibble_less(2), of b "buf_cpymem buf o1"]
    show ?thesis
    proof (cases "tree_decode u1 ?lo")
      case None
      then show ?thesis using n2 e1 p Cons.prems(2) unfolding split by (simp add: tree_decode_append)
    next
      case (Some q)
      obtain o2 u2 where q: "tree_decode u1 ?lo = Some (o2, u2)" using Some by (cases q) auto
      obtain e2 where e2: "huff_decode_nibble (node_id u1) (b AND 0xf) (buf_cpymem buf o1) =
          Some (e2, buf_cpymem buf (o1 @ o2))" "dec_state e2 = node_id u2"
        "(dec_flags e2 AND HUFF_ACCEPTED \<noteq> 0) = node_accept u2"
        using n2 q by (auto simp: buf_cpymem_simps)
      have u2: "u2 \<in> set huff_nodes" using tree_decode_closed [OF u1 q] .
      let ?ctx = "ctx\<lparr>hc_state := dec_state e2, hc_accept := (if dec_flags e2 AND HUFF_ACCEPTED \<noteq> 0 then 1 else 0)\<rparr>"
      have step: "huff_decode_loop ctx buf (b # src) = huff_decode_loop ?ctx (buf_cpymem buf (o1 @ o2)) src"
        using e1 e2 Cons.prems(2) by simp
      have "tree_decode t (bytes_bits (b # src)) = map_option (apfst ((@) (o1 @ o2))) (tree_decode u2 (bytes_bits src))"
        unfolding split by (simp add: tree_decode_append p q map_option.compositionality apfst_compose comp_def append_section)
      then show ?thesis
        using Cons.IH [OF u2, of ?ctx "buf_cpymem buf (o1 @ o2)"] e2 unfolding step
        by (auto simp: buf_cpymem_simps split: option.splits)
    qed
  qed
qed

section \<open>Encoding writes the code of the string\<close>

lemma unat_u8_less: "unat (b :: u8) < 256"
  using unsigned_less [of b] by simp

lemma byte_bits_nth: "i < 8 \<Longrightarrow> byte_bits b ! i = bit b (7 - i)"
  by (auto simp: byte_bits_def less_Suc_eq eval_nat_numeral)

lemma length_byte_bits [simp]: "length (byte_bits b) = 8"
  by (simp add: byte_bits_def)

lemma length_bytes_bits [simp]: "length (bytes_bits bs) = 8 * length bs"
  by (induction bs) simp_all

lemma length_code_bits [simp]: "length (code_bits n c) = n"
  by (induction n) simp_all

lemma code_bits_nth: "i < n \<Longrightarrow> code_bits n c ! i = bit c (n - 1 - i)"
proof (induction n arbitrary: i)
  case (Suc n)
  then show ?case by (cases i) simp_all
qed simp

lemma code_bits_append: "code_bits (m + n) c = code_bits m (drop_bit n c) @ code_bits n c"
  by (induction m) (simp_all add: bit_drop_bit_eq add.commute)

lemma byte_bits_code: "byte_bits (ucast (c :: u32)) = code_bits 8 c"
  by (simp add: byte_bits_def code_bits_numeral bit_simps)

lemma code_bits_push: "k + n \<le> 32 \<Longrightarrow> take n (code_bits (n + k) (push_bit k c)) = code_bits n c"
  by (rule nth_equalityI) (auto simp: code_bits_nth bit_simps)

text \<open>The bytes before the last one of an aligned code of \<open>nbits\<close> bits.\<close>

definition lead_bytes :: "nat \<Rightarrow> u32 \<Rightarrow> u8 list" where
  "lead_bytes nbits code = (if nbits > 24 then [ucast (drop_bit 24 code)] else []) @
     (if nbits > 16 then [ucast (drop_bit 16 code)] else []) @ (if nbits > 8 then [ucast (drop_bit 8 code)] else [])"

lemma lead_bytes_bits:
  assumes "0 < nbits" "nbits \<le> 32"
  shows "bytes_bits (lead_bytes nbits code) @ byte_bits (ucast code) = code_bits (8 * ((nbits + 7) div 8)) code"
proof -
  have c: "code_bits 16 code = byte_bits (ucast (drop_bit 8 code)) @ byte_bits (ucast code)"
    "code_bits 24 code = byte_bits (ucast (drop_bit 16 code)) @ code_bits 16 code"
    "code_bits 32 code = byte_bits (ucast (drop_bit 24 code)) @ code_bits 24 code"
    using code_bits_append [of 8 8 code] code_bits_append [of 8 16 code] code_bits_append [of 8 24 code]
    by (simp_all add: byte_bits_code)
  consider "nbits \<le> 8" | "8 < nbits" "nbits \<le> 16" | "16 < nbits" "nbits \<le> 24" | "24 < nbits" by linarith
  then show ?thesis
  proof cases
    case 1
    then have "(nbits + 7) div 8 = 1" using assms by linarith
    then show ?thesis using 1 by (simp add: lead_bytes_def byte_bits_code)
  next
    case 2
    then have "(nbits + 7) div 8 = 2" by linarith
    then show ?thesis using 2 c by (simp add: lead_bytes_def)
  next
    case 3
    then have "(nbits + 7) div 8 = 3" by linarith
    then show ?thesis using 3 c by (simp add: lead_bytes_def)
  next
    case 4
    then have "(nbits + 7) div 8 = 4" using assms by linarith
    then show ?thesis using 4 c by (simp add: lead_bytes_def)
  qed
qed

fun addb_list :: "u8 list \<Rightarrow> nghttp2_bufs \<Rightarrow> (nghttp2_error + unit) \<times> nghttp2_bufs" where
  "addb_list [] bufs = (Inr (), bufs)"
| "addb_list (b # bs) bufs =
     (case nghttp2_bufs_addb bufs b of (Inl e, bufs1) \<Rightarrow> (Inl e, bufs1) | (Inr _, bufs1) \<Rightarrow> addb_list bs bufs1)"

lemma addb_list_append:
  "addb_list (xs @ ys) bufs =
     (case addb_list xs bufs of (Inl e, bufs1) \<Rightarrow> (Inl e, bufs1) | (Inr _, bufs1) \<Rightarrow> addb_list ys bufs1)"
  by (induction xs arbitrary: bufs) (auto split: prod.splits sum.splits)

lemma addb_if_list: "addb_if c b bufs = addb_list (if c then [b] else []) bufs"
  by (auto simp: addb_if_def split: prod.splits sum.splits)

text \<open>The last byte: stored and passed if it is full, held otherwise.\<close>

definition last_byte :: "nat \<Rightarrow> nat \<Rightarrow> u32 \<Rightarrow> nghttp2_bufs \<Rightarrow> (nghttp2_error + nat) \<times> nat \<times> nghttp2_bufs" where
  "last_byte avail n code bufs =
     (case (if n = 8 then nghttp2_bufs_addb bufs (ucast code) else nghttp2_bufs_addb_hold bufs (ucast code)) of
        (Inl e, bufs1) \<Rightarrow> (Inl e, avail, bufs1)
      | (Inr _, bufs1) \<Rightarrow> (Inr (if n = 8 then 8 else 8 - n), bufs_cur_avail bufs1, bufs1))"

lemma slow_path_list:
  assumes "nbits \<le> 32"
  shows "huff_slow_path bufs avail nbits code =
     (case addb_list (lead_bytes nbits code) bufs of
        (Inl e, bufs1) \<Rightarrow> (Inl e, avail, bufs1)
      | (Inr _, bufs1) \<Rightarrow> last_byte avail (nbits - 8 * ((nbits - 1) div 8)) code bufs1)"
proof -
  have n1: "dec8_if 24 nbits > 16 \<longleftrightarrow> nbits > 16" and n2: "dec8_if 16 (dec8_if 24 nbits) > 8 \<longleftrightarrow> nbits > 8"
    using assms by (auto simp: dec8_if_def)
  have n3: "dec8_if 8 (dec8_if 16 (dec8_if 24 nbits)) = nbits - 8 * ((nbits - 1) div 8)"
  proof -
    consider "nbits \<le> 8" | "8 < nbits" "nbits \<le> 16" | "16 < nbits" "nbits \<le> 24" | "24 < nbits" by linarith
    then show ?thesis
    proof cases
      case 1
      then have "(nbits - 1) div 8 = 0" by simp
      then show ?thesis using 1 by (simp add: dec8_if_def)
    next
      case 2
      then have "(nbits - 1) div 8 = 1" by linarith
      then show ?thesis using 2 by (simp add: dec8_if_def)
    next
      case 3
      then have "(nbits - 1) div 8 = 2" by linarith
      then show ?thesis using 3 by (simp add: dec8_if_def)
    next
      case 4
      then have "(nbits - 1) div 8 = 3" using assms by linarith
      then show ?thesis using 4 assms by (simp add: dec8_if_def)
    qed
  qed
  let ?l1 = "if nbits > 24 then [ucast (drop_bit 24 code)] else []" and
      ?l2 = "if nbits > 16 then [ucast (drop_bit 16 code)] else []" and
      ?l3 = "if nbits > 8 then [ucast (drop_bit 8 code)] else []"
  obtain r1 bufs1 where a1: "addb_list ?l1 bufs = (r1, bufs1)" by (rule prod.exhaust)
  obtain r2 bufs2 where a2: "addb_list ?l2 bufs1 = (r2, bufs2)" by (rule prod.exhaust)
  obtain r3 bufs3 where a3: "addb_list ?l3 bufs2 = (r3, bufs3)" by (rule prod.exhaust)
  note unf = huff_slow_path_def Let_def n1 n2 n3 lead_bytes_def addb_if_list addb_list_append a1 prod.case
  show ?thesis
  proof (cases r1)
    case (Inl e)
    then show ?thesis unfolding unf by simp
  next
    case r1: (Inr u1)
    show ?thesis
    proof (cases r2)
      case (Inl e)
      then show ?thesis unfolding unf by (simp only: r1 a2 sum.case prod.case)
    next
      case r2: (Inr u2)
      show ?thesis
      proof (cases r3)
        case (Inl e)
        then show ?thesis unfolding unf by (simp only: r1 r2 a2 a3 sum.case prod.case)
      next
        case (Inr u3)
        then show ?thesis unfolding unf last_byte_def
          by (simp only: r1 r2 a2 a3 sum.case prod.case) (simp split: if_split)
      qed
    qed
  qed
qed

lemma addb_fast:
  assumes "bufs_cur_avail bufs > 0"
  shows "nghttp2_bufs_addb bufs b = (Inr (), nghttp2_bufs_fast_addb bufs b)"
    "nghttp2_bufs_addb_hold bufs b = (Inr (), nghttp2_bufs_fast_addb_hold bufs b)"
  using assms by (simp_all add: nghttp2_bufs_addb_def nghttp2_bufs_addb_hold_def after_ensure_def bufs_ensure_addb_def)

lemma addb_list_fast:
  "bufs_regular bufs \<Longrightarrow> length bs \<le> bufs_cur_avail bufs \<Longrightarrow>
   addb_list bs bufs = (Inr (), foldl nghttp2_bufs_fast_addb bufs bs) \<and>
   bufs_cur_avail (foldl nghttp2_bufs_fast_addb bufs bs) = bufs_cur_avail bufs - length bs"
proof (induction bs arbitrary: bufs)
  case (Cons b bs)
  have av: "bufs_cur_avail bufs > 0" using Cons.prems(2) by simp
  note f = fast_addb_correct [OF Cons.prems(1) av, of b]
  have "bufs_regular (nghttp2_bufs_fast_addb bufs b)" using f(1) by (simp add: bufs_kept_def)
  then show ?case using Cons.IH [of "nghttp2_bufs_fast_addb bufs b"] Cons.prems(2) f(4) addb_fast(1) [OF av] by simp
qed simp

lemma length_lead_bytes: "0 < nbits \<Longrightarrow> nbits \<le> 32 \<Longrightarrow> length (lead_bytes nbits code) = (nbits - 1) div 8"
proof -
  assume n: "0 < nbits" "nbits \<le> 32"
  consider "nbits \<le> 8" | "8 < nbits" "nbits \<le> 16" | "16 < nbits" "nbits \<le> 24" | "24 < nbits" by linarith
  then show ?thesis
  proof cases
    case 1
    then show ?thesis by (simp add: lead_bytes_def)
  next
    case 2
    then have "(nbits - 1) div 8 = 1" by linarith
    then show ?thesis using 2 by (simp add: lead_bytes_def)
  next
    case 3
    then have "(nbits - 1) div 8 = 2" by linarith
    then show ?thesis using 3 by (simp add: lead_bytes_def)
  next
    case 4
    then have "(nbits - 1) div 8 = 3" using n by linarith
    then show ?thesis using 4 by (simp add: lead_bytes_def)
  qed
qed

lemma fast_path_list:
  assumes "0 < nbits" "nbits \<le> 32"
  shows "huff_fast_path bufs nbits code =
     (let bufs1 = foldl nghttp2_bufs_fast_addb bufs (lead_bytes nbits code); n = nbits - 8 * ((nbits - 1) div 8);
          bufs2 = (if n = 8 then nghttp2_bufs_fast_addb bufs1 (ucast code) else nghttp2_bufs_fast_addb_hold bufs1 (ucast code)) in
      (Inr (if n = 8 then 8 else 8 - n), bufs_cur_avail bufs2, bufs2))"
proof -
  consider "nbits < 8" | "nbits = 8" | "8 < nbits" "nbits \<le> 16" | "16 < nbits" "nbits \<le> 24" | "24 < nbits" by linarith
  then show ?thesis
  proof cases
    case 1
    then show ?thesis by (simp add: huff_fast_path_def lead_bytes_def Let_def)
  next
    case 2
    then show ?thesis by (simp add: huff_fast_path_def lead_bytes_def Let_def fast_addb_if_def dec8_if_def)
  next
    case 3
    then have "(nbits - 1) div 8 = 1" by linarith
    then show ?thesis using 3 by (simp add: huff_fast_path_def lead_bytes_def Let_def fast_addb_if_def dec8_if_def)
  next
    case 4
    then have "(nbits - 1) div 8 = 2" "8 < nbits - 8" by linarith+
    then show ?thesis using 4 by (simp add: huff_fast_path_def lead_bytes_def Let_def fast_addb_if_def dec8_if_def)
  next
    case 5
    then have "(nbits - 1) div 8 = 3" "16 < nbits - 8" "8 < nbits - 16" using assms by linarith+
    then show ?thesis using 5 assms by (simp add: huff_fast_path_def lead_bytes_def Let_def fast_addb_if_def dec8_if_def)
  qed
qed

lemma fast_path_slow:
  assumes r: "bufs_regular bufs" and n: "0 < nbits" "nbits \<le> 32" and av: "(nbits + 7) div 8 \<le> bufs_cur_avail bufs"
  shows "huff_fast_path bufs nbits code = huff_slow_path bufs avail nbits code"
proof -
  have d: "(nbits + 7) div 8 = Suc ((nbits - 1) div 8)" using n by linarith
  let ?l = "lead_bytes nbits code"
  have l: "length ?l \<le> bufs_cur_avail bufs" using length_lead_bytes [OF n] av d by simp
  note a = addb_list_fast [OF r l]
  have av1: "bufs_cur_avail (foldl nghttp2_bufs_fast_addb bufs ?l) > 0"
    using a length_lead_bytes [OF n] av d by simp
  show ?thesis
    unfolding slow_path_list [OF n(2)] fast_path_list [OF n] last_byte_def
    using a addb_fast [OF av1] by (simp add: Let_def)
qed

lemma addb_list_correct:
  "bufs_regular bufs \<Longrightarrow> case addb_list bs bufs of
     (Inl e, bufs') \<Rightarrow> bufs_failed bufs (length bs) e bufs'
   | (Inr _, bufs') \<Rightarrow> bufs_kept bufs bufs' \<and> bufs_bytes bufs' = bufs_bytes bufs @ bs \<and>
       bufs_room bufs' + length bs = bufs_room bufs"
proof (induction bs arbitrary: bufs)
  case Nil
  then show ?case by (simp add: bufs_kept_refl)
next
  case (Cons b bs)
  obtain r bufs1 where a: "nghttp2_bufs_addb bufs b = (r, bufs1)" by force
  note c = addb_correct [OF Cons.prems, of b, unfolded a]
  show ?case
  proof (cases r)
    case (Inl e)
    then show ?thesis using c by (auto simp: a bufs_failed_def)
  next
    case (Inr u)
    then have k: "bufs_kept bufs bufs1" "bufs_bytes bufs1 = bufs_bytes bufs @ [b]" "bufs_room bufs1 + 1 = bufs_room bufs"
      using c by auto
    then have "bufs_regular bufs1" by (simp add: bufs_kept_def)
    note ih = Cons.IH [OF this]
    show ?thesis using ih k bufs_kept_failed [OF k(1) _ k(3), of "length bs"] bufs_kept_trans [OF k(1)]
      by (auto simp: a Inr split: prod.splits sum.splits)
  qed
qed

text \<open>
  The bits written so far: the whole bytes and the filled bits of the byte at \<^verbatim>\<open>last\<close>.  Between two symbols
  that byte exists only if it is partly filled, and its unfilled bits are zero.
\<close>

definition enc_bits :: "nghttp2_bufs \<Rightarrow> nat \<Rightarrow> bool list" where
  "enc_bits bufs rembits = bytes_bits (bufs_bytes bufs) @ take (8 - rembits) (byte_bits (bufs_pending bufs))"

definition enc_open :: "nghttp2_bufs \<Rightarrow> nat \<Rightarrow> nat \<Rightarrow> bool" where
  "enc_open bufs avail rembits \<longleftrightarrow> bufs_regular bufs \<and> avail = bufs_cur_avail bufs \<and> 0 < avail \<and>
     0 < rembits \<and> rembits \<le> 8 \<and> (\<forall>i < rembits. \<not> bit (bufs_pending bufs) i)"

definition enc_inv :: "nghttp2_bufs \<Rightarrow> nat \<Rightarrow> nat \<Rightarrow> bool" where
  "enc_inv bufs avail rembits \<longleftrightarrow> bufs_regular bufs \<and> avail = bufs_cur_avail bufs \<and> 0 < rembits \<and> rembits \<le> 8 \<and>
     (rembits < 8 \<longrightarrow> enc_open bufs avail rembits)"

definition bufs_total :: "nghttp2_bufs \<Rightarrow> nat" where
  "bufs_total bufs = bufs_room bufs + length (bufs_bytes bufs)"

text \<open>What every step of the encoder gives: the bits are appended, or the total room is too small for them.\<close>

fun enc_post :: "nghttp2_bufs \<Rightarrow> bool list \<Rightarrow> (nghttp2_error + nat) \<times> nat \<times> nghttp2_bufs \<Rightarrow> bool" where
  "enc_post bufs bs (Inl e, avail', bufs') \<longleftrightarrow> bufs_regular bufs' \<and> bufs_cfg bufs' = bufs_cfg bufs \<and>
     (e = ERR_BUFFER_ERROR \<and> 8 * bufs_total bufs < length bs \<or> e = ERR_NOMEM \<and> \<not> mem_reliable (bufs_mem bufs))"
| "enc_post bufs bs (Inr rembits', avail', bufs') \<longleftrightarrow> enc_inv bufs' avail' rembits' \<and> bufs_kept bufs bufs' \<and>
     bufs_total bufs' = bufs_total bufs \<and> enc_bits bufs' rembits' = bs"

lemma enc_post_step:
  "bufs_kept bufs bufs1 \<Longrightarrow> bufs_total bufs1 = bufs_total bufs \<Longrightarrow> enc_post bufs1 bs r \<Longrightarrow> enc_post bufs bs r"
  by (cases "(bufs, bs, r)" rule: enc_post.cases) (auto simp: bufs_kept_def mem_mono_def)

lemma last_byte_correct:
  assumes r: "bufs_regular bufs" and n: "0 < n" "n \<le> 8" and z: "\<And>i. i < 8 - n \<Longrightarrow> \<not> bit code i"
  shows "enc_post bufs (bytes_bits (bufs_bytes bufs) @ take n (byte_bits (ucast code))) (last_byte avail n code bufs)"
proof (cases "n = 8")
  case True
  show ?thesis using addb_correct [OF r, of "ucast code"] True
    by (auto simp: last_byte_def bufs_failed_def bufs_total_def enc_inv_def enc_bits_def bufs_kept_def
        split: prod.splits sum.splits)
next
  case False
  then show ?thesis using addb_hold_correct [OF r, of "ucast code"] n z
    by (auto simp: last_byte_def bufs_failed_def bufs_total_def enc_inv_def enc_open_def enc_bits_def bufs_kept_def
        bit_simps split: prod.splits sum.splits)
qed

lemma slow_path_correct:
  assumes r: "bufs_regular bufs" and n: "0 < nbits" "nbits \<le> 32"
    and z: "\<And>i. i < 8 * ((nbits + 7) div 8) - nbits \<Longrightarrow> \<not> bit code i"
  shows "enc_post bufs (bytes_bits (bufs_bytes bufs) @ take nbits (code_bits (8 * ((nbits + 7) div 8)) code))
           (huff_slow_path bufs avail nbits code)"
proof -
  let ?l = "lead_bytes nbits code" and ?n = "nbits - 8 * ((nbits - 1) div 8)"
  have d: "(nbits + 7) div 8 = Suc ((nbits - 1) div 8)" using n by linarith
  have n': "0 < ?n" "?n \<le> 8" using n by linarith+
  have len: "length (bytes_bits ?l) = 8 * ((nbits - 1) div 8)" using length_lead_bytes [OF n] by simp
  have bits: "take nbits (code_bits (8 * ((nbits + 7) div 8)) code) = bytes_bits ?l @ take ?n (byte_bits (ucast code))"
    unfolding lead_bytes_bits [OF n, symmetric] using len n by (simp add: Suc_le_eq)
  obtain rv bufs1 where a: "addb_list ?l bufs = (rv, bufs1)" by force
  note c = addb_list_correct [OF r, of ?l, unfolded a]
  show ?thesis
  proof (cases rv)
    case (Inl e)
    then show ?thesis using c n' length_lead_bytes [OF n] unfolding bits
      by (auto simp: slow_path_list [OF n(2)] a bufs_failed_def bufs_total_def)
  next
    case (Inr u)
    then have k: "bufs_kept bufs bufs1" "bufs_bytes bufs1 = bufs_bytes bufs @ ?l" "bufs_room bufs1 + length ?l = bufs_room bufs"
      using c by auto
    have "\<And>i. i < 8 - ?n \<Longrightarrow> \<not> bit code i" using z n d by simp
    then have "enc_post bufs1 (bytes_bits (bufs_bytes bufs1) @ take ?n (byte_bits (ucast code))) (last_byte avail ?n code bufs1)"
      using last_byte_correct [OF _ n'] k(1) by (simp add: bufs_kept_def)
    then show ?thesis using enc_post_step [OF k(1)] k
      unfolding bits by (simp add: slow_path_list [OF n(2)] a Inr bufs_total_def)
  qed
qed

lemma merge_byte:
  fixes p :: u8 and c :: u32
  assumes "rembits \<le> 8" "n \<le> rembits" "\<And>i. i < rembits \<Longrightarrow> \<not> bit p i" "\<And>i. n \<le> i \<Longrightarrow> \<not> bit c i"
  shows "take (8 - rembits + n) (byte_bits (p OR ucast (push_bit (rembits - n) c))) =
         take (8 - rembits) (byte_bits p) @ code_bits n c"
proof (rule nth_equalityI)
  show "length (take (8 - rembits + n) (byte_bits (p OR ucast (push_bit (rembits - n) c)))) =
      length (take (8 - rembits) (byte_bits p) @ code_bits n c)" using assms(1,2) by simp
  fix i assume "i < length (take (8 - rembits + n) (byte_bits (p OR ucast (push_bit (rembits - n) c))))"
  then have i: "i < 8 - rembits + n" "i < 8" using assms(1,2) by auto
  have q: "bit (ucast (push_bit (rembits - n) c) :: u8) (7 - i) \<longleftrightarrow> rembits - n \<le> 7 - i \<and> bit c (7 - i - (rembits - n))"
    using i by (auto simp: bit_simps)
  show "take (8 - rembits + n) (byte_bits (p OR ucast (push_bit (rembits - n) c))) ! i =
      (take (8 - rembits) (byte_bits p) @ code_bits n c) ! i"
  proof (cases "i < 8 - rembits")
    case True
    then have "n \<le> 7 - i - (rembits - n)" using assms(1,2) by linarith
    then show ?thesis using True i q assms(4) by (simp add: nth_append byte_bits_nth bit_or_iff)
  next
    case False
    then have "7 - i < rembits" "7 - i - (rembits - n) = n - 1 - (i - (8 - rembits))" "rembits - n \<le> 7 - i" "i - (8 - rembits) < n"
      using i assms(1,2) by linarith+
    then show ?thesis using False i q assms by (simp add: nth_append byte_bits_nth bit_or_iff code_bits_nth)
  qed
qed

definition sym_ok :: "nghttp2_huff_sym \<Rightarrow> bool" where
  "sym_ok hs \<longleftrightarrow> 0 < unat (hs_nbits hs) \<and> unat (hs_nbits hs) \<le> 30 \<and> drop_bit (unat (hs_nbits hs)) (hs_code hs) = 0"

lemma sym_ok_bit: "sym_ok hs \<Longrightarrow> unat (hs_nbits hs) \<le> i \<Longrightarrow> \<not> bit (hs_code hs) i"
proof -
  assume "sym_ok hs" and i: "unat (hs_nbits hs) \<le> i"
  then have "\<not> bit (drop_bit (unat (hs_nbits hs)) (hs_code hs)) (i - unat (hs_nbits hs))" by (simp add: sym_ok_def)
  then show ?thesis using i by (simp add: bit_drop_bit_eq)
qed

lemma huff_sym_table_ok: "list_all sym_ok huff_sym_table"
  by (simp add: huff_sym_table_def sym_ok_def)

lemma encode_byte_correct:
  assumes o: "enc_open bufs avail rembits" and c: "\<And>i. rembits \<le> i \<Longrightarrow> \<not> bit c i"
  defines "bufs1 \<equiv> nghttp2_bufs_fast_orb bufs (ucast (c :: u32))"
  shows "bufs_kept bufs bufs1" "bufs_total bufs1 = bufs_total bufs" "bufs_cur_avail bufs1 = avail - 1"
    "bytes_bits (bufs_bytes bufs1) = enc_bits bufs rembits @ code_bits rembits c"
proof -
  have r: "bufs_regular bufs" and av: "avail = bufs_cur_avail bufs" "0 < bufs_cur_avail bufs" and rem: "rembits \<le> 8"
    and z: "\<And>i. i < rembits \<Longrightarrow> \<not> bit (bufs_pending bufs) i"
    using o by (auto simp: enc_open_def)
  note f = fast_addb_correct [OF r av(2)]
  show "bufs_kept bufs bufs1" "bufs_cur_avail bufs1 = avail - 1"
    using f by (simp_all add: bufs1_def fast_orb_pending av)
  show "bufs_total bufs1 = bufs_total bufs"
    using f(2,3) [of "bufs_pending bufs OR ucast c"] by (simp add: bufs1_def fast_orb_pending bufs_total_def)
  have "byte_bits (bufs_pending bufs OR ucast c) = take (8 - rembits) (byte_bits (bufs_pending bufs)) @ code_bits rembits c"
    using merge_byte [OF rem order.refl z c] rem by simp
  then show "bytes_bits (bufs_bytes bufs1) = enc_bits bufs rembits @ code_bits rembits c"
    using f(2) by (simp add: bufs1_def fast_orb_pending enc_bits_def)
qed

lemma encode_hold_correct:
  assumes o: "enc_open bufs avail rembits" and n: "n < rembits" and c: "\<And>i. n \<le> i \<Longrightarrow> \<not> bit c i"
  defines "bufs1 \<equiv> nghttp2_bufs_fast_orb_hold bufs (ucast (push_bit (rembits - n) (c :: u32)))"
  shows "bufs_kept bufs bufs1" "bufs_total bufs1 = bufs_total bufs" "enc_open bufs1 avail (rembits - n)"
    "enc_bits bufs1 (rembits - n) = enc_bits bufs rembits @ code_bits n c"
proof -
  let ?q = "bufs_pending bufs OR ucast (push_bit (rembits - n) c)"
  have r: "bufs_regular bufs" and av: "avail = bufs_cur_avail bufs" "0 < bufs_cur_avail bufs" and rem: "rembits \<le> 8"
    and z: "\<And>i. i < rembits \<Longrightarrow> \<not> bit (bufs_pending bufs) i"
    using o by (auto simp: enc_open_def)
  note f = fast_addb_hold_correct [OF r av(2), of ?q]
  show "bufs_kept bufs bufs1" using f by (simp add: bufs1_def fast_orb_pending)
  show "bufs_total bufs1 = bufs_total bufs" using f by (simp add: bufs1_def fast_orb_pending bufs_total_def)
  have "\<And>i. i < rembits - n \<Longrightarrow> \<not> bit ?q i" using z n by (auto simp: bit_simps)
  then show "enc_open bufs1 avail (rembits - n)"
    using f n rem av by (simp add: bufs1_def fast_orb_pending enc_open_def bufs_kept_def)
  have "8 - (rembits - n) = 8 - rembits + n" using n rem by linarith
  then show "enc_bits bufs1 (rembits - n) = enc_bits bufs rembits @ code_bits n c"
    using f merge_byte [OF rem less_imp_le [OF n] z c] by (simp add: bufs1_def fast_orb_pending enc_bits_def)
qed

lemma byte_count:
  fixes q r :: nat
  assumes "r < 8"
  shows "(8 * q + r + 7) div 8 = (if r = 0 then q else Suc q)"
proof (cases "r = 0")
  case True
  have "(8 * q + 7) div 8 = q" by (rule div_nat_eqI) simp_all
  then show ?thesis using True by simp
next
  case False
  then have "(8 * q + r + 7) div 8 = Suc q" using assms by (intro div_nat_eqI) simp_all
  then show ?thesis using False by simp
qed

lemma byte_align:
  fixes m :: nat
  shows "8 * ((m + 7) div 8) - m = (if m mod 8 \<noteq> 0 then 8 - m mod 8 else 0)" "m \<le> 8 * ((m + 7) div 8)"
    "m \<le> 32 \<Longrightarrow> 8 * ((m + 7) div 8) \<le> 32" "m + (8 - m mod 8) mod 8 = 8 * ((m + 7) div 8)"
proof -
  obtain q r where m: "m = 8 * q + r" "r < 8" using mult_div_mod_eq [of 8 m] by (metis mod_less_divisor zero_less_numeral)
  have r: "m mod 8 = r" "(m + 7) div 8 = (if r = 0 then q else Suc q)" using m byte_count by simp_all
  show "8 * ((m + 7) div 8) - m = (if m mod 8 \<noteq> 0 then 8 - m mod 8 else 0)" "m \<le> 8 * ((m + 7) div 8)"
    "m \<le> 32 \<Longrightarrow> 8 * ((m + 7) div 8) \<le> 32" "m + (8 - m mod 8) mod 8 = 8 * ((m + 7) div 8)"
    unfolding r using m by auto
qed

lemma byte_fill:
  fixes a c m k :: nat
  assumes "8 * a = 8 * c + m + k" "k < 8"
  shows "k = (8 - m mod 8) mod 8"
proof -
  obtain q r where m: "m = 8 * q + r" "r < 8" using mult_div_mod_eq [of 8 m] by (metis mod_less_divisor zero_less_numeral)
  define t where "t = a - (c + q)"
  have t: "8 * t = r + k" unfolding t_def using assms(1) m(1) by (simp add: diff_mult_distrib2)
  then have "t < 2" using m(2) assms(2) by linarith
  then consider "t = 0" | "t = 1" by linarith
  then show ?thesis
  proof cases
    case 1
    then show ?thesis using m t by simp
  next
    case 2
    then have "8 - r = k" using t by simp
    then show ?thesis using m assms(2) by simp
  qed
qed

lemma encode_sym_correct:
  assumes o: "enc_open bufs avail rembits" and s: "sym_ok hs"
  shows "enc_post bufs (enc_bits bufs rembits @ sym_bits hs) (huff_encode_sym bufs avail rembits hs)"
proof -
  let ?n = "unat (hs_nbits hs)" and ?c = "hs_code hs"
  have rem: "0 < rembits" "rembits \<le> 8" and n: "?n \<le> 30" "0 < ?n" using o s by (simp_all add: enc_open_def sym_ok_def)
  consider "?n < rembits" | "?n = rembits" | "rembits < ?n" by linarith
  then show ?thesis
  proof cases
    case 1
    note h = encode_hold_correct [OF o 1 sym_ok_bit [OF s]]
    show ?thesis using h 1 by (simp add: huff_encode_sym_def Let_def sym_bits_def enc_inv_def enc_open_def)
  next
    case 2
    have "\<And>i. rembits \<le> i \<Longrightarrow> \<not> bit ?c i" using sym_ok_bit [OF s] 2 by simp
    note b = encode_byte_correct [OF o this]
    show ?thesis using b 2 by (simp add: huff_encode_sym_def Let_def sym_bits_def enc_inv_def enc_bits_def bufs_kept_def)
  next
    case 3
    let ?n1 = "?n - rembits" and ?bufs1 = "nghttp2_bufs_fast_orb bufs (ucast (drop_bit (?n - rembits) ?c))"
    let ?k = "8 * ((?n1 + 7) div 8)"
    let ?c1 = "if ?n1 mod 8 \<noteq> 0 then push_bit (8 - ?n1 mod 8) ?c else ?c"
    have n1: "0 < ?n1" "?n1 \<le> 32" using 3 n by linarith+
    have "\<And>i. rembits \<le> i \<Longrightarrow> \<not> bit (drop_bit ?n1 ?c) i" using sym_ok_bit [OF s] 3 by (simp add: bit_drop_bit_eq)
    note b = encode_byte_correct [OF o this]
    have r1: "bufs_regular ?bufs1" using b(1) by (simp add: bufs_kept_def)
    have k: "?k - ?n1 = (if ?n1 mod 8 \<noteq> 0 then 8 - ?n1 mod 8 else 0)" "?n1 + (?k - ?n1) = ?k"
      by (fact byte_align(1)) (rule le_add_diff_inverse [OF byte_align(2)])
    have c1: "?c1 = push_bit (?k - ?n1) ?c" unfolding k(1) by simp
    have k32: "(?k - ?n1) + ?n1 \<le> 32" using byte_align(2) [of ?n1] byte_align(3) [OF n1(2)] by simp
    have z: "\<And>i. i < ?k - ?n1 \<Longrightarrow> \<not> bit ?c1 i" unfolding c1 by (simp add: bit_simps)
    have bits: "take ?n1 (code_bits ?k ?c1) = code_bits ?n1 ?c"
      using code_bits_push [OF k32, of ?c] unfolding c1 k(2) .
    have sym: "sym_bits hs = code_bits rembits (drop_bit ?n1 ?c) @ code_bits ?n1 ?c"
      using code_bits_append [of rembits ?n1 ?c] 3 by (simp add: sym_bits_def)
    have "huff_encode_sym bufs avail rembits hs = huff_slow_path ?bufs1 (avail - 1) ?n1 ?c1"
      using 3 fast_path_slow [OF r1 n1, of ?c1 "avail - 1"] b(3) by (simp add: huff_encode_sym_def Let_def)
    then show ?thesis
      using slow_path_correct [OF r1 n1 z, of "avail - 1"] enc_post_step [OF b(1,2)] b(4) unfolding bits sym by simp
  qed
qed

lemma huff_bits_simps [simp]:
  "huff_bits [] = []" "huff_bits (b # src) = sym_bits (huff_sym_table ! unat b) @ huff_bits src"
  by (simp_all add: huff_bits_def)

lemma huff_sym_ok: "sym_ok (huff_sym_table ! unat (b :: u8))"
proof -
  have "length huff_sym_table = 257" by (simp add: huff_sym_table_def)
  then have "unat b < length huff_sym_table" using unat_u8_less [of b] by simp
  then show ?thesis using huff_sym_table_ok by (simp add: list_all_length)
qed

text \<open>Opening a new byte before a symbol.\<close>

definition open_byte :: "nghttp2_bufs \<Rightarrow> nat \<Rightarrow> nat \<Rightarrow> (nghttp2_error + unit) \<times> nat \<times> nghttp2_bufs" where
  "open_byte bufs avail rembits =
     (if rembits = 8 then
        (if avail \<noteq> 0 then (Inr (), avail, nghttp2_bufs_fast_addb_hold bufs 0)
         else
           (case nghttp2_bufs_addb_hold bufs 0 of
              (Inl e, bufs1) \<Rightarrow> (Inl e, avail, bufs1)
            | (Inr _, bufs1) \<Rightarrow> (Inr (), bufs_cur_avail bufs1, bufs1)))
      else (Inr (), avail, bufs))"

lemma open_byte_correct:
  assumes i: "enc_inv bufs avail rembits"
  shows "case open_byte bufs avail rembits of
      (Inl e, avail1, bufs1) \<Rightarrow> rembits = 8 \<and> bufs_failed bufs 1 e bufs1
    | (Inr _, avail1, bufs1) \<Rightarrow> enc_open bufs1 avail1 rembits \<and> bufs_kept bufs bufs1 \<and>
        bufs_total bufs1 = bufs_total bufs \<and> enc_bits bufs1 rembits = enc_bits bufs rembits"
proof (cases "rembits = 8")
  case True
  have r: "bufs_regular bufs" using i by (simp add: enc_inv_def)
  show ?thesis
  proof (cases "avail = 0")
    case True
    then show ?thesis using addb_hold_correct [OF r, of 0] \<open>rembits = 8\<close>
      by (auto simp: open_byte_def enc_open_def enc_bits_def bufs_total_def bufs_kept_def split: prod.splits sum.splits)
  next
    case False
    then have "bufs_cur_avail bufs > 0" using i by (simp add: enc_inv_def)
    note f = fast_addb_hold_correct [OF r this, of 0]
    show ?thesis using f False \<open>rembits = 8\<close> i
      by (auto simp: open_byte_def enc_open_def enc_bits_def bufs_total_def bufs_kept_def enc_inv_def)
  qed
next
  case False
  then show ?thesis using i by (auto simp: open_byte_def enc_inv_def bufs_kept_refl)
qed

lemma encode_loop_correct:
  "enc_inv bufs avail rembits \<Longrightarrow>
   enc_post bufs (enc_bits bufs rembits @ huff_bits src) (huff_encode_loop bufs avail rembits src)"
proof (induction src arbitrary: bufs avail rembits)
  case Nil
  then have "bufs_regular bufs" by (simp add: enc_inv_def)
  then show ?case using Nil by (simp add: bufs_kept_refl)
next
  case (Cons b src)
  let ?hs = "huff_sym_table ! unat b"
  obtain r avail1 bufs1 where ob: "open_byte bufs avail rembits = (r, avail1, bufs1)" by (metis prod_cases3)
  note oc = open_byte_correct [OF Cons.prems, unfolded ob]
  have step: "huff_encode_loop bufs avail rembits (b # src) =
      (case r of Inl e \<Rightarrow> (Inl e, avail1, bufs1)
       | Inr _ \<Rightarrow> (case huff_encode_sym bufs1 avail1 rembits ?hs of
             (Inl e, avail2, bufs2) \<Rightarrow> (Inl e, avail2, bufs2)
           | (Inr rembits1, avail2, bufs2) \<Rightarrow> huff_encode_loop bufs2 avail2 rembits1 src))"
    using ob unfolding open_byte_def by (simp only: huff_encode_loop.simps ob prod.case Let_def)
  show ?case
  proof (cases r)
    case (Inl e)
    have "0 < length (sym_bits ?hs)" using huff_sym_ok [of b] by (simp add: sym_bits_def sym_ok_def)
    then show ?thesis using oc Inl unfolding step
      by (auto simp: bufs_failed_def bufs_total_def enc_bits_def)
  next
    case (Inr u)
    then have o: "enc_open bufs1 avail1 rembits" "bufs_kept bufs bufs1" "bufs_total bufs1 = bufs_total bufs"
      "enc_bits bufs1 rembits = enc_bits bufs rembits" using oc by auto
    obtain r2 avail2 bufs2 where es: "huff_encode_sym bufs1 avail1 rembits ?hs = (r2, avail2, bufs2)" by (metis prod_cases3)
    have ep: "enc_post bufs (enc_bits bufs rembits @ sym_bits ?hs) (r2, avail2, bufs2)"
      using encode_sym_correct [OF o(1) huff_sym_ok [of b]] enc_post_step [OF o(2,3)] by (simp add: es o(4))
    show ?thesis
    proof (cases r2)
      case r2: (Inl e)
      then show ?thesis using ep unfolding step by (auto simp: Inr es)
    next
      case r2: (Inr rembits1)
      then have e2: "enc_inv bufs2 avail2 rembits1" "bufs_kept bufs bufs2" "bufs_total bufs2 = bufs_total bufs"
        "enc_bits bufs2 rembits1 = enc_bits bufs rembits @ sym_bits ?hs" using ep by auto
      show ?thesis using enc_post_step [OF e2(2,3) Cons.IH [OF e2(1)]] e2(4) unfolding step by (simp add: Inr es r2)
    qed
  qed
qed

subsection \<open>The reference encoding\<close>

definition byte_of_bits :: "bool list \<Rightarrow> u8" where
  "byte_of_bits bs = horner_sum of_bool 2 (rev bs)"

fun pack_bits :: "bool list \<Rightarrow> u8 list" where
  "pack_bits (a # b # c # d # e # f # g # h # bs) = byte_of_bits [a, b, c, d, e, f, g, h] # pack_bits bs"
| "pack_bits _ = []"

text \<open>The code of the string, filled up to a whole byte with ones.\<close>

definition huff_pad :: "bool list \<Rightarrow> bool list" where
  "huff_pad bs = bs @ replicate ((8 - length bs mod 8) mod 8) True"

definition huff_bytes :: "u8 list \<Rightarrow> u8 list" where
  "huff_bytes src = pack_bits (huff_pad (huff_bits src))"

lemma byte_bits_of_bits: "length bs = 8 \<Longrightarrow> byte_bits (byte_of_bits bs) = bs"
  by (rule nth_equalityI) (auto simp: byte_bits_nth byte_of_bits_def bit_horner_sum_bit_iff rev_nth)

lemma pack_bits_bits: "length bs mod 8 = 0 \<Longrightarrow> bytes_bits (pack_bits bs) = bs"
  by (induction bs rule: pack_bits.induct) (auto simp: byte_bits_of_bits)

lemma byte_bits_inj: "byte_bits a = byte_bits b \<Longrightarrow> a = b"
proof -
  assume e: "byte_bits a = byte_bits b"
  have "bit a n = bit b n" for n
  proof (cases "n < 8")
    case True
    then show ?thesis using byte_bits_nth [of "7 - n" a] byte_bits_nth [of "7 - n" b] e by simp
  qed simp
  then show ?thesis by (rule bit_word_eqI)
qed

lemma bytes_bits_inj: "bytes_bits xs = bytes_bits ys \<Longrightarrow> xs = ys"
proof (induction xs arbitrary: ys)
  case Nil
  have "length ys = 0" using arg_cong [OF Nil.prems, of length] length_bytes_bits [of ys] by simp
  then show ?case by simp
next
  case (Cons x xs)
  have "length ys = Suc (length xs)" using arg_cong [OF Cons.prems, of length] by simp
  then obtain y ys' where ys: "ys = y # ys'" by (cases ys) auto
  then show ?case using Cons byte_bits_inj by auto
qed

lemma length_huff_pad: "length (huff_pad bs) = 8 * ((length bs + 7) div 8)" "length (huff_pad bs) mod 8 = 0"
proof -
  show "length (huff_pad bs) = 8 * ((length bs + 7) div 8)" by (simp add: huff_pad_def byte_align(4))
  then show "length (huff_pad bs) mod 8 = 0" by simp
qed

lemma bytes_bits_huff_bytes: "bytes_bits (huff_bytes src) = huff_pad (huff_bits src)"
  by (simp add: huff_bytes_def pack_bits_bits length_huff_pad)

lemma huff_encode_count_bits: "nghttp2_hd_huff_encode_count src = (length (huff_bits src) + 7) div 8"
proof -
  have "length (huff_bits src) = sum_list (map (\<lambda>b. unat (hs_nbits (huff_sym_table ! unat b))) src)"
    by (induction src) (simp_all add: sym_bits_def)
  then show ?thesis by (simp add: nghttp2_hd_huff_encode_count_def)
qed

lemma length_huff_bytes: "length (huff_bytes src) = nghttp2_hd_huff_encode_count src"
  using arg_cong [OF bytes_bits_huff_bytes [of src], of length] by (simp add: length_huff_pad huff_encode_count_bits)

lemma eos_pad_bits:
  assumes "0 < k" "k \<le> 8"
  defines "c \<equiv> drop_bit (unat (hs_nbits (huff_sym_table ! 256)) - k) (hs_code (huff_sym_table ! 256))"
  shows "code_bits k c = replicate k True" "\<And>i. k \<le> i \<Longrightarrow> \<not> bit c i"
proof -
  have e: "huff_sym_table ! 256 = Huff_sym 30 0x3fffffff" by (simp add: huff_sym_table_def)
  have m: "(0x3fffffff :: u32) = mask 30" by (simp add: mask_eq_exp_minus_1)
  have b: "bit c i \<longleftrightarrow> i < k" for i using assms(1,2) by (auto simp: c_def e m bit_simps)
  show "code_bits k c = replicate k True" by (rule nth_equalityI) (auto simp: code_bits_nth b)
  show "\<And>i. k \<le> i \<Longrightarrow> \<not> bit c i" by (simp add: b)
qed

lemma huff_encode_correct:
  assumes r: "bufs_regular bufs"
  obtains e bufs' where "nghttp2_hd_huff_encode bufs src = Some (Inl e, bufs')"
      "bufs_failed bufs (nghttp2_hd_huff_encode_count src) e bufs'"
    | bufs' where "nghttp2_hd_huff_encode bufs src = Some (Inr (), bufs')" "bufs_kept bufs bufs'"
      "bufs_bytes bufs' = bufs_bytes bufs @ huff_bytes src"
      "bufs_room bufs' + nghttp2_hd_huff_encode_count src = bufs_room bufs"
proof -
  have i: "enc_inv bufs (bufs_cur_avail bufs) 8" using r by (simp add: enc_inv_def)
  obtain rv avail bufs1 where l: "huff_encode_loop bufs (bufs_cur_avail bufs) 8 src = (rv, avail, bufs1)" by (metis prod_cases3)
  have p: "enc_post bufs (bytes_bits (bufs_bytes bufs) @ huff_bits src) (rv, avail, bufs1)"
    using encode_loop_correct [OF i, of src] by (simp add: l enc_bits_def)
  show thesis
  proof (cases rv)
    case (Inl e)
    have "8 * n + 8 * r < 8 * n + m \<Longrightarrow> r < (m + 7) div 8" for n r m :: nat by linarith
    then have "bufs_failed bufs (nghttp2_hd_huff_encode_count src) e bufs1"
      using p Inl by (auto simp: bufs_failed_def bufs_total_def huff_encode_count_bits algebra_simps)
    then show thesis using that(1) Inl by (simp add: nghttp2_hd_huff_encode_def l)
  next
    case (Inr rembits)
    then have q: "enc_inv bufs1 avail rembits" "bufs_kept bufs bufs1" "bufs_total bufs1 = bufs_total bufs"
      "enc_bits bufs1 rembits = bytes_bits (bufs_bytes bufs) @ huff_bits src" using p by auto
    obtain bufs' k where b: "nghttp2_hd_huff_encode bufs src = Some (Inr (), bufs')" "bufs_kept bufs bufs'"
      "bufs_total bufs' = bufs_total bufs" "k < 8"
      "bytes_bits (bufs_bytes bufs') = bytes_bits (bufs_bytes bufs) @ huff_bits src @ replicate k True"
    proof (cases "rembits < 8")
      case True
      then have o: "enc_open bufs1 avail rembits" using q(1) unfolding enc_inv_def by blast
      have k: "0 < rembits" "rembits \<le> 8" "avail \<noteq> 0" using o by (auto simp: enc_open_def)
      note e = eos_pad_bits [OF k(1,2)]
      note eb = encode_byte_correct [OF o e(2)]
      show thesis
        using that [OF _ bufs_kept_trans [OF q(2) eb(1)]] eb q(3,4) e(1) True k Inr
        by (simp add: nghttp2_hd_huff_encode_def l Let_def)
    next
      case False
      then have "rembits = 8" using q(1) by (simp add: enc_inv_def)
      then show thesis using that [of bufs1 0] q Inr by (simp add: nghttp2_hd_huff_encode_def l enc_bits_def)
    qed
    have kk: "k = (8 - length (huff_bits src) mod 8) mod 8"
    proof -
      have "8 * length (bufs_bytes bufs') = 8 * length (bufs_bytes bufs) + length (huff_bits src) + k"
        using arg_cong [OF b(5), of length] by simp
      then show ?thesis using b(4) by (rule byte_fill)
    qed
    have "bytes_bits (bufs_bytes bufs') = bytes_bits (bufs_bytes bufs @ huff_bytes src)"
      using b(5) by (simp add: bytes_bits_huff_bytes huff_pad_def kk)
    then have bytes: "bufs_bytes bufs' = bufs_bytes bufs @ huff_bytes src" by (rule bytes_bits_inj)
    then have "bufs_room bufs' + nghttp2_hd_huff_encode_count src = bufs_room bufs"
      using b(3) by (simp add: bufs_total_def length_huff_bytes)
    then show thesis using that(2) [OF b(1,2) bytes] by simp
  qed
qed

section \<open>Properties\<close>

lemma huff_decode_init_tree:
  "case tree_decode huff_node_0 (bytes_bits src) of
     None \<Rightarrow> fst (huff_decode_loop nghttp2_hd_huff_decode_context_init buf src) = Inl ERR_HEADER_COMP
   | Some (out, u) \<Rightarrow> \<exists>ctx'. huff_decode_loop nghttp2_hd_huff_decode_context_init buf src = (Inr (), ctx', buf_cpymem buf out) \<and>
       hc_state ctx' = node_id u \<and> (hc_accept ctx' \<noteq> 0) = node_accept u"
  by (rule huff_decode_loop_tree [OF huff_root_node])
     (simp_all add: nghttp2_hd_huff_decode_context_init_def node_rules)

text \<open>
  C7: the decoder accepts exactly the Huffman codes.  Decoding a whole string, it succeeds if and only if the
  bits are the codes of some bytes followed by fewer than eight ones, and then it appends exactly
  these bytes; every other input, with the end-of-string code, other padding or too much of it, is
  NGHTTP2_ERR_HEADER_COMP.  Twice the input length is always enough space.
\<close>

theorem huff_decode_accepts_exactly:
  assumes "buf_wf buf" "2 * length src \<le> nghttp2_buf_avail buf"
  shows "case nghttp2_hd_huff_decode nghttp2_hd_huff_decode_context_init buf src True of
     (Inr n, ctx', buf') \<Rightarrow> n = length src \<and> buf_wf buf' \<and>
       (\<exists>out k. k < 8 \<and> bytes_bits src = huff_bits out @ replicate k True \<and> buf_bytes buf' = buf_bytes buf @ out)
   | (Inl e, ctx', buf') \<Rightarrow> e = ERR_HEADER_COMP \<and> \<not> (\<exists>out k. k < 8 \<and> bytes_bits src = huff_bits out @ replicate k True)"
proof (cases "tree_decode huff_node_0 (bytes_bits src)")
  case None
  obtain r ctx' buf' where l: "huff_decode_loop nghttp2_hd_huff_decode_context_init buf src = (r, ctx', buf')"
    by (metis prod_cases3)
  have "r = Inl ERR_HEADER_COMP" using huff_decode_init_tree [of buf src] None l by simp
  moreover have "\<not> (\<exists>k < 8. bytes_bits src = huff_bits out @ replicate k True)" for out
    using tree_accepts_iff [of "bytes_bits src" out] None by simp
  ultimately show ?thesis using l by (simp add: nghttp2_hd_huff_decode_def)
next
  case (Some p)
  then obtain out u where p: "tree_decode huff_node_0 (bytes_bits src) = Some (out, u)" by (cases p) auto
  obtain ctx' where l: "huff_decode_loop nghttp2_hd_huff_decode_context_init buf src = (Inr (), ctx', buf_cpymem buf out)"
    "(hc_accept ctx' \<noteq> 0) = node_accept u" using huff_decode_init_tree [of buf src] p by auto
  have "length out \<le> nghttp2_buf_avail buf" using tree_decode_length [OF p] assms(2) by simp
  then have c: "buf_wf (buf_cpymem buf out)" "buf_bytes (buf_cpymem buf out) = buf_bytes buf @ out"
    using buf_cpymem_correct [OF assms(1)] by auto
  show ?thesis
  proof (cases "node_accept u")
    case True
    then have "\<exists>k < 8. bytes_bits src = huff_bits out @ replicate k True"
      using tree_accepts_iff [of "bytes_bits src" out] p by auto
    then show ?thesis using l True c by (auto simp: nghttp2_hd_huff_decode_def)
  next
    case False
    then have "\<not> (\<exists>k < 8. bytes_bits src = huff_bits out' @ replicate k True)" for out'
      using tree_accepts_iff [of "bytes_bits src" out'] p by auto
    then show ?thesis using l False by (auto simp: nghttp2_hd_huff_decode_def)
  qed
qed

definition huff_buf_sample :: nghttp2_buf where
  "huff_buf_sample = \<lparr>buf_data = [0, 0, 0, 0, 0, 0, 0, 0], buf_pos = 0, buf_last = 0, buf_mark = 0\<rparr>"

lemma huff_buf_sample_wf: "buf_wf huff_buf_sample" "nghttp2_buf_avail huff_buf_sample = 8" "buf_bytes huff_buf_sample = []"
  by (simp_all add: huff_buf_sample_def buf_wf_def nghttp2_buf_avail_def buf_bytes_def nghttp2_buf_len_def)

theorem huff_decode_accepts_exactly_witness:
  "\<not> (\<exists>out k. k < 8 \<and> bytes_bits [0x1f, 0xfe] = huff_bits out @ replicate k True) \<and>
   2 * length [0x1f, 0xfe :: u8] \<le> nghttp2_buf_avail huff_buf_sample"
proof -
  have "bytes_bits [0x1f, 0xfe] = [False, False, False, True, True, True, True, True, True, True, True, True, True, True, True, False]"
    by (simp add: byte_bits_def)
  then have "tree_decode huff_node_0 (bytes_bits [0x1f, 0xfe]) = Some ([97], huff_node_85)"
    by (simp add: decode_rules)
  then have "\<exists>ctx'. huff_decode_loop nghttp2_hd_huff_decode_context_init huff_buf_sample [0x1f, 0xfe] =
      (Inr (), ctx', buf_cpymem huff_buf_sample [97]) \<and> hc_accept ctx' = 0"
    using huff_decode_init_tree [of huff_buf_sample "[0x1f, 0xfe]"]
    by (auto simp: node_rules simp del: huff_decode_loop.simps)
  then have "\<exists>ctx'. nghttp2_hd_huff_decode nghttp2_hd_huff_decode_context_init huff_buf_sample [0x1f, 0xfe] True =
      (Inl ERR_HEADER_COMP, ctx', buf_cpymem huff_buf_sample [97])"
    by (auto simp: nghttp2_hd_huff_decode_def simp del: huff_decode_loop.simps)
  then obtain ctx' where d: "nghttp2_hd_huff_decode nghttp2_hd_huff_decode_context_init huff_buf_sample [0x1f, 0xfe] True =
      (Inl ERR_HEADER_COMP, ctx', buf_cpymem huff_buf_sample [97])" by blast
  show ?thesis
    using huff_decode_accepts_exactly [of huff_buf_sample "[0x1f, 0xfe]", unfolded d] huff_buf_sample_wf by simp
qed

text \<open>
  C21: the encoder is the reference encoding.  On a chain of equal chunks \<^verbatim>\<open>nghttp2_hd_huff_encode\<close> never hits its
  assertion; if the chain has room for \<^verbatim>\<open>nghttp2_hd_huff_encode_count\<close> bytes and no allocation fails, it
  appends exactly that many bytes, the codes of the string padded with ones, wherever the chunk
  boundaries fall; otherwise it reports NGHTTP2_ERR_BUFFER_ERROR or NGHTTP2_ERR_NOMEM.
\<close>

theorem huff_encode_is_reference:
  assumes "bufs_regular bufs"
  shows "\<exists>r bufs'. nghttp2_hd_huff_encode bufs src = Some (r, bufs') \<and> bufs_regular bufs' \<and>
     (case r of
        Inr _ \<Rightarrow> bufs_bytes bufs' = bufs_bytes bufs @ huff_bytes src \<and>
          length (huff_bytes src) = nghttp2_hd_huff_encode_count src \<and>
          bytes_bits (huff_bytes src) = huff_pad (huff_bits src)
      | Inl e \<Rightarrow> e = ERR_BUFFER_ERROR \<and> bufs_room bufs < nghttp2_hd_huff_encode_count src \<or>
          e = ERR_NOMEM \<and> \<not> mem_reliable (bufs_mem bufs))"
  by (rule huff_encode_correct [OF assms, of src])
     (auto simp: bufs_failed_def bufs_kept_def length_huff_bytes bytes_bits_huff_bytes)

theorem huff_encode_is_reference_witness:
  "\<exists>bufs'. nghttp2_hd_huff_encode bufs_sample [97, 98] = Some (Inr (), bufs') \<and> bufs_bytes bufs' = huff_bytes [97, 98]"
proof -
  have "nghttp2_hd_huff_encode_count [97, 98] = 2" by (simp add: nghttp2_hd_huff_encode_count_def huff_sym_table_def)
  then show ?thesis
    using huff_encode_is_reference [OF bufs_sample_regular(1), of "[97, 98]"] bufs_sample_regular
    by (auto split: sum.splits) (metis obj_sumE old.unit.exhaust)
qed

text \<open>
  C13: Huffman round trip.  On an empty chain of equal chunks (\<open>bufs_regular\<close>) that has room for the encoded string, or
  can grow to it with an allocator that does not fail, the encoder succeeds, and the decoder turns what it wrote
  back into the string, appended to a buffer with two bytes free for each encoded byte.
\<close>

theorem huff_roundtrip:
  assumes "bufs_regular bufs" "bufs_bytes bufs = []" "mem_reliable (bufs_mem bufs)"
    and "nghttp2_hd_huff_encode_count src \<le> bufs_room bufs"
    and "buf_wf buf" "2 * nghttp2_hd_huff_encode_count src \<le> nghttp2_buf_avail buf"
  shows "\<exists>bufs' ctx' buf'. nghttp2_hd_huff_encode bufs src = Some (Inr (), bufs') \<and>
     nghttp2_hd_huff_decode nghttp2_hd_huff_decode_context_init buf (bufs_bytes bufs') True =
       (Inr (length (bufs_bytes bufs')), ctx', buf') \<and>
     buf_bytes buf' = buf_bytes buf @ src"
proof -
  obtain bufs' where e: "nghttp2_hd_huff_encode bufs src = Some (Inr (), bufs')" "bufs_bytes bufs' = huff_bytes src"
    by (rule huff_encode_correct [OF assms(1), of src]) (use assms in \<open>auto simp: bufs_failed_def\<close>)
  let ?k = "(8 - length (huff_bits src) mod 8) mod 8"
  have b: "bytes_bits (huff_bytes src) = huff_bits src @ replicate ?k True"
    by (simp add: bytes_bits_huff_bytes huff_pad_def)
  have "?k < 8" by simp
  then obtain u where u: "tree_decode huff_node_0 (bytes_bits (huff_bytes src)) = Some (src, u)" "node_accept u"
    using tree_accepts_iff [of "bytes_bits (huff_bytes src)" src] b by blast
  obtain ctx' where l: "huff_decode_loop nghttp2_hd_huff_decode_context_init buf (huff_bytes src) =
      (Inr (), ctx', buf_cpymem buf src)" "hc_accept ctx' \<noteq> 0"
    using huff_decode_init_tree [of buf "huff_bytes src"] u by auto
  have "length src \<le> nghttp2_buf_avail buf" using tree_decode_length [OF u(1)] assms(6) by (simp add: length_huff_bytes)
  then have "buf_bytes (buf_cpymem buf src) = buf_bytes buf @ src" using buf_cpymem_correct [OF assms(5)] by blast
  then show ?thesis using e l by (simp add: nghttp2_hd_huff_decode_def)
qed

theorem huff_roundtrip_witness:
  "\<exists>bufs' ctx' buf'. nghttp2_hd_huff_encode bufs_sample [97, 98] = Some (Inr (), bufs') \<and>
     nghttp2_hd_huff_decode nghttp2_hd_huff_decode_context_init huff_buf_sample (bufs_bytes bufs') True =
       (Inr (length (bufs_bytes bufs')), ctx', buf') \<and>
     buf_bytes buf' = [97, 98]"
proof -
  have c: "nghttp2_hd_huff_encode_count [97, 98] = 2" by (simp add: nghttp2_hd_huff_encode_count_def huff_sym_table_def)
  show ?thesis
    using huff_roundtrip [OF bufs_sample_regular(1,3,5) _ huff_buf_sample_wf(1), of "[97, 98]"]
      bufs_sample_regular(4) huff_buf_sample_wf(2,3) c by simp
qed

text \<open>
  C28: decoding may be cut anywhere.  Decoding a string in two pieces, the first one not final, gives the result,
  the context and the output of decoding it at once.
\<close>

theorem huff_decode_streams:
  "nghttp2_hd_huff_decode ctx buf (xs @ ys) final =
     (case nghttp2_hd_huff_decode ctx buf xs False of
        (Inl e, ctx1, buf1) \<Rightarrow> (Inl e, ctx1, buf1)
      | (Inr n, ctx1, buf1) \<Rightarrow> apfst (map_sum id ((+) n)) (nghttp2_hd_huff_decode ctx1 buf1 ys final))"
proof -
  have "huff_decode_loop ctx buf (xs @ ys) =
     (case huff_decode_loop ctx buf xs of
        (Inl e, ctx1, buf1) \<Rightarrow> (Inl e, ctx1, buf1)
      | (Inr _, ctx1, buf1) \<Rightarrow> huff_decode_loop ctx1 buf1 ys)"
    by (induction ctx buf xs rule: huff_decode_loop.induct) (auto split: option.splits prod.splits)
  then show ?thesis
    by (auto simp: nghttp2_hd_huff_decode_def split: prod.splits sum.splits)
qed

end
