(* ===== verification/Hpack_Int.thy ===== *)
theory Hpack_Int
  imports Buf
begin

unbundle bit_operations_syntax

text \<open>
  \<^verbatim>\<open>lib/nghttp2_hd.c\<close>, the prefixed integers of HPACK: \<^verbatim>\<open>count_encoded_length\<close>, \<^verbatim>\<open>encode_length\<close> and
  \<^verbatim>\<open>decode_length\<close>.

  The encoder works on \<^verbatim>\<open>size_t\<close> values (\<open>nat\<close>) and writes into an array that its caller owns; the
  decoder accumulates in a \<^verbatim>\<open>uint32_t\<close> with its three overflow checks.  The reference definition is
  the arithmetic value of the bytes.
\<close>

section \<open>Encoding\<close>

lemma drop_bit_7: "drop_bit 7 (n :: nat) = n div 128"
  by (simp add: drop_bit_eq_div)

lemma drop_bit_7_less [termination_simp]: "128 \<le> n \<Longrightarrow> drop_bit 7 (n :: nat) < n"
  by (simp add: drop_bit_7)

fun count_encoded_length_loop :: "nat \<Rightarrow> nat \<Rightarrow> nat" where
  "count_encoded_length_loop n len =
     (if n \<ge> 128 then count_encoded_length_loop (drop_bit 7 n) (len + 1) else len)"

declare count_encoded_length_loop.simps [simp del]

definition count_encoded_length :: "nat \<Rightarrow> nat \<Rightarrow> nat" where
  "count_encoded_length n prefix =
     (let k = push_bit prefix 1 - 1 in
      if n < k then 1 else count_encoded_length_loop (n - k) 1 + 1)"

fun encode_length_loop :: "u8 list \<Rightarrow> nat \<Rightarrow> nat \<Rightarrow> u8 list \<times> nat" where
  "encode_length_loop buf i n =
     (if n \<ge> 128 then encode_length_loop (buf[i := push_bit 7 1 OR of_nat (n AND 0x7f)]) (i + 1) (drop_bit 7 n)
      else (buf[i := of_nat n], i + 1))"

declare encode_length_loop.simps [simp del]

text \<open>\<^verbatim>\<open>encode_length\<close> returns the array it wrote and the number of bytes written.\<close>

definition encode_length :: "u8 list \<Rightarrow> nat \<Rightarrow> nat \<Rightarrow> u8 list \<times> nat" where
  "encode_length buf n prefix =
     (let k = push_bit prefix 1 - 1 :: nat;
          buf = buf[0 := buf ! 0 AND NOT (of_nat k)] in
      if n < k then (buf[0 := buf ! 0 OR of_nat n], 1)
      else encode_length_loop (buf[0 := buf ! 0 OR of_nat k]) 1 (n - k))"

section \<open>Decoding\<close>

text \<open>
  The loop of \<^verbatim>\<open>decode_length\<close> over \<^verbatim>\<open>[in, last)\<close>; \<open>Inl ()\<close> is the return value -1, otherwise the value,
  the next shift, \<^verbatim>\<open>*fin\<close> and the number of bytes read.
\<close>

fun decode_length_loop :: "u32 \<Rightarrow> nat \<Rightarrow> u8 list \<Rightarrow> nat \<Rightarrow> unit + (u32 \<times> nat \<times> bool \<times> nat)" where
  "decode_length_loop n shift [] nread = Inr (n, shift, False, nread)"
| "decode_length_loop n shift (b # bs) nread =
     (let add = ucast (b AND 0x7f) :: u32 in
      if shift \<ge> 32 then Inl ()
      else if drop_bit shift (- 1) < add then Inl ()
      else
        let add = push_bit shift add in
        if - 1 - add < n then Inl ()
        else
          let n = n + add in
          if b AND 0x80 = 0 then Inr (n, shift, True, nread + 1)
          else decode_length_loop n (shift + 7) bs (nread + 1))"

text \<open>\<open>None\<close> is a read of \<^verbatim>\<open>*in\<close> with \<^verbatim>\<open>in == last\<close>.\<close>

definition decode_length ::
  "u32 \<Rightarrow> nat \<Rightarrow> u8 list \<Rightarrow> nat \<Rightarrow> (unit + (u32 \<times> nat \<times> bool \<times> nat)) option" where
  "decode_length initial shift bs prefix =
     (let k = ucast (push_bit prefix 1 - 1 :: u8) :: u32; n = initial in
      if n = 0 then
        (case bs of
           [] \<Rightarrow> None
         | b # bs1 \<Rightarrow>
             if ucast b AND k \<noteq> k then Some (Inr (ucast b AND k, 0, True, 1))
             else if bs1 = [] then Some (Inr (k, 0, False, 1))
             else Some (decode_length_loop k shift bs1 1))
      else Some (decode_length_loop n shift bs 0))"


section \<open>The value of an encoding\<close>

text \<open>Continuation bytes are little-endian groups of seven bits, all but the last with the top bit set.\<close>

fun cont_value :: "u8 list \<Rightarrow> nat" where
  "cont_value [] = 0"
| "cont_value (b # bs) = unat b mod 128 + 128 * cont_value bs"

definition cont_more :: "u8 \<Rightarrow> bool" where
  "cont_more b \<longleftrightarrow> b AND 0x80 \<noteq> 0"

text \<open>The first byte holds the prefix; a prefix of all ones is continued.\<close>

definition prefix_max :: "nat \<Rightarrow> nat" where
  "prefix_max prefix = 2 ^ prefix - 1"

fun cont_bytes :: "nat \<Rightarrow> u8 list" where
  "cont_bytes n = (if n \<ge> 128 then of_nat (128 + n mod 128) # cont_bytes (n div 128) else [of_nat n])"

declare cont_bytes.simps [simp del]

definition int_bytes :: "u8 \<Rightarrow> nat \<Rightarrow> nat \<Rightarrow> u8 list" where
  "int_bytes b n prefix =
     (let k = prefix_max prefix; high = b AND NOT (mask prefix) in
      if n < k then [high OR of_nat n] else (high OR mask prefix) # cont_bytes (n - k))"

lemma length_cont_bytes: "length (cont_bytes n) \<ge> 1"
  by (subst cont_bytes.simps) simp

lemma count_loop_cont_bytes: "count_encoded_length_loop n len = len + length (cont_bytes n) - 1"
  by (induction n len rule: count_encoded_length_loop.induct)
     (subst count_encoded_length_loop.simps, subst cont_bytes.simps, use length_cont_bytes in \<open>auto simp: drop_bit_7\<close>)

lemma length_int_bytes: "length (int_bytes b n prefix) = count_encoded_length n prefix"
  using length_cont_bytes [of "n - (2 ^ prefix - 1)"]
  by (auto simp: int_bytes_def count_encoded_length_def prefix_max_def Let_def count_loop_cont_bytes push_bit_eq_mult)

lemma count_encoded_length_pos: "0 < count_encoded_length n prefix"
  by (simp add: count_encoded_length_def Let_def)

lemma length_cont_bytes_le: "n < 128 ^ k \<Longrightarrow> 0 < k \<Longrightarrow> length (cont_bytes n) \<le> k"
proof (induction k arbitrary: n)
  case (Suc k)
  show ?case
  proof (cases "n \<ge> 128")
    case True
    then have "n div 128 < 128 ^ k" "0 < k" using Suc.prems by (auto simp: less_mult_imp_div_less mult.commute intro: gr0I)
    then show ?thesis using Suc.IH [of "n div 128"] by (subst cont_bytes.simps) auto
  qed (subst cont_bytes.simps, simp)
qed simp

text \<open>Any \<^verbatim>\<open>size_t\<close> fits the 16-byte scratch arrays of the callers; a \<^verbatim>\<open>uint32_t\<close> takes at most six bytes.\<close>

lemma count_encoded_length_le:
  "n < 2 ^ 64 \<Longrightarrow> count_encoded_length n prefix \<le> 11"
  "n < 2 ^ 32 \<Longrightarrow> count_encoded_length n prefix \<le> 6"
  using length_cont_bytes_le [of "n - prefix_max prefix" 10] length_cont_bytes_le [of "n - prefix_max prefix" 5]
  by (auto simp: length_int_bytes [symmetric, of _ _ 0] int_bytes_def Let_def)

section \<open>Encoding writes the value\<close>

lemma and_0x7f: "n AND 0x7f = n mod (128 :: nat)"
  using take_bit_eq_mask [of 7 n] by (simp add: mask_eq_exp_minus_1 take_bit_eq_mod)

lemma cont_byte: "m < 128 \<Longrightarrow> 128 OR of_nat m = (128 + of_nat m :: u8)"
proof -
  assume "m < 128"
  then have "\<not> bit m 7" by (simp add: bit_iff_odd)
  then have "\<not> bit (of_nat m :: u8) 7" by (simp add: bit_of_nat_iff)
  then have "of_nat m AND 2 ^ 7 = (0 :: u8)" by (simp only: and_exp_eq_0_iff_not_bit) simp
  then show ?thesis using disjunctive_add_eq_or [of "128" "of_nat m :: u8"] by (simp add: and.commute)
qed

lemma encode_length_loop_bytes:
  "i + length (cont_bytes n) \<le> length buf \<Longrightarrow>
   encode_length_loop buf i n =
     (take i buf @ cont_bytes n @ drop (i + length (cont_bytes n)) buf, i + length (cont_bytes n))"
proof (induction buf i n rule: encode_length_loop.induct)
  case (1 buf i n)
  show ?case
  proof (cases "n \<ge> 128")
    case True
    have c: "cont_bytes n = of_nat (128 + n mod 128) # cont_bytes (n div 128)"
      using True by (subst cont_bytes.simps) simp
    let ?buf = "buf[i := of_nat (128 + n mod 128)]"
    have l: "i < length buf" "i + 1 + length (cont_bytes (n div 128)) \<le> length ?buf" using "1.prems" c by simp_all
    have "encode_length_loop buf i n = encode_length_loop ?buf (i + 1) (n div 128)"
      using True by (subst encode_length_loop.simps) (simp add: and_0x7f cont_byte drop_bit_7)
    also have "\<dots> = (take (i + 1) ?buf @ cont_bytes (n div 128) @ drop (i + 1 + length (cont_bytes (n div 128))) ?buf,
        i + 1 + length (cont_bytes (n div 128)))"
      using "1.IH" [OF True] l True by (simp add: and_0x7f cont_byte drop_bit_7)
    also have "take (i + 1) ?buf = take i buf @ [of_nat (128 + n mod 128)]" using l by (simp add: take_Suc_conv_app_nth)
    finally show ?thesis using c by simp
  next
    case False
    then have "cont_bytes n = [of_nat n]" by (subst cont_bytes.simps) simp
    then show ?thesis using False "1.prems" by (subst encode_length_loop.simps) (simp add: upd_conv_take_nth_drop)
  qed
qed

lemma of_nat_prefix_max: "prefix \<le> 8 \<Longrightarrow> (of_nat (prefix_max prefix) :: u8) = mask prefix"
  by (simp add: prefix_max_def mask_eq_exp_minus_1 of_nat_diff)

lemma encode_length_bytes:
  assumes "prefix \<le> 8" "count_encoded_length n prefix \<le> length buf"
  shows "encode_length buf n prefix =
     (int_bytes (buf ! 0) n prefix @ drop (count_encoded_length n prefix) buf, count_encoded_length n prefix)"
proof -
  have k: "push_bit prefix 1 - 1 = prefix_max prefix" by (simp add: prefix_max_def push_bit_eq_mult)
  obtain b bs where buf: "buf = b # bs" using assms(2) count_encoded_length_pos [of n prefix] by (cases buf) auto
  have len: "length (int_bytes (buf ! 0) n prefix) \<le> length buf" using assms(2) by (simp add: length_int_bytes)
  show ?thesis
  proof (cases "n < prefix_max prefix")
    case True
    then show ?thesis using assms(1) unfolding encode_length_def count_encoded_length_def k Let_def
      by (simp add: buf int_bytes_def of_nat_prefix_max)
  next
    case False
    let ?cs = "cont_bytes (n - prefix_max prefix)"
    have c: "count_encoded_length n prefix = 1 + length ?cs"
      using False length_int_bytes [of b n prefix] by (simp add: int_bytes_def)
    have "1 + length ?cs \<le> length (buf[0 := buf ! 0 AND NOT (mask prefix) OR mask prefix])" using assms(2) c by simp
    from encode_length_loop_bytes [OF this] show ?thesis
      using assms(1) False c unfolding encode_length_def k Let_def by (simp add: buf int_bytes_def of_nat_prefix_max)
  qed
qed

section \<open>Decoding computes the value\<close>

text \<open>
  One byte of the loop in arithmetic: the three checks together say that adding \<open>2 ^ shift\<close> times the
  low seven bits stays below \<open>2 ^ 32\<close>.
\<close>

lemma unat_and_0x7f: "unat (b AND 0x7f :: u8) = unat b mod 128"
  using take_bit_eq_mask [of 7 b, symmetric] unsigned_take_bit_eq [of 7 b, where ?'a = nat]
  by (simp add: mask_eq_exp_minus_1 take_bit_eq_mod)

lemma unat_ucast_u8 [simp]: "unat (ucast (b :: u8) :: u32) = unat b"
  by (simp add: unsigned_ucast_eq take_bit_nat_eq_self_iff unsigned_less [THEN less_le_trans])

lemma decode_byte:
  fixes n :: u32 and b :: u8
  assumes "shift < 32"
  defines "add \<equiv> ucast (b AND 0x7f) :: u32"
  shows "(drop_bit shift (- 1) < add \<or> - 1 - push_bit shift add < n) \<longleftrightarrow> unat n + 2 ^ shift * (unat b mod 128) \<ge> 2 ^ 32"
    and "unat n + 2 ^ shift * (unat b mod 128) < 2 ^ 32 \<Longrightarrow> unat (n + push_bit shift add) = unat n + 2 ^ shift * (unat b mod 128)"
proof -
  let ?v = "unat b mod 128"
  have a: "unat add = ?v" by (simp add: add_def unat_and_0x7f)
  have top: "unat (drop_bit shift (- 1 :: u32)) = (2 ^ 32 - 1) div 2 ^ shift"
  proof -
    have "unat (drop_bit shift (- 1 :: u32)) = drop_bit shift (unat (- 1 :: u32))"
      using take_bit_nat_eq_self [of "unat (- 1 :: u32)" 32] unsigned_less [of "- 1 :: u32", where ?'a = nat]
      by (simp only: unsigned_drop_bit_eq) simp
    then show ?thesis by (simp add: drop_bit_eq_div unsigned_minus_1_eq_mask mask_eq_exp_minus_1)
  qed
  have c1: "drop_bit shift (- 1) < add \<longleftrightarrow> 2 ^ shift * ?v \<ge> 2 ^ 32"
  proof -
    have "(2 ^ 32 - 1) div 2 ^ shift < ?v \<longleftrightarrow> 2 ^ 32 - 1 < ?v * 2 ^ shift"
      by (rule div_less_iff_less_mult) simp
    then show ?thesis unfolding word_less_nat_alt top a by (auto simp: mult.commute)
  qed
  have sh: "2 ^ shift * ?v < 2 ^ 32 \<Longrightarrow> unat (push_bit shift add) = 2 ^ shift * ?v"
    unfolding unsigned_push_bit_eq a by (simp add: push_bit_eq_mult take_bit_nat_eq_self_iff mult.commute)
  have c2: "- 1 - x < n \<longleftrightarrow> unat n + unat x \<ge> 2 ^ 32" for x :: u32
    using unsigned_less [of x, where ?'a = nat]
    by (auto simp: word_less_nat_alt unat_sub_if' unsigned_minus_1_eq_mask mask_eq_exp_minus_1)
  show "(drop_bit shift (- 1) < add \<or> - 1 - push_bit shift add < n) \<longleftrightarrow> unat n + 2 ^ shift * ?v \<ge> 2 ^ 32"
    using c1 c2 sh by (cases "2 ^ shift * ?v < 2 ^ 32") (auto simp: not_less)
  show "unat n + 2 ^ shift * ?v < 2 ^ 32 \<Longrightarrow> unat (n + push_bit shift add) = unat n + 2 ^ shift * ?v"
    using sh by (simp add: unat_word_ariths)
qed

lemma decode_loop_step:
  "decode_length_loop n shift (b # bs) nread =
     (if shift < 32 \<and> unat n + 2 ^ shift * (unat b mod 128) < 2 ^ 32 then
        let n = of_nat (unat n + 2 ^ shift * (unat b mod 128)) in
        if cont_more b then decode_length_loop n (shift + 7) bs (nread + 1) else Inr (n, shift, True, nread + 1)
      else Inl ())"
proof (cases "shift < 32 \<and> unat n + 2 ^ shift * (unat b mod 128) < 2 ^ 32")
  case True
  then have u: "unat (n + push_bit shift (ucast (b AND 0x7f))) = unat n + 2 ^ shift * (unat b mod 128)"
    by (intro decode_byte(2)) simp_all
  have "n + push_bit shift (ucast (b AND 0x7f)) = of_nat (unat n + 2 ^ shift * (unat b mod 128))"
    unfolding u [symmetric] by simp
  moreover have "\<not> (drop_bit shift (- 1) < (ucast (b AND 0x7f) :: u32))" "\<not> (- 1 - push_bit shift (ucast (b AND 0x7f)) < n)"
    using decode_byte(1) [of shift b n] True by auto
  ultimately show ?thesis using True by (simp add: cont_more_def Let_def)
next
  case False
  then show ?thesis using decode_byte(1) [of shift b n] by (cases "shift < 32") (auto simp: not_less Let_def)
qed

declare decode_length_loop.simps(2) [simp del]

text \<open>Reading a group of continuation bytes that all have the top bit set.\<close>

lemma decode_loop_more:
  assumes "list_all cont_more cs"
  shows "decode_length_loop n shift (cs @ bs) nread =
     (if (cs = [] \<or> shift + 7 * (length cs - 1) < 32) \<and> unat n + 2 ^ shift * cont_value cs < 2 ^ 32 then
        decode_length_loop (of_nat (unat n + 2 ^ shift * cont_value cs)) (shift + 7 * length cs) bs (nread + length cs)
      else Inl ())"
  using assms
proof (induction cs arbitrary: n shift nread)
  case (Cons c cs)
  define m where "m = unat n + 2 ^ shift * (unat c mod 128)"
  define w where "w = (of_nat m :: u32)"
  have e: "unat n + 2 ^ shift * cont_value (c # cs) = m + 2 ^ (shift + 7) * cont_value cs"
    by (simp add: m_def algebra_simps power_add)
  have st: "decode_length_loop n shift ((c # cs) @ bs) nread =
      (if shift < 32 \<and> m < 2 ^ 32 then decode_length_loop w (shift + 7) (cs @ bs) (nread + 1) else Inl ())"
    unfolding append_Cons decode_loop_step m_def [symmetric] w_def [symmetric] Let_def using Cons.prems by simp
  show ?case
  proof (cases "shift < 32 \<and> m < 2 ^ 32")
    case True
    then have w: "unat w = m" unfolding w_def using unat_of_nat_u32 by blast
    have "cs = [] \<or> shift + 7 + 7 * (length cs - 1) = shift + 7 * length cs" by (cases cs) auto
    then show ?thesis
      using Cons.IH [of w "shift + 7" "nread + 1"] Cons.prems True
      unfolding st e w by (auto simp: w_def add.assoc)
  next
    case False
    then show ?thesis unfolding st e by auto
  qed
qed (use unsigned_less [where ?'a = nat and ?'b = 32] in auto)

text \<open>A complete group: the last byte has the top bit clear.\<close>

lemma decode_loop_done:
  assumes "list_all cont_more cs" "\<not> cont_more c"
  shows "decode_length_loop n shift (cs @ c # bs) nread =
     (if shift + 7 * length cs < 32 \<and> unat n + 2 ^ shift * cont_value (cs @ [c]) < 2 ^ 32 then
        Inr (of_nat (unat n + 2 ^ shift * cont_value (cs @ [c])), shift + 7 * length cs, True, nread + length cs + 1)
      else Inl ())"
proof -
  have v: "cont_value (cs @ [c]) = cont_value cs + 128 ^ length cs * (unat c mod 128)"
    by (induction cs) (simp_all add: algebra_simps)
  have p: "2 ^ (shift + 7 * length cs) = (2 :: nat) ^ shift * 128 ^ length cs" by (simp add: power_add power_mult)
  have e: "2 ^ shift * cont_value (cs @ [c]) = 2 ^ shift * cont_value cs + 2 ^ (shift + 7 * length cs) * (unat c mod 128)"
    unfolding v p by (simp add: algebra_simps)
  have "cs = [] \<or> shift + 7 * (length cs - 1) < 32" if "shift + 7 * length cs < 32" using that by (cases cs) auto
  moreover define m where "m = unat n + 2 ^ shift * cont_value cs"
  moreover define w where "w = (of_nat m :: u32)"
  moreover have "m < 2 ^ 32 \<Longrightarrow> unat w = m" unfolding w_def by (rule unat_of_nat_u32)
  ultimately show ?thesis
    unfolding decode_loop_more [OF assms(1)] e add.assoc [symmetric] m_def [symmetric] w_def [symmetric]
    by (auto simp: decode_loop_step assms(2) Let_def add.assoc)
qed

lemma cont_more_of_nat: "m < 256 \<Longrightarrow> cont_more (of_nat m) \<longleftrightarrow> 128 \<le> m"
proof -
  assume m: "m < 256"
  have "cont_more (of_nat m) \<longleftrightarrow> bit (of_nat m :: u8) 7"
    using and_exp_eq_0_iff_not_bit [of "of_nat m :: u8" 7] by (simp add: cont_more_def)
  also have "\<dots> \<longleftrightarrow> bit m 7" by (simp add: bit_of_nat_iff)
  also have "\<dots> \<longleftrightarrow> odd (m div 128)" by (simp add: bit_iff_odd)
  also have "\<dots> \<longleftrightarrow> 128 \<le> m"
  proof (cases "128 \<le> m")
    case True
    then have "m div 128 = 1" using m by (intro div_nat_eqI) simp_all
    then show ?thesis using True by simp
  qed simp
  finally show ?thesis .
qed

lemma cont_bytes_split:
  "\<exists>cs c. cont_bytes n = cs @ [c] \<and> list_all cont_more cs \<and> \<not> cont_more c \<and> cont_value (cs @ [c]) = n"
proof (induction n rule: cont_bytes.induct)
  case (1 n)
  show ?case
  proof (cases "n \<ge> 128")
    case True
    then obtain cs c where c: "cont_bytes (n div 128) = cs @ [c]" "list_all cont_more cs" "\<not> cont_more c"
      "cont_value (cs @ [c]) = n div 128" using 1 by blast
    let ?b = "of_nat (128 + n mod 128) :: u8"
    have u: "unat ?b = 128 + n mod 128" by (rule unat_of_nat_u8) simp
    have "cont_more ?b" using cont_more_of_nat [of "128 + n mod 128"] by simp
    moreover have "cont_value (?b # cs @ [c]) = n" using c(4) by (simp only: cont_value.simps u) simp
    moreover have "cont_bytes n = (?b # cs) @ [c]" using True c(1) by (subst cont_bytes.simps) simp
    ultimately show ?thesis using c(2,3) by (metis append_Cons list.pred_inject(2))
  next
    case False
    then show ?thesis using cont_more_of_nat [of n]
      by (intro exI [of _ "[]"]) (subst cont_bytes.simps, simp add: unat_of_nat_u8)
  qed
qed

lemma prefix_byte:
  fixes b :: u8
  assumes "prefix \<le> 8"
  shows "n < prefix_max prefix \<Longrightarrow> ucast (b AND NOT (mask prefix) OR of_nat n) AND ucast (mask prefix :: u8) = (of_nat n :: u32)"
    and "ucast (b AND NOT (mask prefix) OR mask prefix) AND ucast (mask prefix :: u8) = (ucast (mask prefix :: u8) :: u32)"
    and "unat (ucast (mask prefix :: u8) :: u32) = prefix_max prefix"
proof -
  show "unat (ucast (mask prefix :: u8) :: u32) = prefix_max prefix"
    using power_increasing [OF assms, of "2 :: nat"] unat_of_nat_u8 [of "prefix_max prefix"]
    by (simp add: of_nat_prefix_max [OF assms, symmetric] prefix_max_def)
  show "ucast (b AND NOT (mask prefix) OR mask prefix) AND ucast (mask prefix :: u8) = (ucast (mask prefix :: u8) :: u32)"
    by (auto simp: bit_eq_iff bit_simps)
  assume n: "n < prefix_max prefix"
  have "i < prefix" if b: "bit n i" for i
  proof (rule ccontr)
    assume "\<not> i < prefix"
    then have "(2 :: nat) ^ prefix \<le> 2 ^ i" by (simp add: power_increasing)
    then have "n < 2 ^ i" using n unfolding prefix_max_def by linarith
    then show False using b by (simp add: bit_iff_odd)
  qed
  then show "ucast (b AND NOT (mask prefix) OR of_nat n) AND ucast (mask prefix :: u8) = (of_nat n :: u32)"
    using assms by (auto simp: bit_eq_iff bit_simps dest: less_le_trans)
qed

lemma unat_prefix_max: "prefix \<le> 8 \<Longrightarrow> unat (of_nat (prefix_max prefix) :: u32) = prefix_max prefix"
  by (simp flip: prefix_byte(3))

lemma prefix_max_pos: "0 < prefix \<Longrightarrow> 0 < prefix_max prefix"
  using one_less_power [of "2 :: nat" prefix] by (simp add: prefix_max_def)

lemma push_bit_prefix: "push_bit prefix 1 - 1 = (mask prefix :: u8)"
  by (simp add: mask_eq_exp_minus_1 push_bit_eq_mult)

lemma decode_length_first:
  assumes "0 < prefix" "prefix \<le> 8"
  shows "decode_length 0 shift (b # bs) prefix =
     (let p = unat (ucast b AND (ucast (mask prefix :: u8) :: u32)) in
      if p \<noteq> prefix_max prefix then Some (Inr (of_nat p, 0, True, 1))
      else if bs = [] then Some (Inr (of_nat (prefix_max prefix), 0, False, 1))
      else Some (decode_length_loop (of_nat (prefix_max prefix)) shift bs 1))"
proof -
  define k where "k = (ucast (mask prefix :: u8) :: u32)"
  define w where "w = ucast b AND k"
  have k: "unat k = prefix_max prefix" unfolding k_def by (rule prefix_byte(3) [OF assms(2)])
  have kw: "of_nat (prefix_max prefix) = k" unfolding k [symmetric] by simp
  have "w = k \<longleftrightarrow> unat w = prefix_max prefix" by (simp add: k [symmetric] word_unat_eq_iff)
  then show ?thesis
    unfolding decode_length_def push_bit_prefix Let_def k_def [symmetric] list.case w_def [symmetric] kw by auto
qed

section \<open>Pieces\<close>

lemma decode_loop_nread:
  "decode_length_loop n shift bs (nread + k) = map_sum id (\<lambda>(n', s', fin, r). (n', s', fin, r + k)) (decode_length_loop n shift bs nread)"
proof (induction bs arbitrary: n shift nread)
  case (Cons b bs)
  show ?case using Cons.IH [of _ "shift + 7" "nread + 1"] by (simp add: decode_loop_step Let_def del: of_nat_add)
qed simp

lemma decode_loop_append:
  "decode_length_loop n shift (xs @ ys) nread =
     (case decode_length_loop n shift xs nread of
        Inl _ \<Rightarrow> Inl ()
      | Inr (n', s', fin, r) \<Rightarrow> if fin then Inr (n', s', fin, r) else decode_length_loop n' s' ys r)"
  by (induction xs arbitrary: n shift nread) (simp_all add: decode_loop_step Let_def)

lemma decode_loop_grows:
  "decode_length_loop n shift bs nread = Inr (n', s', fin, r) \<Longrightarrow> unat n \<le> unat n'"
proof (induction bs arbitrary: n shift nread)
  case (Cons b bs)
  define m where "m = unat n + 2 ^ shift * (unat b mod 128)"
  define w where "w = (of_nat m :: u32)"
  have st: "decode_length_loop n shift (b # bs) nread =
      (if shift < 32 \<and> m < 2 ^ 32 then
         if cont_more b then decode_length_loop w (shift + 7) bs (nread + 1) else Inr (w, shift, True, nread + 1)
       else Inl ())"
    unfolding decode_loop_step m_def [symmetric] w_def [symmetric] Let_def by simp
  have c: "shift < 32 \<and> m < 2 ^ 32" by (rule ccontr) (use Cons.prems st in auto)
  then have w: "unat w = m" unfolding w_def using unat_of_nat_u32 by blast
  have "unat w \<le> unat n'"
    using Cons.prems Cons.IH [of w "shift + 7" "nread + 1"] c unfolding st by (auto split: if_splits)
  then show ?case unfolding w by (simp add: m_def)
qed simp

lemma int_bytes_decode:
  assumes "0 < prefix" "prefix \<le> 8" "n < 2 ^ 32"
  shows "\<exists>shift. decode_length 0 0 (int_bytes b n prefix @ rest) prefix =
     Some (Inr (of_nat n, shift, True, count_encoded_length n prefix))"
proof (cases "n < prefix_max prefix")
  case True
  have "unat (of_nat n :: u32) = n" by (rule unat_of_nat_u32) (rule assms)
  then show ?thesis using True prefix_byte(1) [OF assms(2) True, of b] length_int_bytes [of b n prefix]
    by (simp add: int_bytes_def decode_length_first [OF assms(1,2)])
next
  case False
  define k where "k = prefix_max prefix"
  have k: "unat (of_nat k :: u32) = k" "k \<le> n"
    using prefix_byte(3) [OF assms(2)] False unat_of_nat_u32 [of k] assms(3) by (auto simp: k_def)
  obtain cs c where c: "cont_bytes (n - k) = cs @ [c]" "list_all cont_more cs" "\<not> cont_more c" "cont_value (cs @ [c]) = n - k"
    using cont_bytes_split by blast
  have len: "length cs \<le> 4" using length_cont_bytes_le [of "n - k" 5] assms(3) c(1) by simp
  have v: "unat (of_nat k :: u32) + 2 ^ 0 * cont_value (cs @ [c]) = n" using k c(4) by simp
  have "decode_length_loop (of_nat k) 0 (cs @ c # rest) 1 = Inr (of_nat n, 0 + 7 * length cs, True, 1 + length cs + 1)"
    unfolding decode_loop_done [OF c(2,3)] v using len assms(3) by simp
  then show ?thesis
    using False prefix_byte(2,3) [OF assms(2)] length_int_bytes [of b n prefix] c(1)
    by (simp add: int_bytes_def decode_length_first [OF assms(1,2)] k_def)
qed

section \<open>Properties\<close>

text \<open>
  C19: prefixed integers survive the round trip.  Any 32-bit value, written with any prefix into an array of
  \<^verbatim>\<open>count_encoded_length\<close> bytes or more and followed by anything, is read back in one call, with the same
  number of bytes.
\<close>

theorem hpack_int_roundtrip:
  assumes "0 < prefix" "prefix \<le> 8" "n < 2 ^ 32" "count_encoded_length n prefix \<le> length buf"
  shows "\<exists>out len shift. encode_length buf n prefix = (out, len) \<and> len = count_encoded_length n prefix \<and>
     drop len out = drop len buf \<and>
     decode_length 0 0 (take len out @ rest) prefix = Some (Inr (of_nat n, shift, True, len))"
proof -
  let ?b = "buf ! 0" and ?len = "count_encoded_length n prefix"
  have e: "encode_length buf n prefix = (int_bytes ?b n prefix @ drop ?len buf, ?len)"
    by (rule encode_length_bytes [OF assms(2,4)])
  have "\<exists>shift. decode_length 0 0 (int_bytes ?b n prefix @ rest) prefix = Some (Inr (of_nat n, shift, True, ?len))"
    by (rule int_bytes_decode [OF assms(1-3)])
  then show ?thesis using e by (simp add: length_int_bytes)
qed

theorem hpack_int_roundtrip_witness:
  "\<exists>out len shift. encode_length [0xff, 0, 0] 1337 5 = (out, len) \<and> len = count_encoded_length 1337 5 \<and>
     drop len out = drop len [0xff, 0, 0] \<and>
     decode_length 0 0 (take len out @ [7]) 5 = Some (Inr (1337, shift, True, len))"
  using hpack_int_roundtrip [of 5 1337 "[0xff, 0, 0]" "[7]"]
  by (simp add: count_encoded_length_def count_encoded_length_loop.simps drop_bit_7)

text \<open>
  C20: the decoder computes the arithmetic value or fails.  After a prefix of all ones, a complete group of
  continuation bytes is accepted exactly if it has at most five bytes and prefix plus groups is below
  \<open>2 ^ 32\<close>; the result is this sum, and everything else is the error return.  No 32-bit operation on the
  way wraps around.
\<close>

theorem decode_length_exact:
  assumes "0 < prefix" "prefix \<le> 8" "ucast b AND ucast (mask prefix :: u8) = (ucast (mask prefix :: u8) :: u32)"
    and "list_all cont_more cs" "\<not> cont_more c"
  shows "decode_length 0 0 (b # cs @ c # rest) prefix =
     Some (if length cs < 5 \<and> prefix_max prefix + cont_value (cs @ [c]) < 2 ^ 32
           then Inr (of_nat (prefix_max prefix + cont_value (cs @ [c])), 7 * length cs, True, length cs + 2)
           else Inl ())"
  unfolding decode_length_first [OF assms(1,2)] assms(3) prefix_byte(3) [OF assms(2)] Let_def
  by (simp add: decode_loop_done [OF assms(4,5)] unat_prefix_max [OF assms(2)])

theorem decode_length_exact_witness:
  "decode_length 0 0 [0x3f, 0xff, 0xff, 0xff, 0xff, 0x10] 5 = Some (Inl ()) \<and>
   decode_length 0 0 [0x3f, 0xe0, 0xff, 0xff, 0xff, 0x0f] 5 = Some (Inr (0xffffffff, 28, True, 6))"
  using decode_length_exact [of 5 "0x3f" "[0xff, 0xff, 0xff, 0xff]" "0x10" "[]"]
    decode_length_exact [of 5 "0x3f" "[0xe0, 0xff, 0xff, 0xff]" "0x0f" "[]"]
  by (simp add: cont_more_def prefix_max_def mask_eq_exp_minus_1)

text \<open>
  C29: an integer may be cut anywhere.  If the input ends inside an integer, calling \<^verbatim>\<open>decode_length\<close> again with the
  value and the shift it stored, on the rest of the input, gives what one call on the whole input
  gives.
\<close>

theorem decode_length_streams:
  assumes "0 < prefix" "prefix \<le> 8"
  shows "decode_length 0 0 (x # xs @ ys) prefix =
     (case decode_length 0 0 (x # xs) prefix of
        Some (Inr (n, shift, False, nread)) \<Rightarrow>
          map_option (map_sum id (\<lambda>(n', s', fin, r). (n', s', fin, nread + r))) (decode_length n shift ys prefix)
      | r \<Rightarrow> r)"
proof -
  let ?k = "of_nat (prefix_max prefix) :: u32"
  note k = unat_prefix_max [OF assms(2)] prefix_max_pos [OF assms(1)]
  have resume: "decode_length n shift ys prefix = Some (decode_length_loop n shift ys 0)" if "prefix_max prefix \<le> unat n" for n shift
    using that k(2) by (auto simp: decode_length_def Let_def)
  have off: "decode_length_loop n shift ys r = map_sum id (\<lambda>(n', s', fin, r'). (n', s', fin, r + r')) (decode_length_loop n shift ys 0)"
    for n shift r using decode_loop_nread [of n shift ys 0 r] by (simp add: add.commute)
  show ?thesis
  proof (cases "unat (ucast x AND (ucast (mask prefix :: u8) :: u32)) = prefix_max prefix")
    case False
    then show ?thesis by (simp add: decode_length_first [OF assms] Let_def)
  next
    case True
    show ?thesis
    proof (cases "xs = []")
      case True': True
      show ?thesis
        using True True' k off [of ?k 0 1] resume [of ?k 0] by (cases "ys = []") (simp_all add: decode_length_first [OF assms])
    next
      case False
      have "decode_length_loop ?k 0 (xs @ ys) 1 =
          (case decode_length_loop ?k 0 xs 1 of
             Inl _ \<Rightarrow> Inl ()
           | Inr (n', s', fin, r) \<Rightarrow> if fin then Inr (n', s', fin, r) else decode_length_loop n' s' ys r)"
        by (rule decode_loop_append)
      moreover have "decode_length n' s' ys prefix = Some (decode_length_loop n' s' ys 0)"
        if "decode_length_loop ?k 0 xs 1 = Inr (n', s', fin, r)" for n' s' fin r
        using decode_loop_grows [OF that] k resume by simp
      ultimately show ?thesis
        using True False
        by (auto simp: decode_length_first [OF assms] split: sum.splits prod.splits bool.splits) (rule off)
    qed
  qed
qed

theorem decode_length_streams_witness:
  "decode_length 0 0 [0x1f] 5 = Some (Inr (0x1f, 0, False, 1)) \<and>
   decode_length 0 0 [0x1f, 0x9a, 0x0a] 5 =
     map_option (map_sum id (\<lambda>(n', s', fin, r). (n', s', fin, 1 + r))) (decode_length 0x1f 0 [0x9a, 0x0a] 5)"
proof -
  have d: "decode_length 0 0 [0x1f] 5 = Some (Inr (0x1f, 0, False, 1))" by (simp add: decode_length_def)
  show ?thesis using decode_length_streams [of 5 "0x1f" "[]" "[0x9a, 0x0a]"] d by simp
qed

end
