(* ===== verification/Hpack_Token.thy ===== *)
theory Hpack_Token
  imports Nghttp2_Prelude
begin

unbundle bit_operations_syntax

text \<open>
  \<^verbatim>\<open>lib/nghttp2_hd.c\<close> and \<^verbatim>\<open>lib/nghttp2_hd.h\<close>: the header field tokens, the static table, the token lookup
  that is generated as nested switches on the length and the last character of the name, and the hash
  of a name.

  Lemmas: the lookup is exact, that is, it finds every name of the static table and the six further
  names with a token, and nothing else.
\<close>

section \<open>Tokens\<close>

text \<open>The values of \<^verbatim>\<open>nghttp2_token\<close>; a name without a token has -1.\<close>

abbreviation (input) NGHTTP2_TOKEN__AUTHORITY :: int where "NGHTTP2_TOKEN__AUTHORITY \<equiv> 0"
abbreviation (input) NGHTTP2_TOKEN__METHOD :: int where "NGHTTP2_TOKEN__METHOD \<equiv> 1"
abbreviation (input) NGHTTP2_TOKEN__PATH :: int where "NGHTTP2_TOKEN__PATH \<equiv> 3"
abbreviation (input) NGHTTP2_TOKEN__SCHEME :: int where "NGHTTP2_TOKEN__SCHEME \<equiv> 5"
abbreviation (input) NGHTTP2_TOKEN__STATUS :: int where "NGHTTP2_TOKEN__STATUS \<equiv> 7"
abbreviation (input) NGHTTP2_TOKEN_ACCEPT_CHARSET :: int where "NGHTTP2_TOKEN_ACCEPT_CHARSET \<equiv> 14"
abbreviation (input) NGHTTP2_TOKEN_ACCEPT_ENCODING :: int where "NGHTTP2_TOKEN_ACCEPT_ENCODING \<equiv> 15"
abbreviation (input) NGHTTP2_TOKEN_ACCEPT_LANGUAGE :: int where "NGHTTP2_TOKEN_ACCEPT_LANGUAGE \<equiv> 16"
abbreviation (input) NGHTTP2_TOKEN_ACCEPT_RANGES :: int where "NGHTTP2_TOKEN_ACCEPT_RANGES \<equiv> 17"
abbreviation (input) NGHTTP2_TOKEN_ACCEPT :: int where "NGHTTP2_TOKEN_ACCEPT \<equiv> 18"
abbreviation (input) NGHTTP2_TOKEN_ACCESS_CONTROL_ALLOW_ORIGIN :: int where "NGHTTP2_TOKEN_ACCESS_CONTROL_ALLOW_ORIGIN \<equiv> 19"
abbreviation (input) NGHTTP2_TOKEN_AGE :: int where "NGHTTP2_TOKEN_AGE \<equiv> 20"
abbreviation (input) NGHTTP2_TOKEN_ALLOW :: int where "NGHTTP2_TOKEN_ALLOW \<equiv> 21"
abbreviation (input) NGHTTP2_TOKEN_AUTHORIZATION :: int where "NGHTTP2_TOKEN_AUTHORIZATION \<equiv> 22"
abbreviation (input) NGHTTP2_TOKEN_CACHE_CONTROL :: int where "NGHTTP2_TOKEN_CACHE_CONTROL \<equiv> 23"
abbreviation (input) NGHTTP2_TOKEN_CONTENT_DISPOSITION :: int where "NGHTTP2_TOKEN_CONTENT_DISPOSITION \<equiv> 24"
abbreviation (input) NGHTTP2_TOKEN_CONTENT_ENCODING :: int where "NGHTTP2_TOKEN_CONTENT_ENCODING \<equiv> 25"
abbreviation (input) NGHTTP2_TOKEN_CONTENT_LANGUAGE :: int where "NGHTTP2_TOKEN_CONTENT_LANGUAGE \<equiv> 26"
abbreviation (input) NGHTTP2_TOKEN_CONTENT_LENGTH :: int where "NGHTTP2_TOKEN_CONTENT_LENGTH \<equiv> 27"
abbreviation (input) NGHTTP2_TOKEN_CONTENT_LOCATION :: int where "NGHTTP2_TOKEN_CONTENT_LOCATION \<equiv> 28"
abbreviation (input) NGHTTP2_TOKEN_CONTENT_RANGE :: int where "NGHTTP2_TOKEN_CONTENT_RANGE \<equiv> 29"
abbreviation (input) NGHTTP2_TOKEN_CONTENT_TYPE :: int where "NGHTTP2_TOKEN_CONTENT_TYPE \<equiv> 30"
abbreviation (input) NGHTTP2_TOKEN_COOKIE :: int where "NGHTTP2_TOKEN_COOKIE \<equiv> 31"
abbreviation (input) NGHTTP2_TOKEN_DATE :: int where "NGHTTP2_TOKEN_DATE \<equiv> 32"
abbreviation (input) NGHTTP2_TOKEN_ETAG :: int where "NGHTTP2_TOKEN_ETAG \<equiv> 33"
abbreviation (input) NGHTTP2_TOKEN_EXPECT :: int where "NGHTTP2_TOKEN_EXPECT \<equiv> 34"
abbreviation (input) NGHTTP2_TOKEN_EXPIRES :: int where "NGHTTP2_TOKEN_EXPIRES \<equiv> 35"
abbreviation (input) NGHTTP2_TOKEN_FROM :: int where "NGHTTP2_TOKEN_FROM \<equiv> 36"
abbreviation (input) NGHTTP2_TOKEN_HOST :: int where "NGHTTP2_TOKEN_HOST \<equiv> 37"
abbreviation (input) NGHTTP2_TOKEN_IF_MATCH :: int where "NGHTTP2_TOKEN_IF_MATCH \<equiv> 38"
abbreviation (input) NGHTTP2_TOKEN_IF_MODIFIED_SINCE :: int where "NGHTTP2_TOKEN_IF_MODIFIED_SINCE \<equiv> 39"
abbreviation (input) NGHTTP2_TOKEN_IF_NONE_MATCH :: int where "NGHTTP2_TOKEN_IF_NONE_MATCH \<equiv> 40"
abbreviation (input) NGHTTP2_TOKEN_IF_RANGE :: int where "NGHTTP2_TOKEN_IF_RANGE \<equiv> 41"
abbreviation (input) NGHTTP2_TOKEN_IF_UNMODIFIED_SINCE :: int where "NGHTTP2_TOKEN_IF_UNMODIFIED_SINCE \<equiv> 42"
abbreviation (input) NGHTTP2_TOKEN_LAST_MODIFIED :: int where "NGHTTP2_TOKEN_LAST_MODIFIED \<equiv> 43"
abbreviation (input) NGHTTP2_TOKEN_LINK :: int where "NGHTTP2_TOKEN_LINK \<equiv> 44"
abbreviation (input) NGHTTP2_TOKEN_LOCATION :: int where "NGHTTP2_TOKEN_LOCATION \<equiv> 45"
abbreviation (input) NGHTTP2_TOKEN_MAX_FORWARDS :: int where "NGHTTP2_TOKEN_MAX_FORWARDS \<equiv> 46"
abbreviation (input) NGHTTP2_TOKEN_PROXY_AUTHENTICATE :: int where "NGHTTP2_TOKEN_PROXY_AUTHENTICATE \<equiv> 47"
abbreviation (input) NGHTTP2_TOKEN_PROXY_AUTHORIZATION :: int where "NGHTTP2_TOKEN_PROXY_AUTHORIZATION \<equiv> 48"
abbreviation (input) NGHTTP2_TOKEN_RANGE :: int where "NGHTTP2_TOKEN_RANGE \<equiv> 49"
abbreviation (input) NGHTTP2_TOKEN_REFERER :: int where "NGHTTP2_TOKEN_REFERER \<equiv> 50"
abbreviation (input) NGHTTP2_TOKEN_REFRESH :: int where "NGHTTP2_TOKEN_REFRESH \<equiv> 51"
abbreviation (input) NGHTTP2_TOKEN_RETRY_AFTER :: int where "NGHTTP2_TOKEN_RETRY_AFTER \<equiv> 52"
abbreviation (input) NGHTTP2_TOKEN_SERVER :: int where "NGHTTP2_TOKEN_SERVER \<equiv> 53"
abbreviation (input) NGHTTP2_TOKEN_SET_COOKIE :: int where "NGHTTP2_TOKEN_SET_COOKIE \<equiv> 54"
abbreviation (input) NGHTTP2_TOKEN_STRICT_TRANSPORT_SECURITY :: int where "NGHTTP2_TOKEN_STRICT_TRANSPORT_SECURITY \<equiv> 55"
abbreviation (input) NGHTTP2_TOKEN_TRANSFER_ENCODING :: int where "NGHTTP2_TOKEN_TRANSFER_ENCODING \<equiv> 56"
abbreviation (input) NGHTTP2_TOKEN_USER_AGENT :: int where "NGHTTP2_TOKEN_USER_AGENT \<equiv> 57"
abbreviation (input) NGHTTP2_TOKEN_VARY :: int where "NGHTTP2_TOKEN_VARY \<equiv> 58"
abbreviation (input) NGHTTP2_TOKEN_VIA :: int where "NGHTTP2_TOKEN_VIA \<equiv> 59"
abbreviation (input) NGHTTP2_TOKEN_WWW_AUTHENTICATE :: int where "NGHTTP2_TOKEN_WWW_AUTHENTICATE \<equiv> 60"
abbreviation (input) NGHTTP2_TOKEN_TE :: int where "NGHTTP2_TOKEN_TE \<equiv> 61"
abbreviation (input) NGHTTP2_TOKEN_CONNECTION :: int where "NGHTTP2_TOKEN_CONNECTION \<equiv> 62"
abbreviation (input) NGHTTP2_TOKEN_KEEP_ALIVE :: int where "NGHTTP2_TOKEN_KEEP_ALIVE \<equiv> 63"
abbreviation (input) NGHTTP2_TOKEN_PROXY_CONNECTION :: int where "NGHTTP2_TOKEN_PROXY_CONNECTION \<equiv> 64"
abbreviation (input) NGHTTP2_TOKEN_UPGRADE :: int where "NGHTTP2_TOKEN_UPGRADE \<equiv> 65"
abbreviation (input) NGHTTP2_TOKEN__PROTOCOL :: int where "NGHTTP2_TOKEN__PROTOCOL \<equiv> 66"

section \<open>The static table\<close>

definition ascii :: "string \<Rightarrow> u8 list" where
  "ascii s = map of_char s"

record nghttp2_hd_static_entry =
  se_name :: "u8 list"
  se_value :: "u8 list"
  se_token :: int
  se_hash :: u32

definition MAKE_STATIC_ENT :: "string \<Rightarrow> string \<Rightarrow> int \<Rightarrow> u32 \<Rightarrow> nghttp2_hd_static_entry" where
  "MAKE_STATIC_ENT N V T H = \<lparr>se_name = ascii N, se_value = ascii V, se_token = T, se_hash = H\<rparr>"

definition static_table :: "nghttp2_hd_static_entry list" where
  "static_table =
    [
     MAKE_STATIC_ENT '':authority'' '''' 0 3153725150,
     MAKE_STATIC_ENT '':method'' ''GET'' 1 695666056,
     MAKE_STATIC_ENT '':method'' ''POST'' 1 695666056,
     MAKE_STATIC_ENT '':path'' ''/'' 3 3292848686,
     MAKE_STATIC_ENT '':path'' ''/index.html'' 3 3292848686,
     MAKE_STATIC_ENT '':scheme'' ''http'' 5 2510477674,
     MAKE_STATIC_ENT '':scheme'' ''https'' 5 2510477674,
     MAKE_STATIC_ENT '':status'' ''200'' 7 4000288983,
     MAKE_STATIC_ENT '':status'' ''204'' 7 4000288983,
     MAKE_STATIC_ENT '':status'' ''206'' 7 4000288983,
     MAKE_STATIC_ENT '':status'' ''304'' 7 4000288983,
     MAKE_STATIC_ENT '':status'' ''400'' 7 4000288983,
     MAKE_STATIC_ENT '':status'' ''404'' 7 4000288983,
     MAKE_STATIC_ENT '':status'' ''500'' 7 4000288983,
     MAKE_STATIC_ENT ''accept-charset'' '''' 14 3664010344,
     MAKE_STATIC_ENT ''accept-encoding'' ''gzip, deflate'' 15 3379649177,
     MAKE_STATIC_ENT ''accept-language'' '''' 16 1979086614,
     MAKE_STATIC_ENT ''accept-ranges'' '''' 17 1713753958,
     MAKE_STATIC_ENT ''accept'' '''' 18 136609321,
     MAKE_STATIC_ENT ''access-control-allow-origin'' '''' 19 2710797292,
     MAKE_STATIC_ENT ''age'' '''' 20 742476188,
     MAKE_STATIC_ENT ''allow'' '''' 21 2930878514,
     MAKE_STATIC_ENT ''authorization'' '''' 22 2436257726,
     MAKE_STATIC_ENT ''cache-control'' '''' 23 1355326669,
     MAKE_STATIC_ENT ''content-disposition'' '''' 24 3889184348,
     MAKE_STATIC_ENT ''content-encoding'' '''' 25 65203592,
     MAKE_STATIC_ENT ''content-language'' '''' 26 24973587,
     MAKE_STATIC_ENT ''content-length'' '''' 27 1308181789,
     MAKE_STATIC_ENT ''content-location'' '''' 28 2302364718,
     MAKE_STATIC_ENT ''content-range'' '''' 29 3555523146,
     MAKE_STATIC_ENT ''content-type'' '''' 30 4244048277,
     MAKE_STATIC_ENT ''cookie'' '''' 31 2007449791,
     MAKE_STATIC_ENT ''date'' '''' 32 3564297305,
     MAKE_STATIC_ENT ''etag'' '''' 33 113792960,
     MAKE_STATIC_ENT ''expect'' '''' 34 2530896728,
     MAKE_STATIC_ENT ''expires'' '''' 35 1049544579,
     MAKE_STATIC_ENT ''from'' '''' 36 2513272949,
     MAKE_STATIC_ENT ''host'' '''' 37 2952701295,
     MAKE_STATIC_ENT ''if-match'' '''' 38 3597694698,
     MAKE_STATIC_ENT ''if-modified-since'' '''' 39 2213050793,
     MAKE_STATIC_ENT ''if-none-match'' '''' 40 2536202615,
     MAKE_STATIC_ENT ''if-range'' '''' 41 2340978238,
     MAKE_STATIC_ENT ''if-unmodified-since'' '''' 42 3794814858,
     MAKE_STATIC_ENT ''last-modified'' '''' 43 3226950251,
     MAKE_STATIC_ENT ''link'' '''' 44 232457833,
     MAKE_STATIC_ENT ''location'' '''' 45 200649126,
     MAKE_STATIC_ENT ''max-forwards'' '''' 46 1826162134,
     MAKE_STATIC_ENT ''proxy-authenticate'' '''' 47 2709445359,
     MAKE_STATIC_ENT ''proxy-authorization'' '''' 48 2686392507,
     MAKE_STATIC_ENT ''range'' '''' 49 4208725202,
     MAKE_STATIC_ENT ''referer'' '''' 50 3969579366,
     MAKE_STATIC_ENT ''refresh'' '''' 51 3572655668,
     MAKE_STATIC_ENT ''retry-after'' '''' 52 3336180598,
     MAKE_STATIC_ENT ''server'' '''' 53 1085029842,
     MAKE_STATIC_ENT ''set-cookie'' '''' 54 1848371000,
     MAKE_STATIC_ENT ''strict-transport-security'' '''' 55 4138147361,
     MAKE_STATIC_ENT ''transfer-encoding'' '''' 56 3719590988,
     MAKE_STATIC_ENT ''user-agent'' '''' 57 606444526,
     MAKE_STATIC_ENT ''vary'' '''' 58 1085005381,
     MAKE_STATIC_ENT ''via'' '''' 59 1762798611,
     MAKE_STATIC_ENT ''www-authenticate'' '''' 60 779865858]"

definition NGHTTP2_STATIC_TABLE_LENGTH :: nat where
  "NGHTTP2_STATIC_TABLE_LENGTH = 61"

section \<open>Token lookup\<close>

text \<open>
  \<^verbatim>\<open>lookup_token\<close> switches on the length of the name; the function of each length switches on the last
  character and compares the other ones.  A switch without a match leaves the value -1.
\<close>

definition memeq :: "string \<Rightarrow> u8 list \<Rightarrow> nat \<Rightarrow> bool" where
  "memeq s name n \<longleftrightarrow> take n name = ascii s"

definition last_is :: "u8 list \<Rightarrow> nat \<Rightarrow> char \<Rightarrow> bool" where
  "last_is name i c \<longleftrightarrow> name ! i = of_char c"

definition lookup_token_2 :: "u8 list \<Rightarrow> int" where
  "lookup_token_2 name =
     (if last_is name 1 (CHR ''e'') then
        (if memeq ''t'' name 1 then NGHTTP2_TOKEN_TE else -1)
      else -1)"

definition lookup_token_3 :: "u8 list \<Rightarrow> int" where
  "lookup_token_3 name =
     (if last_is name 2 (CHR ''a'') then
        (if memeq ''vi'' name 2 then NGHTTP2_TOKEN_VIA else -1)
      else if last_is name 2 (CHR ''e'') then
        (if memeq ''ag'' name 2 then NGHTTP2_TOKEN_AGE else -1)
      else -1)"

definition lookup_token_4 :: "u8 list \<Rightarrow> int" where
  "lookup_token_4 name =
     (if last_is name 3 (CHR ''e'') then
        (if memeq ''dat'' name 3 then NGHTTP2_TOKEN_DATE else -1)
      else if last_is name 3 (CHR ''g'') then
        (if memeq ''eta'' name 3 then NGHTTP2_TOKEN_ETAG else -1)
      else if last_is name 3 (CHR ''k'') then
        (if memeq ''lin'' name 3 then NGHTTP2_TOKEN_LINK else -1)
      else if last_is name 3 (CHR ''m'') then
        (if memeq ''fro'' name 3 then NGHTTP2_TOKEN_FROM else -1)
      else if last_is name 3 (CHR ''t'') then
        (if memeq ''hos'' name 3 then NGHTTP2_TOKEN_HOST else -1)
      else if last_is name 3 (CHR ''y'') then
        (if memeq ''var'' name 3 then NGHTTP2_TOKEN_VARY else -1)
      else -1)"

definition lookup_token_5 :: "u8 list \<Rightarrow> int" where
  "lookup_token_5 name =
     (if last_is name 4 (CHR ''e'') then
        (if memeq ''rang'' name 4 then NGHTTP2_TOKEN_RANGE else -1)
      else if last_is name 4 (CHR ''h'') then
        (if memeq '':pat'' name 4 then NGHTTP2_TOKEN__PATH else -1)
      else if last_is name 4 (CHR ''w'') then
        (if memeq ''allo'' name 4 then NGHTTP2_TOKEN_ALLOW else -1)
      else -1)"

definition lookup_token_6 :: "u8 list \<Rightarrow> int" where
  "lookup_token_6 name =
     (if last_is name 5 (CHR ''e'') then
        (if memeq ''cooki'' name 5 then NGHTTP2_TOKEN_COOKIE else -1)
      else if last_is name 5 (CHR ''r'') then
        (if memeq ''serve'' name 5 then NGHTTP2_TOKEN_SERVER else -1)
      else if last_is name 5 (CHR ''t'') then
        (if memeq ''accep'' name 5 then NGHTTP2_TOKEN_ACCEPT
         else if memeq ''expec'' name 5 then NGHTTP2_TOKEN_EXPECT else -1)
      else -1)"

definition lookup_token_7 :: "u8 list \<Rightarrow> int" where
  "lookup_token_7 name =
     (if last_is name 6 (CHR ''d'') then
        (if memeq '':metho'' name 6 then NGHTTP2_TOKEN__METHOD else -1)
      else if last_is name 6 (CHR ''e'') then
        (if memeq '':schem'' name 6 then NGHTTP2_TOKEN__SCHEME
         else if memeq ''upgrad'' name 6 then NGHTTP2_TOKEN_UPGRADE else -1)
      else if last_is name 6 (CHR ''h'') then
        (if memeq ''refres'' name 6 then NGHTTP2_TOKEN_REFRESH else -1)
      else if last_is name 6 (CHR ''r'') then
        (if memeq ''refere'' name 6 then NGHTTP2_TOKEN_REFERER else -1)
      else if last_is name 6 (CHR ''s'') then
        (if memeq '':statu'' name 6 then NGHTTP2_TOKEN__STATUS
         else if memeq ''expire'' name 6 then NGHTTP2_TOKEN_EXPIRES else -1)
      else -1)"

definition lookup_token_8 :: "u8 list \<Rightarrow> int" where
  "lookup_token_8 name =
     (if last_is name 7 (CHR ''e'') then
        (if memeq ''if-rang'' name 7 then NGHTTP2_TOKEN_IF_RANGE else -1)
      else if last_is name 7 (CHR ''h'') then
        (if memeq ''if-matc'' name 7 then NGHTTP2_TOKEN_IF_MATCH else -1)
      else if last_is name 7 (CHR ''n'') then
        (if memeq ''locatio'' name 7 then NGHTTP2_TOKEN_LOCATION else -1)
      else -1)"

definition lookup_token_9 :: "u8 list \<Rightarrow> int" where
  "lookup_token_9 name =
     (if last_is name 8 (CHR ''l'') then
        (if memeq '':protoco'' name 8 then NGHTTP2_TOKEN__PROTOCOL else -1)
      else -1)"

definition lookup_token_10 :: "u8 list \<Rightarrow> int" where
  "lookup_token_10 name =
     (if last_is name 9 (CHR ''e'') then
        (if memeq ''keep-aliv'' name 9 then NGHTTP2_TOKEN_KEEP_ALIVE
         else if memeq ''set-cooki'' name 9 then NGHTTP2_TOKEN_SET_COOKIE else -1)
      else if last_is name 9 (CHR ''n'') then
        (if memeq ''connectio'' name 9 then NGHTTP2_TOKEN_CONNECTION else -1)
      else if last_is name 9 (CHR ''t'') then
        (if memeq ''user-agen'' name 9 then NGHTTP2_TOKEN_USER_AGENT else -1)
      else if last_is name 9 (CHR ''y'') then
        (if memeq '':authorit'' name 9 then NGHTTP2_TOKEN__AUTHORITY else -1)
      else -1)"

definition lookup_token_11 :: "u8 list \<Rightarrow> int" where
  "lookup_token_11 name =
     (if last_is name 10 (CHR ''r'') then
        (if memeq ''retry-afte'' name 10 then NGHTTP2_TOKEN_RETRY_AFTER else -1)
      else -1)"

definition lookup_token_12 :: "u8 list \<Rightarrow> int" where
  "lookup_token_12 name =
     (if last_is name 11 (CHR ''e'') then
        (if memeq ''content-typ'' name 11 then NGHTTP2_TOKEN_CONTENT_TYPE else -1)
      else if last_is name 11 (CHR ''s'') then
        (if memeq ''max-forward'' name 11 then NGHTTP2_TOKEN_MAX_FORWARDS else -1)
      else -1)"

definition lookup_token_13 :: "u8 list \<Rightarrow> int" where
  "lookup_token_13 name =
     (if last_is name 12 (CHR ''d'') then
        (if memeq ''last-modifie'' name 12 then NGHTTP2_TOKEN_LAST_MODIFIED else -1)
      else if last_is name 12 (CHR ''e'') then
        (if memeq ''content-rang'' name 12 then NGHTTP2_TOKEN_CONTENT_RANGE else -1)
      else if last_is name 12 (CHR ''h'') then
        (if memeq ''if-none-matc'' name 12 then NGHTTP2_TOKEN_IF_NONE_MATCH else -1)
      else if last_is name 12 (CHR ''l'') then
        (if memeq ''cache-contro'' name 12 then NGHTTP2_TOKEN_CACHE_CONTROL else -1)
      else if last_is name 12 (CHR ''n'') then
        (if memeq ''authorizatio'' name 12 then NGHTTP2_TOKEN_AUTHORIZATION else -1)
      else if last_is name 12 (CHR ''s'') then
        (if memeq ''accept-range'' name 12 then NGHTTP2_TOKEN_ACCEPT_RANGES else -1)
      else -1)"

definition lookup_token_14 :: "u8 list \<Rightarrow> int" where
  "lookup_token_14 name =
     (if last_is name 13 (CHR ''h'') then
        (if memeq ''content-lengt'' name 13 then NGHTTP2_TOKEN_CONTENT_LENGTH else -1)
      else if last_is name 13 (CHR ''t'') then
        (if memeq ''accept-charse'' name 13 then NGHTTP2_TOKEN_ACCEPT_CHARSET else -1)
      else -1)"

definition lookup_token_15 :: "u8 list \<Rightarrow> int" where
  "lookup_token_15 name =
     (if last_is name 14 (CHR ''e'') then
        (if memeq ''accept-languag'' name 14 then NGHTTP2_TOKEN_ACCEPT_LANGUAGE else -1)
      else if last_is name 14 (CHR ''g'') then
        (if memeq ''accept-encodin'' name 14 then NGHTTP2_TOKEN_ACCEPT_ENCODING else -1)
      else -1)"

definition lookup_token_16 :: "u8 list \<Rightarrow> int" where
  "lookup_token_16 name =
     (if last_is name 15 (CHR ''e'') then
        (if memeq ''content-languag'' name 15 then NGHTTP2_TOKEN_CONTENT_LANGUAGE
         else if memeq ''www-authenticat'' name 15 then NGHTTP2_TOKEN_WWW_AUTHENTICATE else -1)
      else if last_is name 15 (CHR ''g'') then
        (if memeq ''content-encodin'' name 15 then NGHTTP2_TOKEN_CONTENT_ENCODING else -1)
      else if last_is name 15 (CHR ''n'') then
        (if memeq ''content-locatio'' name 15 then NGHTTP2_TOKEN_CONTENT_LOCATION
         else if memeq ''proxy-connectio'' name 15 then NGHTTP2_TOKEN_PROXY_CONNECTION else -1)
      else -1)"

definition lookup_token_17 :: "u8 list \<Rightarrow> int" where
  "lookup_token_17 name =
     (if last_is name 16 (CHR ''e'') then
        (if memeq ''if-modified-sinc'' name 16 then NGHTTP2_TOKEN_IF_MODIFIED_SINCE else -1)
      else if last_is name 16 (CHR ''g'') then
        (if memeq ''transfer-encodin'' name 16 then NGHTTP2_TOKEN_TRANSFER_ENCODING else -1)
      else -1)"

definition lookup_token_18 :: "u8 list \<Rightarrow> int" where
  "lookup_token_18 name =
     (if last_is name 17 (CHR ''e'') then
        (if memeq ''proxy-authenticat'' name 17 then NGHTTP2_TOKEN_PROXY_AUTHENTICATE else -1)
      else -1)"

definition lookup_token_19 :: "u8 list \<Rightarrow> int" where
  "lookup_token_19 name =
     (if last_is name 18 (CHR ''e'') then
        (if memeq ''if-unmodified-sinc'' name 18 then NGHTTP2_TOKEN_IF_UNMODIFIED_SINCE else -1)
      else if last_is name 18 (CHR ''n'') then
        (if memeq ''content-dispositio'' name 18 then NGHTTP2_TOKEN_CONTENT_DISPOSITION
         else if memeq ''proxy-authorizatio'' name 18 then NGHTTP2_TOKEN_PROXY_AUTHORIZATION else -1)
      else -1)"

definition lookup_token_25 :: "u8 list \<Rightarrow> int" where
  "lookup_token_25 name =
     (if last_is name 24 (CHR ''y'') then
        (if memeq ''strict-transport-securit'' name 24 then NGHTTP2_TOKEN_STRICT_TRANSPORT_SECURITY else -1)
      else -1)"

definition lookup_token_27 :: "u8 list \<Rightarrow> int" where
  "lookup_token_27 name =
     (if last_is name 26 (CHR ''n'') then
        (if memeq ''access-control-allow-origi'' name 26 then NGHTTP2_TOKEN_ACCESS_CONTROL_ALLOW_ORIGIN else -1)
      else -1)"

definition lookup_token :: "u8 list \<Rightarrow> int" where
  "lookup_token name =
     (let namelen = length name in
      if namelen = 2 then lookup_token_2 name
      else if namelen = 3 then lookup_token_3 name
      else if namelen = 4 then lookup_token_4 name
      else if namelen = 5 then lookup_token_5 name
      else if namelen = 6 then lookup_token_6 name
      else if namelen = 7 then lookup_token_7 name
      else if namelen = 8 then lookup_token_8 name
      else if namelen = 9 then lookup_token_9 name
      else if namelen = 10 then lookup_token_10 name
      else if namelen = 11 then lookup_token_11 name
      else if namelen = 12 then lookup_token_12 name
      else if namelen = 13 then lookup_token_13 name
      else if namelen = 14 then lookup_token_14 name
      else if namelen = 15 then lookup_token_15 name
      else if namelen = 16 then lookup_token_16 name
      else if namelen = 17 then lookup_token_17 name
      else if namelen = 18 then lookup_token_18 name
      else if namelen = 19 then lookup_token_19 name
      else if namelen = 25 then lookup_token_25 name
      else if namelen = 27 then lookup_token_27 name
      else -1)"

section \<open>Hash of a name\<close>

text \<open>32 bit FNV-1a.\<close>

fun name_hash_loop :: "u32 \<Rightarrow> u8 list \<Rightarrow> u32" where
  "name_hash_loop h [] = h"
| "name_hash_loop h (c # cs) =
     (let h = h XOR ucast c;
          h = h + (push_bit 1 h + push_bit 4 h + push_bit 7 h + push_bit 8 h + push_bit 24 h) in
      name_hash_loop h cs)"

definition name_hash :: "u8 list \<Rightarrow> u32" where
  "name_hash name = name_hash_loop 2166136261 name"

section \<open>The lookup is exact\<close>

text \<open>The names with a token: each name of the static table with its first index, and six more.\<close>

definition token_names :: "(u8 list \<times> int) list" where
  "token_names =
     map (\<lambda>e. (se_name e, se_token e)) static_table @
     map (\<lambda>(s, t). (ascii s, t))
       [(''te'', NGHTTP2_TOKEN_TE), (''connection'', NGHTTP2_TOKEN_CONNECTION),
        (''keep-alive'', NGHTTP2_TOKEN_KEEP_ALIVE), (''proxy-connection'', NGHTTP2_TOKEN_PROXY_CONNECTION),
        (''upgrade'', NGHTTP2_TOKEN_UPGRADE), ('':protocol'', NGHTTP2_TOKEN__PROTOCOL)]"

lemmas lookup_token_defs = lookup_token_2_def lookup_token_3_def lookup_token_4_def lookup_token_5_def lookup_token_6_def lookup_token_7_def lookup_token_8_def lookup_token_9_def lookup_token_10_def lookup_token_11_def lookup_token_12_def lookup_token_13_def lookup_token_14_def lookup_token_15_def lookup_token_16_def lookup_token_17_def lookup_token_18_def lookup_token_19_def lookup_token_25_def lookup_token_27_def

lemma of_char_u8_inj: "(of_char c :: u8) = of_char d \<longleftrightarrow> c = d"
proof -
  have "unat (of_char c :: u8) = of_char c" for c
    using unat_of_nat_u8 [of "of_char c"] by (simp add: of_nat_of_char)
  then show ?thesis by (metis of_char_eq_iff)
qed

lemma ascii_inj [simp]: "ascii s = ascii t \<longleftrightarrow> s = t"
  by (simp add: ascii_def inj_map_eq_map inj_def of_char_u8_inj)

lemma length_ascii [simp]: "length (ascii s) = length s"
  by (simp add: ascii_def)

lemma lookup_on_ascii:
  "i < length s \<Longrightarrow> last_is (ascii s) i c \<longleftrightarrow> s ! i = c"
  "memeq t (ascii s) n \<longleftrightarrow> take n s = t"
  by (simp_all add: last_is_def memeq_def ascii_def of_char_u8_inj take_map inj_map_eq_map inj_def)

lemma lookup_leaf: "length name = Suc n \<Longrightarrow> last_is name n c \<Longrightarrow> memeq s name n \<Longrightarrow> name = ascii (s @ [c])"
  by (metis append_take_drop_id ascii_def last_is_def length_drop lessI memeq_def map_append list.map Cons_nth_drop_Suc drop_all order_refl)

definition token_strings :: "(string \<times> int) list" where
  "token_strings =
    [
     ('':authority'', 0),
     ('':method'', 1),
     ('':method'', 1),
     ('':path'', 3),
     ('':path'', 3),
     ('':scheme'', 5),
     ('':scheme'', 5),
     ('':status'', 7),
     ('':status'', 7),
     ('':status'', 7),
     ('':status'', 7),
     ('':status'', 7),
     ('':status'', 7),
     ('':status'', 7),
     (''accept-charset'', 14),
     (''accept-encoding'', 15),
     (''accept-language'', 16),
     (''accept-ranges'', 17),
     (''accept'', 18),
     (''access-control-allow-origin'', 19),
     (''age'', 20),
     (''allow'', 21),
     (''authorization'', 22),
     (''cache-control'', 23),
     (''content-disposition'', 24),
     (''content-encoding'', 25),
     (''content-language'', 26),
     (''content-length'', 27),
     (''content-location'', 28),
     (''content-range'', 29),
     (''content-type'', 30),
     (''cookie'', 31),
     (''date'', 32),
     (''etag'', 33),
     (''expect'', 34),
     (''expires'', 35),
     (''from'', 36),
     (''host'', 37),
     (''if-match'', 38),
     (''if-modified-since'', 39),
     (''if-none-match'', 40),
     (''if-range'', 41),
     (''if-unmodified-since'', 42),
     (''last-modified'', 43),
     (''link'', 44),
     (''location'', 45),
     (''max-forwards'', 46),
     (''proxy-authenticate'', 47),
     (''proxy-authorization'', 48),
     (''range'', 49),
     (''referer'', 50),
     (''refresh'', 51),
     (''retry-after'', 52),
     (''server'', 53),
     (''set-cookie'', 54),
     (''strict-transport-security'', 55),
     (''transfer-encoding'', 56),
     (''user-agent'', 57),
     (''vary'', 58),
     (''via'', 59),
     (''www-authenticate'', 60),
     (''te'', 61),
     (''connection'', 62),
     (''keep-alive'', 63),
     (''proxy-connection'', 64),
     (''upgrade'', 65),
     ('':protocol'', 66)]"

lemma token_names_strings: "token_names = map (\<lambda>(s, t). (ascii s, t)) token_strings"
  by (simp add: token_names_def static_table_def MAKE_STATIC_ENT_def token_strings_def)

lemma lookup_known: "(name, t) \<in> set token_names \<Longrightarrow> lookup_token name = t"
  by (auto simp: token_names_strings token_strings_def lookup_token_def lookup_token_defs lookup_on_ascii)

lemma token_strings_members:
  "('':authority'', 0) \<in> set token_strings"
  "('':method'', 1) \<in> set token_strings"
  "('':path'', 3) \<in> set token_strings"
  "('':protocol'', 66) \<in> set token_strings"
  "('':scheme'', 5) \<in> set token_strings"
  "('':status'', 7) \<in> set token_strings"
  "(''accept'', 18) \<in> set token_strings"
  "(''accept-charset'', 14) \<in> set token_strings"
  "(''accept-encoding'', 15) \<in> set token_strings"
  "(''accept-language'', 16) \<in> set token_strings"
  "(''accept-ranges'', 17) \<in> set token_strings"
  "(''access-control-allow-origin'', 19) \<in> set token_strings"
  "(''age'', 20) \<in> set token_strings"
  "(''allow'', 21) \<in> set token_strings"
  "(''authorization'', 22) \<in> set token_strings"
  "(''cache-control'', 23) \<in> set token_strings"
  "(''connection'', 62) \<in> set token_strings"
  "(''content-disposition'', 24) \<in> set token_strings"
  "(''content-encoding'', 25) \<in> set token_strings"
  "(''content-language'', 26) \<in> set token_strings"
  "(''content-length'', 27) \<in> set token_strings"
  "(''content-location'', 28) \<in> set token_strings"
  "(''content-range'', 29) \<in> set token_strings"
  "(''content-type'', 30) \<in> set token_strings"
  "(''cookie'', 31) \<in> set token_strings"
  "(''date'', 32) \<in> set token_strings"
  "(''etag'', 33) \<in> set token_strings"
  "(''expect'', 34) \<in> set token_strings"
  "(''expires'', 35) \<in> set token_strings"
  "(''from'', 36) \<in> set token_strings"
  "(''host'', 37) \<in> set token_strings"
  "(''if-match'', 38) \<in> set token_strings"
  "(''if-modified-since'', 39) \<in> set token_strings"
  "(''if-none-match'', 40) \<in> set token_strings"
  "(''if-range'', 41) \<in> set token_strings"
  "(''if-unmodified-since'', 42) \<in> set token_strings"
  "(''keep-alive'', 63) \<in> set token_strings"
  "(''last-modified'', 43) \<in> set token_strings"
  "(''link'', 44) \<in> set token_strings"
  "(''location'', 45) \<in> set token_strings"
  "(''max-forwards'', 46) \<in> set token_strings"
  "(''proxy-authenticate'', 47) \<in> set token_strings"
  "(''proxy-authorization'', 48) \<in> set token_strings"
  "(''proxy-connection'', 64) \<in> set token_strings"
  "(''range'', 49) \<in> set token_strings"
  "(''referer'', 50) \<in> set token_strings"
  "(''refresh'', 51) \<in> set token_strings"
  "(''retry-after'', 52) \<in> set token_strings"
  "(''server'', 53) \<in> set token_strings"
  "(''set-cookie'', 54) \<in> set token_strings"
  "(''strict-transport-security'', 55) \<in> set token_strings"
  "(''te'', 61) \<in> set token_strings"
  "(''transfer-encoding'', 56) \<in> set token_strings"
  "(''upgrade'', 65) \<in> set token_strings"
  "(''user-agent'', 57) \<in> set token_strings"
  "(''vary'', 58) \<in> set token_strings"
  "(''via'', 59) \<in> set token_strings"
  "(''www-authenticate'', 60) \<in> set token_strings"
  by (simp_all add: token_strings_def)

lemma lookup_found:
  assumes "memeq s name n" "last_is name n c" "length name = k" "k = Suc n" "(s @ [c], t) \<in> set token_strings"
  shows "(name, t) \<in> set token_names"
  using lookup_leaf [of name n c s] assms by (force simp: token_names_strings)

lemma lookup_2: "length name = 2 \<Longrightarrow> lookup_token_2 name \<noteq> -1 \<Longrightarrow> (name, lookup_token_2 name) \<in> set token_names"
  unfolding lookup_token_2_def by (auto split: if_splits elim!: lookup_found simp: token_strings_members)

lemma lookup_3: "length name = 3 \<Longrightarrow> lookup_token_3 name \<noteq> -1 \<Longrightarrow> (name, lookup_token_3 name) \<in> set token_names"
  unfolding lookup_token_3_def by (auto split: if_splits elim!: lookup_found simp: token_strings_members)

lemma lookup_4: "length name = 4 \<Longrightarrow> lookup_token_4 name \<noteq> -1 \<Longrightarrow> (name, lookup_token_4 name) \<in> set token_names"
  unfolding lookup_token_4_def by (auto split: if_splits elim!: lookup_found simp: token_strings_members)

lemma lookup_5: "length name = 5 \<Longrightarrow> lookup_token_5 name \<noteq> -1 \<Longrightarrow> (name, lookup_token_5 name) \<in> set token_names"
  unfolding lookup_token_5_def by (auto split: if_splits elim!: lookup_found simp: token_strings_members)

lemma lookup_6: "length name = 6 \<Longrightarrow> lookup_token_6 name \<noteq> -1 \<Longrightarrow> (name, lookup_token_6 name) \<in> set token_names"
  unfolding lookup_token_6_def by (auto split: if_splits elim!: lookup_found simp: token_strings_members)

lemma lookup_7: "length name = 7 \<Longrightarrow> lookup_token_7 name \<noteq> -1 \<Longrightarrow> (name, lookup_token_7 name) \<in> set token_names"
  unfolding lookup_token_7_def by (auto split: if_splits elim!: lookup_found simp: token_strings_members)

lemma lookup_8: "length name = 8 \<Longrightarrow> lookup_token_8 name \<noteq> -1 \<Longrightarrow> (name, lookup_token_8 name) \<in> set token_names"
  unfolding lookup_token_8_def by (auto split: if_splits elim!: lookup_found simp: token_strings_members)

lemma lookup_9: "length name = 9 \<Longrightarrow> lookup_token_9 name \<noteq> -1 \<Longrightarrow> (name, lookup_token_9 name) \<in> set token_names"
  unfolding lookup_token_9_def by (auto split: if_splits elim!: lookup_found simp: token_strings_members)

lemma lookup_10: "length name = 10 \<Longrightarrow> lookup_token_10 name \<noteq> -1 \<Longrightarrow> (name, lookup_token_10 name) \<in> set token_names"
  unfolding lookup_token_10_def by (auto split: if_splits elim!: lookup_found simp: token_strings_members)

lemma lookup_11: "length name = 11 \<Longrightarrow> lookup_token_11 name \<noteq> -1 \<Longrightarrow> (name, lookup_token_11 name) \<in> set token_names"
  unfolding lookup_token_11_def by (auto split: if_splits elim!: lookup_found simp: token_strings_members)

lemma lookup_12: "length name = 12 \<Longrightarrow> lookup_token_12 name \<noteq> -1 \<Longrightarrow> (name, lookup_token_12 name) \<in> set token_names"
  unfolding lookup_token_12_def by (auto split: if_splits elim!: lookup_found simp: token_strings_members)

lemma lookup_13: "length name = 13 \<Longrightarrow> lookup_token_13 name \<noteq> -1 \<Longrightarrow> (name, lookup_token_13 name) \<in> set token_names"
  unfolding lookup_token_13_def by (auto split: if_splits elim!: lookup_found simp: token_strings_members)

lemma lookup_14: "length name = 14 \<Longrightarrow> lookup_token_14 name \<noteq> -1 \<Longrightarrow> (name, lookup_token_14 name) \<in> set token_names"
  unfolding lookup_token_14_def by (auto split: if_splits elim!: lookup_found simp: token_strings_members)

lemma lookup_15: "length name = 15 \<Longrightarrow> lookup_token_15 name \<noteq> -1 \<Longrightarrow> (name, lookup_token_15 name) \<in> set token_names"
  unfolding lookup_token_15_def by (auto split: if_splits elim!: lookup_found simp: token_strings_members)

lemma lookup_16: "length name = 16 \<Longrightarrow> lookup_token_16 name \<noteq> -1 \<Longrightarrow> (name, lookup_token_16 name) \<in> set token_names"
  unfolding lookup_token_16_def by (auto split: if_splits elim!: lookup_found simp: token_strings_members)

lemma lookup_17: "length name = 17 \<Longrightarrow> lookup_token_17 name \<noteq> -1 \<Longrightarrow> (name, lookup_token_17 name) \<in> set token_names"
  unfolding lookup_token_17_def by (auto split: if_splits elim!: lookup_found simp: token_strings_members)

lemma lookup_18: "length name = 18 \<Longrightarrow> lookup_token_18 name \<noteq> -1 \<Longrightarrow> (name, lookup_token_18 name) \<in> set token_names"
  unfolding lookup_token_18_def by (auto split: if_splits elim!: lookup_found simp: token_strings_members)

lemma lookup_19: "length name = 19 \<Longrightarrow> lookup_token_19 name \<noteq> -1 \<Longrightarrow> (name, lookup_token_19 name) \<in> set token_names"
  unfolding lookup_token_19_def by (auto split: if_splits elim!: lookup_found simp: token_strings_members)

lemma lookup_25: "length name = 25 \<Longrightarrow> lookup_token_25 name \<noteq> -1 \<Longrightarrow> (name, lookup_token_25 name) \<in> set token_names"
  unfolding lookup_token_25_def by (auto split: if_splits elim!: lookup_found simp: token_strings_members)

lemma lookup_27: "length name = 27 \<Longrightarrow> lookup_token_27 name \<noteq> -1 \<Longrightarrow> (name, lookup_token_27 name) \<in> set token_names"
  unfolding lookup_token_27_def by (auto split: if_splits elim!: lookup_found simp: token_strings_members)

lemma lookup_token_names:
  "lookup_token name = (case map_of token_names name of None \<Rightarrow> -1 | Some t \<Rightarrow> t)"
proof (cases "map_of token_names name")
  case None
  then have none: "(name, t) \<notin> set token_names" for t by (auto simp: map_of_eq_None_iff image_iff)
  have l2: "lookup_token_2 name = -1" if "length name = 2" by (rule ccontr) (use that none lookup_2 in blast)
  have l3: "lookup_token_3 name = -1" if "length name = 3" by (rule ccontr) (use that none lookup_3 in blast)
  have l4: "lookup_token_4 name = -1" if "length name = 4" by (rule ccontr) (use that none lookup_4 in blast)
  have l5: "lookup_token_5 name = -1" if "length name = 5" by (rule ccontr) (use that none lookup_5 in blast)
  have l6: "lookup_token_6 name = -1" if "length name = 6" by (rule ccontr) (use that none lookup_6 in blast)
  have l7: "lookup_token_7 name = -1" if "length name = 7" by (rule ccontr) (use that none lookup_7 in blast)
  have l8: "lookup_token_8 name = -1" if "length name = 8" by (rule ccontr) (use that none lookup_8 in blast)
  have l9: "lookup_token_9 name = -1" if "length name = 9" by (rule ccontr) (use that none lookup_9 in blast)
  have l10: "lookup_token_10 name = -1" if "length name = 10" by (rule ccontr) (use that none lookup_10 in blast)
  have l11: "lookup_token_11 name = -1" if "length name = 11" by (rule ccontr) (use that none lookup_11 in blast)
  have l12: "lookup_token_12 name = -1" if "length name = 12" by (rule ccontr) (use that none lookup_12 in blast)
  have l13: "lookup_token_13 name = -1" if "length name = 13" by (rule ccontr) (use that none lookup_13 in blast)
  have l14: "lookup_token_14 name = -1" if "length name = 14" by (rule ccontr) (use that none lookup_14 in blast)
  have l15: "lookup_token_15 name = -1" if "length name = 15" by (rule ccontr) (use that none lookup_15 in blast)
  have l16: "lookup_token_16 name = -1" if "length name = 16" by (rule ccontr) (use that none lookup_16 in blast)
  have l17: "lookup_token_17 name = -1" if "length name = 17" by (rule ccontr) (use that none lookup_17 in blast)
  have l18: "lookup_token_18 name = -1" if "length name = 18" by (rule ccontr) (use that none lookup_18 in blast)
  have l19: "lookup_token_19 name = -1" if "length name = 19" by (rule ccontr) (use that none lookup_19 in blast)
  have l25: "lookup_token_25 name = -1" if "length name = 25" by (rule ccontr) (use that none lookup_25 in blast)
  have l27: "lookup_token_27 name = -1" if "length name = 27" by (rule ccontr) (use that none lookup_27 in blast)
  have "lookup_token name = -1" by (simp add: lookup_token_def Let_def l2 l3 l4 l5 l6 l7 l8 l9 l10 l11 l12 l13 l14 l15 l16 l17 l18 l19 l25 l27)
  then show ?thesis using None by simp
next
  case (Some t)
  then show ?thesis using lookup_known [OF map_of_SomeD [OF Some]] by simp
qed

lemma static_tokens: "list_all (\<lambda>e. se_token e = lookup_token (se_name e)) static_table"
  by (simp add: list_all_iff) (metis (no_types, lifting) lookup_known Un_iff image_eqI set_append set_map token_names_def)

lemma static_token_range: "list_all (\<lambda>e. 0 \<le> se_token e \<and> se_token e \<le> NGHTTP2_TOKEN_WWW_AUTHENTICATE) static_table"
  by (simp add: static_table_def MAKE_STATIC_ENT_def)

lemma length_static_table [simp]: "length static_table = NGHTTP2_STATIC_TABLE_LENGTH"
  by (simp add: static_table_def NGHTTP2_STATIC_TABLE_LENGTH_def)

lemma token_strings_distinct: "distinct (map snd (remdups token_strings))"
  by code_simp

lemma lookup_token_member: "lookup_token x \<noteq> -1 \<Longrightarrow> (x, lookup_token x) \<in> set token_names"
  unfolding lookup_token_names by (auto split: option.splits dest: map_of_SomeD)

lemma lookup_token_inj:
  assumes "lookup_token a = lookup_token b" "lookup_token a \<noteq> -1"
  shows "a = b"
proof -
  obtain s t where "a = ascii s" "b = ascii t" "(s, lookup_token a) \<in> set token_strings" "(t, lookup_token a) \<in> set token_strings"
    using lookup_token_member [of a] lookup_token_member [of b] assms unfolding token_names_strings by auto
  moreover have "inj_on snd (set token_strings)" using token_strings_distinct by (simp add: distinct_map)
  ultimately show ?thesis by (metis inj_onD prod.inject snd_conv)
qed

text \<open>Entries with the same name are consecutive, and their token is the index of the first one.\<close>

definition static_token_list :: "int list" where
  "static_token_list = [0, 1, 1, 3, 3, 5, 5, 7, 7, 7, 7, 7, 7, 7, 14, 15, 16, 17, 18, 19, 20, 21, 22, 23, 24, 25, 26, 27, 28, 29, 30, 31, 32, 33, 34, 35, 36, 37, 38, 39, 40, 41, 42, 43, 44, 45, 46, 47, 48, 49, 50, 51, 52, 53, 54, 55, 56, 57, 58, 59, 60]"

lemma static_token_list: "map se_token static_table = static_token_list"
  by (simp add: static_table_def MAKE_STATIC_ENT_def static_token_list_def)

lemma static_token_runs:
  "list_all (\<lambda>i. nat (static_token_list ! i) \<le> i \<and>
     list_all (\<lambda>k. static_token_list ! k = static_token_list ! i) [nat (static_token_list ! i)..<i]) [0..<61]"
  by code_simp

lemma static_run:
  assumes "i < length static_table"
  shows "nat (se_token (static_table ! i)) \<le> i"
    "nat (se_token (static_table ! i)) \<le> k \<Longrightarrow> k \<le> i \<Longrightarrow> se_token (static_table ! k) = se_token (static_table ! i)"
proof -
  have l: "se_token (static_table ! j) = static_token_list ! j" if "j < length static_table" for j
    using that by (simp flip: static_token_list)
  have i: "i < 61" using assms by (simp add: NGHTTP2_STATIC_TABLE_LENGTH_def)
  then have "i \<in> set [0..<61]" by simp
  then have r: "nat (static_token_list ! i) \<le> i" "\<forall>k \<in> set [nat (static_token_list ! i)..<i]. static_token_list ! k = static_token_list ! i"
    using bspec [OF static_token_runs [unfolded list_all_iff], of i] by blast+
  show "nat (se_token (static_table ! i)) \<le> i" unfolding l [OF assms] by (rule r(1))
  assume k: "nat (se_token (static_table ! i)) \<le> k" "k \<le> i"
  have kl: "k < length static_table" by (rule le_less_trans [OF k(2) assms])
  show "se_token (static_table ! k) = se_token (static_table ! i)"
  proof (cases "k = i")
    case False
    then have "k \<in> set [nat (static_token_list ! i)..<i]" using k unfolding l [OF assms] by simp
    then show ?thesis using r(2) unfolding l [OF assms] l [OF kl] by blast
  qed (rule arg_cong)
qed

text \<open>
  C23: the generated token lookup is exact.  It returns the token of every name of the static table and of the six
  further names that have one, and -1 for every other string.
\<close>

theorem lookup_token_exact:
  "lookup_token name = (case map_of token_names name of None \<Rightarrow> -1 | Some t \<Rightarrow> t)"
  by (rule lookup_token_names)

end
