(* ===== verification/Rcbuf.thy ===== *)
theory Rcbuf
  imports Hpack_Token "HOL-Library.Monad_Syntax"
begin

unbundle bit_operations_syntax

text \<open>
  \<^verbatim>\<open>lib/nghttp2_rcbuf.c\<close>: reference counted byte buffers, on an explicit store.

  A pointer is the name or the value buffer inside an entry of the static table, whose count is -1,
  or the address of an allocated buffer.  Reading through a pointer to a freed buffer, and the
  assertion that a count is positive, are \<open>None\<close>.  The ownership invariant \<open>rc_ok\<close> says that the
  allocated buffers are exactly those of a multiset of references, with its multiplicities as counts:
  it excludes use after free, double free and leaks at once.
\<close>

section \<open>Store\<close>

record nghttp2_rcbuf =
  rc_base :: "u8 list"
  rc_len :: nat
  rc_ref :: int

datatype rcptr = Rc_static_name nat | Rc_static_value nat | Rc_heap nat

record rc_heap =
  rc_mem :: nghttp2_mem
  rc_bufs :: "nat \<rightharpoonup> nghttp2_rcbuf"
  rc_next :: nat

definition rc_static :: "u8 list \<Rightarrow> nghttp2_rcbuf" where
  "rc_static s = \<lparr>rc_base = s @ [0], rc_len = length s, rc_ref = -1\<rparr>"

fun rc_get :: "rc_heap \<Rightarrow> rcptr \<Rightarrow> nghttp2_rcbuf option" where
  "rc_get h (Rc_static_name i) = (if i < length static_table then Some (rc_static (se_name (static_table ! i))) else None)"
| "rc_get h (Rc_static_value i) = (if i < length static_table then Some (rc_static (se_value (static_table ! i))) else None)"
| "rc_get h (Rc_heap a) = rc_bufs h a"

text \<open>A store through a pointer; the buffers of the static table are never written.\<close>

fun rc_put :: "rc_heap \<Rightarrow> rcptr \<Rightarrow> nghttp2_rcbuf \<Rightarrow> rc_heap" where
  "rc_put h (Rc_heap a) rc = h\<lparr>rc_bufs := (rc_bufs h)(a \<mapsto> rc)\<rparr>"
| "rc_put h _ rc = h"

section \<open>Operations\<close>

definition nghttp2_rcbuf_new :: "rc_heap \<Rightarrow> nat \<Rightarrow> (nghttp2_error + rcptr) \<times> rc_heap" where
  "nghttp2_rcbuf_new h sz =
     (let (ok, mem1) = mem_call (rc_mem h) in
      if \<not> ok then (Inl ERR_NOMEM, h\<lparr>rc_mem := mem1\<rparr>)
      else (Inr (Rc_heap (rc_next h)),
            h\<lparr>rc_mem := mem1,
              rc_bufs := (rc_bufs h)(rc_next h \<mapsto> \<lparr>rc_base = mem_fresh (rc_mem h) sz, rc_len = sz, rc_ref = 1\<rparr>),
              rc_next := rc_next h + 1\<rparr>))"

definition nghttp2_rcbuf_new2 :: "rc_heap \<Rightarrow> u8 list \<Rightarrow> (nghttp2_error + rcptr) \<times> rc_heap" where
  "nghttp2_rcbuf_new2 h src =
     (case nghttp2_rcbuf_new h (length src + 1) of
        (Inl e, h1) \<Rightarrow> (Inl e, h1)
      | (Inr p, h1) \<Rightarrow>
          (case rc_get h1 p of
             None \<Rightarrow> (Inr p, h1)
           | Some rc \<Rightarrow> (Inr p, rc_put h1 p (rc\<lparr>rc_len := length src, rc_base := src @ [0]\<rparr>))))"

definition nghttp2_rcbuf_del :: "rc_heap \<Rightarrow> rcptr \<Rightarrow> rc_heap" where
  "nghttp2_rcbuf_del h p = (case p of Rc_heap a \<Rightarrow> h\<lparr>rc_bufs := (rc_bufs h)(a := None)\<rparr> | _ \<Rightarrow> h)"

definition nghttp2_rcbuf_incref :: "rc_heap \<Rightarrow> rcptr \<Rightarrow> rc_heap option" where
  "nghttp2_rcbuf_incref h p = do {
     rc \<leftarrow> rc_get h p;
     if rc_ref rc = -1 then Some h else Some (rc_put h p (rc\<lparr>rc_ref := rc_ref rc + 1\<rparr>)) }"

text \<open>A null pointer is the argument \<open>None\<close>.\<close>

definition nghttp2_rcbuf_decref :: "rc_heap \<Rightarrow> rcptr option \<Rightarrow> rc_heap option" where
  "nghttp2_rcbuf_decref h ptr =
     (case ptr of
        None \<Rightarrow> Some h
      | Some p \<Rightarrow> do {
          rc \<leftarrow> rc_get h p;
          if rc_ref rc = -1 then Some h
          else if \<not> 0 < rc_ref rc then None
          else
            let rc = rc\<lparr>rc_ref := rc_ref rc - 1\<rparr>; h1 = rc_put h p rc in
            if rc_ref rc = 0 then Some (nghttp2_rcbuf_del h1 p) else Some h1 })"

definition nghttp2_rcbuf_get_buf :: "rc_heap \<Rightarrow> rcptr \<Rightarrow> u8 list option" where
  "nghttp2_rcbuf_get_buf h p = map_option (\<lambda>rc. take (rc_len rc) (rc_base rc)) (rc_get h p)"

definition nghttp2_rcbuf_is_static :: "rc_heap \<Rightarrow> rcptr \<Rightarrow> bool option" where
  "nghttp2_rcbuf_is_static h p = map_option (\<lambda>rc. rc_ref rc = -1) (rc_get h p)"

section \<open>Ownership\<close>

definition rc_cell :: "rc_heap \<Rightarrow> rcptr multiset \<Rightarrow> nat \<Rightarrow> bool" where
  "rc_cell h M a \<longleftrightarrow> (rc_bufs h a = None \<longleftrightarrow> count M (Rc_heap a) = 0) \<and>
     (\<forall>rc. rc_bufs h a = Some rc \<longrightarrow>
        rc_ref rc = int (count M (Rc_heap a)) \<and> rc_len rc \<le> length (rc_base rc) \<and> a < rc_next h)"

definition rc_ok :: "rc_heap \<Rightarrow> rcptr multiset \<Rightarrow> bool" where
  "rc_ok h M \<longleftrightarrow> (\<forall>a. rc_cell h M a) \<and>
     (\<forall>i. Rc_static_name i \<in># M \<or> Rc_static_value i \<in># M \<longrightarrow> i < length static_table)"

definition rc_bytes :: "rc_heap \<Rightarrow> rcptr \<Rightarrow> u8 list" where
  "rc_bytes h p = (case rc_get h p of None \<Rightarrow> [] | Some rc \<Rightarrow> take (rc_len rc) (rc_base rc))"

text \<open>The contents behind a set of references are unchanged.\<close>

definition rc_same :: "rcptr multiset \<Rightarrow> rc_heap \<Rightarrow> rc_heap \<Rightarrow> bool" where
  "rc_same M h h' \<longleftrightarrow> (\<forall>p \<in># M. rc_bytes h' p = rc_bytes h p)"

lemma rc_same_refl [simp]: "rc_same M h h"
  by (simp add: rc_same_def)

lemma rc_same_trans: "rc_same M h h1 \<Longrightarrow> rc_same M h1 h2 \<Longrightarrow> rc_same M h h2"
  by (simp add: rc_same_def)

lemma rc_same_mono: "rc_same M h h' \<Longrightarrow> N \<subseteq># M \<Longrightarrow> rc_same N h h'"
  by (auto simp: rc_same_def dest: mset_subset_eqD)

text \<open>A pointer that may be read: a static one, or one of the owned references.\<close>

definition rc_live :: "rcptr multiset \<Rightarrow> rcptr \<Rightarrow> bool" where
  "rc_live M p \<longleftrightarrow> (case p of Rc_heap a \<Rightarrow> p \<in># M | Rc_static_name i \<Rightarrow> i < length static_table
     | Rc_static_value i \<Rightarrow> i < length static_table)"

lemma rc_ok_live: "rc_ok h M \<Longrightarrow> p \<in># M \<Longrightarrow> rc_live M p"
  by (auto simp: rc_ok_def rc_live_def split: rcptr.splits)

lemma rc_ok_get:
  assumes "rc_ok h M" "rc_live M p"
  obtains rc where "rc_get h p = Some rc" "rc_len rc \<le> length (rc_base rc)" "rc_bytes h p = take (rc_len rc) (rc_base rc)"
    "length (rc_bytes h p) = rc_len rc" "case p of Rc_heap a \<Rightarrow> rc_ref rc = int (count M p) \<and> 0 < count M p | _ \<Rightarrow> rc_ref rc = -1"
proof (cases p)
  case (Rc_heap a)
  then have "0 < count M p" "rc_cell h M a" using assms by (auto simp: rc_live_def rc_ok_def)
  then obtain rc where "rc_bufs h a = Some rc" "rc_ref rc = int (count M p)" "rc_len rc \<le> length (rc_base rc)"
    using Rc_heap by (auto simp: rc_cell_def count_eq_zero_iff)
  then show ?thesis using that \<open>0 < count M p\<close> Rc_heap by (simp add: rc_bytes_def)
qed (use assms(2) that in \<open>auto simp: rc_live_def rc_bytes_def rc_static_def\<close>)

lemma rc_static_bytes:
  "i < length static_table \<Longrightarrow> rc_bytes h (Rc_static_name i) = se_name (static_table ! i)"
  "i < length static_table \<Longrightarrow> rc_bytes h (Rc_static_value i) = se_value (static_table ! i)"
  by (simp_all add: rc_bytes_def rc_static_def)

lemma incref_ok:
  assumes "rc_ok h M" "rc_live M p"
  obtains h' where "nghttp2_rcbuf_incref h p = Some h'" "rc_ok h' (add_mset p M)"
    "\<And>q. rc_bytes h' q = rc_bytes h q" "rc_mem h' = rc_mem h"
proof (rule rc_ok_get [OF assms])
  fix rc
  assume rc: "rc_get h p = Some rc" "rc_len rc \<le> length (rc_base rc)"
    "case p of Rc_heap a \<Rightarrow> rc_ref rc = int (count M p) \<and> 0 < count M p | _ \<Rightarrow> rc_ref rc = -1"
  let ?h = "if rc_ref rc = -1 then h else rc_put h p (rc\<lparr>rc_ref := rc_ref rc + 1\<rparr>)"
  have b: "rc_bytes ?h q = rc_bytes h q" for q using rc by (cases p; cases q) (auto simp: rc_bytes_def)
  have "rc_cell ?h (add_mset p M) a" for a
    using assms(1) rc by (cases p) (auto simp: rc_ok_def rc_cell_def)
  then have "rc_ok ?h (add_mset p M)"
    using assms by (auto simp: rc_ok_def rc_live_def split: rcptr.splits)
  moreover have "rc_mem ?h = rc_mem h" by (cases p) simp_all
  moreover have "nghttp2_rcbuf_incref h p = Some ?h" using rc(1) by (simp add: nghttp2_rcbuf_incref_def)
  ultimately show thesis using that b by blast
qed

lemma decref_ok:
  assumes "rc_ok h M" "p \<in># M"
  obtains h' where "nghttp2_rcbuf_decref h (Some p) = Some h'" "rc_ok h' (M - {#p#})" "rc_same (M - {#p#}) h h'"
    "rc_mem h' = rc_mem h"
proof (rule rc_ok_get [OF assms(1) rc_ok_live [OF assms]])
  fix rc
  assume rc: "rc_get h p = Some rc" "rc_len rc \<le> length (rc_base rc)"
    "case p of Rc_heap a \<Rightarrow> rc_ref rc = int (count M p) \<and> 0 < count M p | _ \<Rightarrow> rc_ref rc = -1"
  let ?h1 = "rc_put h p (rc\<lparr>rc_ref := rc_ref rc - 1\<rparr>)"
  let ?h = "if rc_ref rc = -1 then h else if rc_ref rc = 1 then nghttp2_rcbuf_del ?h1 p else ?h1"
  have d: "nghttp2_rcbuf_decref h (Some p) = Some ?h"
    using rc by (cases p) (auto simp: nghttp2_rcbuf_decref_def Let_def)
  have b: "rc_bytes ?h q = rc_bytes h q" if "q \<in># M - {#p#}" for q
  proof (cases "q = p")
    case True
    then have "count M p \<noteq> 1" using that by (auto simp: in_diff_count)
    then show ?thesis using rc True by (cases p) (auto simp: rc_bytes_def)
  next
    case False
    then show ?thesis using rc by (cases p; cases q) (auto simp: rc_bytes_def nghttp2_rcbuf_del_def)
  qed
  have "rc_cell ?h (M - {#p#}) a" for a
    using assms(1) rc by (cases p) (auto simp: rc_ok_def rc_cell_def nghttp2_rcbuf_del_def not_le order_le_less simp flip: count_greater_zero_iff)
  then have "rc_ok ?h (M - {#p#})" using assms(1) by (auto simp: rc_ok_def dest: in_diffD)
  moreover have "rc_mem ?h = rc_mem h" by (cases p) (simp_all add: nghttp2_rcbuf_del_def)
  ultimately show thesis using that d b by (auto simp: rc_same_def)
qed

lemma rcbuf_new_ok:
  assumes "rc_ok h M"
  obtains h' where "nghttp2_rcbuf_new h sz = (Inl ERR_NOMEM, h')" "rc_ok h' M" "\<And>q. rc_bytes h' q = rc_bytes h q"
      "mem_mono (rc_mem h) (rc_mem h')" "\<not> mem_reliable (rc_mem h)"
    | h' p where "nghttp2_rcbuf_new h sz = (Inr p, h')" "rc_ok h' (add_mset p M)" "rc_same M h h'" "p \<notin># M"
      "rc_get h' p = Some \<lparr>rc_base = mem_fresh (rc_mem h) sz, rc_len = sz, rc_ref = 1\<rparr>"
      "mem_mono (rc_mem h) (rc_mem h')"
proof (cases "fst (mem_call (rc_mem h))")
  case False
  let ?h = "h\<lparr>rc_mem := snd (mem_call (rc_mem h))\<rparr>"
  have "rc_ok ?h M" using assms by (simp add: rc_ok_def rc_cell_def)
  moreover have "rc_bytes ?h q = rc_bytes h q" for q by (cases q) (simp_all add: rc_bytes_def)
  ultimately show ?thesis
    using that(1) [of ?h] False mem_call_reliable [of "rc_mem h"]
    by (auto simp: nghttp2_rcbuf_new_def case_prod_beta)
next
  case True
  let ?rc = "\<lparr>rc_base = mem_fresh (rc_mem h) sz, rc_len = sz, rc_ref = 1\<rparr>"
  let ?h = "h\<lparr>rc_mem := snd (mem_call (rc_mem h)), rc_bufs := (rc_bufs h)(rc_next h \<mapsto> ?rc), rc_next := rc_next h + 1\<rparr>"
  let ?p = "Rc_heap (rc_next h)"
  have c: "rc_cell h M a" for a using assms by (simp add: rc_ok_def)
  have z: "count M ?p = 0" using c [of "rc_next h"] by (cases "rc_bufs h (rc_next h)") (auto simp: rc_cell_def)
  have "rc_cell ?h (add_mset ?p M) a" for a using c [of a] z by (auto simp: rc_cell_def)
  then have "rc_ok ?h (add_mset ?p M)" using assms by (auto simp: rc_ok_def)
  moreover have "rc_bytes ?h q = rc_bytes h q" if "q \<in># M" for q
    using that z by (cases q) (auto simp: rc_bytes_def count_eq_zero_iff)
  ultimately show ?thesis
    using that(2) [of ?p ?h] True z by (auto simp: nghttp2_rcbuf_new_def rc_same_def count_eq_zero_iff case_prod_beta)
qed

text \<open>Writing through a reference keeps ownership as long as the length stays within the buffer.\<close>

lemma rc_put_ok:
  assumes "rc_ok h M" "rc_get h (Rc_heap a) = Some rc" "rc_ref rc' = rc_ref rc" "rc_len rc' \<le> length (rc_base rc')"
  shows "rc_ok (rc_put h (Rc_heap a) rc') M" "q \<noteq> Rc_heap a \<Longrightarrow> rc_bytes (rc_put h (Rc_heap a) rc') q = rc_bytes h q"
proof -
  have c: "rc_cell h M b" for b using assms(1) by (simp add: rc_ok_def)
  have "rc_cell (rc_put h (Rc_heap a) rc') M b" for b using c [of b] assms(2-4) by (auto simp: rc_cell_def)
  then show "rc_ok (rc_put h (Rc_heap a) rc') M" using assms(1) by (auto simp: rc_ok_def)
  show "q \<noteq> Rc_heap a \<Longrightarrow> rc_bytes (rc_put h (Rc_heap a) rc') q = rc_bytes h q" by (cases q) (auto simp: rc_bytes_def)
qed

lemma rcbuf_new2_ok:
  assumes "rc_ok h M"
  obtains h' where "nghttp2_rcbuf_new2 h src = (Inl ERR_NOMEM, h')" "rc_ok h' M" "\<And>q. rc_bytes h' q = rc_bytes h q"
      "mem_mono (rc_mem h) (rc_mem h')" "\<not> mem_reliable (rc_mem h)"
    | h' p where "nghttp2_rcbuf_new2 h src = (Inr p, h')" "rc_ok h' (add_mset p M)" "rc_same M h h'" "p \<notin># M"
      "rc_bytes h' p = src" "mem_mono (rc_mem h) (rc_mem h')"
proof (rule rcbuf_new_ok [OF assms, of "length src + 1"])
  fix h'
  assume "nghttp2_rcbuf_new h (length src + 1) = (Inl ERR_NOMEM, h')" "rc_ok h' M" "\<And>q. rc_bytes h' q = rc_bytes h q"
    "mem_mono (rc_mem h) (rc_mem h')" "\<not> mem_reliable (rc_mem h)"
  then show thesis using that(1) [of h'] by (simp add: nghttp2_rcbuf_new2_def)
next
  fix h1 p
  assume n: "nghttp2_rcbuf_new h (length src + 1) = (Inr p, h1)" "rc_ok h1 (add_mset p M)" "rc_same M h h1" "p \<notin># M"
    "rc_get h1 p = Some \<lparr>rc_base = mem_fresh (rc_mem h) (length src + 1), rc_len = length src + 1, rc_ref = 1\<rparr>"
    "mem_mono (rc_mem h) (rc_mem h1)"
  then obtain a where p: "p = Rc_heap a" by (auto simp: nghttp2_rcbuf_new_def split: prod.splits if_splits)
  let ?rc = "\<lparr>rc_base = src @ [0], rc_len = length src, rc_ref = 1\<rparr>"
  have w: "rc_ok (rc_put h1 p ?rc) (add_mset p M)" "q \<noteq> p \<Longrightarrow> rc_bytes (rc_put h1 p ?rc) q = rc_bytes h1 q" for q
    using rc_put_ok [OF n(2), of a _ ?rc] n(5) unfolding p by auto
  have "rc_same M h (rc_put h1 p ?rc)" using w(2) n(3,4) unfolding rc_same_def by metis
  then show thesis
    using that(2) [of p "rc_put h1 p ?rc"] n w(1) p by (simp add: nghttp2_rcbuf_new2_def rc_bytes_def)
qed

end
