(* ===== verification/Hpack_Table.thy ===== *)
theory Hpack_Table
  imports Rcbuf
begin

unbundle bit_operations_syntax

text \<open>
  \<^verbatim>\<open>lib/nghttp2_hd.c\<close>, the dynamic table of HPACK: entries, the ring buffer of entry pointers, the
  bucketed hash map over the same entries, eviction, insertion and search.

  Entries live in a store from addresses to entries, so that the sharing between the ring buffer, the
  bucket chains (linked by \<^verbatim>\<open>next\<close>) and the reference counted names is modelled as it is in the code.
  \<open>None\<close> as a result is a failed assertion, a read through a dangling pointer or a loop that does not
  end; the lemmas show that no operation on a consistent context has it.
\<close>

section \<open>Data\<close>

record nghttp2_nv =
  nv_name :: "u8 list"
  nv_value :: "u8 list"
  nv_flags :: u8

definition NGHTTP2_NV_FLAG_NONE :: u8 where "NGHTTP2_NV_FLAG_NONE = 0"
definition NGHTTP2_NV_FLAG_NO_INDEX :: u8 where "NGHTTP2_NV_FLAG_NO_INDEX = 1"

record nghttp2_hd_nv =
  hd_name :: rcptr
  hd_value :: rcptr
  hd_token :: int
  hd_flags :: u8

record nghttp2_hd_entry =
  ent_nv :: nghttp2_hd_nv
  ent_cnv :: nghttp2_nv
  ent_next :: "nat option"
  ent_seq :: u32
  ent_hash :: u32

text \<open>A slot of the ring buffer that was never written is \<open>None\<close>.\<close>

record nghttp2_hd_ringbuf =
  rb_buffer :: "nat option list"
  rb_mask :: u64
  rb_first :: u64
  rb_len :: nat

definition NGHTTP2_HD_DEFAULT_MAX_BUFFER_SIZE :: nat where "NGHTTP2_HD_DEFAULT_MAX_BUFFER_SIZE = 4096"
definition NGHTTP2_HD_ENTRY_OVERHEAD :: nat where "NGHTTP2_HD_ENTRY_OVERHEAD = 32"
definition HD_MAP_SIZE :: nat where "HD_MAP_SIZE = 128"
definition SIZE_UINT32_MAX :: nat where "SIZE_UINT32_MAX = 4294967295"

text \<open>The store of entries and the allocator belong to the context that owns them.\<close>

record nghttp2_hd_context =
  hd_table :: nghttp2_hd_ringbuf
  ctx_heap :: rc_heap
  ctx_entries :: "nat \<rightharpoonup> nghttp2_hd_entry"
  ctx_entry_new :: nat
  hd_table_bufsize :: nat
  hd_table_bufsize_max :: nat
  next_seq :: u32
  ctx_bad :: bool

type_synonym nghttp2_hd_map = "nat option list"

section \<open>Entries\<close>

definition nghttp2_hd_entry_init :: "rc_heap \<Rightarrow> nghttp2_hd_nv \<Rightarrow> (nghttp2_hd_entry \<times> rc_heap) option" where
  "nghttp2_hd_entry_init h nv = do {
     n \<leftarrow> nghttp2_rcbuf_get_buf h (hd_name nv);
     v \<leftarrow> nghttp2_rcbuf_get_buf h (hd_value nv);
     h1 \<leftarrow> nghttp2_rcbuf_incref h (hd_name nv);
     h2 \<leftarrow> nghttp2_rcbuf_incref h1 (hd_value nv);
     Some (\<lparr>ent_nv = nv, ent_cnv = \<lparr>nv_name = n, nv_value = v, nv_flags = hd_flags nv\<rparr>,
            ent_next = None, ent_seq = 0, ent_hash = 0\<rparr>, h2) }"

definition nghttp2_hd_entry_free :: "rc_heap \<Rightarrow> nghttp2_hd_entry \<Rightarrow> rc_heap option" where
  "nghttp2_hd_entry_free h ent = do {
     h1 \<leftarrow> nghttp2_rcbuf_decref h (Some (hd_value (ent_nv ent)));
     nghttp2_rcbuf_decref h1 (Some (hd_name (ent_nv ent))) }"

definition name_eq :: "rc_heap \<Rightarrow> nghttp2_hd_nv \<Rightarrow> nghttp2_nv \<Rightarrow> bool option" where
  "name_eq h a b = do {
     rc \<leftarrow> rc_get h (hd_name a);
     Some (rc_len rc = length (nv_name b) \<and> take (length (nv_name b)) (rc_base rc) = nv_name b) }"

definition value_eq :: "rc_heap \<Rightarrow> nghttp2_hd_nv \<Rightarrow> nghttp2_nv \<Rightarrow> bool option" where
  "value_eq h a b = do {
     rc \<leftarrow> rc_get h (hd_value a);
     Some (rc_len rc = length (nv_value b) \<and> take (length (nv_value b)) (rc_base rc) = nv_value b) }"

section \<open>The hash map\<close>

definition hd_map_init :: nghttp2_hd_map where
  "hd_map_init = replicate HD_MAP_SIZE None"

definition hd_bucket :: "u32 \<Rightarrow> nat" where
  "hd_bucket hash = unat (hash AND (of_nat HD_MAP_SIZE - 1))"

definition hd_map_insert ::
  "nghttp2_hd_map \<Rightarrow> (nat \<rightharpoonup> nghttp2_hd_entry) \<Rightarrow> nat \<Rightarrow> (nghttp2_hd_map \<times> (nat \<rightharpoonup> nghttp2_hd_entry)) option" where
  "hd_map_insert hmap es ent = do {
     e \<leftarrow> es ent;
     let bucket = hd_bucket (ent_hash e);
     if hmap ! bucket = None then Some (hmap[bucket := Some ent], es)
     else Some (hmap[bucket := Some ent], es(ent \<mapsto> e\<lparr>ent_next := hmap ! bucket\<rparr>)) }"

text \<open>The loop of \<^verbatim>\<open>hd_map_find\<close>; the result is the entry found and \<^verbatim>\<open>*exact_match\<close>.\<close>

partial_function (option) hd_map_find_loop ::
  "(nat \<rightharpoonup> nghttp2_hd_entry) \<Rightarrow> rc_heap \<Rightarrow> nat option \<Rightarrow> nat option \<Rightarrow> nghttp2_nv \<Rightarrow> int \<Rightarrow> u32 \<Rightarrow> bool \<Rightarrow>
   (nat option \<times> bool) option" where
  "hd_map_find_loop es h p res nv token hash name_only =
     (case p of
        None \<Rightarrow> Some (res, False)
      | Some a \<Rightarrow> do {
          ent \<leftarrow> es a;
          skip \<leftarrow> (if token \<noteq> hd_token (ent_nv ent) then Some True
                  else if token = -1 then
                    (if hash \<noteq> ent_hash ent then Some True else map_option Not (name_eq h (ent_nv ent) nv))
                  else Some False);
          if skip then hd_map_find_loop es h (ent_next ent) res nv token hash name_only
          else if res = None \<and> name_only then Some (Some a, False)
          else do {
            let res = (if res = None then Some a else res);
            eq \<leftarrow> value_eq h (ent_nv ent) nv;
            if eq then Some (Some a, True)
            else hd_map_find_loop es h (ent_next ent) res nv token hash name_only } })"

definition hd_map_find ::
  "nghttp2_hd_map \<Rightarrow> (nat \<rightharpoonup> nghttp2_hd_entry) \<Rightarrow> rc_heap \<Rightarrow> nghttp2_nv \<Rightarrow> int \<Rightarrow> u32 \<Rightarrow> bool \<Rightarrow>
   (nat option \<times> bool) option" where
  "hd_map_find hmap es h nv token hash name_only =
     hd_map_find_loop es h (hmap ! hd_bucket hash) None nv token hash name_only"

text \<open>\<^verbatim>\<open>nghttp2_hd_entry **dst\<close>: a bucket of the table or the \<^verbatim>\<open>next\<close> field of an entry.\<close>

datatype hd_slot = Slot_bucket nat | Slot_next nat

fun slot_get :: "nghttp2_hd_map \<Rightarrow> (nat \<rightharpoonup> nghttp2_hd_entry) \<Rightarrow> hd_slot \<Rightarrow> nat option option" where
  "slot_get hmap es (Slot_bucket i) = Some (hmap ! i)"
| "slot_get hmap es (Slot_next a) = map_option ent_next (es a)"

fun slot_set :: "nghttp2_hd_map \<Rightarrow> (nat \<rightharpoonup> nghttp2_hd_entry) \<Rightarrow> hd_slot \<Rightarrow> nat option \<Rightarrow>
    nghttp2_hd_map \<times> (nat \<rightharpoonup> nghttp2_hd_entry)" where
  "slot_set hmap es (Slot_bucket i) p = (hmap[i := p], es)"
| "slot_set hmap es (Slot_next a) p = (hmap, es(a := map_option (\<lambda>e. e\<lparr>ent_next := p\<rparr>) (es a)))"

partial_function (option) hd_map_remove_loop ::
  "nghttp2_hd_map \<Rightarrow> (nat \<rightharpoonup> nghttp2_hd_entry) \<Rightarrow> hd_slot \<Rightarrow> nat \<Rightarrow> (nghttp2_hd_map \<times> (nat \<rightharpoonup> nghttp2_hd_entry)) option"
  where
  "hd_map_remove_loop hmap es dst ent = do {
     p \<leftarrow> slot_get hmap es dst;
     case p of
       None \<Rightarrow> Some (hmap, es)
     | Some a \<Rightarrow>
         if a \<noteq> ent then hd_map_remove_loop hmap es (Slot_next a) ent
         else do {
           e \<leftarrow> es ent;
           let (hmap1, es1) = slot_set hmap es dst (ent_next e);
           Some (hmap1, es1(ent := map_option (\<lambda>e. e\<lparr>ent_next := None\<rparr>) (es1 ent))) } }"

definition hd_map_remove ::
  "nghttp2_hd_map \<Rightarrow> (nat \<rightharpoonup> nghttp2_hd_entry) \<Rightarrow> nat \<Rightarrow> (nghttp2_hd_map \<times> (nat \<rightharpoonup> nghttp2_hd_entry)) option" where
  "hd_map_remove hmap es ent = do {
     e \<leftarrow> es ent;
     hd_map_remove_loop hmap es (Slot_bucket (hd_bucket (ent_hash e))) ent }"

section \<open>The ring buffer\<close>

text \<open>\<^verbatim>\<open>for (size = 1; size < bufsize; size <<= 1)\<close> with \<^verbatim>\<open>size\<close> as \<^verbatim>\<open>1 << k\<close>.\<close>

function hd_ring_size :: "nat \<Rightarrow> nat \<Rightarrow> nat" where
  "hd_ring_size k bufsize = (if 2 ^ k < bufsize then hd_ring_size (k + 1) bufsize else 2 ^ k)"
  by auto
termination by (relation "measure (\<lambda>(k, n). n - 2 ^ k)") (auto simp: diff_less_mono2)

declare hd_ring_size.simps [simp del]

definition hd_ringbuf_init :: "nghttp2_mem \<Rightarrow> nat \<Rightarrow> (nghttp2_error + nghttp2_hd_ringbuf) \<times> nghttp2_mem" where
  "hd_ringbuf_init mem bufsize =
     (let sz = hd_ring_size 0 bufsize; (ok, mem1) = mem_call mem in
      if \<not> ok then (Inl ERR_NOMEM, mem1)
      else (Inr \<lparr>rb_buffer = replicate sz None, rb_mask = of_nat (sz - 1), rb_first = 0, rb_len = 0\<rparr>, mem1))"

definition hd_ringbuf_index :: "nghttp2_hd_ringbuf \<Rightarrow> nat \<Rightarrow> nat" where
  "hd_ringbuf_index rb idx = unat ((rb_first rb + of_nat idx) AND rb_mask rb)"

definition hd_ringbuf_get :: "nghttp2_hd_ringbuf \<Rightarrow> nat \<Rightarrow> nat option" where
  "hd_ringbuf_get rb idx =
     (if \<not> idx < rb_len rb then None
      else if hd_ringbuf_index rb idx < length (rb_buffer rb) then rb_buffer rb ! hd_ringbuf_index rb idx else None)"

definition hd_ringbuf_reserve ::
  "nghttp2_mem \<Rightarrow> nghttp2_hd_ringbuf \<Rightarrow> nat \<Rightarrow> (nghttp2_error + nghttp2_hd_ringbuf) \<times> nghttp2_mem" where
  "hd_ringbuf_reserve mem rb bufsize =
     (if unat (rb_mask rb) + 1 \<ge> bufsize then (Inr rb, mem)
      else
        let sz = hd_ring_size 0 bufsize; (ok, mem1) = mem_call mem in
        if \<not> ok then (Inl ERR_NOMEM, mem1)
        else
          (Inr (rb\<lparr>rb_buffer := map (hd_ringbuf_get rb) [0..<rb_len rb] @ replicate (sz - rb_len rb) None,
                  rb_mask := of_nat (sz - 1), rb_first := 0\<rparr>), mem1))"

definition hd_ringbuf_push_front ::
  "nghttp2_mem \<Rightarrow> nghttp2_hd_ringbuf \<Rightarrow> nat \<Rightarrow> (nghttp2_error + nghttp2_hd_ringbuf) \<times> nghttp2_mem" where
  "hd_ringbuf_push_front mem rb ent =
     (case hd_ringbuf_reserve mem rb (rb_len rb + 1) of
        (Inl e, mem1) \<Rightarrow> (Inl e, mem1)
      | (Inr rb, mem1) \<Rightarrow>
          let first = rb_first rb - 1 in
          (Inr (rb\<lparr>rb_first := first, rb_buffer := (rb_buffer rb)[unat (first AND rb_mask rb) := Some ent],
                  rb_len := rb_len rb + 1\<rparr>), mem1))"

definition hd_ringbuf_pop_back :: "nghttp2_hd_ringbuf \<Rightarrow> nghttp2_hd_ringbuf option" where
  "hd_ringbuf_pop_back rb = (if \<not> 0 < rb_len rb then None else Some (rb\<lparr>rb_len := rb_len rb - 1\<rparr>))"

section \<open>The context\<close>

definition hd_context_init :: "nghttp2_mem \<Rightarrow> (nghttp2_error + nghttp2_hd_context) \<times> nghttp2_mem" where
  "hd_context_init mem =
     (case hd_ringbuf_init mem (NGHTTP2_HD_DEFAULT_MAX_BUFFER_SIZE div NGHTTP2_HD_ENTRY_OVERHEAD) of
        (Inl e, mem1) \<Rightarrow> (Inl e, mem1)
      | (Inr rb, mem1) \<Rightarrow>
          (Inr \<lparr>hd_table = rb, ctx_heap = \<lparr>rc_mem = mem1, rc_bufs = Map.empty, rc_next = 0\<rparr>,
                ctx_entries = Map.empty, ctx_entry_new = 0, hd_table_bufsize = 0,
                hd_table_bufsize_max = NGHTTP2_HD_DEFAULT_MAX_BUFFER_SIZE, next_seq = 0, ctx_bad = False\<rparr>, mem1))"

definition entry_room :: "nat \<Rightarrow> nat \<Rightarrow> nat" where
  "entry_room namelen valuelen = NGHTTP2_HD_ENTRY_OVERHEAD + namelen + valuelen"

text \<open>Freeing an entry also gives its memory back.\<close>

definition ctx_entry_free :: "nghttp2_hd_context \<Rightarrow> nat \<Rightarrow> nghttp2_hd_context option" where
  "ctx_entry_free ctx ent = do {
     e \<leftarrow> ctx_entries ctx ent;
     h \<leftarrow> nghttp2_hd_entry_free (ctx_heap ctx) e;
     Some (ctx\<lparr>ctx_heap := h, ctx_entries := (ctx_entries ctx)(ent := None)\<rparr>) }"

fun hd_ringbuf_free_loop :: "nghttp2_hd_context \<Rightarrow> nat list \<Rightarrow> nghttp2_hd_context option" where
  "hd_ringbuf_free_loop ctx [] = Some ctx"
| "hd_ringbuf_free_loop ctx (i # is) = do {
     ent \<leftarrow> hd_ringbuf_get (hd_table ctx) i;
     ctx1 \<leftarrow> ctx_entry_free ctx ent;
     hd_ringbuf_free_loop ctx1 is }"

definition hd_context_free :: "nghttp2_hd_context \<Rightarrow> nghttp2_hd_context option" where
  "hd_context_free ctx = hd_ringbuf_free_loop ctx [0..<rb_len (hd_table ctx)]"

text \<open>
  The body of the two eviction loops, in \<^verbatim>\<open>add_hd_table_incremental\<close> and \<^verbatim>\<open>hd_context_shrink_table_size\<close>.
  An inflater has no hash map, the argument is then \<open>None\<close>.
\<close>

definition hd_table_evict ::
  "nghttp2_hd_context \<Rightarrow> nghttp2_hd_map option \<Rightarrow> (nghttp2_hd_context \<times> nghttp2_hd_map option) option" where
  "hd_table_evict ctx hmap = do {
     ent \<leftarrow> hd_ringbuf_get (hd_table ctx) (rb_len (hd_table ctx) - 1);
     e \<leftarrow> ctx_entries ctx ent;
     n \<leftarrow> rc_get (ctx_heap ctx) (hd_name (ent_nv e));
     v \<leftarrow> rc_get (ctx_heap ctx) (hd_value (ent_nv e));
     rb \<leftarrow> hd_ringbuf_pop_back (hd_table ctx);
     (hmap1, es) \<leftarrow> (case hmap of
        None \<Rightarrow> Some (None, ctx_entries ctx)
      | Some m \<Rightarrow> map_option (apfst Some) (hd_map_remove m (ctx_entries ctx) ent));
     ctx1 \<leftarrow> ctx_entry_free
       (ctx\<lparr>hd_table := rb, ctx_entries := es,
            hd_table_bufsize := hd_table_bufsize ctx - entry_room (rc_len n) (rc_len v)\<rparr>) ent;
     Some (ctx1, hmap1) }"

text \<open>\<^verbatim>\<open>while (context->hd_table_bufsize + room > context->hd_table_bufsize_max && context->hd_table.len > 0)\<close>\<close>

partial_function (option) hd_table_make_room ::
  "nghttp2_hd_context \<Rightarrow> nghttp2_hd_map option \<Rightarrow> nat \<Rightarrow> (nghttp2_hd_context \<times> nghttp2_hd_map option) option" where
  "hd_table_make_room ctx hmap room =
     (if hd_table_bufsize ctx + room > hd_table_bufsize_max ctx \<and> rb_len (hd_table ctx) > 0 then do {
        (ctx1, hmap1) \<leftarrow> hd_table_evict ctx hmap;
        hd_table_make_room ctx1 hmap1 room }
      else Some (ctx, hmap))"

text \<open>The end of \<^verbatim>\<open>add_hd_table_incremental\<close>, where the room for the new entry is there.\<close>

definition hd_table_insert ::
  "nghttp2_hd_context \<Rightarrow> nghttp2_hd_nv \<Rightarrow> nghttp2_hd_map option \<Rightarrow> u32 \<Rightarrow> nat \<Rightarrow>
   ((nghttp2_error + unit) \<times> nghttp2_hd_context \<times> nghttp2_hd_map option) option" where
  "hd_table_insert ctx nv hmap hash room =
     (let (ok, mem1) = mem_call (rc_mem (ctx_heap ctx)); heap = (ctx_heap ctx)\<lparr>rc_mem := mem1\<rparr> in
      if \<not> ok then Some (Inl ERR_NOMEM, ctx\<lparr>ctx_heap := heap\<rparr>, hmap)
      else do {
        (e, heap) \<leftarrow> nghttp2_hd_entry_init heap nv;
        let new_ent = ctx_entry_new ctx;
        let ctx = ctx\<lparr>ctx_heap := heap, ctx_entries := (ctx_entries ctx)(new_ent \<mapsto> e), ctx_entry_new := new_ent + 1\<rparr>;
        case hd_ringbuf_push_front mem1 (hd_table ctx) new_ent of
          (Inl err, mem2) \<Rightarrow>
            map_option (\<lambda>ctx. (Inl err, ctx, hmap))
              (ctx_entry_free (ctx\<lparr>ctx_heap := heap\<lparr>rc_mem := mem2\<rparr>\<rparr>) new_ent)
        | (Inr rb, mem2) \<Rightarrow> do {
            let es = (ctx_entries ctx)(new_ent \<mapsto> e\<lparr>ent_seq := next_seq ctx, ent_hash := hash\<rparr>);
            (hmap, es) \<leftarrow> (case hmap of
               None \<Rightarrow> Some (None, es)
             | Some m \<Rightarrow> map_option (apfst Some) (hd_map_insert m es new_ent));
            Some (Inr (),
              ctx\<lparr>ctx_heap := heap\<lparr>rc_mem := mem2\<rparr>, hd_table := rb, ctx_entries := es, next_seq := next_seq ctx + 1,
                  hd_table_bufsize := hd_table_bufsize ctx + room\<rparr>, hmap) } })"

definition add_hd_table_incremental ::
  "nghttp2_hd_context \<Rightarrow> nghttp2_hd_nv \<Rightarrow> nghttp2_hd_map option \<Rightarrow> u32 \<Rightarrow>
   ((nghttp2_error + unit) \<times> nghttp2_hd_context \<times> nghttp2_hd_map option) option" where
  "add_hd_table_incremental ctx nv hmap hash = do {
     n \<leftarrow> rc_get (ctx_heap ctx) (hd_name nv);
     v \<leftarrow> rc_get (ctx_heap ctx) (hd_value nv);
     let room = entry_room (rc_len n) (rc_len v);
     (ctx, hmap) \<leftarrow> hd_table_make_room ctx hmap room;
     if room > hd_table_bufsize_max ctx then Some (Inr (), ctx, hmap)
     else hd_table_insert ctx nv hmap hash room }"

definition hd_context_shrink_table_size ::
  "nghttp2_hd_context \<Rightarrow> nghttp2_hd_map option \<Rightarrow> (nghttp2_hd_context \<times> nghttp2_hd_map option) option" where
  "hd_context_shrink_table_size ctx hmap = hd_table_make_room ctx hmap 0"

section \<open>Lookup\<close>

datatype nghttp2_hd_indexing_mode = HD_WITH_INDEXING | HD_WITHOUT_INDEXING | HD_NEVER_INDEXING

record search_result =
  sr_index :: int
  sr_name_value_match :: bool

function search_static_loop :: "nghttp2_nv \<Rightarrow> int \<Rightarrow> nat \<Rightarrow> search_result" where
  "search_static_loop nv token i =
     (if int i \<le> NGHTTP2_TOKEN_WWW_AUTHENTICATE \<and> se_token (static_table ! i) = token then
        if length (se_value (static_table ! i)) = length (nv_value nv) \<and>
           take (length (nv_value nv)) (se_value (static_table ! i)) = nv_value nv
        then \<lparr>sr_index = int i, sr_name_value_match = True\<rparr>
        else search_static_loop nv token (i + 1)
      else \<lparr>sr_index = token, sr_name_value_match = False\<rparr>)"
  by auto
termination by (relation "measure (\<lambda>(nv, token, i). 61 - i)") auto

declare search_static_loop.simps [simp del]

definition search_static_table :: "nghttp2_nv \<Rightarrow> int \<Rightarrow> bool \<Rightarrow> search_result" where
  "search_static_table nv token name_only =
     (if name_only then \<lparr>sr_index = token, sr_name_value_match = False\<rparr>
      else search_static_loop nv token (nat token))"

definition search_hd_table ::
  "nghttp2_hd_context \<Rightarrow> nghttp2_nv \<Rightarrow> int \<Rightarrow> nghttp2_hd_indexing_mode \<Rightarrow> nghttp2_hd_map \<Rightarrow> u32 \<Rightarrow> search_result option" where
  "search_hd_table ctx nv token indexing_mode hmap hash = do {
     let name_only = (indexing_mode = HD_NEVER_INDEXING);
     (ent, exact_match) \<leftarrow> hd_map_find hmap (ctx_entries ctx) (ctx_heap ctx) nv token hash name_only;
     if \<not> exact_match \<and> token \<ge> 0 \<and> token \<le> NGHTTP2_TOKEN_WWW_AUTHENTICATE
     then Some (search_static_table nv token name_only)
     else
       case ent of
         None \<Rightarrow> Some \<lparr>sr_index = -1, sr_name_value_match = False\<rparr>
       | Some a \<Rightarrow> do {
           e \<leftarrow> ctx_entries ctx a;
           Some \<lparr>sr_index = uint (next_seq ctx - 1 - ent_seq e + of_nat NGHTTP2_STATIC_TABLE_LENGTH),
                 sr_name_value_match = exact_match\<rparr> } }"

definition INDEX_RANGE_VALID :: "nghttp2_hd_context \<Rightarrow> nat \<Rightarrow> bool" where
  "INDEX_RANGE_VALID ctx idx \<longleftrightarrow> idx < rb_len (hd_table ctx) + NGHTTP2_STATIC_TABLE_LENGTH"

definition get_max_index :: "nghttp2_hd_context \<Rightarrow> nat" where
  "get_max_index ctx = rb_len (hd_table ctx) + NGHTTP2_STATIC_TABLE_LENGTH"

definition nghttp2_hd_table_get :: "nghttp2_hd_context \<Rightarrow> nat \<Rightarrow> nghttp2_hd_nv option" where
  "nghttp2_hd_table_get ctx idx =
     (if \<not> INDEX_RANGE_VALID ctx idx then None
      else if idx \<ge> NGHTTP2_STATIC_TABLE_LENGTH then do {
        a \<leftarrow> hd_ringbuf_get (hd_table ctx) (idx - NGHTTP2_STATIC_TABLE_LENGTH);
        e \<leftarrow> ctx_entries ctx a;
        Some (ent_nv e) }
      else Some \<lparr>hd_name = Rc_static_name idx, hd_value = Rc_static_value idx,
                 hd_token = se_token (static_table ! idx), hd_flags = NGHTTP2_NV_FLAG_NONE\<rparr>)"

definition nghttp2_hd_table_get2 :: "nghttp2_hd_context \<Rightarrow> nat \<Rightarrow> nghttp2_nv option" where
  "nghttp2_hd_table_get2 ctx idx =
     (if \<not> INDEX_RANGE_VALID ctx idx then None
      else if idx \<ge> NGHTTP2_STATIC_TABLE_LENGTH then do {
        a \<leftarrow> hd_ringbuf_get (hd_table ctx) (idx - NGHTTP2_STATIC_TABLE_LENGTH);
        e \<leftarrow> ctx_entries ctx a;
        Some (ent_cnv e) }
      else Some \<lparr>nv_name = se_name (static_table ! idx), nv_value = se_value (static_table ! idx),
                 nv_flags = NGHTTP2_NV_FLAG_NONE\<rparr>)"

section \<open>Chains of the hash map\<close>

abbreviation ent_nexts :: "(nat \<rightharpoonup> nghttp2_hd_entry) \<Rightarrow> nat \<Rightarrow> nat option option" where
  "ent_nexts es a \<equiv> map_option ent_next (es a)"

definition ent_bucket :: "(nat \<rightharpoonup> nghttp2_hd_entry) \<Rightarrow> nat \<Rightarrow> nat" where
  "ent_bucket es a = hd_bucket (ent_hash (the (es a)))"

definition map_ok :: "nghttp2_hd_map \<Rightarrow> (nat \<rightharpoonup> nghttp2_hd_entry) \<Rightarrow> nat list \<Rightarrow> bool" where
  "map_ok hmap es L \<longleftrightarrow> length hmap = HD_MAP_SIZE \<and>
     (\<forall>b < HD_MAP_SIZE. links (ent_nexts es) (hmap ! b) (filter (\<lambda>a. ent_bucket es a = b) L))"

lemma hd_bucket_less [simp]: "hd_bucket hash < HD_MAP_SIZE"
proof -
  have "hash AND 127 = take_bit 7 hash" by (simp add: take_bit_eq_mask mask_eq_exp_minus_1)
  then show ?thesis unfolding hd_bucket_def HD_MAP_SIZE_def
    using unsigned_take_bit_eq [of 7 hash, where ?'a = nat] by (simp add: take_bit_eq_mod)
qed

lemma remove_loop_links:
  assumes "links (ent_nexts es) p (ys @ x # zs)" "slot_get hmap es dst = Some p" "distinct (ys @ x # zs)"
  shows "\<exists>e. es x = Some e \<and> hd_map_remove_loop hmap es dst x =
     (let (hmap1, es1) = slot_set hmap es (if ys = [] then dst else Slot_next (last ys)) (ent_next e) in
      Some (hmap1, es1(x := map_option (\<lambda>e. e\<lparr>ent_next := None\<rparr>) (es1 x))))"
  using assms
proof (induction ys arbitrary: p dst)
  case Nil
  then obtain e where "es x = Some e" "p = Some x" by auto
  then show ?case using Nil.prems by (subst hd_map_remove_loop.simps) simp
next
  case (Cons y ys)
  then obtain r where r: "p = Some y" "ent_nexts es y = Some r" "links (ent_nexts es) r (ys @ x # zs)" by auto
  have ne: "y \<noteq> x" using Cons.prems(3) by auto
  have "slot_get hmap es (Slot_next y) = Some r" using r(2) by simp
  note ih = Cons.IH [OF r(3) this]
  have "hd_map_remove_loop hmap es dst x = hd_map_remove_loop hmap es (Slot_next y) x"
    using Cons.prems(2) r(1) ne by (subst hd_map_remove_loop.simps) simp
  then show ?case using ih Cons.prems(3) by (auto split: if_splits)
qed

lemma map_remove_ok:
  assumes m: "map_ok hmap es L" and d: "distinct L" and x: "x \<in> set L" and dom: "set L \<subseteq> dom es"
  obtains hmap' es' where "hd_map_remove hmap es x = Some (hmap', es')" "map_ok hmap' es' (remove1 x L)"
    "dom es' = dom es" "\<And>a e. es a = Some e \<Longrightarrow> \<exists>n. es' a = Some (e\<lparr>ent_next := n\<rparr>)"
proof -
  obtain e where e: "es x = Some e" using x dom by auto
  let ?b = "ent_bucket es x"
  let ?chain = "\<lambda>b. filter (\<lambda>a. ent_bucket es a = b) L"
  have b: "?b < HD_MAP_SIZE" "?b = hd_bucket (ent_hash e)" using e by (simp_all add: ent_bucket_def)
  obtain ys zs where c: "?chain ?b = ys @ x # zs" using split_list [of x "?chain ?b"] x by auto
  have dc: "distinct (ys @ x # zs)" using d c by (metis distinct_filter)
  have l: "links (ent_nexts es) (hmap ! ?b) (ys @ x # zs)" using m b(1) c by (auto simp: map_ok_def)
  have st: "hd_map_remove hmap es x =
      (let (hmap1, es1) = slot_set hmap es (if ys = [] then Slot_bucket ?b else Slot_next (last ys)) (ent_next e) in
       Some (hmap1, es1(x := map_option (\<lambda>e. e\<lparr>ent_next := None\<rparr>) (es1 x))))"
    using remove_loop_links [OF l, of hmap "Slot_bucket ?b"] dc e b(2) by (simp add: hd_map_remove_def)
  define hmap' where "hmap' = (if ys = [] then hmap[?b := ent_next e] else hmap)"
  define es' where "es' = (if ys = [] then es else es(last ys := map_option (\<lambda>e'. e'\<lparr>ent_next := ent_next e\<rparr>) (es (last ys))))(x \<mapsto> e\<lparr>ent_next := None\<rparr>)"
  have lx: "ys \<noteq> [] \<Longrightarrow> last ys \<noteq> x" using dc by auto
  have r: "hd_map_remove hmap es x = Some (hmap', es')"
    using e lx by (cases "ys = []") (auto simp: st hmap'_def es'_def)
  have keep: "\<exists>n. es' a = Some (e1\<lparr>ent_next := n\<rparr>)" if "es a = Some e1" for a e1
  proof -
    have "\<exists>n. e1 = e1\<lparr>ent_next := n\<rparr>" by (rule exI [of _ "ent_next e1"]) simp
    then show ?thesis using that e unfolding es'_def by (cases "a = x"; cases "a = last ys"; cases "ys = []") auto
  qed
  have ebk: "ent_bucket es' a = ent_bucket es a" if al: "a \<in> set L" for a
  proof -
    obtain e1 where "es a = Some e1" using al dom by blast
    then show ?thesis using keep [of a e1] by (auto simp: ent_bucket_def)
  qed
  have nx: "ent_nexts es' = (if ys = [] then (ent_nexts es)(x := Some None) else (ent_nexts es)(last ys := Some (ent_next e), x := Some None))"
  proof -
    have "ys \<noteq> [] \<Longrightarrow> last ys \<in> dom es" 
    proof -
      assume "ys \<noteq> []"
      then have "last ys \<in> set (?chain ?b)" unfolding c by simp
      then show "last ys \<in> dom es" using dom by auto
    qed
    then show ?thesis using lx by (auto simp: es'_def fun_eq_iff)
  qed
  have "links (ent_nexts es') (hmap' ! b) (filter (\<lambda>a. ent_bucket es' a = b) (remove1 x L))" if "b < HD_MAP_SIZE" for b
  proof -
    have f: "filter (\<lambda>a. ent_bucket es' a = b) (remove1 x L) = remove1 x (?chain b)"
      using ebk set_remove1_subset [of x L] by (subst filter_remove1 [symmetric]) (auto intro!: filter_cong)
    show ?thesis
    proof (cases "b = ?b")
      case True
      have "remove1 x (ys @ x # zs) = ys @ zs" using dc by (simp add: remove1_append)
      then show ?thesis
        using links_unlink [OF l dc, of "ent_next e"] e m b(1) unfolding f unfolding True nx c hmap'_def
        by (auto simp: map_ok_def)
    next
      case False
      have "x \<notin> set (?chain b)" using False by simp
      moreover have "links (ent_nexts es) (hmap ! b) (?chain b)" using m that by (simp add: map_ok_def)
      moreover have "ys \<noteq> [] \<Longrightarrow> last ys \<notin> set (?chain b)" 
      proof -
        assume "ys \<noteq> []"
        then have "last ys \<in> set (?chain ?b)" unfolding c by simp
        then show "last ys \<notin> set (?chain b)" using False by auto
      qed
      ultimately show ?thesis using False unfolding f nx hmap'_def by (auto simp: remove1_idem elim!: links_frame)
    qed
  qed
  then have "map_ok hmap' es' (remove1 x L)" using m by (simp add: map_ok_def hmap'_def)
  moreover have "dom es' = dom es" using e by (auto simp: es'_def dom_def split: if_splits)
  ultimately show ?thesis using that [OF r] keep by blast
qed

lemma map_insert_ok:
  assumes m: "map_ok hmap es L" and a: "a \<notin> set L" "es a = Some e" "ent_next e = None"
  obtains hmap' n where "hd_map_insert hmap es a = Some (hmap', es(a \<mapsto> e\<lparr>ent_next := n\<rparr>))"
    "map_ok hmap' (es(a \<mapsto> e\<lparr>ent_next := n\<rparr>)) (a # L)"
proof -
  let ?b = "hd_bucket (ent_hash e)"
  let ?es = "es(a \<mapsto> e\<lparr>ent_next := hmap ! ?b\<rparr>)"
  let ?hmap = "hmap[?b := Some a]"
  have "es(a \<mapsto> e\<lparr>ent_next := None\<rparr>) = es" using a by (auto simp: fun_eq_iff)
  then have "hd_map_insert hmap es a = Some (?hmap, ?es)" using a by (simp add: hd_map_insert_def Let_def)
  moreover have bk: "ent_bucket ?es x = (if x = a then ?b else ent_bucket es x)" for x by (simp add: ent_bucket_def)
  moreover have "links (ent_nexts ?es) (?hmap ! b) (filter (\<lambda>x. ent_bucket ?es x = b) (a # L))" if "b < HD_MAP_SIZE" for b
  proof -
    have f: "filter (\<lambda>x. ent_bucket ?es x = b) L = filter (\<lambda>x. ent_bucket es x = b) L"
      using a(1) by (intro filter_cong) (auto simp: bk)
    have "links (ent_nexts es) (hmap ! b) (filter (\<lambda>x. ent_bucket es x = b) L)" using m that by (simp add: map_ok_def)
    then have l: "links (ent_nexts ?es) (hmap ! b) (filter (\<lambda>x. ent_bucket es x = b) L)"
      by (rule links_frame) (use a(1) in auto)
    show ?thesis
    proof (cases "b = ?b")
      case True
      then show ?thesis using l m f by (simp add: bk map_ok_def)
    next
      case False
      then have "ent_bucket ?es a \<noteq> b" by (simp add: bk)
      then show ?thesis using l f False by simp
    qed
  qed
  ultimately show ?thesis using that [of ?hmap "hmap ! ?b"] m by (simp add: map_ok_def)
qed

text \<open>What the search loop computes on the list of the entries of a chain.\<close>

fun find_in :: "(nat \<Rightarrow> bool) \<Rightarrow> (nat \<Rightarrow> bool) \<Rightarrow> bool \<Rightarrow> nat list \<Rightarrow> nat option \<Rightarrow> nat option \<times> bool" where
  "find_in P V name_only [] res = (res, False)"
| "find_in P V name_only (a # L) res =
     (if \<not> P a then find_in P V name_only L res
      else if res = None \<and> name_only then (Some a, False)
      else if V a then (Some a, True)
      else find_in P V name_only L (if res = None then Some a else res))"

lemma find_in_filter: "(\<And>a. P a \<Longrightarrow> Q a) \<Longrightarrow> find_in P V name_only (filter Q L) res = find_in P V name_only L res"
  by (induction L arbitrary: res) auto

lemma find_in_res:
  "find_in P V name_only L (Some r) =
     (case find (\<lambda>a. P a \<and> V a) L of None \<Rightarrow> (Some r, False) | Some a \<Rightarrow> (Some a, True))"
  by (induction L) auto

lemma find_in_name_only: "find_in P V True L None = (find P L, False)"
  by (induction L) auto

lemma find_in_value:
  "find_in P V False L None =
     (case find (\<lambda>a. P a \<and> V a) L of None \<Rightarrow> (find P L, False) | Some a \<Rightarrow> (Some a, True))"
  by (induction L) (auto simp: find_in_res split: option.split)

text \<open>The names and values of an entry, and what it means that an entry has the name of a field.\<close>

definition ent_bytes :: "rc_heap \<Rightarrow> nghttp2_hd_entry \<Rightarrow> u8 list \<times> u8 list" where
  "ent_bytes h e = (rc_bytes h (hd_name (ent_nv e)), rc_bytes h (hd_value (ent_nv e)))"

lemma memcmp_prefix: "k \<le> length b \<Longrightarrow> k = length v \<and> take (length v) b = v \<longleftrightarrow> take k b = v"
  by auto

lemma name_eq_bytes:
  "rc_ok h M \<Longrightarrow> rc_live M (hd_name (ent_nv e)) \<Longrightarrow> name_eq h (ent_nv e) nv = Some (fst (ent_bytes h e) = nv_name nv)"
  by (erule (1) rc_ok_get) (simp add: name_eq_def ent_bytes_def memcmp_prefix)

lemma value_eq_bytes:
  "rc_ok h M \<Longrightarrow> rc_live M (hd_value (ent_nv e)) \<Longrightarrow> value_eq h (ent_nv e) nv = Some (snd (ent_bytes h e) = nv_value nv)"
  by (erule (1) rc_ok_get) (simp add: value_eq_def ent_bytes_def memcmp_prefix)

definition ent_matches :: "(nat \<rightharpoonup> nghttp2_hd_entry) \<Rightarrow> rc_heap \<Rightarrow> nghttp2_nv \<Rightarrow> int \<Rightarrow> u32 \<Rightarrow> nat \<Rightarrow> bool" where
  "ent_matches es h nv token hash a \<longleftrightarrow> (case es a of None \<Rightarrow> False | Some e \<Rightarrow>
     hd_token (ent_nv e) = token \<and> (token = -1 \<longrightarrow> ent_hash e = hash \<and> fst (ent_bytes h e) = nv_name nv))"

definition ent_value_matches :: "(nat \<rightharpoonup> nghttp2_hd_entry) \<Rightarrow> rc_heap \<Rightarrow> nghttp2_nv \<Rightarrow> nat \<Rightarrow> bool" where
  "ent_value_matches es h nv a \<longleftrightarrow> (case es a of None \<Rightarrow> False | Some e \<Rightarrow> snd (ent_bytes h e) = nv_value nv)"

lemma find_loop_links:
  assumes "links (ent_nexts es) p L" "rc_ok h M"
    "\<And>a e. a \<in> set L \<Longrightarrow> es a = Some e \<Longrightarrow> rc_live M (hd_name (ent_nv e)) \<and> rc_live M (hd_value (ent_nv e))"
  shows "hd_map_find_loop es h p res nv token hash name_only =
     Some (find_in (ent_matches es h nv token hash) (ent_value_matches es h nv) name_only L res)"
  using assms
proof (induction L arbitrary: p res)
  case Nil
  then show ?case by (subst hd_map_find_loop.simps) simp
next
  case (Cons a L)
  then obtain e where e: "p = Some a" "es a = Some e" "links (ent_nexts es) (ent_next e) L" by auto
  have v: "name_eq h (ent_nv e) nv = Some (fst (ent_bytes h e) = nv_name nv)"
    "value_eq h (ent_nv e) nv = Some (snd (ent_bytes h e) = nv_value nv)"
    using name_eq_bytes [OF Cons.prems(2)] value_eq_bytes [OF Cons.prems(2)] Cons.prems(3) [of a e] e(2) by auto
  have ih: "hd_map_find_loop es h (ent_next e) res nv token hash name_only =
      Some (find_in (ent_matches es h nv token hash) (ent_value_matches es h nv) name_only L res)" for res
    by (rule Cons.IH [OF e(3) Cons.prems(2)]) (use Cons.prems(3) in auto)
  have sk: "(if token \<noteq> hd_token (ent_nv e) then Some True
      else if token = -1 then if hash \<noteq> ent_hash e then Some True else map_option Not (name_eq h (ent_nv e) nv)
      else Some False) = Some (\<not> ent_matches es h nv token hash a)"
    using e(2) v(1) by (simp add: ent_matches_def)
  have m: "ent_value_matches es h nv a \<longleftrightarrow> snd (ent_bytes h e) = nv_value nv"
    using e(2) by (simp add: ent_value_matches_def)
  show ?case using ih unfolding e(1)
    by (subst hd_map_find_loop.simps, cases name_only) (simp_all add: e(2) sk v(2) m)
qed

section \<open>The ring buffer holds a list\<close>

definition ring_rep :: "nghttp2_hd_ringbuf \<Rightarrow> nat list \<Rightarrow> bool" where
  "ring_rep rb L \<longleftrightarrow> (\<exists>k \<le> 63. length (rb_buffer rb) = 2 ^ k \<and> rb_mask rb = mask k) \<and>
     rb_len rb = length L \<and> length L \<le> length (rb_buffer rb) \<and> (\<forall>i < length L. hd_ringbuf_get rb i = Some (L ! i))"

lemma unat_and_mask: "k \<le> 63 \<Longrightarrow> unat ((w :: u64) AND mask k) = unat w mod 2 ^ k"
  by (simp only: take_bit_eq_mask [symmetric] unsigned_take_bit_eq) (simp add: take_bit_eq_mod)

lemma ring_index:
  assumes "k \<le> 63" "rb_mask rb = mask k"
  shows "hd_ringbuf_index rb i = (unat (rb_first rb) + i) mod 2 ^ k"
proof -
  have "unat (rb_first rb + of_nat i) mod 2 ^ k = (unat (rb_first rb) + i) mod 2 ^ 64 mod 2 ^ k"
    by (simp add: unat_word_ariths unat_of_nat mod_add_right_eq)
  also have "\<dots> = (unat (rb_first rb) + i) mod 2 ^ k"
    using assms(1) by (intro mod_mod_cancel le_imp_power_dvd) simp
  finally show ?thesis using assms by (simp add: hd_ringbuf_index_def unat_and_mask)
qed

lemma ring_index_inj:
  fixes f :: nat
  assumes "(f + i) mod m = (f + j) mod m" "i < m" "j < m"
  shows "i = j"
proof -
  have le: "i = j" if "i \<le> j" "(f + i) mod m = (f + j) mod m" "j < m" for i j
  proof -
    have "m dvd (f + j) - (f + i)" using that by (subst mod_eq_dvd_iff_nat [symmetric]) simp_all
    then show ?thesis using that by (auto dest: dvd_imp_le)
  qed
  show ?thesis using le [of i j] le [of j i] assms by (cases "i \<le> j") auto
qed

lemma ring_pop:
  assumes "ring_rep rb (L @ [x])"
  obtains rb' where "hd_ringbuf_pop_back rb = Some rb'" "ring_rep rb' L" "rb_len rb' < rb_len rb"
    "hd_ringbuf_get rb (rb_len rb - 1) = Some x"
proof -
  let ?rb = "rb\<lparr>rb_len := rb_len rb - 1\<rparr>"
  have len: "rb_len rb = Suc (length L)" and g: "\<And>i. i < Suc (length L) \<Longrightarrow> hd_ringbuf_get rb i = Some ((L @ [x]) ! i)"
    using assms by (simp_all add: ring_rep_def)
  have "hd_ringbuf_get ?rb i = Some (L ! i)" if "i < length L" for i
    using g [of i] that len by (simp add: hd_ringbuf_get_def hd_ringbuf_index_def nth_append split: if_splits)
  then have "ring_rep ?rb L" using assms by (auto simp: ring_rep_def)
  then show ?thesis using that [of ?rb] len g [of "length L"] by (simp add: hd_ringbuf_pop_back_def)
qed

lemma ring_size: "n \<le> 2 ^ m \<Longrightarrow> k \<le> m \<Longrightarrow> \<exists>j \<le> m. hd_ring_size k n = 2 ^ j \<and> n \<le> 2 ^ j"
proof (induction k n rule: hd_ring_size.induct)
  case (1 k n)
  show ?case
  proof (cases "2 ^ k < n")
    case True
    then have "k < m" using "1.prems" by (auto intro: power_less_imp_less_exp [of 2] elim: less_le_trans)
    then show ?thesis using "1.IH" [OF True "1.prems"(1)] True by (subst hd_ring_size.simps) simp
  next
    case False
    then show ?thesis using "1.prems"(2) by (subst hd_ring_size.simps) (auto simp: not_less)
  qed
qed

lemma mask_of_nat: "k \<le> 63 \<Longrightarrow> (of_nat (2 ^ k - 1) :: u64) = mask k"
  by (simp add: mask_eq_exp_minus_1 of_nat_diff)

lemma unat_mask_u64: "k \<le> 63 \<Longrightarrow> unat (mask k :: u64) = 2 ^ k - 1"
proof -
  assume k: "k \<le> 63"
  have "(2 :: nat) ^ k \<le> 2 ^ 63" using power_increasing [OF k, of "2 :: nat"] by simp
  then have "unat (of_nat (2 ^ k - 1) :: u64) = 2 ^ k - 1" by (simp add: unat_of_nat del: of_nat_diff)
  then show ?thesis unfolding mask_of_nat [OF k] .
qed

lemma ring_init:
  assumes "bufsize \<le> 2 ^ 63"
  shows "case hd_ringbuf_init mem bufsize of
     (Inl e, mem') \<Rightarrow> e = ERR_NOMEM \<and> \<not> mem_reliable mem \<and> mem_mono mem mem'
   | (Inr rb, mem') \<Rightarrow> ring_rep rb [] \<and> mem_mono mem mem'"
proof -
  obtain j where j: "j \<le> 63" "hd_ring_size 0 bufsize = 2 ^ j" using ring_size [OF assms, of 0] by auto
  then show ?thesis using mem_call_reliable [of mem] mem_mono_call [of mem]
    by (auto simp: hd_ringbuf_init_def ring_rep_def mask_eq_exp_minus_1 Let_def case_prod_beta)
qed

lemma ring_reserve:
  assumes r: "ring_rep rb L" and n: "length L < n" "n \<le> 2 ^ 63"
  shows "case hd_ringbuf_reserve mem rb n of
     (Inl e, mem') \<Rightarrow> e = ERR_NOMEM \<and> \<not> mem_reliable mem \<and> mem_mono mem mem'
   | (Inr rb', mem') \<Rightarrow> ring_rep rb' L \<and> length L < length (rb_buffer rb') \<and> mem_mono mem mem'"
proof -
  obtain k where k: "k \<le> 63" "length (rb_buffer rb) = 2 ^ k" "rb_mask rb = mask k" using r by (auto simp: ring_rep_def)
  have m: "unat (rb_mask rb) + 1 = length (rb_buffer rb)" using k by (simp add: unat_mask_u64)
  obtain j where j: "j \<le> 63" "hd_ring_size 0 n = 2 ^ j" "n \<le> 2 ^ j" using ring_size [OF n(2), of 0] by auto
  let ?rb = "rb\<lparr>rb_buffer := map (hd_ringbuf_get rb) [0..<rb_len rb] @ replicate (2 ^ j - rb_len rb) None,
      rb_mask := mask j, rb_first := 0\<rparr>"
  have mj: "2 ^ j - 1 = (mask j :: u64)" by (simp add: mask_eq_exp_minus_1)
  have len: "rb_len rb = length L" and g: "\<And>i. i < length L \<Longrightarrow> hd_ringbuf_get rb i = Some (L ! i)"
    using r by (simp_all add: ring_rep_def)
  have "hd_ringbuf_get ?rb i = Some (L ! i)" if "i < length L" for i
  proof -
    have "hd_ringbuf_index ?rb i = i"
      using ring_index [of j ?rb i] j n that by simp
    then show ?thesis using that len g [of i] unfolding hd_ringbuf_get_def [of ?rb i] by (simp add: nth_append)
  qed
  then have "ring_rep ?rb L" using j n len by (auto simp: ring_rep_def)
  then show ?thesis
    using mem_call_reliable [of mem] mem_mono_call [of mem] j n len m r
    by (auto simp: hd_ringbuf_reserve_def case_prod_beta Let_def mj)
qed

lemma ring_push:
  assumes r: "ring_rep rb L" and n: "length L < 2 ^ 63"
  shows "case hd_ringbuf_push_front mem rb a of
     (Inl e, mem') \<Rightarrow> e = ERR_NOMEM \<and> \<not> mem_reliable mem \<and> mem_mono mem mem'
   | (Inr rb', mem') \<Rightarrow> ring_rep rb' (a # L) \<and> mem_mono mem mem'"
proof -
  have push: "ring_rep (rb1\<lparr>rb_first := rb_first rb1 - 1,
      rb_buffer := (rb_buffer rb1)[unat ((rb_first rb1 - 1) AND rb_mask rb1) := Some a], rb_len := rb_len rb1 + 1\<rparr>) (a # L)"
    (is "ring_rep ?rb _") if r1: "ring_rep rb1 L" and c: "length L < length (rb_buffer rb1)" for rb1
  proof -
    obtain k where k: "k \<le> 63" "length (rb_buffer rb1) = 2 ^ k" "rb_mask rb1 = mask k" using r1 by (auto simp: ring_rep_def)
    let ?f = "rb_first rb1 - 1"
    let ?m = "2 ^ k :: nat"
    have i0: "unat (?f AND rb_mask rb1) = unat ?f mod ?m" using k by (simp add: unat_and_mask)
    have ix: "hd_ringbuf_index ?rb i = (unat ?f + i) mod ?m" for i using ring_index [of k ?rb i] k by simp
    have step: "hd_ringbuf_index rb1 i = hd_ringbuf_index ?rb (Suc i)" for i
    proof -
      have "?f + of_nat (Suc i) = rb_first rb1 + of_nat i" by simp
      then show ?thesis by (simp add: hd_ringbuf_index_def)
    qed
    have "hd_ringbuf_get ?rb i = Some ((a # L) ! i)" if "i < length (a # L)" for i
    proof (cases i)
      case 0
      then show ?thesis using k ix [of 0] i0 by (simp add: hd_ringbuf_get_def)
    next
      case (Suc j)
      then have j: "j < length L" "Suc j < ?m" using that c k(2) by auto
      have "hd_ringbuf_index ?rb (Suc j) \<noteq> hd_ringbuf_index ?rb 0"
        using ring_index_inj [of "unat ?f" "Suc j" ?m 0] j(2) unfolding ix by auto
      then have "unat (?f AND rb_mask rb1) \<noteq> hd_ringbuf_index rb1 j" using step [of j] ix [of 0] i0 by simp
      moreover have "hd_ringbuf_get rb1 j = Some (L ! j)" using r1 j by (simp add: ring_rep_def)
      ultimately show ?thesis using Suc j r1 step [of j]
        by (simp add: hd_ringbuf_get_def ring_rep_def split: if_splits)
    qed
    then show ?thesis using r1 c k by (auto simp: ring_rep_def)
  qed
  have "rb_len rb = length L" using r by (simp add: ring_rep_def)
  then show ?thesis
    using ring_reserve [OF r, of "length L + 1" mem] n push
    by (auto simp: hd_ringbuf_push_front_def Let_def split: prod.splits sum.splits)
qed

section \<open>The table of RFC 7541\<close>

text \<open>
  The specification of a dynamic table: a list of name and value pairs, the newest first.  A table is
  cut to a size by keeping the newest fields that fit; adding a field puts it in front and cuts the
  table to its maximum, which drops everything if the field alone does not fit.
\<close>

type_synonym field = "u8 list \<times> u8 list"

definition field_room :: "field \<Rightarrow> nat" where
  "field_room f = entry_room (length (fst f)) (length (snd f))"

definition table_size :: "field list \<Rightarrow> nat" where
  "table_size t = sum_list (map field_room t)"

fun table_cut :: "nat \<Rightarrow> field list \<Rightarrow> field list" where
  "table_cut m [] = []"
| "table_cut m (f # t) = (if field_room f \<le> m then f # table_cut (m - field_room f) t else [])"

lemma table_size_simps [simp]:
  "table_size [] = 0" "table_size (f # t) = field_room f + table_size t" "table_size (t @ u) = table_size t + table_size u"
  by (simp_all add: table_size_def)

lemma table_cut_all: "table_size t \<le> m \<Longrightarrow> table_cut m t = t"
  by (induction t arbitrary: m) auto

lemma table_cut_last: "m < table_size (t @ [f]) \<Longrightarrow> table_cut m (t @ [f]) = table_cut m t"
  by (induction t arbitrary: m) auto

lemma table_cut_size: "table_size (table_cut m t) \<le> m"
proof (induction t arbitrary: m)
  case (Cons f t)
  show ?case using Cons.IH [of "m - field_room f"] by auto
qed simp

lemma table_cut_cut: "m \<le> n \<Longrightarrow> table_cut m (table_cut n t) = table_cut m t"
  by (induction t arbitrary: m n) auto

lemma field_room_ge: "32 \<le> field_room f"
  by (simp add: field_room_def entry_room_def NGHTTP2_HD_ENTRY_OVERHEAD_def)

lemma table_size_length: "32 * length t \<le> table_size t"
  by (induction t) (use field_room_ge in \<open>auto simp: algebra_simps intro: add_mono\<close>)

section \<open>Consistent contexts\<close>

definition ent_refs :: "(nat \<rightharpoonup> nghttp2_hd_entry) \<Rightarrow> nat list \<Rightarrow> rcptr multiset" where
  "ent_refs es L = (\<Sum>a \<in># mset L. {#hd_name (ent_nv (the (es a))), hd_value (ent_nv (the (es a)))#})"

definition ctx_fields :: "nghttp2_hd_context \<Rightarrow> nat list \<Rightarrow> field list" where
  "ctx_fields ctx L = map (\<lambda>a. ent_bytes (ctx_heap ctx) (the (ctx_entries ctx a))) L"

text \<open>The hash a deflater stores for a name.\<close>

definition token_hash :: "int \<Rightarrow> u8 list \<Rightarrow> u32" where
  "token_hash token name =
     (if token = -1 then name_hash name
      else if token \<le> NGHTTP2_TOKEN_WWW_AUTHENTICATE then se_hash (static_table ! nat token) else 0)"

definition entry_ok :: "bool \<Rightarrow> rc_heap \<Rightarrow> nghttp2_hd_entry \<Rightarrow> bool" where
  "entry_ok hashed h e \<longleftrightarrow> hd_token (ent_nv e) = lookup_token (fst (ent_bytes h e)) \<and> hd_flags (ent_nv e) = NGHTTP2_NV_FLAG_NONE \<and>
     ent_cnv e = \<lparr>nv_name = fst (ent_bytes h e), nv_value = snd (ent_bytes h e), nv_flags = NGHTTP2_NV_FLAG_NONE\<rparr> \<and>
     (hashed \<longrightarrow> ent_hash e = token_hash (hd_token (ent_nv e)) (fst (ent_bytes h e)))"

text \<open>
  \<open>ctx_inv ctx hmap L E\<close>: the ring buffer holds the addresses \<open>L\<close>, the newest first; these are the only
  allocated entries; the references of the entries and the further references \<open>E\<close> are all there are;
  sizes, sequence numbers, tokens, hashes and bucket chains are right.
\<close>

definition ctx_inv :: "nghttp2_hd_context \<Rightarrow> nghttp2_hd_map option \<Rightarrow> nat list \<Rightarrow> rcptr multiset \<Rightarrow> bool" where
  "ctx_inv ctx hmap L E \<longleftrightarrow>
     ring_rep (hd_table ctx) L \<and> distinct L \<and> dom (ctx_entries ctx) = set L \<and> (\<forall>a \<in> set L. a < ctx_entry_new ctx) \<and>
     rc_ok (ctx_heap ctx) (E + ent_refs (ctx_entries ctx) L) \<and>
     hd_table_bufsize ctx = table_size (ctx_fields ctx L) \<and> hd_table_bufsize_max ctx < 2 ^ 32 \<and>
     (\<forall>i < length L. ent_seq (the (ctx_entries ctx (L ! i))) = next_seq ctx - 1 - of_nat i) \<and>
     (\<forall>a \<in> set L. entry_ok (hmap \<noteq> None) (ctx_heap ctx) (the (ctx_entries ctx a))) \<and>
     (\<forall>m. hmap = Some m \<longrightarrow> map_ok m (ctx_entries ctx) L)"

lemma ent_refs_simps [simp]:
  "ent_refs es [] = {#}"
  "ent_refs es (a # L) = {#hd_name (ent_nv (the (es a))), hd_value (ent_nv (the (es a)))#} + ent_refs es L"
  "ent_refs es (L @ L') = ent_refs es L + ent_refs es L'"
  by (simp_all add: ent_refs_def)

lemma ent_refs_cong: "(\<And>a. a \<in> set L \<Longrightarrow> ent_nv (the (es a)) = ent_nv (the (es' a))) \<Longrightarrow> ent_refs es L = ent_refs es' L"
  by (induction L) auto

lemma ent_refs_member: "a \<in> set L \<Longrightarrow> hd_name (ent_nv (the (es a))) \<in># ent_refs es L \<and> hd_value (ent_nv (the (es a))) \<in># ent_refs es L"
  by (induction L) auto

lemma ent_bytes_same:
  "rc_same M h h' \<Longrightarrow> hd_name (ent_nv e) \<in># M \<Longrightarrow> hd_value (ent_nv e) \<in># M \<Longrightarrow> ent_bytes h' e = ent_bytes h e"
  by (simp add: rc_same_def ent_bytes_def)

lemma ent_bytes_cong: "ent_nv e = ent_nv e' \<Longrightarrow> ent_bytes h e = ent_bytes h e'"
  by (simp add: ent_bytes_def)

lemma entry_ok_cong:
  "ent_nv e = ent_nv e' \<Longrightarrow> ent_cnv e = ent_cnv e' \<Longrightarrow> ent_hash e = ent_hash e' \<Longrightarrow> ent_bytes h e = ent_bytes h' e' \<Longrightarrow>
   entry_ok b h e = entry_ok b h' e'"
  by (simp add: entry_ok_def)

lemma entry_free_ok:
  assumes "rc_ok h (add_mset (hd_name (ent_nv e)) (add_mset (hd_value (ent_nv e)) M))"
  obtains h' where "nghttp2_hd_entry_free h e = Some h'" "rc_ok h' M" "rc_same M h h'" "rc_mem h' = rc_mem h"
proof -
  let ?n = "hd_name (ent_nv e)" and ?v = "hd_value (ent_nv e)"
  obtain h1 where h1: "nghttp2_rcbuf_decref h (Some ?v) = Some h1" "rc_ok h1 (add_mset ?n M)" "rc_same (add_mset ?n M) h h1"
    "rc_mem h1 = rc_mem h"
    by (rule decref_ok [OF assms, of ?v]) (simp_all add: add_mset_commute)
  obtain h2 where h2: "nghttp2_rcbuf_decref h1 (Some ?n) = Some h2" "rc_ok h2 M" "rc_same M h1 h2" "rc_mem h2 = rc_mem h1"
    by (rule decref_ok [OF h1(2), of ?n]) simp_all
  show ?thesis
    by (rule that [of h2]) (use h1 h2 in \<open>auto simp: nghttp2_hd_entry_free_def rc_same_def\<close>)
qed

lemma map_ok_frame: "map_ok m es L \<Longrightarrow> (\<And>a. a \<in> set L \<Longrightarrow> es' a = es a) \<Longrightarrow> map_ok m es' L"
proof -
  assume m: "map_ok m es L" and f: "\<And>a. a \<in> set L \<Longrightarrow> es' a = es a"
  have "filter (\<lambda>a. ent_bucket es' a = b) L = filter (\<lambda>a. ent_bucket es a = b) L" for b
    using f by (intro filter_cong) (auto simp: ent_bucket_def)
  then show ?thesis using m f by (auto simp: map_ok_def intro: links_frame)
qed

lemma ctx_invD:
  assumes "ctx_inv ctx hmap L E"
  shows "ring_rep (hd_table ctx) L" "distinct L" "dom (ctx_entries ctx) = set L" "\<And>a. a \<in> set L \<Longrightarrow> a < ctx_entry_new ctx"
    "rc_ok (ctx_heap ctx) (E + ent_refs (ctx_entries ctx) L)"
    "hd_table_bufsize ctx = table_size (ctx_fields ctx L)" "hd_table_bufsize_max ctx < 2 ^ 32"
    "\<And>i. i < length L \<Longrightarrow> ent_seq (the (ctx_entries ctx (L ! i))) = next_seq ctx - 1 - of_nat i"
    "\<And>a. a \<in> set L \<Longrightarrow> entry_ok (hmap \<noteq> None) (ctx_heap ctx) (the (ctx_entries ctx a))"
    "\<forall>m. hmap = Some m \<longrightarrow> map_ok m (ctx_entries ctx) L"
  using assms by (simp_all add: ctx_inv_def)

lemma ctx_inv_entry: "ctx_inv ctx hmap L E \<Longrightarrow> a \<in> set L \<Longrightarrow> \<exists>e. ctx_entries ctx a = Some e"
  unfolding ctx_inv_def by blast

lemma evict_ok:
  assumes inv: "ctx_inv ctx hmap (L @ [x]) E"
  obtains ctx' hmap' where "hd_table_evict ctx hmap = Some (ctx', hmap')" "ctx_inv ctx' hmap' L E"
    "ctx_fields ctx' L = ctx_fields ctx L" "hd_table_bufsize_max ctx' = hd_table_bufsize_max ctx" "ctx_bad ctx' = ctx_bad ctx"
    "rc_same E (ctx_heap ctx) (ctx_heap ctx')" "rc_mem (ctx_heap ctx') = rc_mem (ctx_heap ctx)" "(hmap' = None) = (hmap = None)"
    "next_seq ctx' = next_seq ctx"
proof -
  let ?es = "ctx_entries ctx" and ?h = "ctx_heap ctx"
  note i = ctx_invD [OF inv]
  have x: "x \<in> set (L @ [x])" by simp
  obtain e where e: "?es x = Some e" using ctx_inv_entry [OF inv x] by auto
  obtain rb where rb: "hd_ringbuf_pop_back (hd_table ctx) = Some rb" "ring_rep rb L"
    "hd_ringbuf_get (hd_table ctx) (rb_len (hd_table ctx) - 1) = Some x"
    using ring_pop [OF i(1)] by metis
  have rc: "rc_ok ?h (add_mset (hd_name (ent_nv e)) (add_mset (hd_value (ent_nv e)) (E + ent_refs ?es L)))"
    using i(5) e by simp
  have live: "rc_live (add_mset (hd_name (ent_nv e)) (add_mset (hd_value (ent_nv e)) (E + ent_refs ?es L))) p"
    if "p = hd_name (ent_nv e) \<or> p = hd_value (ent_nv e)" for p
    by (rule rc_ok_live [OF rc]) (use that in auto)
  obtain n where n: "rc_get ?h (hd_name (ent_nv e)) = Some n" "rc_len n = length (fst (ent_bytes ?h e))"
    using rc_ok_get [OF rc live, of "hd_name (ent_nv e)"] unfolding ent_bytes_def fst_conv by metis
  obtain v where v: "rc_get ?h (hd_value (ent_nv e)) = Some v" "rc_len v = length (snd (ent_bytes ?h e))"
    using rc_ok_get [OF rc live, of "hd_value (ent_nv e)"] unfolding ent_bytes_def snd_conv by metis
  obtain hmap' es where m: "(case hmap of None \<Rightarrow> Some (None, ?es) | Some m \<Rightarrow> map_option (apfst Some) (hd_map_remove m ?es x)) = Some (hmap', es)"
    "\<forall>m. hmap' = Some m \<longrightarrow> map_ok m es L" "dom es = dom ?es" "(hmap' = None) = (hmap = None)"
    "\<And>a e. ?es a = Some e \<Longrightarrow> \<exists>n. es a = Some (e\<lparr>ent_next := n\<rparr>)"
  proof (cases hmap)
    case None
    have "\<exists>n. e = e\<lparr>ent_next := n\<rparr>" for e :: nghttp2_hd_entry by (rule exI [of _ "ent_next e"]) simp
    then show ?thesis using that [of None ?es] None by simp
  next
    case (Some hm)
    then have hm: "map_ok hm ?es (L @ [x])" "set (L @ [x]) \<subseteq> dom ?es" using i(3,10) by simp_all
    have rm: "remove1 x (L @ [x]) = L" using i(2) by (simp add: remove1_append)
    show ?thesis
    proof (rule map_remove_ok [OF hm(1) i(2) x hm(2), unfolded rm])
      fix hm' es
      assume r: "hd_map_remove hm ?es x = Some (hm', es)" "map_ok hm' es L" "dom es = dom ?es"
        "\<And>a e. ?es a = Some e \<Longrightarrow> \<exists>n. es a = Some (e\<lparr>ent_next := n\<rparr>)"
      show ?thesis by (rule that [of "Some hm'" es]) (simp_all add: Some r)
    qed
  qed
  obtain n1 where ex: "es x = Some (e\<lparr>ent_next := n1\<rparr>)" using m(5) [OF e] by auto
  obtain h' where h': "nghttp2_hd_entry_free ?h (e\<lparr>ent_next := n1\<rparr>) = Some h'" "rc_ok h' (E + ent_refs ?es L)"
    "rc_same (E + ent_refs ?es L) ?h h'" "rc_mem h' = rc_mem ?h"
    using entry_free_ok [of ?h "e\<lparr>ent_next := n1\<rparr>" "E + ent_refs ?es L"] rc by auto
  define ctx' where "ctx' = ctx\<lparr>hd_table := rb, ctx_heap := h', ctx_entries := es(x := None),
      hd_table_bufsize := hd_table_bufsize ctx - entry_room (rc_len n) (rc_len v)\<rparr>"
  have ev: "hd_table_evict ctx hmap = Some (ctx', hmap')"
    using rb e n(1) v(1) m(1) ex h'(1) by (simp add: hd_table_evict_def ctx_entry_free_def ctx'_def)
  have dl: "distinct L" "x \<notin> set L" using i(2) by auto
  have ent: "\<exists>n. ctx_entries ctx' a = Some ((the (?es a))\<lparr>ent_next := n\<rparr>)" if "a \<in> set L" for a
    using ctx_inv_entry [OF inv, of a] m(5) [of a] that dl(2) by (auto simp: ctx'_def)
  have nvs: "ent_nv (the (ctx_entries ctx' a)) = ent_nv (the (?es a))"
    "ent_cnv (the (ctx_entries ctx' a)) = ent_cnv (the (?es a))" "ent_hash (the (ctx_entries ctx' a)) = ent_hash (the (?es a))"
    "ent_seq (the (ctx_entries ctx' a)) = ent_seq (the (?es a))" if "a \<in> set L" for a
    using ent [OF that] by auto
  have refs: "ent_refs (ctx_entries ctx') L = ent_refs ?es L" using nvs(1) by (rule ent_refs_cong)
  have bt: "ent_bytes (ctx_heap ctx') (the (ctx_entries ctx' a)) = ent_bytes ?h (the (?es a))" if "a \<in> set L" for a
  proof -
    have "ent_bytes h' (the (?es a)) = ent_bytes ?h (the (?es a))"
      using ent_bytes_same [OF h'(3)] ent_refs_member [OF that, of ?es] by simp
    then show ?thesis using ent_bytes_cong [OF nvs(1) [OF that]] by (simp add: ctx'_def)
  qed
  have f: "ctx_fields ctx' L = ctx_fields ctx L" using bt by (simp add: ctx_fields_def)
  show ?thesis
  proof (rule that [OF ev _ f])
    have "hd_table_bufsize ctx' = table_size (ctx_fields ctx L)"
      using i(6) e n(2) v(2) by (simp add: ctx'_def ctx_fields_def field_room_def)
    moreover have "ent_seq (the (ctx_entries ctx' (L ! k))) = next_seq ctx - 1 - of_nat k" if "k < length L" for k
      using i(8) [of k] nvs(4) [of "L ! k"] that by (simp add: nth_append)
    moreover have "entry_ok (hmap' \<noteq> None) (ctx_heap ctx') (the (ctx_entries ctx' a))" if "a \<in> set L" for a
      using i(9) [of a] that m(4) by (simp add: entry_ok_cong [OF nvs(1-3) bt, OF that that that that])
    moreover have "\<forall>m. hmap' = Some m \<longrightarrow> map_ok m (ctx_entries ctx') L"
      using m(2) dl(2) by (auto simp: ctx'_def elim!: map_ok_frame split: option.splits)
    moreover have "dom (ctx_entries ctx') = set L" using m(3) i(3) dl by (auto simp: ctx'_def)
    moreover have "rc_ok (ctx_heap ctx') (E + ent_refs (ctx_entries ctx') L)" using h'(2) refs by (simp add: ctx'_def)
    moreover have "\<And>a. a \<in> set L \<Longrightarrow> a < ctx_entry_new ctx'" using i(4) by (simp add: ctx'_def)
    ultimately show "ctx_inv ctx' hmap' L E"
      using rb(2) i(7) f dl(1) unfolding ctx_inv_def by (simp add: ctx'_def)
  qed (use h'(3,4) m(4) in \<open>auto simp: ctx'_def elim: rc_same_mono\<close>)
qed

text \<open>What every operation on the table keeps of a context.\<close>

definition ctx_kept :: "nghttp2_hd_context \<Rightarrow> nghttp2_hd_map option \<Rightarrow> nghttp2_hd_context \<Rightarrow> nghttp2_hd_map option \<Rightarrow> rcptr multiset \<Rightarrow> bool" where
  "ctx_kept ctx hmap ctx' hmap' E \<longleftrightarrow> hd_table_bufsize_max ctx' = hd_table_bufsize_max ctx \<and> ctx_bad ctx' = ctx_bad ctx \<and>
     rc_same E (ctx_heap ctx) (ctx_heap ctx') \<and> mem_mono (rc_mem (ctx_heap ctx)) (rc_mem (ctx_heap ctx')) \<and>
     (hmap' = None) = (hmap = None)"

lemma ctx_kept_refl [simp]: "ctx_kept ctx hmap ctx hmap E"
  by (simp add: ctx_kept_def)

lemma ctx_kept_trans: "ctx_kept c h c1 h1 E \<Longrightarrow> ctx_kept c1 h1 c2 h2 E \<Longrightarrow> ctx_kept c h c2 h2 E"
  by (auto simp: ctx_kept_def intro: rc_same_trans mem_mono_trans)

lemma make_room_ok:
  assumes "ctx_inv ctx hmap L E"
  obtains ctx' hmap' L' where "hd_table_make_room ctx hmap room = Some (ctx', hmap')" "ctx_inv ctx' hmap' L' E"
    "ctx_fields ctx' L' = (if room \<le> hd_table_bufsize_max ctx then table_cut (hd_table_bufsize_max ctx - room) (ctx_fields ctx L) else [])"
    "ctx_kept ctx hmap ctx' hmap' E"
  using assms
proof (induction L arbitrary: ctx hmap thesis rule: rev_induct)
  case Nil
  have "rb_len (hd_table ctx) = 0" using ctx_invD(1) [OF Nil(2)] by (simp add: ring_rep_def)
  then have "hd_table_make_room ctx hmap room = Some (ctx, hmap)" by (subst hd_table_make_room.simps) simp
  then show ?case using Nil(1) [of ctx hmap "[]"] Nil(2) by (simp add: ctx_fields_def)
next
  case (snoc x L)
  let ?m = "hd_table_bufsize_max ctx"
  have len: "0 < rb_len (hd_table ctx)" using ctx_invD(1) [OF snoc(3)] by (simp add: ring_rep_def)
  have sz: "hd_table_bufsize ctx = table_size (ctx_fields ctx (L @ [x]))" by (rule ctx_invD(6) [OF snoc(3)])
  show ?case
  proof (cases "hd_table_bufsize ctx + room > ?m")
    case False
    then have "hd_table_make_room ctx hmap room = Some (ctx, hmap)" by (subst hd_table_make_room.simps) simp
    moreover have "table_cut (?m - room) (ctx_fields ctx (L @ [x])) = ctx_fields ctx (L @ [x])"
      using False sz by (intro table_cut_all) simp
    ultimately show ?thesis using snoc(2) [of ctx hmap "L @ [x]"] snoc(3) False by simp
  next
    case True
    show ?thesis
    proof (rule evict_ok [OF snoc(3)])
      fix ctx1 hmap1
      assume ev: "hd_table_evict ctx hmap = Some (ctx1, hmap1)" "ctx_inv ctx1 hmap1 L E" "ctx_fields ctx1 L = ctx_fields ctx L"
        "hd_table_bufsize_max ctx1 = hd_table_bufsize_max ctx" "ctx_bad ctx1 = ctx_bad ctx"
        "rc_same E (ctx_heap ctx) (ctx_heap ctx1)" "rc_mem (ctx_heap ctx1) = rc_mem (ctx_heap ctx)" "(hmap1 = None) = (hmap = None)"
      have k: "ctx_kept ctx hmap ctx1 hmap1 E" using ev by (simp add: ctx_kept_def)
      have st: "hd_table_make_room ctx hmap room = hd_table_make_room ctx1 hmap1 room"
        using True len ev(1) by (subst hd_table_make_room.simps) simp
      have cut: "room \<le> ?m \<Longrightarrow> table_cut (?m - room) (ctx_fields ctx (L @ [x])) = table_cut (?m - room) (ctx_fields ctx L)"
        using True sz table_cut_last [of "?m - room" "ctx_fields ctx L"] by (simp add: ctx_fields_def)
      show ?thesis
      proof (rule snoc(1) [OF _ ev(2)])
        fix ctx' hmap' L'
        assume r: "hd_table_make_room ctx1 hmap1 room = Some (ctx', hmap')" "ctx_inv ctx' hmap' L' E"
          "ctx_fields ctx' L' = (if room \<le> hd_table_bufsize_max ctx1 then table_cut (hd_table_bufsize_max ctx1 - room) (ctx_fields ctx1 L) else [])"
          "ctx_kept ctx1 hmap1 ctx' hmap' E"
        show ?thesis
          by (rule snoc(2) [of ctx' hmap' L']) (use st cut ev(3,4) r in \<open>simp_all add: ctx_kept_trans [OF k]\<close>)
      qed
    qed
  qed
qed

lemma rc_live_mono: "rc_live M p \<Longrightarrow> M \<subseteq># N \<Longrightarrow> rc_live N p"
  by (auto simp: rc_live_def dest: mset_subset_eqD split: rcptr.splits)

lemma rc_same_live: "rc_same M h h' \<Longrightarrow> rc_live M p \<Longrightarrow> rc_bytes h' p = rc_bytes h p"
  by (cases p) (auto simp: rc_same_def rc_live_def rc_static_bytes)

lemma rc_mem_irrelevant [simp]:
  "rc_get (h\<lparr>rc_mem := m\<rparr>) p = rc_get h p" "rc_bytes (h\<lparr>rc_mem := m\<rparr>) p = rc_bytes h p"
  "rc_ok (h\<lparr>rc_mem := m\<rparr>) M = rc_ok h M" "ent_bytes (h\<lparr>rc_mem := m\<rparr>) e = ent_bytes h e"
proof -
  show g: "rc_get (h\<lparr>rc_mem := m\<rparr>) p = rc_get h p" for p by (cases p) simp_all
  show "rc_bytes (h\<lparr>rc_mem := m\<rparr>) p = rc_bytes h p" "ent_bytes (h\<lparr>rc_mem := m\<rparr>) e = ent_bytes h e"
    by (simp_all add: rc_bytes_def ent_bytes_def g)
  show "rc_ok (h\<lparr>rc_mem := m\<rparr>) M = rc_ok h M" by (simp add: rc_ok_def rc_cell_def)
qed

lemma ctx_inv_mem: "ctx_inv (ctx\<lparr>ctx_heap := (ctx_heap ctx)\<lparr>rc_mem := m\<rparr>\<rparr>) hmap L E = ctx_inv ctx hmap L E"
  by (simp add: ctx_inv_def ctx_fields_def entry_ok_def)

text \<open>References may come and go as long as those of the entries keep their contents.\<close>

lemma ctx_inv_heap:
  assumes inv: "ctx_inv ctx hmap L E" and h: "rc_ok h (E' + ent_refs (ctx_entries ctx) L)"
    "rc_same (ent_refs (ctx_entries ctx) L) (ctx_heap ctx) h" and n: "ctx_entry_new ctx \<le> n"
  shows "ctx_inv (ctx\<lparr>ctx_heap := h, ctx_entry_new := n\<rparr>) hmap L E'"
    "ctx_fields (ctx\<lparr>ctx_heap := h, ctx_entry_new := n\<rparr>) L = ctx_fields ctx L"
proof -
  note i = ctx_invD [OF inv]
  have bt: "ent_bytes h (the (ctx_entries ctx a)) = ent_bytes (ctx_heap ctx) (the (ctx_entries ctx a))" if "a \<in> set L" for a
    using ent_bytes_same [OF h(2)] ent_refs_member [OF that] by simp
  then show f: "ctx_fields (ctx\<lparr>ctx_heap := h, ctx_entry_new := n\<rparr>) L = ctx_fields ctx L" by (simp add: ctx_fields_def)
  have "entry_ok (hmap \<noteq> None) h (the (ctx_entries ctx a))" if "a \<in> set L" for a
    using i(9) [OF that] bt [OF that] by (simp add: entry_ok_def)
  then show "ctx_inv (ctx\<lparr>ctx_heap := h, ctx_entry_new := n\<rparr>) hmap L E'"
    using i h(1) f less_le_trans [OF i(4) n] by (simp add: ctx_inv_def)
qed

lemma entry_init_ok:
  assumes "rc_ok h M" "rc_live M (hd_name nv)" "rc_live M (hd_value nv)"
  obtains h' where "nghttp2_hd_entry_init h nv =
      Some (\<lparr>ent_nv = nv, ent_cnv = \<lparr>nv_name = rc_bytes h (hd_name nv), nv_value = rc_bytes h (hd_value nv), nv_flags = hd_flags nv\<rparr>,
             ent_next = None, ent_seq = 0, ent_hash = 0\<rparr>, h')"
    "rc_ok h' (add_mset (hd_name nv) (add_mset (hd_value nv) M))" "\<And>q. rc_bytes h' q = rc_bytes h q" "rc_mem h' = rc_mem h"
proof -
  have g: "nghttp2_rcbuf_get_buf h p = Some (rc_bytes h p)" if "rc_live M p" for p
    using rc_ok_get [OF assms(1) that] by (metis (no_types, lifting) nghttp2_rcbuf_get_buf_def option.simps(9))
  obtain h1 where h1: "nghttp2_rcbuf_incref h (hd_name nv) = Some h1" "rc_ok h1 (add_mset (hd_name nv) M)"
    "\<And>q. rc_bytes h1 q = rc_bytes h q" "rc_mem h1 = rc_mem h"
    using incref_ok [OF assms(1,2)] by metis
  have "rc_live (add_mset (hd_name nv) M) (hd_value nv)" using assms(3) by (rule rc_live_mono) simp
  then obtain h2 where h2: "nghttp2_rcbuf_incref h1 (hd_value nv) = Some h2"
    "rc_ok h2 (add_mset (hd_value nv) (add_mset (hd_name nv) M))" "\<And>q. rc_bytes h2 q = rc_bytes h1 q" "rc_mem h2 = rc_mem h1"
    using incref_ok [OF h1(2)] by metis
  show ?thesis
    by (rule that [of h2]) (use g [OF assms(2)] g [OF assms(3)] h1 h2 in \<open>simp_all add: nghttp2_hd_entry_init_def add_mset_commute\<close>)
qed

text \<open>The invariant after a new entry is in place.\<close>

lemma push_inv:
  assumes inv: "ctx_inv ctx hmap L E" and a: "a = ctx_entry_new ctx" and e: "ent_nv e = nv" "ent_seq e = next_seq ctx"
    and ok: "entry_ok (hmap \<noteq> None) (ctx_heap ctx) e"
    and h: "rc_ok h (add_mset (hd_name nv) (add_mset (hd_value nv) (E + ent_refs (ctx_entries ctx) L)))"
      "\<And>q. rc_bytes h q = rc_bytes (ctx_heap ctx) q"
    and rb: "ring_rep rb (a # L)"
    and hm: "\<forall>m. hmap' = Some m \<longrightarrow> map_ok m ((ctx_entries ctx)(a \<mapsto> e)) (a # L)" "(hmap' = None) = (hmap = None)"
  defines "ctx' \<equiv> ctx\<lparr>hd_table := rb, ctx_heap := h, ctx_entries := (ctx_entries ctx)(a \<mapsto> e), ctx_entry_new := a + 1,
      next_seq := next_seq ctx + 1, hd_table_bufsize := hd_table_bufsize ctx + field_room (ent_bytes (ctx_heap ctx) e)\<rparr>"
  shows "ctx_inv ctx' hmap' (a # L) E" "ctx_fields ctx' (a # L) = ent_bytes (ctx_heap ctx) e # ctx_fields ctx L"
proof -
  note i = ctx_invD [OF inv]
  have na: "a \<notin> set L" using i(4) a by auto
  have bt: "ent_bytes h x = ent_bytes (ctx_heap ctx) x" for x by (simp add: ent_bytes_def h(2))
  have old: "ctx_entries ctx' x = ctx_entries ctx x" if "x \<in> set L" for x using that na by (auto simp: ctx'_def)
  have new: "ctx_entries ctx' a = Some e" by (simp add: ctx'_def)
  show f: "ctx_fields ctx' (a # L) = ent_bytes (ctx_heap ctx) e # ctx_fields ctx L"
    using na by (auto simp: ctx_fields_def ctx'_def bt)
  have "ent_refs (ctx_entries ctx') L = ent_refs (ctx_entries ctx) L" using old by (intro ent_refs_cong) simp
  then have "ent_refs (ctx_entries ctx') (a # L) = {#hd_name nv, hd_value nv#} + ent_refs (ctx_entries ctx) L"
    using new e(1) by simp
  then have "rc_ok (ctx_heap ctx') (E + ent_refs (ctx_entries ctx') (a # L))"
    using h(1) by (simp add: ctx'_def add_mset_commute)
  moreover have "hd_table_bufsize ctx' = table_size (ctx_fields ctx' (a # L))" using i(6) f by (simp add: ctx'_def)
  moreover have "ent_seq (the (ctx_entries ctx' ((a # L) ! k))) = next_seq ctx' - 1 - of_nat k" if "k < length (a # L)" for k
  proof (cases k)
    case (Suc j)
    then show ?thesis using i(8) [of j] old [of "L ! j"] that by (simp add: ctx'_def)
  qed (simp add: new e(2) ctx'_def)
  moreover have "entry_ok (hmap' \<noteq> None) (ctx_heap ctx') (the (ctx_entries ctx' x))" if "x \<in> set (a # L)" for x
    using that i(9) [of x] ok hm(2) old [of x] new by (auto simp: entry_ok_def bt) (auto simp: ctx'_def bt)
  moreover have "x < ctx_entry_new ctx'" if "x \<in> set (a # L)" for x using that i(4) [of x] a by (auto simp: ctx'_def)
  moreover have "dom (ctx_entries ctx') = set (a # L)" using i(3) by (auto simp: ctx'_def)
  moreover have "\<forall>m. hmap' = Some m \<longrightarrow> map_ok m (ctx_entries ctx') (a # L)" 
    using hm(1) by (simp add: ctx'_def)
  ultimately show "ctx_inv ctx' hmap' (a # L) E"
    using rb i(2,7) na unfolding ctx_inv_def by (simp add: ctx'_def)
qed

lemma insert_map_ok:
  assumes hm: "\<forall>m. hmap = Some m \<longrightarrow> map_ok m es L" and a: "a \<notin> set L" and e: "ent_next e = None"
  obtains hmap' nx where "(case hmap of None \<Rightarrow> Some (None, es(a \<mapsto> e))
      | Some m \<Rightarrow> map_option (apfst Some) (hd_map_insert m (es(a \<mapsto> e)) a)) = Some (hmap', es(a \<mapsto> e\<lparr>ent_next := nx\<rparr>))"
    "\<forall>m. hmap' = Some m \<longrightarrow> map_ok m (es(a \<mapsto> e\<lparr>ent_next := nx\<rparr>)) (a # L)" "(hmap' = None) = (hmap = None)"
proof (cases hmap)
  case None
  have "e\<lparr>ent_next := None\<rparr> = e" using e by simp
  then show ?thesis using that [of None None] None by simp
next
  case (Some m)
  have m: "map_ok m (es(a \<mapsto> e)) L" by (rule map_ok_frame [of _ es]) (use hm Some a in auto)
  show ?thesis
    by (rule map_insert_ok [OF m a, of e]) (use e that Some in auto)
qed

lemma insert_ok:
  assumes inv: "ctx_inv ctx hmap L E" and live: "rc_live E (hd_name nv)" "rc_live E (hd_value nv)"
    and f: "f = (rc_bytes (ctx_heap ctx) (hd_name nv), rc_bytes (ctx_heap ctx) (hd_value nv))"
    and tok: "hd_token nv = lookup_token (fst f)" "hd_flags nv = NGHTTP2_NV_FLAG_NONE"
    and hash: "hmap \<noteq> None \<Longrightarrow> hash = token_hash (hd_token nv) (fst f)"
    and big: "length L < 2 ^ 63"
  obtains ctx' where "hd_table_insert ctx nv hmap hash (field_room f) = Some (Inl ERR_NOMEM, ctx', hmap)"
      "ctx_inv ctx' hmap L E" "ctx_kept ctx hmap ctx' hmap E" "\<not> mem_reliable (rc_mem (ctx_heap ctx))"
      "ctx_fields ctx' L = ctx_fields ctx L"
    | ctx' hmap' a where "hd_table_insert ctx nv hmap hash (field_room f) = Some (Inr (), ctx', hmap')"
      "ctx_inv ctx' hmap' (a # L) E" "ctx_kept ctx hmap ctx' hmap' E" "ctx_fields ctx' (a # L) = f # ctx_fields ctx L"
proof -
  note i = ctx_invD [OF inv]
  let ?mem1 = "snd (mem_call (rc_mem (ctx_heap ctx)))"
  let ?h = "(ctx_heap ctx)\<lparr>rc_mem := ?mem1\<rparr>" and ?a = "ctx_entry_new ctx" and ?R = "ent_refs (ctx_entries ctx) L"
  let ?e = "\<lparr>ent_nv = nv, ent_cnv = \<lparr>nv_name = fst f, nv_value = snd f, nv_flags = hd_flags nv\<rparr>,
      ent_next = None, ent_seq = 0, ent_hash = 0\<rparr>"
  note mem = mem_call_reliable [of "rc_mem (ctx_heap ctx)"]
  show ?thesis
  proof (cases "fst (mem_call (rc_mem (ctx_heap ctx)))")
    case False
    show ?thesis
      by (rule that(1) [of "ctx\<lparr>ctx_heap := ?h\<rparr>"])
         (use False mem inv in \<open>auto simp: hd_table_insert_def case_prod_beta Let_def ctx_inv_mem ctx_kept_def rc_same_def ctx_fields_def\<close>)
  next
    case ok: True
    have lv: "rc_live (E + ?R) (hd_name nv)" "rc_live (E + ?R) (hd_value nv)" using live by (auto elim!: rc_live_mono)
    obtain h1 where h1: "nghttp2_hd_entry_init ?h nv = Some (?e, h1)"
      "rc_ok h1 (add_mset (hd_name nv) (add_mset (hd_value nv) (E + ?R)))"
      "\<And>q. rc_bytes h1 q = rc_bytes (ctx_heap ctx) q" "rc_mem h1 = ?mem1"
      using entry_init_ok [of ?h "E + ?R" nv] i(5) lv f by auto
    have na: "?a \<notin> set L" "ctx_entries ctx ?a = None" using i(3,4) by (auto simp: domIff [symmetric])
    obtain rbr mem2 where pf: "hd_ringbuf_push_front ?mem1 (hd_table ctx) ?a = (rbr, mem2)" by fastforce
    note push = ring_push [OF i(1) big, of ?mem1 ?a, unfolded pf]
    show ?thesis
    proof (cases rbr)
      case (Inl err)
      obtain h3 where h3: "nghttp2_hd_entry_free (h1\<lparr>rc_mem := mem2\<rparr>) ?e = Some h3" "rc_ok h3 (E + ?R)"
        "rc_same (E + ?R) (h1\<lparr>rc_mem := mem2\<rparr>) h3" "rc_mem h3 = mem2"
        using entry_free_ok [of "h1\<lparr>rc_mem := mem2\<rparr>" ?e "E + ?R"] h1(2) by auto
      have same: "rc_same (E + ?R) (ctx_heap ctx) h3" using h3(3) h1(3) by (simp add: rc_same_def)
      have "hd_table_insert ctx nv hmap hash (field_room f) = Some (Inl ERR_NOMEM, ctx\<lparr>ctx_heap := h3, ctx_entry_new := ?a + 1\<rparr>, hmap)"
        using ok h1(1) pf Inl push h3(1) na(2)
        by (simp add: hd_table_insert_def case_prod_beta Let_def ctx_entry_free_def fun_upd_idem)
      then show ?thesis
        by (rule that(1)) (use ctx_inv_heap [OF inv h3(2) rc_same_mono [OF same], of "?a + 1"] rc_same_mono [OF same, of E] h3(4) push Inl mem
              in \<open>auto simp: ctx_kept_def mem_mono_def\<close>)
    next
      case (Inr rb)
      let ?e1 = "?e\<lparr>ent_seq := next_seq ctx, ent_hash := hash\<rparr>"
      show ?thesis
      proof (rule insert_map_ok [OF i(10) na(1), of ?e1])
        fix hmap' nx
        let ?e2 = "?e1\<lparr>ent_next := nx\<rparr>"
        let ?ctx = "ctx\<lparr>hd_table := rb, ctx_heap := h1\<lparr>rc_mem := mem2\<rparr>, ctx_entries := (ctx_entries ctx)(?a \<mapsto> ?e2),
            ctx_entry_new := ?a + 1, next_seq := next_seq ctx + 1, hd_table_bufsize := hd_table_bufsize ctx + field_room f\<rparr>"
        assume ins: "(case hmap of None \<Rightarrow> Some (None, (ctx_entries ctx)(?a \<mapsto> ?e1))
            | Some m \<Rightarrow> map_option (apfst Some) (hd_map_insert m ((ctx_entries ctx)(?a \<mapsto> ?e1)) ?a)) =
              Some (hmap', (ctx_entries ctx)(?a \<mapsto> ?e2))"
          "\<forall>m. hmap' = Some m \<longrightarrow> map_ok m ((ctx_entries ctx)(?a \<mapsto> ?e2)) (?a # L)" "(hmap' = None) = (hmap = None)"
        have eb: "ent_bytes (ctx_heap ctx) ?e2 = f" by (simp add: ent_bytes_def f)
        have "entry_ok (hmap \<noteq> None) (ctx_heap ctx) ?e2" unfolding entry_ok_def eb using tok hash by simp
        note p = push_inv [OF inv refl _ _ this, of nv "h1\<lparr>rc_mem := mem2\<rparr>" rb hmap', unfolded eb]
        have "hd_table_insert ctx nv hmap hash (field_room f) = Some (Inr (), ?ctx, hmap')"
          using ok h1(1) pf Inr ins(1) by (cases hmap) (auto simp: hd_table_insert_def case_prod_beta Let_def)
        then show ?thesis
          by (rule that(2)) (use p h1 push Inr ins(2,3) mem in \<open>auto simp: ctx_kept_def rc_same_def mem_mono_def\<close>)
      qed simp
    qed
  qed
qed

lemma add_ok:
  assumes inv: "ctx_inv ctx hmap L E" and live: "rc_live E (hd_name nv)" "rc_live E (hd_value nv)"
    and f: "f = (rc_bytes (ctx_heap ctx) (hd_name nv), rc_bytes (ctx_heap ctx) (hd_value nv))"
    and tok: "hd_token nv = lookup_token (fst f)" "hd_flags nv = NGHTTP2_NV_FLAG_NONE"
    and hash: "hmap \<noteq> None \<Longrightarrow> hash = token_hash (hd_token nv) (fst f)"
  obtains ctx' hmap' L' where "add_hd_table_incremental ctx nv hmap hash = Some (Inl ERR_NOMEM, ctx', hmap')"
      "ctx_inv ctx' hmap' L' E" "ctx_kept ctx hmap ctx' hmap' E" "\<not> mem_reliable (rc_mem (ctx_heap ctx))"
      "table_size (ctx_fields ctx' L') \<le> hd_table_bufsize_max ctx"
    | ctx' hmap' L' where "add_hd_table_incremental ctx nv hmap hash = Some (Inr (), ctx', hmap')"
      "ctx_inv ctx' hmap' L' E" "ctx_kept ctx hmap ctx' hmap' E"
      "ctx_fields ctx' L' = table_cut (hd_table_bufsize_max ctx) (f # ctx_fields ctx L)"
proof -
  note i = ctx_invD [OF inv]
  have lv: "rc_live (E + N) (hd_name nv)" "rc_live (E + N) (hd_value nv)" for N using live by (auto elim!: rc_live_mono)
  obtain n where n: "rc_get (ctx_heap ctx) (hd_name nv) = Some n" "rc_len n = length (fst f)"
    using rc_ok_get [OF i(5) lv(1)] unfolding f fst_conv by metis
  obtain v where v: "rc_get (ctx_heap ctx) (hd_value nv) = Some v" "rc_len v = length (snd f)"
    using rc_ok_get [OF i(5) lv(2)] unfolding f snd_conv by metis
  let ?room = "field_room f" and ?m = "hd_table_bufsize_max ctx"
  have room: "entry_room (rc_len n) (rc_len v) = ?room" using n v by (simp add: field_room_def)
  show ?thesis
  proof (rule make_room_ok [OF inv, of ?room])
    fix ctx1 hmap1 L1
    assume mr: "hd_table_make_room ctx hmap ?room = Some (ctx1, hmap1)" "ctx_inv ctx1 hmap1 L1 E"
      "ctx_fields ctx1 L1 = (if ?room \<le> ?m then table_cut (?m - ?room) (ctx_fields ctx L) else [])"
      "ctx_kept ctx hmap ctx1 hmap1 E"
    have st: "add_hd_table_incremental ctx nv hmap hash =
        (if ?room > ?m then Some (Inr (), ctx1, hmap1) else hd_table_insert ctx1 nv hmap1 hash ?room)"
      using n(1) v(1) mr(1,4) by (simp add: add_hd_table_incremental_def room ctx_kept_def)
    have f1: "f = (rc_bytes (ctx_heap ctx1) (hd_name nv), rc_bytes (ctx_heap ctx1) (hd_value nv))"
      using mr(4) rc_same_live live unfolding ctx_kept_def f by auto
    have h1: "hmap1 \<noteq> None \<Longrightarrow> hash = token_hash (hd_token nv) (fst f)" using hash mr(4) by (auto simp: ctx_kept_def)
    show ?thesis
    proof (cases "?room \<le> ?m")
      case False
      then show ?thesis using that(2) [OF _ mr(2,4)] st mr(3) by simp
    next
      case True
      have big: "length L1 < 2 ^ 63"
        using table_size_length [of "ctx_fields ctx1 L1"] table_cut_size [of "?m - ?room" "ctx_fields ctx L"] mr(3) True i(7)
        by (simp add: ctx_fields_def)
      have st1: "add_hd_table_incremental ctx nv hmap hash = hd_table_insert ctx1 nv hmap1 hash ?room" using True st by simp
      have rel: "\<not> mem_reliable (rc_mem (ctx_heap ctx1)) \<Longrightarrow> \<not> mem_reliable (rc_mem (ctx_heap ctx))"
        using mr(4) by (auto simp: ctx_kept_def mem_mono_def)
      show ?thesis
      proof (rule insert_ok [OF mr(2) live f1 tok h1 big])
        fix ctx' assume r: "hd_table_insert ctx1 nv hmap1 hash ?room = Some (Inl ERR_NOMEM, ctx', hmap1)"
          "ctx_inv ctx' hmap1 L1 E" "ctx_kept ctx1 hmap1 ctx' hmap1 E" "\<not> mem_reliable (rc_mem (ctx_heap ctx1))"
          "ctx_fields ctx' L1 = ctx_fields ctx1 L1"
        have "table_size (ctx_fields ctx' L1) \<le> ?m"
          using table_cut_size [of "?m - ?room" "ctx_fields ctx L"] r(5) mr(3) True by simp
        then show ?thesis by (rule that(1) [rotated 4]) (use r st1 rel ctx_kept_trans [OF mr(4)] in auto)
      next
        fix ctx' hmap' a assume r: "hd_table_insert ctx1 nv hmap1 hash ?room = Some (Inr (), ctx', hmap')"
          "ctx_inv ctx' hmap' (a # L1) E" "ctx_kept ctx1 hmap1 ctx' hmap' E" "ctx_fields ctx' (a # L1) = f # ctx_fields ctx1 L1"
        show ?thesis by (rule that(2) [of ctx' hmap' "a # L1"]) (use r st1 ctx_kept_trans [OF mr(4)] mr(3) True in auto)
      qed
    qed
  qed
qed

section \<open>The table as the code has it\<close>

definition ctx_addrs :: "nghttp2_hd_context \<Rightarrow> nat list" where
  "ctx_addrs ctx = map (\<lambda>i. the (hd_ringbuf_get (hd_table ctx) i)) [0..<rb_len (hd_table ctx)]"

definition dyn_table :: "nghttp2_hd_context \<Rightarrow> field list" where
  "dyn_table ctx = ctx_fields ctx (ctx_addrs ctx)"

definition ctx_ok :: "nghttp2_hd_context \<Rightarrow> nghttp2_hd_map option \<Rightarrow> rcptr multiset \<Rightarrow> bool" where
  "ctx_ok ctx hmap E \<longleftrightarrow> ctx_inv ctx hmap (ctx_addrs ctx) E \<and> table_size (dyn_table ctx) \<le> hd_table_bufsize_max ctx"

text \<open>The index space of HPACK: the static table followed by the dynamic one.\<close>

definition static_fields :: "field list" where
  "static_fields = map (\<lambda>e. (se_name e, se_value e)) static_table"

lemma length_static_fields [simp]: "length static_fields = NGHTTP2_STATIC_TABLE_LENGTH"
  by (simp add: static_fields_def)

lemma ring_rep_addrs: "ring_rep (hd_table ctx) L \<Longrightarrow> ctx_addrs ctx = L"
  by (auto simp: ring_rep_def ctx_addrs_def intro!: nth_equalityI)

lemma ctx_inv_table: "ctx_inv ctx hmap L E \<Longrightarrow> ctx_addrs ctx = L \<and> dyn_table ctx = ctx_fields ctx L"
  using ring_rep_addrs [OF ctx_invD(1)] by (simp add: dyn_table_def)

lemma ctx_inv_ok: "ctx_inv ctx hmap L E \<Longrightarrow> table_size (ctx_fields ctx L) \<le> hd_table_bufsize_max ctx \<Longrightarrow> ctx_ok ctx hmap E"
  using ctx_inv_table [of ctx hmap L E] by (simp add: ctx_ok_def)

lemma ctx_ok_inv: "ctx_ok ctx hmap E \<Longrightarrow> ctx_inv ctx hmap (ctx_addrs ctx) E"
  by (simp add: ctx_ok_def)

lemma ctx_okD:
  assumes "ctx_ok ctx hmap E"
  shows "rb_len (hd_table ctx) = length (dyn_table ctx)" "hd_table_bufsize ctx = table_size (dyn_table ctx)"
    "table_size (dyn_table ctx) \<le> hd_table_bufsize_max ctx" "hd_table_bufsize_max ctx < 2 ^ 32"
    "length (dyn_table ctx) < 2 ^ 27"
proof -
  note i = ctx_invD [OF ctx_ok_inv [OF assms]]
  show "rb_len (hd_table ctx) = length (dyn_table ctx)" using i(1) by (simp add: dyn_table_def ctx_fields_def ring_rep_def)
  show "hd_table_bufsize ctx = table_size (dyn_table ctx)" "hd_table_bufsize_max ctx < 2 ^ 32" using i(6,7) by (simp_all add: dyn_table_def)
  show "table_size (dyn_table ctx) \<le> hd_table_bufsize_max ctx" using assms by (simp add: ctx_ok_def)
  then show "length (dyn_table ctx) < 2 ^ 27" using table_size_length [of "dyn_table ctx"] i(7) by simp
qed

lemma ctx_ok_add:
  assumes ok: "ctx_ok ctx hmap E" and live: "rc_live E (hd_name nv)" "rc_live E (hd_value nv)"
    and f: "f = (rc_bytes (ctx_heap ctx) (hd_name nv), rc_bytes (ctx_heap ctx) (hd_value nv))"
    and tok: "hd_token nv = lookup_token (fst f)" "hd_flags nv = NGHTTP2_NV_FLAG_NONE"
    and hash: "hmap \<noteq> None \<Longrightarrow> hash = token_hash (hd_token nv) (fst f)"
  obtains ctx' hmap' where "add_hd_table_incremental ctx nv hmap hash = Some (Inl ERR_NOMEM, ctx', hmap')"
      "ctx_ok ctx' hmap' E" "ctx_kept ctx hmap ctx' hmap' E" "\<not> mem_reliable (rc_mem (ctx_heap ctx))"
    | ctx' hmap' where "add_hd_table_incremental ctx nv hmap hash = Some (Inr (), ctx', hmap')"
      "ctx_ok ctx' hmap' E" "ctx_kept ctx hmap ctx' hmap' E"
      "dyn_table ctx' = table_cut (hd_table_bufsize_max ctx) (f # dyn_table ctx)"
proof (rule add_ok [OF ctx_ok_inv [OF ok] live f tok hash])
  fix ctx' hmap' L'
  assume r: "add_hd_table_incremental ctx nv hmap hash = Some (Inl ERR_NOMEM, ctx', hmap')"
    "ctx_inv ctx' hmap' L' E" "ctx_kept ctx hmap ctx' hmap' E" "\<not> mem_reliable (rc_mem (ctx_heap ctx))"
    "table_size (ctx_fields ctx' L') \<le> hd_table_bufsize_max ctx"
  show thesis by (rule that(1) [OF r(1) ctx_inv_ok [OF r(2)] r(3,4)]) (use r(3,5) in \<open>simp add: ctx_kept_def\<close>)
next
  fix ctx' hmap' L'
  assume r: "add_hd_table_incremental ctx nv hmap hash = Some (Inr (), ctx', hmap')"
    "ctx_inv ctx' hmap' L' E" "ctx_kept ctx hmap ctx' hmap' E"
    "ctx_fields ctx' L' = table_cut (hd_table_bufsize_max ctx) (f # ctx_fields ctx (ctx_addrs ctx))"
  show thesis
    by (rule that(2) [OF r(1) ctx_inv_ok [OF r(2)] r(3)], unfold r(4))
       (use r(3,4) ctx_inv_table [OF r(2)] table_cut_size in \<open>simp_all add: ctx_kept_def dyn_table_def del: table_cut.simps\<close>)
qed auto

text \<open>Changing the maximum size: the table is cut to it.\<close>

lemma ctx_ok_shrink:
  assumes ok: "ctx_ok ctx hmap E" and m: "m < 2 ^ 32"
  obtains ctx' hmap' where "hd_context_shrink_table_size (ctx\<lparr>hd_table_bufsize_max := m\<rparr>) hmap = Some (ctx', hmap')"
    "ctx_ok ctx' hmap' E" "ctx_kept (ctx\<lparr>hd_table_bufsize_max := m\<rparr>) hmap ctx' hmap' E" "dyn_table ctx' = table_cut m (dyn_table ctx)"
proof -
  let ?ctx = "ctx\<lparr>hd_table_bufsize_max := m\<rparr>"
  have inv: "ctx_inv ?ctx hmap (ctx_addrs ctx) E"
    using ctx_ok_inv [OF ok] m by (simp add: ctx_inv_def ctx_fields_def)
  have f: "ctx_fields ?ctx (ctx_addrs ctx) = dyn_table ctx" by (simp add: dyn_table_def ctx_fields_def)
  show ?thesis
  proof (rule make_room_ok [OF inv, of 0])
    fix ctx' hmap' L'
    assume r: "hd_table_make_room ?ctx hmap 0 = Some (ctx', hmap')" "ctx_inv ctx' hmap' L' E"
      "ctx_fields ctx' L' = (if 0 \<le> hd_table_bufsize_max ?ctx then table_cut (hd_table_bufsize_max ?ctx - 0) (ctx_fields ?ctx (ctx_addrs ctx)) else [])"
      "ctx_kept ?ctx hmap ctx' hmap' E"
    have cut: "ctx_fields ctx' L' = table_cut m (dyn_table ctx)" using r(3) f by simp
    show ?thesis
      by (rule that [of ctx' hmap'])
         (use r(1,2,4) cut ctx_inv_ok [OF r(2)] ctx_inv_table [OF r(2)] table_cut_size [of m "dyn_table ctx"] in
           \<open>auto simp: hd_context_shrink_table_size_def ctx_kept_def\<close>)
  qed
qed

lemma hd_context_init_ok:
  "case hd_context_init mem of
     (Inl e, mem') \<Rightarrow> e = ERR_NOMEM \<and> \<not> mem_reliable mem
   | (Inr ctx, mem') \<Rightarrow> (hmap \<noteq> None \<longrightarrow> hmap = Some hd_map_init) \<longrightarrow>
       ctx_ok ctx hmap {#} \<and> dyn_table ctx = [] \<and> hd_table_bufsize_max ctx = NGHTTP2_HD_DEFAULT_MAX_BUFFER_SIZE \<and>
       \<not> ctx_bad ctx \<and> mem_mono mem (rc_mem (ctx_heap ctx))"
proof -
  let ?n = "NGHTTP2_HD_DEFAULT_MAX_BUFFER_SIZE div NGHTTP2_HD_ENTRY_OVERHEAD"
  have n: "?n \<le> 2 ^ 63" by (simp add: NGHTTP2_HD_DEFAULT_MAX_BUFFER_SIZE_def NGHTTP2_HD_ENTRY_OVERHEAD_def)
  obtain r mem' where r: "hd_ringbuf_init mem ?n = (r, mem')" by fastforce
  note ri = ring_init [OF n, of mem, unfolded r]
  show ?thesis
  proof (cases r)
    case (Inr rb)
    let ?ctx = "\<lparr>hd_table = rb, ctx_heap = \<lparr>rc_mem = mem', rc_bufs = Map.empty, rc_next = 0\<rparr>,
        ctx_entries = Map.empty, ctx_entry_new = 0, hd_table_bufsize = 0,
        hd_table_bufsize_max = NGHTTP2_HD_DEFAULT_MAX_BUFFER_SIZE, next_seq = 0, ctx_bad = False\<rparr>"
    have rb: "ring_rep rb []" "mem_mono mem mem'" using ri Inr by auto
    have inv: "ctx_inv ?ctx hmap [] {#}" if "hmap \<noteq> None \<longrightarrow> hmap = Some hd_map_init"
      using rb(1) that
      by (auto simp: ctx_inv_def ctx_fields_def rc_ok_def rc_cell_def map_ok_def hd_map_init_def NGHTTP2_HD_DEFAULT_MAX_BUFFER_SIZE_def)
    show ?thesis using ctx_inv_ok [OF inv] ctx_inv_table [OF inv] r Inr rb(2)
      by (auto simp: hd_context_init_def ctx_fields_def)
  qed (use r ri in \<open>simp add: hd_context_init_def\<close>)
qed

section \<open>Reading the table\<close>

lemma ctx_ok_live: "ctx_ok ctx hmap E \<Longrightarrow> rc_ok (ctx_heap ctx) (E + ent_refs (ctx_entries ctx) (ctx_addrs ctx))"
  by (rule ctx_invD(5) [OF ctx_ok_inv])

lemma ctx_ok_get:
  assumes ok: "ctx_ok ctx hmap E" and i: "i < length (dyn_table ctx)"
  obtains a e where "hd_ringbuf_get (hd_table ctx) i = Some a" "a = ctx_addrs ctx ! i" "ctx_entries ctx a = Some e"
    "ent_bytes (ctx_heap ctx) e = dyn_table ctx ! i" "entry_ok (hmap \<noteq> None) (ctx_heap ctx) e"
    "rc_live (E + ent_refs (ctx_entries ctx) (ctx_addrs ctx)) (hd_name (ent_nv e))"
    "rc_live (E + ent_refs (ctx_entries ctx) (ctx_addrs ctx)) (hd_value (ent_nv e))"
    "ent_seq e = next_seq ctx - 1 - of_nat i"
proof -
  note inv = ctx_ok_inv [OF ok] 
  note d = ctx_invD [OF inv]
  have len: "i < length (ctx_addrs ctx)" using i by (simp add: dyn_table_def ctx_fields_def)
  let ?a = "ctx_addrs ctx ! i"
  have m: "?a \<in> set (ctx_addrs ctx)" using len by simp
  obtain e where e: "ctx_entries ctx ?a = Some e" using ctx_inv_entry [OF inv m] by auto
  note r = ent_refs_member [OF m, of "ctx_entries ctx"]
  show ?thesis
    by (rule that [of ?a e])
       (use d(1) d(8) [OF len] d(9) [OF m] len e i r rc_ok_live [OF d(5)] in
         \<open>auto simp: ring_rep_def dyn_table_def ctx_fields_def\<close>)
qed

lemma hd_table_get_ok:
  assumes ok: "ctx_ok ctx hmap E" and i: "i < NGHTTP2_STATIC_TABLE_LENGTH + length (dyn_table ctx)"
  obtains nv where "nghttp2_hd_table_get ctx i = Some nv"
    "(rc_bytes (ctx_heap ctx) (hd_name nv), rc_bytes (ctx_heap ctx) (hd_value nv)) = (static_fields @ dyn_table ctx) ! i"
    "hd_token nv = lookup_token (rc_bytes (ctx_heap ctx) (hd_name nv))" "hd_flags nv = NGHTTP2_NV_FLAG_NONE"
    "rc_live (E + ent_refs (ctx_entries ctx) (ctx_addrs ctx)) (hd_name nv)"
    "rc_live (E + ent_refs (ctx_entries ctx) (ctx_addrs ctx)) (hd_value nv)"
proof (cases "i < NGHTTP2_STATIC_TABLE_LENGTH")
  case True
  have t: "se_token (static_table ! i) = lookup_token (se_name (static_table ! i))"
    using static_tokens True by (simp add: list_all_length)
  show ?thesis
    by (rule that [of "\<lparr>hd_name = Rc_static_name i, hd_value = Rc_static_value i,
          hd_token = se_token (static_table ! i), hd_flags = NGHTTP2_NV_FLAG_NONE\<rparr>"])
       (use True t ctx_okD(1) [OF ok] in \<open>simp_all add: nghttp2_hd_table_get_def INDEX_RANGE_VALID_def rc_static_bytes static_fields_def
          nth_append rc_live_def\<close>)
next
  case False
  then have j: "i - NGHTTP2_STATIC_TABLE_LENGTH < length (dyn_table ctx)" using i by simp
  show ?thesis
  proof (rule ctx_ok_get [OF ok j])
    fix a e
    assume r: "hd_ringbuf_get (hd_table ctx) (i - NGHTTP2_STATIC_TABLE_LENGTH) = Some a" "ctx_entries ctx a = Some e"
      "ent_bytes (ctx_heap ctx) e = dyn_table ctx ! (i - NGHTTP2_STATIC_TABLE_LENGTH)" "entry_ok (hmap \<noteq> None) (ctx_heap ctx) e"
      "rc_live (E + ent_refs (ctx_entries ctx) (ctx_addrs ctx)) (hd_name (ent_nv e))"
      "rc_live (E + ent_refs (ctx_entries ctx) (ctx_addrs ctx)) (hd_value (ent_nv e))"
    have "hd_token (ent_nv e) = lookup_token (rc_bytes (ctx_heap ctx) (hd_name (ent_nv e)))"
      "hd_flags (ent_nv e) = NGHTTP2_NV_FLAG_NONE"
      using r(4) by (simp_all add: entry_ok_def ent_bytes_def)
    then show ?thesis
      by (intro that [of "ent_nv e"])
         (use r False i ctx_okD(1) [OF ok] in
           \<open>auto simp: nghttp2_hd_table_get_def INDEX_RANGE_VALID_def ent_bytes_def nth_append\<close>)
  qed
qed

section \<open>Search\<close>

text \<open>Entries of a consistent context match a field exactly if they have its name.\<close>

lemma entry_matches_name:
  assumes "entry_ok True h e" "es a = Some e" "token = lookup_token (nv_name nv)" "hash = token_hash token (nv_name nv)"
  shows "ent_matches es h nv token hash a \<longleftrightarrow> fst (ent_bytes h e) = nv_name nv"
  using assms lookup_token_inj [of "fst (ent_bytes h e)" "nv_name nv"]
  by (auto simp: ent_matches_def entry_ok_def)

lemma find_in_filter_set:
  "(\<And>a. a \<in> set L \<Longrightarrow> P a \<Longrightarrow> Q a) \<Longrightarrow> find_in P V name_only (filter Q L) res = find_in P V name_only L res"
  by (induction L arbitrary: res) auto

lemma map_find_ok:
  assumes ok: "ctx_ok ctx (Some hmap) E" and t: "token = lookup_token (nv_name nv)" "hash = token_hash token (nv_name nv)"
  defines "name_at \<equiv> \<lambda>i. fst (dyn_table ctx ! i) = nv_name nv" and "field_at \<equiv> \<lambda>i. dyn_table ctx ! i = (nv_name nv, nv_value nv)"
  shows "hd_map_find hmap (ctx_entries ctx) (ctx_heap ctx) nv token hash name_only =
     Some (case if name_only then None else find field_at [0..<length (dyn_table ctx)] of
             Some i \<Rightarrow> (Some (ctx_addrs ctx ! i), True)
           | None \<Rightarrow> (map_option ((!) (ctx_addrs ctx)) (find name_at [0..<length (dyn_table ctx)]), False))"
proof -
  let ?es = "ctx_entries ctx" and ?h = "ctx_heap ctx" and ?L = "ctx_addrs ctx"
  let ?P = "ent_matches ?es ?h nv token hash" and ?V = "ent_value_matches ?es ?h nv"
  note inv = ctx_ok_inv [OF ok]
  note d = ctx_invD [OF inv]
  have live: "rc_live (E + ent_refs ?es ?L) (hd_name (ent_nv e)) \<and> rc_live (E + ent_refs ?es ?L) (hd_value (ent_nv e))"
    if "a \<in> set ?L" "?es a = Some e" for a e
    using ent_refs_member [OF that(1), of ?es] that(2) rc_ok_live [OF d(5)] by auto
  have ent: "?P a \<longleftrightarrow> fst (ent_bytes ?h (the (?es a))) = nv_name nv" "?V a \<longleftrightarrow> snd (ent_bytes ?h (the (?es a))) = nv_value nv"
    "?P a \<Longrightarrow> ent_bucket ?es a = hd_bucket hash" if "a \<in> set ?L" for a
  proof -
    obtain e where e: "?es a = Some e" using ctx_inv_entry [OF inv \<open>a \<in> set ?L\<close>] by auto
    have eok: "entry_ok True ?h e" using d(9) [OF \<open>a \<in> set ?L\<close>] e by simp
    show p: "?P a \<longleftrightarrow> fst (ent_bytes ?h (the (?es a))) = nv_name nv" using entry_matches_name [OF eok, of ?es a] e t by simp
    show "?V a \<longleftrightarrow> snd (ent_bytes ?h (the (?es a))) = nv_value nv" using e by (simp add: ent_value_matches_def)
    assume "?P a"
    then show "ent_bucket ?es a = hd_bucket hash" using p e eok t by (simp add: ent_bucket_def entry_ok_def)
  qed
  have len: "length (dyn_table ctx) = length ?L" by (simp add: dyn_table_def ctx_fields_def)
  have nth: "dyn_table ctx ! i = ent_bytes ?h (the (?es (?L ! i)))" if "i < length ?L" for i
    using that by (simp add: dyn_table_def ctx_fields_def)
  have idx: "find Q ?L = map_option ((!) ?L) (find R [0..<length ?L])" if "\<And>i. i < length ?L \<Longrightarrow> Q (?L ! i) = R i" for Q R
  proof -
    have "find Q (map ((!) ?L) is) = map_option ((!) ?L) (find R is)" if "set is \<subseteq> {..<length ?L}" for "is"
      using that by (induction "is") (auto simp: \<open>\<And>i. i < length ?L \<Longrightarrow> Q (?L ! i) = R i\<close>)
    from this [of "[0..<length ?L]"] show ?thesis by (simp add: map_nth lessThan_atLeast0)
  qed
  have n: "find ?P ?L = map_option ((!) ?L) (find name_at [0..<length ?L])"
    by (rule idx) (simp add: ent nth name_at_def)
  have v: "find (\<lambda>a. ?P a \<and> ?V a) ?L = map_option ((!) ?L) (find field_at [0..<length ?L])"
    by (rule idx) (auto simp: ent nth field_at_def prod_eq_iff)
  have "links (ent_nexts ?es) (hmap ! hd_bucket hash) (filter (\<lambda>a. ent_bucket ?es a = hd_bucket hash) ?L)"
    using d(10) by (simp add: map_ok_def)
  then have "hd_map_find hmap ?es ?h nv token hash name_only =
      Some (find_in ?P ?V name_only (filter (\<lambda>a. ent_bucket ?es a = hd_bucket hash) ?L) None)"
    unfolding hd_map_find_def by (rule find_loop_links [OF _ d(5)]) (use live in auto)
  also have "find_in ?P ?V name_only (filter (\<lambda>a. ent_bucket ?es a = hd_bucket hash) ?L) None = find_in ?P ?V name_only ?L None"
    by (rule find_in_filter_set) (rule ent(3))
  finally show ?thesis
    unfolding len by (cases name_only) (auto simp: find_in_name_only find_in_value n v split: option.splits)
qed

text \<open>Search in the static table.\<close>

lemma static_loop_found:
  "sr_name_value_match (search_static_loop nv token i) \<Longrightarrow>
   \<exists>j. sr_index (search_static_loop nv token i) = int j \<and> j < NGHTTP2_STATIC_TABLE_LENGTH \<and>
     se_token (static_table ! j) = token \<and> se_value (static_table ! j) = nv_value nv"
proof (induction nv token i rule: search_static_loop.induct)
  case (1 nv token i)
  let ?g = "int i \<le> NGHTTP2_TOKEN_WWW_AUTHENTICATE \<and> se_token (static_table ! i) = token"
  let ?v = "length (se_value (static_table ! i)) = length (nv_value nv) \<and>
      take (length (nv_value nv)) (se_value (static_table ! i)) = nv_value nv"
  note step = search_static_loop.simps [of nv token i]
  have g: ?g by (rule ccontr) (use "1.prems" step in auto)
  show ?case
  proof (cases ?v)
    case True
    then have "se_value (static_table ! i) = nv_value nv" by auto
    then show ?thesis using g True by (auto simp: step NGHTTP2_STATIC_TABLE_LENGTH_def)
  next
    case False
    have rec: "search_static_loop nv token i = search_static_loop nv token (i + 1)"
      by (subst step, subst if_P [OF g], subst if_not_P [OF False], rule refl)
    show ?thesis using "1.IH" [OF g False] "1.prems" unfolding rec .
  qed
qed

lemma static_loop_missed:
  "\<not> sr_name_value_match (search_static_loop nv token i) \<Longrightarrow>
   sr_index (search_static_loop nv token i) = token \<and>
   (\<forall>j. i \<le> j \<longrightarrow> j < NGHTTP2_STATIC_TABLE_LENGTH \<longrightarrow> (\<forall>k. i \<le> k \<longrightarrow> k \<le> j \<longrightarrow> se_token (static_table ! k) = token) \<longrightarrow>
      se_value (static_table ! j) \<noteq> nv_value nv)"
proof (induction nv token i rule: search_static_loop.induct)
  case (1 nv token i)
  let ?g = "int i \<le> NGHTTP2_TOKEN_WWW_AUTHENTICATE \<and> se_token (static_table ! i) = token"
  let ?v = "length (se_value (static_table ! i)) = length (nv_value nv) \<and>
      take (length (nv_value nv)) (se_value (static_table ! i)) = nv_value nv"
  note step = search_static_loop.simps [of nv token i]
  show ?case
  proof (cases ?g)
    case True
    have v: "\<not> ?v" by (rule notI) (use "1.prems" True step in simp)
    have rec: "search_static_loop nv token i = search_static_loop nv token (i + 1)" 
      by (subst step, subst if_P [OF True], subst if_not_P [OF v], rule refl)
    have ih: "sr_index (search_static_loop nv token (i + 1)) = token"
      "\<And>j. i + 1 \<le> j \<Longrightarrow> j < NGHTTP2_STATIC_TABLE_LENGTH \<Longrightarrow> (\<forall>k. i + 1 \<le> k \<longrightarrow> k \<le> j \<longrightarrow> se_token (static_table ! k) = token) \<Longrightarrow>
        se_value (static_table ! j) \<noteq> nv_value nv"
      using "1.IH" [OF True v] "1.prems" unfolding rec by blast+
    have "se_value (static_table ! i) \<noteq> nv_value nv" using v by auto
    then show ?thesis using ih unfolding rec by (metis Suc_eq_plus1 Suc_leD not_less_eq_eq le_antisym)
  next
    case False
    have "search_static_loop nv token i = \<lparr>sr_index = token, sr_name_value_match = False\<rparr>"
      by (subst step, subst if_not_P [OF False], rule refl)
    moreover have "\<not> (i \<le> j \<and> j < NGHTTP2_STATIC_TABLE_LENGTH \<and> (\<forall>k. i \<le> k \<longrightarrow> k \<le> j \<longrightarrow> se_token (static_table ! k) = token))" for j
      using False by (auto simp: NGHTTP2_STATIC_TABLE_LENGTH_def)
    ultimately show ?thesis by auto
  qed
qed

lemma token_names_static:
  assumes "(name, token) \<in> set token_names" "token \<le> NGHTTP2_TOKEN_WWW_AUTHENTICATE"
  shows "\<exists>e \<in> set static_table. se_name e = name"
proof -
  have extra: False if "(name, token) \<in> set (map (\<lambda>(s, t). (ascii s, t)) extra)" "list_all (\<lambda>(s, t). NGHTTP2_TOKEN_WWW_AUTHENTICATE < t) extra" for extra
    using assms(2) that by (fastforce simp: list_all_iff)
  show ?thesis
    using assms(1) unfolding token_names_def set_append Un_iff
  proof (elim disjE)
    assume "(name, token) \<in> set (map (\<lambda>e. (se_name e, se_token e)) static_table)"
    then show ?thesis by (auto simp only: set_map prod.inject image_iff)
  qed (erule extra [THEN FalseE], simp)
qed

lemma static_name_token:
  assumes t: "token = lookup_token name" "0 \<le> token" "token \<le> NGHTTP2_TOKEN_WWW_AUTHENTICATE"
  shows "j < NGHTTP2_STATIC_TABLE_LENGTH \<Longrightarrow> se_token (static_table ! j) = token \<longleftrightarrow> se_name (static_table ! j) = name"
    and "nat token < NGHTTP2_STATIC_TABLE_LENGTH" "se_token (static_table ! nat token) = token"
proof -
  have tok: "se_token (static_table ! j) = lookup_token (se_name (static_table ! j))" if "j < NGHTTP2_STATIC_TABLE_LENGTH" for j
    using static_tokens that by (simp add: list_all_length)
  have known: "lookup_token name \<noteq> -1" using t(1,2) by linarith
  have inj: "lookup_token s = lookup_token name \<longleftrightarrow> s = name" for s
    using lookup_token_inj [of name s] known by metis
  show eq: "se_token (static_table ! j) = token \<longleftrightarrow> se_name (static_table ! j) = name" if "j < NGHTTP2_STATIC_TABLE_LENGTH" for j
    unfolding tok [OF that] t(1) by (rule inj)
  from known have "(name, token) \<in> set token_names" unfolding t(1) by (rule lookup_token_member)
  then obtain e where "e \<in> set static_table" "se_name e = name" using token_names_static t(3) by blast
  then obtain i where i: "i < length static_table" "se_name (static_table ! i) = name"
    by (metis in_set_conv_nth)
  have ti: "se_token (static_table ! i) = token" using eq [of i] i unfolding length_static_table by blast
  have le: "nat token \<le> i" using static_run(1) [OF i(1)] unfolding ti .
  show "nat token < NGHTTP2_STATIC_TABLE_LENGTH" using le_less_trans [OF le i(1)] unfolding length_static_table .
  show "se_token (static_table ! nat token) = token" using static_run(2) [OF i(1), of "nat token"] le unfolding ti by simp
qed

lemma search_static_ok:
  fixes name_only :: bool
  assumes t: "token = lookup_token (nv_name nv)" "0 \<le> token" "token \<le> NGHTTP2_TOKEN_WWW_AUTHENTICATE"
  defines "sr \<equiv> search_static_table nv token name_only"
  shows "\<exists>i < NGHTTP2_STATIC_TABLE_LENGTH. sr_index sr = int i \<and> fst (static_fields ! i) = nv_name nv \<and>
     (sr_name_value_match sr \<longleftrightarrow> \<not> name_only \<and> (nv_name nv, nv_value nv) \<in> set static_fields) \<and>
     (sr_name_value_match sr \<longrightarrow> static_fields ! i = (nv_name nv, nv_value nv))"
proof -
  note nt = static_name_token [OF t]
  have sf: "static_fields ! i = (se_name (static_table ! i), se_value (static_table ! i))" if "i < NGHTTP2_STATIC_TABLE_LENGTH" for i
    using that by (simp add: static_fields_def)
  have first: "fst (static_fields ! nat token) = nv_name nv" using nt sf [of "nat token"] by simp
  show ?thesis
  proof (cases "name_only")
    case True
    then show ?thesis using first nt(2) t(2) by (intro exI [of _ "nat token"]) (simp add: sr_def search_static_table_def)
  next
    case False
    then have sr: "sr = search_static_loop nv token (nat token)" by (simp add: sr_def search_static_table_def)
    show ?thesis
    proof (cases "sr_name_value_match sr")
      case True
      then obtain j where j: "sr_index sr = int j" "j < NGHTTP2_STATIC_TABLE_LENGTH" "se_token (static_table ! j) = token"
        "se_value (static_table ! j) = nv_value nv" using static_loop_found sr by blast
      then have "static_fields ! j = (nv_name nv, nv_value nv)" using nt(1) [of j] sf [of j] by simp
      moreover from this have "(nv_name nv, nv_value nv) \<in> set static_fields" using j(2) by (metis nth_mem length_static_fields)
      ultimately show ?thesis using j True False by auto
    next
      case miss: False
      note m = static_loop_missed [of nv token "nat token", folded sr, OF miss]
      have "(nv_name nv, nv_value nv) \<notin> set static_fields"
      proof
        assume "(nv_name nv, nv_value nv) \<in> set static_fields"
        then obtain j where j: "j < NGHTTP2_STATIC_TABLE_LENGTH" "static_fields ! j = (nv_name nv, nv_value nv)"
          by (metis in_set_conv_nth length_static_fields)
        then have tj: "se_token (static_table ! j) = token" "se_value (static_table ! j) = nv_value nv"
          using nt(1) [of j] sf [of j] by auto
        have "nat token \<le> j" "\<And>k. nat token \<le> k \<Longrightarrow> k \<le> j \<Longrightarrow> se_token (static_table ! k) = token"
          using static_run [of j] j(1) tj(1) by auto
        then show False using m j(1) tj(2) by blast
      qed
      then show ?thesis using m miss first nt(2) t(2) by (intro exI [of _ "nat token"]) auto
    qed
  qed
qed

lemma find_upt: "find P [0..<n] = Some i \<Longrightarrow> i < n \<and> P i" "find P [0..<n] = None \<longleftrightarrow> (\<forall>i < n. \<not> P i)"
  by (auto simp: find_Some_iff find_None_iff)

lemma search_index:
  assumes "ctx_ok ctx hmap E" "i < length (dyn_table ctx)"
  obtains e where "ctx_entries ctx (ctx_addrs ctx ! i) = Some e"
    "uint (next_seq ctx - 1 - ent_seq e + of_nat NGHTTP2_STATIC_TABLE_LENGTH) = int (NGHTTP2_STATIC_TABLE_LENGTH + i)"
proof (rule ctx_ok_get [OF assms])
  fix a e
  assume e: "a = ctx_addrs ctx ! i" "ctx_entries ctx a = Some e" "ent_seq e = next_seq ctx - 1 - of_nat i"
  have "next_seq ctx - 1 - ent_seq e + of_nat NGHTTP2_STATIC_TABLE_LENGTH = of_nat (NGHTTP2_STATIC_TABLE_LENGTH + i)"
    using e(3) by simp
  moreover have "NGHTTP2_STATIC_TABLE_LENGTH + i < 2 ^ 32"
    using assms(2) ctx_okD(5) [OF assms(1)] by (simp add: NGHTTP2_STATIC_TABLE_LENGTH_def)
  ultimately have "uint (next_seq ctx - 1 - ent_seq e + of_nat NGHTTP2_STATIC_TABLE_LENGTH) = int (NGHTTP2_STATIC_TABLE_LENGTH + i)"
    by (simp only: uint_nat unat_of_nat_u32)
  then show thesis using that e by blast
qed

text \<open>
  What a search gives for a field in the index space \<open>full\<close>: an index of the field if it is there and may
  be used, otherwise an index of its name, otherwise -1.
\<close>

definition search_post :: "field list \<Rightarrow> field \<Rightarrow> nghttp2_hd_indexing_mode \<Rightarrow> search_result \<Rightarrow> bool" where
  "search_post full f mode sr \<longleftrightarrow>
     (sr_name_value_match sr \<longleftrightarrow> mode \<noteq> HD_NEVER_INDEXING \<and> f \<in> set full) \<and>
     (if sr_name_value_match sr then \<exists>i < length full. sr_index sr = int i \<and> full ! i = f
      else sr_index sr = -1 \<and> fst f \<notin> fst ` set full \<or>
           (\<exists>i < length full. sr_index sr = int i \<and> fst (full ! i) = fst f))"

lemma search_postI:
  "i < length full \<Longrightarrow> full ! i = f \<Longrightarrow> mode \<noteq> HD_NEVER_INDEXING \<Longrightarrow> search_post full f mode \<lparr>sr_index = int i, sr_name_value_match = True\<rparr>"
  "i < length full \<Longrightarrow> fst (full ! i) = fst f \<Longrightarrow> mode = HD_NEVER_INDEXING \<or> f \<notin> set full \<Longrightarrow>
     search_post full f mode \<lparr>sr_index = int i, sr_name_value_match = False\<rparr>"
  "fst f \<notin> fst ` set full \<Longrightarrow> search_post full f mode \<lparr>sr_index = -1, sr_name_value_match = False\<rparr>"
  by (auto simp: search_post_def image_iff)

lemma search_ok:
  assumes ok: "ctx_ok ctx (Some hmap) E" and t: "token = lookup_token (nv_name nv)" "hash = token_hash token (nv_name nv)"
  defines "full \<equiv> static_fields @ dyn_table ctx" and "f \<equiv> (nv_name nv, nv_value nv)"
  shows "\<exists>sr. search_hd_table ctx nv token mode hmap hash = Some sr \<and> search_post full f mode sr"
proof -
  let ?S = NGHTTP2_STATIC_TABLE_LENGTH
  let ?only = "mode = HD_NEVER_INDEXING" and ?n = "length (dyn_table ctx)"
  let ?name = "find (\<lambda>i. fst (dyn_table ctx ! i) = nv_name nv) [0..<?n]"
  let ?field = "find (\<lambda>i. dyn_table ctx ! i = f) [0..<?n]"
  have dyn: "full ! (?S + i) = dyn_table ctx ! i" for i by (simp add: full_def nth_append)
  have len: "length full = ?S + ?n" by (simp add: full_def)
  note fi = map_find_ok [OF ok t, of ?only, folded f_def]
  show ?thesis
  proof (cases "if ?only then None else ?field")
    case (Some i)
    then have i: "i < ?n" "dyn_table ctx ! i = f" "\<not> ?only" using find_upt(1) by (auto split: if_splits)
    obtain e where e: "ctx_entries ctx (ctx_addrs ctx ! i) = Some e"
      "uint (next_seq ctx - 1 - ent_seq e + of_nat ?S) = int (?S + i)" by (rule search_index [OF ok i(1)])
    have "search_hd_table ctx nv token mode hmap hash = Some \<lparr>sr_index = int (?S + i), sr_name_value_match = True\<rparr>"
      using fi Some e by (simp add: search_hd_table_def)
    moreover have "search_post full f mode \<lparr>sr_index = int (?S + i), sr_name_value_match = True\<rparr>"
      using i len by (intro search_postI) (simp_all add: dyn)
    ultimately show ?thesis by blast
  next
    case None
    have nf: "?only \<or> f \<notin> set (dyn_table ctx)" using None find_upt(2) [of _ ?n] by (auto simp: in_set_conv_nth split: if_splits)
    show ?thesis
    proof (cases "0 \<le> token \<and> token \<le> NGHTTP2_TOKEN_WWW_AUTHENTICATE")
      case True
      let ?sr = "search_static_table nv token ?only"
      have st: "search_hd_table ctx nv token mode hmap hash = Some ?sr"
        using fi None True by (simp add: search_hd_table_def)
      obtain i where i: "i < ?S" "sr_index ?sr = int i" "fst (static_fields ! i) = nv_name nv"
        "sr_name_value_match ?sr \<longleftrightarrow> \<not> ?only \<and> f \<in> set static_fields" "sr_name_value_match ?sr \<longrightarrow> static_fields ! i = f"
        using search_static_ok [OF t(1), of ?only] True unfolding f_def by blast
      have "i < length full" "full ! i = static_fields ! i" using i(1) by (simp_all add: full_def nth_append)
      moreover have "sr_name_value_match ?sr \<longleftrightarrow> \<not> ?only \<and> f \<in> set full" using i(4) nf unfolding full_def by (simp only: set_append) blast
      ultimately have "search_post full f mode ?sr"
        using i(2,3,5) unfolding search_post_def by (metis f_def fst_conv)
      then show ?thesis using st by blast
    next
      case False
      have ns: "nv_name nv \<notin> fst ` set static_fields"
        using False t(1) static_tokens static_token_range by (auto simp: static_fields_def list_all_iff)
      show ?thesis
      proof (cases ?name)
        case None': None
        then have "search_hd_table ctx nv token mode hmap hash = Some \<lparr>sr_index = -1, sr_name_value_match = False\<rparr>"
          using fi None False by (auto simp: search_hd_table_def)
        moreover have "nv_name nv \<notin> fst ` set (dyn_table ctx)" 
          using None' unfolding find_upt(2) by (metis (no_types, lifting) imageE in_set_conv_nth)
        then have "fst f \<notin> fst ` set full" using ns unfolding full_def f_def by (simp add: image_Un)
        ultimately show ?thesis using search_postI(3) by blast
      next
        case (Some i)
        then have i: "i < ?n" "fst (dyn_table ctx ! i) = nv_name nv" using find_upt(1) by auto
        obtain e where e: "ctx_entries ctx (ctx_addrs ctx ! i) = Some e"
          "uint (next_seq ctx - 1 - ent_seq e + of_nat ?S) = int (?S + i)" by (rule search_index [OF ok i(1)])
        have "search_hd_table ctx nv token mode hmap hash = Some \<lparr>sr_index = int (?S + i), sr_name_value_match = False\<rparr>"
          using fi None Some e False by (auto simp: search_hd_table_def)
        moreover have "f \<notin> set static_fields" using ns by (metis f_def fst_conv image_eqI)
        then have "search_post full f mode \<lparr>sr_index = int (?S + i), sr_name_value_match = False\<rparr>"
          using i len nf by (intro search_postI(2)) (simp_all add: dyn, simp_all add: f_def full_def)
        ultimately show ?thesis by blast
      qed
    qed
  qed
qed

section \<open>Releasing a context\<close>

lemma free_loop_ok:
  assumes "ring_rep (hd_table ctx) (xs @ L)" "distinct (xs @ L)" "dom (ctx_entries ctx) = set L"
    "rc_ok (ctx_heap ctx) (E + ent_refs (ctx_entries ctx) L)"
  shows "\<exists>ctx'. hd_ringbuf_free_loop ctx [length xs..<length (xs @ L)] = Some ctx' \<and> ctx_entries ctx' = Map.empty \<and>
     rc_ok (ctx_heap ctx') E \<and> rc_same E (ctx_heap ctx) (ctx_heap ctx') \<and> rc_mem (ctx_heap ctx') = rc_mem (ctx_heap ctx)"
  using assms
proof (induction L arbitrary: xs ctx)
  case Nil
  then show ?case by auto
next
  case (Cons a L)
  let ?es = "ctx_entries ctx"
  obtain e where e: "?es a = Some e" using Cons.prems(3) by auto
  have g: "hd_ringbuf_get (hd_table ctx) (length xs) = Some a" using Cons.prems(1) by (simp add: ring_rep_def)
  have rc: "rc_ok (ctx_heap ctx) (add_mset (hd_name (ent_nv e)) (add_mset (hd_value (ent_nv e)) (E + ent_refs ?es L)))"
    using Cons.prems(4) e by simp
  obtain h' where h': "nghttp2_hd_entry_free (ctx_heap ctx) e = Some h'" "rc_ok h' (E + ent_refs ?es L)"
    "rc_same (E + ent_refs ?es L) (ctx_heap ctx) h'" "rc_mem h' = rc_mem (ctx_heap ctx)"
    by (rule entry_free_ok [OF rc])
  define es where "es = ?es(a := None)"
  let ?ctx = "ctx\<lparr>ctx_heap := h', ctx_entries := es\<rparr>"
  have "ent_refs es L = ent_refs ?es L" unfolding es_def by (rule ent_refs_cong) (use Cons.prems(2) in auto)
  moreover have "dom es = set L" unfolding es_def using Cons.prems(2,3) by simp
  ultimately have "\<exists>ctx'. hd_ringbuf_free_loop ?ctx [length (xs @ [a])..<length ((xs @ [a]) @ L)] = Some ctx' \<and> ctx_entries ctx' = Map.empty \<and>
     rc_ok (ctx_heap ctx') E \<and> rc_same E (ctx_heap ?ctx) (ctx_heap ctx') \<and> rc_mem (ctx_heap ctx') = rc_mem (ctx_heap ?ctx)"
    by (intro Cons.IH) (use Cons.prems(1-3) h'(2) in simp_all)
  moreover have "[length xs..<length (xs @ a # L)] = length xs # [length (xs @ [a])..<length ((xs @ [a]) @ L)]"
    using upt_conv_Cons [of "length xs" "length (xs @ a # L)"] by simp
  moreover have "rc_same E (ctx_heap ctx) h'" by (rule rc_same_mono [OF h'(3)]) simp
  ultimately show ?case using g e h'(1,4) by (auto simp: ctx_entry_free_def es_def [symmetric] intro: rc_same_trans)
qed

lemma context_free_ok:
  assumes "ctx_ok ctx hmap E"
  obtains ctx' where "hd_context_free ctx = Some ctx'" "ctx_entries ctx' = Map.empty" "rc_ok (ctx_heap ctx') E"
    "rc_same E (ctx_heap ctx) (ctx_heap ctx')" "rc_mem (ctx_heap ctx') = rc_mem (ctx_heap ctx)"
proof -
  note d = ctx_invD [OF ctx_ok_inv [OF assms]]
  have "rb_len (hd_table ctx) = length (ctx_addrs ctx)" using d(1) by (simp add: ring_rep_def)
  then show ?thesis
    using free_loop_ok [of ctx "[]" "ctx_addrs ctx" E] d(1-3,5) that by (auto simp: hd_context_free_def)
qed

lemma rc_ok_empty: "rc_ok h {#} \<Longrightarrow> rc_bufs h = Map.empty"
  by (auto simp: rc_ok_def rc_cell_def)

section \<open>Properties\<close>

text \<open>
  C6: inserting into the dynamic table is the specification of HPACK.  On a consistent context, with the
  name and value held by someone, the insertion runs without a failed assertion or a dangling
  pointer; it leaves a consistent context whose table is the new field in front of the old ones, cut
  from the oldest end to the maximum size (a field that alone is too large empties the table), and
  it changes nothing that other references show.  The only error is NGHTTP2_ERR_NOMEM after a failed allocation.
\<close>

theorem hpack_table_insert_refines:
  assumes "ctx_ok ctx hmap E" "rc_live E (hd_name nv)" "rc_live E (hd_value nv)"
    and "f = (rc_bytes (ctx_heap ctx) (hd_name nv), rc_bytes (ctx_heap ctx) (hd_value nv))"
    and "hd_token nv = lookup_token (fst f)" "hd_flags nv = NGHTTP2_NV_FLAG_NONE"
    and "hmap \<noteq> None \<Longrightarrow> hash = token_hash (hd_token nv) (fst f)"
  shows "\<exists>r ctx' hmap'. add_hd_table_incremental ctx nv hmap hash = Some (r, ctx', hmap') \<and> ctx_ok ctx' hmap' E \<and>
     rc_same E (ctx_heap ctx) (ctx_heap ctx') \<and>
     (case r of Inl e \<Rightarrow> e = ERR_NOMEM \<and> \<not> mem_reliable (rc_mem (ctx_heap ctx))
      | Inr _ \<Rightarrow> dyn_table ctx' = table_cut (hd_table_bufsize_max ctx) (f # dyn_table ctx))"
  by (rule ctx_ok_add [OF assms]) (fastforce simp: ctx_kept_def)+

definition mem0 :: nghttp2_mem where "mem0 = \<lparr>mem_ok = [], mem_junk = (\<lambda>_. 0)\<rparr>"

definition ctx0 :: nghttp2_hd_context where
  "ctx0 = projr (fst (hd_context_init mem0))"

lemma ctx0_ok: "ctx_ok ctx0 None {#}" "dyn_table ctx0 = []" "hd_table_bufsize_max ctx0 = 4096" "ctx_ok ctx0 (Some hd_map_init) {#}"
proof -
  have m: "mem_reliable mem0" by (simp add: mem_reliable_def mem0_def)
  then obtain mem' where i: "hd_context_init mem0 = (Inr ctx0, mem')"
    using hd_context_init_ok [where mem = mem0 and hmap = None] by (cases "hd_context_init mem0") (auto simp: ctx0_def split: sum.splits)
  show "ctx_ok ctx0 None {#}" "dyn_table ctx0 = []" "hd_table_bufsize_max ctx0 = 4096"
    using hd_context_init_ok [where mem = mem0 and hmap = None] i by (simp_all add: NGHTTP2_HD_DEFAULT_MAX_BUFFER_SIZE_def)
  show "ctx_ok ctx0 (Some hd_map_init) {#}"
    using hd_context_init_ok [where mem = mem0 and hmap = "Some hd_map_init"] i by simp
qed

definition nv0 :: nghttp2_hd_nv where
  "nv0 = \<lparr>hd_name = Rc_static_name 2, hd_value = Rc_static_value 2, hd_token = 1, hd_flags = NGHTTP2_NV_FLAG_NONE\<rparr>"

lemma nv0_bytes: "rc_bytes h (hd_name nv0) = ascii '':method''" "rc_bytes h (hd_value nv0) = ascii ''POST''"
  by (simp_all add: nv0_def rc_static_bytes NGHTTP2_STATIC_TABLE_LENGTH_def) (simp_all add: static_table_def MAKE_STATIC_ENT_def)

lemma nv0_token: "lookup_token (ascii '':method'') = 1"
  by code_simp

theorem hpack_table_insert_refines_witness:
  "\<exists>r ctx' hmap'. add_hd_table_incremental ctx0 nv0 None 0 = Some (r, ctx', hmap') \<and> ctx_ok ctx' hmap' {#} \<and>
     rc_same {#} (ctx_heap ctx0) (ctx_heap ctx') \<and>
     (case r of Inl e \<Rightarrow> e = ERR_NOMEM \<and> \<not> mem_reliable (rc_mem (ctx_heap ctx0))
      | Inr _ \<Rightarrow> dyn_table ctx' = table_cut (hd_table_bufsize_max ctx0) ((ascii '':method'', ascii ''POST'') # dyn_table ctx0))"
  by (rule hpack_table_insert_refines [OF ctx0_ok(1)])
     (simp_all add: nv0_bytes nv0_token, simp_all add: nv0_def rc_live_def NGHTTP2_STATIC_TABLE_LENGTH_def)

text \<open>
  C16: the search of the deflater is exact.  It finds a field in the static or the dynamic table, as an index
  of that field, if and only if the field is there and indexing is allowed; otherwise it gives an
  index of the field's name if there is one, and -1 only if there is none.  In particular the hash
  buckets, the sequence numbers and the tokens agree with the table.
\<close>

theorem hpack_search_exact:
  assumes "ctx_ok ctx (Some hmap) E" "token = lookup_token (nv_name nv)" "hash = token_hash token (nv_name nv)"
  shows "\<exists>sr. search_hd_table ctx nv token mode hmap hash = Some sr \<and>
     search_post (static_fields @ dyn_table ctx) (nv_name nv, nv_value nv) mode sr"
  using assms by (rule search_ok)

theorem hpack_search_exact_witness:
  "\<exists>sr. search_hd_table ctx0 \<lparr>nv_name = ascii '':method'', nv_value = ascii ''PUT'', nv_flags = 0\<rparr> 1
        HD_WITH_INDEXING hd_map_init (token_hash 1 (ascii '':method'')) = Some sr \<and>
     search_post (static_fields @ dyn_table ctx0) (ascii '':method'', ascii ''PUT'') HD_WITH_INDEXING sr"
  using hpack_search_exact [OF ctx0_ok(4), of 1 "\<lparr>nv_name = ascii '':method'', nv_value = ascii ''PUT'', nv_flags = 0\<rparr>"
      "token_hash 1 (ascii '':method'')" HD_WITH_INDEXING]
  by (simp add: nv0_token)

text \<open>
  C17: releasing a context leaks nothing.  \<^verbatim>\<open>hd_context_free\<close> on a consistent context frees every entry, and
  the reference counted buffers that remain are exactly those somebody else holds; if nobody does,
  no buffer remains.
\<close>

theorem hpack_context_free_leaks_nothing:
  assumes "ctx_ok ctx hmap E"
  shows "\<exists>ctx'. hd_context_free ctx = Some ctx' \<and> ctx_entries ctx' = Map.empty \<and> rc_ok (ctx_heap ctx') E \<and>
     (E = {#} \<longrightarrow> rc_bufs (ctx_heap ctx') = Map.empty)"
  by (rule context_free_ok [OF assms]) (use rc_ok_empty in auto)

theorem hpack_context_free_leaks_nothing_witness:
  "\<exists>ctx'. hd_context_free ctx0 = Some ctx' \<and> ctx_entries ctx' = Map.empty \<and> rc_ok (ctx_heap ctx') {#} \<and>
     ({#} = ({#} :: rcptr multiset) \<longrightarrow> rc_bufs (ctx_heap ctx') = Map.empty)"
  by (rule hpack_context_free_leaks_nothing [OF ctx0_ok(1)])

end
