(* ===== verification/Hpack_Deflate.thy ===== *)
theory Hpack_Deflate
  imports Huffman Hpack_Int Hpack_Table
begin

unbundle bit_operations_syntax

text \<open>
  \<^verbatim>\<open>lib/nghttp2_hd.c\<close>, the HPACK encoder: emission of the representations into a chain of buffers, the choice
  of a representation for a field, table size changes and the public deflate functions.

  The scratch arrays \<^verbatim>\<open>uint8_t sb[16]\<close> start with indeterminate content.  The reference is the list of
  representations that a header block stands for, with their bytes and their effect on a decoder's
  table as the specification of HPACK has it.
\<close>

section \<open>Emission\<close>

definition sb_init :: "nghttp2_bufs \<Rightarrow> u8 \<Rightarrow> u8 list" where
  "sb_init bufs b = (mem_fresh (bufs_mem bufs) 16)[0 := b]"

definition emit_table_size :: "nghttp2_bufs \<Rightarrow> nat \<Rightarrow> ((nghttp2_error + unit) \<times> nghttp2_bufs) option" where
  "emit_table_size bufs tsize =
     (let blocklen = count_encoded_length tsize 5 in
      if 16 < blocklen then Some (Inl ERR_HEADER_COMP, bufs)
      else nghttp2_bufs_add bufs (take blocklen (fst (encode_length (sb_init bufs 0x20) tsize 5))))"

definition emit_indexed_block :: "nghttp2_bufs \<Rightarrow> nat \<Rightarrow> ((nghttp2_error + unit) \<times> nghttp2_bufs) option" where
  "emit_indexed_block bufs idx =
     (let blocklen = count_encoded_length (idx + 1) 7 in
      if 16 < blocklen then Some (Inl ERR_HEADER_COMP, bufs)
      else nghttp2_bufs_add bufs (take blocklen (fst (encode_length (sb_init bufs 0x80) (idx + 1) 7))))"

definition emit_string :: "nghttp2_bufs \<Rightarrow> u8 list \<Rightarrow> ((nghttp2_error + unit) \<times> nghttp2_bufs) option" where
  "emit_string bufs str =
     (let enclen = nghttp2_hd_huff_encode_count str;
          huffman = enclen < length str;
          enclen = (if huffman then enclen else length str);
          blocklen = count_encoded_length enclen 7 in
      if 16 < blocklen then Some (Inl ERR_HEADER_COMP, bufs)
      else do {
        (rv, bufs) \<leftarrow> nghttp2_bufs_add bufs
           (take blocklen (fst (encode_length (sb_init bufs (if huffman then push_bit 7 1 else 0)) enclen 7)));
        case rv of
          Inl e \<Rightarrow> Some (Inl e, bufs)
        | Inr _ \<Rightarrow>
            if huffman then nghttp2_hd_huff_encode bufs str
            else if enclen \<noteq> length str then None
            else nghttp2_bufs_add bufs str })"

fun pack_first_byte :: "nghttp2_hd_indexing_mode \<Rightarrow> u8" where
  "pack_first_byte HD_WITH_INDEXING = 0x40"
| "pack_first_byte HD_WITHOUT_INDEXING = 0"
| "pack_first_byte HD_NEVER_INDEXING = 0x10"

definition emit_indname_block ::
  "nghttp2_bufs \<Rightarrow> nat \<Rightarrow> nghttp2_nv \<Rightarrow> nghttp2_hd_indexing_mode \<Rightarrow> ((nghttp2_error + unit) \<times> nghttp2_bufs) option" where
  "emit_indname_block bufs idx nv indexing_mode =
     (let prefixlen = (if indexing_mode = HD_WITH_INDEXING then 6 else 4);
          blocklen = count_encoded_length (idx + 1) prefixlen in
      if 16 < blocklen then Some (Inl ERR_HEADER_COMP, bufs)
      else do {
        (rv, bufs) \<leftarrow> nghttp2_bufs_add bufs
           (take blocklen (fst (encode_length (sb_init bufs (pack_first_byte indexing_mode)) (idx + 1) prefixlen)));
        case rv of Inl e \<Rightarrow> Some (Inl e, bufs) | Inr _ \<Rightarrow> emit_string bufs (nv_value nv) })"

definition emit_newname_block ::
  "nghttp2_bufs \<Rightarrow> nghttp2_nv \<Rightarrow> nghttp2_hd_indexing_mode \<Rightarrow> ((nghttp2_error + unit) \<times> nghttp2_bufs) option" where
  "emit_newname_block bufs nv indexing_mode =
     (case nghttp2_bufs_addb bufs (pack_first_byte indexing_mode) of
        (Inl e, bufs) \<Rightarrow> Some (Inl e, bufs)
      | (Inr _, bufs) \<Rightarrow> do {
          (rv, bufs) \<leftarrow> emit_string bufs (nv_name nv);
          case rv of Inl e \<Rightarrow> Some (Inl e, bufs) | Inr _ \<Rightarrow> emit_string bufs (nv_value nv) })"

section \<open>The deflater\<close>

record nghttp2_hd_deflater =
  df_ctx :: nghttp2_hd_context
  df_map :: nghttp2_hd_map
  deflate_hd_table_bufsize_max :: nat
  df_min_hd_table_bufsize_max :: nat
  notify_table_size_change :: bool

definition NGHTTP2_HD_DEFAULT_MAX_DEFLATE_BUFFER_SIZE :: nat where
  "NGHTTP2_HD_DEFAULT_MAX_DEFLATE_BUFFER_SIZE = 4096"

definition nghttp2_hd_deflate_init2 ::
  "nghttp2_mem \<Rightarrow> nat \<Rightarrow> (nghttp2_error + nghttp2_hd_deflater) \<times> nghttp2_mem" where
  "nghttp2_hd_deflate_init2 mem max_deflate_dynamic_table_size =
     (case hd_context_init mem of
        (Inl e, mem) \<Rightarrow> (Inl e, mem)
      | (Inr ctx, mem) \<Rightarrow>
          let small = max_deflate_dynamic_table_size < NGHTTP2_HD_DEFAULT_MAX_BUFFER_SIZE in
          (Inr \<lparr>df_ctx = (if small then ctx\<lparr>hd_table_bufsize_max := max_deflate_dynamic_table_size\<rparr> else ctx),
                df_map = hd_map_init,
                deflate_hd_table_bufsize_max = max_deflate_dynamic_table_size,
                df_min_hd_table_bufsize_max = SIZE_UINT32_MAX,
                notify_table_size_change = small\<rparr>, mem))"

definition nghttp2_hd_deflate_init :: "nghttp2_mem \<Rightarrow> (nghttp2_error + nghttp2_hd_deflater) \<times> nghttp2_mem" where
  "nghttp2_hd_deflate_init mem = nghttp2_hd_deflate_init2 mem NGHTTP2_HD_DEFAULT_MAX_DEFLATE_BUFFER_SIZE"

text \<open>The heap object of \<^verbatim>\<open>nghttp2_hd_deflate_new2\<close> is the record itself.\<close>

definition nghttp2_hd_deflate_new2 ::
  "nghttp2_mem \<Rightarrow> nat \<Rightarrow> (nghttp2_error + nghttp2_hd_deflater) \<times> nghttp2_mem" where
  "nghttp2_hd_deflate_new2 mem bufsize_max =
     (let (ok, mem) = mem_call mem in
      if \<not> ok then (Inl ERR_NOMEM, mem) else nghttp2_hd_deflate_init2 mem bufsize_max)"

definition nghttp2_hd_deflate_free :: "nghttp2_hd_deflater \<Rightarrow> nghttp2_hd_context option" where
  "nghttp2_hd_deflate_free df = hd_context_free (df_ctx df)"

definition nghttp2_hd_deflate_del :: "nghttp2_hd_deflater \<Rightarrow> nghttp2_hd_context option" where
  "nghttp2_hd_deflate_del df = nghttp2_hd_deflate_free df"

definition nghttp2_hd_deflate_change_table_size :: "nghttp2_hd_deflater \<Rightarrow> nat \<Rightarrow> nghttp2_hd_deflater option" where
  "nghttp2_hd_deflate_change_table_size df settings_max_dynamic_table_size =
     (let next_bufsize = min settings_max_dynamic_table_size (deflate_hd_table_bufsize_max df) in do {
        (ctx, hmap) \<leftarrow> hd_context_shrink_table_size ((df_ctx df)\<lparr>hd_table_bufsize_max := next_bufsize\<rparr>) (Some (df_map df));
        hmap \<leftarrow> hmap;
        Some (df\<lparr>df_ctx := ctx, df_map := hmap,
                 df_min_hd_table_bufsize_max := min (df_min_hd_table_bufsize_max df) next_bufsize,
                 notify_table_size_change := True\<rparr>) })"

section \<open>Deflating a field\<close>

definition hd_deflate_decide_indexing :: "nghttp2_hd_deflater \<Rightarrow> nghttp2_nv \<Rightarrow> int \<Rightarrow> nghttp2_hd_indexing_mode" where
  "hd_deflate_decide_indexing df nv token =
     (if token = NGHTTP2_TOKEN__PATH \<or> token = NGHTTP2_TOKEN_AGE \<or> token = NGHTTP2_TOKEN_CONTENT_LENGTH \<or>
         token = NGHTTP2_TOKEN_ETAG \<or> token = NGHTTP2_TOKEN_IF_MODIFIED_SINCE \<or>
         token = NGHTTP2_TOKEN_IF_NONE_MATCH \<or> token = NGHTTP2_TOKEN_LOCATION \<or> token = NGHTTP2_TOKEN_SET_COOKIE \<or>
         entry_room (length (nv_name nv)) (length (nv_value nv)) > hd_table_bufsize_max (df_ctx df) * 3 div 4
      then HD_WITHOUT_INDEXING else HD_WITH_INDEXING)"

definition deflate_hash :: "int \<Rightarrow> nghttp2_nv \<Rightarrow> u32" where
  "deflate_hash token nv =
     (if token = -1 then name_hash (nv_name nv)
      else if token \<le> NGHTTP2_TOKEN_WWW_AUTHENTICATE then se_hash (static_table ! nat token) else 0)"

definition deflate_mode :: "nghttp2_hd_deflater \<Rightarrow> nghttp2_nv \<Rightarrow> int \<Rightarrow> nghttp2_hd_indexing_mode" where
  "deflate_mode df nv token =
     (if token = NGHTTP2_TOKEN_AUTHORIZATION \<or> token = NGHTTP2_TOKEN_COOKIE \<and> length (nv_value nv) < 20 \<or>
         nv_flags nv AND NGHTTP2_NV_FLAG_NO_INDEX \<noteq> 0
      then HD_NEVER_INDEXING else hd_deflate_decide_indexing df nv token)"

text \<open>The insertion into the table, for \<^verbatim>\<open>NGHTTP2_HD_WITH_INDEXING\<close>: first the name, shared with the entry that has it.\<close>

definition deflate_name :: "nghttp2_hd_context \<Rightarrow> u8 list \<Rightarrow> int \<Rightarrow> ((nghttp2_error + rcptr) \<times> rc_heap) option" where
  "deflate_name ctx name idx =
     (if idx \<noteq> -1 then do {
        ent \<leftarrow> nghttp2_hd_table_get ctx (nat idx);
        h \<leftarrow> nghttp2_rcbuf_incref (ctx_heap ctx) (hd_name ent);
        Some (Inr (hd_name ent), h) }
      else Some (nghttp2_rcbuf_new2 (ctx_heap ctx) name))"

definition deflate_add ::
  "nghttp2_hd_deflater \<Rightarrow> nghttp2_nv \<Rightarrow> int \<Rightarrow> u32 \<Rightarrow> int \<Rightarrow> ((nghttp2_error + unit) \<times> nghttp2_hd_deflater) option" where
  "deflate_add df nv token hash idx = do {
     let ctx = df_ctx df;
     (rv, h) \<leftarrow> deflate_name ctx (nv_name nv) idx;
     case rv of
       Inl e \<Rightarrow> Some (Inl e, df\<lparr>df_ctx := ctx\<lparr>ctx_heap := h\<rparr>\<rparr>)
     | Inr name \<Rightarrow>
         (case nghttp2_rcbuf_new2 h (nv_value nv) of
            (Inl e, h) \<Rightarrow> do {
              h \<leftarrow> nghttp2_rcbuf_decref h (Some name);
              Some (Inl e, df\<lparr>df_ctx := ctx\<lparr>ctx_heap := h\<rparr>\<rparr>) }
          | (Inr val, h) \<Rightarrow> do {
              (rv, ctx, hmap) \<leftarrow> add_hd_table_incremental (ctx\<lparr>ctx_heap := h\<rparr>)
                 \<lparr>hd_name = name, hd_value = val, hd_token = token, hd_flags = NGHTTP2_NV_FLAG_NONE\<rparr>
                 (Some (df_map df)) hash;
              h \<leftarrow> nghttp2_rcbuf_decref (ctx_heap ctx) (Some val);
              h \<leftarrow> nghttp2_rcbuf_decref h (Some name);
              hmap \<leftarrow> hmap;
              let df = df\<lparr>df_ctx := ctx\<lparr>ctx_heap := h\<rparr>, df_map := hmap\<rparr>;
              case rv of Inl _ \<Rightarrow> Some (Inl ERR_HEADER_COMP, df) | Inr _ \<Rightarrow> Some (Inr (), df) }) }"

definition deflate_nv ::
  "nghttp2_hd_deflater \<Rightarrow> nghttp2_bufs \<Rightarrow> nghttp2_nv \<Rightarrow>
   ((nghttp2_error + unit) \<times> nghttp2_hd_deflater \<times> nghttp2_bufs) option" where
  "deflate_nv df bufs nv = do {
     let token = lookup_token (nv_name nv);
     let hash = deflate_hash token nv;
     let indexing_mode = deflate_mode df nv token;
     res \<leftarrow> search_hd_table (df_ctx df) nv token indexing_mode (df_map df) hash;
     let idx = sr_index res;
     if sr_name_value_match res then
       map_option (\<lambda>(rv, bufs). (rv, df, bufs)) (emit_indexed_block bufs (nat idx))
     else do {
       (rv, df) \<leftarrow> (if indexing_mode = HD_WITH_INDEXING then deflate_add df nv token hash idx else Some (Inr (), df));
       case rv of
         Inl e \<Rightarrow> Some (Inl e, df, bufs)
       | Inr _ \<Rightarrow>
           map_option (\<lambda>(rv, bufs). (rv, df, bufs))
             (if idx = -1 then emit_newname_block bufs nv indexing_mode
              else emit_indname_block bufs (nat idx) nv indexing_mode) } }"

section \<open>Deflating a header block\<close>

fun deflate_nvs ::
  "nghttp2_hd_deflater \<Rightarrow> nghttp2_bufs \<Rightarrow> nghttp2_nv list \<Rightarrow>
   ((nghttp2_error + unit) \<times> nghttp2_hd_deflater \<times> nghttp2_bufs) option" where
  "deflate_nvs df bufs [] = Some (Inr (), df, bufs)"
| "deflate_nvs df bufs (nv # nva) = do {
     (rv, df, bufs) \<leftarrow> deflate_nv df bufs nv;
     case rv of Inl e \<Rightarrow> Some (Inl e, df, bufs) | Inr _ \<Rightarrow> deflate_nvs df bufs nva }"

definition deflate_notify ::
  "nghttp2_hd_deflater \<Rightarrow> nghttp2_bufs \<Rightarrow> ((nghttp2_error + unit) \<times> nghttp2_hd_deflater \<times> nghttp2_bufs) option" where
  "deflate_notify df bufs =
     (if \<not> notify_table_size_change df then Some (Inr (), df, bufs)
      else
        let min_max = df_min_hd_table_bufsize_max df; max_max = hd_table_bufsize_max (df_ctx df);
            df = df\<lparr>notify_table_size_change := False, df_min_hd_table_bufsize_max := SIZE_UINT32_MAX\<rparr> in do {
          (rv, bufs) \<leftarrow> (if max_max > min_max then emit_table_size bufs min_max else Some (Inr (), bufs));
          case rv of
            Inl e \<Rightarrow> Some (Inl e, df, bufs)
          | Inr _ \<Rightarrow> map_option (\<lambda>(rv, bufs). (rv, df, bufs)) (emit_table_size bufs max_max) })"

definition nghttp2_hd_deflate_hd_bufs ::
  "nghttp2_hd_deflater \<Rightarrow> nghttp2_bufs \<Rightarrow> nghttp2_nv list \<Rightarrow>
   ((nghttp2_error + unit) \<times> nghttp2_hd_deflater \<times> nghttp2_bufs) option" where
  "nghttp2_hd_deflate_hd_bufs df bufs nva =
     (if ctx_bad (df_ctx df) then Some (Inl ERR_HEADER_COMP, df, bufs)
      else do {
        (rv, df, bufs) \<leftarrow> deflate_notify df bufs;
        (rv, df, bufs) \<leftarrow> (case rv of Inl e \<Rightarrow> Some (Inl e, df, bufs) | Inr _ \<Rightarrow> deflate_nvs df bufs nva);
        case rv of
          Inl e \<Rightarrow> Some (Inl e, df\<lparr>df_ctx := (df_ctx df)\<lparr>ctx_bad := True\<rparr>\<rparr>, bufs)
        | Inr _ \<Rightarrow> Some (Inr (), df, bufs) })"

text \<open>
  The two public functions write into memory of the application, as one piece or several; the result
  is the number of bytes and the bytes written.
\<close>

definition deflate_hd_wrapped ::
  "(nghttp2_mem \<Rightarrow> (nghttp2_error + nghttp2_bufs) \<times> nghttp2_mem) \<Rightarrow> nghttp2_hd_deflater \<Rightarrow> nghttp2_nv list \<Rightarrow>
   ((nghttp2_error + nat) \<times> nghttp2_hd_deflater \<times> u8 list) option" where
  "deflate_hd_wrapped wrap df nva =
     (let heap = ctx_heap (df_ctx df); (r, mem) = wrap (rc_mem heap);
          df = df\<lparr>df_ctx := (df_ctx df)\<lparr>ctx_heap := heap\<lparr>rc_mem := mem\<rparr>\<rparr>\<rparr> in
      case r of
        Inl e \<Rightarrow> Some (Inl e, df, [])
      | Inr bufs \<Rightarrow> do {
          (rv, df, bufs) \<leftarrow> nghttp2_hd_deflate_hd_bufs df bufs nva;
          Some (case rv of
                  Inl e \<Rightarrow> Inl (if e = ERR_BUFFER_ERROR then ERR_INSUFF_BUFSIZE else e)
                | Inr _ \<Rightarrow> Inr (nghttp2_bufs_len bufs), df, bufs_bytes bufs) })"

definition nghttp2_hd_deflate_hd ::
  "nghttp2_hd_deflater \<Rightarrow> u8 list \<Rightarrow> nghttp2_nv list \<Rightarrow> ((nghttp2_error + nat) \<times> nghttp2_hd_deflater \<times> u8 list) option" where
  "nghttp2_hd_deflate_hd df buf nva = deflate_hd_wrapped (\<lambda>mem. nghttp2_bufs_wrap_init mem buf) df nva"

definition nghttp2_hd_deflate_hd_vec ::
  "nghttp2_hd_deflater \<Rightarrow> u8 list list \<Rightarrow> nghttp2_nv list \<Rightarrow> ((nghttp2_error + nat) \<times> nghttp2_hd_deflater \<times> u8 list) option" where
  "nghttp2_hd_deflate_hd_vec df vec nva = deflate_hd_wrapped (\<lambda>mem. nghttp2_bufs_wrap_init2 mem vec) df nva"

definition nghttp2_hd_deflate_bound :: "nghttp2_nv list \<Rightarrow> nat" where
  "nghttp2_hd_deflate_bound nva =
     12 + 6 * 2 * length nva + sum_list (map (\<lambda>nv. length (nv_name nv) + length (nv_value nv)) nva)"

section \<open>Reading the tables\<close>

definition hd_get_table_entry :: "nghttp2_hd_context \<Rightarrow> nat \<Rightarrow> nghttp2_nv option option" where
  "hd_get_table_entry ctx idx =
     (if idx = 0 then Some None
      else if \<not> INDEX_RANGE_VALID ctx (idx - 1) then Some None
      else map_option Some (nghttp2_hd_table_get2 ctx (idx - 1)))"

definition nghttp2_hd_deflate_get_num_table_entries :: "nghttp2_hd_deflater \<Rightarrow> nat" where
  "nghttp2_hd_deflate_get_num_table_entries df = get_max_index (df_ctx df)"

definition nghttp2_hd_deflate_get_table_entry :: "nghttp2_hd_deflater \<Rightarrow> nat \<Rightarrow> nghttp2_nv option option" where
  "nghttp2_hd_deflate_get_table_entry df idx = hd_get_table_entry (df_ctx df) idx"

definition nghttp2_hd_deflate_get_dynamic_table_size :: "nghttp2_hd_deflater \<Rightarrow> nat" where
  "nghttp2_hd_deflate_get_dynamic_table_size df = hd_table_bufsize (df_ctx df)"

definition nghttp2_hd_deflate_get_max_dynamic_table_size :: "nghttp2_hd_deflater \<Rightarrow> nat" where
  "nghttp2_hd_deflate_get_max_dynamic_table_size df = hd_table_bufsize_max (df_ctx df)"

section \<open>Representations\<close>

definition string_bytes :: "u8 list \<Rightarrow> u8 list" where
  "string_bytes s =
     (if nghttp2_hd_huff_encode_count s < length s
      then int_bytes 0x80 (nghttp2_hd_huff_encode_count s) 7 @ huff_bytes s
      else int_bytes 0 (length s) 7 @ s)"

datatype hp_rep =
    Rep_size nat
  | Rep_indexed nat
  | Rep_indname nghttp2_hd_indexing_mode nat "u8 list"
  | Rep_newname nghttp2_hd_indexing_mode "u8 list" "u8 list"

fun rep_bytes :: "hp_rep \<Rightarrow> u8 list" where
  "rep_bytes (Rep_size n) = int_bytes 0x20 n 5"
| "rep_bytes (Rep_indexed i) = int_bytes 0x80 (i + 1) 7"
| "rep_bytes (Rep_indname mode i v) =
     int_bytes (pack_first_byte mode) (i + 1) (if mode = HD_WITH_INDEXING then 6 else 4) @ string_bytes v"
| "rep_bytes (Rep_newname mode n v) = pack_first_byte mode # string_bytes n @ string_bytes v"

text \<open>
  What a representation means to a decoder whose table has maximum size \<open>m\<close> and holds \<open>t\<close>: its new table
  and the field it emits, with the flag of a field that must never be indexed; \<open>None\<close> if an index is
  out of range.
\<close>

definition rep_literal :: "nghttp2_hd_indexing_mode \<Rightarrow> field \<Rightarrow> nat \<times> field list \<Rightarrow> (nat \<times> field list) \<times> (field \<times> bool) option" where
  "rep_literal mode f s =
     (let (m, t) = s in ((m, if mode = HD_WITH_INDEXING then table_cut m (f # t) else t), Some (f, mode = HD_NEVER_INDEXING)))"

fun rep_apply :: "hp_rep \<Rightarrow> nat \<times> field list \<Rightarrow> ((nat \<times> field list) \<times> (field \<times> bool) option) option" where
  "rep_apply (Rep_size n) (m, t) = Some ((n, table_cut n t), None)"
| "rep_apply (Rep_indexed i) (m, t) =
     (if i < length (static_fields @ t) then Some ((m, t), Some ((static_fields @ t) ! i, False)) else None)"
| "rep_apply (Rep_indname mode i v) (m, t) =
     (if i < length (static_fields @ t) then Some (rep_literal mode (fst ((static_fields @ t) ! i), v) (m, t)) else None)"
| "rep_apply (Rep_newname mode n v) (m, t) = Some (rep_literal mode (n, v) (m, t))"

fun reps_apply :: "hp_rep list \<Rightarrow> nat \<times> field list \<Rightarrow> ((nat \<times> field list) \<times> (field \<times> bool) list) option" where
  "reps_apply [] s = Some (s, [])"
| "reps_apply (r # rs) s = do {
     (s1, out) \<leftarrow> rep_apply r s;
     (s2, outs) \<leftarrow> reps_apply rs s1;
     Some (s2, (case out of None \<Rightarrow> outs | Some f \<Rightarrow> f # outs)) }"

definition reps_bytes :: "hp_rep list \<Rightarrow> u8 list" where
  "reps_bytes rs = concat (map rep_bytes rs)"

section \<open>Emission appends the bytes of a representation\<close>

text \<open>\<open>emits f bs\<close>: the step \<open>f\<close> appends \<open>bs\<close> to a chain, or reports that the chain is full or an allocation failed.\<close>

definition emits :: "(nghttp2_bufs \<Rightarrow> ((nghttp2_error + unit) \<times> nghttp2_bufs) option) \<Rightarrow> u8 list \<Rightarrow> bool" where
  "emits f bs \<longleftrightarrow> (\<forall>bufs. bufs_regular bufs \<longrightarrow>
     (\<exists>bufs'. f bufs = Some (Inr (), bufs') \<and> bufs_kept bufs bufs' \<and> bufs_bytes bufs' = bufs_bytes bufs @ bs \<and>
        bufs_room bufs' + length bs = bufs_room bufs) \<or>
     (\<exists>e bufs'. f bufs = Some (Inl e, bufs') \<and> bufs_failed bufs (length bs) e bufs'))"

lemma emitsE:
  assumes "emits f bs" "bufs_regular bufs"
  obtains bufs' where "f bufs = Some (Inr (), bufs')" "bufs_kept bufs bufs'" "bufs_bytes bufs' = bufs_bytes bufs @ bs"
      "bufs_room bufs' + length bs = bufs_room bufs"
    | e bufs' where "f bufs = Some (Inl e, bufs')" "bufs_failed bufs (length bs) e bufs'"
  using assms unfolding emits_def by blast

lemma emits_nil: "emits (\<lambda>bufs. Some (Inr (), bufs)) []"
  by (auto simp: emits_def bufs_kept_refl)

lemma emits_add: "emits (\<lambda>bufs. nghttp2_bufs_add bufs bs) bs"
  unfolding emits_def
proof (intro allI impI)
  fix bufs assume "bufs_regular bufs"
  then show "(\<exists>bufs'. nghttp2_bufs_add bufs bs = Some (Inr (), bufs') \<and> bufs_kept bufs bufs' \<and> bufs_bytes bufs' = bufs_bytes bufs @ bs \<and>
        bufs_room bufs' + length bs = bufs_room bufs) \<or>
     (\<exists>e bufs'. nghttp2_bufs_add bufs bs = Some (Inl e, bufs') \<and> bufs_failed bufs (length bs) e bufs')"
    by (rule bufs_add_regular_correct [of bufs bs]) auto
qed

lemma emits_huff: "emits (\<lambda>bufs. nghttp2_hd_huff_encode bufs s) (huff_bytes s)"
  unfolding emits_def
proof (intro allI impI)
  fix bufs assume "bufs_regular bufs"
  then show "(\<exists>bufs'. nghttp2_hd_huff_encode bufs s = Some (Inr (), bufs') \<and> bufs_kept bufs bufs' \<and> bufs_bytes bufs' = bufs_bytes bufs @ huff_bytes s \<and>
        bufs_room bufs' + length (huff_bytes s) = bufs_room bufs) \<or>
     (\<exists>e bufs'. nghttp2_hd_huff_encode bufs s = Some (Inl e, bufs') \<and> bufs_failed bufs (length (huff_bytes s)) e bufs')"
    by (rule huff_encode_correct [of bufs s]) (auto simp: length_huff_bytes)
qed

lemma emits_addb: "emits (\<lambda>bufs. Some (nghttp2_bufs_addb bufs b)) [b]"
  unfolding emits_def
proof (intro allI impI)
  fix bufs assume "bufs_regular bufs"
  from addb_correct [OF this, of b]
  show "(\<exists>bufs'. Some (nghttp2_bufs_addb bufs b) = Some (Inr (), bufs') \<and> bufs_kept bufs bufs' \<and> bufs_bytes bufs' = bufs_bytes bufs @ [b] \<and>
        bufs_room bufs' + length [b] = bufs_room bufs) \<or>
     (\<exists>e bufs'. Some (nghttp2_bufs_addb bufs b) = Some (Inl e, bufs') \<and> bufs_failed bufs (length [b]) e bufs')"
    by (auto split: prod.splits sum.splits)
qed

lemma emits_bind:
  assumes "emits f as" "emits g bs"
  shows "emits (\<lambda>bufs. f bufs \<bind> (\<lambda>(rv, bufs). case rv of Inl e \<Rightarrow> Some (Inl e, bufs) | Inr _ \<Rightarrow> g bufs)) (as @ bs)"
  unfolding emits_def
proof (intro allI impI)
  let ?fg = "\<lambda>bufs. f bufs \<bind> (\<lambda>(rv, bufs). case rv of Inl e \<Rightarrow> Some (Inl e, bufs) | Inr _ \<Rightarrow> g bufs)"
  fix bufs assume r: "bufs_regular bufs"
  show "(\<exists>bufs'. ?fg bufs = Some (Inr (), bufs') \<and> bufs_kept bufs bufs' \<and> bufs_bytes bufs' = bufs_bytes bufs @ as @ bs \<and>
        bufs_room bufs' + length (as @ bs) = bufs_room bufs) \<or>
     (\<exists>e bufs'. ?fg bufs = Some (Inl e, bufs') \<and> bufs_failed bufs (length (as @ bs)) e bufs')"
  proof (rule emitsE [OF assms(1) r])
    fix bufs1
    assume 1: "f bufs = Some (Inr (), bufs1)" "bufs_kept bufs bufs1" "bufs_bytes bufs1 = bufs_bytes bufs @ as"
      "bufs_room bufs1 + length as = bufs_room bufs"
    have r1: "bufs_regular bufs1" using 1(2) by (simp add: bufs_kept_def)
    show ?thesis
      by (rule emitsE [OF assms(2) r1]) (use 1 bufs_kept_trans [OF 1(2)] bufs_kept_failed [OF 1(2) _ 1(4)] in auto)
  qed (auto simp: bufs_failed_def)
qed

lemma emits_cong: "(\<And>bufs. bufs_regular bufs \<Longrightarrow> f bufs = g bufs) \<Longrightarrow> emits g bs \<Longrightarrow> emits f bs"
  by (simp add: emits_def)

text \<open>An integer written to the scratch array.\<close>

lemma sb_encode:
  assumes "n < 2 ^ 64" "prefix \<le> 8"
  shows "count_encoded_length n prefix \<le> 16"
    "take (count_encoded_length n prefix) (fst (encode_length (sb_init bufs b) n prefix)) = int_bytes b n prefix"
proof -
  have l: "count_encoded_length n prefix \<le> 11" using assms(1) by (rule count_encoded_length_le)
  then show "count_encoded_length n prefix \<le> 16" by simp
  have sb: "length (sb_init bufs b) = 16" "sb_init bufs b ! 0 = b" by (simp_all add: sb_init_def)
  have "count_encoded_length n prefix \<le> length (sb_init bufs b)" using l sb(1) by simp
  from encode_length_bytes [OF assms(2) this]
  show "take (count_encoded_length n prefix) (fst (encode_length (sb_init bufs b) n prefix)) = int_bytes b n prefix"
    by (simp add: sb(2) length_int_bytes)
qed

lemma emit_table_size_emits: "n < 2 ^ 64 \<Longrightarrow> emits (\<lambda>bufs. emit_table_size bufs n) (rep_bytes (Rep_size n))"
  by (rule emits_cong [OF _ emits_add]) (use sb_encode(1) [of n 5] in \<open>simp add: emit_table_size_def Let_def sb_encode(2) not_less\<close>)

lemma emit_indexed_emits: "i + 1 < 2 ^ 64 \<Longrightarrow> emits (\<lambda>bufs. emit_indexed_block bufs i) (rep_bytes (Rep_indexed i))"
  by (rule emits_cong [OF _ emits_add]) (use sb_encode(1) [of "i + 1" 7] in \<open>simp add: emit_indexed_block_def Let_def sb_encode(2) not_less\<close>)

lemma emit_string_emits:
  assumes "length s < 2 ^ 64"
  shows "emits (\<lambda>bufs. emit_string bufs s) (string_bytes s)"
proof (cases "nghttp2_hd_huff_encode_count s < length s")
  case True
  then have n: "nghttp2_hd_huff_encode_count s < 2 ^ 64" using assms by simp
  have "emits (\<lambda>bufs. emit_string bufs s) (int_bytes 0x80 (nghttp2_hd_huff_encode_count s) 7 @ huff_bytes s)"
    by (rule emits_cong [OF _ emits_bind [OF emits_add emits_huff]])
       (use sb_encode [OF n, of 7] True in \<open>simp add: emit_string_def Let_def not_less cong del: sum.case_cong_weak\<close>)
  then show ?thesis using True by (simp add: string_bytes_def)
next
  case False
  have "emits (\<lambda>bufs. emit_string bufs s) (int_bytes 0 (length s) 7 @ s)"
    by (rule emits_cong [OF _ emits_bind [OF emits_add emits_add]])
       (use sb_encode [OF assms, of 7] False in \<open>simp add: emit_string_def Let_def not_less cong del: sum.case_cong_weak\<close>)
  then show ?thesis using False by (simp add: string_bytes_def)
qed

lemma emit_indname_emits:
  assumes "i + 1 < 2 ^ 64" "length (nv_value nv) < 2 ^ 64"
  shows "emits (\<lambda>bufs. emit_indname_block bufs i nv mode) (rep_bytes (Rep_indname mode i (nv_value nv)))"
proof -
  define p :: nat where "p = (if mode = HD_WITH_INDEXING then 6 else 4)"
  have "p \<le> 8" by (simp add: p_def)
  note sb = sb_encode [OF assms(1) this]
  show ?thesis unfolding rep_bytes.simps p_def [symmetric]
    by (rule emits_cong [OF _ emits_bind [OF emits_add emit_string_emits [OF assms(2)]]])
       (use sb in \<open>simp add: emit_indname_block_def Let_def not_less p_def [symmetric]\<close>)
qed

lemma emit_newname_emits:
  assumes "length (nv_name nv) < 2 ^ 64" "length (nv_value nv) < 2 ^ 64"
  shows "emits (\<lambda>bufs. emit_newname_block bufs nv mode) (rep_bytes (Rep_newname mode (nv_name nv) (nv_value nv)))"
proof -
  have "emits (\<lambda>bufs. emit_newname_block bufs nv mode) ([pack_first_byte mode] @ string_bytes (nv_name nv) @ string_bytes (nv_value nv))"
    by (rule emits_cong [OF _ emits_bind [OF emits_addb emits_bind [OF emit_string_emits [OF assms(1)] emit_string_emits [OF assms(2)]]]])
       (simp add: emit_newname_block_def split: prod.splits sum.splits)
  then show ?thesis by simp
qed

section \<open>Reference counts inside a context\<close>

abbreviation ctx_refs :: "nghttp2_hd_context \<Rightarrow> rcptr multiset" where
  "ctx_refs ctx \<equiv> ent_refs (ctx_entries ctx) (ctx_addrs ctx)"

lemma ctx_addrs_heap [simp]: "ctx_addrs (ctx\<lparr>ctx_heap := h\<rparr>) = ctx_addrs ctx"
  by (simp add: ctx_addrs_def)

lemma ctx_ok_heap:
  assumes "ctx_ok ctx hmap E" "rc_ok h (E' + ctx_refs ctx)" "rc_same (ctx_refs ctx) (ctx_heap ctx) h"
  shows "ctx_ok (ctx\<lparr>ctx_heap := h\<rparr>) hmap E'" "dyn_table (ctx\<lparr>ctx_heap := h\<rparr>) = dyn_table ctx"
proof -
  have u: "ctx\<lparr>ctx_heap := h, ctx_entry_new := ctx_entry_new ctx\<rparr> = ctx\<lparr>ctx_heap := h\<rparr>" by simp
  have i: "ctx_inv (ctx\<lparr>ctx_heap := h\<rparr>) hmap (ctx_addrs ctx) E'" "ctx_fields (ctx\<lparr>ctx_heap := h\<rparr>) (ctx_addrs ctx) = ctx_fields ctx (ctx_addrs ctx)"
    using ctx_inv_heap [OF ctx_ok_inv [OF assms(1)] assms(2,3) order_refl] unfolding u .
  show "dyn_table (ctx\<lparr>ctx_heap := h\<rparr>) = dyn_table ctx" using i(2) by (simp add: dyn_table_def)
  then show "ctx_ok (ctx\<lparr>ctx_heap := h\<rparr>) hmap E'" using i(1) assms(1) by (simp add: ctx_ok_def)
qed

lemma ctx_incref:
  assumes "ctx_ok ctx hmap E" "rc_live (E + ctx_refs ctx) p"
  obtains h where "nghttp2_rcbuf_incref (ctx_heap ctx) p = Some h" "ctx_ok (ctx\<lparr>ctx_heap := h\<rparr>) hmap (add_mset p E)"
    "dyn_table (ctx\<lparr>ctx_heap := h\<rparr>) = dyn_table ctx" "rc_bytes h = rc_bytes (ctx_heap ctx)" "rc_mem h = rc_mem (ctx_heap ctx)"
proof (rule incref_ok [OF ctx_ok_live [OF assms(1)] assms(2)])
  fix h
  assume h: "nghttp2_rcbuf_incref (ctx_heap ctx) p = Some h" "rc_ok h (add_mset p (E + ctx_refs ctx))"
    "\<And>q. rc_bytes h q = rc_bytes (ctx_heap ctx) q" "rc_mem h = rc_mem (ctx_heap ctx)"
  have "rc_ok h (add_mset p E + ctx_refs ctx)" "rc_same (ctx_refs ctx) (ctx_heap ctx) h"
    using h(2,3) by (simp_all add: rc_same_def)
  note o = ctx_ok_heap [OF assms(1) this]
  show ?thesis using that [OF h(1) o ext h(4)] h(3) .
qed

lemma ctx_decref:
  assumes "ctx_ok ctx hmap E" "p \<in># E"
  obtains h where "nghttp2_rcbuf_decref (ctx_heap ctx) (Some p) = Some h" "ctx_ok (ctx\<lparr>ctx_heap := h\<rparr>) hmap (E - {#p#})"
    "dyn_table (ctx\<lparr>ctx_heap := h\<rparr>) = dyn_table ctx" "rc_same (E - {#p#} + ctx_refs ctx) (ctx_heap ctx) h" "rc_mem h = rc_mem (ctx_heap ctx)"
proof -
  have m: "p \<in># E + ctx_refs ctx" "E + ctx_refs ctx - {#p#} = E - {#p#} + ctx_refs ctx" using assms(2) by auto
  show ?thesis
  proof (rule decref_ok [OF ctx_ok_live [OF assms(1)] m(1)], unfold m(2))
    fix h
    assume h: "nghttp2_rcbuf_decref (ctx_heap ctx) (Some p) = Some h" "rc_ok h (E - {#p#} + ctx_refs ctx)"
      "rc_same (E - {#p#} + ctx_refs ctx) (ctx_heap ctx) h" "rc_mem h = rc_mem (ctx_heap ctx)"
    have "rc_same (ctx_refs ctx) (ctx_heap ctx) h" by (rule rc_same_mono [OF h(3)]) simp
    note o = ctx_ok_heap [OF assms(1) h(2) this]
    show ?thesis using that [OF h(1) o h(3,4)] .
  qed
qed

lemma ctx_new2:
  assumes "ctx_ok ctx hmap E"
  obtains h where "nghttp2_rcbuf_new2 (ctx_heap ctx) s = (Inl ERR_NOMEM, h)" "ctx_ok (ctx\<lparr>ctx_heap := h\<rparr>) hmap E"
      "dyn_table (ctx\<lparr>ctx_heap := h\<rparr>) = dyn_table ctx" "rc_bytes h = rc_bytes (ctx_heap ctx)"
      "mem_mono (rc_mem (ctx_heap ctx)) (rc_mem h)" "\<not> mem_reliable (rc_mem (ctx_heap ctx))"
    | h p where "nghttp2_rcbuf_new2 (ctx_heap ctx) s = (Inr p, h)" "ctx_ok (ctx\<lparr>ctx_heap := h\<rparr>) hmap (add_mset p E)"
      "dyn_table (ctx\<lparr>ctx_heap := h\<rparr>) = dyn_table ctx" "rc_same (E + ctx_refs ctx) (ctx_heap ctx) h" "rc_bytes h p = s"
      "mem_mono (rc_mem (ctx_heap ctx)) (rc_mem h)"
proof (rule rcbuf_new2_ok [OF ctx_ok_live [OF assms]])
  fix h
  assume h: "nghttp2_rcbuf_new2 (ctx_heap ctx) s = (Inl ERR_NOMEM, h)" "rc_ok h (E + ctx_refs ctx)"
    "\<And>q. rc_bytes h q = rc_bytes (ctx_heap ctx) q" "mem_mono (rc_mem (ctx_heap ctx)) (rc_mem h)" "\<not> mem_reliable (rc_mem (ctx_heap ctx))"
  have "rc_same (ctx_refs ctx) (ctx_heap ctx) h" using h(3) by (simp add: rc_same_def)
  note o = ctx_ok_heap [OF assms h(2) this]
  show ?thesis using that(1) [OF h(1) o ext h(4,5)] h(3) .
next
  fix h p
  assume h: "nghttp2_rcbuf_new2 (ctx_heap ctx) s = (Inr p, h)" "rc_ok h (add_mset p (E + ctx_refs ctx))"
    "rc_same (E + ctx_refs ctx) (ctx_heap ctx) h" "rc_bytes h p = s" "mem_mono (rc_mem (ctx_heap ctx)) (rc_mem h)"
  have "rc_ok h (add_mset p E + ctx_refs ctx)" "rc_same (ctx_refs ctx) (ctx_heap ctx) h"
    using h(2) rc_same_mono [OF h(3), of "ctx_refs ctx"] by simp_all
  note o = ctx_ok_heap [OF assms this]
  show ?thesis using that(2) [OF h(1) o h(3-5)] .
qed

lemma ctx_new2_heap:
  assumes "ctx_ok (ctx\<lparr>ctx_heap := h\<rparr>) hmap E"
  obtains h1 where "nghttp2_rcbuf_new2 h s = (Inl ERR_NOMEM, h1)" "ctx_ok (ctx\<lparr>ctx_heap := h1\<rparr>) hmap E"
      "dyn_table (ctx\<lparr>ctx_heap := h1\<rparr>) = dyn_table (ctx\<lparr>ctx_heap := h\<rparr>)" "rc_bytes h1 = rc_bytes h"
      "mem_mono (rc_mem h) (rc_mem h1)" "\<not> mem_reliable (rc_mem h)"
    | h1 p where "nghttp2_rcbuf_new2 h s = (Inr p, h1)" "ctx_ok (ctx\<lparr>ctx_heap := h1\<rparr>) hmap (add_mset p E)"
      "dyn_table (ctx\<lparr>ctx_heap := h1\<rparr>) = dyn_table (ctx\<lparr>ctx_heap := h\<rparr>)" "rc_same (E + ctx_refs ctx) h h1" "rc_bytes h1 p = s"
      "mem_mono (rc_mem h) (rc_mem h1)"
  by (rule ctx_new2 [OF assms, of s]) (use that in simp_all)

lemma rc_ok_sub_live: "rc_ok h M \<Longrightarrow> N \<subseteq># M \<Longrightarrow> p \<in># N \<Longrightarrow> rc_live N p"
  using rc_ok_live [of h M p] by (auto simp: rc_live_def dest: mset_subset_eqD split: rcptr.splits)

section \<open>Insertion by the deflater\<close>

definition df_ok :: "nghttp2_hd_deflater \<Rightarrow> rcptr multiset \<Rightarrow> bool" where
  "df_ok df E \<longleftrightarrow> ctx_ok (df_ctx df) (Some (df_map df)) E"

text \<open>What deflating a field keeps, besides the table.\<close>

definition df_kept :: "nghttp2_hd_deflater \<Rightarrow> nghttp2_hd_deflater \<Rightarrow> rcptr multiset \<Rightarrow> bool" where
  "df_kept df df' E \<longleftrightarrow> df_ok df' E \<and> hd_table_bufsize_max (df_ctx df') = hd_table_bufsize_max (df_ctx df) \<and>
     ctx_bad (df_ctx df') = ctx_bad (df_ctx df) \<and> deflate_hd_table_bufsize_max df' = deflate_hd_table_bufsize_max df \<and>
     df_min_hd_table_bufsize_max df' = df_min_hd_table_bufsize_max df \<and> notify_table_size_change df' = notify_table_size_change df \<and>
     rc_same E (ctx_heap (df_ctx df)) (ctx_heap (df_ctx df')) \<and>
     mem_mono (rc_mem (ctx_heap (df_ctx df))) (rc_mem (ctx_heap (df_ctx df')))"

lemma df_kept_refl: "df_ok df E \<Longrightarrow> df_kept df df E"
  by (simp add: df_kept_def)

lemma df_kept_trans: "df_kept a b E \<Longrightarrow> df_kept b c E \<Longrightarrow> df_kept a c E"
  by (auto simp: df_kept_def intro: rc_same_trans mem_mono_trans)

abbreviation df_table :: "nghttp2_hd_deflater \<Rightarrow> field list" where
  "df_table df \<equiv> dyn_table (df_ctx df)"

abbreviation df_reliable :: "nghttp2_hd_deflater \<Rightarrow> bool" where
  "df_reliable df \<equiv> mem_reliable (rc_mem (ctx_heap (df_ctx df)))"

text \<open>The second half of \<^verbatim>\<open>deflate_add\<close>, when the name is there.\<close>

lemma df_keptI:
  assumes "ctx_ok ctx' (Some m) E" "hd_table_bufsize_max ctx' = hd_table_bufsize_max (df_ctx df)" "ctx_bad ctx' = ctx_bad (df_ctx df)"
    "rc_same E (ctx_heap (df_ctx df)) (ctx_heap ctx')" "mem_mono (rc_mem (ctx_heap (df_ctx df))) (rc_mem (ctx_heap ctx'))"
  shows "df_kept df (df\<lparr>df_ctx := ctx', df_map := m\<rparr>) E"
  using assms by (simp add: df_kept_def df_ok_def)

lemma deflate_name_ok:
  assumes ok: "df_ok df E" and idx: "idx = -1 \<or> 0 \<le> idx \<and> nat idx < length (static_fields @ df_table df) \<and>
      fst ((static_fields @ df_table df) ! nat idx) = name"
  defines "ctx \<equiv> df_ctx df"
  obtains h where "deflate_name ctx name idx = Some (Inl ERR_NOMEM, h)"
      "ctx_ok (ctx\<lparr>ctx_heap := h\<rparr>) (Some (df_map df)) E" "rc_same E (ctx_heap ctx) h"
      "mem_mono (rc_mem (ctx_heap ctx)) (rc_mem h)" "\<not> mem_reliable (rc_mem (ctx_heap ctx))"
    | h p where "deflate_name ctx name idx = Some (Inr p, h)"
      "ctx_ok (ctx\<lparr>ctx_heap := h\<rparr>) (Some (df_map df)) (add_mset p E)" "dyn_table (ctx\<lparr>ctx_heap := h\<rparr>) = dyn_table ctx"
      "rc_same E (ctx_heap ctx) h" "rc_bytes h p = name" "mem_mono (rc_mem (ctx_heap ctx)) (rc_mem h)"
proof (cases "idx = -1")
  case True
  have c: "ctx_ok ctx (Some (df_map df)) E" using ok by (simp add: df_ok_def ctx_def)
  show ?thesis
    by (rule ctx_new2 [OF c, of name])
       (use True that in \<open>auto simp: rc_same_def deflate_name_def\<close>)
next
  case False
  have c: "ctx_ok ctx (Some (df_map df)) E" using ok by (simp add: df_ok_def ctx_def)
  have i: "nat idx < NGHTTP2_STATIC_TABLE_LENGTH + length (dyn_table ctx)" using idx False by (simp add: ctx_def)
  show ?thesis
  proof (rule hd_table_get_ok [OF c i])
    fix nv
    assume nv: "nghttp2_hd_table_get ctx (nat idx) = Some nv" "rc_live (E + ctx_refs ctx) (hd_name nv)"
      "(rc_bytes (ctx_heap ctx) (hd_name nv), rc_bytes (ctx_heap ctx) (hd_value nv)) = (static_fields @ dyn_table ctx) ! nat idx"
    have n: "rc_bytes (ctx_heap ctx) (hd_name nv) = name" using idx False nv(3) [symmetric] by (simp add: ctx_def)
    obtain h where h: "nghttp2_rcbuf_incref (ctx_heap ctx) (hd_name nv) = Some h"
      "ctx_ok (ctx\<lparr>ctx_heap := h\<rparr>) (Some (df_map df)) (add_mset (hd_name nv) E)"
      "dyn_table (ctx\<lparr>ctx_heap := h\<rparr>) = dyn_table ctx" "rc_bytes h = rc_bytes (ctx_heap ctx)" "rc_mem h = rc_mem (ctx_heap ctx)"
      by (rule ctx_incref [OF c nv(2)])
    show ?thesis
      by (rule that(2) [OF _ h(2,3)]) (use nv(1) False n h in \<open>auto simp: rc_same_def deflate_name_def\<close>)
  qed
qed

text \<open>The end of the insertion: adding the field and dropping the two local references.\<close>

lemma deflate_insert_ok:
  assumes ok: "ctx_ok ctx (Some m) (add_mset val (add_mset name E))"
    and f: "f = (rc_bytes (ctx_heap ctx) name, rc_bytes (ctx_heap ctx) val)"
    and t: "token = lookup_token (fst f)" "hash = token_hash token (fst f)"
  obtains rv ctx' m' h1 h2 where
    "add_hd_table_incremental ctx \<lparr>hd_name = name, hd_value = val, hd_token = token, hd_flags = NGHTTP2_NV_FLAG_NONE\<rparr>
       (Some m) hash = Some (rv, ctx', Some m')"
    "nghttp2_rcbuf_decref (ctx_heap ctx') (Some val) = Some h1" "nghttp2_rcbuf_decref h1 (Some name) = Some h2"
    "ctx_ok (ctx'\<lparr>ctx_heap := h2\<rparr>) (Some m') E" "hd_table_bufsize_max ctx' = hd_table_bufsize_max ctx" "ctx_bad ctx' = ctx_bad ctx"
    "rc_same E (ctx_heap ctx) h2" "mem_mono (rc_mem (ctx_heap ctx)) (rc_mem h2)"
    "\<And>e. rv = Inl e \<Longrightarrow> \<not> mem_reliable (rc_mem (ctx_heap ctx))"
    "rv = Inr () \<Longrightarrow> dyn_table (ctx'\<lparr>ctx_heap := h2\<rparr>) = table_cut (hd_table_bufsize_max ctx) (f # dyn_table ctx)"
proof -
  let ?E = "add_mset val (add_mset name E)"
  let ?nv = "\<lparr>hd_name = name, hd_value = val, hd_token = token, hd_flags = NGHTTP2_NV_FLAG_NONE\<rparr>"
  have live: "rc_live ?E name" "rc_live ?E val"
    using rc_ok_sub_live [OF ctx_ok_live [OF ok], of ?E] by simp_all
  obtain rv ctx' hm where a: "add_hd_table_incremental ctx ?nv (Some m) hash = Some (rv, ctx', hm)" "ctx_ok ctx' hm ?E"
    "ctx_kept ctx (Some m) ctx' hm ?E"
    "case rv of Inl e \<Rightarrow> \<not> mem_reliable (rc_mem (ctx_heap ctx)) | Inr _ \<Rightarrow> dyn_table ctx' = table_cut (hd_table_bufsize_max ctx) (f # dyn_table ctx)"
    by (rule ctx_ok_add [OF ok, of ?nv f hash]) (use live f t in auto)
  obtain m' where m': "hm = Some m'" using a(3) by (auto simp: ctx_kept_def)
  note c1 = a(2) [unfolded m']
  obtain h1 where h1: "nghttp2_rcbuf_decref (ctx_heap ctx') (Some val) = Some h1" "ctx_ok (ctx'\<lparr>ctx_heap := h1\<rparr>) (Some m') (add_mset name E)"
    "dyn_table (ctx'\<lparr>ctx_heap := h1\<rparr>) = dyn_table ctx'" "rc_same (add_mset name E + ctx_refs ctx') (ctx_heap ctx') h1" "rc_mem h1 = rc_mem (ctx_heap ctx')"
    by (rule ctx_decref [OF c1, of val]) auto
  obtain h2 where h2: "nghttp2_rcbuf_decref h1 (Some name) = Some h2" "ctx_ok (ctx'\<lparr>ctx_heap := h2\<rparr>) (Some m') E"
    "dyn_table (ctx'\<lparr>ctx_heap := h2\<rparr>) = dyn_table ctx'" "rc_same (E + ctx_refs ctx') h1 h2" "rc_mem h2 = rc_mem h1"
    by (rule ctx_decref [OF h1(2), of name]) (use h1(3) in auto)
  have "rc_same E (ctx_heap ctx) h2" using a(3) h1(4) h2(4) by (simp add: ctx_kept_def rc_same_def)
  then show ?thesis
    by (intro that [OF a(1) [unfolded m'] h1(1) h2(1,2)])
       (use a(3,4) h1(5) h2(3,5) in \<open>auto simp: ctx_kept_def split: sum.splits\<close>)
qed

lemma deflate_add_ok:
  assumes ok: "df_ok df E" and idx: "idx = -1 \<or> 0 \<le> idx \<and> nat idx < length (static_fields @ df_table df) \<and>
      fst ((static_fields @ df_table df) ! nat idx) = nv_name nv"
    and t: "token = lookup_token (nv_name nv)" "hash = token_hash token (nv_name nv)"
  obtains e df' where "deflate_add df nv token hash idx = Some (Inl e, df')" "df_kept df df' E"
      "e = ERR_NOMEM \<or> e = ERR_HEADER_COMP" "\<not> df_reliable df"
    | df' where "deflate_add df nv token hash idx = Some (Inr (), df')" "df_kept df df' E"
      "df_table df' = table_cut (hd_table_bufsize_max (df_ctx df)) ((nv_name nv, nv_value nv) # df_table df)"
proof (rule deflate_name_ok [OF ok idx])
  fix h
  assume h: "deflate_name (df_ctx df) (nv_name nv) idx = Some (Inl ERR_NOMEM, h)"
    "ctx_ok ((df_ctx df)\<lparr>ctx_heap := h\<rparr>) (Some (df_map df)) E" "rc_same E (ctx_heap (df_ctx df)) h"
    "mem_mono (rc_mem (ctx_heap (df_ctx df))) (rc_mem h)" "\<not> df_reliable df"
  have "df_kept df (df\<lparr>df_ctx := (df_ctx df)\<lparr>ctx_heap := h\<rparr>\<rparr>) E"
    using df_keptI [OF h(2), of df] h(3,4) by simp
  then show thesis using that(1) [of ERR_NOMEM] h(1,5) by (simp add: deflate_add_def Let_def)
next
  let ?ctx = "df_ctx df"
  fix h p
  assume n: "deflate_name (df_ctx df) (nv_name nv) idx = Some (Inr p, h)"
    "ctx_ok (?ctx\<lparr>ctx_heap := h\<rparr>) (Some (df_map df)) (add_mset p E)" "dyn_table (?ctx\<lparr>ctx_heap := h\<rparr>) = dyn_table ?ctx"
    "rc_same E (ctx_heap ?ctx) h" "rc_bytes h p = nv_name nv" "mem_mono (rc_mem (ctx_heap ?ctx)) (rc_mem h)"
  show thesis
  proof (rule ctx_new2_heap [OF n(2), of "nv_value nv"])
    fix h1
    assume h1: "nghttp2_rcbuf_new2 h (nv_value nv) = (Inl ERR_NOMEM, h1)" 
      "ctx_ok (?ctx\<lparr>ctx_heap := h1\<rparr>) (Some (df_map df)) (add_mset p E)"
      "rc_bytes h1 = rc_bytes h" "mem_mono (rc_mem h) (rc_mem h1)" "\<not> mem_reliable (rc_mem h)"
    obtain h2 where h2: "nghttp2_rcbuf_decref h1 (Some p) = Some h2" "ctx_ok (?ctx\<lparr>ctx_heap := h2\<rparr>) (Some (df_map df)) E"
      "rc_same (E + ctx_refs ?ctx) h1 h2" "rc_mem h2 = rc_mem h1"
      by (rule ctx_decref [OF h1(2), of p]) auto
    have "rc_same E (ctx_heap ?ctx) h2" using n(4) h1(3) h2(3) by (simp add: rc_same_def)
    then have "df_kept df (df\<lparr>df_ctx := ?ctx\<lparr>ctx_heap := h2\<rparr>\<rparr>) E"
      using df_keptI [OF h2(2), of df] n(6) h1(4) h2(4) by (auto intro: mem_mono_trans)
    moreover have "\<not> df_reliable df" using n(6) h1(5) by (auto simp: mem_mono_def)
    ultimately show thesis using that(1) [of ERR_NOMEM] n(1) h1(1) h2(1) by (simp add: deflate_add_def Let_def)
  next
    fix h1 v
    assume h1: "nghttp2_rcbuf_new2 h (nv_value nv) = (Inr v, h1)" 
      "ctx_ok (?ctx\<lparr>ctx_heap := h1\<rparr>) (Some (df_map df)) (add_mset v (add_mset p E))" "dyn_table (?ctx\<lparr>ctx_heap := h1\<rparr>) = dyn_table (?ctx\<lparr>ctx_heap := h\<rparr>)"
      "rc_same (add_mset p E + ctx_refs ?ctx) h h1" "rc_bytes h1 v = nv_value nv" "mem_mono (rc_mem h) (rc_mem h1)"
    have name: "rc_bytes h1 p = nv_name nv" using h1(4) n(5) by (simp add: rc_same_def)
    obtain rv ctx' m' h2 h3 where a:
      "add_hd_table_incremental (?ctx\<lparr>ctx_heap := h1\<rparr>) \<lparr>hd_name = p, hd_value = v, hd_token = token, hd_flags = NGHTTP2_NV_FLAG_NONE\<rparr>
         (Some (df_map df)) hash = Some (rv, ctx', Some m')"
      "nghttp2_rcbuf_decref (ctx_heap ctx') (Some v) = Some h2" "nghttp2_rcbuf_decref h2 (Some p) = Some h3"
      "ctx_ok (ctx'\<lparr>ctx_heap := h3\<rparr>) (Some m') E" "hd_table_bufsize_max ctx' = hd_table_bufsize_max ?ctx" "ctx_bad ctx' = ctx_bad ?ctx"
      "rc_same E h1 h3" "mem_mono (rc_mem h1) (rc_mem h3)"
      "\<And>e. rv = Inl e \<Longrightarrow> \<not> mem_reliable (rc_mem h1)"
      "rv = Inr () \<Longrightarrow> dyn_table (ctx'\<lparr>ctx_heap := h3\<rparr>) = table_cut (hd_table_bufsize_max ?ctx) ((nv_name nv, nv_value nv) # dyn_table ?ctx)"
      by (rule deflate_insert_ok [OF h1(2), of "(nv_name nv, nv_value nv)" token hash]) (use name h1(3,5) n(3) t in simp_all)
    let ?df = "df\<lparr>df_ctx := ctx'\<lparr>ctx_heap := h3\<rparr>, df_map := m'\<rparr>"
    have "rc_same E (ctx_heap ?ctx) h3" using n(4) h1(4) a(7) by (simp add: rc_same_def)
    then have k: "df_kept df ?df E" using df_keptI [OF a(4), of df] a(5,6,8) n(6) h1(6) by (auto intro: mem_mono_trans)
    have u: "\<not> mem_reliable (rc_mem h1) \<Longrightarrow> \<not> df_reliable df" using n(6) h1(6) by (auto simp: mem_mono_def)
    show thesis
    proof (cases rv)
      case (Inl e)
      then show thesis using that(1) [OF _ k, of ERR_HEADER_COMP] a u n(1) h1(1) by (simp add: deflate_add_def Let_def)
    next
      case (Inr _)
      then show thesis using that(2) [OF _ k] a n(1) h1(1) by (simp add: deflate_add_def Let_def)
    qed
  qed
qed

section \<open>Deflating one field\<close>

text \<open>The fields that are never indexed, whatever the state of the deflater.\<close>

definition never_indexed :: "nghttp2_nv \<Rightarrow> bool" where
  "never_indexed nv \<longleftrightarrow> lookup_token (nv_name nv) = NGHTTP2_TOKEN_AUTHORIZATION \<or>
     lookup_token (nv_name nv) = NGHTTP2_TOKEN_COOKIE \<and> length (nv_value nv) < 20 \<or>
     nv_flags nv AND NGHTTP2_NV_FLAG_NO_INDEX \<noteq> 0"

definition nv_fits :: "nghttp2_nv \<Rightarrow> bool" where
  "nv_fits nv \<longleftrightarrow> length (nv_name nv) < 2 ^ 28 \<and> length (nv_value nv) < 2 ^ 28"

definition nv_bound :: "nghttp2_nv \<Rightarrow> nat" where
  "nv_bound nv = 12 + length (nv_name nv) + length (nv_value nv)"

lemma deflate_mode_never: "deflate_mode df nv (lookup_token (nv_name nv)) = HD_NEVER_INDEXING \<longleftrightarrow> never_indexed nv"
  by (simp add: deflate_mode_def never_indexed_def hd_deflate_decide_indexing_def)

lemma length_int_bytes_le:
  "n < 2 ^ 28 \<Longrightarrow> length (int_bytes b n prefix) \<le> 5"
  "n < 2 ^ 32 \<Longrightarrow> length (int_bytes b n prefix) \<le> 6"
proof -
  show "n < 2 ^ 28 \<Longrightarrow> length (int_bytes b n prefix) \<le> 5"
    using length_cont_bytes_le [of "n - prefix_max prefix" 4] by (auto simp: int_bytes_def Let_def)
  show "n < 2 ^ 32 \<Longrightarrow> length (int_bytes b n prefix) \<le> 6"
    unfolding length_int_bytes by (rule count_encoded_length_le)
qed

lemma length_string_bytes: "length s < 2 ^ 28 \<Longrightarrow> length (string_bytes s) \<le> 5 + length s"
  using length_int_bytes_le(1) [of "nghttp2_hd_huff_encode_count s" "0x80" 7] length_int_bytes_le(1) [of "length s" 0 7]
  by (auto simp: string_bytes_def length_huff_bytes)

lemma length_rep_bytes:
  assumes "nv_fits nv"
  shows "i + 1 < 2 ^ 32 \<Longrightarrow> length (rep_bytes (Rep_indexed i)) \<le> nv_bound nv"
    "i + 1 < 2 ^ 32 \<Longrightarrow> length (rep_bytes (Rep_indname mode i (nv_value nv))) \<le> nv_bound nv"
    "length (rep_bytes (Rep_newname mode (nv_name nv) (nv_value nv))) \<le> nv_bound nv"
proof -
  have s: "length (string_bytes (nv_name nv)) \<le> 5 + length (nv_name nv)" "length (string_bytes (nv_value nv)) \<le> 5 + length (nv_value nv)"
    using assms by (auto simp: nv_fits_def intro: length_string_bytes)
  have i: "length (int_bytes b (i + 1) p) \<le> 6" if "i + 1 < 2 ^ 32" for b p using that by (rule length_int_bytes_le)
  show "i + 1 < 2 ^ 32 \<Longrightarrow> length (rep_bytes (Rep_indexed i)) \<le> nv_bound nv"
    using i [of "0x80" 7] unfolding rep_bytes.simps nv_bound_def by linarith
  show "i + 1 < 2 ^ 32 \<Longrightarrow> length (rep_bytes (Rep_indname mode i (nv_value nv))) \<le> nv_bound nv"
    using i [of "pack_first_byte mode" "if mode = HD_WITH_INDEXING then 6 else 4"] s(2)
    unfolding rep_bytes.simps nv_bound_def length_append by linarith
  show "length (rep_bytes (Rep_newname mode (nv_name nv) (nv_value nv))) \<le> nv_bound nv"
    using s by (simp add: nv_bound_def)
qed

definition deflate_error :: "nghttp2_hd_deflater \<Rightarrow> nghttp2_bufs \<Rightarrow> nat \<Rightarrow> nghttp2_error \<Rightarrow> bool" where
  "deflate_error df bufs need e \<longleftrightarrow> e = ERR_BUFFER_ERROR \<and> bufs_room bufs < need \<or>
     (e = ERR_NOMEM \<or> e = ERR_HEADER_COMP) \<and> (\<not> df_reliable df \<or> \<not> mem_reliable (bufs_mem bufs))"

lemma deflate_emit:
  assumes em: "emits f (rep_bytes rep)" and reg: "bufs_regular bufs"
    and len: "length (rep_bytes rep) \<le> need"
  obtains e bufs' where "map_option (\<lambda>(rv, bufs). (rv, df', bufs)) (f bufs) = Some (Inl e, df', bufs')"
      "bufs_regular bufs'" "deflate_error df bufs need e"
    | bufs' where "map_option (\<lambda>(rv, bufs). (rv, df', bufs)) (f bufs) = Some (Inr (), df', bufs')"
      "bufs_kept bufs bufs'" "bufs_bytes bufs' = bufs_bytes bufs @ rep_bytes rep" "bufs_room bufs' + length (rep_bytes rep) = bufs_room bufs"
  by (rule emitsE [OF em reg]) (use that len in \<open>auto simp: deflate_error_def bufs_failed_def\<close>)

lemma deflate_nv_ok:
  assumes ok: "df_ok df E" and reg: "bufs_regular bufs" and fits: "nv_fits nv"
  obtains e df' bufs' where "deflate_nv df bufs nv = Some (Inl e, df', bufs')" "df_kept df df' E" "bufs_regular bufs'"
      "deflate_error df bufs (nv_bound nv) e"
    | rep df' bufs' where "deflate_nv df bufs nv = Some (Inr (), df', bufs')" "df_kept df df' E" "bufs_kept bufs bufs'"
      "bufs_bytes bufs' = bufs_bytes bufs @ rep_bytes rep" "bufs_room bufs' + length (rep_bytes rep) = bufs_room bufs"
      "length (rep_bytes rep) \<le> nv_bound nv"
      "rep_apply rep (hd_table_bufsize_max (df_ctx df), df_table df) =
         Some ((hd_table_bufsize_max (df_ctx df), df_table df'), Some ((nv_name nv, nv_value nv), never_indexed nv))"
proof -
  define token where "token = lookup_token (nv_name nv)"
  define hash where "hash = deflate_hash token nv"
  define mode where "mode = deflate_mode df nv token"
  let ?full = "static_fields @ df_table df" and ?f = "(nv_name nv, nv_value nv)" and ?m = "hd_table_bufsize_max (df_ctx df)"
  have c: "ctx_ok (df_ctx df) (Some (df_map df)) E" using ok by (simp add: df_ok_def)
  have hash': "hash = token_hash token (nv_name nv)" by (simp add: hash_def deflate_hash_def token_hash_def)
  have never: "mode = HD_NEVER_INDEXING \<longleftrightarrow> never_indexed nv" by (simp add: mode_def token_def deflate_mode_never)
  obtain sr where sr: "search_hd_table (df_ctx df) nv token mode (df_map df) hash = Some sr" "search_post ?full ?f mode sr"
    using search_ok [OF c token_def hash', of mode] by blast
  have len: "length ?full < 2 ^ 28" using ctx_okD(5) [OF c] by (simp add: NGHTTP2_STATIC_TABLE_LENGTH_def)
  note lens = fits [unfolded nv_fits_def]
  note dn = deflate_nv_def [of df bufs nv, folded token_def, unfolded Let_def, folded hash_def mode_def, unfolded sr(1) bind.simps]
  show ?thesis
  proof (cases "sr_name_value_match sr")
    case True
    then obtain i where i: "sr_index sr = int i" "i < length ?full" "?full ! i = ?f" and nn: "\<not> never_indexed nv"
      using sr(2) never by (auto simp: search_post_def)
    have em: "emits (\<lambda>bufs. emit_indexed_block bufs i) (rep_bytes (Rep_indexed i))" by (rule emit_indexed_emits) (use i(2) len in simp)
    have d: "deflate_nv df bufs nv = map_option (\<lambda>(rv, bufs). (rv, df, bufs)) (emit_indexed_block bufs i)" using dn True i(1) by simp
    have lb: "length (rep_bytes (Rep_indexed i)) \<le> nv_bound nv" by (rule length_rep_bytes(1) [OF fits]) (use i(2) len in simp)
    have ap: "rep_apply (Rep_indexed i) (?m, df_table df) = Some ((?m, df_table df), Some (?f, never_indexed nv))" using i nn by simp
    show ?thesis
      by (rule deflate_emit [OF em reg lb, of df df], unfold d [symmetric])
         (use that(1) that(2) [OF _ _ _ _ _ lb ap] df_kept_refl [OF ok] in blast)+
  next
    case False
    have idx: "sr_index sr = -1 \<or> 0 \<le> sr_index sr \<and> nat (sr_index sr) < length ?full \<and> fst (?full ! nat (sr_index sr)) = nv_name nv"
      using sr(2) False by (auto simp: search_post_def)
    define rep where "rep = (if sr_index sr = -1 then Rep_newname mode (nv_name nv) (nv_value nv) else Rep_indname mode (nat (sr_index sr)) (nv_value nv))"
    let ?emit = "\<lambda>bufs. if sr_index sr = -1 then emit_newname_block bufs nv mode else emit_indname_block bufs (nat (sr_index sr)) nv mode"
    have em: "emits ?emit (rep_bytes rep)"
      using emit_newname_emits [of nv mode] emit_indname_emits [of "nat (sr_index sr)" nv mode] idx len lens by (auto simp: rep_def)
    have lb: "length (rep_bytes rep) \<le> nv_bound nv"
    proof (cases "sr_index sr = -1")
      case True
      then show ?thesis using length_rep_bytes(3) [OF fits, of mode] by (simp add: rep_def)
    next
      case False
      then have "nat (sr_index sr) + 1 < 2 ^ 32" using idx len by auto
      then show ?thesis using length_rep_bytes(2) [OF fits] False by (simp add: rep_def)
    qed
    have ap: "rep_apply rep (?m, df_table df) = Some ((?m, if mode = HD_WITH_INDEXING then table_cut ?m (?f # df_table df) else df_table df), Some (?f, never_indexed nv))"
      using idx never by (auto simp: rep_def rep_literal_def)
    have d: "deflate_nv df bufs nv = do {
       (rv, df) \<leftarrow> (if mode = HD_WITH_INDEXING then deflate_add df nv token hash (sr_index sr) else Some (Inr (), df));
       case rv of Inl e \<Rightarrow> Some (Inl e, df, bufs) | Inr _ \<Rightarrow> map_option (\<lambda>(rv, bufs). (rv, df, bufs)) (?emit bufs) }"
      using dn False by simp
    show ?thesis
    proof (cases "mode = HD_WITH_INDEXING")
      case True
      show ?thesis
      proof (rule deflate_add_ok [OF ok idx token_def hash'])
        fix e df'
        assume "deflate_add df nv token hash (sr_index sr) = Some (Inl e, df')" "df_kept df df' E"
          "e = ERR_NOMEM \<or> e = ERR_HEADER_COMP" "\<not> df_reliable df"
        then show ?thesis using that(1) reg d True by (auto simp: deflate_error_def)
      next
        fix df'
        assume a: "deflate_add df nv token hash (sr_index sr) = Some (Inr (), df')" "df_kept df df' E"
          "df_table df' = table_cut ?m (?f # df_table df)"
        have d1: "deflate_nv df bufs nv = map_option (\<lambda>(rv, bufs). (rv, df', bufs)) (?emit bufs)" using d True a(1) by simp
        have ap1: "rep_apply rep (?m, df_table df) = Some ((?m, df_table df'), Some (?f, never_indexed nv))" using ap True a(3) by simp
        show ?thesis
          by (rule deflate_emit [OF em reg lb, of df' df], unfold d1 [symmetric])
             (use that(1) that(2) [OF _ _ _ _ _ lb ap1] a(2) in blast)+
      qed
    next
      case False
      have d1: "deflate_nv df bufs nv = map_option (\<lambda>(rv, bufs). (rv, df, bufs)) (?emit bufs)" using d False by simp
      have ap1: "rep_apply rep (?m, df_table df) = Some ((?m, df_table df), Some (?f, never_indexed nv))" using ap False by simp
      show ?thesis
        by (rule deflate_emit [OF em reg lb, of df df], unfold d1 [symmetric])
           (use that(1) that(2) [OF _ _ _ _ _ lb ap1] df_kept_refl [OF ok] in blast)+
    qed
  qed
qed

section \<open>Deflating a header block\<close>

abbreviation nv_out :: "nghttp2_nv \<Rightarrow> field \<times> bool" where
  "nv_out nv \<equiv> ((nv_name nv, nv_value nv), never_indexed nv)"

fun rep_is_field :: "hp_rep \<Rightarrow> bool" where
  "rep_is_field (Rep_size _) \<longleftrightarrow> False"
| "rep_is_field _ \<longleftrightarrow> True"

lemma rep_apply_field: "rep_apply r s = Some (s', Some f) \<Longrightarrow> rep_is_field r"
  by (cases r; cases s) (auto split: if_splits)

lemma reps_apply_append:
  "reps_apply (rs @ rs') s = do { (s1, outs) \<leftarrow> reps_apply rs s; (s2, outs') \<leftarrow> reps_apply rs' s1; Some (s2, outs @ outs') }"
proof (induction rs arbitrary: s)
  case (Cons r rs)
  show ?case
  proof (cases "rep_apply r s")
    case (Some so)
    obtain s1 o1 where so: "so = (s1, o1)" by (cases so)
    show ?thesis using Cons.IH [of s1] Some so
      by (cases "reps_apply rs s1") (auto split: option.splits bind_splits)
  qed simp
qed (auto split: bind_splits)

lemma reps_bytes_simps [simp]:
  "reps_bytes [] = []" "reps_bytes (r # rs) = rep_bytes r @ reps_bytes rs" "reps_bytes (rs @ rs') = reps_bytes rs @ reps_bytes rs'"
  by (simp_all add: reps_bytes_def)

lemma deflate_error_step:
  assumes "df_kept df df' E" "bufs_kept bufs bufs'" "bufs_room bufs' + n = bufs_room bufs" "n \<le> need" "deflate_error df' bufs' need' e"
  shows "deflate_error df bufs (need + need') e"
  using assms by (auto simp: deflate_error_def df_kept_def bufs_kept_def mem_mono_def)

lemma deflate_nvs_ok:
  assumes "df_ok df E" "bufs_regular bufs" "list_all nv_fits nva"
  obtains e df' bufs' where "deflate_nvs df bufs nva = Some (Inl e, df', bufs')" "df_kept df df' E" "bufs_regular bufs'"
      "deflate_error df bufs (sum_list (map nv_bound nva)) e"
    | reps df' bufs' where "deflate_nvs df bufs nva = Some (Inr (), df', bufs')" "df_kept df df' E" "bufs_kept bufs bufs'"
      "bufs_bytes bufs' = bufs_bytes bufs @ reps_bytes reps" "bufs_room bufs' + length (reps_bytes reps) = bufs_room bufs"
      "length (reps_bytes reps) \<le> sum_list (map nv_bound nva)" "list_all rep_is_field reps"
      "reps_apply reps (hd_table_bufsize_max (df_ctx df), df_table df) =
         Some ((hd_table_bufsize_max (df_ctx df), df_table df'), map nv_out nva)"
  using assms
proof (induction nva arbitrary: df bufs thesis)
  case Nil
  then show ?case using Nil(2) [of df bufs "[]"] df_kept_refl bufs_kept_refl by simp
next
  case (Cons nv nva)
  let ?m = "hd_table_bufsize_max (df_ctx df)"
  have fits: "nv_fits nv" "list_all nv_fits nva" using Cons.prems(5) by simp_all
  show ?case
  proof (rule deflate_nv_ok [OF Cons.prems(3,4) fits(1)])
    fix e df1 bufs1
    assume 1: "deflate_nv df bufs nv = Some (Inl e, df1, bufs1)" "df_kept df df1 E" "bufs_regular bufs1" "deflate_error df bufs (nv_bound nv) e"
    have "deflate_error df bufs (sum_list (map nv_bound (nv # nva))) e" using 1(4) by (auto simp: deflate_error_def)
    then show ?case using Cons.prems(1) 1 by simp
  next
    fix rep df1 bufs1
    assume 1: "deflate_nv df bufs nv = Some (Inr (), df1, bufs1)" "df_kept df df1 E" "bufs_kept bufs bufs1"
      "bufs_bytes bufs1 = bufs_bytes bufs @ rep_bytes rep" "bufs_room bufs1 + length (rep_bytes rep) = bufs_room bufs"
      "length (rep_bytes rep) \<le> nv_bound nv" "rep_apply rep (?m, df_table df) = Some ((?m, df_table df1), Some (nv_out nv))"
    have df1: "df_ok df1 E" "hd_table_bufsize_max (df_ctx df1) = ?m" using 1(2) by (simp_all add: df_kept_def)
    have b1: "bufs_regular bufs1" using 1(3) by (simp add: bufs_kept_def)
    show ?case
    proof (rule Cons.IH [OF _ _ df1(1) b1 fits(2)], unfold df1(2))
      fix e df2 bufs2
      assume 2: "deflate_nvs df1 bufs1 nva = Some (Inl e, df2, bufs2)" "df_kept df1 df2 E" "bufs_regular bufs2"
        "deflate_error df1 bufs1 (sum_list (map nv_bound nva)) e"
      show ?case
        by (rule Cons.prems(1) [OF _ df_kept_trans [OF 1(2) 2(2)] 2(3)])
           (use 1(1) 2(1) deflate_error_step [OF 1(2,3,5,6) 2(4)] in simp_all)
    next
      fix reps df2 bufs2
      assume 2: "deflate_nvs df1 bufs1 nva = Some (Inr (), df2, bufs2)" "df_kept df1 df2 E" "bufs_kept bufs1 bufs2"
        "bufs_bytes bufs2 = bufs_bytes bufs1 @ reps_bytes reps" "bufs_room bufs2 + length (reps_bytes reps) = bufs_room bufs1"
        "length (reps_bytes reps) \<le> sum_list (map nv_bound nva)" "list_all rep_is_field reps"
        "reps_apply reps (?m, df_table df1) = Some ((?m, df_table df2), map nv_out nva)"
      show ?case
        by (rule Cons.prems(2) [of df2 bufs2 "rep # reps"])
           (use 1 2 df_kept_trans [OF 1(2) 2(2)] bufs_kept_trans [OF 1(3) 2(3)] rep_apply_field [OF 1(7)] in auto)
    qed
  qed
qed

text \<open>
  The peer: \<open>pm\<close> is the maximum size its table had after the last header block, \<open>pt\<close> its table then.  The deflater may
  already have cut its own table to sizes it has not announced yet; the smallest of them is pending.
\<close>

definition df_sync :: "nghttp2_hd_deflater \<Rightarrow> nat \<times> field list \<Rightarrow> bool" where
  "df_sync df peer \<longleftrightarrow> (let (pm, pt) = peer in
     df_table df = table_cut (df_min_hd_table_bufsize_max df) pt \<and> df_min_hd_table_bufsize_max df \<le> SIZE_UINT32_MAX \<and>
     table_size pt \<le> SIZE_UINT32_MAX \<and>
     (\<not> notify_table_size_change df \<longrightarrow>
        df_min_hd_table_bufsize_max df = SIZE_UINT32_MAX \<and> pm = hd_table_bufsize_max (df_ctx df)))"

text \<open>The sizes the next header block announces.\<close>

definition notify_sizes :: "nghttp2_hd_deflater \<Rightarrow> nat list" where
  "notify_sizes df = (if notify_table_size_change df
     then (if hd_table_bufsize_max (df_ctx df) > df_min_hd_table_bufsize_max df then [df_min_hd_table_bufsize_max df] else []) @
       [hd_table_bufsize_max (df_ctx df)]
     else [])"

lemma table_cut_min: "table_cut m (table_cut n t) = table_cut (min m n) t"
proof (cases "m \<le> n")
  case True
  then show ?thesis using table_cut_cut [of m n t] by (simp add: min_def)
next
  case False
  then show ?thesis using table_cut_all [of "table_cut n t" m] table_cut_size [of n t] by (simp add: min_def)
qed

lemma deflate_notify_ok:
  assumes ok: "df_ok df E" and reg: "bufs_regular bufs" and sync: "df_sync df peer"
  defines "m \<equiv> hd_table_bufsize_max (df_ctx df)"
  obtains e df' bufs' where "deflate_notify df bufs = Some (Inl e, df', bufs')" "df_ctx df' = df_ctx df" "df_ok df' E" "bufs_regular bufs'"
      "deflate_error df bufs 12 e"
    | reps df' bufs' where "deflate_notify df bufs = Some (Inr (), df', bufs')" "df_ctx df' = df_ctx df" "df_ok df' E"
      "df_sync df' (m, df_table df')" "\<not> notify_table_size_change df'"
      "deflate_hd_table_bufsize_max df' = deflate_hd_table_bufsize_max df" "bufs_kept bufs bufs'"
      "bufs_bytes bufs' = bufs_bytes bufs @ reps_bytes (map Rep_size reps)" 
      "bufs_room bufs' + length (reps_bytes (map Rep_size reps)) = bufs_room bufs"
      "length (reps_bytes (map Rep_size reps)) \<le> 12" "reps = notify_sizes df"
      "reps_apply (map Rep_size reps) peer = Some ((m, df_table df), [])"
proof (cases "notify_table_size_change df")
  case False
  obtain pm pt where peer: "peer = (pm, pt)" by (cases peer)
  have c: "ctx_ok (df_ctx df) (Some (df_map df)) E" using ok by (simp add: df_ok_def)
  have t: "df_table df = pt" "pm = m" using sync False table_cut_all [of pt SIZE_UINT32_MAX] by (simp_all add: df_sync_def peer m_def)
  have s: "df_sync df (m, df_table df)" using sync t by (simp add: peer)
  show ?thesis
    by (rule that(2) [of df bufs "[]"]) (use False ok reg t s peer in \<open>simp_all add: deflate_notify_def bufs_kept_refl notify_sizes_def\<close>)
next
  case True
  define mn where "mn = df_min_hd_table_bufsize_max df"
  let ?df = "df\<lparr>notify_table_size_change := False, df_min_hd_table_bufsize_max := SIZE_UINT32_MAX\<rparr>"
  define sizes where "sizes = (if m > mn then [mn] else []) @ [m]"
  obtain pm pt where peer: "peer = (pm, pt)" by (cases peer)
  have c: "ctx_ok (df_ctx df) (Some (df_map df)) E" using ok by (simp add: df_ok_def)
  have m: "m < 2 ^ 32" "table_size (df_table df) \<le> m" using ctx_okD(3,4) [OF c] by (simp_all add: m_def)
  have mn: "mn < 2 ^ 32" using sync by (simp add: df_sync_def peer mn_def SIZE_UINT32_MAX_def Let_def)
  have ok': "df_ok ?df E" using ok by (simp add: df_ok_def)
  have pt: "df_table df = table_cut mn pt" using sync by (simp add: df_sync_def peer mn_def)
  have sz: "table_size (df_table df) \<le> SIZE_UINT32_MAX" using m by (simp add: SIZE_UINT32_MAX_def)
  then have s: "df_sync ?df (m, df_table ?df)" by (simp add: df_sync_def table_cut_all m_def)
  have tm: "table_cut m pt = df_table df" if "\<not> m > mn"
    using table_cut_all [OF m(2)] that unfolding pt table_cut_min by (simp add: min_def)
  have tt: "table_cut m (table_cut mn pt) = df_table df" using table_cut_all [OF m(2)] unfolding pt [symmetric] .
  have ap: "reps_apply (map Rep_size sizes) peer = Some ((m, df_table df), [])"
    using tm tt by (simp add: sizes_def peer)
  have l6: "length (int_bytes 32 m 5) \<le> 6" "length (int_bytes 32 mn 5) \<le> 6"
    using m(1) mn by (auto intro: length_int_bytes_le(2))
  have len: "length (reps_bytes (map Rep_size sizes)) \<le> 12" using l6 by (simp add: sizes_def)
  have e1: "emits (\<lambda>bufs. if m > mn then emit_table_size bufs mn else Some (Inr (), bufs)) (if m > mn then rep_bytes (Rep_size mn) else [])"
    using emit_table_size_emits [of mn] emits_nil mn by simp
  have e2: "emits (\<lambda>bufs. emit_table_size bufs m) (rep_bytes (Rep_size m))" using m(1) by (intro emit_table_size_emits) simp
  have rb: "(if m > mn then rep_bytes (Rep_size mn) else []) @ rep_bytes (Rep_size m) = reps_bytes (map Rep_size sizes)"
    by (simp add: sizes_def)
  let ?f = "\<lambda>bufs. (if m > mn then emit_table_size bufs mn else Some (Inr (), bufs)) \<bind>
      (\<lambda>(rv, bufs). case rv of Inl e \<Rightarrow> Some (Inl e, bufs) | Inr _ \<Rightarrow> emit_table_size bufs m)"
  have em: "emits ?f (reps_bytes (map Rep_size sizes))" by (rule emits_bind [OF e1 e2, unfolded rb])
  have d: "deflate_notify df bufs = map_option (\<lambda>(rv, bufs). (rv, ?df, bufs)) (?f bufs)"
    using True unfolding deflate_notify_def mn_def [symmetric] m_def [symmetric] Let_def
    by (auto split: option.splits sum.splits bind_splits)
  show ?thesis
  proof (rule emitsE [OF em reg])
    fix bufs'
    assume b: "?f bufs = Some (Inr (), bufs')" "bufs_kept bufs bufs'" "bufs_bytes bufs' = bufs_bytes bufs @ reps_bytes (map Rep_size sizes)"
      "bufs_room bufs' + length (reps_bytes (map Rep_size sizes)) = bufs_room bufs"
    have d1: "deflate_notify df bufs = Some (Inr (), ?df, bufs')" unfolding d b(1) by simp
    show ?thesis
      by (rule that(2) [OF d1 _ ok' s _ _ b(2-4) len _ ap]) (use True in \<open>simp_all add: sizes_def notify_sizes_def m_def mn_def\<close>)
  next
    fix e bufs'
    assume b: "?f bufs = Some (Inl e, bufs')" "bufs_failed bufs (length (reps_bytes (map Rep_size sizes))) e bufs'"
    have d1: "deflate_notify df bufs = Some (Inl e, ?df, bufs')" unfolding d b(1) by simp
    show ?thesis
      by (rule that(1) [OF d1 _ ok']) (use b(2) len in \<open>auto simp: bufs_failed_def deflate_error_def\<close>)
  qed
qed

lemma deflate_hd_bufs_ok:
  assumes ok: "df_ok df E" and reg: "bufs_regular bufs" and fits: "list_all nv_fits nva" and sync: "df_sync df peer" and nb: "\<not> ctx_bad (df_ctx df)"
  defines "m \<equiv> hd_table_bufsize_max (df_ctx df)"
  obtains e df' bufs' where "nghttp2_hd_deflate_hd_bufs df bufs nva = Some (Inl e, df', bufs')" "df_ok df' E" "ctx_bad (df_ctx df')"
      "bufs_regular bufs'" "deflate_error df bufs (nghttp2_hd_deflate_bound nva) e"
    | sizes reps df' bufs' where "nghttp2_hd_deflate_hd_bufs df bufs nva = Some (Inr (), df', bufs')" "df_ok df' E" "\<not> ctx_bad (df_ctx df')"
      "df_sync df' (m, df_table df')" "hd_table_bufsize_max (df_ctx df') = m" "bufs_kept bufs bufs'"
      "bufs_bytes bufs' = bufs_bytes bufs @ reps_bytes (map Rep_size sizes @ reps)"
      "length (reps_bytes (map Rep_size sizes @ reps)) \<le> nghttp2_hd_deflate_bound nva" "sizes = notify_sizes df" "list_all rep_is_field reps"
      "\<not> notify_table_size_change df'" "deflate_hd_table_bufsize_max df' = deflate_hd_table_bufsize_max df"
      "mem_mono (rc_mem (ctx_heap (df_ctx df))) (rc_mem (ctx_heap (df_ctx df')))"
      "reps_apply (map Rep_size sizes @ reps) peer = Some ((m, df_table df'), map nv_out nva)"
proof -
  have bound: "12 + sum_list (map nv_bound nva) = nghttp2_hd_deflate_bound nva"
    by (induction nva) (simp_all add: nghttp2_hd_deflate_bound_def nv_bound_def)
  note dd = nghttp2_hd_deflate_hd_bufs_def [of df bufs nva]
  show ?thesis
  proof (rule deflate_notify_ok [OF ok reg sync], fold m_def)
    fix e df' bufs'
    assume 1: "deflate_notify df bufs = Some (Inl e, df', bufs')" "df_ctx df' = df_ctx df" "df_ok df' E" "bufs_regular bufs'" "deflate_error df bufs 12 e"
    let ?df = "df'\<lparr>df_ctx := (df_ctx df')\<lparr>ctx_bad := True\<rparr>\<rparr>"
    have "df_ok ?df E" using 1(3) by (simp add: df_ok_def ctx_ok_def ctx_inv_def ctx_addrs_def dyn_table_def ctx_fields_def)
    moreover have "deflate_error df bufs (nghttp2_hd_deflate_bound nva) e" using 1(5) bound by (auto simp: deflate_error_def)
    ultimately show ?thesis using that(1) [of e ?df bufs'] 1(1,4) nb by (simp add: dd)
  next
    fix sizes df1 bufs1
    assume 1: "deflate_notify df bufs = Some (Inr (), df1, bufs1)" "df_ctx df1 = df_ctx df" "df_ok df1 E"
      "df_sync df1 (m, df_table df1)" "\<not> notify_table_size_change df1" "bufs_kept bufs bufs1"
      "bufs_bytes bufs1 = bufs_bytes bufs @ reps_bytes (map Rep_size sizes)" 
      "bufs_room bufs1 + length (reps_bytes (map Rep_size sizes)) = bufs_room bufs"
      "length (reps_bytes (map Rep_size sizes)) \<le> 12" "sizes = notify_sizes df"
      "reps_apply (map Rep_size sizes) peer = Some ((m, df_table df), [])"
      "deflate_hd_table_bufsize_max df1 = deflate_hd_table_bufsize_max df"
    have b1: "bufs_regular bufs1" using 1(6) by (simp add: bufs_kept_def)
    show ?thesis
    proof (rule deflate_nvs_ok [OF 1(3) b1 fits], unfold 1(2), fold m_def)
      fix e df2 bufs2
      assume 2: "deflate_nvs df1 bufs1 nva = Some (Inl e, df2, bufs2)" "df_kept df1 df2 E" "bufs_regular bufs2"
        "deflate_error df1 bufs1 (sum_list (map nv_bound nva)) e"
      let ?df = "df2\<lparr>df_ctx := (df_ctx df2)\<lparr>ctx_bad := True\<rparr>\<rparr>"
      have "df_ok ?df E" using 2(2) by (simp add: df_kept_def df_ok_def ctx_ok_def ctx_inv_def ctx_addrs_def dyn_table_def ctx_fields_def)
      moreover have "deflate_error df bufs (nghttp2_hd_deflate_bound nva) e"
        using 2(4) 1(2,6,8,9) bound by (auto simp: deflate_error_def bufs_kept_def mem_mono_def)
      ultimately show ?thesis using that(1) [of e ?df bufs2] 1(1) 2(1,3) nb by (simp add: dd)
    next
      fix reps df2 bufs2
      assume 2: "deflate_nvs df1 bufs1 nva = Some (Inr (), df2, bufs2)" "df_kept df1 df2 E" "bufs_kept bufs1 bufs2"
        "bufs_bytes bufs2 = bufs_bytes bufs1 @ reps_bytes reps" "bufs_room bufs2 + length (reps_bytes reps) = bufs_room bufs1"
        "length (reps_bytes reps) \<le> sum_list (map nv_bound nva)" "list_all rep_is_field reps"
        "reps_apply reps (m, df_table df) = Some ((m, df_table df2), map nv_out nva)"
      have c2: "ctx_ok (df_ctx df2) (Some (df_map df2)) E" using 2(2) by (simp add: df_kept_def df_ok_def)
      have m2: "hd_table_bufsize_max (df_ctx df2) = m" "\<not> ctx_bad (df_ctx df2)" using 2(2) 1(2) nb by (simp_all add: df_kept_def m_def)
      have "table_size (df_table df2) \<le> SIZE_UINT32_MAX" using ctx_okD(3,4) [OF c2] by (simp add: SIZE_UINT32_MAX_def)
      then have s2: "df_sync df2 (m, df_table df2)"
        using 1(4,5) 2(2) m2 by (simp add: df_sync_def df_kept_def table_cut_all)
      show ?thesis
      proof (rule that(2) [OF _ _ m2(2) s2 m2(1) bufs_kept_trans [OF 1(6) 2(3)] _ _ 1(10) 2(7)])
        show "nghttp2_hd_deflate_hd_bufs df bufs nva = Some (Inr (), df2, bufs2)" using 1(1) 2(1) nb by (simp add: dd)
        show "df_ok df2 E" using 2(2) by (simp add: df_kept_def)
        show "bufs_bytes bufs2 = bufs_bytes bufs @ reps_bytes (map Rep_size sizes @ reps)" using 1(7) 2(4) by simp
        show "length (reps_bytes (map Rep_size sizes @ reps)) \<le> nghttp2_hd_deflate_bound nva" using 1(9) 2(6) bound by simp
        show "reps_apply (map Rep_size sizes @ reps) peer = Some ((m, df_table df2), map nv_out nva)"
          using 1(11) 2(8) by (simp add: reps_apply_append)
      qed (use 1(2,5,12) 2(2) in \<open>simp_all add: df_kept_def\<close>)
    qed
  qed
qed

section \<open>Table size changes and initial states\<close>

lemma deflate_change_ok:
  assumes ok: "df_ok df E" and sync: "df_sync df peer" and lim: "deflate_hd_table_bufsize_max df < 2 ^ 32"
  obtains df' where "nghttp2_hd_deflate_change_table_size df n = Some df'" "df_ok df' E" "df_sync df' peer"
    "hd_table_bufsize_max (df_ctx df') = min n (deflate_hd_table_bufsize_max df)" "ctx_bad (df_ctx df') = ctx_bad (df_ctx df)"
    "deflate_hd_table_bufsize_max df' = deflate_hd_table_bufsize_max df"
    "rc_same E (ctx_heap (df_ctx df)) (ctx_heap (df_ctx df'))" "mem_mono (rc_mem (ctx_heap (df_ctx df))) (rc_mem (ctx_heap (df_ctx df')))"
    "notify_table_size_change df'" "df_min_hd_table_bufsize_max df' = min (df_min_hd_table_bufsize_max df) (min n (deflate_hd_table_bufsize_max df))"
proof -
  let ?n = "min n (deflate_hd_table_bufsize_max df)"
  obtain pm pt where peer: "peer = (pm, pt)" by (cases peer)
  have c: "ctx_ok (df_ctx df) (Some (df_map df)) E" using ok by (simp add: df_ok_def)
  have n: "?n < 2 ^ 32" using lim by simp
  obtain ctx' hm where s: "hd_context_shrink_table_size ((df_ctx df)\<lparr>hd_table_bufsize_max := ?n\<rparr>) (Some (df_map df)) = Some (ctx', hm)"
    "ctx_ok ctx' hm E" "ctx_kept ((df_ctx df)\<lparr>hd_table_bufsize_max := ?n\<rparr>) (Some (df_map df)) ctx' hm E"
    "dyn_table ctx' = table_cut ?n (df_table df)" by (rule ctx_ok_shrink [OF c n])
  obtain m' where m': "hm = Some m'" using s(3) by (auto simp: ctx_kept_def)
  let ?df = "df\<lparr>df_ctx := ctx', df_map := m', df_min_hd_table_bufsize_max := min (df_min_hd_table_bufsize_max df) ?n,
      notify_table_size_change := True\<rparr>"
  have "df_table ?df = table_cut (min (df_min_hd_table_bufsize_max df) ?n) pt"
    using s(4) sync by (simp add: df_sync_def peer table_cut_min min.commute)
  then have "df_sync ?df peer" using sync by (auto simp: df_sync_def peer)
  moreover have "df_ok ?df E" using s(2) m' by (simp add: df_ok_def)
  moreover have "nghttp2_hd_deflate_change_table_size df n = Some ?df"
    using s(1) m' by (simp add: nghttp2_hd_deflate_change_table_size_def Let_def)
  ultimately show ?thesis using that [of ?df] s(3) by (simp add: ctx_kept_def)
qed

lemma deflate_init2_ok:
  "case nghttp2_hd_deflate_init2 mem n of
     (Inl e, mem') \<Rightarrow> e = ERR_NOMEM \<and> \<not> mem_reliable mem
   | (Inr df, mem') \<Rightarrow> df_ok df {#} \<and> df_sync df (NGHTTP2_HD_DEFAULT_MAX_BUFFER_SIZE, []) \<and> df_table df = [] \<and>
       \<not> ctx_bad (df_ctx df) \<and> deflate_hd_table_bufsize_max df = n \<and>
       hd_table_bufsize_max (df_ctx df) = min n NGHTTP2_HD_DEFAULT_MAX_BUFFER_SIZE \<and>
       mem_mono mem (rc_mem (ctx_heap (df_ctx df)))"
proof (cases "hd_context_init mem")
  case (Pair r mem')
  note i = hd_context_init_ok [of mem "Some hd_map_init", unfolded Pair]
  show ?thesis
  proof (cases r)
    case (Inl e)
    then show ?thesis using i Pair by (simp add: nghttp2_hd_deflate_init2_def)
  next
    case (Inr ctx)
    then have c: "ctx_ok ctx (Some hd_map_init) {#}" "dyn_table ctx = []" "hd_table_bufsize_max ctx = NGHTTP2_HD_DEFAULT_MAX_BUFFER_SIZE"
      "\<not> ctx_bad ctx" "mem_mono mem (rc_mem (ctx_heap ctx))" using i by simp_all
    let ?ctx = "if n < NGHTTP2_HD_DEFAULT_MAX_BUFFER_SIZE then ctx\<lparr>hd_table_bufsize_max := n\<rparr> else ctx"
    have "ctx_addrs ctx = []" using c(2) by (simp add: dyn_table_def ctx_fields_def)
    then have "ctx_ok ?ctx (Some hd_map_init) {#} \<and> dyn_table ?ctx = []"
      using c(1-3) by (auto simp: ctx_ok_def ctx_inv_def dyn_table_def ctx_addrs_def ctx_fields_def)
    then show ?thesis
      using Inr Pair c by (auto simp: nghttp2_hd_deflate_init2_def Let_def df_ok_def df_sync_def min_def)
  qed
qed

section \<open>Writing to memory of the application\<close>

lemma wrap_init_regular:
  assumes "buf \<noteq> []"
  shows "case nghttp2_bufs_wrap_init mem buf of
     (Inl e, mem') \<Rightarrow> e = ERR_NOMEM \<and> \<not> mem_reliable mem \<and> mem_mono mem mem'
   | (Inr bufs, mem') \<Rightarrow> bufs_regular bufs \<and> bufs_bytes bufs = [] \<and> bufs_room bufs = length buf \<and> mem_mono mem mem' \<and>
       bufs_mem bufs = mem'"
  using assms mem_call_reliable [of mem]
  by (auto simp: nghttp2_bufs_wrap_init_def nghttp2_buf_wrap_init_def bufs_regular_def bufs_wf_def buf_wf_def bufs_bytes_def
      buf_bytes_def bufs_room_def nghttp2_buf_avail_def nghttp2_buf_len_def mem_mono_def split: prod.splits)

lemma bufs_len_bytes: "bufs_wf bufs \<Longrightarrow> nghttp2_bufs_len bufs = length (bufs_bytes bufs)"
  using chain_bytes_length [of "bufs_chain bufs"] by (simp add: bufs_wf_def nghttp2_bufs_len_def bufs_bytes_def)

lemma df_ok_mem:
  "df_ok df E \<Longrightarrow> df_ok (df\<lparr>df_ctx := (df_ctx df)\<lparr>ctx_heap := (ctx_heap (df_ctx df))\<lparr>rc_mem := mem\<rparr>\<rparr>\<rparr>) E"
  "dyn_table (ctx\<lparr>ctx_heap := (ctx_heap ctx)\<lparr>rc_mem := mem\<rparr>\<rparr>) = dyn_table ctx"
proof -
  have b: "rc_bytes (h\<lparr>rc_mem := mem\<rparr>) p = rc_bytes h p" for h p by (cases p) (simp_all add: rc_bytes_def)
  show "dyn_table (ctx\<lparr>ctx_heap := (ctx_heap ctx)\<lparr>rc_mem := mem\<rparr>\<rparr>) = dyn_table ctx" for ctx
    by (simp add: dyn_table_def ctx_fields_def ent_bytes_def b)
  assume "df_ok df E"
  then have c: "ctx_ok (df_ctx df) (Some (df_map df)) E" by (simp add: df_ok_def)
  have "rc_ok ((ctx_heap (df_ctx df))\<lparr>rc_mem := mem\<rparr>) (E + ctx_refs (df_ctx df))"
    using ctx_ok_live [OF c] by (simp add: rc_ok_def rc_cell_def)
  then show "df_ok (df\<lparr>df_ctx := (df_ctx df)\<lparr>ctx_heap := (ctx_heap (df_ctx df))\<lparr>rc_mem := mem\<rparr>\<rparr>\<rparr>) E"
    using ctx_ok_heap(1) [OF c] by (simp add: df_ok_def rc_same_def b)
qed

lemma deflate_hd_ok:
  assumes df: "df_ok df E" "df_sync df peer" "\<not> ctx_bad (df_ctx df)" "df_reliable df" and fits: "list_all nv_fits nva"
    and len: "nghttp2_hd_deflate_bound nva \<le> length buf"
  defines "m \<equiv> hd_table_bufsize_max (df_ctx df)"
  obtains df' reps bs where "nghttp2_hd_deflate_hd df buf nva = Some (Inr (length bs), df', bs)"
    "bs = reps_bytes (map Rep_size (notify_sizes df) @ reps)" "length bs \<le> nghttp2_hd_deflate_bound nva" "df_ok df' E"
    "\<not> ctx_bad (df_ctx df')" "df_reliable df'" "hd_table_bufsize_max (df_ctx df') = m" "df_sync df' (m, df_table df')" "\<not> notify_table_size_change df'"
    "deflate_hd_table_bufsize_max df' = deflate_hd_table_bufsize_max df" "list_all rep_is_field reps"
    "reps_apply (map Rep_size (notify_sizes df) @ reps) peer = Some ((m, df_table df'), map nv_out nva)"
proof -
  have ne: "buf \<noteq> []" using len by (auto simp: nghttp2_hd_deflate_bound_def)
  obtain r mem where w: "nghttp2_bufs_wrap_init (rc_mem (ctx_heap (df_ctx df))) buf = (r, mem)" by fastforce
  note wi = wrap_init_regular [OF ne, of "rc_mem (ctx_heap (df_ctx df))", unfolded w]
  obtain bufs where r: "r = Inr bufs" using wi df(4) by (cases r) auto
  have b: "bufs_regular bufs" "bufs_bytes bufs = []" "bufs_room bufs = length buf" "mem_reliable (bufs_mem bufs)" "mem_reliable mem"
    using wi df(4) by (simp_all add: r mem_mono_def)
  define df1 where "df1 = df\<lparr>df_ctx := (df_ctx df)\<lparr>ctx_heap := (ctx_heap (df_ctx df))\<lparr>rc_mem := mem\<rparr>\<rparr>\<rparr>"
  have d1: "df_ok df1 E" "df_sync df1 peer" "\<not> ctx_bad (df_ctx df1)" "df_reliable df1"
    "hd_table_bufsize_max (df_ctx df1) = m" "notify_sizes df1 = notify_sizes df"
    "deflate_hd_table_bufsize_max df1 = deflate_hd_table_bufsize_max df"
    using df_ok_mem(1) [of df E mem] df(1-3) b(5) by (simp_all add: df1_def df_sync_def df_ok_mem(2) m_def notify_sizes_def)
  show ?thesis
  proof (rule deflate_hd_bufs_ok [OF d1(1) b(1) fits d1(2,3)], unfold d1(5-7))
    fix e df' bufs'
    assume "deflate_error df1 bufs (nghttp2_hd_deflate_bound nva) e"
    then show ?thesis using b(3,4) d1(4) len by (auto simp: deflate_error_def)
  next
    fix sizes reps df' bufs'
    assume d: "nghttp2_hd_deflate_hd_bufs df1 bufs nva = Some (Inr (), df', bufs')" "df_ok df' E" "\<not> ctx_bad (df_ctx df')"
      "df_sync df' (m, df_table df')" "hd_table_bufsize_max (df_ctx df') = m" "bufs_kept bufs bufs'"
      "bufs_bytes bufs' = bufs_bytes bufs @ reps_bytes (map Rep_size sizes @ reps)"
      "length (reps_bytes (map Rep_size sizes @ reps)) \<le> nghttp2_hd_deflate_bound nva" "sizes = notify_sizes df" "list_all rep_is_field reps"
      "\<not> notify_table_size_change df'" "deflate_hd_table_bufsize_max df' = deflate_hd_table_bufsize_max df"
      "mem_mono (rc_mem (ctx_heap (df_ctx df1))) (rc_mem (ctx_heap (df_ctx df')))"
      "reps_apply (map Rep_size sizes @ reps) peer = Some ((m, df_table df'), map nv_out nva)"
    have "nghttp2_bufs_len bufs' = length (bufs_bytes bufs')"
      using d(6) by (intro bufs_len_bytes) (simp add: bufs_kept_def bufs_regular_def)
    then have s: "nghttp2_hd_deflate_hd df buf nva = Some (Inr (length (reps_bytes (map Rep_size sizes @ reps))), df', reps_bytes (map Rep_size sizes @ reps))"
      using d(1,7) b(2) w r by (simp add: nghttp2_hd_deflate_hd_def deflate_hd_wrapped_def df1_def [symmetric])
    have rel: "df_reliable df'" using d(13) d1(4) by (simp add: mem_mono_def)
    show ?thesis by (rule that [OF s _ d(8,2,3) rel d(5,4,11,12,10)]) (use d(9,14) in simp_all)
  qed
qed

text \<open>
  C15: \<^verbatim>\<open>nghttp2_hd_deflate_bound\<close> is an upper bound.  For fields whose names and values are shorter than
  \<open>2 ^ 28\<close> bytes, a buffer of that size is enough: unless an allocation fails,
  \<^verbatim>\<open>nghttp2_hd_deflate_hd\<close> succeeds, and what it wrote are the bytes of representations that mean
  exactly the given fields, in order, to a decoder with the table the deflater assumes; sensitive
  fields are marked as never indexed.
\<close>

theorem hd_deflate_bound_suffices:
  assumes "df_ok df E" "df_sync df peer" "\<not> ctx_bad (df_ctx df)" "df_reliable df" "list_all nv_fits nva"
    and "nghttp2_hd_deflate_bound nva \<le> length buf"
  shows "\<exists>df' reps. nghttp2_hd_deflate_hd df buf nva = Some (Inr (length (reps_bytes reps)), df', reps_bytes reps) \<and>
     length (reps_bytes reps) \<le> nghttp2_hd_deflate_bound nva \<and> df_ok df' E \<and>
     reps_apply reps peer = Some ((hd_table_bufsize_max (df_ctx df), df_table df'), map nv_out nva)"
  by (rule deflate_hd_ok [OF assms]) blast

definition df0 :: nghttp2_hd_deflater where
  "df0 = projr (fst (nghttp2_hd_deflate_init2 mem0 4096))"

lemma df0_ok: "df_ok df0 {#}" "df_sync df0 (4096, [])" "\<not> ctx_bad (df_ctx df0)" "df_reliable df0" "df_table df0 = []"
  "hd_table_bufsize_max (df_ctx df0) = 4096"
proof -
  have m: "mem_reliable mem0" by (simp add: mem_reliable_def mem0_def)
  obtain r mem' where i: "nghttp2_hd_deflate_init2 mem0 4096 = (r, mem')" by fastforce
  note d = deflate_init2_ok [of mem0 4096, unfolded i]
  obtain df where r: "r = Inr df" using d m by (cases r) auto
  have "df0 = df" by (simp add: df0_def i r)
  then show "df_ok df0 {#}" "df_sync df0 (4096, [])" "\<not> ctx_bad (df_ctx df0)" "df_reliable df0" "df_table df0 = []"
    "hd_table_bufsize_max (df_ctx df0) = 4096"
    using d m r by (simp_all add: NGHTTP2_HD_DEFAULT_MAX_BUFFER_SIZE_def mem_mono_def)
qed

definition nva0 :: "nghttp2_nv list" where
  "nva0 = [\<lparr>nv_name = [97], nv_value = [98, 99], nv_flags = 0\<rparr>]"

lemma nva0: "list_all nv_fits nva0" "nghttp2_hd_deflate_bound nva0 = 27" "map nv_out nva0 = [(([97], [98, 99]), False)]"
proof -
  have t: "lookup_token [97] = -1" by code_simp
  show "list_all nv_fits nva0" "nghttp2_hd_deflate_bound nva0 = 27" by (simp_all add: nva0_def nv_fits_def nghttp2_hd_deflate_bound_def)
  show "map nv_out nva0 = [(([97], [98, 99]), False)]" by (simp add: nva0_def never_indexed_def t)
qed

theorem hd_deflate_bound_suffices_witness:
  "\<exists>df' reps. nghttp2_hd_deflate_hd df0 (replicate 33 0) nva0 = Some (Inr (length (reps_bytes reps)), df', reps_bytes reps) \<and>
     length (reps_bytes reps) \<le> 27 \<and> df_ok df' {#} \<and>
     reps_apply reps (4096, []) = Some ((4096, df_table df'), [(([97], [98, 99]), False)])"
proof -
  have l: "nghttp2_hd_deflate_bound nva0 \<le> length (replicate 33 (0 :: u8))" by (simp only: nva0(2) length_replicate)
  show ?thesis using hd_deflate_bound_suffices [OF df0_ok(1-4) nva0(1) l] unfolding nva0(2,3) df0_ok(6) .
qed

end
