(* ===== verification/Hpack_Inflate.thy ===== *)
theory Hpack_Inflate
  imports Hpack_Deflate
begin

unbundle bit_operations_syntax

text \<open>
  \<^verbatim>\<open>lib/nghttp2_hd.c\<close>, the HPACK decoder: a state machine that takes a header block in pieces of any size and
  emits one field at a time.

  One step of the machine is one pass through the \<^verbatim>\<open>switch\<close> of \<^verbatim>\<open>nghttp2_hd_inflate_hd_nv\<close>; its outcomes are the
  jumps of the code.  The two buffers of the inflater are views of the memory of \<^verbatim>\<open>namercbuf\<close> and
  \<^verbatim>\<open>valuercbuf\<close>: every store through a view is also one to the reference counted buffer.  \<open>None\<close> is a
  read past the end of the input, a failed assertion or a dangling pointer.
\<close>

section \<open>The inflater\<close>

datatype nghttp2_hd_opcode = OPCODE_NONE | OPCODE_INDEXED | OPCODE_NEWNAME | OPCODE_INDNAME

datatype nghttp2_hd_inflate_state =
    STATE_EXPECT_TABLE_SIZE | STATE_INFLATE_START | STATE_OPCODE | STATE_READ_TABLE_SIZE | STATE_READ_INDEX
  | STATE_NEWNAME_CHECK_NAMELEN | STATE_NEWNAME_READ_NAMELEN | STATE_NEWNAME_READ_NAMEHUFF | STATE_NEWNAME_READ_NAME
  | STATE_CHECK_VALUELEN | STATE_READ_VALUELEN | STATE_READ_VALUEHUFF | STATE_READ_VALUE

record nghttp2_hd_inflater =
  if_ctx :: nghttp2_hd_context
  if_huff_decode_ctx :: nghttp2_hd_huff_decode_context
  namebuf :: nghttp2_buf
  valuebuf :: nghttp2_buf
  namercbuf :: "rcptr option"
  valuercbuf :: "rcptr option"
  nv_name_keep :: "rcptr option"
  nv_value_keep :: "rcptr option"
  if_left :: nat
  if_index :: nat
  settings_hd_table_bufsize_max :: nat
  if_min_hd_table_bufsize_max :: nat
  if_shift :: nat
  if_opcode :: nghttp2_hd_opcode
  if_state :: nghttp2_hd_inflate_state
  huffman_encoded :: bool
  index_required :: bool
  no_index :: bool

definition NGHTTP2_HD_MAX_NV :: nat where "NGHTTP2_HD_MAX_NV = 65536"

definition nghttp2_hd_inflate_init :: "nghttp2_mem \<Rightarrow> (nghttp2_error + nghttp2_hd_inflater) \<times> nghttp2_mem" where
  "nghttp2_hd_inflate_init mem =
     (case hd_context_init mem of
        (Inl e, mem) \<Rightarrow> (Inl e, mem)
      | (Inr ctx, mem) \<Rightarrow>
          (Inr \<lparr>if_ctx = ctx, if_huff_decode_ctx = nghttp2_hd_huff_decode_context_init,
                namebuf = nghttp2_buf_init, valuebuf = nghttp2_buf_init, namercbuf = None, valuercbuf = None,
                nv_name_keep = None, nv_value_keep = None, if_left = 0, if_index = 0,
                settings_hd_table_bufsize_max = NGHTTP2_HD_DEFAULT_MAX_BUFFER_SIZE,
                if_min_hd_table_bufsize_max = SIZE_UINT32_MAX, if_shift = 0, if_opcode = OPCODE_NONE,
                if_state = STATE_INFLATE_START, huffman_encoded = False, index_required = False, no_index = False\<rparr>, mem))"

definition nghttp2_hd_inflate_new2 :: "nghttp2_mem \<Rightarrow> (nghttp2_error + nghttp2_hd_inflater) \<times> nghttp2_mem" where
  "nghttp2_hd_inflate_new2 mem =
     (let (ok, mem) = mem_call mem in
      if \<not> ok then (Inl ERR_NOMEM, mem) else nghttp2_hd_inflate_init mem)"

abbreviation if_heap :: "nghttp2_hd_inflater \<Rightarrow> rc_heap" where
  "if_heap ir \<equiv> ctx_heap (if_ctx ir)"

definition set_heap :: "nghttp2_hd_inflater \<Rightarrow> rc_heap \<Rightarrow> nghttp2_hd_inflater" where
  "set_heap ir h = ir\<lparr>if_ctx := (if_ctx ir)\<lparr>ctx_heap := h\<rparr>\<rparr>"

definition hd_inflate_keep_free :: "nghttp2_hd_inflater \<Rightarrow> nghttp2_hd_inflater option" where
  "hd_inflate_keep_free ir = do {
     h \<leftarrow> nghttp2_rcbuf_decref (if_heap ir) (nv_value_keep ir);
     h \<leftarrow> nghttp2_rcbuf_decref h (nv_name_keep ir);
     Some ((set_heap ir h)\<lparr>nv_value_keep := None, nv_name_keep := None\<rparr>) }"

definition nghttp2_hd_inflate_free :: "nghttp2_hd_inflater \<Rightarrow> nghttp2_hd_context option" where
  "nghttp2_hd_inflate_free ir = do {
     ir \<leftarrow> hd_inflate_keep_free ir;
     h \<leftarrow> nghttp2_rcbuf_decref (if_heap ir) (valuercbuf ir);
     h \<leftarrow> nghttp2_rcbuf_decref h (namercbuf ir);
     hd_context_free ((if_ctx ir)\<lparr>ctx_heap := h\<rparr>) }"

definition nghttp2_hd_inflate_change_table_size ::
  "nghttp2_hd_inflater \<Rightarrow> nat \<Rightarrow> ((nghttp2_error + unit) \<times> nghttp2_hd_inflater) option" where
  "nghttp2_hd_inflate_change_table_size ir settings_max =
     (if if_state ir \<noteq> STATE_EXPECT_TABLE_SIZE \<and> if_state ir \<noteq> STATE_INFLATE_START then Some (Inl ERR_INVALID_STATE, ir)
      else
        let ir = (if hd_table_bufsize_max (if_ctx ir) > settings_max
                   then ir\<lparr>if_state := STATE_EXPECT_TABLE_SIZE, if_min_hd_table_bufsize_max := settings_max\<rparr> else ir);
            ir = ir\<lparr>settings_hd_table_bufsize_max := settings_max\<rparr> in do {
          (ctx, _) \<leftarrow> hd_context_shrink_table_size ((if_ctx ir)\<lparr>hd_table_bufsize_max := settings_max\<rparr>) None;
          Some (Inr (), ir\<lparr>if_ctx := ctx\<rparr>) })"

section \<open>Reading integers and strings\<close>

text \<open>
  The results of the three readers: the error, or the number of bytes read; the first also gives
  \<^verbatim>\<open>*rfin\<close>.  \<^verbatim>\<open>decode_length\<close> stores \<^verbatim>\<open>*shift_ptr\<close> also when it fails after its first byte; the value is not
  used any more then.
\<close>

definition hd_inflate_read_len ::
  "nghttp2_hd_inflater \<Rightarrow> u8 list \<Rightarrow> nat \<Rightarrow> nat \<Rightarrow> ((nghttp2_error + nat \<times> bool) \<times> nghttp2_hd_inflater) option" where
  "hd_inflate_read_len ir bs prefix maxlen = do {
     r \<leftarrow> decode_length (of_nat (if_left ir)) (if_shift ir) bs prefix;
     Some (case r of
             Inl _ \<Rightarrow> (Inl ERR_HEADER_COMP, ir\<lparr>if_shift := 0\<rparr>)
           | Inr (out, shift, rfin, rv) \<Rightarrow>
               let ir = ir\<lparr>if_shift := shift\<rparr> in
               if unat out > maxlen then (Inl ERR_HEADER_COMP, ir)
               else (Inr (rv, rfin), ir\<lparr>if_left := unat out\<rparr>)) }"

definition hd_inflate_read_huff ::
  "nghttp2_hd_inflater \<Rightarrow> nghttp2_buf \<Rightarrow> u8 list \<Rightarrow> (nghttp2_error + nat) \<times> nghttp2_hd_inflater \<times> nghttp2_buf" where
  "hd_inflate_read_huff ir buf bs =
     (let fin = (length bs \<ge> if_left ir); bs = (if fin then take (if_left ir) bs else bs) in
      case nghttp2_hd_huff_decode (if_huff_decode_ctx ir) buf bs fin of
        (Inl e, ctx, buf) \<Rightarrow> (Inl e, ir\<lparr>if_huff_decode_ctx := ctx\<rparr>, buf)
      | (Inr readlen, ctx, buf) \<Rightarrow> (Inr readlen, ir\<lparr>if_huff_decode_ctx := ctx, if_left := if_left ir - readlen\<rparr>, buf))"

definition hd_inflate_read ::
  "nghttp2_hd_inflater \<Rightarrow> nghttp2_buf \<Rightarrow> u8 list \<Rightarrow> nat \<times> nghttp2_hd_inflater \<times> nghttp2_buf" where
  "hd_inflate_read ir buf bs =
     (let len = min (length bs) (if_left ir) in
      (len, ir\<lparr>if_left := if_left ir - len\<rparr>, buf_cpymem buf (take len bs)))"

definition hd_inflate_set_huffman_encoded :: "nghttp2_hd_inflater \<Rightarrow> u8 \<Rightarrow> nghttp2_hd_inflater" where
  "hd_inflate_set_huffman_encoded ir b = ir\<lparr>huffman_encoded := (b AND push_bit 7 1 \<noteq> 0)\<rparr>"

text \<open>
  Stores through a buffer that wraps the memory of a reference counted buffer, and
  \<^verbatim>\<open>*buf.last = '\0'; rcbuf->len = nghttp2_buf_len(&buf)\<close>.  A store past the end of the memory is \<open>None\<close>.
\<close>

definition rc_store :: "rc_heap \<Rightarrow> rcptr option \<Rightarrow> nghttp2_buf \<Rightarrow> rc_heap option" where
  "rc_store h ptr buf = do {
     p \<leftarrow> ptr;
     rc \<leftarrow> rc_get h p;
     if buf_last buf > length (buf_data buf) then None
     else Some (rc_put h p (rc\<lparr>rc_base := buf_data buf\<rparr>)) }"

definition rc_finish :: "rc_heap \<Rightarrow> rcptr option \<Rightarrow> nghttp2_buf \<Rightarrow> (rc_heap \<times> nghttp2_buf) option" where
  "rc_finish h ptr buf = do {
     p \<leftarrow> ptr;
     rc \<leftarrow> rc_get h p;
     if buf_last buf \<ge> length (buf_data buf) then None
     else
       let buf = buf\<lparr>buf_data := (buf_data buf)[buf_last buf := 0]\<rparr> in
       Some (rc_put h p (rc\<lparr>rc_base := buf_data buf, rc_len := nghttp2_buf_len buf\<rparr>), buf) }"

section \<open>Committing a field\<close>

definition emit_header :: "nghttp2_hd_nv \<Rightarrow> nghttp2_hd_nv" where
  "emit_header nv = nv"

definition nv_flag :: "nghttp2_hd_inflater \<Rightarrow> u8" where
  "nv_flag ir = (if no_index ir then NGHTTP2_NV_FLAG_NO_INDEX else NGHTTP2_NV_FLAG_NONE)"

definition hd_inflate_commit_indexed :: "nghttp2_hd_inflater \<Rightarrow> nghttp2_hd_nv option" where
  "hd_inflate_commit_indexed ir = map_option emit_header (nghttp2_hd_table_get (if_ctx ir) (if_index ir))"

definition hd_inflate_commit_newname ::
  "nghttp2_hd_inflater \<Rightarrow> ((nghttp2_error + nghttp2_hd_nv) \<times> nghttp2_hd_inflater) option" where
  "hd_inflate_commit_newname ir = do {
     name \<leftarrow> namercbuf ir;
     val \<leftarrow> valuercbuf ir;
     rc \<leftarrow> rc_get (if_heap ir) name;
     let nv = \<lparr>hd_name = name, hd_value = val, hd_token = lookup_token (take (rc_len rc) (rc_base rc)),
               hd_flags = nv_flag ir\<rparr>;
     (rv, ctx) \<leftarrow> (if index_required ir
                   then map_option (\<lambda>(rv, ctx, _). (rv, ctx)) (add_hd_table_incremental (if_ctx ir) nv None 0)
                   else Some (Inr (), if_ctx ir));
     let ir = ir\<lparr>if_ctx := ctx\<rparr>;
     case rv of
       Inl e \<Rightarrow> Some (Inl e, ir)
     | Inr _ \<Rightarrow> Some (Inr (emit_header nv),
                     ir\<lparr>nv_name_keep := Some name, nv_value_keep := Some val, namercbuf := None, valuercbuf := None\<rparr>) }"

definition hd_inflate_commit_indname ::
  "nghttp2_hd_inflater \<Rightarrow> ((nghttp2_error + nghttp2_hd_nv) \<times> nghttp2_hd_inflater) option" where
  "hd_inflate_commit_indname ir = do {
     ent \<leftarrow> nghttp2_hd_table_get (if_ctx ir) (if_index ir);
     let nv = ent\<lparr>hd_flags := nv_flag ir\<rparr>;
     h \<leftarrow> nghttp2_rcbuf_incref (if_heap ir) (hd_name nv);
     val \<leftarrow> valuercbuf ir;
     let nv = nv\<lparr>hd_value := val\<rparr>;
     let ctx = (if_ctx ir)\<lparr>ctx_heap := h\<rparr>;
     (rv, ctx) \<leftarrow> (if index_required ir
                   then map_option (\<lambda>(rv, ctx, _). (rv, ctx)) (add_hd_table_incremental ctx nv None 0)
                   else Some (Inr (), ctx));
     let ir = ir\<lparr>if_ctx := ctx\<rparr>;
     case rv of
       Inl _ \<Rightarrow> do {
         h \<leftarrow> nghttp2_rcbuf_decref (if_heap ir) (Some (hd_name nv));
         Some (Inl ERR_NOMEM, set_heap ir h) }
     | Inr _ \<Rightarrow> Some (Inr (emit_header nv),
                     ir\<lparr>nv_name_keep := Some (hd_name nv), nv_value_keep := Some val, valuercbuf := None\<rparr>) }"

section \<open>The steps of the state machine\<close>

text \<open>
  The ways a pass through the \<^verbatim>\<open>switch\<close> ends: \<^verbatim>\<open>break\<close> with the input left and \<^verbatim>\<open>busy\<close>; \<^verbatim>\<open>return\<close> with an emitted
  field; \<^verbatim>\<open>goto almost_ok\<close>; \<^verbatim>\<open>goto fail\<close>.
\<close>

datatype inflate_step =
    Step_break nghttp2_hd_inflater "u8 list" bool
  | Step_emit nghttp2_hd_inflater "u8 list" nghttp2_hd_nv
  | Step_almost nghttp2_hd_inflater "u8 list"
  | Step_fail nghttp2_hd_inflater nghttp2_error

definition inflate_opcode :: "nghttp2_hd_inflater \<Rightarrow> u8 list \<Rightarrow> inflate_step option" where
  "inflate_opcode ir bs =
     (case bs of
        [] \<Rightarrow> None
      | b # rest \<Rightarrow>
          if if_state ir = STATE_EXPECT_TABLE_SIZE \<and> b AND 0xe0 \<noteq> 0x20 then Some (Step_fail ir ERR_HEADER_COMP)
          else if b AND 0xe0 = 0x20 then
            if if_state ir = STATE_OPCODE then Some (Step_fail ir ERR_HEADER_COMP)
            else Some (Step_break (ir\<lparr>if_opcode := OPCODE_INDEXED, if_state := STATE_READ_TABLE_SIZE, if_left := 0, if_shift := 0\<rparr>) bs False)
          else if b AND 0x80 \<noteq> 0 then
            Some (Step_break (ir\<lparr>if_opcode := OPCODE_INDEXED, if_state := STATE_READ_INDEX, if_left := 0, if_shift := 0\<rparr>) bs False)
          else
            let newname = (b = 0x40 \<or> b = 0 \<or> b = 0x10);
                ir = ir\<lparr>index_required := (b AND 0x40 \<noteq> 0), no_index := (b AND 0xf0 = 0x10), if_left := 0, if_shift := 0\<rparr> in
            if newname then
              Some (Step_break (ir\<lparr>if_opcode := OPCODE_NEWNAME, if_state := STATE_NEWNAME_CHECK_NAMELEN\<rparr>) rest False)
            else Some (Step_break (ir\<lparr>if_opcode := OPCODE_INDNAME, if_state := STATE_READ_INDEX\<rparr>) bs False))"

definition inflate_read_table_size :: "nghttp2_hd_inflater \<Rightarrow> u8 list \<Rightarrow> inflate_step option" where
  "inflate_read_table_size ir bs = do {
     (r, ir) \<leftarrow> hd_inflate_read_len ir bs 5 (min (if_min_hd_table_bufsize_max ir) (settings_hd_table_bufsize_max ir));
     case r of
       Inl e \<Rightarrow> Some (Step_fail ir e)
     | Inr (rv, rfin) \<Rightarrow>
         if \<not> rfin then Some (Step_almost ir (drop rv bs))
         else do {
           let ir = ir\<lparr>if_min_hd_table_bufsize_max := SIZE_UINT32_MAX\<rparr>;
           (ctx, _) \<leftarrow> hd_context_shrink_table_size ((if_ctx ir)\<lparr>hd_table_bufsize_max := if_left ir\<rparr>) None;
           Some (Step_break (ir\<lparr>if_ctx := ctx, if_state := STATE_INFLATE_START\<rparr>) (drop rv bs) False) } }"

definition inflate_read_index :: "nghttp2_hd_inflater \<Rightarrow> u8 list \<Rightarrow> inflate_step option" where
  "inflate_read_index ir bs = do {
     let prefixlen = (if if_opcode ir = OPCODE_INDEXED then 7 else if index_required ir then 6 else 4);
     (r, ir) \<leftarrow> hd_inflate_read_len ir bs prefixlen (get_max_index (if_ctx ir));
     case r of
       Inl e \<Rightarrow> Some (Step_fail ir e)
     | Inr (rv, rfin) \<Rightarrow>
         if \<not> rfin then Some (Step_almost ir (drop rv bs))
         else if if_left ir = 0 then Some (Step_fail ir ERR_HEADER_COMP)
         else
           let ir = ir\<lparr>if_index := if_left ir - 1\<rparr> in
           if if_opcode ir = OPCODE_INDEXED then do {
             nv \<leftarrow> hd_inflate_commit_indexed ir;
             Some (Step_emit (ir\<lparr>if_state := STATE_OPCODE\<rparr>) (drop rv bs) nv) }
           else Some (Step_break (ir\<lparr>if_state := STATE_CHECK_VALUELEN\<rparr>) (drop rv bs) False) }"

text \<open>\<^verbatim>\<open>CHECK_NAMELEN\<close> and \<^verbatim>\<open>CHECK_VALUELEN\<close>, which fall through to the reading of the length.\<close>

definition inflate_check_len :: "nghttp2_hd_inflater \<Rightarrow> u8 list \<Rightarrow> nghttp2_hd_inflate_state \<Rightarrow> nghttp2_hd_inflater option" where
  "inflate_check_len ir bs state =
     (case bs of
        [] \<Rightarrow> None
      | b # _ \<Rightarrow> Some ((hd_inflate_set_huffman_encoded ir b)\<lparr>if_state := state, if_left := 0, if_shift := 0\<rparr>))"

definition inflate_read_namelen :: "nghttp2_hd_inflater \<Rightarrow> u8 list \<Rightarrow> inflate_step option" where
  "inflate_read_namelen ir bs = do {
     (r, ir) \<leftarrow> hd_inflate_read_len ir bs 7 NGHTTP2_HD_MAX_NV;
     case r of
       Inl e \<Rightarrow> Some (Step_fail ir e)
     | Inr (rv, rfin) \<Rightarrow>
         if \<not> rfin then Some (Step_almost ir (drop rv bs))
         else
           let (ir, sz) =
             (if huffman_encoded ir
              then (ir\<lparr>if_huff_decode_ctx := nghttp2_hd_huff_decode_context_init, if_state := STATE_NEWNAME_READ_NAMEHUFF\<rparr>, if_left ir * 2 + 1)
              else (ir\<lparr>if_state := STATE_NEWNAME_READ_NAME\<rparr>, if_left ir + 1)) in
           (case nghttp2_rcbuf_new (if_heap ir) sz of
              (Inl e, h) \<Rightarrow> Some (Step_fail (set_heap ir h) e)
            | (Inr p, h) \<Rightarrow> do {
                rc \<leftarrow> rc_get h p;
                Some (Step_break ((set_heap ir h)\<lparr>namercbuf := Some p, namebuf := nghttp2_buf_wrap_init (take (rc_len rc) (rc_base rc))\<rparr>)
                        (drop rv bs) False) }) }"

definition inflate_read_name_done :: "nghttp2_hd_inflater \<Rightarrow> u8 list \<Rightarrow> inflate_step option" where
  "inflate_read_name_done ir bs =
     (if if_left ir \<noteq> 0 then do {
        h \<leftarrow> rc_store (if_heap ir) (namercbuf ir) (namebuf ir);
        Some (Step_almost (set_heap ir h) bs) }
      else do {
        (h, buf) \<leftarrow> rc_finish (if_heap ir) (namercbuf ir) (namebuf ir);
        Some (Step_break ((set_heap ir h)\<lparr>namebuf := buf, if_state := STATE_CHECK_VALUELEN\<rparr>) bs False) })"

definition inflate_read_namehuff :: "nghttp2_hd_inflater \<Rightarrow> u8 list \<Rightarrow> inflate_step option" where
  "inflate_read_namehuff ir bs =
     (case hd_inflate_read_huff ir (namebuf ir) bs of
        (Inl e, ir, buf) \<Rightarrow> do {
          h \<leftarrow> rc_store (if_heap ir) (namercbuf ir) buf;
          Some (Step_fail ((set_heap ir h)\<lparr>namebuf := buf\<rparr>) e) }
      | (Inr rv, ir, buf) \<Rightarrow> inflate_read_name_done (ir\<lparr>namebuf := buf\<rparr>) (drop rv bs))"

definition inflate_read_name :: "nghttp2_hd_inflater \<Rightarrow> u8 list \<Rightarrow> inflate_step option" where
  "inflate_read_name ir bs =
     (case hd_inflate_read ir (namebuf ir) bs of
        (rv, ir, buf) \<Rightarrow> inflate_read_name_done (ir\<lparr>namebuf := buf\<rparr>) (drop rv bs))"

definition inflate_read_valuelen :: "nghttp2_hd_inflater \<Rightarrow> u8 list \<Rightarrow> inflate_step option" where
  "inflate_read_valuelen ir bs = do {
     (r, ir) \<leftarrow> hd_inflate_read_len ir bs 7 NGHTTP2_HD_MAX_NV;
     case r of
       Inl e \<Rightarrow> Some (Step_fail ir e)
     | Inr (rv, rfin) \<Rightarrow>
         if \<not> rfin then Some (Step_almost ir (drop rv bs))
         else
           let (ir, sz) =
             (if huffman_encoded ir
              then (ir\<lparr>if_huff_decode_ctx := nghttp2_hd_huff_decode_context_init, if_state := STATE_READ_VALUEHUFF\<rparr>, if_left ir * 2 + 1)
              else (ir\<lparr>if_state := STATE_READ_VALUE\<rparr>, if_left ir + 1)) in
           (case nghttp2_rcbuf_new (if_heap ir) sz of
              (Inl e, h) \<Rightarrow> Some (Step_fail (set_heap ir h) e)
            | (Inr p, h) \<Rightarrow> do {
                rc \<leftarrow> rc_get h p;
                Some (Step_break ((set_heap ir h)\<lparr>valuercbuf := Some p, valuebuf := nghttp2_buf_wrap_init (take (rc_len rc) (rc_base rc))\<rparr>)
                        (drop rv bs) True) }) }"

definition inflate_read_value_done :: "nghttp2_hd_inflater \<Rightarrow> u8 list \<Rightarrow> inflate_step option" where
  "inflate_read_value_done ir bs =
     (if if_left ir \<noteq> 0 then do {
        h \<leftarrow> rc_store (if_heap ir) (valuercbuf ir) (valuebuf ir);
        Some (Step_almost (set_heap ir h) bs) }
      else do {
        (h, buf) \<leftarrow> rc_finish (if_heap ir) (valuercbuf ir) (valuebuf ir);
        let ir = (set_heap ir h)\<lparr>valuebuf := buf\<rparr>;
        (r, ir) \<leftarrow> (if if_opcode ir = OPCODE_NEWNAME then hd_inflate_commit_newname ir
                     else hd_inflate_commit_indname ir);
        case r of
          Inl e \<Rightarrow> Some (Step_fail ir e)
        | Inr nv \<Rightarrow> Some (Step_emit (ir\<lparr>if_state := STATE_OPCODE\<rparr>) bs nv) })"

definition inflate_read_valuehuff :: "nghttp2_hd_inflater \<Rightarrow> u8 list \<Rightarrow> inflate_step option" where
  "inflate_read_valuehuff ir bs =
     (case hd_inflate_read_huff ir (valuebuf ir) bs of
        (Inl e, ir, buf) \<Rightarrow> do {
          h \<leftarrow> rc_store (if_heap ir) (valuercbuf ir) buf;
          Some (Step_fail ((set_heap ir h)\<lparr>valuebuf := buf\<rparr>) e) }
      | (Inr rv, ir, buf) \<Rightarrow> inflate_read_value_done (ir\<lparr>valuebuf := buf\<rparr>) (drop rv bs))"

definition inflate_read_value :: "nghttp2_hd_inflater \<Rightarrow> u8 list \<Rightarrow> inflate_step option" where
  "inflate_read_value ir bs =
     (case hd_inflate_read ir (valuebuf ir) bs of
        (rv, ir, buf) \<Rightarrow> inflate_read_value_done (ir\<lparr>valuebuf := buf\<rparr>) (drop rv bs))"

definition inflate_switch :: "nghttp2_hd_inflater \<Rightarrow> u8 list \<Rightarrow> inflate_step option" where
  "inflate_switch ir bs =
     (case if_state ir of
        STATE_EXPECT_TABLE_SIZE \<Rightarrow> inflate_opcode ir bs
      | STATE_INFLATE_START \<Rightarrow> inflate_opcode ir bs
      | STATE_OPCODE \<Rightarrow> inflate_opcode ir bs
      | STATE_READ_TABLE_SIZE \<Rightarrow> inflate_read_table_size ir bs
      | STATE_READ_INDEX \<Rightarrow> inflate_read_index ir bs
      | STATE_NEWNAME_CHECK_NAMELEN \<Rightarrow> do {
          ir \<leftarrow> inflate_check_len ir bs STATE_NEWNAME_READ_NAMELEN;
          inflate_read_namelen ir bs }
      | STATE_NEWNAME_READ_NAMELEN \<Rightarrow> inflate_read_namelen ir bs
      | STATE_NEWNAME_READ_NAMEHUFF \<Rightarrow> inflate_read_namehuff ir bs
      | STATE_NEWNAME_READ_NAME \<Rightarrow> inflate_read_name ir bs
      | STATE_CHECK_VALUELEN \<Rightarrow> do {
          ir \<leftarrow> inflate_check_len ir bs STATE_READ_VALUELEN;
          inflate_read_valuelen ir bs }
      | STATE_READ_VALUELEN \<Rightarrow> inflate_read_valuelen ir bs
      | STATE_READ_VALUEHUFF \<Rightarrow> inflate_read_valuehuff ir bs
      | STATE_READ_VALUE \<Rightarrow> inflate_read_value ir bs)"

section \<open>The loop and the public functions\<close>

text \<open>\<^verbatim>\<open>for (; in != last || busy;)\<close>; leaving the loop is a break with no input and not busy.\<close>

partial_function (option) inflate_loop :: "nghttp2_hd_inflater \<Rightarrow> u8 list \<Rightarrow> bool \<Rightarrow> inflate_step option" where
  "inflate_loop ir bs busy =
     (if bs \<noteq> [] \<or> busy then do {
        st \<leftarrow> inflate_switch ir bs;
        (case st of
           Step_break ir bs busy \<Rightarrow> inflate_loop ir bs busy
         | _ \<Rightarrow> Some st) }
      else Some (Step_break ir [] False))"

definition NGHTTP2_HD_INFLATE_NONE :: nat where "NGHTTP2_HD_INFLATE_NONE = 0"
definition NGHTTP2_HD_INFLATE_FINAL :: nat where "NGHTTP2_HD_INFLATE_FINAL = 1"
definition NGHTTP2_HD_INFLATE_EMIT :: nat where "NGHTTP2_HD_INFLATE_EMIT = 2"

definition inflate_fail :: "nghttp2_hd_inflater \<Rightarrow> nghttp2_hd_inflater" where
  "inflate_fail ir = ir\<lparr>if_ctx := (if_ctx ir)\<lparr>ctx_bad := True\<rparr>\<rparr>"

text \<open>
  The argument \<open>inflate_flags\<close> is the value of \<^verbatim>\<open>*inflate_flags\<close> at the call.  The result: the error or the number of
  bytes read, \<^verbatim>\<open>*inflate_flags\<close> at the return, \<^verbatim>\<open>*nv_out\<close> if it was set, and the inflater.
\<close>

definition nghttp2_hd_inflate_hd_nv ::
  "nghttp2_hd_inflater \<Rightarrow> nat \<Rightarrow> u8 list \<Rightarrow> bool \<Rightarrow> ((nghttp2_error + nat) \<times> nat \<times> nghttp2_hd_nv option \<times> nghttp2_hd_inflater) option" where
  "nghttp2_hd_inflate_hd_nv ir inflate_flags bs in_final =
     (if ctx_bad (if_ctx ir) then Some (Inl ERR_HEADER_COMP, inflate_flags, None, ir)
      else do {
        ir \<leftarrow> hd_inflate_keep_free ir;
        st \<leftarrow> inflate_loop ir bs False;
        Some (case st of
          Step_break ir rest _ \<Rightarrow>
            if in_final then
              if if_state ir \<noteq> STATE_OPCODE \<and> if_state ir \<noteq> STATE_INFLATE_START
              then (Inl ERR_HEADER_COMP, NGHTTP2_HD_INFLATE_NONE, None, inflate_fail ir)
              else (Inr (length bs), NGHTTP2_HD_INFLATE_FINAL, None, ir)
            else (Inr (length bs), NGHTTP2_HD_INFLATE_NONE, None, ir)
        | Step_emit ir rest nv \<Rightarrow> (Inr (length bs - length rest), NGHTTP2_HD_INFLATE_EMIT, Some nv, ir)
        | Step_almost ir rest \<Rightarrow>
            if in_final then (Inl ERR_HEADER_COMP, NGHTTP2_HD_INFLATE_NONE, None, inflate_fail ir)
            else (Inr (length bs - length rest), NGHTTP2_HD_INFLATE_NONE, None, ir)
        | Step_fail ir e \<Rightarrow> (Inl e, NGHTTP2_HD_INFLATE_NONE, None, inflate_fail ir)) })"

definition nghttp2_hd_inflate_hd2 ::
  "nghttp2_hd_inflater \<Rightarrow> nat \<Rightarrow> u8 list \<Rightarrow> bool \<Rightarrow> ((nghttp2_error + nat) \<times> nat \<times> nghttp2_nv option \<times> nghttp2_hd_inflater) option" where
  "nghttp2_hd_inflate_hd2 ir inflate_flags bs in_final = do {
     (rv, flags, hd_nv, ir) \<leftarrow> nghttp2_hd_inflate_hd_nv ir inflate_flags bs in_final;
     case rv of
       Inl e \<Rightarrow> Some (Inl e, flags, None, ir)
     | Inr n \<Rightarrow>
         if flags AND NGHTTP2_HD_INFLATE_EMIT \<noteq> 0 then do {
           nv \<leftarrow> hd_nv;
           name \<leftarrow> nghttp2_rcbuf_get_buf (if_heap ir) (hd_name nv);
           val \<leftarrow> nghttp2_rcbuf_get_buf (if_heap ir) (hd_value nv);
           Some (Inr n, flags, Some \<lparr>nv_name = name, nv_value = val, nv_flags = hd_flags nv\<rparr>, ir) }
         else Some (Inr n, flags, None, ir) }"

definition nghttp2_hd_inflate_hd ::
  "nghttp2_hd_inflater \<Rightarrow> nat \<Rightarrow> u8 list \<Rightarrow> bool \<Rightarrow> ((nghttp2_error + nat) \<times> nat \<times> nghttp2_nv option \<times> nghttp2_hd_inflater) option" where
  "nghttp2_hd_inflate_hd ir inflate_flags bs in_final = nghttp2_hd_inflate_hd2 ir inflate_flags bs in_final"

definition nghttp2_hd_inflate_end_headers :: "nghttp2_hd_inflater \<Rightarrow> nghttp2_hd_inflater option" where
  "nghttp2_hd_inflate_end_headers ir = map_option (\<lambda>ir. ir\<lparr>if_state := STATE_INFLATE_START\<rparr>) (hd_inflate_keep_free ir)"

definition nghttp2_hd_inflate_del :: "nghttp2_hd_inflater \<Rightarrow> nghttp2_hd_context option" where
  "nghttp2_hd_inflate_del ir = nghttp2_hd_inflate_free ir"

definition nghttp2_hd_inflate_get_num_table_entries :: "nghttp2_hd_inflater \<Rightarrow> nat" where
  "nghttp2_hd_inflate_get_num_table_entries ir = get_max_index (if_ctx ir)"

definition nghttp2_hd_inflate_get_table_entry :: "nghttp2_hd_inflater \<Rightarrow> nat \<Rightarrow> nghttp2_nv option option" where
  "nghttp2_hd_inflate_get_table_entry ir idx = hd_get_table_entry (if_ctx ir) idx"

definition nghttp2_hd_inflate_get_dynamic_table_size :: "nghttp2_hd_inflater \<Rightarrow> nat" where
  "nghttp2_hd_inflate_get_dynamic_table_size ir = hd_table_bufsize (if_ctx ir)"

definition nghttp2_hd_inflate_get_max_dynamic_table_size :: "nghttp2_hd_inflater \<Rightarrow> nat" where
  "nghttp2_hd_inflate_get_max_dynamic_table_size ir = hd_table_bufsize_max (if_ctx ir)"

section \<open>Ownership\<close>

lemma ctx_new:
  assumes "ctx_ok ctx hmap E"
  obtains h where "nghttp2_rcbuf_new (ctx_heap ctx) sz = (Inl ERR_NOMEM, h)" "ctx_ok (ctx\<lparr>ctx_heap := h\<rparr>) hmap E"
      "dyn_table (ctx\<lparr>ctx_heap := h\<rparr>) = dyn_table ctx" "rc_bytes h = rc_bytes (ctx_heap ctx)"
      "mem_mono (rc_mem (ctx_heap ctx)) (rc_mem h)" "\<not> mem_reliable (rc_mem (ctx_heap ctx))"
    | h a where "nghttp2_rcbuf_new (ctx_heap ctx) sz = (Inr (Rc_heap a), h)" "ctx_ok (ctx\<lparr>ctx_heap := h\<rparr>) hmap (add_mset (Rc_heap a) E)"
      "dyn_table (ctx\<lparr>ctx_heap := h\<rparr>) = dyn_table ctx" "rc_same (E + ctx_refs ctx) (ctx_heap ctx) h"
      "rc_get h (Rc_heap a) = Some \<lparr>rc_base = mem_fresh (rc_mem (ctx_heap ctx)) sz, rc_len = sz, rc_ref = 1\<rparr>"
      "mem_mono (rc_mem (ctx_heap ctx)) (rc_mem h)"
proof (rule rcbuf_new_ok [OF ctx_ok_live [OF assms], of sz])
  fix h
  assume h: "nghttp2_rcbuf_new (ctx_heap ctx) sz = (Inl ERR_NOMEM, h)" "rc_ok h (E + ctx_refs ctx)"
    "\<And>q. rc_bytes h q = rc_bytes (ctx_heap ctx) q" "mem_mono (rc_mem (ctx_heap ctx)) (rc_mem h)" "\<not> mem_reliable (rc_mem (ctx_heap ctx))"
  have "rc_same (ctx_refs ctx) (ctx_heap ctx) h" using h(3) by (simp add: rc_same_def)
  note o = ctx_ok_heap [OF assms h(2) this]
  show ?thesis using that(1) [OF h(1) o ext h(4,5)] h(3) .
next
  fix h p
  assume h: "nghttp2_rcbuf_new (ctx_heap ctx) sz = (Inr p, h)" "rc_ok h (add_mset p (E + ctx_refs ctx))"
    "rc_same (E + ctx_refs ctx) (ctx_heap ctx) h" "p \<notin># E + ctx_refs ctx"
    "rc_get h p = Some \<lparr>rc_base = mem_fresh (rc_mem (ctx_heap ctx)) sz, rc_len = sz, rc_ref = 1\<rparr>"
    "mem_mono (rc_mem (ctx_heap ctx)) (rc_mem h)"
  obtain a where p: "p = Rc_heap a" using h(1) by (auto simp: nghttp2_rcbuf_new_def split: prod.splits if_splits)
  have "rc_ok h (add_mset p E + ctx_refs ctx)" "rc_same (ctx_refs ctx) (ctx_heap ctx) h"
    using h(2) rc_same_mono [OF h(3), of "ctx_refs ctx"] by simp_all
  note o = ctx_ok_heap [OF assms this]
  show ?thesis by (rule that(2) [OF h(1) [unfolded p] o [unfolded p] h(3) h(5) [unfolded p] h(6)])
qed

text \<open>A buffer with one reference is not shared, and may be written.\<close>

lemma ctx_put:
  assumes ok: "ctx_ok ctx hmap (add_mset (Rc_heap a) E)" and rc: "rc_get (ctx_heap ctx) (Rc_heap a) = Some rc" "rc_ref rc = 1"
    and rc': "rc_ref rc' = 1" "rc_len rc' \<le> length (rc_base rc')"
  defines "h \<equiv> rc_put (ctx_heap ctx) (Rc_heap a) rc'"
  shows "ctx_ok (ctx\<lparr>ctx_heap := h\<rparr>) hmap (add_mset (Rc_heap a) E)" "dyn_table (ctx\<lparr>ctx_heap := h\<rparr>) = dyn_table ctx"
    "rc_same (E + ctx_refs ctx) (ctx_heap ctx) h" "rc_mem h = rc_mem (ctx_heap ctx)" "rc_get h (Rc_heap a) = Some rc'"
proof -
  let ?M = "add_mset (Rc_heap a) E + ctx_refs ctx"
  have live: "rc_ok (ctx_heap ctx) ?M" by (rule ctx_ok_live [OF ok])
  then have "rc_cell (ctx_heap ctx) ?M a" by (simp add: rc_ok_def)
  then have "count ?M (Rc_heap a) = 1" using rc by (simp add: rc_cell_def)
  then have n: "Rc_heap a \<notin># E + ctx_refs ctx" by (simp add: not_in_iff)
  have w: "rc_ok h ?M" "\<And>q. q \<noteq> Rc_heap a \<Longrightarrow> rc_bytes h q = rc_bytes (ctx_heap ctx) q"
    unfolding h_def using rc_put_ok [OF live rc(1), of rc'] rc(2) rc' by simp_all
  show s: "rc_same (E + ctx_refs ctx) (ctx_heap ctx) h" unfolding rc_same_def using w(2) n by metis
  show "ctx_ok (ctx\<lparr>ctx_heap := h\<rparr>) hmap (add_mset (Rc_heap a) E)" "dyn_table (ctx\<lparr>ctx_heap := h\<rparr>) = dyn_table ctx"
    using ctx_ok_heap [OF ok w(1)] rc_same_mono [OF s, of "ctx_refs ctx"] by simp_all
  show "rc_mem h = rc_mem (ctx_heap ctx)" "rc_get h (Rc_heap a) = Some rc'" by (simp_all add: h_def)
qed

definition opt_mset :: "'a option \<Rightarrow> 'a multiset" where
  "opt_mset x = (case x of None \<Rightarrow> {#} | Some y \<Rightarrow> {#y#})"

lemma opt_mset_simps [simp]: "opt_mset None = {#}" "opt_mset (Some x) = {#x#}"
  by (simp_all add: opt_mset_def)

text \<open>The references an inflater holds, besides those of the table.\<close>

definition held :: "nghttp2_hd_inflater \<Rightarrow> rcptr multiset" where
  "held ir = opt_mset (namercbuf ir) + opt_mset (valuercbuf ir) + opt_mset (nv_name_keep ir) + opt_mset (nv_value_keep ir)"

text \<open>
  \<open>rc_view h ptr buf room\<close>: \<open>buf\<close> is a view of the unshared buffer \<open>ptr\<close> with room for \<open>room\<close> more bytes and the
  terminating zero.
\<close>

definition rc_view :: "rc_heap \<Rightarrow> rcptr option \<Rightarrow> nghttp2_buf \<Rightarrow> nat \<Rightarrow> bool" where
  "rc_view h ptr buf room \<longleftrightarrow> (\<exists>a rc. ptr = Some (Rc_heap a) \<and> rc_get h (Rc_heap a) = Some rc \<and> rc_ref rc = 1 \<and>
     rc_base rc = buf_data buf \<and> rc_len rc \<le> length (rc_base rc) \<and>
     buf_pos buf = 0 \<and> buf_last buf + room < length (buf_data buf))"

definition name_ready :: "nghttp2_hd_inflater \<Rightarrow> bool" where
  "name_ready ir \<longleftrightarrow> if_opcode ir = OPCODE_NEWNAME \<and> namercbuf ir \<noteq> None \<or>
     if_opcode ir = OPCODE_INDNAME \<and> namercbuf ir = None \<and> if_index ir < get_max_index (if_ctx ir)"

text \<open>An integer whose prefix has not been read yet starts with shift zero.\<close>

definition len_ok :: "nghttp2_hd_inflater \<Rightarrow> bool" where
  "len_ok ir \<longleftrightarrow> if_left ir < 2 ^ 32 \<and> (if_left ir = 0 \<longrightarrow> if_shift ir = 0)"

fun state_ok :: "nghttp2_hd_inflate_state \<Rightarrow> nghttp2_hd_inflater \<Rightarrow> bool" where
  "state_ok STATE_EXPECT_TABLE_SIZE ir \<longleftrightarrow> namercbuf ir = None \<and> valuercbuf ir = None"
| "state_ok STATE_INFLATE_START ir \<longleftrightarrow> namercbuf ir = None \<and> valuercbuf ir = None"
| "state_ok STATE_OPCODE ir \<longleftrightarrow> namercbuf ir = None \<and> valuercbuf ir = None"
| "state_ok STATE_READ_TABLE_SIZE ir \<longleftrightarrow> len_ok ir \<and> namercbuf ir = None \<and> valuercbuf ir = None"
| "state_ok STATE_READ_INDEX ir \<longleftrightarrow> len_ok ir \<and> namercbuf ir = None \<and> valuercbuf ir = None \<and>
     (if_opcode ir = OPCODE_INDEXED \<or> if_opcode ir = OPCODE_INDNAME)"
| "state_ok STATE_NEWNAME_CHECK_NAMELEN ir \<longleftrightarrow> namercbuf ir = None \<and> valuercbuf ir = None \<and> if_opcode ir = OPCODE_NEWNAME"
| "state_ok STATE_NEWNAME_READ_NAMELEN ir \<longleftrightarrow> len_ok ir \<and> namercbuf ir = None \<and> valuercbuf ir = None \<and> if_opcode ir = OPCODE_NEWNAME"
| "state_ok STATE_NEWNAME_READ_NAMEHUFF ir \<longleftrightarrow> valuercbuf ir = None \<and> if_opcode ir = OPCODE_NEWNAME \<and>
     rc_view (if_heap ir) (namercbuf ir) (namebuf ir) (2 * if_left ir)"
| "state_ok STATE_NEWNAME_READ_NAME ir \<longleftrightarrow> valuercbuf ir = None \<and> if_opcode ir = OPCODE_NEWNAME \<and>
     rc_view (if_heap ir) (namercbuf ir) (namebuf ir) (if_left ir)"
| "state_ok STATE_CHECK_VALUELEN ir \<longleftrightarrow> valuercbuf ir = None \<and> name_ready ir"
| "state_ok STATE_READ_VALUELEN ir \<longleftrightarrow> len_ok ir \<and> valuercbuf ir = None \<and> name_ready ir"
| "state_ok STATE_READ_VALUEHUFF ir \<longleftrightarrow> name_ready ir \<and> rc_view (if_heap ir) (valuercbuf ir) (valuebuf ir) (2 * if_left ir)"
| "state_ok STATE_READ_VALUE ir \<longleftrightarrow> name_ready ir \<and> rc_view (if_heap ir) (valuercbuf ir) (valuebuf ir) (if_left ir)"

text \<open>Inside the loop nothing is kept for the caller; the references of the last field are dropped by the next call.\<close>

definition ir_fresh :: "nghttp2_hd_inflater \<Rightarrow> bool" where
  "ir_fresh ir \<longleftrightarrow> nv_name_keep ir = None \<and> nv_value_keep ir = None"

definition ir_idle :: "nghttp2_hd_inflater \<Rightarrow> bool" where
  "ir_idle ir \<longleftrightarrow> if_state ir = STATE_OPCODE \<or> if_state ir = STATE_INFLATE_START \<or> if_state ir = STATE_EXPECT_TABLE_SIZE"

text \<open>Ownership alone, which also holds after an error, and the whole invariant.\<close>

definition ir_owned :: "nghttp2_hd_inflater \<Rightarrow> rcptr multiset \<Rightarrow> bool" where
  "ir_owned ir E \<longleftrightarrow> ctx_ok (if_ctx ir) None (E + held ir)"

definition ir_ok :: "nghttp2_hd_inflater \<Rightarrow> rcptr multiset \<Rightarrow> bool" where
  "ir_ok ir E \<longleftrightarrow> ir_owned ir E \<and> state_ok (if_state ir) ir \<and> settings_hd_table_bufsize_max ir < 2 ^ 32 \<and>
     \<not> (index_required ir \<and> no_index ir) \<and> (ir_fresh ir \<or> ir_idle ir)"

abbreviation ir_reliable :: "nghttp2_hd_inflater \<Rightarrow> bool" where
  "ir_reliable ir \<equiv> mem_reliable (rc_mem (if_heap ir))"

text \<open>What every step keeps.\<close>

definition ir_kept :: "nghttp2_hd_inflater \<Rightarrow> nghttp2_hd_inflater \<Rightarrow> rcptr multiset \<Rightarrow> bool" where
  "ir_kept ir ir' E \<longleftrightarrow> rc_same E (if_heap ir) (if_heap ir') \<and> mem_mono (rc_mem (if_heap ir)) (rc_mem (if_heap ir')) \<and>
     ctx_bad (if_ctx ir') = ctx_bad (if_ctx ir) \<and> settings_hd_table_bufsize_max ir' = settings_hd_table_bufsize_max ir"

lemma ir_kept_refl [simp]: "ir_kept ir ir E"
  by (simp add: ir_kept_def)

lemma ir_kept_trans: "ir_kept a b E \<Longrightarrow> ir_kept b c E \<Longrightarrow> ir_kept a c E"
  by (auto simp: ir_kept_def intro: rc_same_trans mem_mono_trans)

section \<open>The readers\<close>

definition len_post :: "nat \<Rightarrow> u8 list \<Rightarrow> unit + u32 \<times> nat \<times> bool \<times> nat \<Rightarrow> bool" where
  "len_post k0 bs r \<longleftrightarrow> (\<forall>n s fin k. r = Inr (n, s, fin, k) \<longrightarrow>
     k0 \<le> k \<and> k \<le> k0 + length bs \<and> (\<not> fin \<longrightarrow> k = k0 + length bs) \<and> (bs \<noteq> [] \<longrightarrow> k0 < k))"

lemma decode_loop_len: "len_post k0 bs (decode_length_loop n shift bs k0)"
proof (induction bs arbitrary: n shift k0)
  case (Cons b bs)
  define n' where "n' = (of_nat (unat n + 2 ^ shift * (unat b mod 128)) :: u32)"
  have "len_post k0 (b # bs) (decode_length_loop n' (shift + 7) bs (k0 + 1))"
    using Cons.IH [of "k0 + 1" n' "shift + 7"] by (auto simp: len_post_def)
  then show ?case unfolding decode_loop_step Let_def n'_def [symmetric] by (auto simp: len_post_def)
qed (simp add: len_post_def)

lemma decode_loop_nonzero: "decode_length_loop n shift bs k = Inr (n', s, fin, r) \<Longrightarrow> n \<noteq> 0 \<Longrightarrow> n' \<noteq> 0"
  using decode_loop_grows [of n shift bs k n' s fin r] by (auto simp: unsigned_eq_0_iff)

lemma decode_length_some:
  assumes "bs \<noteq> []" "0 < prefix" "prefix \<le> 8"
  shows "\<exists>r. decode_length n shift bs prefix = Some r \<and> len_post 0 bs r \<and> (\<forall>n' s k. r = Inr (n', s, False, k) \<longrightarrow> n' \<noteq> 0)"
proof -
  obtain b bs1 where bs: "bs = b # bs1" using assms(1) by (cases bs) auto
  show ?thesis
  proof (cases "n = 0")
    case True
    define p where "p = unat (ucast b AND (ucast (mask prefix :: u8) :: u32))"
    define m where "m = (of_nat (prefix_max prefix) :: u32)"
    have l: "len_post 0 bs (decode_length_loop m shift bs1 1)" using decode_loop_len [of 1 bs1 m shift] by (auto simp: len_post_def bs)
    have d: "decode_length n shift bs prefix = (if p \<noteq> prefix_max prefix then Some (Inr (of_nat p, 0, True, 1))
      else if bs1 = [] then Some (Inr (m, 0, False, 1)) else Some (decode_length_loop m shift bs1 1))"
      unfolding bs True decode_length_first [OF assms(2,3)] Let_def p_def m_def ..
    have "len_post 0 bs (Inr (of_nat p, 0, True, 1))" "bs1 = [] \<Longrightarrow> len_post 0 bs (Inr (m, 0, False, 1))"
      by (simp_all add: len_post_def bs)
    moreover have "0 < unat m" using unat_prefix_max [OF assms(3)] prefix_max_pos [OF assms(2)] by (simp add: m_def)
    then have m: "m \<noteq> 0" by auto
    then have "\<forall>n' s k. decode_length_loop m shift bs1 1 = Inr (n', s, False, k) \<longrightarrow> n' \<noteq> 0"
      using decode_loop_nonzero by blast
    ultimately show ?thesis unfolding d using l m by (cases "p \<noteq> prefix_max prefix"; cases "bs1 = []") simp_all
  next
    case False
    then have d: "decode_length n shift bs prefix = Some (decode_length_loop n shift bs 0)" by (simp add: decode_length_def Let_def)
    have "\<forall>n' s k. decode_length_loop n shift bs 0 = Inr (n', s, False, k) \<longrightarrow> n' \<noteq> 0"
      using decode_loop_nonzero False by blast
    then show ?thesis unfolding d using decode_loop_len [of 0 bs n shift] by blast
  qed
qed

lemma read_len_ok:
  assumes "bs \<noteq> []" "0 < prefix" "prefix \<le> 8"
  obtains shift where "hd_inflate_read_len ir bs prefix maxlen = Some (Inl ERR_HEADER_COMP, ir\<lparr>if_shift := shift\<rparr>)"
    | rv rfin left shift where "hd_inflate_read_len ir bs prefix maxlen = Some (Inr (rv, rfin), ir\<lparr>if_left := left, if_shift := shift\<rparr>)"
      "0 < rv" "rv \<le> length bs" "left \<le> maxlen" "\<not> rfin \<longrightarrow> rv = length bs" "left < 2 ^ 32" "\<not> rfin \<longrightarrow> 0 < left"
proof -
  obtain r where r: "decode_length (of_nat (if_left ir)) (if_shift ir) bs prefix = Some r"
    "len_post 0 bs r" "\<forall>n' s k. r = Inr (n', s, False, k) \<longrightarrow> n' \<noteq> 0"
    using decode_length_some [OF assms] by blast
  show ?thesis
  proof (cases r)
    case (Inl u)
    then show ?thesis using that(1) [of 0] r(1) by (simp add: hd_inflate_read_len_def)
  next
    case (Inr p)
    obtain out shift rfin rv where p: "p = (out, shift, rfin, rv)" by (cases p)
    have k: "0 < rv" "rv \<le> length bs" "\<not> rfin \<longrightarrow> rv = length bs" using r(2) Inr p assms(1) by (auto simp: len_post_def)
    have u: "unat out < 2 ^ 32" using unsigned_less [of out, where ?'a = nat] by simp
    show ?thesis
    proof (cases "unat out > maxlen")
      case True
      have "hd_inflate_read_len ir bs prefix maxlen = Some (Inl ERR_HEADER_COMP, ir\<lparr>if_shift := shift\<rparr>)"
        unfolding hd_inflate_read_len_def r(1) Inr p using True by simp
      then show ?thesis by (rule that(1))
    next
      case False
      have "hd_inflate_read_len ir bs prefix maxlen = Some (Inr (rv, rfin), ir\<lparr>if_left := unat out, if_shift := shift\<rparr>)"
        unfolding hd_inflate_read_len_def r(1) Inr p using False by simp
      then show ?thesis by (rule that(2)) (use k u False r(3) Inr p in \<open>auto simp: unat_gt_0\<close>)
    qed
  qed
qed

lemma huff_decode_loop_grows:
  "huff_decode_loop ctx buf src = (r, ctx', buf') \<Longrightarrow> \<exists>out. buf' = buf_cpymem buf out \<and> length out \<le> 2 * length src"
proof (induction ctx buf src arbitrary: r ctx' buf' rule: huff_decode_loop.induct)
  case (1 ctx buf)
  then show ?case using buf_cpymem_simps(1) [of buf] by auto
next
  case (2 ctx buf b src)
  have nib: "\<exists>out. buf1 = buf_cpymem buf out \<and> length out \<le> 1" if "huff_decode_nibble st idx buf = Some (t, buf1)" for st idx buf t buf1
    using that buf_cpymem_simps(1) [of buf] by (auto simp: huff_decode_nibble_def Let_def split: if_splits intro: exI [of _ "[]"])
  show ?case
  proof (cases "huff_decode_nibble (hc_state ctx) (drop_bit 4 b) buf")
    case None
    then show ?thesis using "2.prems" buf_cpymem_simps(1) [of buf] by (auto intro: exI [of _ "[]"])
  next
    case (Some p)
    obtain t buf1 where p: "p = (t, buf1)" by (cases p)
    obtain o1 where o1: "buf1 = buf_cpymem buf o1" "length o1 \<le> 1" using nib [of _ _ buf t buf1] Some p by blast
    show ?thesis
    proof (cases "huff_decode_nibble (dec_state t) (b AND 0xf) buf1")
      case None
      then show ?thesis using "2.prems" Some p o1 by (auto intro!: exI [of _ o1])
    next
      case q: (Some q)
      obtain t2 buf2 where qq: "q = (t2, buf2)" by (cases q)
      obtain o2 where o2: "buf2 = buf_cpymem buf1 o2" "length o2 \<le> 1" using nib [of _ _ buf1 t2 buf2] q qq by blast
      obtain o3 where o3: "buf' = buf_cpymem buf2 o3" "length o3 \<le> 2 * length src"
        using "2.IH" [OF Some p [symmetric] q qq [symmetric], of r ctx' buf'] "2.prems" Some p q qq by auto
      have "buf' = buf_cpymem buf (o1 @ o2 @ o3)" "length (o1 @ o2 @ o3) \<le> 2 * length (b # src)"
        using o1 o2 o3 by (simp_all add: buf_cpymem_simps(2))
      then show ?thesis by blast
    qed
  qed
qed

lemma huff_decode_loop_error: "huff_decode_loop ctx buf src = (Inl e, ctx', buf') \<Longrightarrow> e = ERR_HEADER_COMP"
  by (induction ctx buf src rule: huff_decode_loop.induct) (auto split: option.splits prod.splits)

lemma read_huff_ok:
  obtains e hc out where "hd_inflate_read_huff ir buf bs = (Inl e, ir\<lparr>if_huff_decode_ctx := hc\<rparr>, buf_cpymem buf out)"
      "e = ERR_HEADER_COMP" "length out \<le> 2 * if_left ir"
    | hc out where "hd_inflate_read_huff ir buf bs = (Inr (min (length bs) (if_left ir)),
        ir\<lparr>if_huff_decode_ctx := hc, if_left := if_left ir - min (length bs) (if_left ir)\<rparr>, buf_cpymem buf out)"
      "length out \<le> 2 * min (length bs) (if_left ir)"
proof -
  define fin where "fin = (length bs \<ge> if_left ir)"
  define bs1 where "bs1 = (if fin then take (if_left ir) bs else bs)"
  have l: "length bs1 = min (length bs) (if_left ir)" by (auto simp: bs1_def fin_def)
  obtain r hc buf' where d: "huff_decode_loop (if_huff_decode_ctx ir) buf bs1 = (r, hc, buf')" by (metis prod_cases3)
  obtain out where out: "buf' = buf_cpymem buf out" "length out \<le> 2 * length bs1" using huff_decode_loop_grows [OF d] by blast
  have e: "r = Inl e \<Longrightarrow> e = ERR_HEADER_COMP" for e using huff_decode_loop_error d by blast
  let ?d = "nghttp2_hd_huff_decode (if_huff_decode_ctx ir) buf bs1 fin"
  have rh: "hd_inflate_read_huff ir buf bs = (case ?d of
        (Inl e, ctx, buf) \<Rightarrow> (Inl e, ir\<lparr>if_huff_decode_ctx := ctx\<rparr>, buf)
      | (Inr readlen, ctx, buf) \<Rightarrow> (Inr readlen, ir\<lparr>if_huff_decode_ctx := ctx, if_left := if_left ir - readlen\<rparr>, buf))"
    unfolding hd_inflate_read_huff_def fin_def [symmetric] Let_def bs1_def [symmetric] ..
  show ?thesis
  proof (cases "(\<exists>e. r = Inl e) \<or> fin \<and> hc_accept hc = 0")
    case True
    then have "?d = (Inl ERR_HEADER_COMP, hc, buf')" using d e by (cases r) (auto simp: nghttp2_hd_huff_decode_def)
    then show ?thesis using that(1) [of ERR_HEADER_COMP hc out] rh out l by simp
  next
    case False
    then have "?d = (Inr (length bs1), hc, buf')" using d by (cases r) (auto simp: nghttp2_hd_huff_decode_def)
    then show ?thesis using that(2) [of hc out] rh out l by simp
  qed
qed

section \<open>Stores through the views\<close>

lemma buf_cpymem_view:
  assumes "buf_pos buf = 0" "buf_last buf + room < length (buf_data buf)" "length out \<le> room"
  shows "buf_last (buf_cpymem buf out) + (room - length out) < length (buf_data (buf_cpymem buf out))"
    "nghttp2_buf_len (buf_cpymem buf out) = length (buf_bytes (buf_cpymem buf out))"
    "take (buf_last buf + length out) (buf_data (buf_cpymem buf out)) = buf_bytes (buf_cpymem buf out)"
    "buf_bytes (buf_cpymem buf out) = buf_bytes buf @ out"
proof -
  show "buf_last (buf_cpymem buf out) + (room - length out) < length (buf_data (buf_cpymem buf out))" using assms by simp
  have wf: "buf_wf buf" "length out \<le> nghttp2_buf_avail buf" using assms by (simp_all add: buf_wf_def nghttp2_buf_avail_def)
  show "buf_bytes (buf_cpymem buf out) = buf_bytes buf @ out" using buf_cpymem_correct [OF wf] by simp
  show "nghttp2_buf_len (buf_cpymem buf out) = length (buf_bytes (buf_cpymem buf out))"
    "take (buf_last buf + length out) (buf_data (buf_cpymem buf out)) = buf_bytes (buf_cpymem buf out)"
    using assms by (simp_all add: buf_bytes_def nghttp2_buf_len_def)
qed

lemma store_ok:
  assumes ok: "ctx_ok ctx hmap (F + opt_mset ptr)" and v: "rc_view (ctx_heap ctx) ptr buf room" and l: "length out \<le> room"
  obtains h where "rc_store (ctx_heap ctx) ptr (buf_cpymem buf out) = Some h" "ctx_ok (ctx\<lparr>ctx_heap := h\<rparr>) hmap (F + opt_mset ptr)"
    "dyn_table (ctx\<lparr>ctx_heap := h\<rparr>) = dyn_table ctx" "rc_same (F + ctx_refs ctx) (ctx_heap ctx) h"
    "rc_mem h = rc_mem (ctx_heap ctx)" "rc_view h ptr (buf_cpymem buf out) (room - length out)"
proof -
  obtain a rc where a: "ptr = Some (Rc_heap a)" "rc_get (ctx_heap ctx) (Rc_heap a) = Some rc" "rc_ref rc = 1"
    "rc_base rc = buf_data buf" "rc_len rc \<le> length (rc_base rc)" "buf_pos buf = 0" "buf_last buf + room < length (buf_data buf)"
    using v by (auto simp: rc_view_def)
  note c = buf_cpymem_view [OF a(6,7) l]
  let ?rc = "rc\<lparr>rc_base := buf_data (buf_cpymem buf out)\<rparr>"
  have ok': "ctx_ok ctx hmap (add_mset (Rc_heap a) F)" using ok a(1) by simp
  note p = ctx_put [OF ok' a(2,3), of ?rc]
  have q: "rc_ref ?rc = 1" "rc_len ?rc \<le> length (rc_base ?rc)" using a by simp_all
  show ?thesis
  proof (rule that [OF _ _ p(2-4) [OF q]])
    show "rc_store (ctx_heap ctx) ptr (buf_cpymem buf out) = Some (rc_put (ctx_heap ctx) (Rc_heap a) ?rc)"
      using a c(1) by (simp add: rc_store_def)
    show "ctx_ok (ctx\<lparr>ctx_heap := rc_put (ctx_heap ctx) (Rc_heap a) ?rc\<rparr>) hmap (F + opt_mset ptr)" using p(1) [OF q] a(1) by simp
    show "rc_view (rc_put (ctx_heap ctx) (Rc_heap a) ?rc) ptr (buf_cpymem buf out) (room - length out)"
      unfolding rc_view_def using a p(5) [OF q] q c(1) by (intro exI [of _ a] exI [of _ ?rc]) simp
  qed
qed

lemma finish_ok:
  assumes ok: "ctx_ok ctx hmap (F + opt_mset ptr)" and v: "rc_view (ctx_heap ctx) ptr buf room" and l: "length out \<le> room"
  obtains h buf' a where "rc_finish (ctx_heap ctx) ptr (buf_cpymem buf out) = Some (h, buf')" "ctx_ok (ctx\<lparr>ctx_heap := h\<rparr>) hmap (F + opt_mset ptr)"
    "dyn_table (ctx\<lparr>ctx_heap := h\<rparr>) = dyn_table ctx" "rc_same (F + ctx_refs ctx) (ctx_heap ctx) h"
    "rc_mem h = rc_mem (ctx_heap ctx)" "ptr = Some (Rc_heap a)" "rc_bytes h (Rc_heap a) = buf_bytes buf @ out"
proof -
  obtain a rc where a: "ptr = Some (Rc_heap a)" "rc_get (ctx_heap ctx) (Rc_heap a) = Some rc" "rc_ref rc = 1"
    "rc_base rc = buf_data buf" "rc_len rc \<le> length (rc_base rc)" "buf_pos buf = 0" "buf_last buf + room < length (buf_data buf)"
    using v by (auto simp: rc_view_def)
  note c = buf_cpymem_view [OF a(6,7) l]
  let ?b = "(buf_cpymem buf out)\<lparr>buf_data := (buf_data (buf_cpymem buf out))[buf_last (buf_cpymem buf out) := 0]\<rparr>"
  let ?rc = "rc\<lparr>rc_base := buf_data ?b, rc_len := nghttp2_buf_len ?b\<rparr>"
  have ok': "ctx_ok ctx hmap (add_mset (Rc_heap a) F)" using ok a(1) by simp
  have len: "nghttp2_buf_len ?b = nghttp2_buf_len (buf_cpymem buf out)" by (simp add: nghttp2_buf_len_def)
  have q: "rc_ref ?rc = 1" "rc_len ?rc \<le> length (rc_base ?rc)" using a c(1) l by (simp_all add: nghttp2_buf_len_def)
  note p = ctx_put [OF ok' a(2,3) q]
  have lt: "buf_last buf + length out < length (buf_data buf)" using a(7) l by simp
  show ?thesis
  proof (rule that [OF _ _ p(2-4) a(1)])
    show "rc_finish (ctx_heap ctx) ptr (buf_cpymem buf out) = Some (rc_put (ctx_heap ctx) (Rc_heap a) ?rc, ?b)"
      using a lt by (simp add: rc_finish_def Let_def)
    show "ctx_ok (ctx\<lparr>ctx_heap := rc_put (ctx_heap ctx) (Rc_heap a) ?rc\<rparr>) hmap (F + opt_mset ptr)" using p(1) a(1) by simp
    have "rc_bytes (rc_put (ctx_heap ctx) (Rc_heap a) ?rc) (Rc_heap a) = take (buf_last buf + length out) (buf_data (buf_cpymem buf out))"
      using a(6) by (simp add: rc_bytes_def nghttp2_buf_len_def)
    then show "rc_bytes (rc_put (ctx_heap ctx) (Rc_heap a) ?rc) (Rc_heap a) = buf_bytes buf @ out" using c(3,4) by simp
  qed
qed

section \<open>Frame rules\<close>

lemma held_simps [simp]:
  "held (ir\<lparr>if_ctx := c\<rparr>) = held ir" "held (ir\<lparr>if_huff_decode_ctx := hc\<rparr>) = held ir" "held (ir\<lparr>namebuf := b\<rparr>) = held ir"
  "held (ir\<lparr>valuebuf := b\<rparr>) = held ir" "held (ir\<lparr>if_left := n\<rparr>) = held ir" "held (ir\<lparr>if_index := n\<rparr>) = held ir"
  "held (ir\<lparr>if_min_hd_table_bufsize_max := n\<rparr>) = held ir" "held (ir\<lparr>if_shift := n\<rparr>) = held ir"
  "held (ir\<lparr>settings_hd_table_bufsize_max := n\<rparr>) = held ir"
  "held (ir\<lparr>if_opcode := op\<rparr>) = held ir" "held (ir\<lparr>if_state := s\<rparr>) = held ir" "held (ir\<lparr>huffman_encoded := b1\<rparr>) = held ir"
  "held (ir\<lparr>index_required := b1\<rparr>) = held ir" "held (ir\<lparr>no_index := b1\<rparr>) = held ir" "held (set_heap ir h) = held ir"
  by (simp_all add: held_def set_heap_def)

lemma ir_owned_simps [simp]:
  "ir_owned (ir\<lparr>if_huff_decode_ctx := hc\<rparr>) E = ir_owned ir E" "ir_owned (ir\<lparr>namebuf := b\<rparr>) E = ir_owned ir E"
  "ir_owned (ir\<lparr>valuebuf := b\<rparr>) E = ir_owned ir E" "ir_owned (ir\<lparr>if_left := n\<rparr>) E = ir_owned ir E" "ir_owned (ir\<lparr>if_index := n\<rparr>) E = ir_owned ir E"
  "ir_owned (ir\<lparr>if_min_hd_table_bufsize_max := n\<rparr>) E = ir_owned ir E" "ir_owned (ir\<lparr>if_shift := n\<rparr>) E = ir_owned ir E"
  "ir_owned (ir\<lparr>settings_hd_table_bufsize_max := n\<rparr>) E = ir_owned ir E"
  "ir_owned (ir\<lparr>if_opcode := op\<rparr>) E = ir_owned ir E" "ir_owned (ir\<lparr>if_state := s\<rparr>) E = ir_owned ir E"
  "ir_owned (ir\<lparr>huffman_encoded := b1\<rparr>) E = ir_owned ir E"
  "ir_owned (ir\<lparr>index_required := b1\<rparr>) E = ir_owned ir E" "ir_owned (ir\<lparr>no_index := b1\<rparr>) E = ir_owned ir E"
  by (simp_all add: ir_owned_def)

lemma set_heap_fields [simp]:
  "if_ctx (set_heap ir h) = (if_ctx ir)\<lparr>ctx_heap := h\<rparr>" "if_left (set_heap ir h) = if_left ir" "namebuf (set_heap ir h) = namebuf ir"
  "valuebuf (set_heap ir h) = valuebuf ir" "namercbuf (set_heap ir h) = namercbuf ir" "valuercbuf (set_heap ir h) = valuercbuf ir"
  "nv_name_keep (set_heap ir h) = nv_name_keep ir" "nv_value_keep (set_heap ir h) = nv_value_keep ir" "if_opcode (set_heap ir h) = if_opcode ir"
  "if_state (set_heap ir h) = if_state ir" "if_index (set_heap ir h) = if_index ir" "index_required (set_heap ir h) = index_required ir"
  "no_index (set_heap ir h) = no_index ir" "settings_hd_table_bufsize_max (set_heap ir h) = settings_hd_table_bufsize_max ir"
  "huffman_encoded (set_heap ir h) = huffman_encoded ir" "if_huff_decode_ctx (set_heap ir h) = if_huff_decode_ctx ir"
  "if_min_hd_table_bufsize_max (set_heap ir h) = if_min_hd_table_bufsize_max ir" "if_shift (set_heap ir h) = if_shift ir"
  by (simp_all add: set_heap_def)

lemma ir_owned_set_heap: "ctx_ok ((if_ctx ir)\<lparr>ctx_heap := h\<rparr>) None (E + held ir) \<Longrightarrow> ir_owned (set_heap ir h) E"
  by (simp add: ir_owned_def)

lemma held_fresh: "ir_fresh ir \<Longrightarrow> held ir = opt_mset (namercbuf ir) + opt_mset (valuercbuf ir)"
  by (simp add: held_def ir_fresh_def)

section \<open>Committing\<close>

lemma ctx_ok_max_index: "ctx_ok ctx hmap E \<Longrightarrow> get_max_index ctx = NGHTTP2_STATIC_TABLE_LENGTH + length (dyn_table ctx)"
  by (auto simp: get_max_index_def dest: ctx_okD)

definition nv_bytes :: "rc_heap \<Rightarrow> nghttp2_hd_nv \<Rightarrow> field" where
  "nv_bytes h nv = (rc_bytes h (hd_name nv), rc_bytes h (hd_value nv))"

definition ir_table :: "nghttp2_hd_inflater \<Rightarrow> nat \<times> field list" where
  "ir_table ir = (hd_table_bufsize_max (if_ctx ir), dyn_table (if_ctx ir))"

text \<open>What a committed field does to the table, in the terms of the specification.\<close>

definition commit_table :: "bool \<Rightarrow> field \<Rightarrow> nat \<times> field list \<Rightarrow> nat \<times> field list" where
  "commit_table add f s = (fst s, if add then table_cut (fst s) (f # snd s) else snd s)"

definition commit_post :: "nghttp2_hd_inflater \<Rightarrow> rcptr multiset \<Rightarrow> field \<Rightarrow> (nghttp2_error + nghttp2_hd_nv) \<times> nghttp2_hd_inflater \<Rightarrow> bool" where
  "commit_post ir E f r \<longleftrightarrow> ir_owned (snd r) E \<and> ir_kept ir (snd r) E \<and>
     if_opcode (snd r) = if_opcode ir \<and> index_required (snd r) = index_required ir \<and> no_index (snd r) = no_index ir \<and>
     if_min_hd_table_bufsize_max (snd r) = if_min_hd_table_bufsize_max ir \<and>
     (case fst r of
        Inl e \<Rightarrow> e = ERR_NOMEM \<and> \<not> ir_reliable ir
      | Inr nv \<Rightarrow> nv_bytes (if_heap (snd r)) nv = f \<and> hd_flags nv = nv_flag ir \<and> hd_token nv = lookup_token (fst f) \<and>
          rc_live (held (snd r)) (hd_name nv) \<and> rc_live (held (snd r)) (hd_value nv) \<and>
          namercbuf (snd r) = None \<and> valuercbuf (snd r) = None \<and>
          ir_table (snd r) = commit_table (index_required ir) f (ir_table ir))"

lemma commit_add:
  assumes ok: "ctx_ok ctx None M" and live: "rc_live M (hd_name nv)" "rc_live M (hd_value nv)"
    and f: "f = nv_bytes (ctx_heap ctx) nv" and t: "hd_token nv = lookup_token (fst f)" and fl: "add \<longrightarrow> hd_flags nv = NGHTTP2_NV_FLAG_NONE"
  obtains rv ctx' where "(if add then map_option (\<lambda>(rv, ctx, _). (rv, ctx)) (add_hd_table_incremental ctx nv None 0) else Some (Inr (), ctx)) = Some (rv, ctx')"
    "ctx_ok ctx' None M" "rc_same M (ctx_heap ctx) (ctx_heap ctx')" "mem_mono (rc_mem (ctx_heap ctx)) (rc_mem (ctx_heap ctx'))"
    "ctx_bad ctx' = ctx_bad ctx" "hd_table_bufsize_max ctx' = hd_table_bufsize_max ctx"
    "\<And>e. rv = Inl e \<Longrightarrow> e = ERR_NOMEM \<and> \<not> mem_reliable (rc_mem (ctx_heap ctx))"
    "rv = Inr () \<Longrightarrow> (hd_table_bufsize_max ctx', dyn_table ctx') = commit_table add f (hd_table_bufsize_max ctx, dyn_table ctx)"
proof (cases add)
  case True
  then have fl': "hd_flags nv = NGHTTP2_NV_FLAG_NONE" using fl by simp
  show ?thesis
    by (rule ctx_ok_add [OF ok live f [unfolded nv_bytes_def] t fl', of 0])
       (use True that in \<open>auto simp: ctx_kept_def commit_table_def\<close>)
next
  case False
  then show ?thesis using that [of "Inr ()" ctx] ok by (simp add: commit_table_def)
qed

lemma commit_newname_ok:
  assumes own: "ir_owned ir E" and fr: "ir_fresh ir" and n: "namercbuf ir = Some name" and v: "valuercbuf ir = Some val"
    and ni: "\<not> (index_required ir \<and> no_index ir)" and f: "f = (rc_bytes (if_heap ir) name, rc_bytes (if_heap ir) val)"
  obtains r where "hd_inflate_commit_newname ir = Some r" "commit_post ir E f r"
proof -
  let ?M = "E + held ir"
  have c: "ctx_ok (if_ctx ir) None ?M" using own by (simp add: ir_owned_def)
  have h: "held ir = {#name, val#}" using held_fresh [OF fr] n v by simp
  have live: "rc_live {#name, val#} name" "rc_live {#name, val#} val" "rc_live ?M name" "rc_live ?M val"
    using rc_ok_sub_live [OF ctx_ok_live [OF c], of "{#name, val#}"] rc_ok_sub_live [OF ctx_ok_live [OF c], of ?M] h by simp_all
  define tok where "tok = lookup_token (fst f)"
  let ?nv = "\<lparr>hd_name = name, hd_value = val, hd_token = tok, hd_flags = nv_flag ir\<rparr>"
  obtain rc where rc: "rc_get (if_heap ir) name = Some rc" "rc_bytes (if_heap ir) name = take (rc_len rc) (rc_base rc)"
    by (rule rc_ok_get [OF ctx_ok_live [OF c], of name]) (use live(3) rc_live_mono in auto)
  have tk: "lookup_token (take (rc_len rc) (rc_base rc)) = tok" unfolding tok_def f rc(2) by simp
  have fl: "index_required ir \<longrightarrow> hd_flags ?nv = NGHTTP2_NV_FLAG_NONE" using ni by (simp add: nv_flag_def)
  obtain rv ctx' where a: "(if index_required ir then map_option (\<lambda>(rv, ctx, _). (rv, ctx)) (add_hd_table_incremental (if_ctx ir) ?nv None 0)
       else Some (Inr (), if_ctx ir)) = Some (rv, ctx')"
    "ctx_ok ctx' None ?M" "rc_same ?M (if_heap ir) (ctx_heap ctx')" "mem_mono (rc_mem (if_heap ir)) (rc_mem (ctx_heap ctx'))"
    "ctx_bad ctx' = ctx_bad (if_ctx ir)" "hd_table_bufsize_max ctx' = hd_table_bufsize_max (if_ctx ir)"
    "\<And>e. rv = Inl e \<Longrightarrow> e = ERR_NOMEM \<and> \<not> ir_reliable ir"
    "rv = Inr () \<Longrightarrow> (hd_table_bufsize_max ctx', dyn_table ctx') = commit_table (index_required ir) f (hd_table_bufsize_max (if_ctx ir), dyn_table (if_ctx ir))"
    by (rule commit_add [OF c, of ?nv f "index_required ir"]) (use live f fl in \<open>simp_all add: nv_bytes_def tok_def\<close>)
  have sE: "rc_same E (if_heap ir) (ctx_heap ctx')" by (rule rc_same_mono [OF a(3)]) simp
  let ?ir = "ir\<lparr>if_ctx := ctx'\<rparr>"
  let ?ir2 = "?ir\<lparr>nv_name_keep := Some name, nv_value_keep := Some val, namercbuf := None, valuercbuf := None\<rparr>"
  note cd = hd_inflate_commit_newname_def [of ir]
  show ?thesis
  proof (cases rv)
    case (Inl e)
    have "hd_inflate_commit_newname ir = Some (Inl e, ?ir)"
      by (simp only: cd Let_def n v rc(1) bind.bind_lunit tk a(1) Inl) simp
    moreover have "commit_post ir E f (Inl e, ?ir)"
      using a(2,4,5) a(7) [OF Inl] sE by (simp add: commit_post_def ir_owned_def ir_kept_def)
    ultimately show ?thesis by (rule that)
  next
    case (Inr u)
    have "hd_inflate_commit_newname ir = Some (Inr ?nv, ?ir2)"
      by (simp only: cd Let_def n v rc(1) bind.bind_lunit tk a(1) Inr) (simp add: emit_header_def tk)
    moreover have "held ?ir2 = {#name, val#}" by (simp add: held_def)
    then have "commit_post ir E f (Inr ?nv, ?ir2)"
      using a(2,4,5) a(8) Inr sE h live(1,2) f rc_same_live [OF a(3) live(3)] rc_same_live [OF a(3) live(4)]
      by (simp add: commit_post_def ir_owned_def ir_kept_def nv_bytes_def ir_table_def tok_def)
    ultimately show ?thesis by (rule that)
  qed
qed

lemma commit_indname_ok:
  assumes own: "ir_owned ir E" and fr: "ir_fresh ir" and n: "namercbuf ir = None" and v: "valuercbuf ir = Some val"
    and i: "if_index ir < get_max_index (if_ctx ir)"
    and ni: "\<not> (index_required ir \<and> no_index ir)" 
    and f: "f = (fst ((static_fields @ dyn_table (if_ctx ir)) ! if_index ir), rc_bytes (if_heap ir) val)"
  obtains r where "hd_inflate_commit_indname ir = Some r" "commit_post ir E f r"
proof -
  have c: "ctx_ok (if_ctx ir) None (E + held ir)" using own by (simp add: ir_owned_def)
  have h: "held ir = {#val#}" using held_fresh [OF fr] n v by simp
  have i': "if_index ir < NGHTTP2_STATIC_TABLE_LENGTH + length (dyn_table (if_ctx ir))"
    using i ctx_ok_max_index [OF c] by simp
  obtain ent where ent: "nghttp2_hd_table_get (if_ctx ir) (if_index ir) = Some ent"
    "rc_bytes (if_heap ir) (hd_name ent) = fst f" "hd_token ent = lookup_token (fst f)" "rc_live (E + held ir + ctx_refs (if_ctx ir)) (hd_name ent)"
    by (rule hd_table_get_ok [OF c i']) (use f in \<open>auto dest: arg_cong [of _ _ fst]\<close>)
  define name where "name = hd_name ent"
  obtain hp where inc: "nghttp2_rcbuf_incref (if_heap ir) name = Some hp" "ctx_ok ((if_ctx ir)\<lparr>ctx_heap := hp\<rparr>) None (add_mset name (E + held ir))"
    "dyn_table ((if_ctx ir)\<lparr>ctx_heap := hp\<rparr>) = dyn_table (if_ctx ir)" "rc_bytes hp = rc_bytes (if_heap ir)" "rc_mem hp = rc_mem (if_heap ir)"
    by (rule ctx_incref [OF c ent(4)]) (simp add: name_def)
  define nv where "nv = ent\<lparr>hd_flags := nv_flag ir, hd_value := val\<rparr>"
  have nv: "hd_name nv = name" "hd_value nv = val" "hd_token nv = lookup_token (fst f)" "hd_flags nv = nv_flag ir"
    by (simp_all add: nv_def name_def ent(3))
  let ?M = "add_mset name (E + held ir)"
  have live: "rc_live {#name, val#} name" "rc_live {#name, val#} val" "rc_live ?M name" "rc_live ?M val"
    using rc_ok_sub_live [OF ctx_ok_live [OF inc(2)], of "{#name, val#}"] rc_ok_sub_live [OF ctx_ok_live [OF inc(2)], of ?M] h by simp_all
  have fl: "index_required ir \<longrightarrow> hd_flags nv = NGHTTP2_NV_FLAG_NONE" using ni by (simp add: nv nv_flag_def)
  have fb: "f = nv_bytes hp nv" using ent(2) f by (simp add: nv_bytes_def nv inc(4) name_def prod_eq_iff)
  let ?ctx = "(if_ctx ir)\<lparr>ctx_heap := hp\<rparr>"
  obtain rv ctx' where a: "(if index_required ir then map_option (\<lambda>(rv, ctx, _). (rv, ctx)) (add_hd_table_incremental ?ctx nv None 0)
       else Some (Inr (), ?ctx)) = Some (rv, ctx')"
    "ctx_ok ctx' None ?M" "rc_same ?M hp (ctx_heap ctx')" "mem_mono (rc_mem hp) (rc_mem (ctx_heap ctx'))"
    "ctx_bad ctx' = ctx_bad (if_ctx ir)" "hd_table_bufsize_max ctx' = hd_table_bufsize_max (if_ctx ir)"
    "\<And>e. rv = Inl e \<Longrightarrow> e = ERR_NOMEM \<and> \<not> ir_reliable ir"
    "rv = Inr () \<Longrightarrow> (hd_table_bufsize_max ctx', dyn_table ctx') = commit_table (index_required ir) f (hd_table_bufsize_max (if_ctx ir), dyn_table (if_ctx ir))"
    by (rule commit_add [OF inc(2), of nv f "index_required ir"]) (use live fb fl inc(3,5) nv in \<open>simp_all\<close>)
  have sM: "rc_same ?M (if_heap ir) (ctx_heap ctx')" using a(3) by (simp add: rc_same_def inc(4))
  have sE: "rc_same E (if_heap ir) (ctx_heap ctx')" by (rule rc_same_mono [OF sM]) simp
  note cd = hd_inflate_commit_indname_def [of ir]
  have nm: "hd_name (ent\<lparr>hd_flags := nv_flag ir\<rparr>) = name" by (simp add: name_def)
  show ?thesis
  proof (cases rv)
    case (Inl e)
    have nM: "name \<in># ?M" by simp
    obtain h2 where d: "nghttp2_rcbuf_decref (ctx_heap ctx') (Some name) = Some h2" "ctx_ok (ctx'\<lparr>ctx_heap := h2\<rparr>) None (E + held ir)"
      "rc_same (E + held ir + ctx_refs ctx') (ctx_heap ctx') h2" "rc_mem h2 = rc_mem (ctx_heap ctx')"
      by (rule ctx_decref [OF a(2) nM]) (simp add: add_mset_remove_trivial)
    have s2: "rc_same E (if_heap ir) h2" by (rule rc_same_trans [OF sE rc_same_mono [OF d(3)]]) simp
    have "hd_inflate_commit_indname ir = Some (Inl ERR_NOMEM, set_heap (ir\<lparr>if_ctx := ctx'\<rparr>) h2)"
      by (simp only: cd Let_def ent(1) bind.bind_lunit v nm nv_def [symmetric] inc(1) a(1) Inl)
         (simp add: Let_def d(1) nv)
    moreover have "commit_post ir E f (Inl ERR_NOMEM, set_heap (ir\<lparr>if_ctx := ctx'\<rparr>) h2)"
      using d(2,4) a(4,5) a(7) [OF Inl] s2 inc(5) by (simp add: commit_post_def ir_owned_def ir_kept_def)
    ultimately show ?thesis by (rule that)
  next
    case (Inr u)
    let ?ir2 = "ir\<lparr>if_ctx := ctx', nv_name_keep := Some name, nv_value_keep := Some val, valuercbuf := None\<rparr>"
    have "hd_inflate_commit_indname ir = Some (Inr nv, ?ir2)"
      by (simp only: cd Let_def ent(1) bind.bind_lunit v nm nv_def [symmetric] inc(1) a(1) Inr)
         (simp add: Let_def emit_header_def nv)
    moreover have "held ?ir2 = {#name, val#}" using n by (simp add: held_def)
    then have "commit_post ir E f (Inr nv, ?ir2)"
      using a(2,4,5) a(8) Inr sE h live(1,2) fb rc_same_live [OF a(3) live(3)] rc_same_live [OF a(3) live(4)] inc(5) n
      by (simp add: commit_post_def ir_owned_def ir_kept_def nv_bytes_def ir_table_def nv add_mset_commute)
    ultimately show ?thesis by (rule that)
  qed
qed

section \<open>Every step keeps the invariant\<close>

definition reads_value :: "nghttp2_hd_inflater \<Rightarrow> bool" where
  "reads_value ir \<longleftrightarrow> if_state ir = STATE_READ_VALUE \<or> if_state ir = STATE_READ_VALUEHUFF"

fun state_rank :: "nghttp2_hd_inflate_state \<Rightarrow> nat" where
  "state_rank STATE_EXPECT_TABLE_SIZE = 1"
| "state_rank STATE_INFLATE_START = 1"
| "state_rank STATE_OPCODE = 1"
| "state_rank STATE_NEWNAME_READ_NAMEHUFF = 1"
| "state_rank STATE_NEWNAME_READ_NAME = 1"
| "state_rank _ = 0"

text \<open>The loop's measure: a step that does not leave the loop consumes input, or moves to a state of a lower rank.\<close>

definition loop_measure :: "nghttp2_hd_inflater \<Rightarrow> u8 list \<Rightarrow> nat" where
  "loop_measure ir bs = 2 * length bs + state_rank (if_state ir)"

definition step_post :: "nghttp2_hd_inflater \<Rightarrow> u8 list \<Rightarrow> rcptr multiset \<Rightarrow> inflate_step \<Rightarrow> bool" where
  "step_post ir bs E st \<longleftrightarrow>
     (case st of
        Step_break i rest busy \<Rightarrow> ir_ok i E \<and> ir_fresh i \<and> ir_kept ir i E \<and> (\<exists>n. rest = drop n bs) \<and> (busy \<longrightarrow> reads_value i) \<and>
          loop_measure i rest < loop_measure ir bs
      | Step_emit i rest nv \<Rightarrow> ir_ok i E \<and> ir_kept ir i E \<and> (\<exists>n. rest = drop n bs) \<and> if_state i = STATE_OPCODE \<and>
          rc_live (E + held i + ctx_refs (if_ctx i)) (hd_name nv) \<and> rc_live (E + held i + ctx_refs (if_ctx i)) (hd_value nv)
      | Step_almost i rest \<Rightarrow> ir_ok i E \<and> ir_fresh i \<and> ir_kept ir i E \<and> rest = []
      | Step_fail i e \<Rightarrow> ir_owned i E \<and> ir_kept ir i E \<and> (e = ERR_HEADER_COMP \<or> e = ERR_NOMEM \<and> \<not> ir_reliable ir))"

lemma and_parts: "(b :: u8) AND 0xf0 = 0x10 \<Longrightarrow> b AND 0x40 = 0"
proof -
  assume a: "b AND 0xf0 = 0x10"
  have "b AND 0x40 = (b AND 0xf0) AND 0x40" by (simp add: and.assoc)
  then show ?thesis by (simp add: a)
qed

lemma opcode_step:
  assumes ok: "ir_ok ir E" "ir_fresh ir" and bs: "bs \<noteq> []"
    and s: "if_state ir \<in> {STATE_EXPECT_TABLE_SIZE, STATE_INFLATE_START, STATE_OPCODE}"
  shows "\<exists>st. inflate_opcode ir bs = Some st \<and> step_post ir bs E st"
proof -
  obtain b rest where b: "bs = b # rest" using bs by (cases bs) auto
  have d: "\<exists>n. rest = drop n bs" "\<exists>n. bs = drop n bs" by (rule exI [of _ 1], simp add: b) (rule exI [of _ 0], simp)
  have n: "namercbuf ir = None" "valuercbuf ir = None" "state_rank (if_state ir) = 1" using ok s by (auto simp: ir_ok_def)
  note defs = step_post_def len_ok_def ir_ok_def ir_idle_def ir_fresh_def ir_kept_def loop_measure_def
  have ni: "b AND 0x40 = 0 \<or> b AND 0xf0 \<noteq> 0x10" using and_parts [of b] by blast
  show ?thesis using ok n d ni
    by (simp add: inflate_opcode_def b Let_def defs)
qed

lemma table_size_step:
  assumes ok: "ir_ok ir E" "ir_fresh ir" and bs: "bs \<noteq> []" and s: "if_state ir = STATE_READ_TABLE_SIZE"
  shows "\<exists>st. inflate_read_table_size ir bs = Some st \<and> step_post ir bs E st"
proof -
  note defs = step_post_def len_ok_def ir_ok_def ir_idle_def ir_fresh_def ir_kept_def loop_measure_def
  have n: "namercbuf ir = None" "valuercbuf ir = None" using ok s by (simp_all add: ir_ok_def)
  have c: "ctx_ok (if_ctx ir) None (E + held ir)" using ok by (simp add: ir_ok_def ir_owned_def)
  have "0 < (5 :: nat)" "(5 :: nat) \<le> 8" by simp_all
  then show ?thesis
  proof (rule read_len_ok [OF bs, where ir = ir and maxlen = "min (if_min_hd_table_bufsize_max ir) (settings_hd_table_bufsize_max ir)"])
    fix shift
    assume "hd_inflate_read_len ir bs 5 (min (if_min_hd_table_bufsize_max ir) (settings_hd_table_bufsize_max ir)) = Some (Inl ERR_HEADER_COMP, ir\<lparr>if_shift := shift\<rparr>)"
    then show ?thesis using ok by (simp add: inflate_read_table_size_def defs)
  next
    fix rv rfin left shift
    assume r: "hd_inflate_read_len ir bs 5 (min (if_min_hd_table_bufsize_max ir) (settings_hd_table_bufsize_max ir)) = Some (Inr (rv, rfin), ir\<lparr>if_left := left, if_shift := shift\<rparr>)"
      "0 < rv" "rv \<le> length bs" "left \<le> min (if_min_hd_table_bufsize_max ir) (settings_hd_table_bufsize_max ir)"
      "\<not> rfin \<longrightarrow> rv = length bs" "left < 2 ^ 32" "\<not> rfin \<longrightarrow> 0 < left"
    obtain ctx' hmap' where sh: "hd_context_shrink_table_size ((if_ctx ir)\<lparr>hd_table_bufsize_max := left\<rparr>) None = Some (ctx', hmap')"
      "ctx_ok ctx' None (E + held ir)" "ctx_kept ((if_ctx ir)\<lparr>hd_table_bufsize_max := left\<rparr>) None ctx' None (E + held ir)"
      by (rule ctx_ok_shrink [OF c r(6)]) (auto simp: ctx_kept_def)
    have s: "rc_same E (if_heap ir) (ctx_heap ctx')" "mem_mono (rc_mem (if_heap ir)) (rc_mem (ctx_heap ctx'))" "ctx_bad ctx' = ctx_bad (if_ctx ir)"
      using sh(3) rc_same_mono [of "E + held ir" _ _ E] by (simp_all add: ctx_kept_def)
    show ?thesis
    proof (cases rfin)
      case True
      then show ?thesis using ok r sh s n by (auto simp: inflate_read_table_size_def Let_def defs ir_owned_def held_def)
    next
      case False
      then show ?thesis using ok r assms(4) n by (simp add: inflate_read_table_size_def defs)
    qed
  qed
qed

lemma index_step:
  assumes ok: "ir_ok ir E" "ir_fresh ir" and bs: "bs \<noteq> []" and s: "if_state ir = STATE_READ_INDEX"
  shows "\<exists>st. inflate_read_index ir bs = Some st \<and> step_post ir bs E st"
proof -
  note defs = step_post_def len_ok_def ir_ok_def ir_idle_def ir_fresh_def ir_kept_def loop_measure_def
  have n: "namercbuf ir = None" "valuercbuf ir = None" "if_opcode ir = OPCODE_INDEXED \<or> if_opcode ir = OPCODE_INDNAME"
    using ok s by (simp_all add: ir_ok_def)
  have c: "ctx_ok (if_ctx ir) None (E + held ir)" using ok by (simp add: ir_ok_def ir_owned_def)
  define p where "p = (if if_opcode ir = OPCODE_INDEXED then 7 else if index_required ir then 6 else 4 :: nat)"
  have "0 < p" "p \<le> 8" by (simp_all add: p_def)
  then show ?thesis
  proof (rule read_len_ok [OF bs, where ir = ir and maxlen = "get_max_index (if_ctx ir)"])
    fix shift
    assume "hd_inflate_read_len ir bs p (get_max_index (if_ctx ir)) = Some (Inl ERR_HEADER_COMP, ir\<lparr>if_shift := shift\<rparr>)"
    then show ?thesis using ok unfolding inflate_read_index_def p_def [symmetric] by (simp add: defs)
  next
    fix rv rfin left shift
    assume r: "hd_inflate_read_len ir bs p (get_max_index (if_ctx ir)) = Some (Inr (rv, rfin), ir\<lparr>if_left := left, if_shift := shift\<rparr>)"
      "0 < rv" "rv \<le> length bs" "left \<le> get_max_index (if_ctx ir)" "\<not> rfin \<longrightarrow> rv = length bs" "left < 2 ^ 32" "\<not> rfin \<longrightarrow> 0 < left"
    show ?thesis
    proof (cases "\<not> rfin \<or> left = 0")
      case True
      then show ?thesis using ok r s n unfolding inflate_read_index_def p_def [symmetric] by (auto simp add: defs)
    next
      case False
      then have i: "left - 1 < get_max_index (if_ctx ir)" using r(4) by auto
      then have i': "left - 1 < NGHTTP2_STATIC_TABLE_LENGTH + length (dyn_table (if_ctx ir))" using ctx_ok_max_index [OF c] by simp
      obtain nv where nv: "nghttp2_hd_table_get (if_ctx ir) (left - 1) = Some nv"
        "rc_live (E + held ir + ctx_refs (if_ctx ir)) (hd_name nv)" "rc_live (E + held ir + ctx_refs (if_ctx ir)) (hd_value nv)"
        by (rule hd_table_get_ok [OF c i'])
      show ?thesis using ok r s n False nv i unfolding inflate_read_index_def p_def [symmetric]
        by (auto simp add: defs Let_def hd_inflate_commit_indexed_def emit_header_def name_ready_def)
    qed
  qed
qed

text \<open>A fresh buffer of \<open>sz + 1\<close> bytes is a view with room for \<open>sz\<close>.\<close>

lemma new_view:
  assumes "ctx_ok ctx hmap E"
  obtains h where "nghttp2_rcbuf_new (ctx_heap ctx) (sz + 1) = (Inl ERR_NOMEM, h)" "ctx_ok (ctx\<lparr>ctx_heap := h\<rparr>) hmap E"
      "rc_same E (ctx_heap ctx) h" "mem_mono (rc_mem (ctx_heap ctx)) (rc_mem h)" "\<not> mem_reliable (rc_mem (ctx_heap ctx))"
    | h a rc where "nghttp2_rcbuf_new (ctx_heap ctx) (sz + 1) = (Inr (Rc_heap a), h)" "rc_get h (Rc_heap a) = Some rc"
      "ctx_ok (ctx\<lparr>ctx_heap := h\<rparr>) hmap (add_mset (Rc_heap a) E)"
      "dyn_table (ctx\<lparr>ctx_heap := h\<rparr>) = dyn_table ctx" "rc_same E (ctx_heap ctx) h"
      "rc_view h (Some (Rc_heap a)) (nghttp2_buf_wrap_init (take (rc_len rc) (rc_base rc))) sz"
      "mem_mono (rc_mem (ctx_heap ctx)) (rc_mem h)"
proof (rule ctx_new [OF assms, of "sz + 1"])
  fix h
  assume h: "nghttp2_rcbuf_new (ctx_heap ctx) (sz + 1) = (Inl ERR_NOMEM, h)" "ctx_ok (ctx\<lparr>ctx_heap := h\<rparr>) hmap E"
    "rc_bytes h = rc_bytes (ctx_heap ctx)" "mem_mono (rc_mem (ctx_heap ctx)) (rc_mem h)" "\<not> mem_reliable (rc_mem (ctx_heap ctx))"
  show ?thesis by (rule that(1) [OF h(1,2) _ h(4,5)]) (simp add: rc_same_def h(3))
next
  fix h a
  let ?rc = "\<lparr>rc_base = mem_fresh (rc_mem (ctx_heap ctx)) (sz + 1), rc_len = sz + 1, rc_ref = 1\<rparr>"
  assume h: "nghttp2_rcbuf_new (ctx_heap ctx) (sz + 1) = (Inr (Rc_heap a), h)" "ctx_ok (ctx\<lparr>ctx_heap := h\<rparr>) hmap (add_mset (Rc_heap a) E)"
    "dyn_table (ctx\<lparr>ctx_heap := h\<rparr>) = dyn_table ctx" "rc_same (E + ctx_refs ctx) (ctx_heap ctx) h"
    "rc_get h (Rc_heap a) = Some ?rc" "mem_mono (rc_mem (ctx_heap ctx)) (rc_mem h)"
  have v: "rc_view h (Some (Rc_heap a)) (nghttp2_buf_wrap_init (take (rc_len ?rc) (rc_base ?rc))) sz"
    using h(5) by (simp add: rc_view_def nghttp2_buf_wrap_init_def)
  show ?thesis by (rule that(2) [OF h(1,5,2,3) _ v h(6)]) (rule rc_same_mono [OF h(4)], simp)
qed

lemma namelen_step:
  assumes ok: "ir_ok ir E" "ir_fresh ir" and bs: "bs \<noteq> []" and s: "if_state ir = STATE_NEWNAME_READ_NAMELEN"
  shows "\<exists>st. inflate_read_namelen ir bs = Some st \<and> step_post ir bs E st"
proof -
  note defs = step_post_def len_ok_def ir_ok_def ir_idle_def ir_fresh_def ir_kept_def loop_measure_def
  have n: "namercbuf ir = None" "valuercbuf ir = None" "if_opcode ir = OPCODE_NEWNAME" "held ir = {#}"
    using ok s held_fresh [OF ok(2)] by (simp_all add: ir_ok_def)
  have c: "ctx_ok (if_ctx ir) None (E + held ir)" using ok by (simp add: ir_ok_def ir_owned_def)
  have "0 < (7 :: nat)" "(7 :: nat) \<le> 8" by simp_all
  then show ?thesis
  proof (rule read_len_ok [OF bs, where ir = ir and maxlen = NGHTTP2_HD_MAX_NV])
    fix shift
    assume "hd_inflate_read_len ir bs 7 NGHTTP2_HD_MAX_NV = Some (Inl ERR_HEADER_COMP, ir\<lparr>if_shift := shift\<rparr>)"
    then show ?thesis using ok by (simp add: inflate_read_namelen_def defs)
  next
    fix rv rfin left shift
    assume r: "hd_inflate_read_len ir bs 7 NGHTTP2_HD_MAX_NV = Some (Inr (rv, rfin), ir\<lparr>if_left := left, if_shift := shift\<rparr>)"
      "0 < rv" "rv \<le> length bs" "\<not> rfin \<longrightarrow> rv = length bs" "left < 2 ^ 32" "\<not> rfin \<longrightarrow> 0 < left"
    define sz where "sz = (if huffman_encoded ir then left * 2 else left)"
    have lt: "2 * length (drop rv bs) + 1 < 2 * length bs" using r(2,3) by simp
    show ?thesis
    proof (cases rfin)
      case False
      then show ?thesis using ok r s n by (simp add: inflate_read_namelen_def defs)
    next
      case True
      show ?thesis
      proof (rule new_view [OF c, of sz])
        fix h
        assume h: "nghttp2_rcbuf_new (if_heap ir) (sz + 1) = (Inl ERR_NOMEM, h)" "ctx_ok ((if_ctx ir)\<lparr>ctx_heap := h\<rparr>) None (E + held ir)"
          "rc_same (E + held ir) (if_heap ir) h" "mem_mono (rc_mem (if_heap ir)) (rc_mem h)" "\<not> ir_reliable ir"
        have "rc_same E (if_heap ir) h" by (rule rc_same_mono [OF h(3)]) simp
        then show ?thesis using h r(1) True n
          by (cases "huffman_encoded ir"; simp add: inflate_read_namelen_def Let_def sz_def defs ir_owned_def)
      next
        fix h a rc
        assume h: "nghttp2_rcbuf_new (if_heap ir) (sz + 1) = (Inr (Rc_heap a), h)" "rc_get h (Rc_heap a) = Some rc"
          "ctx_ok ((if_ctx ir)\<lparr>ctx_heap := h\<rparr>) None (add_mset (Rc_heap a) (E + held ir))" "rc_same (E + held ir) (if_heap ir) h"
          "rc_view h (Some (Rc_heap a)) (nghttp2_buf_wrap_init (take (rc_len rc) (rc_base rc))) sz" "mem_mono (rc_mem (if_heap ir)) (rc_mem h)"
        have "rc_same E (if_heap ir) h" by (rule rc_same_mono [OF h(4)]) simp
        then show ?thesis using h r(1) n ok lt s True
          by (cases "huffman_encoded ir"; auto simp: inflate_read_namelen_def Let_def sz_def defs ir_owned_def held_def mult.commute add_mset_commute)
      qed
    qed
  qed
qed
lemma valuelen_step:
  assumes ok: "ir_ok ir E" "ir_fresh ir" and bs: "bs \<noteq> []" and s: "if_state ir = STATE_READ_VALUELEN"
  shows "\<exists>st. inflate_read_valuelen ir bs = Some st \<and> step_post ir bs E st"
proof -
  note defs = step_post_def len_ok_def ir_ok_def ir_idle_def ir_fresh_def ir_kept_def loop_measure_def
  have n: "valuercbuf ir = None" "name_ready ir" "held ir = opt_mset (namercbuf ir)"
    using ok s held_fresh [OF ok(2)] by (simp_all add: ir_ok_def)
  have c: "ctx_ok (if_ctx ir) None (E + held ir)" using ok by (simp add: ir_ok_def ir_owned_def)
  have "0 < (7 :: nat)" "(7 :: nat) \<le> 8" by simp_all
  then show ?thesis
  proof (rule read_len_ok [OF bs, where ir = ir and maxlen = NGHTTP2_HD_MAX_NV])
    fix shift
    assume "hd_inflate_read_len ir bs 7 NGHTTP2_HD_MAX_NV = Some (Inl ERR_HEADER_COMP, ir\<lparr>if_shift := shift\<rparr>)"
    then show ?thesis using ok by (simp add: inflate_read_valuelen_def defs)
  next
    fix rv rfin left shift
    assume r: "hd_inflate_read_len ir bs 7 NGHTTP2_HD_MAX_NV = Some (Inr (rv, rfin), ir\<lparr>if_left := left, if_shift := shift\<rparr>)"
      "0 < rv" "rv \<le> length bs" "\<not> rfin \<longrightarrow> rv = length bs" "left < 2 ^ 32" "\<not> rfin \<longrightarrow> 0 < left"
    define sz where "sz = (if huffman_encoded ir then left * 2 else left)"
    have lt: "2 * length (drop rv bs) + 1 < 2 * length bs" using r(2,3) by simp
    show ?thesis
    proof (cases rfin)
      case False
      then show ?thesis using ok r s n by (simp add: inflate_read_valuelen_def defs name_ready_def)
    next
      case True
      show ?thesis
      proof (rule new_view [OF c, of sz])
        fix h
        assume h: "nghttp2_rcbuf_new (if_heap ir) (sz + 1) = (Inl ERR_NOMEM, h)" "ctx_ok ((if_ctx ir)\<lparr>ctx_heap := h\<rparr>) None (E + held ir)"
          "rc_same (E + held ir) (if_heap ir) h" "mem_mono (rc_mem (if_heap ir)) (rc_mem h)" "\<not> ir_reliable ir"
        have "rc_same E (if_heap ir) h" by (rule rc_same_mono [OF h(3)]) simp
        then show ?thesis using h r(1) True n
          by (cases "huffman_encoded ir"; simp add: inflate_read_valuelen_def Let_def sz_def defs ir_owned_def)
      next
        fix h a rc
        assume h: "nghttp2_rcbuf_new (if_heap ir) (sz + 1) = (Inr (Rc_heap a), h)" "rc_get h (Rc_heap a) = Some rc"
          "ctx_ok ((if_ctx ir)\<lparr>ctx_heap := h\<rparr>) None (add_mset (Rc_heap a) (E + held ir))" "rc_same (E + held ir) (if_heap ir) h"
          "rc_view h (Some (Rc_heap a)) (nghttp2_buf_wrap_init (take (rc_len rc) (rc_base rc))) sz" "mem_mono (rc_mem (if_heap ir)) (rc_mem h)"
        have "rc_same E (if_heap ir) h" by (rule rc_same_mono [OF h(4)]) simp
        then show ?thesis using h r(1) n ok lt s True
          by (cases "huffman_encoded ir"; auto simp: inflate_read_valuelen_def Let_def sz_def defs ir_owned_def held_def mult.commute add_mset_commute name_ready_def get_max_index_def reads_value_def)
      qed
    qed
  qed
qed

lemma rc_view_mono: "rc_view h ptr buf room \<Longrightarrow> room' \<le> room \<Longrightarrow> rc_view h ptr buf room'"
  unfolding rc_view_def by fastforce

lemma step_post_mono:
  assumes "step_post ir (drop k bs) E st" "if_ctx ir = if_ctx ir0" "settings_hd_table_bufsize_max ir = settings_hd_table_bufsize_max ir0"
    "if_state ir = if_state ir0"
  shows "step_post ir0 bs E st"
  using assms by (cases st) (auto simp: step_post_def ir_kept_def loop_measure_def)

definition view_room :: "nghttp2_hd_inflater \<Rightarrow> nat" where
  "view_room ir = (if if_state ir = STATE_NEWNAME_READ_NAMEHUFF \<or> if_state ir = STATE_READ_VALUEHUFF then 2 * if_left ir else if_left ir)"

lemma name_done_step:
  assumes own: "ir_owned ir E" "ir_fresh ir" and v: "valuercbuf ir = None" and op: "if_opcode ir = OPCODE_NEWNAME"
    and st: "settings_hd_table_bufsize_max ir < 2 ^ 32" "\<not> (index_required ir \<and> no_index ir)"
    and s: "if_state ir = STATE_NEWNAME_READ_NAMEHUFF \<or> if_state ir = STATE_NEWNAME_READ_NAME"
    and view: "rc_view (if_heap ir) (namercbuf ir) buf room" "namebuf ir = buf_cpymem buf out" "length out + view_room ir \<le> room"
    and bs: "if_left ir \<noteq> 0 \<longrightarrow> bs = []"
  shows "\<exists>st. inflate_read_name_done ir bs = Some st \<and> step_post ir bs E st"
proof -
  note defs = step_post_def ir_ok_def ir_kept_def loop_measure_def
  have c: "ctx_ok (if_ctx ir) None (E + opt_mset (namercbuf ir))" using own v by (simp add: ir_owned_def held_fresh)
  have l: "length out \<le> room" using view(3) by simp
  show ?thesis
  proof (cases "if_left ir = 0")
    case False
    obtain h where h: "rc_store (if_heap ir) (namercbuf ir) (buf_cpymem buf out) = Some h" "ctx_ok ((if_ctx ir)\<lparr>ctx_heap := h\<rparr>) None (E + opt_mset (namercbuf ir))"
      "rc_same (E + ctx_refs (if_ctx ir)) (if_heap ir) h"
      "rc_mem h = rc_mem (if_heap ir)" "rc_view h (namercbuf ir) (buf_cpymem buf out) (room - length out)"
      by (rule store_ok [OF c view(1) l])
    have s2: "rc_same E (if_heap ir) h" by (rule rc_same_mono [OF h(3)]) simp
    have vw: "rc_view h (namercbuf ir) (buf_cpymem buf out) (view_room ir)" by (rule rc_view_mono [OF h(5)]) (use view(3) in simp)
    show ?thesis using False h(1,2,4) s2 vw s st v op own bs
      by (auto simp: inflate_read_name_done_def view(2) defs ir_owned_def held_fresh ir_fresh_def held_def view_room_def)
  next
    case True
    obtain h buf' a where h: "rc_finish (if_heap ir) (namercbuf ir) (buf_cpymem buf out) = Some (h, buf')" "ctx_ok ((if_ctx ir)\<lparr>ctx_heap := h\<rparr>) None (E + opt_mset (namercbuf ir))"
      "rc_same (E + ctx_refs (if_ctx ir)) (if_heap ir) h" "rc_mem h = rc_mem (if_heap ir)" "namercbuf ir = Some (Rc_heap a)"
      by (rule finish_ok [OF c view(1) l])
    have s2: "rc_same E (if_heap ir) h" by (rule rc_same_mono [OF h(3)]) simp
    have d: "\<exists>n. bs = drop n bs" by (rule exI [of _ 0]) simp
    show ?thesis using True h(1,2,4,5) s2 s st v op own d
      by (auto simp: inflate_read_name_done_def view(2) defs ir_owned_def held_fresh ir_fresh_def held_def name_ready_def)
  qed
qed

lemma value_done_step:
  assumes own: "ir_owned ir E" "ir_fresh ir" and nr: "name_ready ir"
    and st: "settings_hd_table_bufsize_max ir < 2 ^ 32" "\<not> (index_required ir \<and> no_index ir)"
    and s: "if_state ir = STATE_READ_VALUEHUFF \<or> if_state ir = STATE_READ_VALUE"
    and view: "rc_view (if_heap ir) (valuercbuf ir) buf room" "valuebuf ir = buf_cpymem buf out" "length out + view_room ir \<le> room"
    and bs: "if_left ir \<noteq> 0 \<longrightarrow> bs = []"
  shows "\<exists>st. inflate_read_value_done ir bs = Some st \<and> step_post ir bs E st"
proof -
  note defs = step_post_def ir_ok_def ir_kept_def loop_measure_def
  have hd: "E + held ir = E + opt_mset (namercbuf ir) + opt_mset (valuercbuf ir)" using own by (simp add: held_fresh)
  have c: "ctx_ok (if_ctx ir) None (E + opt_mset (namercbuf ir) + opt_mset (valuercbuf ir))" using own hd by (simp add: ir_owned_def)
  have l: "length out \<le> room" using view(3) by simp
  show ?thesis
  proof (cases "if_left ir = 0")
    case False
    obtain h where h: "rc_store (if_heap ir) (valuercbuf ir) (buf_cpymem buf out) = Some h"
      "ctx_ok ((if_ctx ir)\<lparr>ctx_heap := h\<rparr>) None (E + opt_mset (namercbuf ir) + opt_mset (valuercbuf ir))"
      "rc_same (E + opt_mset (namercbuf ir) + ctx_refs (if_ctx ir)) (if_heap ir) h"
      "rc_mem h = rc_mem (if_heap ir)" "rc_view h (valuercbuf ir) (buf_cpymem buf out) (room - length out)"
      by (rule store_ok [OF c view(1) l])
    have s2: "rc_same E (if_heap ir) h" by (rule rc_same_mono [OF h(3)]) simp
    have vw: "rc_view h (valuercbuf ir) (buf_cpymem buf out) (view_room ir)" by (rule rc_view_mono [OF h(5)]) (use view(3) in simp)
    show ?thesis using False h(1,2,4) s2 vw s st nr own bs
      by (auto simp: inflate_read_value_done_def view(2) defs ir_owned_def ir_fresh_def held_def view_room_def name_ready_def get_max_index_def)
  next
    case True
    obtain h buf' a where h: "rc_finish (if_heap ir) (valuercbuf ir) (buf_cpymem buf out) = Some (h, buf')"
      "ctx_ok ((if_ctx ir)\<lparr>ctx_heap := h\<rparr>) None (E + opt_mset (namercbuf ir) + opt_mset (valuercbuf ir))"
      "rc_same (E + opt_mset (namercbuf ir) + ctx_refs (if_ctx ir)) (if_heap ir) h" "rc_mem h = rc_mem (if_heap ir)" "valuercbuf ir = Some (Rc_heap a)"
      by (rule finish_ok [OF c view(1) l])
    have s2: "rc_same E (if_heap ir) h" by (rule rc_same_mono [OF h(3)]) simp
    define i where "i = (set_heap ir h)\<lparr>valuebuf := buf'\<rparr>"
    have i: "ir_owned i E" "ir_fresh i" "valuercbuf i = Some (Rc_heap a)" "\<not> (index_required i \<and> no_index i)" "name_ready i"
      "ir_kept ir i E" "ir_reliable i = ir_reliable ir" "if_opcode i = if_opcode ir" "settings_hd_table_bufsize_max i = settings_hd_table_bufsize_max ir"
      using h(2,4,5) own st(2) nr s2 by (simp_all add: i_def ir_owned_def held_def ir_fresh_def name_ready_def get_max_index_def ir_kept_def)
    obtain f r where r: "(if if_opcode i = OPCODE_NEWNAME then hd_inflate_commit_newname i else hd_inflate_commit_indname i) = Some r" "commit_post i E f r"
    proof (cases "if_opcode i = OPCODE_NEWNAME")
      case True
      then obtain name where nm: "namercbuf i = Some name" using i(5) by (auto simp: name_ready_def)
      show ?thesis by (rule commit_newname_ok [OF i(1,2) nm i(3,4) refl]) (use True that in simp)
    next
      case False
      then have nm: "namercbuf i = None" "if_index i < get_max_index (if_ctx i)" using i(5) by (auto simp: name_ready_def)
      show ?thesis by (rule commit_indname_ok [OF i(1,2) nm(1) i(3) nm(2) i(4) refl]) (use False that in simp)
    qed
    obtain r1 ir1 where rr: "r = (r1, ir1)" by (cases r)
    have e: "inflate_read_value_done ir bs = Some (case r1 of Inl e \<Rightarrow> Step_fail ir1 e | Inr nv \<Rightarrow> Step_emit (ir1\<lparr>if_state := STATE_OPCODE\<rparr>) bs nv)"
      by (simp only: inflate_read_value_done_def True simp_thms if_False view(2) h(1) bind.bind_lunit prod.case Let_def i_def [symmetric] r(1) rr)
         (simp split: sum.splits)
    have p: "ir_owned ir1 E" "ir_kept ir ir1 E" "index_required ir1 = index_required ir" "no_index ir1 = no_index ir"
      using r(2) ir_kept_trans [OF i(6), of ir1] by (simp_all add: commit_post_def rr i_def)
    have d: "\<exists>n. bs = drop n bs" by (rule exI [of _ 0]) simp
    have sett: "settings_hd_table_bufsize_max ir1 < 2 ^ 32" using p(2) st(1) by (simp add: ir_kept_def)
    show ?thesis
    proof (cases r1)
      case (Inl er)
      then have "er = ERR_NOMEM" "\<not> ir_reliable ir" using r(2) i(7) by (simp_all add: commit_post_def rr)
      then show ?thesis unfolding e Inl using p by (simp add: step_post_def)
    next
      case (Inr nv)
      then have q: "rc_live (held ir1) (hd_name nv)" "rc_live (held ir1) (hd_value nv)" "namercbuf ir1 = None" "valuercbuf ir1 = None"
        using r(2) by (simp_all add: commit_post_def rr)
      have "rc_live (E + held ir1 + ctx_refs (if_ctx ir1)) (hd_name nv)" "rc_live (E + held ir1 + ctx_refs (if_ctx ir1)) (hd_value nv)"
        by (rule rc_live_mono [OF q(1)], simp) (rule rc_live_mono [OF q(2)], simp)
      then show ?thesis unfolding e Inr using p q d st sett by (simp add: step_post_def ir_ok_def ir_idle_def) (simp add: ir_kept_def)
    qed
  qed
qed

lemma name_step:
  assumes ok: "ir_ok ir E" "ir_fresh ir" and s: "if_state ir = STATE_NEWNAME_READ_NAME"
  shows "\<exists>st. inflate_read_name ir bs = Some st \<and> step_post ir bs E st"
proof -
  define n where "n = min (length bs) (if_left ir)"
  let ?i = "ir\<lparr>if_left := if_left ir - n, namebuf := buf_cpymem (namebuf ir) (take n bs)\<rparr>"
  have e: "inflate_read_name ir bs = inflate_read_name_done ?i (drop n bs)"
    by (simp add: inflate_read_name_def hd_inflate_read_def n_def Let_def)
  have "\<exists>st. inflate_read_name_done ?i (drop n bs) = Some st \<and> step_post ?i (drop n bs) E st"
    by (rule name_done_step [where buf = "namebuf ir" and room = "if_left ir" and out = "take n bs"])
       (use ok s in \<open>auto simp: ir_ok_def ir_fresh_def view_room_def n_def min_def\<close>)
  then show ?thesis unfolding e using step_post_mono [of ?i n bs E _ ir] by auto
qed

lemma namehuff_step:
  assumes ok: "ir_ok ir E" "ir_fresh ir" and s: "if_state ir = STATE_NEWNAME_READ_NAMEHUFF"
  shows "\<exists>st. inflate_read_namehuff ir bs = Some st \<and> step_post ir bs E st"
proof -
  have v: "rc_view (if_heap ir) (namercbuf ir) (namebuf ir) (2 * if_left ir)" using ok s by (simp add: ir_ok_def)
  show ?thesis
  proof (rule read_huff_ok [of ir "namebuf ir" bs])
    fix e hc out
    assume r: "hd_inflate_read_huff ir (namebuf ir) bs = (Inl e, ir\<lparr>if_huff_decode_ctx := hc\<rparr>, buf_cpymem (namebuf ir) out)"
      "e = ERR_HEADER_COMP" "length out \<le> 2 * if_left ir"
    have c: "ctx_ok (if_ctx ir) None (E + opt_mset (namercbuf ir))"
      using ok s by (auto simp: ir_ok_def ir_owned_def held_fresh)
    obtain h where h: "rc_store (if_heap ir) (namercbuf ir) (buf_cpymem (namebuf ir) out) = Some h"
      "ctx_ok ((if_ctx ir)\<lparr>ctx_heap := h\<rparr>) None (E + opt_mset (namercbuf ir))"
      "rc_same (E + ctx_refs (if_ctx ir)) (if_heap ir) h" "rc_mem h = rc_mem (if_heap ir)"
      by (rule store_ok [OF c v r(3)])
    have s2: "rc_same E (if_heap ir) h" by (rule rc_same_mono [OF h(3)]) simp
    show ?thesis using r h(1,2,4) s2 ok s
      by (simp add: inflate_read_namehuff_def step_post_def ir_owned_def ir_kept_def held_def ir_ok_def ir_fresh_def)
  next
    fix hc out
    define n where "n = min (length bs) (if_left ir)"
    assume "hd_inflate_read_huff ir (namebuf ir) bs = (Inr (min (length bs) (if_left ir)),
        ir\<lparr>if_huff_decode_ctx := hc, if_left := if_left ir - min (length bs) (if_left ir)\<rparr>, buf_cpymem (namebuf ir) out)"
      "length out \<le> 2 * min (length bs) (if_left ir)"
    then have r: "hd_inflate_read_huff ir (namebuf ir) bs = (Inr n, ir\<lparr>if_huff_decode_ctx := hc, if_left := if_left ir - n\<rparr>, buf_cpymem (namebuf ir) out)"
      "length out \<le> 2 * n" by (simp_all add: n_def)
    let ?i = "ir\<lparr>if_huff_decode_ctx := hc, if_left := if_left ir - n, namebuf := buf_cpymem (namebuf ir) out\<rparr>"
    have e: "inflate_read_namehuff ir bs = inflate_read_name_done ?i (drop n bs)" by (simp add: inflate_read_namehuff_def r(1))
    have "\<exists>st. inflate_read_name_done ?i (drop n bs) = Some st \<and> step_post ?i (drop n bs) E st"
      by (rule name_done_step [where buf = "namebuf ir" and room = "2 * if_left ir" and out = out])
         (use ok s r(2) in \<open>auto simp: ir_ok_def ir_fresh_def view_room_def n_def min_def\<close>)
    then show ?thesis unfolding e using step_post_mono [of ?i n bs E _ ir] by auto
  qed
qed

lemma value_step:
  assumes ok: "ir_ok ir E" "ir_fresh ir" and s: "if_state ir = STATE_READ_VALUE"
  shows "\<exists>st. inflate_read_value ir bs = Some st \<and> step_post ir bs E st"
proof -
  define n where "n = min (length bs) (if_left ir)"
  let ?i = "ir\<lparr>if_left := if_left ir - n, valuebuf := buf_cpymem (valuebuf ir) (take n bs)\<rparr>"
  have e: "inflate_read_value ir bs = inflate_read_value_done ?i (drop n bs)"
    by (simp add: inflate_read_value_def hd_inflate_read_def n_def Let_def)
  have "\<exists>st. inflate_read_value_done ?i (drop n bs) = Some st \<and> step_post ?i (drop n bs) E st"
    by (rule value_done_step [where buf = "valuebuf ir" and room = "if_left ir" and out = "take n bs"])
       (use ok s in \<open>auto simp: ir_ok_def ir_fresh_def view_room_def n_def min_def name_ready_def\<close>)
  then show ?thesis unfolding e using step_post_mono [of ?i n bs E _ ir] by auto
qed

lemma valuehuff_step:
  assumes ok: "ir_ok ir E" "ir_fresh ir" and s: "if_state ir = STATE_READ_VALUEHUFF"
  shows "\<exists>st. inflate_read_valuehuff ir bs = Some st \<and> step_post ir bs E st"
proof -
  have v: "rc_view (if_heap ir) (valuercbuf ir) (valuebuf ir) (2 * if_left ir)" using ok s by (simp add: ir_ok_def)
  show ?thesis
  proof (rule read_huff_ok [of ir "valuebuf ir" bs])
    fix e hc out
    assume r: "hd_inflate_read_huff ir (valuebuf ir) bs = (Inl e, ir\<lparr>if_huff_decode_ctx := hc\<rparr>, buf_cpymem (valuebuf ir) out)"
      "e = ERR_HEADER_COMP" "length out \<le> 2 * if_left ir"
    have c: "ctx_ok (if_ctx ir) None (E + opt_mset (namercbuf ir) + opt_mset (valuercbuf ir))"
      using ok s by (simp add: ir_ok_def ir_owned_def held_fresh add.assoc)
    obtain h where h: "rc_store (if_heap ir) (valuercbuf ir) (buf_cpymem (valuebuf ir) out) = Some h"
      "ctx_ok ((if_ctx ir)\<lparr>ctx_heap := h\<rparr>) None (E + opt_mset (namercbuf ir) + opt_mset (valuercbuf ir))"
      "rc_same (E + opt_mset (namercbuf ir) + ctx_refs (if_ctx ir)) (if_heap ir) h" "rc_mem h = rc_mem (if_heap ir)"
      by (rule store_ok [OF c v r(3)])
    have s2: "rc_same E (if_heap ir) h" by (rule rc_same_mono [OF h(3)]) simp
    show ?thesis using r h(1,2,4) s2 ok s
      by (simp add: inflate_read_valuehuff_def step_post_def ir_owned_def ir_kept_def held_def ir_ok_def ir_fresh_def add.assoc)
  next
    fix hc out
    define n where "n = min (length bs) (if_left ir)"
    assume "hd_inflate_read_huff ir (valuebuf ir) bs = (Inr (min (length bs) (if_left ir)),
        ir\<lparr>if_huff_decode_ctx := hc, if_left := if_left ir - min (length bs) (if_left ir)\<rparr>, buf_cpymem (valuebuf ir) out)"
      "length out \<le> 2 * min (length bs) (if_left ir)"
    then have r: "hd_inflate_read_huff ir (valuebuf ir) bs = (Inr n, ir\<lparr>if_huff_decode_ctx := hc, if_left := if_left ir - n\<rparr>, buf_cpymem (valuebuf ir) out)"
      "length out \<le> 2 * n" by (simp_all add: n_def)
    let ?i = "ir\<lparr>if_huff_decode_ctx := hc, if_left := if_left ir - n, valuebuf := buf_cpymem (valuebuf ir) out\<rparr>"
    have e: "inflate_read_valuehuff ir bs = inflate_read_value_done ?i (drop n bs)" by (simp add: inflate_read_valuehuff_def r(1))
    have "\<exists>st. inflate_read_value_done ?i (drop n bs) = Some st \<and> step_post ?i (drop n bs) E st"
      by (rule value_done_step [where buf = "valuebuf ir" and room = "2 * if_left ir" and out = out])
         (use ok s r(2) in \<open>auto simp: ir_ok_def ir_fresh_def view_room_def n_def min_def name_ready_def\<close>)
    then show ?thesis unfolding e using step_post_mono [of ?i n bs E _ ir] by auto
  qed
qed

section \<open>The loop\<close>

lemma switch_step:
  assumes ok: "ir_ok ir E" "ir_fresh ir" and go: "bs \<noteq> [] \<or> reads_value ir"
  shows "\<exists>st. inflate_switch ir bs = Some st \<and> step_post ir bs E st"
proof -
  let ?c = "\<lambda>s b. (hd_inflate_set_huffman_encoded ir b)\<lparr>if_state := s, if_left := 0, if_shift := 0\<rparr>"
  have chk: "inflate_check_len ir bs s = Some (?c s (hd bs))" "ir_fresh (?c s (hd bs))" if "bs \<noteq> []" for s
    using that ok(2) by (cases bs; simp add: inflate_check_len_def hd_inflate_set_huffman_encoded_def ir_fresh_def)+
  have ck: "step_post (?c s b) bs E st \<Longrightarrow> state_rank s = state_rank (if_state ir) \<Longrightarrow> step_post ir bs E st" for s b st
    by (cases st) (simp_all add: step_post_def ir_kept_def loop_measure_def hd_inflate_set_huffman_encoded_def)
  show ?thesis
  proof (cases "if_state ir")
    case STATE_NEWNAME_CHECK_NAMELEN
    then have b: "bs \<noteq> []" using go by (auto simp: reads_value_def)
    have "ir_ok (?c STATE_NEWNAME_READ_NAMELEN (hd bs)) E"
      using ok STATE_NEWNAME_CHECK_NAMELEN by (simp add: ir_ok_def ir_fresh_def len_ok_def hd_inflate_set_huffman_encoded_def)
    from namelen_step [OF this chk(2) [OF b] b] show ?thesis using ck STATE_NEWNAME_CHECK_NAMELEN
      by (auto simp: inflate_switch_def chk(1) [OF b])
  next
    case STATE_CHECK_VALUELEN
    then have b: "bs \<noteq> []" using go by (auto simp: reads_value_def)
    have "ir_ok (?c STATE_READ_VALUELEN (hd bs)) E"
      using ok STATE_CHECK_VALUELEN by (simp add: ir_ok_def ir_fresh_def len_ok_def hd_inflate_set_huffman_encoded_def name_ready_def)
    from valuelen_step [OF this chk(2) [OF b] b] show ?thesis using ck STATE_CHECK_VALUELEN
      by (auto simp: inflate_switch_def chk(1) [OF b])
  qed (use go opcode_step [OF ok] table_size_step [OF ok] index_step [OF ok] namelen_step [OF ok] valuelen_step [OF ok]
        name_step [OF ok] namehuff_step [OF ok] value_step [OF ok] valuehuff_step [OF ok] in \<open>simp_all add: inflate_switch_def reads_value_def\<close>)
qed

text \<open>What one call of the loop leaves: like a step, but a break means that all input has been used.\<close>

definition loop_post :: "nghttp2_hd_inflater \<Rightarrow> u8 list \<Rightarrow> rcptr multiset \<Rightarrow> inflate_step \<Rightarrow> bool" where
  "loop_post ir bs E st \<longleftrightarrow>
     (case st of
        Step_break i rest busy \<Rightarrow> ir_ok i E \<and> ir_fresh i \<and> ir_kept ir i E \<and> rest = [] \<and> \<not> busy
      | Step_emit i rest nv \<Rightarrow> ir_ok i E \<and> ir_kept ir i E \<and> (\<exists>n. rest = drop n bs) \<and> if_state i = STATE_OPCODE \<and>
          rc_live (E + held i + ctx_refs (if_ctx i)) (hd_name nv) \<and> rc_live (E + held i + ctx_refs (if_ctx i)) (hd_value nv)
      | Step_almost i rest \<Rightarrow> ir_ok i E \<and> ir_fresh i \<and> ir_kept ir i E \<and> rest = []
      | Step_fail i e \<Rightarrow> ir_owned i E \<and> ir_kept ir i E \<and> (e = ERR_HEADER_COMP \<or> e = ERR_NOMEM \<and> \<not> ir_reliable ir))"

lemma ir_kept_reliable: "ir_kept ir i E \<Longrightarrow> ir_reliable ir \<Longrightarrow> ir_reliable i"
  by (simp add: ir_kept_def mem_mono_def)

lemma loop_step: "loop_post i rest E st \<Longrightarrow> ir_kept ir i E \<Longrightarrow> \<exists>n. rest = drop n bs \<Longrightarrow> loop_post ir bs E st"
  using ir_kept_trans [of ir i E] ir_kept_reliable [of ir i E] by (cases st) (auto simp: loop_post_def)

lemma loop_ok:
  assumes "ir_ok ir E" "ir_fresh ir" "busy \<longrightarrow> reads_value ir"
  shows "\<exists>st. inflate_loop ir bs busy = Some st \<and> loop_post ir bs E st"
  using assms
proof (induction "loop_measure ir bs" arbitrary: ir bs busy rule: less_induct)
  case less
  show ?case
  proof (cases "bs \<noteq> [] \<or> busy")
    case False
    then show ?thesis using less.prems by (subst inflate_loop.simps) (simp add: loop_post_def)
  next
    case True
    then have "bs \<noteq> [] \<or> reads_value ir" using less.prems(3) by blast
    from switch_step [OF less.prems(1,2) this] obtain st where st: "inflate_switch ir bs = Some st" "step_post ir bs E st" by blast
    have l: "inflate_loop ir bs busy = (case st of Step_break i rest b \<Rightarrow> inflate_loop i rest b | _ \<Rightarrow> Some st)"
      using True by (subst inflate_loop.simps) (simp add: st(1))
    show ?thesis
    proof (cases st)
      case (Step_break i rest b)
      have p: "ir_ok i E" "ir_fresh i" "b \<longrightarrow> reads_value i" "loop_measure i rest < loop_measure ir bs" "ir_kept ir i E" "\<exists>n. rest = drop n bs"
        using st(2) by (simp_all add: Step_break step_post_def)
      from less.hyps [OF p(4,1,2,3)] obtain st' where st': "inflate_loop i rest b = Some st'" "loop_post i rest E st'" by blast
      show ?thesis using st'(1) loop_step [OF st'(2) p(5,6)] by (simp add: l Step_break)
    qed (use st(2) in \<open>simp_all add: l step_post_def loop_post_def\<close>)
  qed
qed

section \<open>The life of an inflater\<close>

lemma decref_opt:
  assumes "ctx_ok ctx hmap (F + opt_mset ptr)"
  obtains h where "nghttp2_rcbuf_decref (ctx_heap ctx) ptr = Some h" "ctx_ok (ctx\<lparr>ctx_heap := h\<rparr>) hmap F"
    "dyn_table (ctx\<lparr>ctx_heap := h\<rparr>) = dyn_table ctx" "rc_same (F + ctx_refs ctx) (ctx_heap ctx) h" "rc_mem h = rc_mem (ctx_heap ctx)"
proof (cases ptr)
  case None
  then show ?thesis using assms that [of "ctx_heap ctx"] by (simp add: nghttp2_rcbuf_decref_def)
next
  case (Some p)
  then have c: "ctx_ok ctx hmap (add_mset p F)" "p \<in># add_mset p F" using assms by simp_all
  show ?thesis by (rule ctx_decref [OF c]) (use that Some in simp)
qed

lemma keep_free_ok:
  assumes "ir_owned ir E"
  obtains h where "hd_inflate_keep_free ir = Some ((set_heap ir h)\<lparr>nv_value_keep := None, nv_name_keep := None\<rparr>)"
    "ctx_ok ((if_ctx ir)\<lparr>ctx_heap := h\<rparr>) None (E + opt_mset (namercbuf ir) + opt_mset (valuercbuf ir))"
    "dyn_table ((if_ctx ir)\<lparr>ctx_heap := h\<rparr>) = dyn_table (if_ctx ir)"
    "rc_same E (if_heap ir) h" "rc_mem h = rc_mem (if_heap ir)" "ir_fresh ir \<Longrightarrow> h = if_heap ir"
proof -
  let ?F = "E + opt_mset (namercbuf ir) + opt_mset (valuercbuf ir)"
  have c: "ctx_ok (if_ctx ir) None (?F + opt_mset (nv_name_keep ir) + opt_mset (nv_value_keep ir))"
    using assms by (simp add: ir_owned_def held_def add.assoc)
  obtain h1 where h1: "nghttp2_rcbuf_decref (if_heap ir) (nv_value_keep ir) = Some h1" "ctx_ok ((if_ctx ir)\<lparr>ctx_heap := h1\<rparr>) None (?F + opt_mset (nv_name_keep ir))"
    "dyn_table ((if_ctx ir)\<lparr>ctx_heap := h1\<rparr>) = dyn_table (if_ctx ir)"
    "rc_same (?F + opt_mset (nv_name_keep ir) + ctx_refs (if_ctx ir)) (if_heap ir) h1" "rc_mem h1 = rc_mem (if_heap ir)"
    by (rule decref_opt [OF c])
  obtain h2 where h2: "nghttp2_rcbuf_decref h1 (nv_name_keep ir) = Some h2" "ctx_ok ((if_ctx ir)\<lparr>ctx_heap := h2\<rparr>) None ?F"
    "dyn_table ((if_ctx ir)\<lparr>ctx_heap := h2\<rparr>) = dyn_table ((if_ctx ir)\<lparr>ctx_heap := h1\<rparr>)" "rc_same (?F + ctx_refs (if_ctx ir)) h1 h2" "rc_mem h2 = rc_mem h1"
    by (rule decref_opt [OF h1(2)]) simp
  have s: "rc_same E (if_heap ir) h2"
    by (rule rc_same_trans [OF rc_same_mono [OF h1(4)] rc_same_mono [OF h2(4)]]) simp_all
  show ?thesis
  proof (rule that [OF _ h2(2) _ s])
    show "hd_inflate_keep_free ir = Some ((set_heap ir h2)\<lparr>nv_value_keep := None, nv_name_keep := None\<rparr>)"
      by (simp add: hd_inflate_keep_free_def h1(1) h2(1))
    show "h2 = if_heap ir" if "ir_fresh ir" using that h1(1) h2(1) by (simp add: ir_fresh_def nghttp2_rcbuf_decref_def)
  qed (simp_all add: h2(3,5) h1(3,5))
qed

lemma keep_free_inv:
  assumes "ir_owned ir E"
  obtains i where "hd_inflate_keep_free ir = Some i" "ir_owned i E" "ir_fresh i" "ir_kept ir i E" "ir_ok ir E \<Longrightarrow> ir_ok i E"
    "if_state i = if_state ir" "ir_table i = ir_table ir" "ir_reliable i = ir_reliable ir"
    "if_min_hd_table_bufsize_max i = if_min_hd_table_bufsize_max ir"
proof (rule keep_free_ok [OF assms])
  fix h
  assume h: "hd_inflate_keep_free ir = Some ((set_heap ir h)\<lparr>nv_value_keep := None, nv_name_keep := None\<rparr>)"
    "ctx_ok ((if_ctx ir)\<lparr>ctx_heap := h\<rparr>) None (E + opt_mset (namercbuf ir) + opt_mset (valuercbuf ir))"
    "dyn_table ((if_ctx ir)\<lparr>ctx_heap := h\<rparr>) = dyn_table (if_ctx ir)"
    "rc_same E (if_heap ir) h" "rc_mem h = rc_mem (if_heap ir)" "ir_fresh ir \<Longrightarrow> h = if_heap ir"
  let ?i = "(set_heap ir h)\<lparr>nv_value_keep := None, nv_name_keep := None\<rparr>"
  have o: "ir_owned ?i E" using h(2) by (simp add: ir_owned_def held_def add.assoc)
  show ?thesis
  proof (rule that [OF h(1) o])
    show "ir_ok ?i E" if a: "ir_ok ir E"
    proof (cases "ir_fresh ir")
      case True
      then have "?i = ir" using h(6) by (simp add: set_heap_def ir_fresh_def)
      then show ?thesis using a by simp
    next
      case False
      then show ?thesis using a o by (auto simp: ir_ok_def ir_idle_def ir_fresh_def)
    qed
  qed (use h in \<open>simp_all add: ir_fresh_def ir_kept_def ir_table_def\<close>)
qed

text \<open>The invariant between calls.\<close>

definition ir_inv :: "nghttp2_hd_inflater \<Rightarrow> rcptr multiset \<Rightarrow> bool" where
  "ir_inv ir E \<longleftrightarrow> ir_owned ir E \<and> (\<not> ctx_bad (if_ctx ir) \<longrightarrow> ir_ok ir E)"

lemma inflate_fail_owned [simp]: "ir_owned (inflate_fail ir) E = ir_owned ir E"
  by (simp add: inflate_fail_def ir_owned_def ctx_ok_def ctx_inv_def ctx_addrs_def dyn_table_def ctx_fields_def)

lemma inflate_fail_fields [simp]: "if_heap (inflate_fail ir) = if_heap ir" "held (inflate_fail ir) = held ir" "ctx_bad (if_ctx (inflate_fail ir))"
  "settings_hd_table_bufsize_max (inflate_fail ir) = settings_hd_table_bufsize_max ir"
  by (simp_all add: inflate_fail_def)

text \<open>
  What one call leaves: the error or the count of used bytes, and the field that was emitted.  The flags \<open>fl0\<close> of the
  caller stay only when the context was bad before the call.
\<close>

definition hd_nv_post :: "nghttp2_hd_inflater \<Rightarrow> nat \<Rightarrow> u8 list \<Rightarrow> rcptr multiset \<Rightarrow> nghttp2_error + nat \<Rightarrow> nat \<Rightarrow> nghttp2_hd_nv option \<Rightarrow>
    nghttp2_hd_inflater \<Rightarrow> bool" where
  "hd_nv_post ir fl0 bs E rv flags nv i \<longleftrightarrow> ir_inv i E \<and> settings_hd_table_bufsize_max i = settings_hd_table_bufsize_max ir \<and> rc_same E (if_heap ir) (if_heap i) \<and> mem_mono (rc_mem (if_heap ir)) (rc_mem (if_heap i)) \<and>
     (\<forall>e. rv = Inl e \<longrightarrow> ctx_bad (if_ctx i) \<and> flags = (if ctx_bad (if_ctx ir) then fl0 else NGHTTP2_HD_INFLATE_NONE) \<and> nv = None \<and>
        (e = ERR_HEADER_COMP \<or> e = ERR_NOMEM \<and> \<not> ir_reliable ir)) \<and>
     (\<forall>n. rv = Inr n \<longrightarrow> n \<le> length bs \<and> \<not> ctx_bad (if_ctx i) \<and>
        (flags = NGHTTP2_HD_INFLATE_NONE \<or> flags = NGHTTP2_HD_INFLATE_FINAL \<or> flags = NGHTTP2_HD_INFLATE_EMIT) \<and>
        (flags = NGHTTP2_HD_INFLATE_FINAL \<longrightarrow> ir_idle i) \<and>
        (if flags = NGHTTP2_HD_INFLATE_EMIT
         then \<exists>f. nv = Some f \<and> if_state i = STATE_OPCODE \<and>
           rc_live (E + held i + ctx_refs (if_ctx i)) (hd_name f) \<and> rc_live (E + held i + ctx_refs (if_ctx i)) (hd_value f)
         else nv = None \<and> n = length bs))"

lemma hd_nv_ok:
  assumes inv: "ir_inv ir E"
  obtains rv flags nv i where "nghttp2_hd_inflate_hd_nv ir fl0 bs fin = Some (rv, flags, nv, i)" "hd_nv_post ir fl0 bs E rv flags nv i"
proof (cases "ctx_bad (if_ctx ir)")
  case True
  then show ?thesis using inv by (intro that [of "Inl ERR_HEADER_COMP" fl0 None ir])
      (simp_all add: nghttp2_hd_inflate_hd_nv_def hd_nv_post_def)
next
  case False
  have o: "ir_owned ir E" "ir_ok ir E" using inv False by (simp_all add: ir_inv_def)
  obtain j where j: "hd_inflate_keep_free ir = Some j" "ir_fresh j" "ir_kept ir j E" "ir_ok j E" "ir_reliable j = ir_reliable ir"
    by (rule keep_free_inv [OF o(1)]) (use o(2) that in blast)
  obtain st where st: "inflate_loop j bs False = Some st" "loop_post j bs E st" using loop_ok [OF j(4,2), of False bs] by blast
  note fl = NGHTTP2_HD_INFLATE_NONE_def NGHTTP2_HD_INFLATE_FINAL_def NGHTTP2_HD_INFLATE_EMIT_def
  have k: "rc_same E (if_heap ir) (if_heap i)" "mem_mono (rc_mem (if_heap ir)) (rc_mem (if_heap i))" "\<not> ctx_bad (if_ctx i)"
    "settings_hd_table_bufsize_max i = settings_hd_table_bufsize_max ir" if "ir_kept j i E" for i
    using ir_kept_trans [OF j(3) that] False by (simp_all add: ir_kept_def)
  have own: "ir_owned i E" if "ir_ok i E" for i using that by (simp add: ir_ok_def)
  define r where "r = (case st of
          Step_break ir rest _ \<Rightarrow>
            if fin then
              if if_state ir \<noteq> STATE_OPCODE \<and> if_state ir \<noteq> STATE_INFLATE_START
              then (Inl ERR_HEADER_COMP, NGHTTP2_HD_INFLATE_NONE, None, inflate_fail ir)
              else (Inr (length bs), NGHTTP2_HD_INFLATE_FINAL, None, ir)
            else (Inr (length bs), NGHTTP2_HD_INFLATE_NONE, None, ir)
        | Step_emit ir rest nv \<Rightarrow> (Inr (length bs - length rest), NGHTTP2_HD_INFLATE_EMIT, Some nv, ir)
        | Step_almost ir rest \<Rightarrow>
            if fin then (Inl ERR_HEADER_COMP, NGHTTP2_HD_INFLATE_NONE, None, inflate_fail ir)
            else (Inr (length bs - length rest), NGHTTP2_HD_INFLATE_NONE, None, ir)
        | Step_fail ir e \<Rightarrow> (Inl e, NGHTTP2_HD_INFLATE_NONE, None, inflate_fail ir))"
  obtain rv flags nv i where r: "r = (rv, flags, nv, i)" by (cases r)
  have "nghttp2_hd_inflate_hd_nv ir fl0 bs fin = Some r" unfolding nghttp2_hd_inflate_hd_nv_def r_def using False j(1) st(1) by simp
  moreover have "hd_nv_post ir fl0 bs E rv flags nv i"
  proof (cases st)
    case (Step_break i' rest busy)
    then have p: "ir_ok i' E" "ir_kept j i' E" using st(2) by (simp_all add: loop_post_def)
    show ?thesis using False r k [OF p(2)] own [OF p(1)] p(1)
      by (auto simp: r_def Step_break hd_nv_post_def ir_inv_def fl ir_idle_def split: if_splits)
  next
    case (Step_emit i' rest nv')
    then have p: "ir_ok i' E" "ir_kept j i' E" "if_state i' = STATE_OPCODE"
      "rc_live (E + held i' + ctx_refs (if_ctx i')) (hd_name nv')" "rc_live (E + held i' + ctx_refs (if_ctx i')) (hd_value nv')"
      using st(2) by (simp_all add: loop_post_def)
    show ?thesis using r k [OF p(2)] own [OF p(1)] p by (auto simp: r_def Step_emit hd_nv_post_def ir_inv_def fl)
  next
    case (Step_almost i' rest)
    then have p: "ir_ok i' E" "ir_kept j i' E" "rest = []" using st(2) by (simp_all add: loop_post_def)
    show ?thesis using False r k [OF p(2)] own [OF p(1)] p
      by (auto simp: r_def Step_almost hd_nv_post_def ir_inv_def fl split: if_splits)
  next
    case (Step_fail i' e)
    then have p: "ir_owned i' E" "ir_kept j i' E" "e = ERR_HEADER_COMP \<or> e = ERR_NOMEM \<and> \<not> ir_reliable ir"
      using st(2) j(5) by (simp_all add: loop_post_def)
    show ?thesis using False r k [OF p(2)] p by (auto simp: r_def Step_fail hd_nv_post_def ir_inv_def fl)
  qed
  ultimately show ?thesis using that r by simp
qed

lemma hd2_ok:
  assumes inv: "ir_inv ir E"
  obtains rv flags nv i where "nghttp2_hd_inflate_hd2 ir fl0 bs fin = Some (rv, flags, nv, i)" "ir_inv i E"
    "\<And>n. rv = Inr n \<Longrightarrow> flags AND NGHTTP2_HD_INFLATE_FINAL \<noteq> 0 \<Longrightarrow> ir_idle i"
proof (rule hd_nv_ok [OF inv, of fl0 bs fin])
  fix rv flags nv i
  assume r: "nghttp2_hd_inflate_hd_nv ir fl0 bs fin = Some (rv, flags, nv, i)" "hd_nv_post ir fl0 bs E rv flags nv i"
  have i: "ir_inv i E" using r(2) by (simp add: hd_nv_post_def)
  note fl = NGHTTP2_HD_INFLATE_NONE_def NGHTTP2_HD_INFLATE_FINAL_def NGHTTP2_HD_INFLATE_EMIT_def
  show ?thesis
  proof (cases "rv \<noteq> Inl (projl rv) \<and> flags = NGHTTP2_HD_INFLATE_EMIT")
    case True
    then obtain m where m: "rv = Inr m" by (cases rv) auto
    then obtain f where f: "nv = Some f" "rc_live (E + held i + ctx_refs (if_ctx i)) (hd_name f)"
      "rc_live (E + held i + ctx_refs (if_ctx i)) (hd_value f)"
      using r(2) True by (auto simp: hd_nv_post_def)
    have ok: "rc_ok (if_heap i) (E + held i + ctx_refs (if_ctx i))"
      by (rule ctx_ok_live [of _ None]) (use i in \<open>simp add: ir_inv_def ir_owned_def\<close>)
    obtain rc1 rc2 where "rc_get (if_heap i) (hd_name f) = Some rc1" "rc_get (if_heap i) (hd_value f) = Some rc2"
      using rc_ok_get [OF ok f(2)] rc_ok_get [OF ok f(3)] by metis
    then have "nghttp2_hd_inflate_hd2 ir fl0 bs fin = Some (Inr m, flags, Some \<lparr>nv_name = take (rc_len rc1) (rc_base rc1),
         nv_value = take (rc_len rc2) (rc_base rc2), nv_flags = hd_flags f\<rparr>, i)"
      unfolding nghttp2_hd_inflate_hd2_def using True by (simp add: r(1) m f(1) nghttp2_rcbuf_get_buf_def fl)
    then show ?thesis by (rule that [OF _ i]) (use True in \<open>simp add: fl\<close>)
  next
    case False
    have "nghttp2_hd_inflate_hd2 ir fl0 bs fin = Some (rv, flags, None, i)"
      using False r by (cases rv) (auto simp: nghttp2_hd_inflate_hd2_def hd_nv_post_def fl)
    moreover have "ir_idle i" if "rv = Inr n" "flags AND NGHTTP2_HD_INFLATE_FINAL \<noteq> 0" for n
      using that False r(2) by (auto simp: hd_nv_post_def fl)
    ultimately show ?thesis using that i by blast
  qed
qed

lemma end_headers_ok:
  assumes inv: "ir_inv ir E" and idle: "\<not> ctx_bad (if_ctx ir) \<Longrightarrow> ir_idle ir"
  obtains i where "nghttp2_hd_inflate_end_headers ir = Some i" "ir_inv i E" "if_state i = STATE_INFLATE_START" "ir_table i = ir_table ir"
    "ir_reliable i = ir_reliable ir" "if_min_hd_table_bufsize_max i = if_min_hd_table_bufsize_max ir"
    "settings_hd_table_bufsize_max i = settings_hd_table_bufsize_max ir" "ctx_bad (if_ctx i) = ctx_bad (if_ctx ir)"
proof -
  have o: "ir_owned ir E" using inv by (simp add: ir_inv_def)
  obtain j where j: "hd_inflate_keep_free ir = Some j" "ir_owned j E" "ir_fresh j" "ir_kept ir j E" "ir_ok ir E \<Longrightarrow> ir_ok j E" "if_state j = if_state ir"
    "ir_table j = ir_table ir" "ir_reliable j = ir_reliable ir" "if_min_hd_table_bufsize_max j = if_min_hd_table_bufsize_max ir"
    by (rule keep_free_inv [OF o]) (use that in blast)
  have "ir_inv (j\<lparr>if_state := STATE_INFLATE_START\<rparr>) E"
    using inv idle j(2-6) by (auto simp: ir_inv_def ir_kept_def ir_ok_def ir_idle_def ir_fresh_def)
  then show ?thesis
    by (rule that [rotated]) (use j in \<open>simp_all add: nghttp2_hd_inflate_end_headers_def ir_table_def ir_kept_def\<close>)
qed

lemma change_table_ok:
  assumes inv: "ir_inv ir E" and m: "m < 2 ^ 32"
  obtains rv i where "nghttp2_hd_inflate_change_table_size ir m = Some (rv, i)" "ir_inv i E"
    "rv = Inr () \<Longrightarrow> ir_table i = (m, table_cut m (dyn_table (if_ctx ir)))" "ir_idle ir \<and> if_state ir \<noteq> STATE_OPCODE \<longleftrightarrow> rv = Inr ()"
    "rv \<noteq> Inr () \<Longrightarrow> rv = Inl ERR_INVALID_STATE \<and> i = ir"
    "rv = Inr () \<Longrightarrow> settings_hd_table_bufsize_max i = m \<and> ctx_bad (if_ctx i) = ctx_bad (if_ctx ir) \<and>
       mem_mono (rc_mem (if_heap ir)) (rc_mem (if_heap i)) \<and>
       (if hd_table_bufsize_max (if_ctx ir) > m then if_state i = STATE_EXPECT_TABLE_SIZE \<and> if_min_hd_table_bufsize_max i = m
        else if_state i = if_state ir \<and> if_min_hd_table_bufsize_max i = if_min_hd_table_bufsize_max ir)"
proof (cases "if_state ir \<noteq> STATE_EXPECT_TABLE_SIZE \<and> if_state ir \<noteq> STATE_INFLATE_START")
  case True
  then show ?thesis using inv by (intro that [of "Inl ERR_INVALID_STATE" ir]) (auto simp: nghttp2_hd_inflate_change_table_size_def ir_idle_def)
next
  case False
  define j where "j = (if hd_table_bufsize_max (if_ctx ir) > m
                   then ir\<lparr>if_state := STATE_EXPECT_TABLE_SIZE, if_min_hd_table_bufsize_max := m\<rparr> else ir)\<lparr>settings_hd_table_bufsize_max := m\<rparr>"
  have jc: "if_ctx j = if_ctx ir" "held j = held ir" by (simp_all add: j_def held_def)
  have o: "ctx_ok (if_ctx ir) None (E + held ir)" using inv by (simp add: ir_inv_def ir_owned_def)
  obtain ctx' hmap' where sh: "hd_context_shrink_table_size ((if_ctx ir)\<lparr>hd_table_bufsize_max := m\<rparr>) None = Some (ctx', hmap')"
      "ctx_ok ctx' None (E + held ir)" "ctx_kept ((if_ctx ir)\<lparr>hd_table_bufsize_max := m\<rparr>) None ctx' None (E + held ir)"
      "dyn_table ctx' = table_cut m (dyn_table (if_ctx ir))"
    by (rule ctx_ok_shrink [OF o m]) (auto simp: ctx_kept_def)
  have r: "nghttp2_hd_inflate_change_table_size ir m = Some (Inr (), j\<lparr>if_ctx := ctx'\<rparr>)"
    unfolding nghttp2_hd_inflate_change_table_size_def Let_def j_def [symmetric] jc using False sh(1) by auto
  show ?thesis
  proof (rule that [OF r])
    have "ctx_bad ctx' = ctx_bad (if_ctx ir)" using sh(3) by (simp add: ctx_kept_def)
    moreover have "ir_owned (j\<lparr>if_ctx := ctx'\<rparr>) E" using sh(2) jc by (simp add: ir_owned_def)
    ultimately show "ir_inv (j\<lparr>if_ctx := ctx'\<rparr>) E"
      using inv False m by (auto simp: ir_inv_def ir_ok_def j_def ir_idle_def ir_fresh_def)
    show "ir_table (j\<lparr>if_ctx := ctx'\<rparr>) = (m, table_cut m (dyn_table (if_ctx ir)))"
      using sh(3,4) by (simp add: ir_table_def ctx_kept_def)
    show "settings_hd_table_bufsize_max (j\<lparr>if_ctx := ctx'\<rparr>) = m \<and> ctx_bad (if_ctx (j\<lparr>if_ctx := ctx'\<rparr>)) = ctx_bad (if_ctx ir) \<and>
       mem_mono (rc_mem (if_heap ir)) (rc_mem (if_heap (j\<lparr>if_ctx := ctx'\<rparr>))) \<and>
       (if hd_table_bufsize_max (if_ctx ir) > m
        then if_state (j\<lparr>if_ctx := ctx'\<rparr>) = STATE_EXPECT_TABLE_SIZE \<and> if_min_hd_table_bufsize_max (j\<lparr>if_ctx := ctx'\<rparr>) = m
        else if_state (j\<lparr>if_ctx := ctx'\<rparr>) = if_state ir \<and> if_min_hd_table_bufsize_max (j\<lparr>if_ctx := ctx'\<rparr>) = if_min_hd_table_bufsize_max ir)"
      using sh(3) by (simp add: j_def ctx_kept_def)
  qed (use False in \<open>auto simp: ir_idle_def\<close>)
qed

lemma inflate_new2_ok:
  "case nghttp2_hd_inflate_new2 mem of
     (Inl e, mem') \<Rightarrow> e = ERR_NOMEM \<and> \<not> mem_reliable mem
   | (Inr ir, mem') \<Rightarrow> ir_ok ir {#} \<and> \<not> ctx_bad (if_ctx ir) \<and> ir_table ir = (NGHTTP2_HD_DEFAULT_MAX_BUFFER_SIZE, []) \<and>
       if_state ir = STATE_INFLATE_START \<and> (mem_reliable mem \<longrightarrow> ir_reliable ir)"
proof -
  obtain ok m where m: "mem_call mem = (ok, m)" by (cases "mem_call mem")
  have r: "mem_reliable mem \<Longrightarrow> ok \<and> mem_reliable m" using mem_call_reliable [of mem] m by simp
  have d: "NGHTTP2_HD_DEFAULT_MAX_BUFFER_SIZE < 2 ^ 32" by (simp add: NGHTTP2_HD_DEFAULT_MAX_BUFFER_SIZE_def)
  show ?thesis
  proof (cases "hd_context_init m")
    case (Pair c m')
    then show ?thesis using hd_context_init_ok [where hmap = None, of m] m r d
      by (auto simp: nghttp2_hd_inflate_new2_def nghttp2_hd_inflate_init_def ir_ok_def ir_owned_def held_def ir_table_def
          ir_fresh_def mem_mono_def split: sum.splits)
  qed
qed

lemma inflate_free_ok:
  assumes "ir_owned ir E"
  obtains ctx where "nghttp2_hd_inflate_free ir = Some ctx" "ctx_entries ctx = Map.empty" "rc_ok (ctx_heap ctx) E"
    "rc_same E (if_heap ir) (ctx_heap ctx)"
proof (rule keep_free_ok [OF assms])
  fix h
  assume h: "hd_inflate_keep_free ir = Some ((set_heap ir h)\<lparr>nv_value_keep := None, nv_name_keep := None\<rparr>)"
    "ctx_ok ((if_ctx ir)\<lparr>ctx_heap := h\<rparr>) None (E + opt_mset (namercbuf ir) + opt_mset (valuercbuf ir))"
    "rc_same E (if_heap ir) h"
  obtain h1 where h1: "nghttp2_rcbuf_decref h (valuercbuf ir) = Some h1" "ctx_ok ((if_ctx ir)\<lparr>ctx_heap := h1\<rparr>) None (E + opt_mset (namercbuf ir))"
    "rc_same (E + opt_mset (namercbuf ir) + ctx_refs (if_ctx ir)) h h1"
    by (rule decref_opt [OF h(2)]) simp
  obtain h2 where h2: "nghttp2_rcbuf_decref h1 (namercbuf ir) = Some h2" "ctx_ok ((if_ctx ir)\<lparr>ctx_heap := h2\<rparr>) None E"
    "rc_same (E + ctx_refs (if_ctx ir)) h1 h2"
    by (rule decref_opt [OF h1(2)]) simp
  obtain ctx where c: "hd_context_free ((if_ctx ir)\<lparr>ctx_heap := h2\<rparr>) = Some ctx" "ctx_entries ctx = Map.empty" "rc_ok (ctx_heap ctx) E"
    "rc_same E h2 (ctx_heap ctx)"
    by (rule context_free_ok [OF h2(2)]) simp
  have s: "rc_same E (if_heap ir) (ctx_heap ctx)"
    by (rule rc_same_trans [OF rc_same_trans [OF rc_same_trans [OF h(3) rc_same_mono [OF h1(3)]] rc_same_mono [OF h2(3)]] c(4)]) simp_all
  show ?thesis by (rule that [OF _ c(2,3) s]) (simp add: nghttp2_hd_inflate_free_def h(1) h1(1) h2(1) c(1))
qed

section \<open>Histories\<close>

text \<open>
  What a user of an inflater does: hand it pieces of header blocks, \<^verbatim>\<open>in_final\<close> set on the last one,
  and call \<^verbatim>\<open>nghttp2_hd_inflate_end_headers\<close> when the final flag comes back, as
  \<^verbatim>\<open>inflate_header_block\<close> of \<^verbatim>\<open>nghttp2_session.c\<close> does; and change the size limit of the table.
\<close>

datatype inflate_op = Call_inflate "u8 list" bool | Call_change_table_size u32

fun inflate_call :: "inflate_op \<Rightarrow> nghttp2_hd_inflater \<Rightarrow> nghttp2_hd_inflater option" where
  "inflate_call (Call_inflate bs in_final) ir = do {
     (rv, flags, nv, ir) \<leftarrow> nghttp2_hd_inflate_hd2 ir 0 bs in_final;
     case rv of
       Inl _ \<Rightarrow> Some ir
     | Inr _ \<Rightarrow> if flags AND NGHTTP2_HD_INFLATE_FINAL \<noteq> 0 then nghttp2_hd_inflate_end_headers ir else Some ir }"
| "inflate_call (Call_change_table_size m) ir = map_option snd (nghttp2_hd_inflate_change_table_size ir (unat m))"

fun inflate_calls :: "inflate_op list \<Rightarrow> nghttp2_hd_inflater \<Rightarrow> nghttp2_hd_inflater option" where
  "inflate_calls [] ir = Some ir"
| "inflate_calls (c # cs) ir = Option.bind (inflate_call c ir) (inflate_calls cs)"

lemma inflate_call_ok:
  assumes "ir_inv ir E"
  shows "\<exists>i. inflate_call c ir = Some i \<and> ir_inv i E"
proof (cases c)
  case (Call_inflate bs fin)
  obtain rv flags nv i where r: "nghttp2_hd_inflate_hd2 ir 0 bs fin = Some (rv, flags, nv, i)" "ir_inv i E"
    "\<And>n. rv = Inr n \<Longrightarrow> flags AND NGHTTP2_HD_INFLATE_FINAL \<noteq> 0 \<Longrightarrow> ir_idle i"
    by (rule hd2_ok [OF assms, of 0 bs fin]) (use that in blast)
  show ?thesis
  proof (cases "rv = Inr (projr rv) \<and> flags AND NGHTTP2_HD_INFLATE_FINAL \<noteq> 0")
    case True
    then have "ir_idle i" using r(3) by blast
    obtain j where "nghttp2_hd_inflate_end_headers i = Some j" "ir_inv j E" by (rule end_headers_ok [OF r(2)]) (use \<open>ir_idle i\<close> in simp_all)
    then show ?thesis using r(1) True by (cases rv) (simp_all add: Call_inflate)
  next
    case False
    then show ?thesis using r(1,2) by (cases rv) (simp_all add: Call_inflate)
  qed
next
  case (Call_change_table_size m)
  have "unat m < 2 ^ 32" using unsigned_less [of m, where ?'a = nat] by simp
  then show ?thesis using change_table_ok [OF assms, of "unat m"] Call_change_table_size by fastforce
qed

lemma inflate_calls_ok: "ir_inv ir E \<Longrightarrow> \<exists>i. inflate_calls cs ir = Some i \<and> ir_inv i E"
proof (induction cs arbitrary: ir)
  case (Cons c cs)
  then show ?case using inflate_call_ok [OF Cons.prems, of c] by fastforce
qed simp

text \<open>
  C4. An inflater is memory safe on every input: from \<^verbatim>\<open>nghttp2_hd_inflate_new2\<close>, whatever header
  block bytes are handed to it in whatever pieces, however the table size limit is changed in between,
  and whichever allocations fail, every call returns without an assertion, an access out of bounds or to
  freed memory; and \<^verbatim>\<open>nghttp2_hd_inflate_free\<close> then gives back every buffer and every table entry.
\<close>

theorem hd_inflate_history_safe:
  assumes "nghttp2_hd_inflate_new2 mem = (Inr ir, mem')"
  shows "\<exists>ir' ctx. inflate_calls cs ir = Some ir' \<and> nghttp2_hd_inflate_free ir' = Some ctx \<and>
     ctx_entries ctx = Map.empty \<and> rc_bufs (ctx_heap ctx) = Map.empty"
proof -
  have "ir_inv ir {#}" using inflate_new2_ok [of mem] assms by (auto simp: ir_inv_def ir_ok_def)
  then obtain ir' where i: "inflate_calls cs ir = Some ir'" "ir_inv ir' {#}" using inflate_calls_ok by blast
  have "ir_owned ir' {#}" using i(2) by (simp add: ir_inv_def)
  then obtain ctx where "nghttp2_hd_inflate_free ir' = Some ctx" "ctx_entries ctx = Map.empty" "rc_ok (ctx_heap ctx) {#}"
    by (rule inflate_free_ok)
  then show ?thesis using i(1) rc_ok_empty by blast
qed

definition ir0 :: nghttp2_hd_inflater where
  "ir0 = projr (fst (nghttp2_hd_inflate_new2 mem0))"

lemma ir0_new: "nghttp2_hd_inflate_new2 mem0 = (Inr ir0, snd (nghttp2_hd_inflate_new2 mem0))"
  by (simp add: ir0_def nghttp2_hd_inflate_new2_def nghttp2_hd_inflate_init_def hd_context_init_def mem0_def mem_call_def Let_def
      hd_ringbuf_init_def split: prod.splits sum.splits)

theorem hd_inflate_history_safe_witness:
  "nghttp2_hd_inflate_new2 mem0 = (Inr ir0, snd (nghttp2_hd_inflate_new2 mem0)) \<and>
   (\<exists>ir' ctx. inflate_calls [Call_inflate [0x40, 0x01] False, Call_change_table_size 0, Call_inflate [0x61] True] ir0 = Some ir' \<and>
     nghttp2_hd_inflate_free ir' = Some ctx \<and> ctx_entries ctx = Map.empty \<and> rc_bufs (ctx_heap ctx) = Map.empty)"
  using ir0_new hd_inflate_history_safe [OF ir0_new] by blast

text \<open>
  C14. The outcome of one call: an error is sticky, leaves the context marked bad and emits nothing, and it is a
  compression error unless an allocation failed; a call without error uses all of its input
  unless it stops to emit a field, and is final only between two fields; in each case the
  references of the inflater stay exact and those of others untouched.
\<close>

theorem hd_inflate_hd_nv_outcome:
  assumes "ir_inv ir E"
  shows "\<exists>rv flags nv ir'. nghttp2_hd_inflate_hd_nv ir fl0 bs fin = Some (rv, flags, nv, ir') \<and> hd_nv_post ir fl0 bs E rv flags nv ir' \<and>
     (\<forall>e. rv = Inl e \<longrightarrow> nghttp2_hd_inflate_hd_nv ir' fl2 bs2 fin2 = Some (Inl ERR_HEADER_COMP, fl2, None, ir'))"
  by (rule hd_nv_ok [OF assms, of fl0 bs fin]) (auto simp: hd_nv_post_def nghttp2_hd_inflate_hd_nv_def)

lemma ir0_ok: "ir_ok ir0 {#}" "ir_inv ir0 {#}" "ir_table ir0 = (4096, [])" "\<not> ctx_bad (if_ctx ir0)" "if_state ir0 = STATE_INFLATE_START" "ir_reliable ir0"
  using inflate_new2_ok [of mem0] ir0_new
  by (auto simp: ir_inv_def ir_ok_def NGHTTP2_HD_DEFAULT_MAX_BUFFER_SIZE_def mem0_def mem_reliable_def)

theorem hd_inflate_hd_nv_outcome_witness:
  "ir_inv ir0 {#} \<and> (\<exists>rv flags nv ir'. nghttp2_hd_inflate_hd_nv ir0 0 [0x80] True = Some (rv, flags, nv, ir') \<and> hd_nv_post ir0 0 [0x80] {#} rv flags nv ir' \<and>
     (\<forall>e. rv = Inl e \<longrightarrow> nghttp2_hd_inflate_hd_nv ir' 2 [0x82] True = Some (Inl ERR_HEADER_COMP, 2, None, ir')))"
  using hd_inflate_hd_nv_outcome [OF ir0_ok(2)] ir0_ok(2) by blast

end
