(* ===== verification/Hpack_Roundtrip.thy ===== *)
theory Hpack_Roundtrip
  imports Hpack_Inflate
begin

unbundle bit_operations_syntax

text \<open>
  The deflater and the inflater together: symbolic execution of the inflater's state machine on the bytes of each
  representation the deflater writes, and the invariant that keeps the tables of the two ends of a connection in step.
\<close>

section \<open>Reading what the deflater writes\<close>

lemma huff_bytes_decode:
  obtains ctx' where "nghttp2_hd_huff_decode nghttp2_hd_huff_decode_context_init buf (huff_bytes s) True =
     (Inr (length (huff_bytes s)), ctx', buf_cpymem buf s)" "length s \<le> 2 * length (huff_bytes s)"
proof -
  let ?k = "(8 - length (huff_bits s) mod 8) mod 8"
  have "bytes_bits (huff_bytes s) = huff_bits s @ replicate ?k True" by (simp add: bytes_bits_huff_bytes huff_pad_def)
  moreover have "?k < 8" by simp
  ultimately obtain u where u: "tree_decode huff_node_0 (bytes_bits (huff_bytes s)) = Some (s, u)" "node_accept u"
    using tree_accepts_iff [of "bytes_bits (huff_bytes s)" s] by blast
  obtain ctx' where l: "huff_decode_loop nghttp2_hd_huff_decode_context_init buf (huff_bytes s) =
      (Inr (), ctx', buf_cpymem buf s)" "hc_accept ctx' \<noteq> 0"
    using huff_decode_init_tree [of buf "huff_bytes s"] u by auto
  show ?thesis by (rule that [of ctx']) (use l tree_decode_length [OF u(1)] in \<open>simp_all add: nghttp2_hd_huff_decode_def\<close>)
qed

lemma read_len_int_bytes:
  assumes "0 < prefix" "prefix \<le> 8" "n < 2 ^ 32" "n \<le> maxlen" "if_left ir = 0" "if_shift ir = 0"
  obtains shift where "hd_inflate_read_len ir (int_bytes b n prefix @ rest) prefix maxlen =
     Some (Inr (length (int_bytes b n prefix), True), ir\<lparr>if_left := n, if_shift := shift\<rparr>)"
proof -
  obtain shift where d: "decode_length 0 0 (int_bytes b n prefix @ rest) prefix = Some (Inr (of_nat n, shift, True, count_encoded_length n prefix))"
    using int_bytes_decode [OF assms(1-3), of b rest] by blast
  have u: "unat (of_nat n :: u32) = n" using assms(3) by (simp add: unsigned_of_nat take_bit_nat_eq_self)
  show ?thesis by (rule that [of shift])
      (use assms(4-6) u in \<open>simp add: hd_inflate_read_len_def d length_int_bytes Let_def\<close>)
qed

text \<open>The first byte of an integer.\<close>

lemma int_bytes_first:
  assumes "0 < prefix" "prefix \<le> 8"
  obtains fb tl where "int_bytes c n prefix = fb # tl" "fb AND NOT (mask prefix) = c AND NOT (mask prefix)"
    "fb AND mask prefix = 0 \<longleftrightarrow> n = 0"
proof (cases "n < prefix_max prefix")
  case True
  have m: "take_bit prefix (of_nat n :: u8) = of_nat n"
    using True assms by (simp add: prefix_max_def take_bit_of_nat take_bit_nat_eq_self)
  have lt: "n < 2 ^ 8" using True assms(2) power_increasing [of prefix 8 "2 :: nat"] by (simp add: prefix_max_def)
  show ?thesis
  proof (rule that [of "c AND NOT (mask prefix) OR of_nat n" "[]"])
    show "int_bytes c n prefix = [c AND NOT (mask prefix) OR of_nat n]" using True by (simp add: int_bytes_def Let_def)
    have n: "of_nat n = (of_nat n :: u8) AND mask prefix" using m by (simp add: take_bit_eq_mask)
    have "(c AND NOT (mask prefix) OR of_nat n) AND NOT (mask prefix) = (c AND NOT (mask prefix) OR of_nat n AND mask prefix) AND NOT (mask prefix)"
      using n by simp
    also have "\<dots> = c AND NOT (mask prefix)" by (simp add: bit_eq_iff bit_simps) blast
    finally show "(c AND NOT (mask prefix) OR of_nat n) AND NOT (mask prefix) = c AND NOT (mask prefix)" .
    have "(c AND NOT (mask prefix) OR of_nat n) AND mask prefix = (c AND NOT (mask prefix) OR of_nat n AND mask prefix) AND mask prefix"
      using n by simp
    also have "\<dots> = of_nat n AND mask prefix" by (simp add: bit_eq_iff bit_simps) blast
    finally have "(c AND NOT (mask prefix) OR of_nat n) AND mask prefix = of_nat n" using n by simp
    then show "(c AND NOT (mask prefix) OR of_nat n) AND mask prefix = 0 \<longleftrightarrow> n = 0"
      using lt by (simp add: word_of_nat_eq_0_iff) (auto dest: dvd_imp_le)
  qed
next
  case False
  then have n: "n \<noteq> 0" using prefix_max_pos [OF assms(1)] by auto
  have z: "mask prefix \<noteq> (0 :: u8)" using assms by (simp add: mask_eq_0_iff)
  show ?thesis
  proof (rule that [of "c AND NOT (mask prefix) OR mask prefix" "cont_bytes (n - prefix_max prefix)"])
    show "int_bytes c n prefix = (c AND NOT (mask prefix) OR mask prefix) # cont_bytes (n - prefix_max prefix)"
      using False by (simp add: int_bytes_def Let_def)
    show "(c AND NOT (mask prefix) OR mask prefix) AND NOT (mask prefix) = c AND NOT (mask prefix)"
      by (simp add: bit_eq_iff bit_simps) blast
    have "(c AND NOT (mask prefix) OR mask prefix) AND mask prefix = mask prefix" by (simp add: bit_eq_iff bit_simps)
    then show "(c AND NOT (mask prefix) OR mask prefix) AND mask prefix = 0 \<longleftrightarrow> n = 0" using z n by simp
  qed
qed

text \<open>How a string is coded, its length in bytes and the bytes.\<close>

definition str_huff :: "u8 list \<Rightarrow> bool" where
  "str_huff s \<longleftrightarrow> nghttp2_hd_huff_encode_count s < length s"

definition str_data :: "u8 list \<Rightarrow> u8 list" where
  "str_data s = (if str_huff s then huff_bytes s else s)"

definition str_head :: "u8 list \<Rightarrow> u8 list" where
  "str_head s = int_bytes (if str_huff s then 0x80 else 0) (length (str_data s)) 7"

lemma string_bytes_parts: "string_bytes s = str_head s @ str_data s"
  by (simp add: string_bytes_def str_head_def str_data_def str_huff_def length_huff_bytes)

lemma length_str_data: "length (str_data s) \<le> length s"
  by (simp add: str_data_def str_huff_def length_huff_bytes)

lemma str_head_first: obtains b tl where "str_head s = b # tl" "b AND push_bit 7 1 \<noteq> 0 \<longleftrightarrow> str_huff s"
proof (rule int_bytes_first [of 7 "if str_huff s then 0x80 else 0" "length (str_data s)"])
  fix fb tl
  assume f: "int_bytes (if str_huff s then 0x80 else 0) (length (str_data s)) 7 = fb # tl"
    "fb AND NOT (mask 7) = (if str_huff s then 0x80 else 0) AND NOT (mask 7)"
  have m: "NOT (mask 7) = (0x80 :: u8)" by (simp add: mask_eq_exp_minus_1)
  show ?thesis by (rule that [of fb tl]) (use f in \<open>auto simp: str_head_def m\<close>)
qed simp_all

lemma read_len_str_head:
  assumes "length s \<le> NGHTTP2_HD_MAX_NV" "if_left k = 0" "if_shift k = 0"
  obtains shift where "hd_inflate_read_len k (str_head s @ rest) 7 NGHTTP2_HD_MAX_NV =
    Some (Inr (length (str_head s), True), k\<lparr>if_left := length (str_data s), if_shift := shift\<rparr>)"
proof -
  have n: "(0 :: nat) < 7" "(7 :: nat) \<le> 8" "length (str_data s) < 2 ^ 32" "length (str_data s) \<le> NGHTTP2_HD_MAX_NV"
    using length_str_data [of s] assms(1) by (simp_all add: NGHTTP2_HD_MAX_NV_def)
  show ?thesis
    by (rule read_len_int_bytes [OF n assms(2,3), of "if str_huff s then 0x80 else 0" rest]) (use that in \<open>simp add: str_head_def\<close>)
qed

section \<open>Symbolic execution\<close>

text \<open>What the passes inside a field keep: the field's kind and the table.\<close>

definition ir_same :: "nghttp2_hd_inflater \<Rightarrow> nghttp2_hd_inflater \<Rightarrow> bool" where
  "ir_same i j \<longleftrightarrow> ir_table j = ir_table i \<and> if_opcode j = if_opcode i \<and> index_required j = index_required i \<and> no_index j = no_index i \<and>
     if_index j = if_index i \<and> if_min_hd_table_bufsize_max j = if_min_hd_table_bufsize_max i"

lemma ir_same_trans: "ir_same i j \<Longrightarrow> ir_same j k \<Longrightarrow> ir_same i k"
  by (simp add: ir_same_def)

lemma loop_break:
  "bs \<noteq> [] \<or> busy \<Longrightarrow> inflate_switch i bs = Some (Step_break j rest b) \<Longrightarrow> inflate_loop i bs busy = inflate_loop j rest b"
  by (subst inflate_loop.simps) simp

lemma loop_emit:
  "bs \<noteq> [] \<or> busy \<Longrightarrow> inflate_switch i bs = Some (Step_emit j rest nv) \<Longrightarrow> inflate_loop i bs busy = Some (Step_emit j rest nv)"
  by (subst inflate_loop.simps) simp

lemma break_post:
  assumes "inflate_switch i bs = Some (Step_break j rest b)" "ir_ok i E" "ir_fresh i" "bs \<noteq> []"
  shows "ir_ok j E" "ir_fresh j" "ir_kept i j E"
  using switch_step [OF assms(2,3), of bs] assms(1,4) by (auto simp: step_post_def)

text \<open>The state after the length of a string: a fresh buffer.\<close>

definition at_string :: "bool \<Rightarrow> nat \<Rightarrow> rcptr option \<Rightarrow> nghttp2_buf \<Rightarrow> nghttp2_hd_inflater \<Rightarrow> bool" where
  "at_string huff n ptr buf j \<longleftrightarrow> if_left j = n \<and> buf_bytes buf = [] \<and> rc_view (if_heap j) ptr buf (if huff then 2 * n else n) \<and>
     (huff \<longrightarrow> if_huff_decode_ctx j = nghttp2_hd_huff_decode_context_init)"

lemma buf_bytes_wrap [simp]: "buf_bytes (nghttp2_buf_wrap_init d) = []"
  by (simp add: buf_bytes_def nghttp2_buf_wrap_init_def nghttp2_buf_len_def)

lemma exec_namelen:
  assumes ok: "ir_ok i E" "ir_fresh i" "if_state i = STATE_NEWNAME_CHECK_NAMELEN" and rel: "ir_reliable i" and len: "length s \<le> NGHTTP2_HD_MAX_NV"
  obtains j where "inflate_switch i (str_head s @ rest) = Some (Step_break j rest False)"
    "if_state j = (if str_huff s then STATE_NEWNAME_READ_NAMEHUFF else STATE_NEWNAME_READ_NAME)" "ir_same i j"
    "at_string (str_huff s) (length (str_data s)) (namercbuf j) (namebuf j) j"
proof -
  obtain b tl where h: "str_head s = b # tl" "b AND push_bit 7 1 \<noteq> 0 \<longleftrightarrow> str_huff s" by (rule str_head_first)
  let ?n = "length (str_data s)"
  define k where "k = i\<lparr>huffman_encoded := str_huff s, if_state := STATE_NEWNAME_READ_NAMELEN, if_left := 0, if_shift := 0\<rparr>"
  have ck: "inflate_check_len i (str_head s @ rest) STATE_NEWNAME_READ_NAMELEN = Some k"
    using h by (simp add: inflate_check_len_def hd_inflate_set_huffman_encoded_def k_def)
  have k: "if_left k = 0" "if_shift k = 0" by (simp_all add: k_def)
  obtain shift where r: "hd_inflate_read_len k (str_head s @ rest) 7 NGHTTP2_HD_MAX_NV = Some (Inr (length (str_head s), True), k\<lparr>if_left := ?n, if_shift := shift\<rparr>)"
    by (rule read_len_str_head [OF len k])
  have c: "ctx_ok (if_ctx i) None (E + held i)" using ok by (simp add: ir_ok_def ir_owned_def)
  define sz where "sz = (if str_huff s then ?n * 2 else ?n)"
  show ?thesis
  proof (rule new_view [OF c, of sz])
    fix h assume "\<not> ir_reliable i"
    then show ?thesis using rel by simp
  next
    fix h a rc
    assume h: "nghttp2_rcbuf_new (if_heap i) (sz + 1) = (Inr (Rc_heap a), h)" "rc_get h (Rc_heap a) = Some rc"
      "dyn_table ((if_ctx i)\<lparr>ctx_heap := h\<rparr>) = dyn_table (if_ctx i)"
      "rc_view h (Some (Rc_heap a)) (nghttp2_buf_wrap_init (take (rc_len rc) (rc_base rc))) sz"
    let ?j = "(set_heap (if str_huff s
      then k\<lparr>if_left := ?n, if_shift := shift, if_huff_decode_ctx := nghttp2_hd_huff_decode_context_init, if_state := STATE_NEWNAME_READ_NAMEHUFF\<rparr>
      else k\<lparr>if_left := ?n, if_shift := shift, if_state := STATE_NEWNAME_READ_NAME\<rparr>) h)
       \<lparr>namercbuf := Some (Rc_heap a), namebuf := nghttp2_buf_wrap_init (take (rc_len rc) (rc_base rc))\<rparr>"
    show ?thesis
    proof (rule that [of ?j])
      show "inflate_switch i (str_head s @ rest) = Some (Step_break ?j rest False)"
        using h(1,2) r by (cases "str_huff s") (simp_all add: inflate_switch_def ok(3) ck inflate_read_namelen_def k_def sz_def)
      show "ir_same i ?j" using h(3) by (simp add: ir_same_def ir_table_def k_def)
      show "at_string (str_huff s) ?n (namercbuf ?j) (namebuf ?j) ?j" using h(4) by (cases "str_huff s") (simp_all add: at_string_def sz_def mult.commute)
    qed simp
  qed
qed

lemma exec_valuelen:
  assumes ok: "ir_ok i E" "ir_fresh i" "if_state i = STATE_CHECK_VALUELEN" and rel: "ir_reliable i" and len: "length s \<le> NGHTTP2_HD_MAX_NV"
  obtains j where "inflate_switch i (str_head s @ rest) = Some (Step_break j rest True)"
    "if_state j = (if str_huff s then STATE_READ_VALUEHUFF else STATE_READ_VALUE)" "ir_same i j" "namercbuf j = namercbuf i"
    "rc_same (E + held i) (if_heap i) (if_heap j)"
    "at_string (str_huff s) (length (str_data s)) (valuercbuf j) (valuebuf j) j"
proof -
  obtain b tl where h: "str_head s = b # tl" "b AND push_bit 7 1 \<noteq> 0 \<longleftrightarrow> str_huff s" by (rule str_head_first)
  let ?n = "length (str_data s)"
  define k where "k = i\<lparr>huffman_encoded := str_huff s, if_state := STATE_READ_VALUELEN, if_left := 0, if_shift := 0\<rparr>"
  have ck: "inflate_check_len i (str_head s @ rest) STATE_READ_VALUELEN = Some k"
    using h by (simp add: inflate_check_len_def hd_inflate_set_huffman_encoded_def k_def)
  have k: "if_left k = 0" "if_shift k = 0" by (simp_all add: k_def)
  obtain shift where r: "hd_inflate_read_len k (str_head s @ rest) 7 NGHTTP2_HD_MAX_NV = Some (Inr (length (str_head s), True), k\<lparr>if_left := ?n, if_shift := shift\<rparr>)"
    by (rule read_len_str_head [OF len k])
  have c: "ctx_ok (if_ctx i) None (E + held i)" using ok by (simp add: ir_ok_def ir_owned_def)
  define sz where "sz = (if str_huff s then ?n * 2 else ?n)"
  show ?thesis
  proof (rule new_view [OF c, of sz])
    fix h assume "\<not> ir_reliable i"
    then show ?thesis using rel by simp
  next
    fix h a rc
    assume h: "nghttp2_rcbuf_new (if_heap i) (sz + 1) = (Inr (Rc_heap a), h)" "rc_get h (Rc_heap a) = Some rc"
      "dyn_table ((if_ctx i)\<lparr>ctx_heap := h\<rparr>) = dyn_table (if_ctx i)"
      "rc_view h (Some (Rc_heap a)) (nghttp2_buf_wrap_init (take (rc_len rc) (rc_base rc))) sz"
      "rc_same (E + held i) (if_heap i) h"
    let ?j = "(set_heap (if str_huff s
      then k\<lparr>if_left := ?n, if_shift := shift, if_huff_decode_ctx := nghttp2_hd_huff_decode_context_init, if_state := STATE_READ_VALUEHUFF\<rparr>
      else k\<lparr>if_left := ?n, if_shift := shift, if_state := STATE_READ_VALUE\<rparr>) h)
       \<lparr>valuercbuf := Some (Rc_heap a), valuebuf := nghttp2_buf_wrap_init (take (rc_len rc) (rc_base rc))\<rparr>"
    show ?thesis
    proof (rule that [of ?j])
      show "inflate_switch i (str_head s @ rest) = Some (Step_break ?j rest True)"
        using h(1,2) r by (cases "str_huff s") (simp_all add: inflate_switch_def ok(3) ck inflate_read_valuelen_def k_def sz_def)
      show "ir_same i ?j" using h(3) by (simp add: ir_same_def ir_table_def k_def)
      show "at_string (str_huff s) ?n (valuercbuf ?j) (valuebuf ?j) ?j" using h(4) by (cases "str_huff s") (simp_all add: at_string_def sz_def mult.commute)
    qed (use h(5) in \<open>simp_all add: k_def\<close>)
  qed
qed

text \<open>Reading the data of a string.\<close>

lemma read_str_data:
  assumes at: "at_string (str_huff s) (length (str_data s)) ptr buf j"
  obtains hc where "str_huff s \<longrightarrow> hd_inflate_read_huff j buf (str_data s @ rest) =
      (Inr (length (str_data s)), j\<lparr>if_huff_decode_ctx := hc, if_left := 0\<rparr>, buf_cpymem buf s)"
    "\<not> str_huff s \<longrightarrow> hd_inflate_read j buf (str_data s @ rest) = (length (str_data s), j\<lparr>if_left := 0\<rparr>, buf_cpymem buf s)"
    "length s \<le> (if str_huff s then 2 * length (str_data s) else length (str_data s))"
proof -
  have l: "if_left j = length (str_data s)" "str_huff s \<Longrightarrow> if_huff_decode_ctx j = nghttp2_hd_huff_decode_context_init"
    using at by (simp_all add: at_string_def)
  obtain hc where d: "nghttp2_hd_huff_decode nghttp2_hd_huff_decode_context_init buf (huff_bytes s) True =
     (Inr (length (huff_bytes s)), hc, buf_cpymem buf s)" "length s \<le> 2 * length (huff_bytes s)" by (rule huff_bytes_decode)
  show ?thesis
    by (rule that [of hc]) (use l d in \<open>simp_all add: hd_inflate_read_huff_def hd_inflate_read_def str_data_def Let_def\<close>)
qed

lemma exec_name_data:
  assumes own: "ir_owned j E" "ir_fresh j" "valuercbuf j = None" and at: "at_string (str_huff s) (length (str_data s)) (namercbuf j) (namebuf j) j"
    and st: "if_state j = (if str_huff s then STATE_NEWNAME_READ_NAMEHUFF else STATE_NEWNAME_READ_NAME)"
  obtains k p where "inflate_switch j (str_data s @ rest) = Some (Step_break k rest False)"
    "if_state k = STATE_CHECK_VALUELEN" "ir_same j k" "namercbuf k = Some p" "rc_bytes (if_heap k) p = s"
proof -
  obtain hc where r: "str_huff s \<longrightarrow> hd_inflate_read_huff j (namebuf j) (str_data s @ rest) =
      (Inr (length (str_data s)), j\<lparr>if_huff_decode_ctx := hc, if_left := 0\<rparr>, buf_cpymem (namebuf j) s)"
    "\<not> str_huff s \<longrightarrow> hd_inflate_read j (namebuf j) (str_data s @ rest) = (length (str_data s), j\<lparr>if_left := 0\<rparr>, buf_cpymem (namebuf j) s)"
    "length s \<le> (if str_huff s then 2 * length (str_data s) else length (str_data s))"
    by (rule read_str_data [OF at])
  have v: "rc_view (if_heap j) (namercbuf j) (namebuf j) (if str_huff s then 2 * length (str_data s) else length (str_data s))"
    and e: "buf_bytes (namebuf j) = []" using at by (simp_all add: at_string_def)
  have c: "ctx_ok (if_ctx j) None (E + opt_mset (namercbuf j))" using own by (simp add: ir_owned_def held_fresh)
  obtain h buf' a where h: "rc_finish (if_heap j) (namercbuf j) (buf_cpymem (namebuf j) s) = Some (h, buf')"
    "dyn_table ((if_ctx j)\<lparr>ctx_heap := h\<rparr>) = dyn_table (if_ctx j)" "namercbuf j = Some (Rc_heap a)" "rc_bytes h (Rc_heap a) = s"
    by (rule finish_ok [OF c v r(3)]) (use e in simp)
  define k0 where "k0 = (if str_huff s then j\<lparr>if_huff_decode_ctx := hc, if_left := 0\<rparr> else j\<lparr>if_left := 0\<rparr>)"
  let ?k = "(set_heap k0 h)\<lparr>namebuf := buf', if_state := STATE_CHECK_VALUELEN\<rparr>"
  show ?thesis
  proof (rule that [of ?k "Rc_heap a"])
    show "inflate_switch j (str_data s @ rest) = Some (Step_break ?k rest False)"
      using r(1,2) h(1) st by (cases "str_huff s")
        (simp_all add: inflate_switch_def inflate_read_namehuff_def inflate_read_name_def inflate_read_name_done_def k0_def set_heap_def)
    show "ir_same j ?k" using h(2) by (simp add: ir_same_def ir_table_def k0_def)
  qed (use h(3,4) in \<open>simp_all add: k0_def\<close>)
qed

definition ir_name :: "nghttp2_hd_inflater \<Rightarrow> u8 list" where
  "ir_name i = (if if_opcode i = OPCODE_NEWNAME then rc_bytes (if_heap i) (the (namercbuf i))
     else fst ((static_fields @ dyn_table (if_ctx i)) ! if_index i))"

lemma commit_ok:
  assumes i: "ir_owned i E" "ir_fresh i" "name_ready i" "\<not> (index_required i \<and> no_index i)" and v: "valuercbuf i = Some p"
  obtains r where "(if if_opcode i = OPCODE_NEWNAME then hd_inflate_commit_newname i else hd_inflate_commit_indname i) = Some r"
    "commit_post i E (ir_name i, rc_bytes (if_heap i) p) r"
proof (cases "if_opcode i = OPCODE_NEWNAME")
  case True
  then obtain name where nm: "namercbuf i = Some name" using i(3) by (auto simp: name_ready_def)
  show ?thesis by (rule commit_newname_ok [OF i(1,2) nm v i(4) refl]) (use True nm that in \<open>simp add: ir_name_def\<close>)
next
  case False
  then have nm: "namercbuf i = None" "if_index i < get_max_index (if_ctx i)" using i(3) by (auto simp: name_ready_def)
  show ?thesis by (rule commit_indname_ok [OF i(1,2) nm(1) v nm(2) i(4) refl]) (use False that in \<open>simp add: ir_name_def\<close>)
qed

lemma exec_value_data:
  assumes own: "ir_owned j E" "ir_fresh j" "name_ready j" "\<not> (index_required j \<and> no_index j)" and rel: "ir_reliable j"
    and at: "at_string (str_huff s) (length (str_data s)) (valuercbuf j) (valuebuf j) j"
    and st: "if_state j = (if str_huff s then STATE_READ_VALUEHUFF else STATE_READ_VALUE)"
  obtains k nv where "inflate_switch j (str_data s @ rest) = Some (Step_emit k rest nv)"
    "nv_bytes (if_heap k) nv = (ir_name j, s)" "hd_flags nv = nv_flag j" "ir_table k = commit_table (index_required j) (ir_name j, s) (ir_table j)"
    "if_min_hd_table_bufsize_max k = if_min_hd_table_bufsize_max j"
proof -
  obtain hc where r: "str_huff s \<longrightarrow> hd_inflate_read_huff j (valuebuf j) (str_data s @ rest) =
      (Inr (length (str_data s)), j\<lparr>if_huff_decode_ctx := hc, if_left := 0\<rparr>, buf_cpymem (valuebuf j) s)"
    "\<not> str_huff s \<longrightarrow> hd_inflate_read j (valuebuf j) (str_data s @ rest) = (length (str_data s), j\<lparr>if_left := 0\<rparr>, buf_cpymem (valuebuf j) s)"
    "length s \<le> (if str_huff s then 2 * length (str_data s) else length (str_data s))"
    by (rule read_str_data [OF at])
  have v: "rc_view (if_heap j) (valuercbuf j) (valuebuf j) (if str_huff s then 2 * length (str_data s) else length (str_data s))"
    and e: "buf_bytes (valuebuf j) = []" using at by (simp_all add: at_string_def)
  have c: "ctx_ok (if_ctx j) None (E + opt_mset (namercbuf j) + opt_mset (valuercbuf j))" using own by (simp add: ir_owned_def held_fresh add.assoc)
  obtain h buf' a where h: "rc_finish (if_heap j) (valuercbuf j) (buf_cpymem (valuebuf j) s) = Some (h, buf')"
    "ctx_ok ((if_ctx j)\<lparr>ctx_heap := h\<rparr>) None (E + opt_mset (namercbuf j) + opt_mset (valuercbuf j))"
    "dyn_table ((if_ctx j)\<lparr>ctx_heap := h\<rparr>) = dyn_table (if_ctx j)" "rc_same (E + opt_mset (namercbuf j) + ctx_refs (if_ctx j)) (if_heap j) h"
    "rc_mem h = rc_mem (if_heap j)" "valuercbuf j = Some (Rc_heap a)" "rc_bytes h (Rc_heap a) = s"
    by (rule finish_ok [OF c v r(3)]) (use e in simp)
  define k0 where "k0 = (set_heap (if str_huff s then j\<lparr>if_huff_decode_ctx := hc, if_left := 0\<rparr> else j\<lparr>if_left := 0\<rparr>) h)\<lparr>valuebuf := buf'\<rparr>"
  have k0: "ir_owned k0 E" "ir_fresh k0" "name_ready k0" "\<not> (index_required k0 \<and> no_index k0)" "valuercbuf k0 = Some (Rc_heap a)" "ir_reliable k0"
    "ir_table k0 = ir_table j" "nv_flag k0 = nv_flag j" "index_required k0 = index_required j" "rc_bytes (if_heap k0) (Rc_heap a) = s"
    "if_min_hd_table_bufsize_max k0 = if_min_hd_table_bufsize_max j" "if_opcode k0 = if_opcode j"
    using own rel h(2,3,5,6,7) by (auto simp: k0_def ir_owned_def held_def ir_fresh_def name_ready_def get_max_index_def ir_table_def nv_flag_def add.assoc)
  have nm: "ir_name k0 = ir_name j"
  proof (cases "if_opcode j = OPCODE_NEWNAME")
    case True
    then obtain p where p: "namercbuf j = Some p" using own(3) by (auto simp: name_ready_def)
    have "rc_live (E + opt_mset (namercbuf j) + ctx_refs (if_ctx j)) p"
      by (rule rc_ok_sub_live [OF ctx_ok_live [OF c]]) (simp_all add: p)
    then show ?thesis using True p rc_same_live [OF h(4)] by (simp add: ir_name_def k0_def)
  qed (use h(3) in \<open>simp add: ir_name_def k0_def\<close>)
  obtain q where q: "(if if_opcode k0 = OPCODE_NEWNAME then hd_inflate_commit_newname k0 else hd_inflate_commit_indname k0) = Some q"
    "commit_post k0 E (ir_name j, s) q"
    by (rule commit_ok [OF k0(1-5)]) (use k0(10) nm in simp)
  obtain q1 k where qq: "q = (q1, k)" by (cases q)
  have "q1 \<noteq> Inl er" for er using q(2) k0(6) by (auto simp: commit_post_def qq)
  then obtain nv where nv: "q1 = Inr nv" by (cases q1) auto
  have "inflate_switch j (str_data s @ rest) = (do {
        (r, ir) \<leftarrow> (if if_opcode k0 = OPCODE_NEWNAME then hd_inflate_commit_newname k0 else hd_inflate_commit_indname k0);
        case r of
          Inl e \<Rightarrow> Some (Step_fail ir e)
        | Inr nv \<Rightarrow> Some (Step_emit (ir\<lparr>if_state := STATE_OPCODE\<rparr>) rest nv) })"
    using r(1,2) h(1) st by (cases "str_huff s")
        (simp_all add: inflate_switch_def inflate_read_valuehuff_def inflate_read_value_def inflate_read_value_done_def k0_def set_heap_def
          cong del: sum.case_cong_weak)
  also have "\<dots> = Some (Step_emit (k\<lparr>if_state := STATE_OPCODE\<rparr>) rest nv)"
    by (simp only: q(1) qq nv bind.bind_lunit prod.case sum.case)
  finally show ?thesis
    by (rule that) (use q(2) k0 in \<open>simp_all add: commit_post_def qq nv ir_table_def\<close>)
qed

lemma exec_value:
  assumes ok: "ir_ok i E" "ir_fresh i" "if_state i = STATE_CHECK_VALUELEN" and rel: "ir_reliable i" and len: "length s \<le> NGHTTP2_HD_MAX_NV"
  obtains k nv where "inflate_loop i (string_bytes s @ rest) False = Some (Step_emit k rest nv)"
    "nv_bytes (if_heap k) nv = (ir_name i, s)" "hd_flags nv = nv_flag i" "ir_table k = commit_table (index_required i) (ir_name i, s) (ir_table i)"
    "if_min_hd_table_bufsize_max k = if_min_hd_table_bufsize_max i"
proof -
  obtain j where j: "inflate_switch i (str_head s @ str_data s @ rest) = Some (Step_break j (str_data s @ rest) True)"
    "if_state j = (if str_huff s then STATE_READ_VALUEHUFF else STATE_READ_VALUE)" "ir_same i j" "namercbuf j = namercbuf i"
    "rc_same (E + held i) (if_heap i) (if_heap j)"
    "at_string (str_huff s) (length (str_data s)) (valuercbuf j) (valuebuf j) j"
    by (rule exec_valuelen [OF ok rel len])
  have ne: "str_head s @ str_data s @ rest \<noteq> []" by (rule str_head_first [of s]) simp
  note b = break_post [OF j(1) ok(1,2) ne]
  have own: "ir_owned j E" "name_ready j" "\<not> (index_required j \<and> no_index j)"
    using b(1) j(2) by (auto simp: ir_ok_def split: if_splits)
  have rel': "ir_reliable j" using ir_kept_reliable [OF b(3)] rel by blast
  have nm: "ir_name j = ir_name i"
  proof (cases "if_opcode i = OPCODE_NEWNAME")
    case True
    have "name_ready i" using ok by (simp add: ir_ok_def)
    then obtain p where p: "namercbuf i = Some p" using True by (auto simp: name_ready_def)
    have c: "ctx_ok (if_ctx i) None (E + held i)" using ok by (simp add: ir_ok_def ir_owned_def)
    have "p \<in># E + held i" by (simp add: held_def p)
    then have "rc_live (E + held i) p" by (intro rc_ok_sub_live [OF ctx_ok_live [OF c]]) simp_all
    then show ?thesis using True p j(3,4) rc_same_live [OF j(5)] by (simp add: ir_name_def ir_same_def)
  qed (use j(3) in \<open>simp add: ir_name_def ir_same_def ir_table_def\<close>)
  obtain k nv where k: "inflate_switch j (str_data s @ rest) = Some (Step_emit k rest nv)"
    "nv_bytes (if_heap k) nv = (ir_name j, s)" "hd_flags nv = nv_flag j" "ir_table k = commit_table (index_required j) (ir_name j, s) (ir_table j)"
    "if_min_hd_table_bufsize_max k = if_min_hd_table_bufsize_max j"
    by (rule exec_value_data [OF own(1) b(2) own(2,3) rel' j(6,2)])
  have "inflate_loop i (string_bytes s @ rest) False = inflate_loop j (str_data s @ rest) True"
    using loop_break [OF _ j(1), of False] ne by (simp add: string_bytes_parts)
  also have "\<dots> = Some (Step_emit k rest nv)" by (rule loop_emit [OF _ k(1)]) simp
  finally show ?thesis by (rule that) (use k(2-5) nm j(3) in \<open>simp_all add: ir_same_def nv_flag_def\<close>)
qed

lemma exec_name:
  assumes ok: "ir_ok i E" "ir_fresh i" "if_state i = STATE_NEWNAME_CHECK_NAMELEN" and rel: "ir_reliable i" and len: "length s \<le> NGHTTP2_HD_MAX_NV"
    and rest: "rest \<noteq> []"
  obtains k where "inflate_loop i (string_bytes s @ rest) False = inflate_loop k rest False" "ir_ok k E" "ir_fresh k" "ir_reliable k"
    "if_state k = STATE_CHECK_VALUELEN" "ir_same i k" "ir_name k = s"
proof -
  obtain j where j: "inflate_switch i (str_head s @ str_data s @ rest) = Some (Step_break j (str_data s @ rest) False)"
    "if_state j = (if str_huff s then STATE_NEWNAME_READ_NAMEHUFF else STATE_NEWNAME_READ_NAME)" "ir_same i j"
    "at_string (str_huff s) (length (str_data s)) (namercbuf j) (namebuf j) j"
    by (rule exec_namelen [OF ok rel len])
  have ne: "str_head s @ str_data s @ rest \<noteq> []" "str_data s @ rest \<noteq> []" using rest by auto
  note b = break_post [OF j(1) ok(1,2) ne(1)]
  have own: "ir_owned j E" "valuercbuf j = None" "if_opcode j = OPCODE_NEWNAME"
    using b(1) j(2) by (auto simp: ir_ok_def split: if_splits)
  obtain k p where k: "inflate_switch j (str_data s @ rest) = Some (Step_break k rest False)"
    "if_state k = STATE_CHECK_VALUELEN" "ir_same j k" "namercbuf k = Some p" "rc_bytes (if_heap k) p = s"
    by (rule exec_name_data [OF own(1) b(2) own(2) j(4,2)])
  note c = break_post [OF k(1) b(1,2) ne(2)]
  have "inflate_loop i (string_bytes s @ rest) False = inflate_loop j (str_data s @ rest) False"
    using loop_break [OF _ j(1), of False] ne by (simp add: string_bytes_parts)
  also have "\<dots> = inflate_loop k rest False" using loop_break [OF _ k(1), of False] ne by simp
  finally have l: "inflate_loop i (string_bytes s @ rest) False = inflate_loop k rest False" .
  have rel': "ir_reliable k" using ir_kept_reliable [OF c(3)] ir_kept_reliable [OF b(3)] rel by blast
  show ?thesis
    by (rule that [OF l c(1,2) rel' k(2) ir_same_trans [OF j(3) k(3)]]) (use k(3-5) own(3) in \<open>simp add: ir_name_def ir_same_def\<close>)
qed

text \<open>The first pass over a representation.\<close>

definition at_field :: "nghttp2_hd_inflater \<Rightarrow> rcptr multiset \<Rightarrow> bool" where
  "at_field i E \<longleftrightarrow> ir_ok i E \<and> ir_fresh i \<and> ir_reliable i \<and> (if_state i = STATE_OPCODE \<or> if_state i = STATE_INFLATE_START)"

lemma opcode_break:
  assumes at: "at_field i E" and sw: "inflate_opcode i bs = Some (Step_break j rest False)" and ne: "bs \<noteq> []"
  shows "inflate_loop i bs False = inflate_loop j rest False" "ir_ok j E" "ir_fresh j" "ir_reliable j"
proof -
  have s: "inflate_switch i bs = Some (Step_break j rest False)" using at sw by (auto simp: inflate_switch_def at_field_def)
  have o: "ir_ok i E" "ir_fresh i" "ir_reliable i" using at by (simp_all add: at_field_def)
  note b = break_post [OF s o(1,2) ne]
  show "inflate_loop i bs False = inflate_loop j rest False" using loop_break [OF _ s] ne by simp
  show "ir_ok j E" "ir_fresh j" "ir_reliable j" using b ir_kept_reliable [OF b(3)] o(3) by simp_all
qed

lemma u8_masks: "NOT (mask 7) = (0x80 :: u8)" "NOT (mask 6) = (0xc0 :: u8)" "NOT (mask 5) = (0xe0 :: u8)" "NOT (mask 4) = (0xf0 :: u8)"
  "mask 6 = (0x3f :: u8)" "mask 4 = (0xf :: u8)"
  by (simp_all add: mask_eq_exp_minus_1)

lemma and_trans: "(x :: u8) AND y = c \<Longrightarrow> y AND z = z \<Longrightarrow> x AND z = c AND z"
  by (metis and.assoc)

lemma opcode_indexed:
  assumes "at_field i E"
  shows "inflate_opcode i (int_bytes 0x80 (n + 1) 7 @ rest) = Some (Step_break
     (i\<lparr>if_opcode := OPCODE_INDEXED, if_state := STATE_READ_INDEX, if_left := 0, if_shift := 0\<rparr>) (int_bytes 0x80 (n + 1) 7 @ rest) False)"
proof (rule int_bytes_first [of 7 "0x80" "n + 1"])
  fix fb tl
  assume f: "int_bytes 0x80 (n + 1) 7 = fb # tl" "fb AND NOT (mask 7) = 0x80 AND NOT (mask 7)"
  then have f2: "fb AND 0x80 = 0x80" by (simp add: u8_masks)
  then have f3: "fb AND 0xe0 \<noteq> 0x20" using and_trans [of fb "0xe0" "0x20" "0x80"] by auto
  show ?thesis unfolding f(1) using assms f2 f3 by (auto simp: inflate_opcode_def at_field_def)
qed simp_all

lemma opcode_indname:
  fixes mode :: nghttp2_hd_indexing_mode
  assumes "at_field i E"
  defines "p \<equiv> if mode = HD_WITH_INDEXING then 6 else 4 :: nat"
  shows "inflate_opcode i (int_bytes (pack_first_byte mode) (n + 1) p @ rest) = Some (Step_break
     (i\<lparr>index_required := (mode = HD_WITH_INDEXING), no_index := (mode = HD_NEVER_INDEXING), if_left := 0, if_shift := 0,
       if_opcode := OPCODE_INDNAME, if_state := STATE_READ_INDEX\<rparr>) (int_bytes (pack_first_byte mode) (n + 1) p @ rest) False)"
proof (rule int_bytes_first [of p "pack_first_byte mode" "n + 1"])
  fix fb tl
  assume f: "int_bytes (pack_first_byte mode) (n + 1) p = fb # tl" "fb AND NOT (mask p) = pack_first_byte mode AND NOT (mask p)"
    "fb AND mask p = 0 \<longleftrightarrow> n + 1 = 0"
  have nz: "fb AND mask p \<noteq> 0" using f(3) by simp
  have bits: "fb AND 0xe0 \<noteq> 0x20 \<and> fb AND 0x80 = 0 \<and> (fb AND 0x40 \<noteq> 0 \<longleftrightarrow> mode = HD_WITH_INDEXING) \<and>
     (fb AND 0xf0 = 0x10 \<longleftrightarrow> mode = HD_NEVER_INDEXING) \<and> fb \<noteq> 0x40 \<and> fb \<noteq> 0 \<and> fb \<noteq> 0x10"
  proof (cases mode)
    case HD_WITH_INDEXING
    then have c: "fb AND 0xc0 = 0x40" using f(2) by (simp add: p_def u8_masks(1-4))
    have c2: "fb AND 0x3f \<noteq> 0" using nz HD_WITH_INDEXING by (simp add: p_def u8_masks(5-6))
    with c show ?thesis
      using HD_WITH_INDEXING and_trans [of fb "0xe0" "0x20" "0xc0"] and_trans [OF c(1), of "0x80"] and_trans [OF c(1), of "0x40"]
        and_trans [of fb "0xf0" "0x10" "0xc0"] by auto
  next
    case HD_WITHOUT_INDEXING
    then have c: "fb AND 0xf0 = 0" using f(2) by (simp add: p_def u8_masks(1-4))
    have c2: "fb AND 0xf \<noteq> 0" using nz HD_WITHOUT_INDEXING by (simp add: p_def u8_masks(5-6))
    with c show ?thesis
      using HD_WITHOUT_INDEXING and_trans [OF c(1), of "0xe0"] and_trans [OF c(1), of "0x80"] and_trans [OF c(1), of "0x40"] by auto
  next
    case HD_NEVER_INDEXING
    then have c: "fb AND 0xf0 = 0x10" using f(2) by (simp add: p_def u8_masks(1-4))
    have c2: "fb AND 0xf \<noteq> 0" using nz HD_NEVER_INDEXING by (simp add: p_def u8_masks(5-6))
    with c show ?thesis
      using HD_NEVER_INDEXING and_trans [OF c(1), of "0xe0"] and_trans [OF c(1), of "0x80"] and_trans [OF c(1), of "0x40"] by auto
  qed
  show ?thesis unfolding f(1) using assms(1) bits by (auto simp: inflate_opcode_def at_field_def Let_def)
qed (simp_all add: p_def)

lemma opcode_newname:
  assumes "at_field i E"
  shows "inflate_opcode i (pack_first_byte mode # rest) = Some (Step_break
     (i\<lparr>index_required := (mode = HD_WITH_INDEXING), no_index := (mode = HD_NEVER_INDEXING), if_left := 0, if_shift := 0,
       if_opcode := OPCODE_NEWNAME, if_state := STATE_NEWNAME_CHECK_NAMELEN\<rparr>) rest False)"
  using assms by (cases mode) (auto simp: inflate_opcode_def at_field_def)

definition index_prefix :: "nghttp2_hd_inflater \<Rightarrow> nat" where
  "index_prefix i = (if if_opcode i = OPCODE_INDEXED then 7 else if index_required i then 6 else 4)"

lemma exec_read_index:
  assumes ok: "ir_ok i E" and st: "if_state i = STATE_READ_INDEX" "if_left i = 0" "if_shift i = 0"
    and n: "n < length (static_fields @ dyn_table (if_ctx i))" and pr: "index_prefix i = p"
  obtains shift nv where "inflate_switch i (int_bytes b (n + 1) p @ rest) =
     Some (if if_opcode i = OPCODE_INDEXED then Step_emit (i\<lparr>if_left := n + 1, if_shift := shift, if_index := n, if_state := STATE_OPCODE\<rparr>) rest nv
       else Step_break (i\<lparr>if_left := n + 1, if_shift := shift, if_index := n, if_state := STATE_CHECK_VALUELEN\<rparr>) rest False)"
    "nv_bytes (if_heap i) nv = (static_fields @ dyn_table (if_ctx i)) ! n" "hd_flags nv = NGHTTP2_NV_FLAG_NONE"
proof -
  have c: "ctx_ok (if_ctx i) None (E + held i)" using ok by (simp add: ir_ok_def ir_owned_def)
  have sf: "length static_fields = NGHTTP2_STATIC_TABLE_LENGTH" by (simp add: static_fields_def)
  have n': "n < NGHTTP2_STATIC_TABLE_LENGTH + length (dyn_table (if_ctx i))" using n sf by simp
  have b: "n + 1 \<le> get_max_index (if_ctx i)" using n' ctx_ok_max_index [OF c] by simp
  have b2: "n + 1 < 2 ^ 32" using n' ctx_okD(5) [OF c] by (simp add: NGHTTP2_STATIC_TABLE_LENGTH_def)
  have p: "0 < p" "p \<le> 8" by (simp_all add: index_prefix_def pr [symmetric])
  obtain shift where r: "hd_inflate_read_len i (int_bytes b (n + 1) p @ rest) p (get_max_index (if_ctx i)) =
      Some (Inr (length (int_bytes b (n + 1) p), True), i\<lparr>if_left := n + 1, if_shift := shift\<rparr>)"
    by (rule read_len_int_bytes [OF p b2 b st(2,3)])
  obtain nv where nv: "nghttp2_hd_table_get (if_ctx i) n = Some nv" "nv_bytes (if_heap i) nv = (static_fields @ dyn_table (if_ctx i)) ! n"
    "hd_flags nv = NGHTTP2_NV_FLAG_NONE"
    by (rule hd_table_get_ok [OF c n']) (use that in \<open>simp add: nv_bytes_def\<close>)
  show ?thesis
  proof (rule that [OF _ nv(2,3)])
    show "inflate_switch i (int_bytes b (n + 1) p @ rest) =
     Some (if if_opcode i = OPCODE_INDEXED then Step_emit (i\<lparr>if_left := n + 1, if_shift := shift, if_index := n, if_state := STATE_OPCODE\<rparr>) rest nv
       else Step_break (i\<lparr>if_left := n + 1, if_shift := shift, if_index := n, if_state := STATE_CHECK_VALUELEN\<rparr>) rest False)"
      by (simp only: inflate_switch_def st(1) nghttp2_hd_inflate_state.case inflate_read_index_def index_prefix_def [symmetric] pr Let_def r bind.bind_lunit)
         (simp add: hd_inflate_commit_indexed_def emit_header_def nv(1))
  qed
qed

fun rep_short :: "hp_rep \<Rightarrow> bool" where
  "rep_short (Rep_indname _ _ v) \<longleftrightarrow> length v \<le> NGHTTP2_HD_MAX_NV"
| "rep_short (Rep_newname _ n v) \<longleftrightarrow> length n \<le> NGHTTP2_HD_MAX_NV \<and> length v \<le> NGHTTP2_HD_MAX_NV"
| "rep_short _ \<longleftrightarrow> True"

lemma string_bytes_ne [simp]: "string_bytes s \<noteq> []"
  by (rule str_head_first [of s]) (simp add: string_bytes_parts)

lemma int_bytes_ne [simp]: "int_bytes b n p \<noteq> []"
  by (simp add: int_bytes_def Let_def)

definition flag_of :: "bool \<Rightarrow> u8" where
  "flag_of never = (if never then NGHTTP2_NV_FLAG_NO_INDEX else NGHTTP2_NV_FLAG_NONE)"

text \<open>Inflating one representation of a field emits the field and updates the table as the specification says.\<close>

lemma exec_indexed:
  assumes at: "at_field i E" and n: "n < length (static_fields @ dyn_table (if_ctx i))"
  obtains k nv where "inflate_loop i (rep_bytes (Rep_indexed n) @ rest) False = Some (Step_emit k rest nv)"
    "nv_bytes (if_heap k) nv = (static_fields @ dyn_table (if_ctx i)) ! n" "hd_flags nv = NGHTTP2_NV_FLAG_NONE" "ir_table k = ir_table i"
    "if_min_hd_table_bufsize_max k = if_min_hd_table_bufsize_max i"
proof -
  define j where "j = i\<lparr>if_opcode := OPCODE_INDEXED, if_state := STATE_READ_INDEX, if_left := 0, if_shift := 0\<rparr>"
  let ?bs = "int_bytes 0x80 (n + 1) 7 @ rest"
  have ne: "?bs \<noteq> []" by simp
  note b = opcode_break [OF at opcode_indexed [OF at, of n rest] ne, folded j_def]
  have j: "if_state j = STATE_READ_INDEX" "if_left j = 0" "if_shift j = 0" "n < length (static_fields @ dyn_table (if_ctx j))" "index_prefix j = 7"
    "if_opcode j = OPCODE_INDEXED"
    using n by (simp_all add: j_def index_prefix_def)
  obtain shift nv where k: "inflate_switch j (int_bytes 0x80 (n + 1) 7 @ rest) =
     Some (if if_opcode j = OPCODE_INDEXED then Step_emit (j\<lparr>if_left := n + 1, if_shift := shift, if_index := n, if_state := STATE_OPCODE\<rparr>) rest nv
       else Step_break (j\<lparr>if_left := n + 1, if_shift := shift, if_index := n, if_state := STATE_CHECK_VALUELEN\<rparr>) rest False)"
    "nv_bytes (if_heap j) nv = (static_fields @ dyn_table (if_ctx j)) ! n" "hd_flags nv = NGHTTP2_NV_FLAG_NONE"
    by (rule exec_read_index [OF b(2) j(1-5)])
  have sw: "inflate_switch j ?bs = Some (Step_emit (j\<lparr>if_left := n + 1, if_shift := shift, if_index := n, if_state := STATE_OPCODE\<rparr>) rest nv)"
    unfolding k(1) j(6) by simp
  have "inflate_loop i ?bs False = inflate_loop j ?bs False" using b(1) by simp
  also have "\<dots> = Some (Step_emit (j\<lparr>if_left := n + 1, if_shift := shift, if_index := n, if_state := STATE_OPCODE\<rparr>) rest nv)"
    by (rule loop_emit [OF _ sw]) simp
  finally have l: "inflate_loop i (rep_bytes (Rep_indexed n) @ rest) False =
     Some (Step_emit (j\<lparr>if_left := n + 1, if_shift := shift, if_index := n, if_state := STATE_OPCODE\<rparr>) rest nv)" by simp
  show ?thesis by (rule that [OF l _ k(3)]) (use k(2) in \<open>simp_all add: j_def ir_table_def\<close>)
qed

lemma exec_indname:
  assumes at: "at_field i E" and n: "n < length (static_fields @ dyn_table (if_ctx i))" and len: "length v \<le> NGHTTP2_HD_MAX_NV"
  obtains k nv where "inflate_loop i (rep_bytes (Rep_indname mode n v) @ rest) False = Some (Step_emit k rest nv)"
    "nv_bytes (if_heap k) nv = (fst ((static_fields @ dyn_table (if_ctx i)) ! n), v)" "hd_flags nv = flag_of (mode = HD_NEVER_INDEXING)"
    "ir_table k = commit_table (mode = HD_WITH_INDEXING) (fst ((static_fields @ dyn_table (if_ctx i)) ! n), v) (ir_table i)"
    "if_min_hd_table_bufsize_max k = if_min_hd_table_bufsize_max i"
proof -
  define p where "p = (if mode = HD_WITH_INDEXING then 6 else 4 :: nat)"
  define j where "j = i\<lparr>index_required := (mode = HD_WITH_INDEXING), no_index := (mode = HD_NEVER_INDEXING), if_left := 0, if_shift := 0,
       if_opcode := OPCODE_INDNAME, if_state := STATE_READ_INDEX\<rparr>"
  let ?bs = "int_bytes (pack_first_byte mode) (n + 1) p @ string_bytes v @ rest"
  have ne: "?bs \<noteq> []" by simp
  note b = opcode_break [OF at opcode_indname [OF at, of mode n "string_bytes v @ rest", folded p_def j_def] ne]
  have j: "if_state j = STATE_READ_INDEX" "if_left j = 0" "if_shift j = 0" "n < length (static_fields @ dyn_table (if_ctx j))" "index_prefix j = p"
    "if_opcode j = OPCODE_INDNAME"
    using n by (simp_all add: j_def index_prefix_def p_def)
  obtain shift nv where sw0: "inflate_switch j ?bs =
     Some (if if_opcode j = OPCODE_INDEXED then Step_emit (j\<lparr>if_left := n + 1, if_shift := shift, if_index := n, if_state := STATE_OPCODE\<rparr>) (string_bytes v @ rest) nv
       else Step_break (j\<lparr>if_left := n + 1, if_shift := shift, if_index := n, if_state := STATE_CHECK_VALUELEN\<rparr>) (string_bytes v @ rest) False)"
    by (rule exec_read_index [OF b(2) j(1-5)])
  define k where "k = j\<lparr>if_left := n + 1, if_shift := shift, if_index := n, if_state := STATE_CHECK_VALUELEN\<rparr>"
  have sw: "inflate_switch j ?bs = Some (Step_break k (string_bytes v @ rest) False)" unfolding sw0 j(6) k_def by simp
  note c = break_post [OF sw b(2,3) ne]
  have rel: "ir_reliable k" using ir_kept_reliable [OF c(3)] b(4) by simp
  have st: "if_state k = STATE_CHECK_VALUELEN" by (simp add: k_def)
  obtain m nv where m: "inflate_loop k (string_bytes v @ rest) False = Some (Step_emit m rest nv)"
    "nv_bytes (if_heap m) nv = (ir_name k, v)" "hd_flags nv = nv_flag k" "ir_table m = commit_table (index_required k) (ir_name k, v) (ir_table k)"
    "if_min_hd_table_bufsize_max m = if_min_hd_table_bufsize_max k"
    by (rule exec_value [OF c(1,2) st rel len])
  have nm: "ir_name k = fst ((static_fields @ dyn_table (if_ctx i)) ! n)" by (simp add: ir_name_def k_def j_def)
  have "inflate_loop i ?bs False = inflate_loop j ?bs False" using b(1) by simp
  also have "\<dots> = inflate_loop k (string_bytes v @ rest) False" by (rule loop_break [OF _ sw]) simp
  also have "\<dots> = Some (Step_emit m rest nv)" by (rule m(1))
  finally have l: "inflate_loop i ?bs False = Some (Step_emit m rest nv)" .
  show ?thesis
  proof (rule that [of m nv])
    show "inflate_loop i (rep_bytes (Rep_indname mode n v) @ rest) False = Some (Step_emit m rest nv)" using l by (simp add: p_def)
  qed (use m(2-5) nm in \<open>simp_all add: nv_flag_def flag_of_def k_def j_def ir_table_def\<close>)
qed

lemma exec_newname:
  assumes at: "at_field i E" and len: "length n \<le> NGHTTP2_HD_MAX_NV" "length v \<le> NGHTTP2_HD_MAX_NV"
  obtains k nv where "inflate_loop i (rep_bytes (Rep_newname mode n v) @ rest) False = Some (Step_emit k rest nv)"
    "nv_bytes (if_heap k) nv = (n, v)" "hd_flags nv = flag_of (mode = HD_NEVER_INDEXING)"
    "ir_table k = commit_table (mode = HD_WITH_INDEXING) (n, v) (ir_table i)"
    "if_min_hd_table_bufsize_max k = if_min_hd_table_bufsize_max i"
proof -
  define j where "j = i\<lparr>index_required := (mode = HD_WITH_INDEXING), no_index := (mode = HD_NEVER_INDEXING), if_left := 0, if_shift := 0,
       if_opcode := OPCODE_NEWNAME, if_state := STATE_NEWNAME_CHECK_NAMELEN\<rparr>"
  let ?bs = "string_bytes n @ string_bytes v @ rest"
  note b = opcode_break [OF at opcode_newname [OF at, of mode ?bs], folded j_def]
  have ne: "pack_first_byte mode # ?bs \<noteq> []" by simp
  note b' = b [OF ne]
  have st: "if_state j = STATE_NEWNAME_CHECK_NAMELEN" "string_bytes v @ rest \<noteq> []" by (simp_all add: j_def)
  obtain k where k: "inflate_loop j ?bs False = inflate_loop k (string_bytes v @ rest) False" "ir_ok k E" "ir_fresh k" "ir_reliable k"
    "if_state k = STATE_CHECK_VALUELEN" "ir_same j k" "ir_name k = n"
    by (rule exec_name [OF b'(2,3) st(1) b'(4) len(1) st(2)])
  obtain m nv where m: "inflate_loop k (string_bytes v @ rest) False = Some (Step_emit m rest nv)"
    "nv_bytes (if_heap m) nv = (ir_name k, v)" "hd_flags nv = nv_flag k" "ir_table m = commit_table (index_required k) (ir_name k, v) (ir_table k)"
    "if_min_hd_table_bufsize_max m = if_min_hd_table_bufsize_max k"
    by (rule exec_value [OF k(2,3,5,4) len(2)])
  have "inflate_loop i (pack_first_byte mode # ?bs) False = Some (Step_emit m rest nv)" using b'(1) k(1) m(1) by simp
  then have l: "inflate_loop i (rep_bytes (Rep_newname mode n v) @ rest) False = Some (Step_emit m rest nv)" by simp
  show ?thesis by (rule that [OF l]) (use m(2-5) k(6,7) in \<open>simp_all add: nv_flag_def flag_of_def j_def ir_same_def ir_table_def\<close>)
qed

lemma rep_literal_commit: "rep_literal mode f s = (commit_table (mode = HD_WITH_INDEXING) f s, Some (f, mode = HD_NEVER_INDEXING))"
  by (simp add: rep_literal_def commit_table_def split_beta)

lemma exec_field:
  assumes at: "at_field i E" and short: "rep_short r" and ap: "rep_apply r (ir_table i) = Some (s', Some (f, never))"
  obtains k nv where "inflate_loop i (rep_bytes r @ rest) False = Some (Step_emit k rest nv)"
    "nv_bytes (if_heap k) nv = f" "hd_flags nv = flag_of never" "ir_table k = s'"
    "if_min_hd_table_bufsize_max k = if_min_hd_table_bufsize_max i"
proof (cases r)
  case (Rep_size n)
  then show ?thesis using ap by (simp add: ir_table_def)
next
  case (Rep_indexed n)
  then have n: "n < length (static_fields @ dyn_table (if_ctx i))" using ap by (simp add: ir_table_def split: if_splits)
  obtain k nv where "inflate_loop i (rep_bytes (Rep_indexed n) @ rest) False = Some (Step_emit k rest nv)"
    "nv_bytes (if_heap k) nv = (static_fields @ dyn_table (if_ctx i)) ! n" "hd_flags nv = NGHTTP2_NV_FLAG_NONE" "ir_table k = ir_table i"
    "if_min_hd_table_bufsize_max k = if_min_hd_table_bufsize_max i"
    by (rule exec_indexed [OF at n])
  then show ?thesis using that [of k nv] ap n Rep_indexed by (simp add: ir_table_def flag_of_def)
next
  case (Rep_indname mode n v)
  then have n: "n < length (static_fields @ dyn_table (if_ctx i))" "length v \<le> NGHTTP2_HD_MAX_NV"
    using ap short by (simp_all add: ir_table_def split: if_splits)
  let ?f = "(fst ((static_fields @ dyn_table (if_ctx i)) ! n), v)"
  obtain k nv where "inflate_loop i (rep_bytes (Rep_indname mode n v) @ rest) False = Some (Step_emit k rest nv)"
    "nv_bytes (if_heap k) nv = ?f" "hd_flags nv = flag_of (mode = HD_NEVER_INDEXING)" "ir_table k = commit_table (mode = HD_WITH_INDEXING) ?f (ir_table i)"
    "if_min_hd_table_bufsize_max k = if_min_hd_table_bufsize_max i"
    by (rule exec_indname [OF at n])
  then show ?thesis using that [of k nv] ap n Rep_indname by (auto simp: ir_table_def rep_literal_commit)
next
  case (Rep_newname mode n v)
  then have l: "length n \<le> NGHTTP2_HD_MAX_NV" "length v \<le> NGHTTP2_HD_MAX_NV" using short by simp_all
  obtain k nv where "inflate_loop i (rep_bytes (Rep_newname mode n v) @ rest) False = Some (Step_emit k rest nv)"
    "nv_bytes (if_heap k) nv = (n, v)" "hd_flags nv = flag_of (mode = HD_NEVER_INDEXING)" "ir_table k = commit_table (mode = HD_WITH_INDEXING) (n, v) (ir_table i)"
    "if_min_hd_table_bufsize_max k = if_min_hd_table_bufsize_max i"
    by (rule exec_newname [OF at l])
  then show ?thesis using that [of k nv] ap Rep_newname by (auto simp: ir_table_def rep_literal_commit)
qed

section \<open>Whole header blocks\<close>

text \<open>
  The caller's loop over the bytes of a header block: \<^verbatim>\<open>nghttp2_hd_inflate_hd2\<close> is called until it stops
  emitting fields, and \<^verbatim>\<open>nghttp2_hd_inflate_end_headers\<close> after the final flag.  The result: the error if any, the
  emitted fields and the inflater.
\<close>

partial_function (option) inflate_fields ::
  "nghttp2_hd_inflater \<Rightarrow> u8 list \<Rightarrow> bool \<Rightarrow> nghttp2_nv list \<Rightarrow> ((nghttp2_error + unit) \<times> nghttp2_nv list \<times> nghttp2_hd_inflater) option" where
  "inflate_fields ir bs in_final acc = do {
     (rv, flags, nv, ir) \<leftarrow> nghttp2_hd_inflate_hd2 ir 0 bs in_final;
     (case rv of
       Inl e \<Rightarrow> Some (Inl e, acc, ir)
     | Inr n \<Rightarrow>
         (case nv of
            Some f \<Rightarrow> inflate_fields ir (drop n bs) in_final (acc @ [f])
          | None \<Rightarrow>
              if flags AND NGHTTP2_HD_INFLATE_FINAL \<noteq> 0
              then map_option (\<lambda>ir. (Inr (), acc, ir)) (nghttp2_hd_inflate_end_headers ir)
              else Some (Inr (), acc, ir))) }"

definition out_nv :: "field \<times> bool \<Rightarrow> nghttp2_nv" where
  "out_nv f = \<lparr>nv_name = fst (fst f), nv_value = snd (fst f), nv_flags = flag_of (snd f)\<rparr>"

text \<open>The announced table sizes.\<close>

lemma opcode_size:
  assumes "if_state i = STATE_INFLATE_START \<or> if_state i = STATE_EXPECT_TABLE_SIZE"
  shows "inflate_opcode i (int_bytes 0x20 n 5 @ rest) = Some (Step_break
     (i\<lparr>if_opcode := OPCODE_INDEXED, if_state := STATE_READ_TABLE_SIZE, if_left := 0, if_shift := 0\<rparr>) (int_bytes 0x20 n 5 @ rest) False)"
proof (rule int_bytes_first [of 5 "0x20" n])
  fix fb tl
  assume f: "int_bytes 0x20 n 5 = fb # tl" "fb AND NOT (mask 5) = 0x20 AND NOT (mask 5)"
  then have f2: "fb AND 0xe0 = 0x20" by (simp add: u8_masks)
  show ?thesis unfolding f(1) using assms f2 by (auto simp: inflate_opcode_def)
qed simp_all

lemma exec_size:
  assumes ok: "ir_ok i E" "ir_fresh i" and st: "if_state i = STATE_INFLATE_START \<or> if_state i = STATE_EXPECT_TABLE_SIZE"
    and n: "n \<le> if_min_hd_table_bufsize_max i" "n \<le> settings_hd_table_bufsize_max i" "n < 2 ^ 32"
  obtains k where "inflate_loop i (rep_bytes (Rep_size n) @ rest) False = inflate_loop k rest False" "ir_ok k E" "ir_fresh k" "ir_kept i k E"
    "if_state k = STATE_INFLATE_START" "ir_table k = (n, table_cut n (dyn_table (if_ctx i)))" "if_min_hd_table_bufsize_max k = SIZE_UINT32_MAX"
proof -
  let ?bs = "int_bytes 0x20 n 5 @ rest"
  define j where "j = i\<lparr>if_opcode := OPCODE_INDEXED, if_state := STATE_READ_TABLE_SIZE, if_left := 0, if_shift := 0\<rparr>"
  have s1: "inflate_switch i ?bs = Some (Step_break j ?bs False)"
    using st opcode_size [OF st, of n rest] by (auto simp: inflate_switch_def j_def)
  have ne: "?bs \<noteq> []" by simp
  note b = break_post [OF s1 ok ne]
  have c: "ctx_ok (if_ctx i) None (E + held i)" using ok by (simp add: ir_ok_def ir_owned_def)
  define mx where "mx = min (if_min_hd_table_bufsize_max j) (settings_hd_table_bufsize_max j)"
  have j: "if_left j = 0" "if_shift j = 0" "n \<le> mx" using n by (simp_all add: j_def mx_def)
  obtain shift where r: "hd_inflate_read_len j ?bs 5 mx = Some (Inr (length (int_bytes 0x20 n 5), True), j\<lparr>if_left := n, if_shift := shift\<rparr>)"
    by (rule read_len_int_bytes [OF _ _ n(3) j(3,1,2), of 5 "0x20" rest]) simp_all
  obtain ctx' hmap' where sh: "hd_context_shrink_table_size ((if_ctx i)\<lparr>hd_table_bufsize_max := n\<rparr>) None = Some (ctx', hmap')"
      "dyn_table ctx' = table_cut n (dyn_table (if_ctx i))" "ctx_kept ((if_ctx i)\<lparr>hd_table_bufsize_max := n\<rparr>) None ctx' hmap' (E + held i)"
    by (rule ctx_ok_shrink [OF c n(3)])
  define k where "k = j\<lparr>if_left := n, if_shift := shift, if_min_hd_table_bufsize_max := SIZE_UINT32_MAX, if_ctx := ctx', if_state := STATE_INFLATE_START\<rparr>"
  have ctxj: "if_ctx j = if_ctx i" "if_state j = STATE_READ_TABLE_SIZE" by (simp_all add: j_def)
  have s2: "inflate_switch j ?bs = Some (Step_break k rest False)"
    by (simp only: inflate_switch_def ctxj nghttp2_hd_inflate_state.case inflate_read_table_size_def mx_def [symmetric] r bind.bind_lunit)
       (simp add: ctxj sh(1) k_def)
  note d = break_post [OF s2 b(1,2) ne]
  have l: "inflate_loop i (rep_bytes (Rep_size n) @ rest) False = inflate_loop k rest False"
    using loop_break [OF _ s1, of False] loop_break [OF _ s2, of False] by simp
  show ?thesis
    by (rule that [OF l d(1,2) ir_kept_trans [OF b(3) d(3)]]) (use sh(2,3) in \<open>simp_all add: k_def ir_table_def ctx_kept_def\<close>)
qed

lemma exec_sizes:
  assumes "ir_ok i E" "ir_fresh i" "if_state i = STATE_INFLATE_START \<or> if_state i = STATE_EXPECT_TABLE_SIZE \<and> sizes \<noteq> []"
    "sizes \<noteq> [] \<longrightarrow> hd sizes \<le> if_min_hd_table_bufsize_max i" "list_all (\<lambda>n. n \<le> settings_hd_table_bufsize_max i \<and> n < 2 ^ 32) sizes"
    "reps_apply (map Rep_size sizes) (ir_table i) = Some (s', [])"
  shows "\<exists>k. inflate_loop i (reps_bytes (map Rep_size sizes) @ rest) False = inflate_loop k rest False \<and> ir_ok k E \<and> ir_fresh k \<and> ir_kept i k E \<and>
    if_state k = STATE_INFLATE_START \<and> ir_table k = s' \<and> (sizes \<noteq> [] \<longrightarrow> if_min_hd_table_bufsize_max k = SIZE_UINT32_MAX) \<and>
    (sizes = [] \<longrightarrow> k = i)"
  using assms
proof (induction sizes arbitrary: i)
  case Nil
  then show ?case by (auto simp: reps_bytes_def)
next
  case (Cons n sizes)
  have st: "if_state i = STATE_INFLATE_START \<or> if_state i = STATE_EXPECT_TABLE_SIZE" using Cons.prems(3) by auto
  have n: "n \<le> if_min_hd_table_bufsize_max i" "n \<le> settings_hd_table_bufsize_max i" "n < 2 ^ 32" using Cons.prems(4,5) by simp_all
  obtain k where k: "inflate_loop i (rep_bytes (Rep_size n) @ reps_bytes (map Rep_size sizes) @ rest) False = inflate_loop k (reps_bytes (map Rep_size sizes) @ rest) False"
    "ir_ok k E" "ir_fresh k" "ir_kept i k E"
    "if_state k = STATE_INFLATE_START" "ir_table k = (n, table_cut n (dyn_table (if_ctx i)))" "if_min_hd_table_bufsize_max k = SIZE_UINT32_MAX"
    by (rule exec_size [OF Cons.prems(1,2) st n])
  have ap: "reps_apply (map Rep_size sizes) (ir_table k) = Some (s', [])"
    using Cons.prems(6) k(6) by (auto simp: ir_table_def split: bind_splits)
  have se: "settings_hd_table_bufsize_max k = settings_hd_table_bufsize_max i" using k(4) by (simp add: ir_kept_def)
  have le: "sizes \<noteq> [] \<longrightarrow> hd sizes \<le> if_min_hd_table_bufsize_max k"
    using Cons.prems(5) k(7) by (cases sizes) (simp_all add: SIZE_UINT32_MAX_def)
  from Cons.IH [OF k(2,3) _ le _ ap] k(5) Cons.prems(5) se
  obtain l where l: "inflate_loop k (reps_bytes (map Rep_size sizes) @ rest) False = inflate_loop l rest False" "ir_ok l E" "ir_fresh l" "ir_kept k l E"
    "if_state l = STATE_INFLATE_START" "ir_table l = s'" "sizes \<noteq> [] \<longrightarrow> if_min_hd_table_bufsize_max l = SIZE_UINT32_MAX" "sizes = [] \<longrightarrow> l = k"
    by auto
  show ?case
    by (intro exI [of _ l]) (use k(1,7) l ir_kept_trans [OF k(4) l(4)] in \<open>auto simp: reps_bytes_def\<close>)
qed

text \<open>One call of the loop's body on a field.\<close>

lemma hd2_emit:
  assumes inv: "ir_inv i E" "\<not> ctx_bad (if_ctx i)" and kf: "hd_inflate_keep_free i = Some j"
    and lp: "inflate_loop j bs False = Some (Step_emit k rest nv)" and dr: "bs = pre @ rest"
  shows "nghttp2_hd_inflate_hd2 i fl0 bs fin = Some (Inr (length pre), NGHTTP2_HD_INFLATE_EMIT,
      Some \<lparr>nv_name = fst (nv_bytes (if_heap k) nv), nv_value = snd (nv_bytes (if_heap k) nv), nv_flags = hd_flags nv\<rparr>, k)"
    "ir_inv k E" "if_state k = STATE_OPCODE" "\<not> ctx_bad (if_ctx k)" "mem_mono (rc_mem (if_heap i)) (rc_mem (if_heap k))"
    "settings_hd_table_bufsize_max k = settings_hd_table_bufsize_max i"
proof -
  have h: "nghttp2_hd_inflate_hd_nv i fl0 bs fin = Some (Inr (length pre), NGHTTP2_HD_INFLATE_EMIT, Some nv, k)"
    using inv(2) kf lp by (simp add: nghttp2_hd_inflate_hd_nv_def dr)
  note fl = NGHTTP2_HD_INFLATE_NONE_def NGHTTP2_HD_INFLATE_FINAL_def NGHTTP2_HD_INFLATE_EMIT_def
  have post: "hd_nv_post i fl0 bs E (Inr (length pre)) NGHTTP2_HD_INFLATE_EMIT (Some nv) k"
    by (rule hd_nv_ok [OF inv(1), of fl0 bs fin]) (use h in simp)
  then show "settings_hd_table_bufsize_max k = settings_hd_table_bufsize_max i" by (simp add: hd_nv_post_def)
  from post have q: "ir_inv k E" "if_state k = STATE_OPCODE" "\<not> ctx_bad (if_ctx k)" "rc_live (E + held k + ctx_refs (if_ctx k)) (hd_name nv)"
    "rc_live (E + held k + ctx_refs (if_ctx k)) (hd_value nv)" "mem_mono (rc_mem (if_heap i)) (rc_mem (if_heap k))"
    by (simp_all add: hd_nv_post_def)
  show "ir_inv k E" "if_state k = STATE_OPCODE" "\<not> ctx_bad (if_ctx k)" "mem_mono (rc_mem (if_heap i)) (rc_mem (if_heap k))" using q by simp_all
  have ok: "rc_ok (if_heap k) (E + held k + ctx_refs (if_ctx k))"
    by (rule ctx_ok_live [of _ None]) (use q(1) in \<open>simp add: ir_inv_def ir_owned_def\<close>)
  have g: "nghttp2_rcbuf_get_buf (if_heap k) p = Some (rc_bytes (if_heap k) p)" if "rc_live (E + held k + ctx_refs (if_ctx k)) p" for p
    by (rule rc_ok_get [OF ok that]) (simp add: nghttp2_rcbuf_get_buf_def)
  show "nghttp2_hd_inflate_hd2 i fl0 bs fin = Some (Inr (length pre), NGHTTP2_HD_INFLATE_EMIT,
      Some \<lparr>nv_name = fst (nv_bytes (if_heap k) nv), nv_value = snd (nv_bytes (if_heap k) nv), nv_flags = hd_flags nv\<rparr>, k)"
    by (simp add: nghttp2_hd_inflate_hd2_def h g [OF q(4)] g [OF q(5)] nv_bytes_def fl)
qed

text \<open>The last call, with nothing left but announced sizes.\<close>

lemma hd2_final:
  assumes inv: "ir_inv i E" "\<not> ctx_bad (if_ctx i)" and kf: "hd_inflate_keep_free i = Some j"
    and lp: "inflate_loop j bs False = Some (Step_break k [] b)" and st: "if_state k = STATE_OPCODE \<or> if_state k = STATE_INFLATE_START"
  shows "nghttp2_hd_inflate_hd2 i fl0 bs True = Some (Inr (length bs), NGHTTP2_HD_INFLATE_FINAL, None, k)"
    "ir_inv k E" "\<not> ctx_bad (if_ctx k)" "mem_mono (rc_mem (if_heap i)) (rc_mem (if_heap k))"
    "settings_hd_table_bufsize_max k = settings_hd_table_bufsize_max i"
proof -
  note fl = NGHTTP2_HD_INFLATE_NONE_def NGHTTP2_HD_INFLATE_FINAL_def NGHTTP2_HD_INFLATE_EMIT_def
  have h: "nghttp2_hd_inflate_hd_nv i fl0 bs True = Some (Inr (length bs), NGHTTP2_HD_INFLATE_FINAL, None, k)"
    using inv(2) kf lp st by (auto simp: nghttp2_hd_inflate_hd_nv_def)
  have post: "hd_nv_post i fl0 bs E (Inr (length bs)) NGHTTP2_HD_INFLATE_FINAL None k"
    by (rule hd_nv_ok [OF inv(1), of fl0 bs True]) (use h in simp)
  then show "ir_inv k E" "\<not> ctx_bad (if_ctx k)" "mem_mono (rc_mem (if_heap i)) (rc_mem (if_heap k))"
    "settings_hd_table_bufsize_max k = settings_hd_table_bufsize_max i" by (simp_all add: hd_nv_post_def)
  show "nghttp2_hd_inflate_hd2 i fl0 bs True = Some (Inr (length bs), NGHTTP2_HD_INFLATE_FINAL, None, k)"
    by (simp add: nghttp2_hd_inflate_hd2_def h fl)
qed

definition block_post :: "nghttp2_hd_inflater \<Rightarrow> rcptr multiset \<Rightarrow> nat \<times> field list \<Rightarrow> nghttp2_hd_inflater \<Rightarrow> bool" where
  "block_post i E s k \<longleftrightarrow> ir_inv k E \<and> \<not> ctx_bad (if_ctx k) \<and> ir_reliable k \<and> if_state k = STATE_INFLATE_START \<and> ir_table k = s \<and>
     settings_hd_table_bufsize_max k = settings_hd_table_bufsize_max i"

lemma inflate_block_nil:
  assumes inv: "ir_inv i E" "\<not> ctx_bad (if_ctx i)" "ir_reliable i" and kf: "hd_inflate_keep_free i = Some j"
    and lp: "inflate_loop j bs False = Some (Step_break k [] b)" and st: "if_state k = STATE_OPCODE \<or> if_state k = STATE_INFLATE_START"
  obtains l where "inflate_fields i bs True acc = Some (Inr (), acc, l)" "block_post i E (ir_table k) l"
    "if_min_hd_table_bufsize_max l = if_min_hd_table_bufsize_max k"
proof -
  note f = hd2_final [OF inv(1,2) kf lp st]
  obtain l where l: "nghttp2_hd_inflate_end_headers k = Some l" "ir_inv l E" "if_state l = STATE_INFLATE_START" "ir_table l = ir_table k"
    "ir_reliable l = ir_reliable k" "if_min_hd_table_bufsize_max l = if_min_hd_table_bufsize_max k"
    "settings_hd_table_bufsize_max l = settings_hd_table_bufsize_max k" "ctx_bad (if_ctx l) = ctx_bad (if_ctx k)"
    by (rule end_headers_ok [OF f(2)]) (use st in \<open>auto simp: ir_idle_def\<close>)
  have "inflate_fields i bs True acc = Some (Inr (), acc, l)"
    by (subst inflate_fields.simps) (simp add: f(1) l(1) NGHTTP2_HD_INFLATE_FINAL_def)
  then show ?thesis
    by (rule that) (use l f(3,4,5) inv(3) in \<open>simp_all add: block_post_def mem_mono_def\<close>)
qed

lemma reps_apply_sizes: "\<exists>s1. reps_apply (map Rep_size sizes) s = Some (s1, [])"
proof (induction sizes arbitrary: s)
  case (Cons n sizes)
  obtain m t where s: "s = (m, t)" by (cases s)
  show ?case using Cons.IH [of "(n, table_cut n t)"] by (auto simp: s)
qed simp

lemma block_sizes:
  assumes inv: "ir_inv i E" "\<not> ctx_bad (if_ctx i)" "ir_reliable i"
    and st: "if_state i = STATE_OPCODE \<and> sizes = [] \<or> if_state i = STATE_INFLATE_START \<or> if_state i = STATE_EXPECT_TABLE_SIZE \<and> sizes \<noteq> []"
    and sz: "sizes \<noteq> [] \<longrightarrow> hd sizes \<le> if_min_hd_table_bufsize_max i" "list_all (\<lambda>n. n \<le> settings_hd_table_bufsize_max i \<and> n < 2 ^ 32) sizes"
    and ap: "reps_apply (map Rep_size sizes @ reps) (ir_table i) = Some (s', outs)"
  obtains j k where "hd_inflate_keep_free i = Some j"
    "inflate_loop j (reps_bytes (map Rep_size sizes @ reps)) False = inflate_loop k (reps_bytes reps) False" "at_field k E"
    "reps_apply reps (ir_table k) = Some (s', outs)"
    "if_min_hd_table_bufsize_max k = (if sizes = [] then if_min_hd_table_bufsize_max i else SIZE_UINT32_MAX)"
proof -
  have own: "ir_owned i E" "ir_ok i E" using inv by (simp_all add: ir_inv_def)
  obtain j where j: "hd_inflate_keep_free i = Some j" "ir_fresh j" "ir_ok j E" "if_state j = if_state i" "ir_table j = ir_table i"
    "if_min_hd_table_bufsize_max j = if_min_hd_table_bufsize_max i" "ir_kept i j E" "ir_reliable j = ir_reliable i"
    by (rule keep_free_inv [OF own(1)]) (use own(2) that in blast)
  have se: "settings_hd_table_bufsize_max j = settings_hd_table_bufsize_max i" using j(7) by (simp add: ir_kept_def)
  obtain s1 where s1: "reps_apply (map Rep_size sizes) (ir_table j) = Some (s1, [])" using reps_apply_sizes by blast
  have ap': "reps_apply reps s1 = Some (s', outs)" using ap s1 j(5) by (auto simp: reps_apply_append split: bind_splits)
  show ?thesis
  proof (cases "sizes = []")
    case True
    then show ?thesis using that [OF j(1), of j] s1 ap' st j inv(3) by (auto simp: at_field_def reps_bytes_def)
  next
    case False
    then have st': "if_state j = STATE_INFLATE_START \<or> if_state j = STATE_EXPECT_TABLE_SIZE \<and> sizes \<noteq> []" using st j(4) by auto
    obtain k where k: "inflate_loop j (reps_bytes (map Rep_size sizes) @ reps_bytes reps) False = inflate_loop k (reps_bytes reps) False"
      "ir_ok k E" "ir_fresh k" "ir_kept j k E" "if_state k = STATE_INFLATE_START" "ir_table k = s1" "if_min_hd_table_bufsize_max k = SIZE_UINT32_MAX"
      using exec_sizes [OF j(3,2) st' _ _ s1, of "reps_bytes reps"] sz j(6) se False by auto
    have rel: "ir_reliable k" using ir_kept_reliable [OF k(4)] j(8) inv(3) by simp
    show ?thesis by (rule that [OF j(1), of k]) (use k rel ap' False in \<open>simp_all add: at_field_def reps_bytes_def\<close>)
  qed
qed

lemma inflate_block_ok:
  assumes "ir_inv i E" "\<not> ctx_bad (if_ctx i)" "ir_reliable i"
    "if_state i = STATE_OPCODE \<and> sizes = [] \<or> if_state i = STATE_INFLATE_START \<or> if_state i = STATE_EXPECT_TABLE_SIZE \<and> sizes \<noteq> []"
    "sizes \<noteq> [] \<longrightarrow> hd sizes \<le> if_min_hd_table_bufsize_max i" "list_all (\<lambda>n. n \<le> settings_hd_table_bufsize_max i \<and> n < 2 ^ 32) sizes"
    "list_all rep_short reps" "list_all rep_is_field reps" "reps_apply (map Rep_size sizes @ reps) (ir_table i) = Some (s', outs)"
  shows "\<exists>k. inflate_fields i (reps_bytes (map Rep_size sizes @ reps)) True acc = Some (Inr (), acc @ map out_nv outs, k) \<and> block_post i E s' k \<and>
     if_min_hd_table_bufsize_max k = (if sizes = [] then if_min_hd_table_bufsize_max i else SIZE_UINT32_MAX)"
  using assms
proof (induction reps arbitrary: i sizes outs acc)
  case Nil
  obtain j k where k: "hd_inflate_keep_free i = Some j"
    "inflate_loop j (reps_bytes (map Rep_size sizes @ [])) False = inflate_loop k (reps_bytes []) False" "at_field k E"
    "reps_apply [] (ir_table k) = Some (s', outs)"
    "if_min_hd_table_bufsize_max k = (if sizes = [] then if_min_hd_table_bufsize_max i else SIZE_UINT32_MAX)"
    by (rule block_sizes [OF Nil.prems(1-6,9)])
  have "inflate_loop k [] False = Some (Step_break k [] False)" by (subst inflate_loop.simps) simp
  then have lp: "inflate_loop j (reps_bytes (map Rep_size sizes @ [])) False = Some (Step_break k [] False)" using k(2) by (simp add: reps_bytes_def)
  have st: "if_state k = STATE_OPCODE \<or> if_state k = STATE_INFLATE_START" using k(3) by (simp add: at_field_def)
  obtain l where "inflate_fields i (reps_bytes (map Rep_size sizes @ [])) True acc = Some (Inr (), acc, l)" "block_post i E (ir_table k) l"
    "if_min_hd_table_bufsize_max l = if_min_hd_table_bufsize_max k"
    by (rule inflate_block_nil [OF Nil.prems(1-3) k(1) lp st])
  then show ?case using k(4,5) by auto
next
  case (Cons r reps)
  obtain j k where k: "hd_inflate_keep_free i = Some j"
    "inflate_loop j (reps_bytes (map Rep_size sizes @ r # reps)) False = inflate_loop k (reps_bytes (r # reps)) False" "at_field k E"
    "reps_apply (r # reps) (ir_table k) = Some (s', outs)"
    "if_min_hd_table_bufsize_max k = (if sizes = [] then if_min_hd_table_bufsize_max i else SIZE_UINT32_MAX)"
    by (rule block_sizes [OF Cons.prems(1-6,9)])
  obtain s1 out outs' where a: "rep_apply r (ir_table k) = Some (s1, out)" "reps_apply reps s1 = Some (s', outs')"
    "outs = (case out of None \<Rightarrow> outs' | Some f \<Rightarrow> f # outs')" using k(4) by (auto split: bind_splits)
  have "out \<noteq> None" using a(1) Cons.prems(8) by (cases r; cases "ir_table k") (auto simp: rep_literal_def Let_def split: if_splits)
  then obtain f never where out: "out = Some (f, never)" by auto
  have sh: "rep_short r" using Cons.prems(7) by simp
  obtain l nv where l: "inflate_loop k (rep_bytes r @ reps_bytes reps) False = Some (Step_emit l (reps_bytes reps) nv)"
    "nv_bytes (if_heap l) nv = f" "hd_flags nv = flag_of never" "ir_table l = s1"
    "if_min_hd_table_bufsize_max l = if_min_hd_table_bufsize_max k"
    by (rule exec_field [OF k(3) sh a(1) [unfolded out]])
  have lp: "inflate_loop j (reps_bytes (map Rep_size sizes @ r # reps)) False = Some (Step_emit l (reps_bytes reps) nv)"
    using k(2) l(1) by (simp add: reps_bytes_def)
  have dr: "reps_bytes (map Rep_size sizes @ r # reps) = (reps_bytes (map Rep_size sizes) @ rep_bytes r) @ reps_bytes reps" by (simp add: reps_bytes_def)
  note e = hd2_emit [OF Cons.prems(1,2) k(1) lp dr]
  have rel: "ir_reliable l" using e(5) Cons.prems(3) by (simp add: mem_mono_def)
  have "\<exists>m. inflate_fields l (reps_bytes (map Rep_size [] @ reps)) True (acc @ [out_nv (f, never)]) =
      Some (Inr (), (acc @ [out_nv (f, never)]) @ map out_nv outs', m) \<and> block_post l E s' m \<and>
      if_min_hd_table_bufsize_max m = (if [] = ([] :: nat list) then if_min_hd_table_bufsize_max l else SIZE_UINT32_MAX)"
    by (rule Cons.IH) (use e(2-4) rel Cons.prems(7,8) a(2) l(4) in simp_all)
  then obtain m where m: "inflate_fields l (reps_bytes reps) True (acc @ [out_nv (f, never)]) = Some (Inr (), acc @ map out_nv outs, m)"
    "block_post l E s' m" "if_min_hd_table_bufsize_max m = if_min_hd_table_bufsize_max l"
    using a(3) out by auto
  have drp: "drop (length (reps_bytes (map Rep_size sizes) @ rep_bytes r)) (reps_bytes (map Rep_size sizes @ r # reps)) = reps_bytes reps"
    unfolding dr by simp
  have nvo: "\<lparr>nv_name = fst (nv_bytes (if_heap l) nv), nv_value = snd (nv_bytes (if_heap l) nv), nv_flags = hd_flags nv\<rparr> = out_nv (f, never)"
    by (simp add: out_nv_def l(2,3))
  have "inflate_fields i (reps_bytes (map Rep_size sizes @ r # reps)) True acc = Some (Inr (), acc @ map out_nv outs, m)"
    by (subst inflate_fields.simps) (simp only: e(1) bind.bind_lunit prod.case sum.case option.case nvo drp m(1))
  then show ?case using m(2,3) l(5) k(5) e(6) by (auto simp: block_post_def)
qed

section \<open>Deflater and inflater together\<close>

text \<open>
  The decoder's limit.  The comment at \<^verbatim>\<open>NGHTTP2_HD_MAX_NV\<close> speaks of the sum of the two lengths; the code compares each
  length with it, in the two places that read a string length.
\<close>

definition nv_short :: "nghttp2_nv \<Rightarrow> bool" where
  "nv_short nv \<longleftrightarrow> length (nv_name nv) \<le> NGHTTP2_HD_MAX_NV \<and> length (nv_value nv) \<le> NGHTTP2_HD_MAX_NV"

lemma rep_short_field: "rep_apply r s = Some (s1, Some ((n, v), b)) \<Longrightarrow> length n \<le> NGHTTP2_HD_MAX_NV \<Longrightarrow> length v \<le> NGHTTP2_HD_MAX_NV \<Longrightarrow> rep_short r"
  by (cases r; cases s) (auto simp: rep_literal_def Let_def split: if_splits)

lemma reps_short:
  "list_all rep_is_field reps \<Longrightarrow> reps_apply reps s = Some (s', outs) \<Longrightarrow>
   list_all (\<lambda>((n, v), b). length n \<le> NGHTTP2_HD_MAX_NV \<and> length v \<le> NGHTTP2_HD_MAX_NV) outs \<Longrightarrow> list_all rep_short reps"
proof (induction reps arbitrary: s outs)
  case (Cons r reps)
  obtain s1 out outs' where a: "rep_apply r s = Some (s1, out)" "reps_apply reps s1 = Some (s', outs')"
    "outs = (case out of None \<Rightarrow> outs' | Some f \<Rightarrow> f # outs')" using Cons.prems(2) by (auto split: bind_splits)
  have "out \<noteq> None" using a(1) Cons.prems(1) by (cases r; cases s) (auto simp: rep_literal_def Let_def split: if_splits)
  then obtain n v b where out: "out = Some ((n, v), b)" by auto
  show ?case using Cons.IH [OF _ a(2)] Cons.prems(1,3) a(1,3) rep_short_field [of r s s1 n v b] by (auto simp: out)
qed simp

text \<open>The two ends of a connection agree: the table of the deflater is the one the inflater will have after the announced sizes.\<close>

definition hpack_sync :: "nghttp2_hd_deflater \<Rightarrow> nghttp2_hd_inflater \<Rightarrow> bool" where
  "hpack_sync df ir \<longleftrightarrow> df_ok df {#} \<and> \<not> ctx_bad (df_ctx df) \<and> df_reliable df \<and> deflate_hd_table_bufsize_max df < 2 ^ 32 \<and>
     ir_inv ir {#} \<and> \<not> ctx_bad (if_ctx ir) \<and> ir_reliable ir \<and> df_sync df (ir_table ir) \<and>
     hd_table_bufsize_max (df_ctx df) \<le> settings_hd_table_bufsize_max ir \<and>
     df_min_hd_table_bufsize_max df \<le> if_min_hd_table_bufsize_max ir \<and>
     (if_state ir = STATE_INFLATE_START \<or> if_state ir = STATE_EXPECT_TABLE_SIZE \<and> notify_table_size_change df)"

text \<open>What the deflater wrote, and the state it is left in, is what the inflater needs to stay in step.\<close>

lemma hpack_sync_inflate:
  assumes sy: "hpack_sync df ir" and nva: "list_all nv_short nva"
  defines "m \<equiv> hd_table_bufsize_max (df_ctx df)"
  assumes d: "df_ok df' {#}" "\<not> ctx_bad (df_ctx df')" "df_reliable df'" "hd_table_bufsize_max (df_ctx df') = m"
      "df_sync df' (m, df_table df')" "\<not> notify_table_size_change df'"
      "deflate_hd_table_bufsize_max df' = deflate_hd_table_bufsize_max df" "list_all rep_is_field reps"
      "reps_apply (map Rep_size (notify_sizes df) @ reps) (ir_table ir) = Some ((m, df_table df'), map nv_out nva)"
  obtains ir' where "inflate_fields ir (reps_bytes (map Rep_size (notify_sizes df) @ reps)) True [] = Some (Inr (), map (out_nv \<circ> nv_out) nva, ir')"
    "hpack_sync df' ir'"
proof -
  have a: "df_sync df (ir_table ir)" and i: "ir_inv ir {#}" "\<not> ctx_bad (if_ctx ir)" "ir_reliable ir" using sy by (simp_all add: hpack_sync_def)
  have m: "m < 2 ^ 32" "m \<le> settings_hd_table_bufsize_max ir"
    using ctx_okD(4) [of "df_ctx df"] sy by (auto simp: m_def hpack_sync_def df_ok_def)
  have mn: "df_min_hd_table_bufsize_max df \<le> if_min_hd_table_bufsize_max ir" using sy by (simp add: hpack_sync_def)
  have ne: "notify_sizes df \<noteq> [] \<longleftrightarrow> notify_table_size_change df" by (simp add: notify_sizes_def)
  have st: "if_state ir = STATE_OPCODE \<and> notify_sizes df = [] \<or> if_state ir = STATE_INFLATE_START \<or>
      if_state ir = STATE_EXPECT_TABLE_SIZE \<and> notify_sizes df \<noteq> []"
    using sy ne by (auto simp: hpack_sync_def)
  have hd: "notify_sizes df \<noteq> [] \<longrightarrow> hd (notify_sizes df) \<le> if_min_hd_table_bufsize_max ir" using mn by (auto simp: notify_sizes_def)
  have al: "list_all (\<lambda>n. n \<le> settings_hd_table_bufsize_max ir \<and> n < 2 ^ 32) (notify_sizes df)" using m by (auto simp: notify_sizes_def m_def)
  have ap: "reps_apply reps s1 = Some ((m, df_table df'), map nv_out nva)" if "reps_apply (map Rep_size (notify_sizes df)) (ir_table ir) = Some (s1, [])" for s1
    using d(9) that by (auto simp: reps_apply_append split: bind_splits)
  obtain s1 where s1: "reps_apply (map Rep_size (notify_sizes df)) (ir_table ir) = Some (s1, [])" using reps_apply_sizes by blast
  have "list_all (\<lambda>((n, v), b). length n \<le> NGHTTP2_HD_MAX_NV \<and> length v \<le> NGHTTP2_HD_MAX_NV) (map nv_out nva)"
    using nva by (simp add: list_all_iff nv_short_def)
  then have sh: "list_all rep_short reps" by (rule reps_short [OF d(8) ap [OF s1]])
  obtain k where k: "inflate_fields ir (reps_bytes (map Rep_size (notify_sizes df) @ reps)) True [] = Some (Inr (), [] @ map out_nv (map nv_out nva), k)"
    "block_post ir {#} (m, df_table df') k"
    "if_min_hd_table_bufsize_max k = (if notify_sizes df = [] then if_min_hd_table_bufsize_max ir else SIZE_UINT32_MAX)"
    using inflate_block_ok [OF i st hd al sh d(8,9), of "[]"] by auto
  have mn': "df_min_hd_table_bufsize_max df' \<le> SIZE_UINT32_MAX" "\<not> notify_table_size_change df \<longrightarrow> df_min_hd_table_bufsize_max df = SIZE_UINT32_MAX"
    using d(5) a by (auto simp: df_sync_def split: prod.splits)
  have "hpack_sync df' k"
    using d(1-7) k(2,3) m(2) sy mn mn' ne by (auto simp: hpack_sync_def block_post_def)
  then show ?thesis using that k(1) by (simp add: comp_def)
qed

lemma nv_short_fits: "list_all nv_short nva \<Longrightarrow> list_all nv_fits nva"
  by (auto simp: list_all_iff nv_short_def nv_fits_def NGHTTP2_HD_MAX_NV_def)

lemma hpack_sync_block:
  assumes sy: "hpack_sync df ir" and nva: "list_all nv_short nva" and buf: "nghttp2_hd_deflate_bound nva \<le> length buf"
  obtains df' bs ir' where "nghttp2_hd_deflate_hd df buf nva = Some (Inr (length bs), df', bs)"
    "inflate_fields ir bs True [] = Some (Inr (), map (out_nv \<circ> nv_out) nva, ir')" "hpack_sync df' ir'"
proof -
  define m where "m = hd_table_bufsize_max (df_ctx df)"
  have a: "df_ok df {#}" "df_sync df (ir_table ir)" "\<not> ctx_bad (df_ctx df)" "df_reliable df" using sy by (simp_all add: hpack_sync_def)
  obtain df' reps bs where d: "nghttp2_hd_deflate_hd df buf nva = Some (Inr (length bs), df', bs)"
    "bs = reps_bytes (map Rep_size (notify_sizes df) @ reps)" "df_ok df' {#}"
    "\<not> ctx_bad (df_ctx df')" "df_reliable df'" "hd_table_bufsize_max (df_ctx df') = m" "df_sync df' (m, df_table df')" "\<not> notify_table_size_change df'"
    "deflate_hd_table_bufsize_max df' = deflate_hd_table_bufsize_max df" "list_all rep_is_field reps"
    "reps_apply (map Rep_size (notify_sizes df) @ reps) (ir_table ir) = Some ((m, df_table df'), map nv_out nva)"
    unfolding m_def by (rule deflate_hd_ok [OF a nv_short_fits [OF nva] buf])
  obtain ir' where "inflate_fields ir bs True [] = Some (Inr (), map (out_nv \<circ> nv_out) nva, ir')" "hpack_sync df' ir'"
    unfolding d(2) by (rule hpack_sync_inflate [OF sy nva d(3-5) d(6-11) [unfolded m_def]])
  then show ?thesis by (rule that [OF d(1)])
qed

lemma hpack_sync_change:
  assumes sy: "hpack_sync df ir" and n: "n < 2 ^ 32"
  obtains df' ir' where "nghttp2_hd_deflate_change_table_size df n = Some df'" "nghttp2_hd_inflate_change_table_size ir n = Some (Inr (), ir')"
    "hpack_sync df' ir'"
proof -
  have a: "df_ok df {#}" "df_sync df (ir_table ir)" "deflate_hd_table_bufsize_max df < 2 ^ 32" and i: "ir_inv ir {#}" using sy by (simp_all add: hpack_sync_def)
  obtain df' where d: "nghttp2_hd_deflate_change_table_size df n = Some df'" "df_ok df' {#}" "df_sync df' (ir_table ir)"
    "hd_table_bufsize_max (df_ctx df') = min n (deflate_hd_table_bufsize_max df)" "ctx_bad (df_ctx df') = ctx_bad (df_ctx df)"
    "deflate_hd_table_bufsize_max df' = deflate_hd_table_bufsize_max df" "mem_mono (rc_mem (ctx_heap (df_ctx df))) (rc_mem (ctx_heap (df_ctx df')))"
    "notify_table_size_change df'" "df_min_hd_table_bufsize_max df' = min (df_min_hd_table_bufsize_max df) (min n (deflate_hd_table_bufsize_max df))"
    by (rule deflate_change_ok [OF a])
  have idle: "ir_idle ir \<and> if_state ir \<noteq> STATE_OPCODE" using sy by (auto simp: hpack_sync_def ir_idle_def)
  obtain ir' where c: "nghttp2_hd_inflate_change_table_size ir n = Some (Inr (), ir')" "ir_inv ir' {#}"
    "ir_table ir' = (n, table_cut n (dyn_table (if_ctx ir)))"
    "settings_hd_table_bufsize_max ir' = n" "ctx_bad (if_ctx ir') = ctx_bad (if_ctx ir)" "mem_mono (rc_mem (if_heap ir)) (rc_mem (if_heap ir'))"
    "if hd_table_bufsize_max (if_ctx ir) > n then if_state ir' = STATE_EXPECT_TABLE_SIZE \<and> if_min_hd_table_bufsize_max ir' = n
     else if_state ir' = if_state ir \<and> if_min_hd_table_bufsize_max ir' = if_min_hd_table_bufsize_max ir"
    by (rule change_table_ok [OF i n]) (use idle that in simp)
  have le: "df_min_hd_table_bufsize_max df' \<le> n" "df_min_hd_table_bufsize_max df' \<le> SIZE_UINT32_MAX" using d(3,9) by (auto simp: df_sync_def ir_table_def)
  have "df_table df' = table_cut (df_min_hd_table_bufsize_max df') (dyn_table (if_ctx ir))" using d(3) by (simp add: df_sync_def ir_table_def)
  also have "\<dots> = table_cut (df_min_hd_table_bufsize_max df') (table_cut n (dyn_table (if_ctx ir)))" using le by (simp add: table_cut_cut)
  finally have "df_sync df' (ir_table ir')"
    using table_cut_size [of n "dyn_table (if_ctx ir)"] n le(2) d(8) by (simp add: df_sync_def c(3) SIZE_UINT32_MAX_def)
  then have "hpack_sync df' ir'"
    using sy d(2,4-9) c(2,4-7) by (auto simp: hpack_sync_def mem_mono_def split: if_splits)
  then show ?thesis by (rule that [OF d(1) c(1)])
qed

text \<open>
  The events of one direction of a connection: the receiver's table size limit takes effect at both ends, or a header block
  is sent.  The receiver gets \<^verbatim>\<open>in_final\<close> with the whole block.  \<open>None\<close> is any error.
\<close>

datatype hp_event = Ev_table_size u32 | Ev_headers "nghttp2_nv list"

fun hp_run :: "hp_event list \<Rightarrow> nghttp2_hd_deflater \<Rightarrow> nghttp2_hd_inflater \<Rightarrow> nghttp2_nv list list option" where
  "hp_run [] df ir = Some []"
| "hp_run (Ev_table_size n # es) df ir = do {
     df \<leftarrow> nghttp2_hd_deflate_change_table_size df (unat n);
     (rv, ir) \<leftarrow> nghttp2_hd_inflate_change_table_size ir (unat n);
     case rv of Inl _ \<Rightarrow> None | Inr _ \<Rightarrow> hp_run es df ir }"
| "hp_run (Ev_headers nva # es) df ir = do {
     (rv, df, bs) \<leftarrow> nghttp2_hd_deflate_hd df (replicate (nghttp2_hd_deflate_bound nva) 0) nva;
     case rv of
       Inl _ \<Rightarrow> None
     | Inr n \<Rightarrow> do {
         (rv, fields, ir) \<leftarrow> inflate_fields ir (take n bs) True [];
         case rv of Inl _ \<Rightarrow> None | Inr _ \<Rightarrow> map_option ((#) fields) (hp_run es df ir) } }"

text \<open>What the receiver must get: the same names and values, and the flag on the fields that must never be indexed.\<close>

definition received :: "nghttp2_nv \<Rightarrow> nghttp2_nv" where
  "received nv = nv\<lparr>nv_flags := flag_of (never_indexed nv)\<rparr>"

fun ev_blocks :: "hp_event list \<Rightarrow> nghttp2_nv list list" where
  "ev_blocks [] = []"
| "ev_blocks (Ev_table_size _ # es) = ev_blocks es"
| "ev_blocks (Ev_headers nva # es) = nva # ev_blocks es"

lemma received_out: "out_nv (nv_out nv) = received nv"
  by (cases nv) (simp add: out_nv_def received_def)

lemma hp_run_sync:
  "hpack_sync df ir \<Longrightarrow> list_all (list_all nv_short) (ev_blocks es) \<Longrightarrow> hp_run es df ir = Some (map (map received) (ev_blocks es))"
proof (induction es arbitrary: df ir)
  case (Cons e es)
  show ?case
  proof (cases e)
    case (Ev_table_size n)
    have n: "unat n < 2 ^ 32" using unsigned_less [of n, where ?'a = nat] by simp
    obtain df' ir' where "nghttp2_hd_deflate_change_table_size df (unat n) = Some df'"
      "nghttp2_hd_inflate_change_table_size ir (unat n) = Some (Inr (), ir')" "hpack_sync df' ir'"
      by (rule hpack_sync_change [OF Cons.prems(1) n])
    then show ?thesis using Cons by (simp add: Ev_table_size)
  next
    case (Ev_headers nva)
    have s: "list_all nv_short nva" using Cons.prems(2) by (simp add: Ev_headers)
    have l: "nghttp2_hd_deflate_bound nva \<le> length (replicate (nghttp2_hd_deflate_bound nva) (0 :: u8))" by simp
    obtain df' bs ir' where "nghttp2_hd_deflate_hd df (replicate (nghttp2_hd_deflate_bound nva) 0) nva = Some (Inr (length bs), df', bs)"
      "inflate_fields ir bs True [] = Some (Inr (), map (out_nv \<circ> nv_out) nva, ir')" "hpack_sync df' ir'"
      by (rule hpack_sync_block [OF Cons.prems(1) s l])
    then show ?thesis using Cons by (simp add: Ev_headers comp_def received_out)
  qed
qed simp

lemma hpack_sync_start:
  assumes "nghttp2_hd_deflate_init2 mem n = (Inr df, mem')" "n < 2 ^ 32" "mem_reliable mem"
    and "nghttp2_hd_inflate_new2 mem2 = (Inr ir, mem2')" "mem_reliable mem2"
  shows "hpack_sync df ir"
proof -
  have d: "df_ok df {#}" "df_sync df (NGHTTP2_HD_DEFAULT_MAX_BUFFER_SIZE, [])" "\<not> ctx_bad (df_ctx df)" "deflate_hd_table_bufsize_max df = n"
    "hd_table_bufsize_max (df_ctx df) = min n NGHTTP2_HD_DEFAULT_MAX_BUFFER_SIZE" "df_reliable df"
    using deflate_init2_ok [of mem n] assms(1,3) by (simp_all add: mem_mono_def)
  have i: "ir_inv ir {#}" "\<not> ctx_bad (if_ctx ir)" "ir_table ir = (NGHTTP2_HD_DEFAULT_MAX_BUFFER_SIZE, [])"
    "if_state ir = STATE_INFLATE_START" "ir_reliable ir"
    using inflate_new2_ok [of mem2] assms(4,5) by (auto simp: ir_inv_def ir_ok_def)
  have f: "settings_hd_table_bufsize_max ir = NGHTTP2_HD_DEFAULT_MAX_BUFFER_SIZE" "if_min_hd_table_bufsize_max ir = SIZE_UINT32_MAX"
    using assms(4) by (auto simp: nghttp2_hd_inflate_new2_def nghttp2_hd_inflate_init_def Let_def split: prod.splits sum.splits if_splits)
  show "hpack_sync df ir" using d i f assms(2) by (simp add: hpack_sync_def df_sync_def)
qed

text \<open>
  C1. The two ends of a connection stay in step.  A deflater, created with a table limit below 2^32, and an inflater start
  together, none of their allocations fails, and both see the same changes of the table size limit (32-bit values), in any
  order with header blocks between them.  Where every name and every value is at most \<^verbatim>\<open>NGHTTP2_HD_MAX_NV\<close> (65536)
  bytes long, the longest string an inflater takes, every header block the deflater writes is accepted by the inflater,
  and comes out as exactly the fields that went in, in order, with the flag on those that must never be indexed.
\<close>

theorem hpack_roundtrip:
  assumes "nghttp2_hd_deflate_init2 mem n = (Inr df, mem')" "n < 2 ^ 32" "mem_reliable mem"
    and "nghttp2_hd_inflate_new2 mem2 = (Inr ir, mem2')" "mem_reliable mem2"
    and "list_all (list_all nv_short) (ev_blocks es)"
  shows "hp_run es df ir = Some (map (map received) (ev_blocks es))"
  by (rule hp_run_sync [OF hpack_sync_start [OF assms(1-5)] assms(6)])

theorem hpack_roundtrip_witness:
  "hp_run [Ev_table_size 100, Ev_headers nva0, Ev_table_size 4096, Ev_headers nva0] df0 ir0 = Some [map received nva0, map received nva0]"
proof -
  have m: "mem_reliable mem0" by (simp add: mem_reliable_def mem0_def)
  have d: "nghttp2_hd_deflate_init2 mem0 4096 = (Inr df0, snd (nghttp2_hd_deflate_init2 mem0 4096))"
    using deflate_init2_ok [of mem0 4096] m by (auto simp: df0_def split: prod.splits sum.splits)
  have n: "(4096 :: nat) < 2 ^ 32" by simp
  have s: "list_all (list_all nv_short) (ev_blocks [Ev_table_size 100, Ev_headers nva0, Ev_table_size 4096, Ev_headers nva0])"
    by (simp add: nva0_def nv_short_def NGHTTP2_HD_MAX_NV_def)
  show ?thesis using hpack_roundtrip [OF d n m ir0_new m s] by simp
qed

lemma sync0: "hpack_sync df0 ir0"
proof -
  have m: "mem_reliable mem0" by (simp add: mem_reliable_def mem0_def)
  have d: "nghttp2_hd_deflate_init2 mem0 4096 = (Inr df0, snd (nghttp2_hd_deflate_init2 mem0 4096))"
    using deflate_init2_ok [of mem0 4096] m by (auto simp: df0_def split: prod.splits sum.splits)
  show ?thesis by (rule hpack_sync_start [OF d _ m ir0_new m]) simp
qed

end
