(* ===== verification/Frame.thy ===== *)
theory Frame
  imports Helper Hpack_Roundtrip
begin

unbundle bit_operations_syntax

text \<open>
  \<^verbatim>\<open>lib/nghttp2_frame.c\<close> and \<^verbatim>\<open>lib/nghttp2_frame.h\<close>: the frame structures, their serialisation into the
  buffers of a session and their parsing.

  A frame is packed into a \<^verbatim>\<open>nghttp2_bufs\<close> whose first buffer has nine bytes left free in front of \<^verbatim>\<open>pos\<close>
  for the frame header, and one more for the padding length.  Every store is checked: \<open>None\<close> is a
  failed assertion, a store outside the memory of a buffer, or a pointer moved in front of it.  A
  pointer to bytes with a length is a list of bytes; \<^verbatim>\<open>NULL\<close> with length 0 is the empty list.
\<close>

section \<open>Constants\<close>

definition NGHTTP2_DATA :: u8 where "NGHTTP2_DATA = 0"
definition NGHTTP2_HEADERS :: u8 where "NGHTTP2_HEADERS = 1"
definition NGHTTP2_PRIORITY :: u8 where "NGHTTP2_PRIORITY = 2"
definition NGHTTP2_RST_STREAM :: u8 where "NGHTTP2_RST_STREAM = 3"
definition NGHTTP2_SETTINGS :: u8 where "NGHTTP2_SETTINGS = 4"
definition NGHTTP2_PUSH_PROMISE :: u8 where "NGHTTP2_PUSH_PROMISE = 5"
definition NGHTTP2_PING :: u8 where "NGHTTP2_PING = 6"
definition NGHTTP2_GOAWAY :: u8 where "NGHTTP2_GOAWAY = 7"
definition NGHTTP2_WINDOW_UPDATE :: u8 where "NGHTTP2_WINDOW_UPDATE = 8"
definition NGHTTP2_CONTINUATION :: u8 where "NGHTTP2_CONTINUATION = 9"
definition NGHTTP2_ALTSVC :: u8 where "NGHTTP2_ALTSVC = 10"
definition NGHTTP2_ORIGIN :: u8 where "NGHTTP2_ORIGIN = 12"

definition NGHTTP2_FLAG_NONE :: u8 where "NGHTTP2_FLAG_NONE = 0"
definition NGHTTP2_FLAG_END_STREAM :: u8 where "NGHTTP2_FLAG_END_STREAM = 1"
definition NGHTTP2_FLAG_END_HEADERS :: u8 where "NGHTTP2_FLAG_END_HEADERS = 4"
definition NGHTTP2_FLAG_ACK :: u8 where "NGHTTP2_FLAG_ACK = 1"
definition NGHTTP2_FLAG_PADDED :: u8 where "NGHTTP2_FLAG_PADDED = 8"
definition NGHTTP2_FLAG_PRIORITY :: u8 where "NGHTTP2_FLAG_PRIORITY = 0x20"

definition NGHTTP2_STREAM_ID_MASK :: u32 where "NGHTTP2_STREAM_ID_MASK = mask 31"
definition NGHTTP2_WINDOW_SIZE_INCREMENT_MASK :: u32 where "NGHTTP2_WINDOW_SIZE_INCREMENT_MASK = mask 31"
definition NGHTTP2_FRAME_HDLEN :: nat where "NGHTTP2_FRAME_HDLEN = 9"
definition NGHTTP2_MAX_FRAME_SIZE_MAX :: nat where "NGHTTP2_MAX_FRAME_SIZE_MAX = 2 ^ 24 - 1"
definition NGHTTP2_MAX_FRAME_SIZE_MIN :: nat where "NGHTTP2_MAX_FRAME_SIZE_MIN = 2 ^ 14"
definition NGHTTP2_MAX_PAYLOADLEN :: nat where "NGHTTP2_MAX_PAYLOADLEN = 16384"
definition NGHTTP2_FRAMEBUF_CHUNKLEN :: nat where
  "NGHTTP2_FRAMEBUF_CHUNKLEN = NGHTTP2_FRAME_HDLEN + 1 + NGHTTP2_MAX_PAYLOADLEN"
definition NGHTTP2_FRAME_SETTINGS_ENTRY_LENGTH :: nat where "NGHTTP2_FRAME_SETTINGS_ENTRY_LENGTH = 6"
definition NGHTTP2_PRIORITY_SPECLEN :: nat where "NGHTTP2_PRIORITY_SPECLEN = 5"
definition NGHTTP2_MAX_PADLEN :: nat where "NGHTTP2_MAX_PADLEN = 256"

definition NGHTTP2_SETTINGS_HEADER_TABLE_SIZE :: int where "NGHTTP2_SETTINGS_HEADER_TABLE_SIZE = 1"
definition NGHTTP2_SETTINGS_ENABLE_PUSH :: int where "NGHTTP2_SETTINGS_ENABLE_PUSH = 2"
definition NGHTTP2_SETTINGS_MAX_CONCURRENT_STREAMS :: int where "NGHTTP2_SETTINGS_MAX_CONCURRENT_STREAMS = 3"
definition NGHTTP2_SETTINGS_INITIAL_WINDOW_SIZE :: int where "NGHTTP2_SETTINGS_INITIAL_WINDOW_SIZE = 4"
definition NGHTTP2_SETTINGS_MAX_FRAME_SIZE :: int where "NGHTTP2_SETTINGS_MAX_FRAME_SIZE = 5"
definition NGHTTP2_SETTINGS_MAX_HEADER_LIST_SIZE :: int where "NGHTTP2_SETTINGS_MAX_HEADER_LIST_SIZE = 6"
definition NGHTTP2_SETTINGS_ENABLE_CONNECT_PROTOCOL :: int where "NGHTTP2_SETTINGS_ENABLE_CONNECT_PROTOCOL = 8"

definition NGHTTP2_NV_FLAG_NO_COPY_NAME :: u8 where "NGHTTP2_NV_FLAG_NO_COPY_NAME = 2"
definition NGHTTP2_NV_FLAG_NO_COPY_VALUE :: u8 where "NGHTTP2_NV_FLAG_NO_COPY_VALUE = 4"

section \<open>Frames\<close>

record nghttp2_frame_hd =
  fh_length :: nat
  fh_stream_id :: int
  fh_type :: u8
  fh_flags :: u8
  fh_reserved :: u8

datatype nghttp2_headers_category = HCAT_REQUEST | HCAT_RESPONSE | HCAT_PUSH_RESPONSE | HCAT_HEADERS

record nghttp2_data =
  data_hd :: nghttp2_frame_hd
  data_padlen :: nat

record nghttp2_headers =
  headers_hd :: nghttp2_frame_hd
  headers_padlen :: nat
  headers_pri_spec :: nghttp2_priority_spec
  headers_nva :: "nghttp2_nv list"
  headers_cat :: nghttp2_headers_category

record nghttp2_priority =
  priority_hd :: nghttp2_frame_hd
  priority_pri_spec :: nghttp2_priority_spec

record nghttp2_rst_stream =
  rst_hd :: nghttp2_frame_hd
  rst_error_code :: u32

record nghttp2_settings_entry =
  settings_id :: int
  settings_value :: u32

record nghttp2_settings =
  settings_hd :: nghttp2_frame_hd
  settings_iv :: "nghttp2_settings_entry list"

record nghttp2_push_promise =
  pp_hd :: nghttp2_frame_hd
  pp_padlen :: nat
  pp_nva :: "nghttp2_nv list"
  promised_stream_id :: int
  pp_reserved :: u8

record nghttp2_ping =
  ping_hd :: nghttp2_frame_hd
  ping_opaque_data :: "u8 list"

record nghttp2_goaway =
  goaway_hd :: nghttp2_frame_hd
  goaway_last_stream_id :: int
  goaway_error_code :: u32
  goaway_opaque_data :: "u8 list"
  goaway_reserved :: u8

record nghttp2_window_update =
  wu_hd :: nghttp2_frame_hd
  window_size_increment :: int
  wu_reserved :: u8

record nghttp2_ext_altsvc =
  altsvc_origin :: "u8 list"
  altsvc_field_value :: "u8 list"

record nghttp2_ext_origin =
  origin_ov :: "u8 list list"

text \<open>The payload of an extension frame is \<^verbatim>\<open>NULL\<close> or points to one of the structures of the library, or to something of the application.\<close>

datatype nghttp2_ext_payload = Ext_altsvc nghttp2_ext_altsvc | Ext_origin nghttp2_ext_origin | Ext_app nat

record nghttp2_extension =
  ext_hd :: nghttp2_frame_hd
  ext_payload :: "nghttp2_ext_payload option"

section \<open>Frame headers\<close>

definition mem_store :: "u8 list \<Rightarrow> nat \<Rightarrow> u8 list \<Rightarrow> u8 list option" where
  "mem_store d at bs = (if at + length bs \<le> length d then Some (write_bytes d at bs) else None)"

definition nghttp2_frame_pack_frame_hd :: "u8 list \<Rightarrow> nat \<Rightarrow> nghttp2_frame_hd \<Rightarrow> u8 list option" where
  "nghttp2_frame_pack_frame_hd d at fh = do {
     d \<leftarrow> mem_store d at (nghttp2_put_uint32be (of_nat (push_bit 8 (fh_length fh))));
     d \<leftarrow> mem_store d (at + 3) [fh_type fh];
     d \<leftarrow> mem_store d (at + 4) [fh_flags fh];
     mem_store d (at + 5) (nghttp2_put_uint32be (word_of_int (fh_stream_id fh))) }"

definition nghttp2_frame_unpack_frame_hd :: "u8 list \<Rightarrow> nghttp2_frame_hd" where
  "nghttp2_frame_unpack_frame_hd buf =
     \<lparr>fh_length = unat (drop_bit 8 (nghttp2_get_uint32 buf)),
      fh_stream_id = uint (nghttp2_get_uint32 (drop 5 buf) AND NGHTTP2_STREAM_ID_MASK),
      fh_type = buf ! 3, fh_flags = buf ! 4, fh_reserved = 0\<rparr>"

definition nghttp2_frame_hd_init :: "nat \<Rightarrow> u8 \<Rightarrow> u8 \<Rightarrow> int \<Rightarrow> nghttp2_frame_hd" where
  "nghttp2_frame_hd_init len type flags stream_id =
     \<lparr>fh_length = len, fh_stream_id = stream_id, fh_type = type, fh_flags = flags, fh_reserved = 0\<rparr>"

section \<open>Initialisation\<close>

definition nghttp2_frame_headers_init ::
  "u8 \<Rightarrow> int \<Rightarrow> nghttp2_headers_category \<Rightarrow> nghttp2_priority_spec option \<Rightarrow> nghttp2_nv list \<Rightarrow> nghttp2_headers" where
  "nghttp2_frame_headers_init flags stream_id cat pri_spec nva =
     \<lparr>headers_hd = nghttp2_frame_hd_init 0 NGHTTP2_HEADERS flags stream_id, headers_padlen = 0,
      headers_pri_spec = (case pri_spec of Some p \<Rightarrow> p | None \<Rightarrow> nghttp2_priority_spec_default_init),
      headers_nva = nva, headers_cat = cat\<rparr>"

definition nghttp2_frame_priority_init :: "int \<Rightarrow> nghttp2_priority_spec \<Rightarrow> nghttp2_priority" where
  "nghttp2_frame_priority_init stream_id pri_spec =
     \<lparr>priority_hd = nghttp2_frame_hd_init NGHTTP2_PRIORITY_SPECLEN NGHTTP2_PRIORITY NGHTTP2_FLAG_NONE stream_id,
      priority_pri_spec = pri_spec\<rparr>"

definition nghttp2_frame_rst_stream_init :: "int \<Rightarrow> u32 \<Rightarrow> nghttp2_rst_stream" where
  "nghttp2_frame_rst_stream_init stream_id error_code =
     \<lparr>rst_hd = nghttp2_frame_hd_init 4 NGHTTP2_RST_STREAM NGHTTP2_FLAG_NONE stream_id, rst_error_code = error_code\<rparr>"

definition nghttp2_frame_settings_init :: "u8 \<Rightarrow> nghttp2_settings_entry list \<Rightarrow> nghttp2_settings" where
  "nghttp2_frame_settings_init flags iv =
     \<lparr>settings_hd = nghttp2_frame_hd_init (length iv * NGHTTP2_FRAME_SETTINGS_ENTRY_LENGTH) NGHTTP2_SETTINGS flags 0,
      settings_iv = iv\<rparr>"

definition nghttp2_frame_push_promise_init :: "u8 \<Rightarrow> int \<Rightarrow> int \<Rightarrow> nghttp2_nv list \<Rightarrow> nghttp2_push_promise" where
  "nghttp2_frame_push_promise_init flags stream_id promised nva =
     \<lparr>pp_hd = nghttp2_frame_hd_init 0 NGHTTP2_PUSH_PROMISE flags stream_id, pp_padlen = 0, pp_nva = nva,
      promised_stream_id = promised, pp_reserved = 0\<rparr>"

definition nghttp2_frame_ping_init :: "u8 \<Rightarrow> u8 list option \<Rightarrow> nghttp2_ping" where
  "nghttp2_frame_ping_init flags opaque_data =
     \<lparr>ping_hd = nghttp2_frame_hd_init 8 NGHTTP2_PING flags 0,
      ping_opaque_data = (case opaque_data of Some d \<Rightarrow> take 8 d | None \<Rightarrow> replicate 8 0)\<rparr>"

definition nghttp2_frame_goaway_init :: "int \<Rightarrow> u32 \<Rightarrow> u8 list \<Rightarrow> nghttp2_goaway" where
  "nghttp2_frame_goaway_init last_stream_id error_code opaque_data =
     \<lparr>goaway_hd = nghttp2_frame_hd_init (8 + length opaque_data) NGHTTP2_GOAWAY NGHTTP2_FLAG_NONE 0,
      goaway_last_stream_id = last_stream_id, goaway_error_code = error_code, goaway_opaque_data = opaque_data,
      goaway_reserved = 0\<rparr>"

definition nghttp2_frame_window_update_init :: "u8 \<Rightarrow> int \<Rightarrow> int \<Rightarrow> nghttp2_window_update" where
  "nghttp2_frame_window_update_init flags stream_id increment =
     \<lparr>wu_hd = nghttp2_frame_hd_init 4 NGHTTP2_WINDOW_UPDATE flags stream_id, window_size_increment = increment,
      wu_reserved = 0\<rparr>"

definition nghttp2_frame_trail_padlen :: "u8 \<Rightarrow> nat \<Rightarrow> nat" where
  "nghttp2_frame_trail_padlen flags padlen =
     (if padlen = 0 then 0 else padlen - (if flags AND NGHTTP2_FLAG_PADDED > 0 then 1 else 0))"

definition nghttp2_frame_data_init :: "u8 \<Rightarrow> int \<Rightarrow> nghttp2_data" where
  "nghttp2_frame_data_init flags stream_id =
     \<lparr>data_hd = nghttp2_frame_hd_init 0 NGHTTP2_DATA flags stream_id, data_padlen = 0\<rparr>"

definition nghttp2_frame_extension_init :: "u8 \<Rightarrow> u8 \<Rightarrow> int \<Rightarrow> nghttp2_ext_payload option \<Rightarrow> nghttp2_extension" where
  "nghttp2_frame_extension_init type flags stream_id payload =
     \<lparr>ext_hd = nghttp2_frame_hd_init 0 type flags stream_id, ext_payload = payload\<rparr>"

text \<open>The two following functions fill the structure that the payload pointer refers to.\<close>

definition nghttp2_frame_altsvc_init :: "int \<Rightarrow> u8 list \<Rightarrow> u8 list \<Rightarrow> nghttp2_extension" where
  "nghttp2_frame_altsvc_init stream_id origin field_value =
     \<lparr>ext_hd = nghttp2_frame_hd_init (2 + length origin + length field_value) NGHTTP2_ALTSVC NGHTTP2_FLAG_NONE stream_id,
      ext_payload = Some (Ext_altsvc \<lparr>altsvc_origin = origin, altsvc_field_value = field_value\<rparr>)\<rparr>"

definition nghttp2_frame_origin_init :: "u8 list list \<Rightarrow> nghttp2_extension" where
  "nghttp2_frame_origin_init ov =
     \<lparr>ext_hd = nghttp2_frame_hd_init (foldl (\<lambda>payloadlen origin. payloadlen + (2 + length origin)) 0 ov)
        NGHTTP2_ORIGIN NGHTTP2_FLAG_NONE 0,
      ext_payload = Some (Ext_origin \<lparr>origin_ov = ov\<rparr>)\<rparr>"

section \<open>Stores relative to a buffer\<close>

abbreviation head_buf :: "nghttp2_bufs \<Rightarrow> nghttp2_buf" where
  "head_buf bufs \<equiv> bufs_chain bufs ! 0"

definition set_buf :: "nghttp2_bufs \<Rightarrow> nat \<Rightarrow> nghttp2_buf \<Rightarrow> nghttp2_bufs" where
  "set_buf bufs i buf = bufs\<lparr>bufs_chain := (bufs_chain bufs)[i := buf]\<rparr>"

text \<open>\<^verbatim>\<open>buf->pos -= NGHTTP2_FRAME_HDLEN; nghttp2_frame_pack_frame_hd(buf->pos, &hd);\<close>\<close>

definition buf_pack_hd :: "nghttp2_buf \<Rightarrow> nghttp2_frame_hd \<Rightarrow> nghttp2_buf option" where
  "buf_pack_hd buf fh =
     (if buf_pos buf < NGHTTP2_FRAME_HDLEN then None
      else do {
        d \<leftarrow> nghttp2_frame_pack_frame_hd (buf_data buf) (buf_pos buf - NGHTTP2_FRAME_HDLEN) fh;
        Some (buf\<lparr>buf_data := d, buf_pos := buf_pos buf - NGHTTP2_FRAME_HDLEN\<rparr>) })"

text \<open>A store of \<open>bs\<close> at \<^verbatim>\<open>buf->last\<close>, which is then advanced.\<close>

definition buf_put :: "nghttp2_buf \<Rightarrow> u8 list \<Rightarrow> nghttp2_buf option" where
  "buf_put buf bs = do {
     d \<leftarrow> mem_store (buf_data buf) (buf_last buf) bs;
     Some (buf\<lparr>buf_data := d, buf_last := buf_last buf + length bs\<rparr>) }"

section \<open>HEADERS and CONTINUATION\<close>

definition nghttp2_frame_priority_len :: "u8 \<Rightarrow> nat" where
  "nghttp2_frame_priority_len flags = (if flags AND NGHTTP2_FLAG_PRIORITY \<noteq> 0 then NGHTTP2_PRIORITY_SPECLEN else 0)"

definition nghttp2_frame_headers_payload_nv_offset :: "nghttp2_headers \<Rightarrow> nat" where
  "nghttp2_frame_headers_payload_nv_offset frame = nghttp2_frame_priority_len (fh_flags (headers_hd frame))"

text \<open>The frame header of the chunk with index \<open>i\<close>; its length is what the chunk holds.\<close>

definition pack_chunk_hd :: "nghttp2_bufs \<Rightarrow> nghttp2_frame_hd \<Rightarrow> nat \<Rightarrow> nghttp2_bufs option" where
  "pack_chunk_hd bufs fh i =
     (let buf = bufs_chain bufs ! i in
      map_option (set_buf bufs i) (buf_pack_hd buf (fh\<lparr>fh_length := nghttp2_buf_len buf\<rparr>)))"

fun pack_continuations :: "nghttp2_bufs \<Rightarrow> nghttp2_frame_hd \<Rightarrow> nat list \<Rightarrow> nghttp2_bufs option" where
  "pack_continuations bufs fh [] = Some bufs"
| "pack_continuations bufs fh (i # is) = do {
     bufs \<leftarrow> pack_chunk_hd bufs fh i;
     pack_continuations bufs fh is }"

definition frame_pack_headers_shared :: "nghttp2_bufs \<Rightarrow> nghttp2_frame_hd \<Rightarrow> nghttp2_bufs option" where
  "frame_pack_headers_shared bufs frame_hd =
     (let fh = (if bufs_cur bufs \<noteq> 0
                then frame_hd\<lparr>fh_flags := fh_flags frame_hd AND NOT NGHTTP2_FLAG_END_HEADERS\<rparr> else frame_hd) in do {
        bufs \<leftarrow> pack_chunk_hd bufs fh 0;
        if bufs_cur bufs \<noteq> 0 then
          (let fh = fh\<lparr>fh_type := NGHTTP2_CONTINUATION, fh_flags := NGHTTP2_FLAG_NONE\<rparr> in do {
             bufs \<leftarrow> pack_continuations bufs fh [1..<bufs_cur bufs];
             pack_chunk_hd bufs (fh\<lparr>fh_flags := NGHTTP2_FLAG_END_HEADERS\<rparr>) (bufs_cur bufs) })
        else Some bufs })"

definition nghttp2_frame_pack_priority_spec :: "u8 list \<Rightarrow> nat \<Rightarrow> nghttp2_priority_spec \<Rightarrow> u8 list option" where
  "nghttp2_frame_pack_priority_spec d at pri_spec = do {
     d \<leftarrow> mem_store d at (nghttp2_put_uint32be (word_of_int (ps_stream_id pri_spec)));
     d \<leftarrow> (if ps_exclusive pri_spec then mem_store d at [(d ! at) OR 0x80] else Some d);
     mem_store d (at + 4) [word_of_int (ps_weight pri_spec - 1)] }"

definition nghttp2_frame_unpack_priority_spec :: "u8 list \<Rightarrow> nghttp2_priority_spec" where
  "nghttp2_frame_unpack_priority_spec payload =
     nghttp2_priority_spec_init (uint (nghttp2_get_uint32 payload AND NGHTTP2_STREAM_ID_MASK))
       (uint (payload ! 4) + 1) (if payload ! 0 AND 0x80 > 0 then 1 else 0)"

text \<open>
  A header block behind \<open>nv_offset\<close> bytes of the first buffer, as in \<^verbatim>\<open>nghttp2_frame_pack_headers\<close> and
  \<^verbatim>\<open>nghttp2_frame_pack_push_promise\<close>.
\<close>

definition pack_header_block ::
  "nghttp2_bufs \<Rightarrow> nghttp2_nv list \<Rightarrow> nat \<Rightarrow> nghttp2_hd_deflater \<Rightarrow>
   ((nghttp2_error + unit) \<times> nghttp2_hd_deflater \<times> nghttp2_bufs) option" where
  "pack_header_block bufs nva nv_offset df =
     (if bufs_cur bufs \<noteq> 0 then None
      else
        let buf = cur_buf bufs; pos = buf_pos buf + nv_offset in
        if pos > length (buf_data buf) then None
        else do {
          (rv, df, bufs) \<leftarrow> nghttp2_hd_deflate_hd_bufs df (set_cur_buf bufs (buf\<lparr>buf_pos := pos, buf_last := pos\<rparr>)) nva;
          let buf = head_buf bufs;
              bufs = set_buf bufs 0 (buf\<lparr>buf_pos := buf_pos buf - nv_offset\<rparr>) in
          Some (case rv of Inl e \<Rightarrow> Inl (if e = ERR_BUFFER_ERROR then ERR_HEADER_COMP else e) | Inr u \<Rightarrow> Inr u, df, bufs) })"

definition nghttp2_frame_pack_headers ::
  "nghttp2_bufs \<Rightarrow> nghttp2_headers \<Rightarrow> nghttp2_hd_deflater \<Rightarrow>
   ((nghttp2_error + unit) \<times> nghttp2_headers \<times> nghttp2_hd_deflater \<times> nghttp2_bufs) option" where
  "nghttp2_frame_pack_headers bufs frame df = do {
     (rv, df, bufs) \<leftarrow> pack_header_block bufs (headers_nva frame) (nghttp2_frame_headers_payload_nv_offset frame) df;
     case rv of
       Inl e \<Rightarrow> Some (Inl e, frame, df, bufs)
     | Inr _ \<Rightarrow> do {
         let buf = head_buf bufs;
         d \<leftarrow> (if fh_flags (headers_hd frame) AND NGHTTP2_FLAG_PRIORITY \<noteq> 0
               then nghttp2_frame_pack_priority_spec (buf_data buf) (buf_pos buf) (headers_pri_spec frame)
               else Some (buf_data buf));
         let bufs = set_buf bufs 0 (buf\<lparr>buf_data := d\<rparr>);
         let frame = frame\<lparr>headers_padlen := 0, headers_hd := (headers_hd frame)\<lparr>fh_length := nghttp2_bufs_len bufs\<rparr>\<rparr>;
         bufs \<leftarrow> frame_pack_headers_shared bufs (headers_hd frame);
         Some (Inr (), frame, df, bufs) } }"

definition nghttp2_frame_unpack_headers_payload :: "nghttp2_headers \<Rightarrow> u8 list \<Rightarrow> nghttp2_headers" where
  "nghttp2_frame_unpack_headers_payload frame payload =
     frame\<lparr>headers_pri_spec := (if fh_flags (headers_hd frame) AND NGHTTP2_FLAG_PRIORITY \<noteq> 0
                                then nghttp2_frame_unpack_priority_spec payload else nghttp2_priority_spec_default_init),
           headers_nva := []\<rparr>"

section \<open>PRIORITY and RST_STREAM\<close>

text \<open>
  The frames of one buffer: the header goes in front of \<^verbatim>\<open>pos\<close>, the payload of \<open>len\<close> bytes to \<^verbatim>\<open>last\<close>, after
  the assertions that the chain is at its head and has room.
\<close>

definition pack_fixed :: "nghttp2_bufs \<Rightarrow> nghttp2_frame_hd \<Rightarrow> nat \<Rightarrow> (nghttp2_buf \<Rightarrow> nghttp2_buf option) \<Rightarrow> nghttp2_bufs option" where
  "pack_fixed bufs fh len payload =
     (let buf = head_buf bufs in
      if bufs_cur bufs \<noteq> 0 \<or> nghttp2_buf_avail buf < len then None
      else do {
        buf \<leftarrow> buf_pack_hd buf fh;
        buf \<leftarrow> payload buf;
        Some (set_buf bufs 0 buf) })"

definition nghttp2_frame_pack_priority :: "nghttp2_bufs \<Rightarrow> nghttp2_priority \<Rightarrow> nghttp2_bufs option" where
  "nghttp2_frame_pack_priority bufs frame =
     pack_fixed bufs (priority_hd frame) NGHTTP2_PRIORITY_SPECLEN (\<lambda>buf. do {
       d \<leftarrow> nghttp2_frame_pack_priority_spec (buf_data buf) (buf_last buf) (priority_pri_spec frame);
       Some (buf\<lparr>buf_data := d, buf_last := buf_last buf + NGHTTP2_PRIORITY_SPECLEN\<rparr>) })"

definition nghttp2_frame_unpack_priority_payload :: "nghttp2_priority \<Rightarrow> u8 list \<Rightarrow> nghttp2_priority" where
  "nghttp2_frame_unpack_priority_payload frame payload =
     frame\<lparr>priority_pri_spec := nghttp2_frame_unpack_priority_spec payload\<rparr>"

definition nghttp2_frame_pack_rst_stream :: "nghttp2_bufs \<Rightarrow> nghttp2_rst_stream \<Rightarrow> nghttp2_bufs option" where
  "nghttp2_frame_pack_rst_stream bufs frame =
     pack_fixed bufs (rst_hd frame) 4 (\<lambda>buf. buf_put buf (nghttp2_put_uint32be (rst_error_code frame)))"

definition nghttp2_frame_unpack_rst_stream_payload :: "nghttp2_rst_stream \<Rightarrow> u8 list \<Rightarrow> nghttp2_rst_stream" where
  "nghttp2_frame_unpack_rst_stream_payload frame payload = frame\<lparr>rst_error_code := nghttp2_get_uint32 payload\<rparr>"

section \<open>SETTINGS\<close>

text \<open>The memory after the entries were stored from offset \<open>at\<close> on, and the number of bytes stored.\<close>

fun pack_settings_loop :: "u8 list \<Rightarrow> nat \<Rightarrow> nghttp2_settings_entry list \<Rightarrow> u8 list option" where
  "pack_settings_loop d at [] = Some d"
| "pack_settings_loop d at (iv # ivs) = do {
     d \<leftarrow> mem_store d at (nghttp2_put_uint16be (word_of_int (settings_id iv)));
     d \<leftarrow> mem_store d (at + 2) (nghttp2_put_uint32be (settings_value iv));
     pack_settings_loop d (at + NGHTTP2_FRAME_SETTINGS_ENTRY_LENGTH) ivs }"

definition nghttp2_frame_pack_settings_payload :: "u8 list \<Rightarrow> nat \<Rightarrow> nghttp2_settings_entry list \<Rightarrow> (u8 list \<times> nat) option" where
  "nghttp2_frame_pack_settings_payload d at iv =
     map_option (\<lambda>d. (d, NGHTTP2_FRAME_SETTINGS_ENTRY_LENGTH * length iv)) (pack_settings_loop d at iv)"

definition nghttp2_frame_pack_settings ::
  "nghttp2_bufs \<Rightarrow> nghttp2_settings \<Rightarrow> ((nghttp2_error + unit) \<times> nghttp2_bufs) option" where
  "nghttp2_frame_pack_settings bufs frame =
     (let buf = head_buf bufs in
      if bufs_cur bufs \<noteq> 0 then None
      else if nghttp2_buf_avail buf < fh_length (settings_hd frame) then Some (Inl ERR_FRAME_SIZE_ERROR, bufs)
      else do {
        buf \<leftarrow> buf_pack_hd buf (settings_hd frame);
        (d, n) \<leftarrow> nghttp2_frame_pack_settings_payload (buf_data buf) (buf_last buf) (settings_iv frame);
        Some (Inr (), set_buf bufs 0 (buf\<lparr>buf_data := d, buf_last := buf_last buf + n\<rparr>)) })"

definition nghttp2_frame_unpack_settings_payload :: "nghttp2_settings \<Rightarrow> nghttp2_settings_entry list \<Rightarrow> nghttp2_settings" where
  "nghttp2_frame_unpack_settings_payload frame iv = frame\<lparr>settings_iv := iv\<rparr>"

definition nghttp2_frame_unpack_settings_entry :: "u8 list \<Rightarrow> nghttp2_settings_entry" where
  "nghttp2_frame_unpack_settings_entry payload =
     \<lparr>settings_id = uint (nghttp2_get_uint16 payload), settings_value = nghttp2_get_uint32 (drop 2 payload)\<rparr>"

definition nghttp2_frame_unpack_settings_payload2 ::
  "nghttp2_mem \<Rightarrow> u8 list \<Rightarrow> (nghttp2_error + nghttp2_settings_entry list) \<times> nghttp2_mem" where
  "nghttp2_frame_unpack_settings_payload2 mem payload =
     (let niv = length payload div NGHTTP2_FRAME_SETTINGS_ENTRY_LENGTH in
      if niv = 0 then (Inr [], mem)
      else
        let (ok, mem) = mem_call mem in
        if \<not> ok then (Inl ERR_NOMEM, mem)
        else (Inr (map (\<lambda>i. nghttp2_frame_unpack_settings_entry (drop (i * NGHTTP2_FRAME_SETTINGS_ENTRY_LENGTH) payload))
                     [0..<niv]), mem))"

section \<open>PUSH_PROMISE, PING, GOAWAY and WINDOW_UPDATE\<close>

definition nghttp2_frame_pack_push_promise ::
  "nghttp2_bufs \<Rightarrow> nghttp2_push_promise \<Rightarrow> nghttp2_hd_deflater \<Rightarrow>
   ((nghttp2_error + unit) \<times> nghttp2_push_promise \<times> nghttp2_hd_deflater \<times> nghttp2_bufs) option" where
  "nghttp2_frame_pack_push_promise bufs frame df = do {
     (rv, df, bufs) \<leftarrow> pack_header_block bufs (pp_nva frame) 4 df;
     case rv of
       Inl e \<Rightarrow> Some (Inl e, frame, df, bufs)
     | Inr _ \<Rightarrow> do {
         let buf = head_buf bufs;
         d \<leftarrow> mem_store (buf_data buf) (buf_pos buf) (nghttp2_put_uint32be (word_of_int (promised_stream_id frame)));
         let bufs = set_buf bufs 0 (buf\<lparr>buf_data := d\<rparr>);
         let frame = frame\<lparr>pp_padlen := 0, pp_hd := (pp_hd frame)\<lparr>fh_length := nghttp2_bufs_len bufs\<rparr>\<rparr>;
         bufs \<leftarrow> frame_pack_headers_shared bufs (pp_hd frame);
         Some (Inr (), frame, df, bufs) } }"

definition nghttp2_frame_unpack_push_promise_payload :: "nghttp2_push_promise \<Rightarrow> u8 list \<Rightarrow> nghttp2_push_promise" where
  "nghttp2_frame_unpack_push_promise_payload frame payload =
     frame\<lparr>promised_stream_id := uint (nghttp2_get_uint32 payload AND NGHTTP2_STREAM_ID_MASK), pp_nva := []\<rparr>"

definition nghttp2_frame_pack_ping :: "nghttp2_bufs \<Rightarrow> nghttp2_ping \<Rightarrow> nghttp2_bufs option" where
  "nghttp2_frame_pack_ping bufs frame = pack_fixed bufs (ping_hd frame) 8 (\<lambda>buf. buf_put buf (ping_opaque_data frame))"

definition nghttp2_frame_unpack_ping_payload :: "nghttp2_ping \<Rightarrow> u8 list \<Rightarrow> nghttp2_ping" where
  "nghttp2_frame_unpack_ping_payload frame payload = frame\<lparr>ping_opaque_data := take 8 payload\<rparr>"

definition nghttp2_frame_pack_goaway ::
  "nghttp2_bufs \<Rightarrow> nghttp2_goaway \<Rightarrow> ((nghttp2_error + unit) \<times> nghttp2_bufs) option" where
  "nghttp2_frame_pack_goaway bufs frame = do {
     bufs \<leftarrow> pack_fixed bufs (goaway_hd frame) 0 (\<lambda>buf. do {
       buf \<leftarrow> buf_put buf (nghttp2_put_uint32be (word_of_int (goaway_last_stream_id frame)));
       buf_put buf (nghttp2_put_uint32be (goaway_error_code frame)) });
     (rv, bufs) \<leftarrow> nghttp2_bufs_add bufs (goaway_opaque_data frame);
     Some (case rv of Inl e \<Rightarrow> Inl (if e = ERR_BUFFER_ERROR then ERR_FRAME_SIZE_ERROR else e) | Inr u \<Rightarrow> Inr u, bufs) }"

definition nghttp2_frame_unpack_goaway_payload :: "nghttp2_goaway \<Rightarrow> u8 list \<Rightarrow> u8 list \<Rightarrow> nghttp2_goaway" where
  "nghttp2_frame_unpack_goaway_payload frame payload var_gift_payload =
     frame\<lparr>goaway_last_stream_id := uint (nghttp2_get_uint32 payload AND NGHTTP2_STREAM_ID_MASK),
           goaway_error_code := nghttp2_get_uint32 (drop 4 payload), goaway_opaque_data := var_gift_payload\<rparr>"

definition nghttp2_frame_unpack_goaway_payload2 ::
  "nghttp2_mem \<Rightarrow> nghttp2_goaway \<Rightarrow> u8 list \<Rightarrow> (nghttp2_error + nghttp2_goaway) \<times> nghttp2_mem" where
  "nghttp2_frame_unpack_goaway_payload2 mem frame payload =
     (let var_gift_payloadlen = (if length payload > 8 then length payload - 8 else 0) in
      if var_gift_payloadlen = 0 then (Inr (nghttp2_frame_unpack_goaway_payload frame payload []), mem)
      else
        let (ok, mem) = mem_call mem in
        if \<not> ok then (Inl ERR_NOMEM, mem)
        else (Inr (nghttp2_frame_unpack_goaway_payload frame payload (take var_gift_payloadlen (drop 8 payload))), mem))"

definition nghttp2_frame_pack_window_update :: "nghttp2_bufs \<Rightarrow> nghttp2_window_update \<Rightarrow> nghttp2_bufs option" where
  "nghttp2_frame_pack_window_update bufs frame =
     pack_fixed bufs (wu_hd frame) 4 (\<lambda>buf. buf_put buf (nghttp2_put_uint32be (word_of_int (window_size_increment frame))))"

definition nghttp2_frame_unpack_window_update_payload :: "nghttp2_window_update \<Rightarrow> u8 list \<Rightarrow> nghttp2_window_update" where
  "nghttp2_frame_unpack_window_update_payload frame payload =
     frame\<lparr>window_size_increment := uint (nghttp2_get_uint32 payload AND NGHTTP2_WINDOW_SIZE_INCREMENT_MASK)\<rparr>"

section \<open>ALTSVC and ORIGIN\<close>

definition nghttp2_frame_pack_altsvc :: "nghttp2_bufs \<Rightarrow> nghttp2_extension \<Rightarrow> nghttp2_bufs option" where
  "nghttp2_frame_pack_altsvc bufs frame =
     (case ext_payload frame of
        Some (Ext_altsvc altsvc) \<Rightarrow>
          let buf = head_buf bufs in
          if nghttp2_buf_avail buf < 2 + length (altsvc_origin altsvc) + length (altsvc_field_value altsvc) then None
          else do {
            buf \<leftarrow> buf_pack_hd buf (ext_hd frame);
            buf \<leftarrow> buf_put buf (nghttp2_put_uint16be (of_nat (length (altsvc_origin altsvc))));
            (rv, bufs) \<leftarrow> nghttp2_bufs_add (set_buf bufs 0 buf) (altsvc_origin altsvc);
            if rv \<noteq> Inr () then None
            else do {
              (rv, bufs) \<leftarrow> nghttp2_bufs_add bufs (altsvc_field_value altsvc);
              if rv \<noteq> Inr () then None else Some bufs } }
      | _ \<Rightarrow> None)"

text \<open>\<open>origin_len\<close> beyond the payload would give a field value behind the end of the memory: \<open>None\<close>.\<close>

definition nghttp2_frame_unpack_altsvc_payload :: "nghttp2_extension \<Rightarrow> nat \<Rightarrow> u8 list \<Rightarrow> nghttp2_extension option" where
  "nghttp2_frame_unpack_altsvc_payload frame origin_len payload =
     (if origin_len > length payload then None
      else Some (frame\<lparr>ext_payload := Some (Ext_altsvc
             \<lparr>altsvc_origin = take origin_len payload, altsvc_field_value = drop origin_len payload\<rparr>)\<rparr>))"

text \<open>The code returned is the integer of the source; \<^verbatim>\<open>NGHTTP2_FRAME_SIZE_ERROR\<close>, the code of RFC 7540, is 6.\<close>

definition NGHTTP2_FRAME_SIZE_ERROR :: int where "NGHTTP2_FRAME_SIZE_ERROR = 6"

definition nghttp2_frame_unpack_altsvc_payload2 ::
  "nghttp2_mem \<Rightarrow> nghttp2_extension \<Rightarrow> u8 list \<Rightarrow> (int \<times> nghttp2_extension \<times> nghttp2_mem) option" where
  "nghttp2_frame_unpack_altsvc_payload2 mem frame payload =
     (if length payload < 2 then Some (NGHTTP2_FRAME_SIZE_ERROR, frame, mem)
      else
        let origin_len = unat (nghttp2_get_uint16 payload); (ok, mem) = mem_call mem in
        if \<not> ok then Some (nghttp2_error_code ERR_NOMEM, frame, mem)
        else do {
          frame \<leftarrow> nghttp2_frame_unpack_altsvc_payload frame origin_len (drop 2 payload);
          Some (0, frame, mem) })"

fun pack_origin_loop :: "nghttp2_buf \<Rightarrow> u8 list list \<Rightarrow> nghttp2_buf option" where
  "pack_origin_loop buf [] = Some buf"
| "pack_origin_loop buf (orig # ov) = do {
     buf \<leftarrow> buf_put buf (nghttp2_put_uint16be (of_nat (length orig)));
     buf \<leftarrow> buf_put buf orig;
     pack_origin_loop buf ov }"

definition nghttp2_frame_pack_origin ::
  "nghttp2_bufs \<Rightarrow> nghttp2_extension \<Rightarrow> ((nghttp2_error + unit) \<times> nghttp2_bufs) option" where
  "nghttp2_frame_pack_origin bufs frame =
     (case ext_payload frame of
        Some (Ext_origin origin) \<Rightarrow>
          let buf = head_buf bufs in
          if nghttp2_buf_avail buf < fh_length (ext_hd frame) then Some (Inl ERR_FRAME_SIZE_ERROR, bufs)
          else do {
            buf \<leftarrow> buf_pack_hd buf (ext_hd frame);
            buf \<leftarrow> pack_origin_loop buf (origin_ov origin);
            if nghttp2_buf_len buf \<noteq> NGHTTP2_FRAME_HDLEN + fh_length (ext_hd frame) then None
            else Some (Inr (), set_buf bufs 0 buf) }
      | _ \<Rightarrow> None)"

text \<open>
  The first loop of \<^verbatim>\<open>nghttp2_frame_unpack_origin_payload\<close> counts the origins and the bytes they need; the
  second copies them, each with a terminating zero, into the memory behind the array of entries.  An
  entry is the offset and the length of its bytes in that memory.
\<close>

function origin_count :: "u8 list \<Rightarrow> nat \<Rightarrow> nat \<Rightarrow> nghttp2_error + nat \<times> nat" where
  "origin_count p nov len =
     (if p = [] then Inr (nov, len)
      else if length p < 2 then Inl ERR_FRAME_SIZE_ERROR
      else
        let originlen = unat (nghttp2_get_uint16 p); q = drop 2 p in
        if originlen = 0 then origin_count q nov len
        else if originlen > length q then Inl ERR_FRAME_SIZE_ERROR
        else origin_count (drop originlen q) (nov + 1) (len + originlen + 1))"
  by pat_completeness auto

termination
  by (relation "measure (\<lambda>(p, nov, len). length p)") auto

function origin_copy :: "u8 list \<Rightarrow> u8 list \<Rightarrow> nat \<Rightarrow> ((nat \<times> nat) list \<times> u8 list) option" where
  "origin_copy p d dst =
     (if p = [] then Some ([], d)
      else if length p < 2 then None
      else
        let originlen = unat (nghttp2_get_uint16 p); q = drop 2 p in
        if originlen = 0 then origin_copy q d dst
        else if originlen > length q then None
        else do {
          d \<leftarrow> mem_store d dst (take originlen q);
          d \<leftarrow> mem_store d (dst + originlen) [0];
          (ov, d) \<leftarrow> origin_copy (drop originlen q) d (dst + originlen + 1);
          Some ((dst, originlen) # ov, d) })"
  by pat_completeness auto

termination
  by (relation "measure (\<lambda>(p, d, dst). length p)") auto

definition nghttp2_frame_unpack_origin_payload ::
  "nghttp2_mem \<Rightarrow> nghttp2_extension \<Rightarrow> u8 list \<Rightarrow> ((nghttp2_error + nghttp2_extension) \<times> nghttp2_mem) option" where
  "nghttp2_frame_unpack_origin_payload mem frame payload =
     (case origin_count payload 0 0 of
        Inl e \<Rightarrow> Some (Inl e, mem)
      | Inr (nov, len) \<Rightarrow>
          if nov = 0 then Some (Inr (frame\<lparr>ext_payload := Some (Ext_origin \<lparr>origin_ov = []\<rparr>)\<rparr>), mem)
          else
            let d = mem_fresh mem len; (ok, mem) = mem_call mem in
            if \<not> ok then Some (Inl ERR_NOMEM, mem)
            else do {
              (ov, d) \<leftarrow> origin_copy payload d 0;
              if length ov \<noteq> nov then None
              else Some (Inr (frame\<lparr>ext_payload := Some (Ext_origin
                      \<lparr>origin_ov = map (\<lambda>(off, n). take n (drop off d)) ov\<rparr>)\<rparr>), mem) })"

section \<open>Name-value arrays and settings\<close>

definition nghttp2_frame_iv_copy :: "nghttp2_mem \<Rightarrow> nghttp2_settings_entry list \<Rightarrow> nghttp2_settings_entry list option \<times> nghttp2_mem" where
  "nghttp2_frame_iv_copy mem iv =
     (if iv = [] then (None, mem)
      else let (ok, mem) = mem_call mem in (if ok then Some iv else None, mem))"

definition nghttp2_nv_equal :: "nghttp2_nv \<Rightarrow> nghttp2_nv \<Rightarrow> bool" where
  "nghttp2_nv_equal a b \<longleftrightarrow> length (nv_name a) = length (nv_name b) \<and> length (nv_value a) = length (nv_value b) \<and>
     nv_name a = nv_name b \<and> nv_value a = nv_value b"

text \<open>\<^verbatim>\<open>memcmp\<close> of \<open>n\<close> bytes: the sign of the difference at the first byte that differs.\<close>

fun memcmp_loop :: "u8 list \<Rightarrow> u8 list \<Rightarrow> nat \<Rightarrow> int" where
  "memcmp_loop (x # xs) (y # ys) (Suc n) = (if x < y then -1 else if y < x then 1 else memcmp_loop xs ys n)"
| "memcmp_loop _ _ _ = 0"

definition bytes_compar :: "u8 list \<Rightarrow> u8 list \<Rightarrow> int" where
  "bytes_compar a b =
     (if length a = length b then memcmp_loop a b (length a)
      else if length a < length b then
        let rv = memcmp_loop a b (length a) in if rv = 0 then -1 else rv
      else
        let rv = memcmp_loop a b (length b) in if rv = 0 then 1 else rv)"

definition nghttp2_nv_compare_name :: "nghttp2_nv \<Rightarrow> nghttp2_nv \<Rightarrow> int" where
  "nghttp2_nv_compare_name lhs rhs = bytes_compar (nv_name lhs) (nv_name rhs)"

definition nv_compar :: "nghttp2_nv \<Rightarrow> nghttp2_nv \<Rightarrow> int" where
  "nv_compar a b =
     (let rv = bytes_compar (nv_name a) (nv_name b) in
      if rv = 0 then bytes_compar (nv_value a) (nv_value b) else rv)"

text \<open>
  \<^verbatim>\<open>nghttp2_nv_array_copy\<close> copies names and values, unless their flag forbids it, into the memory behind
  the new array, each with a terminating zero.  A string of a copied field is in the memory of the
  application, or an offset and a length in the copy.
\<close>

datatype nv_string = App_string "u8 list" | Own_string nat nat

record nv_copy =
  copy_name :: nv_string
  copy_value :: nv_string
  copy_flags :: u8

fun nv_copy_len :: "nghttp2_nv list \<Rightarrow> nat \<Rightarrow> nat" where
  "nv_copy_len [] buflen = buflen"
| "nv_copy_len (nv # nva) buflen =
     (let buflen = (if nv_flags nv AND NGHTTP2_NV_FLAG_NO_COPY_NAME = 0 then buflen + (length (nv_name nv) + 1) else buflen);
          buflen = (if nv_flags nv AND NGHTTP2_NV_FLAG_NO_COPY_VALUE = 0 then buflen + (length (nv_value nv) + 1) else buflen)
      in nv_copy_len nva buflen)"

fun nv_copy_loop :: "nghttp2_nv list \<Rightarrow> u8 list \<Rightarrow> nat \<Rightarrow> (nv_copy list \<times> u8 list) option" where
  "nv_copy_loop [] d data = Some ([], d)"
| "nv_copy_loop (nv # nva) d data = do {
     (name, d, data) \<leftarrow>
       (if nv_flags nv AND NGHTTP2_NV_FLAG_NO_COPY_NAME \<noteq> 0 then Some (App_string (nv_name nv), d, data)
        else do {
          d \<leftarrow> mem_store d data (nv_name nv);
          d \<leftarrow> mem_store d (data + length (nv_name nv)) [0];
          d \<leftarrow> mem_store d data (nghttp2_downcase (take (length (nv_name nv)) (drop data d)));
          Some (Own_string data (length (nv_name nv)), d, data + length (nv_name nv) + 1) });
     (val, d, data) \<leftarrow>
       (if nv_flags nv AND NGHTTP2_NV_FLAG_NO_COPY_VALUE \<noteq> 0 then Some (App_string (nv_value nv), d, data)
        else do {
          d \<leftarrow> mem_store d data (nv_value nv);
          d \<leftarrow> mem_store d (data + length (nv_value nv)) [0];
          Some (Own_string data (length (nv_value nv)), d, data + length (nv_value nv) + 1) });
     (ps, d) \<leftarrow> nv_copy_loop nva d data;
     Some (\<lparr>copy_name = name, copy_value = val, copy_flags = nv_flags nv\<rparr> # ps, d) }"

fun nv_read :: "u8 list \<Rightarrow> nv_string \<Rightarrow> u8 list" where
  "nv_read d (App_string s) = s"
| "nv_read d (Own_string off n) = take n (drop off d)"

definition nghttp2_nv_array_copy ::
  "nghttp2_mem \<Rightarrow> nghttp2_nv list \<Rightarrow> ((nghttp2_error + nghttp2_nv list) \<times> nghttp2_mem) option" where
  "nghttp2_nv_array_copy mem nva =
     (if nva = [] then Some (Inr [], mem)
      else
        let d = mem_fresh mem (nv_copy_len nva 0); (ok, mem) = mem_call mem in
        if \<not> ok then Some (Inl ERR_NOMEM, mem)
        else do {
          (ps, d) \<leftarrow> nv_copy_loop nva d 0;
          Some (Inr (map (\<lambda>p. \<lparr>nv_name = nv_read d (copy_name p), nv_value = nv_read d (copy_value p),
                               nv_flags = copy_flags p\<rparr>) ps), mem) })"

definition iv_entry_ok :: "nghttp2_settings_entry \<Rightarrow> bool" where
  "iv_entry_ok e =
     (if settings_id e = NGHTTP2_SETTINGS_ENABLE_PUSH then \<not> (settings_value e \<noteq> 0 \<and> settings_value e \<noteq> 1)
      else if settings_id e = NGHTTP2_SETTINGS_INITIAL_WINDOW_SIZE then \<not> settings_value e > 0x7fffffff
      else if settings_id e = NGHTTP2_SETTINGS_MAX_FRAME_SIZE then
        \<not> (settings_value e < of_nat NGHTTP2_MAX_FRAME_SIZE_MIN \<or> settings_value e > of_nat NGHTTP2_MAX_FRAME_SIZE_MAX)
      else if settings_id e = NGHTTP2_SETTINGS_ENABLE_CONNECT_PROTOCOL then
        \<not> (settings_value e \<noteq> 0 \<and> settings_value e \<noteq> 1)
      else True)"

fun nghttp2_iv_check :: "nghttp2_settings_entry list \<Rightarrow> bool" where
  "nghttp2_iv_check [] = True"
| "nghttp2_iv_check (e # iv) = (if \<not> iv_entry_ok e then False else nghttp2_iv_check iv)"

section \<open>Padding\<close>

definition frame_set_pad :: "nghttp2_buf \<Rightarrow> nat \<Rightarrow> bool \<Rightarrow> nghttp2_buf option" where
  "frame_set_pad buf padlen framehd_only =
     (if buf_pos buf < 1 \<or> buf_pos buf + NGHTTP2_FRAME_HDLEN > length (buf_data buf) then None
      else do {
        let pos = buf_pos buf - 1;
        d \<leftarrow> mem_store (buf_data buf) pos (take NGHTTP2_FRAME_HDLEN (drop (buf_pos buf) (buf_data buf)));
        d \<leftarrow> mem_store d (pos + 4) [(d ! (pos + 4)) OR NGHTTP2_FLAG_PADDED];
        let newlen = unat (drop_bit 8 (nghttp2_get_uint32 (drop pos d))) + padlen;
        d \<leftarrow> mem_store d pos (nghttp2_put_uint32be (of_nat (push_bit 8 newlen + unat (d ! (pos + 3)))));
        if framehd_only then Some (buf\<lparr>buf_data := d, buf_pos := pos\<rparr>)
        else do {
          let trail_padlen = padlen - 1;
          d \<leftarrow> mem_store d (pos + NGHTTP2_FRAME_HDLEN) [of_nat trail_padlen];
          d \<leftarrow> mem_store d (buf_last buf) (replicate trail_padlen 0);
          Some (buf\<lparr>buf_data := d, buf_pos := pos, buf_last := buf_last buf + trail_padlen\<rparr>) } })"

definition nghttp2_frame_add_pad ::
  "nghttp2_bufs \<Rightarrow> nghttp2_frame_hd \<Rightarrow> nat \<Rightarrow> bool \<Rightarrow> (nghttp2_bufs \<times> nghttp2_frame_hd) option" where
  "nghttp2_frame_add_pad bufs fh padlen framehd_only =
     (if padlen = 0 then Some (bufs, fh)
      else
        let buf = head_buf bufs in
        if nghttp2_buf_avail buf < padlen - 1 then None
        else do {
          buf \<leftarrow> frame_set_pad buf padlen framehd_only;
          Some (set_buf bufs 0 buf,
                fh\<lparr>fh_length := fh_length fh + padlen, fh_flags := fh_flags fh OR NGHTTP2_FLAG_PADDED\<rparr>) })"

section \<open>What is stored\<close>

lemma mem_store_Some: "at + length bs \<le> length d \<Longrightarrow> mem_store d at bs = Some (take at d @ bs @ drop (at + length bs) d)"
  by (simp add: mem_store_def write_bytes_append)

lemma mem_store_at: "mem_store (xs @ old @ ys) (length xs) bs = Some (xs @ bs @ ys)" if "length old = length bs"
  using that by (simp add: mem_store_Some)

text \<open>The nine bytes of a frame header.\<close>

definition hd_wire :: "nghttp2_frame_hd \<Rightarrow> u8 list" where
  "hd_wire fh = take 3 (nghttp2_put_uint32be (of_nat (push_bit 8 (fh_length fh)))) @ [fh_type fh, fh_flags fh] @
     nghttp2_put_uint32be (word_of_int (fh_stream_id fh))"

lemma length_hd_wire [simp, nghttp2_len]: "length (hd_wire fh) = 9"
  by (simp add: hd_wire_def)

lemma pack_frame_hd_at:
  assumes "length old = 9"
  shows "nghttp2_frame_pack_frame_hd (xs @ old @ ys) (length xs) fh = Some (xs @ hd_wire fh @ ys)"
proof -
  obtain a0 a1 a2 a3 a4 a5 a6 a7 a8 where old: "old = [a0, a1, a2, a3, a4, a5, a6, a7, a8]"
    using assms by (auto simp: length_Suc_conv numeral_eq_Suc)
  show ?thesis
    by (simp add: nghttp2_frame_pack_frame_hd_def old hd_wire_def nghttp2_put_uint32be_def mem_store_Some numeral_eq_Suc)
qed

lemma split_at_9:
  assumes "at + 9 \<le> length d"
  obtains xs old ys where "d = xs @ old @ ys" "length xs = at" "length old = 9"
proof (rule that)
  show "d = take at d @ take 9 (drop at d) @ drop 9 (drop at d)" by (simp only: append_take_drop_id)
qed (use assms in auto)

definition hd_valid :: "nghttp2_frame_hd \<Rightarrow> bool" where
  "hd_valid fh \<longleftrightarrow> fh_length fh < 2 ^ 24 \<and> 0 \<le> fh_stream_id fh \<and> fh_stream_id fh < 2 ^ 31 \<and> fh_reserved fh = 0"

lemma stream_id_mask: "0 \<le> i \<Longrightarrow> i < 2 ^ 31 \<Longrightarrow> uint ((word_of_int i :: u32) AND mask 31) = i"
  by (simp add: take_bit_eq_mask [symmetric] unsigned_take_bit_eq uint_word_of_int take_bit_int_eq_self)

lemma uint_mask_31: "uint (w AND mask 31 :: u32) < 2 ^ 31"
  using take_bit_int_less_exp [of 31 "uint w"] by (simp add: take_bit_eq_mask [symmetric] unsigned_take_bit_eq)

lemma take3_put_get: "nghttp2_get_uint32 (take 3 (nghttp2_put_uint32be n) @ r) = (n AND NOT (mask 8)) OR ucast (r ! 0)"
proof (rule bit_word_eqI)
  fix i :: nat
  assume "i < LENGTH(32)"
  then consider "i < 8" | "8 \<le> i" "i < 16" | "16 \<le> i" "i < 24" | "24 \<le> i" "i < 32"
    by fastforce
  then show "bit (nghttp2_get_uint32 (take 3 (nghttp2_put_uint32be n) @ r)) i = bit ((n AND NOT (mask 8)) OR ucast (r ! 0)) i"
    by cases (simp_all add: nghttp2_get_uint32_def nghttp2_put_uint32be_def bit_simps less_diff_conv2)
qed

lemma hd_roundtrip:
  assumes "hd_valid fh"
  shows "nghttp2_frame_unpack_frame_hd (hd_wire fh @ r) = fh"
proof -
  let ?n = "of_nat (push_bit 8 (fh_length fh)) :: u32"
  have "drop_bit 8 ((?n AND NOT (mask 8)) OR ucast (fh_type fh)) = drop_bit 8 ?n"
    by (rule bit_word_eqI) (auto simp: bit_simps)
  moreover have "unat (drop_bit 8 ?n) = fh_length fh"
  proof -
    have "push_bit 8 (fh_length fh) < 2 ^ 32" using assms by (simp add: hd_valid_def push_bit_eq_mult)
    then show ?thesis by (simp only: unat_drop_bit_eq unat_of_nat_u32) (simp add: drop_bit_eq_div push_bit_eq_mult)
  qed
  moreover have "nghttp2_get_uint32 (hd_wire fh @ r) = (?n AND NOT (mask 8)) OR ucast (fh_type fh)"
    by (simp add: hd_wire_def take3_put_get)
  moreover have "drop 5 (hd_wire fh @ r) = nghttp2_put_uint32be (word_of_int (fh_stream_id fh)) @ r"
    by (simp add: hd_wire_def nghttp2_put_uint32be_def numeral_eq_Suc)
  moreover have "(hd_wire fh @ r) ! 3 = fh_type fh" "(hd_wire fh @ r) ! 4 = fh_flags fh"
    by (simp_all add: hd_wire_def nghttp2_put_uint32be_def numeral_eq_Suc)
  ultimately show ?thesis using assms stream_id_mask [of "fh_stream_id fh"]
    by (simp add: nghttp2_frame_unpack_frame_hd_def hd_valid_def NGHTTP2_STREAM_ID_MASK_def)
qed

section \<open>Priority fields and settings\<close>

definition excl_bit :: u32 where "excl_bit = push_bit 31 1"

lemma bit_excl_bit [simp]: "bit excl_bit n \<longleftrightarrow> n = 31"
  by (auto simp: excl_bit_def bit_push_bit_iff bit_1_iff simp del: push_bit_of_1)

definition prio_wire :: "nghttp2_priority_spec \<Rightarrow> u8 list" where
  "prio_wire ps = nghttp2_put_uint32be (word_of_int (ps_stream_id ps) OR (if ps_exclusive ps then excl_bit else 0)) @
     [word_of_int (ps_weight ps - 1)]"

definition prio_valid :: "nghttp2_priority_spec \<Rightarrow> bool" where
  "prio_valid ps \<longleftrightarrow> 0 \<le> ps_stream_id ps \<and> ps_stream_id ps < 2 ^ 31 \<and> 1 \<le> ps_weight ps \<and> ps_weight ps \<le> 256"

lemma length_prio_wire [simp, nghttp2_len]: "length (prio_wire ps) = 5"
  by (simp add: prio_wire_def)

lemma put_uint32be_top:
  "nghttp2_put_uint32be (w OR excl_bit) = (nghttp2_put_uint32be w)[0 := (nghttp2_put_uint32be w) ! 0 OR 0x80]"
proof -
  have "ucast (drop_bit 24 excl_bit) = (0x80 :: u8)" "ucast (drop_bit 16 excl_bit) = (0 :: u8)"
    "ucast (drop_bit 8 excl_bit) = (0 :: u8)" "ucast excl_bit = (0 :: u8)"
    unfolding excl_bit_def by code_simp+
  then show ?thesis by (simp add: nghttp2_put_uint32be_def drop_bit_or unsigned_or_eq)
qed

lemma pack_priority_spec_at:
  assumes "length old = 5"
  shows "nghttp2_frame_pack_priority_spec (xs @ old @ ys) (length xs) ps = Some (xs @ prio_wire ps @ ys)"
proof -
  obtain a0 a1 a2 a3 a4 where old: "old = [a0, a1, a2, a3, a4]"
    using assms by (auto simp: length_Suc_conv numeral_eq_Suc)
  obtain b0 b1 b2 b3 where b: "nghttp2_put_uint32be (word_of_int (ps_stream_id ps)) = [b0, b1, b2, b3]"
    by (simp add: nghttp2_put_uint32be_def)
  show ?thesis
    by (cases "ps_exclusive ps")
      (simp_all add: nghttp2_frame_pack_priority_spec_def old prio_wire_def b put_uint32be_top mem_store_Some numeral_eq_Suc nth_append)
qed

lemma u8_and_80: "(w :: u8) AND 0x80 = (if bit w 7 then 0x80 else 0)"
proof (rule bit_word_eqI)
  fix i :: nat
  have e: "(0x80 :: u8) = push_bit 7 1" by code_simp
  have "bit (0x80 :: u8) i \<longleftrightarrow> i = 7" unfolding e by (auto simp: bit_push_bit_iff bit_1_iff simp del: push_bit_of_1)
  then show "bit (w AND 0x80) i = bit (if bit w 7 then 0x80 else 0 :: u8) i" by (auto simp: bit_and_iff)
qed

lemma prio_roundtrip:
  assumes "prio_valid ps"
  shows "nghttp2_frame_unpack_priority_spec (prio_wire ps @ r) = ps"
proof -
  let ?w = "word_of_int (ps_stream_id ps) :: u32" and ?t = "if ps_exclusive ps then excl_bit else 0"
  have g: "nghttp2_get_uint32 (prio_wire ps @ r) = ?w OR ?t" by (simp add: prio_wire_def)
  have "(?w OR ?t) AND mask 31 = ?w AND mask 31"
    by (rule bit_word_eqI) (auto simp: bit_simps)
  then have id: "uint ((?w OR ?t) AND mask 31) = ps_stream_id ps" using assms stream_id_mask [of "ps_stream_id ps"] by (simp add: prio_valid_def)
  have "uint (word_of_int (ps_weight ps - 1) :: u8) = ps_weight ps - 1"
    using assms by (subst uint_word_of_int) (simp add: prio_valid_def)
  moreover have "(prio_wire ps @ r) ! 4 = word_of_int (ps_weight ps - 1)"
    by (simp add: prio_wire_def nth_append)
  ultimately have w: "uint ((prio_wire ps @ r) ! 4) + 1 = ps_weight ps" by simp
  have nb: "\<not> bit ?w 31"
    using assms bit_take_bit_iff [of 31 "ps_stream_id ps" 31] by (simp add: prio_valid_def bit_word_of_int_iff take_bit_int_eq_self)
  have "(prio_wire ps @ r) ! 0 = ucast (drop_bit 24 (?w OR ?t))" by (simp add: prio_wire_def nghttp2_put_uint32be_def)
  moreover have "bit (ucast (drop_bit 24 (?w OR ?t)) :: u8) 7 = ps_exclusive ps"
    using nb by (simp add: bit_simps)
  ultimately have "(if (prio_wire ps @ r) ! 0 AND 0x80 > 0 then 1 else 0 :: int) = (if ps_exclusive ps then 1 else 0)"
    by (simp add: u8_and_80)
  then show ?thesis using id w unfolding nghttp2_frame_unpack_priority_spec_def nghttp2_priority_spec_init_def g NGHTTP2_STREAM_ID_MASK_def
    by simp
qed

definition settings_wire :: "nghttp2_settings_entry list \<Rightarrow> u8 list" where
  "settings_wire iv = concat (map (\<lambda>e. nghttp2_put_uint16be (word_of_int (settings_id e)) @ nghttp2_put_uint32be (settings_value e)) iv)"

definition iv_valid :: "nghttp2_settings_entry \<Rightarrow> bool" where
  "iv_valid e \<longleftrightarrow> 0 \<le> settings_id e \<and> settings_id e < 2 ^ 16"

lemma length_settings_wire [simp, nghttp2_len]: "length (settings_wire iv) = 6 * length iv"
  by (induction iv) (simp_all add: settings_wire_def)

lemma pack_settings_at:
  "length old = 6 * length iv \<Longrightarrow> pack_settings_loop (xs @ old @ ys) (length xs) iv = Some (xs @ settings_wire iv @ ys)"
proof (induction iv arbitrary: xs old)
  case (Cons e iv)
  let ?b = "nghttp2_put_uint16be (word_of_int (settings_id e)) @ nghttp2_put_uint32be (settings_value e)"
  obtain a b c where old: "old = a @ b @ c" "length a = 2" "length b = 4" "length c = 6 * length iv"
  proof (rule that)
    show "old = take 2 old @ take 4 (drop 2 old) @ drop 4 (drop 2 old)" by (simp only: append_take_drop_id)
  qed (use Cons.prems in auto)
  have 1: "mem_store (xs @ old @ ys) (length xs) (nghttp2_put_uint16be (word_of_int (settings_id e))) =
      Some (xs @ nghttp2_put_uint16be (word_of_int (settings_id e)) @ b @ c @ ys)"
    using mem_store_at [of a _ xs "b @ c @ ys"] old by simp
  have 2: "mem_store (xs @ nghttp2_put_uint16be (word_of_int (settings_id e)) @ b @ c @ ys) (length xs + 2) (nghttp2_put_uint32be (settings_value e)) =
      Some (xs @ ?b @ c @ ys)"
    using mem_store_at [of b "nghttp2_put_uint32be (settings_value e)" "xs @ nghttp2_put_uint16be (word_of_int (settings_id e))" "c @ ys"] old by simp
  show ?case using Cons.IH [of c "xs @ ?b"] old(4) 1 2
    by (simp add: NGHTTP2_FRAME_SETTINGS_ENTRY_LENGTH_def) (simp add: settings_wire_def)
qed (simp add: settings_wire_def)

lemma settings_entry_roundtrip:
  assumes "iv_valid e"
  shows "nghttp2_frame_unpack_settings_entry
     (nghttp2_put_uint16be (word_of_int (settings_id e)) @ nghttp2_put_uint32be (settings_value e) @ r) = e"
proof -
  have "uint (word_of_int (settings_id e) :: u16) = settings_id e"
    using assms by (simp add: iv_valid_def uint_word_of_int take_bit_int_eq_self)
  then show ?thesis by (simp add: nghttp2_frame_unpack_settings_entry_def)
qed

lemma settings_roundtrip:
  assumes "list_all iv_valid iv" "mem_reliable mem"
  shows "fst (nghttp2_frame_unpack_settings_payload2 mem (settings_wire iv)) = Inr iv"
proof -
  have "map (\<lambda>i. nghttp2_frame_unpack_settings_entry (drop (i * 6) (settings_wire iv))) [0..<length iv] = iv"
    using assms(1)
  proof (induction iv)
    case (Cons e iv)
    have "map (\<lambda>i. nghttp2_frame_unpack_settings_entry (drop (i * 6) (settings_wire (e # iv)))) [1..<Suc (length iv)] =
      map (\<lambda>i. nghttp2_frame_unpack_settings_entry (drop (i * 6) (settings_wire iv))) [0..<length iv]"
      unfolding One_nat_def map_Suc_upt [symmetric] by (simp add: settings_wire_def comp_def del: upt_Suc)
    moreover have "nghttp2_frame_unpack_settings_entry (settings_wire (e # iv)) = e"
      using settings_entry_roundtrip [of e] Cons.prems by (simp add: settings_wire_def)
    ultimately show ?case using Cons by (simp add: upt_conv_Cons del: upt_Suc)
  qed simp
  then show ?thesis using mem_call_reliable [OF assms(2)]
    by (auto simp: nghttp2_frame_unpack_settings_payload2_def NGHTTP2_FRAME_SETTINGS_ENTRY_LENGTH_def Let_def case_prod_beta)
qed

section \<open>Packing into a buffer\<close>

lemma pack_frame_hd_Some:
  assumes "at + 9 \<le> length d"
  shows "nghttp2_frame_pack_frame_hd d at fh = Some (take at d @ hd_wire fh @ drop (at + 9) d)"
proof -
  obtain xs old ys where "d = xs @ old @ ys" "length xs = at" "length old = 9" using split_at_9 [OF assms] .
  then show ?thesis using pack_frame_hd_at [of old xs ys fh] by simp
qed

lemma pack_priority_spec_Some:
  assumes "at + 5 \<le> length d"
  shows "nghttp2_frame_pack_priority_spec d at ps = Some (take at d @ prio_wire ps @ drop (at + 5) d)"
proof -
  have "d = take at d @ take 5 (drop at d) @ drop 5 (drop at d)" by (simp only: append_take_drop_id)
  then show ?thesis using pack_priority_spec_at [of "take 5 (drop at d)" "take at d" "drop 5 (drop at d)" ps] assms
    by (simp add: add.commute)
qed

lemma pack_settings_Some:
  assumes "at + 6 * length iv \<le> length d"
  shows "pack_settings_loop d at iv = Some (take at d @ settings_wire iv @ drop (at + 6 * length iv) d)"
proof -
  have "d = take at d @ take (6 * length iv) (drop at d) @ drop (6 * length iv) (drop at d)" by (simp only: append_take_drop_id)
  then show ?thesis using pack_settings_at [of "take (6 * length iv) (drop at d)" iv "take at d" "drop (6 * length iv) (drop at d)"] assms
    by (simp add: add.commute)
qed

text \<open>The frame header goes in front of the bytes the buffer holds.\<close>

lemma buf_pack_hd_ok:
  assumes "buf_wf buf" "9 \<le> buf_pos buf"
  obtains buf' where "buf_pack_hd buf fh = Some buf'" "buf_wf buf'" "buf_bytes buf' = hd_wire fh @ buf_bytes buf"
    "buf_last buf' = buf_last buf" "length (buf_data buf') = length (buf_data buf)" "buf_pos buf' + 9 = buf_pos buf"
proof -
  let ?p = "buf_pos buf" and ?d = "buf_data buf"
  have le: "?p - 9 + 9 \<le> length ?d" "?p \<le> buf_last buf" "buf_last buf \<le> length ?d" using assms by (auto simp: buf_wf_def)
  let ?d' = "take (?p - 9) ?d @ hd_wire fh @ drop ?p ?d"
  let ?b = "buf\<lparr>buf_data := ?d', buf_pos := ?p - 9\<rparr>"
  have 1: "buf_pack_hd buf fh = Some ?b"
    using pack_frame_hd_Some [OF le(1), of fh] assms(2) by (simp add: buf_pack_hd_def NGHTTP2_FRAME_HDLEN_def)
  have len: "length ?d' = length ?d" using assms by (auto simp: buf_wf_def)
  have "buf_wf ?b" using le len by (simp add: buf_wf_def)
  moreover have "buf_bytes ?b = hd_wire fh @ buf_bytes buf"
    using assms(2) le by (simp add: buf_bytes_def nghttp2_buf_len_def)
  ultimately show ?thesis by (intro that [OF 1]) (use assms len in simp_all)
qed

lemma buf_put_cpymem: "length bs \<le> nghttp2_buf_avail buf \<Longrightarrow> buf_wf buf \<Longrightarrow> buf_put buf bs = Some (buf_cpymem buf bs)"
  by (auto simp: buf_put_def mem_store_def buf_cpymem_def nghttp2_buf_avail_def buf_wf_def)

lemma write_bytes_add: "write_bytes d at (xs @ ys) = write_bytes (write_bytes d at xs) (at + length xs) ys"
  by (induction d at xs rule: write_bytes.induct) simp_all

lemma buf_cpymem_cpymem: "buf_cpymem (buf_cpymem buf as) bs = buf_cpymem buf (as @ bs)"
  by (simp add: buf_cpymem_def write_bytes_add add.assoc)

lemma buf_put_put:
  assumes "buf_wf buf" "length as + length bs \<le> nghttp2_buf_avail buf"
  shows "do { buf \<leftarrow> buf_put buf as; buf_put buf bs } = Some (buf_cpymem buf (as @ bs))"
proof -
  have "buf_wf (buf_cpymem buf as)" using buf_cpymem_correct [of buf as] assms by simp
  then have "buf_put (buf_cpymem buf as) bs = Some (buf_cpymem (buf_cpymem buf as) bs)" using assms by (intro buf_put_cpymem) simp_all
  then show ?thesis using assms by (simp add: buf_put_cpymem buf_cpymem_cpymem)
qed

text \<open>
  The chain a session packs a frame into: at its head, empty, with ten bytes free in front.  This is
  how \<^verbatim>\<open>session_new\<close> creates it and \<^verbatim>\<open>nghttp2_bufs_reset\<close> leaves it.
\<close>

definition frame_ready :: "nghttp2_bufs \<Rightarrow> bool" where
  "frame_ready bufs \<longleftrightarrow> bufs_regular bufs \<and> bufs_cur bufs = 0 \<and> bufs_offset bufs = NGHTTP2_FRAME_HDLEN + 1 \<and>
     buf_pos (head_buf bufs) = bufs_offset bufs \<and> buf_last (head_buf bufs) = bufs_offset bufs \<and>
     list_all (\<lambda>buf. length (buf_data buf) = chunk_length bufs) (bufs_chain bufs) \<and> chunk_length bufs \<le> 2 ^ 24"

lemma set_buf_cur: "bufs_cur bufs = i \<Longrightarrow> set_buf bufs i buf = set_cur_buf bufs buf"
  by (simp add: set_buf_def set_cur_buf_def)

lemma frame_ready_head:
  assumes "frame_ready bufs"
  shows "bufs_wf bufs" "buf_wf (head_buf bufs)" "buf_pos (head_buf bufs) = 10" "buf_last (head_buf bufs) = 10" "bufs_cur bufs = 0"
    "buf_bytes (head_buf bufs) = []"
proof -
  show wf: "bufs_wf bufs" using assms by (simp add: frame_ready_def bufs_regular_def)
  show c: "bufs_cur bufs = 0" "buf_pos (head_buf bufs) = 10" "buf_last (head_buf bufs) = 10"
    using assms by (simp_all add: frame_ready_def NGHTTP2_FRAME_HDLEN_def)
  show "buf_wf (head_buf bufs)" using wf c by (simp add: bufs_wf_def list_all_length)
  show "buf_bytes (head_buf bufs) = []" using c by (simp add: buf_bytes_def nghttp2_buf_len_def)
qed

lemma ready_set_head:
  assumes "frame_ready bufs" "buf_wf buf" "length (buf_data buf) = length (buf_data (head_buf bufs))"
  shows "bufs_regular (set_buf bufs 0 buf)" "bufs_bytes (set_buf bufs 0 buf) = buf_bytes buf"
proof -
  note r = frame_ready_head [OF assms(1)]
  have wf: "bufs_wf (set_buf bufs 0 buf)"
    using r(1,5) assms(2) by (auto simp: set_buf_def bufs_wf_def list_all_length nth_list_update)
  show "bufs_regular (set_buf bufs 0 buf)"
    using regular_set_cur [of bufs buf] assms wf r(5) by (simp add: set_buf_cur frame_ready_def)
  have "concat (map buf_bytes (drop (Suc 0) (bufs_chain bufs))) = []"
    using r(1,5) buf_bytes_empty by (auto simp: bufs_wf_def list_all_iff)
  moreover have "bufs_chain (set_buf bufs 0 buf) = buf # drop (Suc 0) (bufs_chain bufs)"
    using r(1,5) by (cases "bufs_chain bufs") (auto simp: set_buf_def bufs_wf_def)
  ultimately show "bufs_bytes (set_buf bufs 0 buf) = buf_bytes buf" by (simp add: bufs_bytes_def)
qed

lemma pack_fixed_ok:
  assumes ready: "frame_ready bufs" and len: "len \<le> nghttp2_buf_avail (head_buf bufs)" "length bs \<le> nghttp2_buf_avail (head_buf bufs)"
    and f: "\<And>buf. buf_wf buf \<Longrightarrow> length bs \<le> nghttp2_buf_avail buf \<Longrightarrow> f buf = Some (buf_cpymem buf bs)"
  obtains bufs' where "pack_fixed bufs fh len f = Some bufs'" "bufs_regular bufs'" "bufs_cur bufs' = 0" "bufs_bytes bufs' = hd_wire fh @ bs"
proof -
  note r = frame_ready_head [OF ready]
  obtain buf where buf: "buf_pack_hd (head_buf bufs) fh = Some buf" "buf_wf buf" "buf_bytes buf = hd_wire fh"
    "buf_last buf = buf_last (head_buf bufs)" "length (buf_data buf) = length (buf_data (head_buf bufs))"
    using buf_pack_hd_ok [OF r(2), of fh] r(3,6) by auto
  have "nghttp2_buf_avail buf = nghttp2_buf_avail (head_buf bufs)" using buf(4,5) by (simp add: nghttp2_buf_avail_def)
  then have av: "length bs \<le> nghttp2_buf_avail buf" using len(2) by simp
  have c: "buf_wf (buf_cpymem buf bs)" "buf_bytes (buf_cpymem buf bs) = hd_wire fh @ bs"
    using buf_cpymem_correct [OF buf(2) av] buf(3) by simp_all
  have p: "pack_fixed bufs fh len f = Some (set_buf bufs 0 (buf_cpymem buf bs))"
    using f [OF buf(2) av] buf(1) len(1) r(5) by (simp add: pack_fixed_def)
  show ?thesis using ready_set_head [OF ready c(1)] c(2) buf(5) r(5) by (intro that [OF p]) (simp_all add: set_buf_def)
qed

section \<open>Frames of one buffer\<close>

lemma bufs_add_fits:
  assumes "bufs_wf bufs" "length bs \<le> nghttp2_buf_avail (cur_buf bufs)"
  shows "nghttp2_bufs_add bufs bs = Some (Inr (), if bs = [] then bufs else set_cur_buf bufs (buf_cpymem (cur_buf bufs) bs))"
proof (cases "bs = []")
  case True
  then show ?thesis by (subst nghttp2_bufs_add.simps) simp
next
  case False
  have "nghttp2_bufs_add (set_cur_buf bufs (buf_cpymem (cur_buf bufs) bs)) [] = Some (Inr (), set_cur_buf bufs (buf_cpymem (cur_buf bufs) bs))"
    by (subst nghttp2_bufs_add.simps) simp
  then show ?thesis using False assms(2) by (subst nghttp2_bufs_add.simps) (simp add: Let_def)
qed

lemma add_head:
  assumes "bufs_regular bufs" "bufs_cur bufs = 0" "length bs \<le> nghttp2_buf_avail (head_buf bufs)"
  obtains bufs' where "nghttp2_bufs_add bufs bs = Some (Inr (), bufs')" "bufs_regular bufs'" "bufs_cur bufs' = 0"
    "bufs_bytes bufs' = bufs_bytes bufs @ bs" "nghttp2_buf_avail (head_buf bufs') = nghttp2_buf_avail (head_buf bufs) - length bs"
proof -
  have wf: "bufs_wf bufs" using assms(1) by (rule regular_wf)
  have fit: "length bs \<le> nghttp2_buf_avail (cur_buf bufs)" using assms by simp
  note w = bufs_write_correct [OF wf fit]
  have "bufs_regular (set_cur_buf bufs (buf_cpymem (cur_buf bufs) bs))"
    using regular_set_cur [OF assms(1)] w by simp
  moreover have "head_buf (set_cur_buf bufs (buf_cpymem (cur_buf bufs) bs)) = buf_cpymem (cur_buf bufs) bs"
    using wf assms(2) by (simp add: bufs_wf_def)
  moreover have "buf_wf (cur_buf bufs)" using wf by (auto simp: bufs_wf_def list_all_length)
  ultimately show ?thesis
    using bufs_add_fits [OF wf fit] w assms by (cases "bs = []") (auto intro!: that)
qed

text \<open>One frame, as the union of the structures; the two functions of a frame type.\<close>

datatype nghttp2_frame =
    Frame_data nghttp2_data | Frame_headers nghttp2_headers | Frame_priority nghttp2_priority
  | Frame_rst_stream nghttp2_rst_stream | Frame_settings nghttp2_settings | Frame_push_promise nghttp2_push_promise
  | Frame_ping nghttp2_ping | Frame_goaway nghttp2_goaway | Frame_window_update nghttp2_window_update
  | Frame_ext nghttp2_extension

fun frame_hd :: "nghttp2_frame \<Rightarrow> nghttp2_frame_hd" where
  "frame_hd (Frame_data f) = data_hd f"
| "frame_hd (Frame_headers f) = headers_hd f"
| "frame_hd (Frame_priority f) = priority_hd f"
| "frame_hd (Frame_rst_stream f) = rst_hd f"
| "frame_hd (Frame_settings f) = settings_hd f"
| "frame_hd (Frame_push_promise f) = pp_hd f"
| "frame_hd (Frame_ping f) = ping_hd f"
| "frame_hd (Frame_goaway f) = goaway_hd f"
| "frame_hd (Frame_window_update f) = wu_hd f"
| "frame_hd (Frame_ext f) = ext_hd f"

abbreviation done_ok :: "nghttp2_bufs option \<Rightarrow> ((nghttp2_error + unit) \<times> nghttp2_bufs) option" where
  "done_ok r \<equiv> map_option (\<lambda>bufs. (Inr (), bufs)) r"

fun pack_control :: "nghttp2_bufs \<Rightarrow> nghttp2_frame \<Rightarrow> ((nghttp2_error + unit) \<times> nghttp2_bufs) option" where
  "pack_control bufs (Frame_priority f) = done_ok (nghttp2_frame_pack_priority bufs f)"
| "pack_control bufs (Frame_rst_stream f) = done_ok (nghttp2_frame_pack_rst_stream bufs f)"
| "pack_control bufs (Frame_settings f) = nghttp2_frame_pack_settings bufs f"
| "pack_control bufs (Frame_ping f) = done_ok (nghttp2_frame_pack_ping bufs f)"
| "pack_control bufs (Frame_goaway f) = nghttp2_frame_pack_goaway bufs f"
| "pack_control bufs (Frame_window_update f) = done_ok (nghttp2_frame_pack_window_update bufs f)"
| "pack_control bufs (Frame_ext f) =
     (if fh_type (ext_hd f) = NGHTTP2_ALTSVC then done_ok (nghttp2_frame_pack_altsvc bufs f)
      else if fh_type (ext_hd f) = NGHTTP2_ORIGIN then nghttp2_frame_pack_origin bufs f else None)"
| "pack_control bufs _ = None"

definition unpack_control :: "nghttp2_mem \<Rightarrow> nghttp2_frame_hd \<Rightarrow> u8 list \<Rightarrow> (nghttp2_error + nghttp2_frame) option" where
  "unpack_control mem fh payload =
     (if fh_type fh = NGHTTP2_PRIORITY then
        Some (Inr (Frame_priority (nghttp2_frame_unpack_priority_payload
          \<lparr>priority_hd = fh, priority_pri_spec = nghttp2_priority_spec_default_init\<rparr> payload)))
      else if fh_type fh = NGHTTP2_RST_STREAM then
        Some (Inr (Frame_rst_stream (nghttp2_frame_unpack_rst_stream_payload \<lparr>rst_hd = fh, rst_error_code = 0\<rparr> payload)))
      else if fh_type fh = NGHTTP2_SETTINGS then
        Some (case fst (nghttp2_frame_unpack_settings_payload2 mem payload) of
                Inl e \<Rightarrow> Inl e
              | Inr iv \<Rightarrow> Inr (Frame_settings (nghttp2_frame_unpack_settings_payload \<lparr>settings_hd = fh, settings_iv = []\<rparr> iv)))
      else if fh_type fh = NGHTTP2_PING then
        Some (Inr (Frame_ping (nghttp2_frame_unpack_ping_payload \<lparr>ping_hd = fh, ping_opaque_data = []\<rparr> payload)))
      else if fh_type fh = NGHTTP2_GOAWAY then
        Some (case fst (nghttp2_frame_unpack_goaway_payload2 mem
                \<lparr>goaway_hd = fh, goaway_last_stream_id = 0, goaway_error_code = 0, goaway_opaque_data = [], goaway_reserved = 0\<rparr> payload) of
                Inl e \<Rightarrow> Inl e | Inr f \<Rightarrow> Inr (Frame_goaway f))
      else if fh_type fh = NGHTTP2_WINDOW_UPDATE then
        Some (Inr (Frame_window_update (nghttp2_frame_unpack_window_update_payload
          \<lparr>wu_hd = fh, window_size_increment = 0, wu_reserved = 0\<rparr> payload)))
      else if fh_type fh = NGHTTP2_ALTSVC then
        map_option (\<lambda>f. Inr (Frame_ext f))
          (nghttp2_frame_unpack_altsvc_payload \<lparr>ext_hd = fh, ext_payload = None\<rparr> (unat (nghttp2_get_uint16 payload)) (drop 2 payload))
      else if fh_type fh = NGHTTP2_ORIGIN then
        map_option (\<lambda>(r, mem). case r of Inl e \<Rightarrow> Inl e | Inr f \<Rightarrow> Inr (Frame_ext f))
          (nghttp2_frame_unpack_origin_payload mem \<lparr>ext_hd = fh, ext_payload = None\<rparr> payload)
      else None)"

lemmas frame_types = NGHTTP2_DATA_def NGHTTP2_HEADERS_def NGHTTP2_PRIORITY_def NGHTTP2_RST_STREAM_def NGHTTP2_SETTINGS_def
  NGHTTP2_PUSH_PROMISE_def NGHTTP2_PING_def NGHTTP2_GOAWAY_def NGHTTP2_WINDOW_UPDATE_def NGHTTP2_CONTINUATION_def
  NGHTTP2_ALTSVC_def NGHTTP2_ORIGIN_def

section \<open>Origins\<close>

text \<open>What an ORIGIN payload means: the origins it lists, without the empty ones; \<open>None\<close> if it is cut short.\<close>

function origin_entries :: "u8 list \<Rightarrow> u8 list list option" where
  "origin_entries p =
     (if p = [] then Some []
      else if length p < 2 then None
      else
        let n = unat (nghttp2_get_uint16 p); q = drop 2 p in
        if n > length q then None
        else map_option (\<lambda>ov. if n = 0 then ov else take n q # ov) (origin_entries (drop n q)))"
  by pat_completeness auto

termination
  by (relation "measure length") auto

declare origin_entries.simps [simp del] origin_count.simps [simp del] origin_copy.simps [simp del]

abbreviation origin_size :: "u8 list list \<Rightarrow> nat" where
  "origin_size ov \<equiv> sum_list (map (\<lambda>s. length s + 1) ov)"

lemma origin_count_entries:
  "origin_count p nov len =
     (case origin_entries p of None \<Rightarrow> Inl ERR_FRAME_SIZE_ERROR | Some ov \<Rightarrow> Inr (nov + length ov, len + origin_size ov))"
proof (induction p nov len rule: origin_count.induct)
  case (1 p nov len)
  let ?n = "unat (nghttp2_get_uint16 p)" and ?q = "drop 2 p"
  consider "p = []" | "p \<noteq> []" "length p < 2" | "p \<noteq> []" "\<not> length p < 2" "?n = 0" | "p \<noteq> []" "\<not> length p < 2" "?n \<noteq> 0" "?n > length ?q"
    | "p \<noteq> []" "\<not> length p < 2" "?n \<noteq> 0" "\<not> ?n > length ?q" by blast
  then show ?case
  proof cases
    case 3
    note c = this
    show ?thesis using 1(1) [OF c(1,2) refl refl c(3)] c
      by (subst origin_count.simps, subst origin_entries.simps) (simp add: Let_def option.map_ident split: option.splits)
  next
    case 5
    note c = this
    show ?thesis using 1(2) [OF c(1,2) refl refl c(3,4)] c
      by (subst origin_count.simps, subst origin_entries.simps) (simp add: Let_def split: option.splits)
  qed (subst origin_count.simps, subst origin_entries.simps, simp add: Let_def)+
qed

lemma origin_copy_entries:
  assumes "origin_entries p = Some ov" "dst + origin_size ov \<le> length d"
  obtains es d' where "origin_copy p d dst = Some (es, d')" "length d' = length d" "take dst d' = take dst d"
    "map (\<lambda>(off, n). take n (drop off d')) es = ov" "length es = length ov"
proof -
  have "\<exists>es d'. origin_copy p d dst = Some (es, d') \<and> length d' = length d \<and> take dst d' = take dst d \<and>
    map (\<lambda>(off, n). take n (drop off d')) es = ov"
    using assms
  proof (induction p d dst arbitrary: ov rule: origin_copy.induct)
    case (1 p d dst)
    let ?n = "unat (nghttp2_get_uint16 p)" and ?q = "drop 2 p"
    have e: "origin_entries p = (if p = [] then Some [] else if length p < 2 then None else if ?n > length ?q then None
      else map_option (\<lambda>ov. if ?n = 0 then ov else take ?n ?q # ov) (origin_entries (drop ?n ?q)))"
      by (subst origin_entries.simps) (simp add: Let_def)
    consider "p = []" | "p \<noteq> []" "\<not> length p < 2" "?n = 0" | "p \<noteq> []" "\<not> length p < 2" "?n \<noteq> 0" "\<not> ?n > length ?q"
      using 1(3) e by (auto split: if_splits)
    then show ?case
    proof cases
      case 1
      then show ?thesis using \<open>origin_entries p = Some ov\<close> e by (subst origin_copy.simps) simp
    next
      case 2
      note c = this
      have "origin_entries ?q = Some ov" using 1(3) e c by (auto simp: option.map_ident)
      from 1(1) [OF c(1,2) refl refl c(3) this 1(4)] show ?thesis using c by (subst origin_copy.simps) (simp add: Let_def)
    next
      case 3
      note c = this
      obtain ov' where ov': "origin_entries (drop ?n ?q) = Some ov'" "ov = take ?n ?q # ov'" using 1(3) e c by auto
      have nl: "?n \<le> length p - 2" using c by simp
      have fit: "dst + ?n + 1 + origin_size ov' \<le> length d" using 1(4) ov'(2) nl by simp
      define d1 where "d1 = take dst d @ take ?n ?q @ drop (dst + ?n) d"
      define d2 where "d2 = take (dst + ?n) d1 @ [0] @ drop (dst + ?n + 1) d1"
      have s1: "mem_store d dst (take ?n ?q) = Some d1" using fit nl by (simp add: mem_store_Some d1_def)
      have l1: "length d1 = length d" using fit nl by (simp add: d1_def)
      have s2: "mem_store d1 (dst + ?n) [0] = Some d2" using fit l1 mem_store_Some [of "dst + ?n" "[0]" d1] by (simp add: d2_def)
      have l2: "length d2 = length d" using l1 fit by (simp add: d2_def)
      have fit2: "dst + ?n + 1 + origin_size ov' \<le> length d2" using fit by (simp only: l2)
      obtain es d' where ih: "origin_copy (drop ?n ?q) d2 (dst + ?n + 1) = Some (es, d')" "length d' = length d2"
        "take (dst + ?n + 1) d' = take (dst + ?n + 1) d2" "map (\<lambda>(off, n). take n (drop off d')) es = ov'"
        using 1(2) [OF c(1,2) refl refl c(3,4) s1 s2 ov'(1) fit2] by blast
      have eq: "origin_copy p d dst = Some ((dst, ?n) # es, d')"
        using c s1 s2 ih(1) by (subst origin_copy.simps) (simp add: Let_def)
      have t2: "take (dst + ?n + 1) d2 = take dst d @ take ?n ?q @ [0]" using fit nl by (simp add: d1_def d2_def)
      have "take dst d' = take dst (take (dst + ?n + 1) d')" by (simp add: min_def)
      also have "\<dots> = take dst d" unfolding ih(3) t2 using fit by simp
      finally have 2: "take dst d' = take dst d" .
      have "take ?n (drop dst d') = take ?n (drop dst (take (dst + ?n + 1) d'))" by (simp add: drop_take)
      also have "\<dots> = take ?n ?q" unfolding ih(3) t2 using fit nl by simp
      finally have 3: "take ?n (drop dst d') = take ?n ?q" .
      show ?thesis
        by (rule exI [of _ "(dst, ?n) # es"], rule exI [of _ d'])
          (simp only: eq ih(2,4) l2 2 3 ov'(2) list.map prod.case simp_thms)
    qed
  qed
  then show ?thesis using that by (metis length_map)
qed

lemma origin_unpack:
  "nghttp2_frame_unpack_origin_payload mem frame payload =
     (case origin_entries payload of
        None \<Rightarrow> Some (Inl ERR_FRAME_SIZE_ERROR, mem)
      | Some ov \<Rightarrow>
          if ov = [] then Some (Inr (frame\<lparr>ext_payload := Some (Ext_origin \<lparr>origin_ov = []\<rparr>)\<rparr>), mem)
          else if \<not> fst (mem_call mem) then Some (Inl ERR_NOMEM, snd (mem_call mem))
          else Some (Inr (frame\<lparr>ext_payload := Some (Ext_origin \<lparr>origin_ov = ov\<rparr>)\<rparr>), snd (mem_call mem)))"
proof (cases "origin_entries payload")
  case None
  then show ?thesis by (simp add: nghttp2_frame_unpack_origin_payload_def origin_count_entries)
next
  case (Some ov)
  show ?thesis
  proof (cases "ov = []")
    case True
    then show ?thesis using Some by (simp add: nghttp2_frame_unpack_origin_payload_def origin_count_entries)
  next
    case False
    obtain es d' where c: "origin_copy payload (mem_fresh mem (origin_size ov)) 0 = Some (es, d')"
      "map (\<lambda>(off, n). take n (drop off d')) es = ov" "length es = length ov"
      by (rule origin_copy_entries [OF Some, of 0 "mem_fresh mem (origin_size ov)"]) (simp, blast)
    have "nghttp2_frame_unpack_origin_payload mem frame payload =
      (if \<not> fst (mem_call mem) then Some (Inl ERR_NOMEM, snd (mem_call mem))
       else Some (Inr (frame\<lparr>ext_payload := Some (Ext_origin \<lparr>origin_ov = map (\<lambda>(off, n). take n (drop off d')) es\<rparr>)\<rparr>), snd (mem_call mem)))"
      unfolding nghttp2_frame_unpack_origin_payload_def origin_count_entries Some using False c(1,3)
      by (simp add: Let_def case_prod_beta)
    then show ?thesis using Some False by (simp only: c(2) option.case if_False)
  qed
qed

definition origin_wire :: "u8 list list \<Rightarrow> u8 list" where
  "origin_wire ov = concat (map (\<lambda>s. nghttp2_put_uint16be (of_nat (length s)) @ s) ov)"

lemma length_origin_wire [simp, nghttp2_len]: "length (origin_wire ov) = sum_list (map (\<lambda>s. 2 + length s) ov)"
  by (induction ov) (simp_all add: origin_wire_def)

lemma unat_of_nat_u16: "x < 2 ^ 16 \<Longrightarrow> unat (of_nat x :: u16) = x"
  by (simp add: unat_of_nat)

lemma origin_entries_wire: "list_all (\<lambda>s. length s < 2 ^ 16) ov \<Longrightarrow> origin_entries (origin_wire ov) = Some (filter (\<lambda>s. s \<noteq> []) ov)"
proof (induction ov)
  case Nil
  show ?case by (subst origin_entries.simps) (simp add: origin_wire_def)
next
  case (Cons s ov)
  let ?w = "nghttp2_put_uint16be (of_nat (length s) :: u16) @ s @ origin_wire ov"
  have n: "unat (of_nat (length s) :: u16) = length s" using Cons.prems by (intro unat_of_nat_u16) simp
  have ne: "nghttp2_put_uint16be x \<noteq> []" for x by (simp add: nghttp2_put_uint16be_def)
  have "origin_entries ?w = Some (filter (\<lambda>s. s \<noteq> []) (s # ov))"
    using Cons by (subst origin_entries.simps) (cases "s = []"; simp add: n ne Let_def)
  then show ?case by (simp add: origin_wire_def)
qed

lemma pack_origin_loop_ok:
  assumes "buf_wf buf" "length (origin_wire ov) \<le> nghttp2_buf_avail buf"
  shows "pack_origin_loop buf ov = Some (buf_cpymem buf (origin_wire ov))"
  using assms
proof (induction ov arbitrary: buf)
  case Nil
  show ?case by (simp add: origin_wire_def buf_cpymem_def)
next
  case (Cons s ov)
  let ?l = "nghttp2_put_uint16be (of_nat (length s) :: u16)"
  have fit: "length ?l + length s + length (origin_wire ov) \<le> nghttp2_buf_avail buf" using Cons.prems(2) by simp
  have p: "do { buf \<leftarrow> buf_put buf ?l; buf_put buf s } = Some (buf_cpymem buf (?l @ s))"
    using fit by (intro buf_put_put [OF Cons.prems(1)]) simp
  have "buf_wf (buf_cpymem buf (?l @ s))" using buf_cpymem_correct [OF Cons.prems(1), of "?l @ s"] fit by simp
  then have "pack_origin_loop (buf_cpymem buf (?l @ s)) ov = Some (buf_cpymem (buf_cpymem buf (?l @ s)) (origin_wire ov))"
    using fit Cons.prems(1) by (intro Cons.IH) simp_all
  moreover have "pack_origin_loop buf (s # ov) = do { buf \<leftarrow> do { buf \<leftarrow> buf_put buf ?l; buf_put buf s }; pack_origin_loop buf ov }"
    by (simp add: bind_assoc)
  ultimately show ?case unfolding p by (simp add: buf_cpymem_cpymem origin_wire_def)
qed

section \<open>Control frames\<close>

definition altsvc_wire :: "nghttp2_ext_altsvc \<Rightarrow> u8 list" where
  "altsvc_wire a = nghttp2_put_uint16be (of_nat (length (altsvc_origin a))) @ altsvc_origin a @ altsvc_field_value a"

text \<open>The frames a session makes, and their payloads.\<close>

fun control_wire :: "nghttp2_frame \<Rightarrow> u8 list" where
  "control_wire (Frame_priority f) = prio_wire (priority_pri_spec f)"
| "control_wire (Frame_rst_stream f) = nghttp2_put_uint32be (rst_error_code f)"
| "control_wire (Frame_settings f) = settings_wire (settings_iv f)"
| "control_wire (Frame_ping f) = ping_opaque_data f"
| "control_wire (Frame_goaway f) =
     nghttp2_put_uint32be (word_of_int (goaway_last_stream_id f)) @ nghttp2_put_uint32be (goaway_error_code f) @ goaway_opaque_data f"
| "control_wire (Frame_window_update f) = nghttp2_put_uint32be (word_of_int (window_size_increment f))"
| "control_wire (Frame_ext f) =
     (case ext_payload f of Some (Ext_altsvc a) \<Rightarrow> altsvc_wire a | Some (Ext_origin orr) \<Rightarrow> origin_wire (origin_ov orr) | _ \<Rightarrow> [])"
| "control_wire _ = []"

definition is_id31 :: "int \<Rightarrow> bool" where
  "is_id31 i \<longleftrightarrow> 0 \<le> i \<and> i < 2 ^ 31"

fun control_content :: "nghttp2_frame \<Rightarrow> bool" where
  "control_content (Frame_priority f) \<longleftrightarrow> fh_type (priority_hd f) = NGHTTP2_PRIORITY \<and> prio_valid (priority_pri_spec f)"
| "control_content (Frame_rst_stream f) \<longleftrightarrow> fh_type (rst_hd f) = NGHTTP2_RST_STREAM"
| "control_content (Frame_settings f) \<longleftrightarrow> fh_type (settings_hd f) = NGHTTP2_SETTINGS \<and> list_all iv_valid (settings_iv f)"
| "control_content (Frame_ping f) \<longleftrightarrow> fh_type (ping_hd f) = NGHTTP2_PING \<and> length (ping_opaque_data f) = 8"
| "control_content (Frame_goaway f) \<longleftrightarrow> fh_type (goaway_hd f) = NGHTTP2_GOAWAY \<and> is_id31 (goaway_last_stream_id f) \<and> goaway_reserved f = 0"
| "control_content (Frame_window_update f) \<longleftrightarrow>
     fh_type (wu_hd f) = NGHTTP2_WINDOW_UPDATE \<and> is_id31 (window_size_increment f) \<and> wu_reserved f = 0"
| "control_content (Frame_ext f) \<longleftrightarrow>
     (case ext_payload f of
        Some (Ext_altsvc a) \<Rightarrow> fh_type (ext_hd f) = NGHTTP2_ALTSVC \<and> length (altsvc_origin a) < 2 ^ 16
      | Some (Ext_origin orr) \<Rightarrow> fh_type (ext_hd f) = NGHTTP2_ORIGIN \<and> list_all (\<lambda>s. length s < 2 ^ 16) (origin_ov orr)
      | _ \<Rightarrow> False)"
| "control_content _ \<longleftrightarrow> False"

text \<open>The frame the receiver gets: the same one, but an ORIGIN frame without its empty origins.\<close>

fun control_received :: "nghttp2_frame \<Rightarrow> nghttp2_frame" where
  "control_received (Frame_ext f) =
     (case ext_payload f of
        Some (Ext_origin orr) \<Rightarrow> Frame_ext (f\<lparr>ext_payload := Some (Ext_origin (orr\<lparr>origin_ov := filter (\<lambda>s. s \<noteq> []) (origin_ov orr)\<rparr>))\<rparr>)
      | _ \<Rightarrow> Frame_ext f)"
| "control_received f = f"

definition control_valid :: "nghttp2_frame \<Rightarrow> bool" where
  "control_valid f \<longleftrightarrow> control_content f \<and> hd_valid (frame_hd f) \<and> fh_length (frame_hd f) = length (control_wire f)"

lemma mask31: "is_id31 i \<Longrightarrow> uint ((word_of_int i :: u32) AND mask 31) = i"
  using stream_id_mask [of i] by (simp add: is_id31_def)

lemma unpack_control_wire:
  assumes "control_content f" "mem_reliable mem"
  shows "unpack_control mem (frame_hd f) (control_wire f) = Some (Inr (control_received f))"
proof (cases f)
  case (Frame_priority g)
  then show ?thesis using assms prio_roundtrip [of "priority_pri_spec g" "[]"]
    by (simp add: unpack_control_def nghttp2_frame_unpack_priority_payload_def)
next
  case (Frame_rst_stream g)
  then show ?thesis using assms get_put_uint32 [of "rst_error_code g" "[]"]
    by (simp add: unpack_control_def nghttp2_frame_unpack_rst_stream_payload_def frame_types)
next
  case (Frame_settings g)
  then show ?thesis using assms settings_roundtrip [of "settings_iv g" mem]
    by (simp add: unpack_control_def nghttp2_frame_unpack_settings_payload_def frame_types)
next
  case (Frame_ping g)
  then show ?thesis using assms by (simp add: unpack_control_def nghttp2_frame_unpack_ping_payload_def frame_types)
next
  case (Frame_goaway g)
  let ?p = "control_wire f"
  have "nghttp2_get_uint32 (drop 4 ?p) = goaway_error_code g" "nghttp2_get_uint32 ?p = word_of_int (goaway_last_stream_id g)"
    "drop 8 ?p = goaway_opaque_data g" "length ?p = 8 + length (goaway_opaque_data g)"
    using Frame_goaway by simp_all
  then show ?thesis using assms Frame_goaway mask31 [of "goaway_last_stream_id g"] mem_call_reliable [of mem]
    by (simp add: unpack_control_def nghttp2_frame_unpack_goaway_payload2_def nghttp2_frame_unpack_goaway_payload_def frame_types
        NGHTTP2_STREAM_ID_MASK_def Let_def case_prod_beta del: control_wire.simps)
next
  case (Frame_window_update g)
  then show ?thesis using assms mask31 [of "window_size_increment g"] get_put_uint32 [of "word_of_int (window_size_increment g)" "[]"]
    by (simp add: unpack_control_def nghttp2_frame_unpack_window_update_payload_def frame_types NGHTTP2_WINDOW_SIZE_INCREMENT_MASK_def)
next
  case (Frame_ext g)
  show ?thesis
  proof (cases "ext_payload g")
    case None
    then show ?thesis using assms Frame_ext by simp
  next
    case (Some p)
    show ?thesis
    proof (cases p)
      case (Ext_altsvc a)
      then show ?thesis using assms Frame_ext Some
        by (simp add: unpack_control_def nghttp2_frame_unpack_altsvc_payload_def frame_types altsvc_wire_def unat_of_nat_u16 del: of_nat_eq_id)
    next
      case (Ext_origin orr)
      then have "origin_entries (control_wire f) = Some (filter (\<lambda>s. s \<noteq> []) (origin_ov orr))" using assms Frame_ext Some by (simp add: origin_entries_wire)
      then show ?thesis using assms Frame_ext Some Ext_origin mem_call_reliable [of mem]
        by (cases orr) (simp add: unpack_control_def origin_unpack frame_types del: control_wire.simps)
    qed (use assms Frame_ext Some in simp)
  qed
qed (use assms in simp_all)

lemma buf_store_cpymem:
  "buf_wf buf \<Longrightarrow> length bs \<le> nghttp2_buf_avail buf \<Longrightarrow>
   buf\<lparr>buf_data := take (buf_last buf) (buf_data buf) @ bs @ drop (buf_last buf + length bs) (buf_data buf), buf_last := buf_last buf + length bs\<rparr> =
   buf_cpymem buf bs"
  by (subst buf_cpymem_def, subst write_bytes_append) (auto simp: buf_wf_def nghttp2_buf_avail_def)

lemma pack_settings_fixed:
  "bufs_cur bufs = 0 \<Longrightarrow> fh_length (settings_hd f) \<le> nghttp2_buf_avail (head_buf bufs) \<Longrightarrow>
   nghttp2_frame_pack_settings bufs f = done_ok (pack_fixed bufs (settings_hd f) 0 (\<lambda>buf. do {
     (d, n) \<leftarrow> nghttp2_frame_pack_settings_payload (buf_data buf) (buf_last buf) (settings_iv f);
     Some (buf\<lparr>buf_data := d, buf_last := buf_last buf + n\<rparr>) }))"
  by (auto simp: nghttp2_frame_pack_settings_def pack_fixed_def Let_def split: option.splits Option.bind_splits prod.splits)

lemma pack_origin_fixed:
  assumes "frame_ready bufs" "ext_payload f = Some (Ext_origin orr)" "fh_length (ext_hd f) = length (origin_wire (origin_ov orr))"
    "length (origin_wire (origin_ov orr)) \<le> nghttp2_buf_avail (head_buf bufs)"
  obtains bufs' where "nghttp2_frame_pack_origin bufs f = Some (Inr (), bufs')" "bufs_regular bufs'" "bufs_cur bufs' = 0"
    "bufs_bytes bufs' = hd_wire (ext_hd f) @ origin_wire (origin_ov orr)"
proof -
  let ?w = "origin_wire (origin_ov orr)"
  note r = frame_ready_head [OF assms(1)]
  obtain buf where buf: "buf_pack_hd (head_buf bufs) (ext_hd f) = Some buf" "buf_wf buf" "buf_bytes buf = hd_wire (ext_hd f)"
    "buf_last buf = buf_last (head_buf bufs)" "length (buf_data buf) = length (buf_data (head_buf bufs))" "buf_pos buf + 9 = buf_pos (head_buf bufs)"
    using buf_pack_hd_ok [OF r(2), of "ext_hd f"] r(3,6) by auto
  have "nghttp2_buf_avail buf = nghttp2_buf_avail (head_buf bufs)" using buf(4,5) by (simp add: nghttp2_buf_avail_def)
  then have av: "length ?w \<le> nghttp2_buf_avail buf" using assms(4) by simp
  note c = buf_cpymem_correct [OF buf(2) av]
  have len: "nghttp2_buf_len (buf_cpymem buf ?w) = NGHTTP2_FRAME_HDLEN + fh_length (ext_hd f)"
    using buf(4,6) r(3,4) assms(3) by (simp add: nghttp2_buf_len_def NGHTTP2_FRAME_HDLEN_def del: length_origin_wire)
  have p: "nghttp2_frame_pack_origin bufs f = Some (Inr (), set_buf bufs 0 (buf_cpymem buf ?w))"
    using assms(2-4) buf(1) pack_origin_loop_ok [OF buf(2) av] len by (simp add: nghttp2_frame_pack_origin_def del: length_origin_wire)
  show ?thesis using ready_set_head [OF assms(1), of "buf_cpymem buf ?w"] c buf(3,5) r(5) by (intro that [OF p]) (simp_all add: set_buf_def)
qed

lemma pack_altsvc_ok:
  assumes "frame_ready bufs" "ext_payload f = Some (Ext_altsvc a)" "length (altsvc_wire a) \<le> nghttp2_buf_avail (head_buf bufs)"
  obtains bufs' where "nghttp2_frame_pack_altsvc bufs f = Some bufs'" "bufs_regular bufs'" "bufs_cur bufs' = 0"
    "bufs_bytes bufs' = hd_wire (ext_hd f) @ altsvc_wire a"
proof -
  let ?l = "nghttp2_put_uint16be (of_nat (length (altsvc_origin a)) :: u16)"
  note r = frame_ready_head [OF assms(1)]
  have fit: "2 + length (altsvc_origin a) + length (altsvc_field_value a) \<le> nghttp2_buf_avail (head_buf bufs)"
    using assms(3) by (simp add: altsvc_wire_def)
  obtain buf where buf: "buf_pack_hd (head_buf bufs) (ext_hd f) = Some buf" "buf_wf buf" "buf_bytes buf = hd_wire (ext_hd f)"
    "buf_last buf = buf_last (head_buf bufs)" "length (buf_data buf) = length (buf_data (head_buf bufs))"
    using buf_pack_hd_ok [OF r(2), of "ext_hd f"] r(3,6) by auto
  have av: "nghttp2_buf_avail buf = nghttp2_buf_avail (head_buf bufs)" using buf(4,5) by (simp add: nghttp2_buf_avail_def)
  have put: "buf_put buf ?l = Some (buf_cpymem buf ?l)" using fit av by (intro buf_put_cpymem [OF _ buf(2)]) simp
  have c: "buf_wf (buf_cpymem buf ?l)" "buf_bytes (buf_cpymem buf ?l) = hd_wire (ext_hd f) @ ?l"
    using buf_cpymem_correct [OF buf(2), of ?l] fit av buf(3) by simp_all
  let ?b = "set_buf bufs 0 (buf_cpymem buf ?l)"
  have b: "bufs_regular ?b" "bufs_bytes ?b = hd_wire (ext_hd f) @ ?l" "bufs_cur ?b = 0"
    using ready_set_head [OF assms(1) c(1)] c(2) buf(5) r(5) by (simp_all add: set_buf_def)
  have hb: "head_buf ?b = buf_cpymem buf ?l" using r(1,5) by (simp add: set_buf_def bufs_wf_def)
  obtain b1 where b1: "nghttp2_bufs_add ?b (altsvc_origin a) = Some (Inr (), b1)" "bufs_regular b1" "bufs_cur b1 = 0"
    "bufs_bytes b1 = bufs_bytes ?b @ altsvc_origin a" "nghttp2_buf_avail (head_buf b1) = nghttp2_buf_avail (head_buf ?b) - length (altsvc_origin a)"
    by (rule add_head [OF b(1,3), of "altsvc_origin a"]) (use fit av hb buf(2) in auto)
  obtain b2 where b2: "nghttp2_bufs_add b1 (altsvc_field_value a) = Some (Inr (), b2)" "bufs_regular b2" "bufs_cur b2 = 0"
    "bufs_bytes b2 = bufs_bytes b1 @ altsvc_field_value a"
    by (rule add_head [OF b1(2,3), of "altsvc_field_value a"]) (use fit av hb b1(5) buf(2) in auto)
  have "nghttp2_frame_pack_altsvc bufs f = Some b2"
    using assms(2) fit buf(1) put b1(1) b2(1) by (simp add: nghttp2_frame_pack_altsvc_def)
  then show ?thesis by (rule that) (use b2 b1(4) b(2) in \<open>simp_all add: altsvc_wire_def\<close>)
qed

lemma pack_goaway_ok:
  assumes "frame_ready bufs" "8 + length (goaway_opaque_data f) \<le> nghttp2_buf_avail (head_buf bufs)"
  obtains bufs' where "nghttp2_frame_pack_goaway bufs f = Some (Inr (), bufs')" "bufs_regular bufs'" "bufs_cur bufs' = 0"
    "bufs_bytes bufs' = hd_wire (goaway_hd f) @ control_wire (Frame_goaway f)"
proof -
  let ?a = "nghttp2_put_uint32be (word_of_int (goaway_last_stream_id f))" and ?b = "nghttp2_put_uint32be (goaway_error_code f)"
  let ?g = "\<lambda>buf. do { buf \<leftarrow> buf_put buf ?a; buf_put buf ?b }"
  note r = frame_ready_head [OF assms(1)]
  obtain buf where buf: "buf_pack_hd (head_buf bufs) (goaway_hd f) = Some buf" "buf_wf buf" "buf_bytes buf = hd_wire (goaway_hd f)"
    "buf_last buf = buf_last (head_buf bufs)" "length (buf_data buf) = length (buf_data (head_buf bufs))"
    using buf_pack_hd_ok [OF r(2), of "goaway_hd f"] r(3,6) by auto
  have av: "nghttp2_buf_avail buf = nghttp2_buf_avail (head_buf bufs)" using buf(4,5) by (simp add: nghttp2_buf_avail_def)
  have c: "buf_wf (buf_cpymem buf (?a @ ?b))" "buf_bytes (buf_cpymem buf (?a @ ?b)) = hd_wire (goaway_hd f) @ ?a @ ?b"
    using buf_cpymem_correct [OF buf(2), of "?a @ ?b"] assms(2) av buf(3) by simp_all
  let ?s = "set_buf bufs 0 (buf_cpymem buf (?a @ ?b))"
  have p: "pack_fixed bufs (goaway_hd f) 0 ?g = Some ?s"
    using buf_put_put [OF buf(2), of ?a ?b] assms(2) av buf(1) r(5) by (simp add: pack_fixed_def del: bind_assoc)
  have b: "bufs_regular ?s" "bufs_bytes ?s = hd_wire (goaway_hd f) @ ?a @ ?b" "bufs_cur ?s = 0"
    using ready_set_head [OF assms(1) c(1)] c(2) buf(5) r(5) by (simp_all add: set_buf_def)
  have hb: "head_buf ?s = buf_cpymem buf (?a @ ?b)" using r(1,5) by (simp add: set_buf_def bufs_wf_def)
  obtain b1 where b1: "nghttp2_bufs_add ?s (goaway_opaque_data f) = Some (Inr (), b1)" "bufs_regular b1" "bufs_cur b1 = 0"
    "bufs_bytes b1 = bufs_bytes ?s @ goaway_opaque_data f"
    by (rule add_head [OF b(1,3), of "goaway_opaque_data f"]) (use assms(2) av hb buf(2) in auto)
  have "nghttp2_frame_pack_goaway bufs f = Some (Inr (), b1)" using p b1(1) by (simp add: nghttp2_frame_pack_goaway_def)
  then show ?thesis by (rule that) (use b1 b(2) in simp_all)
qed

lemma pack_control_ok:
  assumes ready: "frame_ready bufs" and v: "control_valid f" and fit: "length (control_wire f) \<le> nghttp2_buf_avail (head_buf bufs)"
  obtains bufs' where "pack_control bufs f = Some (Inr (), bufs')" "bufs_regular bufs'" "bufs_cur bufs' = 0"
    "bufs_bytes bufs' = hd_wire (frame_hd f) @ control_wire f"
proof -
  note pf = pack_fixed_ok [OF ready, of _ "control_wire f"]
  show ?thesis
  proof (cases f)
    case (Frame_priority g)
    have s: "do { d \<leftarrow> nghttp2_frame_pack_priority_spec (buf_data buf) (buf_last buf) (priority_pri_spec g);
         Some (buf\<lparr>buf_data := d, buf_last := buf_last buf + NGHTTP2_PRIORITY_SPECLEN\<rparr>) } = Some (buf_cpymem buf (control_wire f))"
      if "buf_wf buf" "length (control_wire f) \<le> nghttp2_buf_avail buf" for buf
    proof -
      have "buf_last buf + 5 \<le> length (buf_data buf)" using that Frame_priority by (auto simp: nghttp2_buf_avail_def buf_wf_def)
      then show ?thesis using buf_store_cpymem [OF that] Frame_priority by (simp add: pack_priority_spec_Some NGHTTP2_PRIORITY_SPECLEN_def)
    qed
    show ?thesis
      by (rule pf [OF _ _ s, of NGHTTP2_PRIORITY_SPECLEN "priority_hd g"])
        (use fit that Frame_priority in \<open>simp_all add: NGHTTP2_PRIORITY_SPECLEN_def nghttp2_frame_pack_priority_def\<close>)
  next
    case (Frame_rst_stream g)
    show ?thesis
      by (rule pf [of 4 "\<lambda>buf. buf_put buf (control_wire f)" "rst_hd g"])
        (use fit that buf_put_cpymem Frame_rst_stream in \<open>simp_all add: nghttp2_frame_pack_rst_stream_def\<close>)
  next
    case (Frame_settings g)
    have s: "do { (d, n) \<leftarrow> nghttp2_frame_pack_settings_payload (buf_data buf) (buf_last buf) (settings_iv g);
         Some (buf\<lparr>buf_data := d, buf_last := buf_last buf + n\<rparr>) } = Some (buf_cpymem buf (control_wire f))"
      if "buf_wf buf" "length (control_wire f) \<le> nghttp2_buf_avail buf" for buf
    proof -
      have "buf_last buf + 6 * length (settings_iv g) \<le> length (buf_data buf)" using that Frame_settings by (auto simp: nghttp2_buf_avail_def buf_wf_def)
      then show ?thesis using buf_store_cpymem [OF that] Frame_settings
        by (simp add: nghttp2_frame_pack_settings_payload_def pack_settings_Some NGHTTP2_FRAME_SETTINGS_ENTRY_LENGTH_def)
    qed
    have l: "fh_length (settings_hd g) \<le> nghttp2_buf_avail (head_buf bufs)" using v fit Frame_settings by (simp add: control_valid_def)
    show ?thesis
      by (rule pf [OF _ _ s, of 0 "settings_hd g"])
        (use fit that Frame_settings pack_settings_fixed [OF frame_ready_head(5) [OF ready] l] in simp_all)
  next
    case (Frame_ping g)
    show ?thesis
      by (rule pf [of 8 "\<lambda>buf. buf_put buf (control_wire f)" "ping_hd g"])
        (use v fit that buf_put_cpymem Frame_ping in \<open>simp_all add: nghttp2_frame_pack_ping_def control_valid_def\<close>)
  next
    case (Frame_goaway g)
    show ?thesis by (rule pack_goaway_ok [OF ready, of g]) (use fit that Frame_goaway in simp_all)
  next
    case (Frame_window_update g)
    show ?thesis
      by (rule pf [of 4 "\<lambda>buf. buf_put buf (control_wire f)" "wu_hd g"])
        (use fit that buf_put_cpymem Frame_window_update in \<open>simp_all add: nghttp2_frame_pack_window_update_def\<close>)
  next
    case (Frame_ext g)
    have cc: "control_content (Frame_ext g)" "fh_length (ext_hd g) = length (control_wire f)" using v Frame_ext by (simp_all add: control_valid_def)
    then consider a where "ext_payload g = Some (Ext_altsvc a)" "fh_type (ext_hd g) = NGHTTP2_ALTSVC"
      | orr where "ext_payload g = Some (Ext_origin orr)" "fh_type (ext_hd g) = NGHTTP2_ORIGIN"
      by (auto split: option.splits nghttp2_ext_payload.splits)
    then show ?thesis
    proof cases
      case 1
      show ?thesis by (rule pack_altsvc_ok [OF ready 1(1)]) (use fit that 1 Frame_ext in simp_all)
    next
      case 2
      show ?thesis
        by (rule pack_origin_fixed [OF ready 2(1)])
          (use fit that 2 Frame_ext cc(2) in \<open>simp_all add: frame_types del: length_origin_wire\<close>)
    qed
  qed (use v in \<open>simp_all add: control_valid_def\<close>)
qed

text \<open>
  C3: control frames survive the wire.  Take a PRIORITY, RST_STREAM, SETTINGS, PING, GOAWAY, WINDOW_UPDATE,
  ALTSVC or ORIGIN frame whose type and length fields are those of its payload and whose contents fit the wire:
  stream identifiers and window increments of 31 bits, weights from 1 to 256, 16-bit settings identifiers, eight
  bytes of PING data, reserved bits zero, an ALTSVC origin and each entry of ORIGIN shorter than 2^16 bytes, less than
  2^24 bytes in all.  Take a buffer chain that is ready for a new frame and has room for the payload in its first
  buffer.  Then the frame is packed without a failed assertion or a store outside the buffer; what the
  buffers hold is a frame header with the frame's length, type, flags and stream and that many bytes of
  payload; and, if its allocations succeed, the receiver's unpacking gives the same frame back, except
  that the empty origins of an ORIGIN frame are dropped.
\<close>

theorem control_frame_roundtrip:
  assumes "frame_ready bufs" "control_valid f" "fh_length (frame_hd f) \<le> nghttp2_buf_avail (head_buf bufs)" "mem_reliable mem"
  shows "\<exists>bufs'. pack_control bufs f = Some (Inr (), bufs') \<and>
     nghttp2_frame_unpack_frame_hd (bufs_bytes bufs') = frame_hd f \<and>
     length (bufs_bytes bufs') = NGHTTP2_FRAME_HDLEN + fh_length (frame_hd f) \<and>
     unpack_control mem (frame_hd f) (drop NGHTTP2_FRAME_HDLEN (bufs_bytes bufs')) = Some (Inr (control_received f))"
proof -
  have v: "control_content f" "hd_valid (frame_hd f)" "fh_length (frame_hd f) = length (control_wire f)"
    using assms(2) by (simp_all add: control_valid_def)
  obtain bufs' where b: "pack_control bufs f = Some (Inr (), bufs')" "bufs_bytes bufs' = hd_wire (frame_hd f) @ control_wire f"
    using pack_control_ok [OF assms(1,2)] assms(3) v(3) by metis
  show ?thesis using b v hd_roundtrip [OF v(2), of "control_wire f"] unpack_control_wire [OF v(1) assms(4)]
    by (simp add: NGHTTP2_FRAME_HDLEN_def)
qed

definition bufs0 :: nghttp2_bufs where
  "bufs0 = \<lparr>bufs_chain = [\<lparr>buf_data = replicate 42 0, buf_pos = 10, buf_last = 10, buf_mark = 0\<rparr>], bufs_cur = 0,
     bufs_mem = \<lparr>mem_ok = [], mem_junk = (\<lambda>_. 0)\<rparr>, chunk_length = 42, max_chunk = 2, chunk_used = 1, chunk_keep = 1, bufs_offset = 10\<rparr>"

lemma bufs0_ready: "frame_ready bufs0"
  by (simp add: frame_ready_def bufs_regular_def bufs_wf_def buf_wf_def bufs0_def nghttp2_buf_len_def NGHTTP2_FRAME_HDLEN_def)

definition origin0 :: nghttp2_extension where
  "origin0 = nghttp2_frame_origin_init [[97], [], [98]]"

theorem control_frame_roundtrip_witness:
  "\<exists>bufs'. pack_control bufs0 (Frame_ext origin0) = Some (Inr (), bufs') \<and>
     nghttp2_frame_unpack_frame_hd (bufs_bytes bufs') = nghttp2_frame_hd_init 8 NGHTTP2_ORIGIN NGHTTP2_FLAG_NONE 0 \<and>
     unpack_control \<lparr>mem_ok = [], mem_junk = (\<lambda>_. 0)\<rparr> (ext_hd origin0) (drop NGHTTP2_FRAME_HDLEN (bufs_bytes bufs')) =
       Some (Inr (Frame_ext (origin0\<lparr>ext_payload := Some (Ext_origin \<lparr>origin_ov = [[97], [98]]\<rparr>)\<rparr>)))"
proof -
  have v: "control_valid (Frame_ext origin0)"
    by (simp add: control_valid_def origin0_def nghttp2_frame_origin_init_def nghttp2_frame_hd_init_def hd_valid_def)
  have r: "fh_length (frame_hd (Frame_ext origin0)) \<le> nghttp2_buf_avail (head_buf bufs0)"
    by (simp add: origin0_def nghttp2_frame_origin_init_def nghttp2_frame_hd_init_def bufs0_def nghttp2_buf_avail_def)
  have m: "mem_reliable \<lparr>mem_ok = [], mem_junk = (\<lambda>_. 0)\<rparr>" by (simp add: mem_reliable_def)
  have e: "ext_hd origin0 = nghttp2_frame_hd_init 8 NGHTTP2_ORIGIN NGHTTP2_FLAG_NONE 0"
    "control_received (Frame_ext origin0) = Frame_ext (origin0\<lparr>ext_payload := Some (Ext_origin \<lparr>origin_ov = [[97], [98]]\<rparr>)\<rparr>)"
    by (simp_all add: origin0_def nghttp2_frame_origin_init_def eval_nat_numeral)
  show ?thesis
    using control_frame_roundtrip [OF bufs0_ready v r m] unfolding e(2) frame_hd.simps e(1) by blast
qed

end
