(* ===== verification/Frame_Headers.thy ===== *)
theory Frame_Headers
  imports Frame
begin

unbundle bit_operations_syntax

text \<open>
  Header blocks in frames (\<^verbatim>\<open>lib/nghttp2_frame.c\<close>): HEADERS and PUSH_PROMISE with their CONTINUATION frames, from
  the compressor of the sender to the inflater of the receiver, and padding.
\<close>

section \<open>What the header compressor leaves alone\<close>

text \<open>
  Writing only moves on: no buffer of the chain is moved or resized, and new buffers start at the offset
  of the chain.
\<close>

definition bufs_grows :: "nghttp2_bufs \<Rightarrow> nghttp2_bufs \<Rightarrow> bool" where
  "bufs_grows b b' \<longleftrightarrow> bufs_offset b' = bufs_offset b \<and> chunk_length b' = chunk_length b \<and>
     (\<exists>n. map (\<lambda>c. (buf_pos c, length (buf_data c))) (bufs_chain b') =
          map (\<lambda>c. (buf_pos c, length (buf_data c))) (bufs_chain b) @ replicate n (bufs_offset b, chunk_length b))"

lemma grows_refl [simp]: "bufs_grows b b"
  by (auto simp: bufs_grows_def)

lemma grows_trans: "bufs_grows a b \<Longrightarrow> bufs_grows b c \<Longrightarrow> bufs_grows a c"
  unfolding bufs_grows_def by (auto simp: replicate_add [symmetric])

lemma grows_set_cur:
  "buf_pos buf = buf_pos (cur_buf b) \<Longrightarrow> length (buf_data buf) = length (buf_data (cur_buf b)) \<Longrightarrow> bufs_grows b (set_cur_buf b buf)"
proof -
  assume a: "buf_pos buf = buf_pos (cur_buf b)" "length (buf_data buf) = length (buf_data (cur_buf b))"
  let ?f = "\<lambda>c. (buf_pos c, length (buf_data c))"
  have "(map ?f (bufs_chain b))[bufs_cur b := ?f (cur_buf b)] = map ?f (bufs_chain b)"
    using map_update [of ?f "bufs_chain b" "bufs_cur b" "cur_buf b"] by (simp only: list_update_id)
  then show ?thesis using a by (auto simp: bufs_grows_def map_update intro!: exI [of _ 0])
qed

lemma grows_alloc: "bufs_grows b (snd (bufs_alloc_chain b))"
proof -
  have "bufs_grows b (b\<lparr>bufs_mem := mem1, chunk_used := u, bufs_chain := bufs_chain b @ [nghttp2_buf_shift_right buf (bufs_offset b)], bufs_cur := k\<rparr>)"
    if "buf_pos buf = 0" "length (buf_data buf) = chunk_length b" for mem1 u buf k
    using that by (auto simp: bufs_grows_def nghttp2_buf_shift_right_def intro!: exI [of _ 1])
  then show ?thesis using buf_chain_new_cases [of "bufs_mem b" "chunk_length b"]
    by (auto simp: bufs_alloc_chain_def bufs_grows_def split: sum.splits prod.splits)
qed

lemma grows_fast:
  "bufs_grows b (nghttp2_bufs_fast_addb b x)" "bufs_grows b (nghttp2_bufs_fast_addb_hold b x)"
  "bufs_grows b (nghttp2_bufs_fast_orb b x)" "bufs_grows b (nghttp2_bufs_fast_orb_hold b x)"
  unfolding fast_orb_pending nghttp2_bufs_fast_addb_def nghttp2_bufs_fast_addb_hold_def Let_def by (intro grows_set_cur; simp)+

lemma grows_ensure:
  assumes "\<And>b. bufs_grows b (store b)"
  shows "bufs_grows b (snd (after_ensure store b))"
proof -
  have "bufs_grows b (snd (bufs_ensure_addb b))" by (simp add: bufs_ensure_addb_def grows_alloc)
  then show ?thesis using assms by (auto simp: after_ensure_def split: prod.splits sum.splits intro: grows_trans)
qed

lemma grows_addb: "bufs_grows b (snd (nghttp2_bufs_addb b x))" "bufs_grows b (snd (nghttp2_bufs_addb_hold b x))"
  unfolding nghttp2_bufs_addb_def nghttp2_bufs_addb_hold_def by (rule grows_ensure, rule grows_fast)+

lemma grows_add: "nghttp2_bufs_add b data = Some (rv, b') \<Longrightarrow> bufs_grows b b'"
proof -
  assume a: "nghttp2_bufs_add b data = Some (rv, b')"
  have "bufs_grows b (snd (rv, b'))"
  proof (rule nghttp2_bufs_add.raw_induct [of "\<lambda>b data y. bufs_grows b (snd y)", OF _ a])
    fix f and b :: nghttp2_bufs and data y
    assume ih: "\<And>b data y. f b data = Some y \<Longrightarrow> bufs_grows b (snd y)"
      and eq: "(if data = [] then Some (Inr (), b) else
        let buf = cur_buf b; nwrite = min (nghttp2_buf_avail buf) (length data) in
        if nwrite = 0 then (case bufs_alloc_chain b of (Inl e, bufs1) \<Rightarrow> Some (Inl e, bufs1) | (Inr _, bufs1) \<Rightarrow> f bufs1 data)
        else f (set_cur_buf b (buf_cpymem buf (take nwrite data))) (drop nwrite data)) = Some y"
    let ?nw = "min (nghttp2_buf_avail (cur_buf b)) (length data)"
    consider "data = []" | "data \<noteq> []" "?nw \<noteq> 0" | "data \<noteq> []" "?nw = 0" by blast
    then show "bufs_grows b (snd y)"
    proof cases
      case 1
      then show ?thesis using eq by auto
    next
      case 2
      let ?b1 = "set_cur_buf b (buf_cpymem (cur_buf b) (take ?nw data))"
      have "f ?b1 (drop ?nw data) = Some y" using eq unfolding Let_def if_not_P [OF 2(1)] if_not_P [OF 2(2)] .
      moreover have "bufs_grows b ?b1" by (rule grows_set_cur) simp_all
      ultimately show ?thesis using ih grows_trans by blast
    next
      case 3
      obtain r b1 where al: "bufs_alloc_chain b = (r, b1)" by force
      have "bufs_grows b b1" using grows_alloc [of b] al by simp
      moreover have "(case (r, b1) of (Inl e, bufs1) \<Rightarrow> Some (Inl e, bufs1) | (Inr _, bufs1) \<Rightarrow> f bufs1 data) = Some y"
        using eq unfolding Let_def if_not_P [OF 3(1)] if_P [OF 3(2)] al .
      ultimately show ?thesis using ih [of b1 data y] grows_trans [of b b1] by (cases r) auto
    qed
  qed
  then show ?thesis by simp
qed

lemma addb_if_grows: "addb_if c x b = (r, b') \<Longrightarrow> bufs_grows b b'"
  using grows_addb(1) [of b x] by (auto simp: addb_if_def split: if_splits)

lemma addb_grows: "nghttp2_bufs_addb b x = (r, b') \<Longrightarrow> bufs_grows b b'" "nghttp2_bufs_addb_hold b x = (r, b') \<Longrightarrow> bufs_grows b b'"
  using grows_addb [of b x] by auto

lemma fast_addb_if_grows: "bufs_grows b (fast_addb_if c x b)"
  by (simp add: fast_addb_if_def grows_fast)

lemma grows_slow: "huff_slow_path b avail nbits code = (r, a, b') \<Longrightarrow> bufs_grows b b'"
  unfolding huff_slow_path_def Let_def
  by (auto split: prod.splits sum.splits if_splits dest!: addb_if_grows addb_grows) (meson grows_trans)+

lemma grows_fast_path: "huff_fast_path b nbits code = (r, a, b') \<Longrightarrow> bufs_grows b b'"
  unfolding huff_fast_path_def Let_def
  by (auto split: if_splits intro: grows_fast) (meson grows_trans grows_fast fast_addb_if_grows)+

lemma grows_sym: "huff_encode_sym b avail rembits hs = (r, a, b') \<Longrightarrow> bufs_grows b b'"
  unfolding huff_encode_sym_def Let_def
  by (auto split: if_splits intro: grows_fast dest!: grows_slow grows_fast_path) (meson grows_trans grows_fast)+

lemma grows_huff_loop: "huff_encode_loop b avail rembits src = (r, a, b') \<Longrightarrow> bufs_grows b b'"
proof (induction b avail rembits src arbitrary: r a b' rule: huff_encode_loop.induct)
  case (2 b avail rembits x src)
  let ?first = "if rembits = 8 then
       (if avail \<noteq> 0 then (Inr (), avail, nghttp2_bufs_fast_addb_hold b 0)
        else (case nghttp2_bufs_addb_hold b 0 of (Inl e, bufs1) \<Rightarrow> (Inl e, avail, bufs1)
          | (Inr _, bufs1) \<Rightarrow> (Inr (), nghttp2_buf_avail (cur_buf bufs1), bufs1)))
     else (Inr (), avail, b)"
  obtain rv avail1 b1 where f: "?first = (rv, avail1, b1)" by (cases ?first) auto
  have g: "bufs_grows b b1" using f by (auto split: if_splits sum.splits prod.splits intro: grows_fast dest: addb_grows)
  show ?case
  proof (cases rv)
    case (Inl e)
    then show ?thesis using 2(2) f g by simp
  next
    case (Inr u)
    obtain rv2 avail2 b2 where h: "huff_encode_sym b1 avail1 rembits (huff_sym_table ! unat x) = (rv2, avail2, b2)" by (cases "huff_encode_sym b1 avail1 rembits (huff_sym_table ! unat x)") auto
    have g2: "bufs_grows b b2" using grows_trans [OF g grows_sym [OF h]] .
    show ?thesis
    proof (cases rv2)
      case (Inl e)
      then show ?thesis using 2(2) f g2 h Inr by simp
    next
      case r2: (Inr rem1)
      have "huff_encode_loop b2 avail2 rem1 src = (r, a, b')" using 2(2) f h Inr r2 by simp
      then have "bufs_grows b2 b'" by (rule 2(1) [OF refl f [symmetric] refl Inr h [symmetric] r2 refl])
      then show ?thesis by (rule grows_trans [OF g2])
    qed
  qed
qed simp

lemma grows_huff: "nghttp2_hd_huff_encode b src = Some (r, b') \<Longrightarrow> bufs_grows b b'"
  unfolding nghttp2_hd_huff_encode_def Let_def
  by (auto split: prod.splits sum.splits if_splits dest!: grows_huff_loop) (meson grows_trans grows_fast)+

lemma grows_emit_string: "emit_string b str = Some (r, b') \<Longrightarrow> bufs_grows b b'"
  unfolding emit_string_def Let_def
  by (auto split: if_splits bind_splits prod.splits sum.splits dest!: grows_add grows_huff intro: grows_trans)

lemma grows_emit:
  "emit_table_size b n = Some (r, b') \<Longrightarrow> bufs_grows b b'"
  "emit_indexed_block b idx = Some (r, b') \<Longrightarrow> bufs_grows b b'"
  "emit_indname_block b idx nv mode = Some (r, b') \<Longrightarrow> bufs_grows b b'"
  "emit_newname_block b nv mode = Some (r, b') \<Longrightarrow> bufs_grows b b'"
  unfolding emit_table_size_def emit_indexed_block_def emit_indname_block_def emit_newname_block_def Let_def
  by (auto split: if_splits bind_splits prod.splits sum.splits dest!: grows_add grows_emit_string addb_grows intro: grows_trans)

lemma grows_deflate_nv: "deflate_nv df b nv = Some (r, df', b') \<Longrightarrow> bufs_grows b b'"
  unfolding deflate_nv_def Let_def
  by (auto split: if_splits bind_splits prod.splits sum.splits dest!: grows_emit)

lemma grows_deflate_nvs: "deflate_nvs df b nva = Some (r, df', b') \<Longrightarrow> bufs_grows b b'"
  by (induction nva arbitrary: df b)
    (auto split: bind_splits prod.splits sum.splits dest!: grows_deflate_nv intro: grows_trans)

lemma grows_deflate_hd_bufs:
  assumes "nghttp2_hd_deflate_hd_bufs df b nva = Some (r, df', b')"
  shows "bufs_grows b b'"
proof -
  have n: "bufs_grows b b1" if "deflate_notify df b = Some (r1, df1, b1)" for r1 df1 b1
    using that unfolding deflate_notify_def Let_def
    by (auto split: if_splits bind_splits prod.splits sum.splits dest!: grows_emit intro: grows_trans)
  show ?thesis using assms unfolding nghttp2_hd_deflate_hd_bufs_def
    by (auto split: if_splits bind_splits prod.splits sum.splits dest!: n grows_deflate_nvs intro: grows_trans)
qed

section \<open>Header blocks over several frames\<close>

text \<open>Reading one frame from the wire, and a header block with its CONTINUATION frames.\<close>

definition read_frame :: "u8 list \<Rightarrow> (nghttp2_frame_hd \<times> u8 list \<times> u8 list) option" where
  "read_frame bs =
     (if length bs < NGHTTP2_FRAME_HDLEN then None
      else
        let fh = nghttp2_frame_unpack_frame_hd bs; rest = drop NGHTTP2_FRAME_HDLEN bs in
        if length rest < fh_length fh then None else Some (fh, take (fh_length fh) rest, drop (fh_length fh) rest))"

abbreviation end_headers :: "nghttp2_frame_hd \<Rightarrow> bool" where
  "end_headers fh \<equiv> fh_flags fh AND NGHTTP2_FLAG_END_HEADERS \<noteq> 0"

function read_continuation :: "int \<Rightarrow> u8 list \<Rightarrow> (u8 list \<times> u8 list) option" where
  "read_continuation sid bs = do {
     (fh, p, rest) \<leftarrow> read_frame bs;
     if fh_type fh \<noteq> NGHTTP2_CONTINUATION \<or> fh_stream_id fh \<noteq> sid then None
     else if end_headers fh then Some (p, rest)
     else do { (q, rest) \<leftarrow> read_continuation sid rest; Some (p @ q, rest) } }"
  by pat_completeness auto

termination
  by (relation "measure (\<lambda>(sid, bs). length bs)")
    (auto simp: read_frame_def Let_def NGHTTP2_FRAME_HDLEN_def split: if_splits)

declare read_continuation.simps [simp del]

definition read_block :: "u8 list \<Rightarrow> (nghttp2_frame_hd \<times> u8 list \<times> u8 list) option" where
  "read_block bs = do {
     (fh, p, rest) \<leftarrow> read_frame bs;
     if end_headers fh then Some (fh, p, rest)
     else do { (q, rest) \<leftarrow> read_continuation (fh_stream_id fh) rest; Some (fh, p @ q, rest) } }"

lemma read_frame_wire:
  "hd_valid fh \<Longrightarrow> fh_length fh = length p \<Longrightarrow> read_frame (hd_wire fh @ p @ rest) = Some (fh, p, rest)"
  by (simp add: read_frame_def hd_roundtrip NGHTTP2_FRAME_HDLEN_def)

text \<open>A chunk with its frame header.\<close>

definition packable :: "nghttp2_buf \<Rightarrow> bool" where
  "packable buf \<longleftrightarrow> buf_wf buf \<and> 9 \<le> buf_pos buf"

definition chunk_hd :: "nghttp2_frame_hd \<Rightarrow> nghttp2_buf \<Rightarrow> nghttp2_frame_hd" where
  "chunk_hd fh buf = fh\<lparr>fh_length := nghttp2_buf_len buf\<rparr>"

definition with_hd :: "nghttp2_frame_hd \<Rightarrow> nghttp2_buf \<Rightarrow> nghttp2_buf" where
  "with_hd fh buf = the (buf_pack_hd buf (chunk_hd fh buf))"

lemma with_hd:
  assumes "packable buf"
  shows "buf_pack_hd buf (chunk_hd fh buf) = Some (with_hd fh buf)" "buf_bytes (with_hd fh buf) = hd_wire (chunk_hd fh buf) @ buf_bytes buf"
    "buf_wf (with_hd fh buf)" "buf_last (with_hd fh buf) = buf_last buf" "length (buf_data (with_hd fh buf)) = length (buf_data buf)"
    "buf_pos (with_hd fh buf) + 9 = buf_pos buf"
proof -
  have a: "buf_wf buf" "9 \<le> buf_pos buf" using assms by (simp_all add: packable_def)
  obtain b where b: "buf_pack_hd buf (chunk_hd fh buf) = Some b" "buf_wf b" "buf_bytes b = hd_wire (chunk_hd fh buf) @ buf_bytes buf"
    "buf_last b = buf_last buf" "length (buf_data b) = length (buf_data buf)" "buf_pos b + 9 = buf_pos buf"
    using buf_pack_hd_ok [OF a] .
  show "buf_pack_hd buf (chunk_hd fh buf) = Some (with_hd fh buf)" "buf_bytes (with_hd fh buf) = hd_wire (chunk_hd fh buf) @ buf_bytes buf"
    "buf_wf (with_hd fh buf)" "buf_last (with_hd fh buf) = buf_last buf" "length (buf_data (with_hd fh buf)) = length (buf_data buf)"
    "buf_pos (with_hd fh buf) + 9 = buf_pos buf"
    using b by (simp_all add: with_hd_def)
qed

lemma pack_chunk:
  "bufs_chain bufs = pre @ buf # post \<Longrightarrow> i = length pre \<Longrightarrow> packable buf \<Longrightarrow>
   pack_chunk_hd bufs fh i = Some (bufs\<lparr>bufs_chain := pre @ with_hd fh buf # post\<rparr>)"
  using with_hd(1) [of buf fh] by (simp add: pack_chunk_hd_def set_buf_def chunk_hd_def)

lemma pack_continuations_chain:
  "bufs_chain bufs = pre @ mids @ post \<Longrightarrow> i = length pre \<Longrightarrow> j = length pre + length mids \<Longrightarrow> list_all packable mids \<Longrightarrow>
   pack_continuations bufs fh [i..<j] = Some (bufs\<lparr>bufs_chain := pre @ map (with_hd fh) mids @ post\<rparr>)"
proof (induction mids arbitrary: bufs pre i j)
  case (Cons m mids)
  have "pack_chunk_hd bufs fh i = Some (bufs\<lparr>bufs_chain := (pre @ [with_hd fh m]) @ mids @ post\<rparr>)"
    using pack_chunk [of bufs pre m "mids @ post" i fh] Cons.prems by simp
  moreover have "pack_continuations (bufs\<lparr>bufs_chain := (pre @ [with_hd fh m]) @ mids @ post\<rparr>) fh [Suc i..<j] =
     Some (bufs\<lparr>bufs_chain := (pre @ [with_hd fh m]) @ map (with_hd fh) mids @ post\<rparr>)"
    using Cons.IH [of "bufs\<lparr>bufs_chain := (pre @ [with_hd fh m]) @ mids @ post\<rparr>" "pre @ [with_hd fh m]" "Suc i" j] Cons.prems by simp
  moreover have "i < j" using Cons.prems by simp
  then have "[i..<j] = i # [Suc i..<j]" by (rule upt_conv_Cons)
  ultimately show ?case by simp
qed simp

abbreviation hd_first :: "nghttp2_frame_hd \<Rightarrow> nghttp2_frame_hd" where
  "hd_first fh \<equiv> fh\<lparr>fh_flags := fh_flags fh AND NOT NGHTTP2_FLAG_END_HEADERS\<rparr>"

abbreviation hd_mid :: "nghttp2_frame_hd \<Rightarrow> nghttp2_frame_hd" where
  "hd_mid fh \<equiv> fh\<lparr>fh_type := NGHTTP2_CONTINUATION, fh_flags := NGHTTP2_FLAG_NONE\<rparr>"

abbreviation hd_last :: "nghttp2_frame_hd \<Rightarrow> nghttp2_frame_hd" where
  "hd_last fh \<equiv> fh\<lparr>fh_type := NGHTTP2_CONTINUATION, fh_flags := NGHTTP2_FLAG_END_HEADERS\<rparr>"

lemma shared_one:
  "bufs_chain bufs = b # rest \<Longrightarrow> bufs_cur bufs = 0 \<Longrightarrow> packable b \<Longrightarrow>
   frame_pack_headers_shared bufs fh = Some (bufs\<lparr>bufs_chain := with_hd fh b # rest\<rparr>)"
  using pack_chunk [of bufs "[]" b rest 0 fh] by (simp add: frame_pack_headers_shared_def)

lemma shared_many:
  assumes "bufs_chain bufs = b # mids @ l # rest" "bufs_cur bufs = Suc (length mids)" "packable b" "list_all packable mids" "packable l"
  shows "frame_pack_headers_shared bufs fh =
     Some (bufs\<lparr>bufs_chain := with_hd (hd_first fh) b # map (with_hd (hd_mid fh)) mids @ with_hd (hd_last fh) l # rest\<rparr>)"
proof -
  let ?b1 = "bufs\<lparr>bufs_chain := with_hd (hd_first fh) b # mids @ l # rest\<rparr>"
  let ?b2 = "bufs\<lparr>bufs_chain := with_hd (hd_first fh) b # map (with_hd (hd_mid fh)) mids @ l # rest\<rparr>"
  have 1: "pack_chunk_hd bufs (hd_first fh) 0 = Some ?b1" using pack_chunk [of bufs "[]" b "mids @ l # rest" 0] assms by simp
  have 2: "pack_continuations ?b1 (hd_mid fh) [1..<bufs_cur bufs] = Some ?b2"
    using pack_continuations_chain [of ?b1 "[with_hd (hd_first fh) b]" mids "l # rest" 1 "bufs_cur bufs"] assms by simp
  have 3: "pack_chunk_hd ?b2 (hd_last fh) (bufs_cur bufs) =
     Some (bufs\<lparr>bufs_chain := with_hd (hd_first fh) b # map (with_hd (hd_mid fh)) mids @ with_hd (hd_last fh) l # rest\<rparr>)"
    using pack_chunk [of ?b2 "with_hd (hd_first fh) b # map (with_hd (hd_mid fh)) mids" l rest "bufs_cur bufs"] assms by simp
  show ?thesis using 1 2 3 assms(2) by (simp add: frame_pack_headers_shared_def Let_def)
qed

text \<open>What a receiver reads from such chunks.\<close>

definition chunk_small :: "nghttp2_buf \<Rightarrow> bool" where
  "chunk_small buf \<longleftrightarrow> packable buf \<and> nghttp2_buf_len buf < 2 ^ 24"

lemma read_chunk:
  assumes "chunk_small buf" "hd_valid (fh\<lparr>fh_length := 0\<rparr>)"
  shows "read_frame (buf_bytes (with_hd fh buf) @ rest) = Some (chunk_hd fh buf, buf_bytes buf, rest)"
proof -
  have p: "packable buf" using assms(1) by (simp add: chunk_small_def)
  have "hd_valid (chunk_hd fh buf)" using assms by (simp add: hd_valid_def chunk_hd_def chunk_small_def)
  moreover have "fh_length (chunk_hd fh buf) = length (buf_bytes buf)"
    using p by (auto simp: chunk_hd_def packable_def buf_wf_def buf_bytes_def nghttp2_buf_len_def)
  ultimately show ?thesis using with_hd(2) [OF p, of fh] read_frame_wire by simp
qed

lemma read_continuation_chunks:
  assumes "list_all chunk_small mids" "chunk_small l" "hd_valid (fh\<lparr>fh_length := 0\<rparr>)"
  shows "read_continuation (fh_stream_id fh) (concat (map buf_bytes (map (with_hd (hd_mid fh)) mids)) @ buf_bytes (with_hd (hd_last fh) l) @ rest) =
     Some (concat (map buf_bytes mids) @ buf_bytes l, rest)"
  using assms(1)
proof (induction mids)
  case Nil
  have "read_frame (buf_bytes (with_hd (hd_last fh) l) @ rest) = Some (chunk_hd (hd_last fh) l, buf_bytes l, rest)"
    by (rule read_chunk) (use assms in \<open>simp_all add: hd_valid_def\<close>)
  then show ?case by (subst read_continuation.simps) (simp add: chunk_hd_def NGHTTP2_FLAG_END_HEADERS_def)
next
  case (Cons m mids)
  let ?more = "concat (map buf_bytes (map (with_hd (hd_mid fh)) mids)) @ buf_bytes (with_hd (hd_last fh) l) @ rest"
  have "read_frame (buf_bytes (with_hd (hd_mid fh) m) @ ?more) = Some (chunk_hd (hd_mid fh) m, buf_bytes m, ?more)"
    by (rule read_chunk) (use assms Cons.prems in \<open>simp_all add: hd_valid_def\<close>)
  then show ?case using Cons by (subst read_continuation.simps) (simp add: chunk_hd_def NGHTTP2_FLAG_NONE_def)
qed

lemma clear_end_headers: "(f AND NOT NGHTTP2_FLAG_END_HEADERS) AND NGHTTP2_FLAG_END_HEADERS = 0"
  by (metis and.assoc and.commute and_zero_eq bit.conj_cancel_right)

text \<open>
  Header, payload and rest as a receiver sees them: the header of the first frame is the one given,
  but with the length of its chunk and with END_HEADERS only if there is no further frame.
\<close>

lemma shared_ok:
  assumes wf: "bufs_wf bufs" and small: "\<forall>i\<le>bufs_cur bufs. chunk_small (bufs_chain bufs ! i)" and v: "hd_valid (fh\<lparr>fh_length := 0\<rparr>)"
    and e: "end_headers fh"
  obtains bufs' fh' where "frame_pack_headers_shared bufs fh = Some bufs'" "read_block (bufs_bytes bufs') = Some (fh', bufs_bytes bufs, [])"
    "fh_type fh' = fh_type fh" "fh_stream_id fh' = fh_stream_id fh" "fh_flags fh' = fh_flags fh \<or> fh_flags fh' = fh_flags (hd_first fh)"
    "bufs_cur bufs = 0 \<Longrightarrow> bufs_bytes bufs' = hd_wire (chunk_hd fh (head_buf bufs)) @ bufs_bytes bufs"
proof -
  let ?ch = "bufs_chain bufs"
  have len: "bufs_cur bufs < length ?ch" using wf by (simp add: bufs_wf_def)
  have tail: "concat (map buf_bytes (drop (Suc (bufs_cur bufs)) ?ch)) = []"
    using wf buf_bytes_empty by (auto simp: bufs_wf_def list_all_iff)
  show ?thesis
  proof (cases "bufs_cur bufs = 0")
    case True
    obtain b rest where ch: "?ch = b # rest" using len by (cases ?ch) auto
    have b: "chunk_small b" "packable b" using small True ch by (auto simp: chunk_small_def)
    let ?b' = "bufs\<lparr>bufs_chain := with_hd fh b # rest\<rparr>"
    have r: "concat (map buf_bytes rest) = []" using tail True ch by simp
    have s: "frame_pack_headers_shared bufs fh = Some ?b'" using shared_one [OF ch True b(2)] .
    have "read_block (bufs_bytes ?b') = Some (chunk_hd fh b, bufs_bytes bufs, [])"
      using read_chunk [OF b(1) v, of "[]"] e by (simp add: read_block_def bufs_bytes_def ch r chunk_hd_def)
    then show ?thesis
      by (rule that [OF s]) (use with_hd(2) [OF b(2), of fh] r ch in \<open>simp_all add: chunk_hd_def bufs_bytes_def\<close>)
  next
    case False
    then obtain n where n: "bufs_cur bufs = Suc n" by (cases "bufs_cur bufs") auto
    obtain b tl where ch0: "?ch = b # tl" using len by (cases ?ch) auto
    define mids where "mids = take n tl"
    define rest where "rest = drop (Suc n) tl"
    have ln: "n < length tl" using len n ch0 by simp
    obtain l where l: "tl = mids @ l # rest" "length mids = n"
      using id_take_nth_drop [OF ln] ln by (auto simp: mids_def rest_def)
    have ch: "?ch = b # mids @ l # rest" using ch0 l by simp
    have sm: "chunk_small b" "list_all chunk_small mids" "chunk_small l"
    proof -
      show "chunk_small b" using small [rule_format, of 0] ch by simp
      show "chunk_small l" using small [rule_format, of "Suc n"] n l(2) by (simp add: ch nth_append)
      have "chunk_small (mids ! i)" if "i < n" for i
        using small [rule_format, of "Suc i"] that n l(2) by (simp add: ch nth_append)
      then show "list_all chunk_small mids" using l(2) by (auto simp: list_all_length)
    qed
    have pk: "packable b" "list_all packable mids" "packable l" using sm by (auto simp: chunk_small_def list_all_iff)
    let ?b' = "bufs\<lparr>bufs_chain := with_hd (hd_first fh) b # map (with_hd (hd_mid fh)) mids @ with_hd (hd_last fh) l # rest\<rparr>"
    have s: "frame_pack_headers_shared bufs fh = Some ?b'" by (rule shared_many [OF ch _ pk]) (simp add: n l(2))
    have r: "concat (map buf_bytes rest) = []" using tail n ch0 by (simp add: rest_def)
    let ?more = "concat (map buf_bytes (map (with_hd (hd_mid fh)) mids)) @ buf_bytes (with_hd (hd_last fh) l) @ []"
    have "read_frame (buf_bytes (with_hd (hd_first fh) b) @ ?more) = Some (chunk_hd (hd_first fh) b, buf_bytes b, ?more)"
      by (rule read_chunk [OF sm(1)]) (use v in \<open>simp add: hd_valid_def\<close>)
    moreover have "\<not> end_headers (chunk_hd (hd_first fh) b)" by (simp add: chunk_hd_def clear_end_headers)
    moreover have "bufs_bytes ?b' = buf_bytes (with_hd (hd_first fh) b) @ ?more" using r by (simp add: bufs_bytes_def)
    moreover have "bufs_bytes bufs = buf_bytes b @ concat (map buf_bytes mids) @ buf_bytes l" using r ch by (simp add: bufs_bytes_def)
    ultimately have "read_block (bufs_bytes ?b') = Some (chunk_hd (hd_first fh) b, bufs_bytes bufs, [])"
      using read_continuation_chunks [OF sm(2,3) v, of "[]"] by (simp add: read_block_def chunk_hd_def)
    then show ?thesis by (rule that [OF s]) (use n in \<open>simp_all add: chunk_hd_def\<close>)
  qed
qed

text \<open>Skipping \<open>off\<close> bytes of the empty first buffer.\<close>

definition skip_head :: "nghttp2_bufs \<Rightarrow> nat \<Rightarrow> nghttp2_bufs" where
  "skip_head bufs off = set_cur_buf bufs ((cur_buf bufs)\<lparr>buf_pos := buf_pos (cur_buf bufs) + off, buf_last := buf_pos (cur_buf bufs) + off\<rparr>)"

lemma ready_chain:
  assumes "frame_ready bufs"
  shows "list_all (\<lambda>buf. buf_pos buf = 10 \<and> buf_last buf = 10 \<and> length (buf_data buf) = chunk_length bufs) (bufs_chain bufs)"
    "bufs_chain bufs \<noteq> []" "10 < chunk_length bufs"
proof -
  have r: "bufs_regular bufs" "bufs_cur bufs = 0" "bufs_offset bufs = 10" using assms by (simp_all add: frame_ready_def NGHTTP2_FRAME_HDLEN_def)
  show ne: "bufs_chain bufs \<noteq> []" using frame_ready_head(1,5) [OF assms] by (auto simp: bufs_wf_def)
  have "list_all (\<lambda>buf. buf_pos buf = 10 \<and> buf_last buf = 10) (drop (Suc 0) (bufs_chain bufs))" using r by (simp add: bufs_regular_def)
  then show "list_all (\<lambda>buf. buf_pos buf = 10 \<and> buf_last buf = 10 \<and> length (buf_data buf) = chunk_length bufs) (bufs_chain bufs)"
    using frame_ready_head(3,4) [OF assms] assms ne by (cases "bufs_chain bufs") (auto simp: frame_ready_def list_all_iff)
  show "10 < chunk_length bufs" using r by (simp add: bufs_regular_def)
qed

lemma skip_head_ok:
  assumes "frame_ready bufs" "10 + off \<le> chunk_length bufs"
  shows "bufs_regular (skip_head bufs off)" "bufs_bytes (skip_head bufs off) = []" "bufs_room (skip_head bufs off) + off = bufs_room bufs"
    "bufs_mem (skip_head bufs off) = bufs_mem bufs"
    "\<exists>n. map (\<lambda>c. (buf_pos c, length (buf_data c))) (bufs_chain (skip_head bufs off)) = (10 + off, chunk_length bufs) # replicate n (10, chunk_length bufs)"
proof -
  note r = frame_ready_head [OF assms(1)]
  note c = ready_chain [OF assms(1)]
  obtain b rest where ch: "bufs_chain bufs = b # rest" using c(2) by (cases "bufs_chain bufs") auto
  let ?b = "b\<lparr>buf_pos := 10 + off, buf_last := 10 + off\<rparr>"
  have b: "buf_pos b = 10" "buf_last b = 10" "length (buf_data b) = chunk_length bufs" using c(1) ch by simp_all
  have s: "skip_head bufs off = set_cur_buf bufs ?b" using r(5) ch b by (simp add: skip_head_def)
  have ch': "bufs_chain (skip_head bufs off) = ?b # rest" using s r(5) ch by simp
  have bw: "buf_wf ?b" using assms(2) b by (simp add: buf_wf_def)
  have wf: "bufs_wf (skip_head bufs off)" using r(1,5) bw unfolding s by (auto simp: bufs_wf_def ch)
  show "bufs_regular (skip_head bufs off)" using regular_set_cur [of bufs ?b] wf s assms(1) r(5) ch by (simp add: frame_ready_def)
  have "concat (map buf_bytes rest) = []" using r(1,5) buf_bytes_empty by (auto simp: bufs_wf_def list_all_iff ch)
  then show "bufs_bytes (skip_head bufs off) = []" by (simp add: bufs_bytes_def ch' buf_bytes_def nghttp2_buf_len_def)
  show "bufs_room (skip_head bufs off) + off = bufs_room bufs"
    using r(5) b assms(2) by (simp add: bufs_room_def ch ch' s nghttp2_buf_avail_def)
  show "bufs_mem (skip_head bufs off) = bufs_mem bufs" by (simp add: s)
  have "map (\<lambda>c. (buf_pos c, length (buf_data c))) rest = replicate (length rest) (10, chunk_length bufs)"
    by (rule replicate_eqI) (use c(1) ch in \<open>auto simp: list_all_iff\<close>)
  then show "\<exists>n. map (\<lambda>c. (buf_pos c, length (buf_data c))) (bufs_chain (skip_head bufs off)) = (10 + off, chunk_length bufs) # replicate n (10, chunk_length bufs)"
    using b by (auto simp: ch')
qed

lemma prefix_bytes:
  assumes "buf_wf buf" "buf_pos buf = p + length pre"
  shows "buf_wf (buf\<lparr>buf_pos := p, buf_data := take p (buf_data buf) @ pre @ drop (p + length pre) (buf_data buf)\<rparr>)"
    "buf_bytes (buf\<lparr>buf_pos := p, buf_data := take p (buf_data buf) @ pre @ drop (p + length pre) (buf_data buf)\<rparr>) = pre @ buf_bytes buf"
proof -
  have le: "p + length pre \<le> buf_last buf" "buf_last buf \<le> length (buf_data buf)" using assms by (auto simp: buf_wf_def)
  show "buf_wf (buf\<lparr>buf_pos := p, buf_data := take p (buf_data buf) @ pre @ drop (p + length pre) (buf_data buf)\<rparr>)"
    using le by (simp add: buf_wf_def)
  show "buf_bytes (buf\<lparr>buf_pos := p, buf_data := take p (buf_data buf) @ pre @ drop (p + length pre) (buf_data buf)\<rparr>) = pre @ buf_bytes buf"
    using le assms(2) by (simp add: buf_bytes_def nghttp2_buf_len_def)
qed

text \<open>The compressor on an empty chain with room: the bytes written are what a synchronised inflater takes.\<close>

lemma deflate_bufs_sync:
  assumes b: "bufs_regular b0" "bufs_bytes b0 = []" "mem_reliable (bufs_mem b0)" "nghttp2_hd_deflate_bound nva \<le> bufs_room b0"
    and sy: "hpack_sync df ir" and nva: "list_all nv_short nva"
  obtains df' bufs' ir' where "nghttp2_hd_deflate_hd_bufs df b0 nva = Some (Inr (), df', bufs')" "bufs_wf bufs'"
    "inflate_fields ir (bufs_bytes bufs') True [] = Some (Inr (), map received nva, ir')" "hpack_sync df' ir'"
proof -
  define m where "m = hd_table_bufsize_max (df_ctx df)"
  have a: "df_ok df {#}" "df_sync df (ir_table ir)" "\<not> ctx_bad (df_ctx df)" "df_reliable df" using sy by (simp_all add: hpack_sync_def)
  obtain reps df' bufs' where d: "nghttp2_hd_deflate_hd_bufs df b0 nva = Some (Inr (), df', bufs')" "df_ok df' {#}" "\<not> ctx_bad (df_ctx df')"
      "df_sync df' (m, df_table df')" "hd_table_bufsize_max (df_ctx df') = m" "bufs_kept b0 bufs'"
      "bufs_bytes bufs' = reps_bytes (map Rep_size (notify_sizes df) @ reps)" "list_all rep_is_field reps"
      "\<not> notify_table_size_change df'" "deflate_hd_table_bufsize_max df' = deflate_hd_table_bufsize_max df" "df_reliable df'"
      "reps_apply (map Rep_size (notify_sizes df) @ reps) (ir_table ir) = Some ((m, df_table df'), map nv_out nva)"
  proof (rule deflate_hd_bufs_ok [OF a(1) b(1) nv_short_fits [OF nva] a(2,3)], fold m_def)
    fix e df' bufs'
    assume "deflate_error df b0 (nghttp2_hd_deflate_bound nva) e"
    then show ?thesis using b(3,4) a(4) by (auto simp: deflate_error_def)
  qed (use that b(2) a(4) in \<open>simp add: mem_mono_def\<close>)
  obtain ir' where i: "inflate_fields ir (bufs_bytes bufs') True [] = Some (Inr (), map (out_nv \<circ> nv_out) nva, ir')" "hpack_sync df' ir'"
    unfolding d(7) by (rule hpack_sync_inflate [OF sy nva d(2,3,11,5,4,9,10,8,12) [unfolded m_def]])
  show ?thesis
    by (rule that [OF d(1) _ _ i(2)]) (use d(6) i(1) in \<open>simp_all add: bufs_kept_def bufs_regular_def comp_def received_out\<close>)
qed

lemma grown_chain:
  assumes ready: "frame_ready bufs" "10 + off \<le> chunk_length bufs" and g: "bufs_grows (skip_head bufs off) bufs'"
  obtains b rest where "bufs_chain bufs' = b # rest" "buf_pos b = 10 + off" "length (buf_data b) = chunk_length bufs"
    "\<forall>c\<in>set rest. buf_pos c = 10 \<and> length (buf_data c) = chunk_length bufs"
proof -
  have "bufs_offset (skip_head bufs off) = 10" "chunk_length (skip_head bufs off) = chunk_length bufs"
    using ready by (simp_all add: skip_head_def frame_ready_def NGHTTP2_FRAME_HDLEN_def)
  then obtain n where pos: "map (\<lambda>c. (buf_pos c, length (buf_data c))) (bufs_chain bufs') = (10 + off, chunk_length bufs) # replicate n (10, chunk_length bufs)"
    using skip_head_ok(5) [OF ready] g by (auto simp: bufs_grows_def replicate_add [symmetric])
  then obtain b rest where ch: "bufs_chain bufs' = b # rest" by (cases "bufs_chain bufs'") auto
  have eq: "map (\<lambda>c. (buf_pos c, length (buf_data c))) rest = replicate n (10, chunk_length bufs)" using pos ch by simp
  have "\<forall>c\<in>set rest. buf_pos c = 10 \<and> length (buf_data c) = chunk_length bufs"
  proof
    fix c assume "c \<in> set rest"
    then have "(buf_pos c, length (buf_data c)) \<in> set (map (\<lambda>c. (buf_pos c, length (buf_data c))) rest)" by force
    then show "buf_pos c = 10 \<and> length (buf_data c) = chunk_length bufs" unfolding eq by (auto split: if_splits)
  qed
  then show ?thesis using that ch pos by auto
qed

text \<open>The bytes skipped are filled in: the chain then holds the prefix and the block.\<close>

definition fill_head :: "nghttp2_bufs \<Rightarrow> u8 list \<Rightarrow> nghttp2_bufs" where
  "fill_head bufs pre = set_buf bufs 0 ((head_buf bufs)\<lparr>buf_data :=
     take 10 (buf_data (head_buf bufs)) @ pre @ drop (10 + length pre) (buf_data (head_buf bufs))\<rparr>)"

lemma fill_head_ok:
  assumes wf: "bufs_wf bufs'" and ch: "bufs_chain bufs' = b # rest" and b: "buf_pos b = 10 + length pre" "length (buf_data b) = n" "n \<le> 2 ^ 24"
    and rest: "\<forall>c\<in>set rest. buf_pos c = 10 \<and> length (buf_data c) = n"
  defines "bufs2 \<equiv> fill_head (set_buf bufs' 0 (b\<lparr>buf_pos := 10\<rparr>)) pre"
  shows "bufs_wf bufs2" "bufs_bytes bufs2 = pre @ bufs_bytes bufs'" "\<forall>i\<le>bufs_cur bufs2. chunk_small (bufs_chain bufs2 ! i)"
    "\<forall>buf\<in>set (bufs_chain bufs2). buf_pos buf = 10"
proof -
  define h where "h = b\<lparr>buf_pos := 10, buf_data := take 10 (buf_data b) @ pre @ drop (10 + length pre) (buf_data b)\<rparr>"
  have bw: "buf_wf b" "list_all buf_wf rest" using wf ch by (simp_all add: bufs_wf_def)
  have eq: "bufs2 = set_buf bufs' 0 h" by (simp add: bufs2_def fill_head_def h_def set_buf_def ch)
  have c2: "bufs_chain bufs2 = h # rest" "bufs_cur bufs2 = bufs_cur bufs'" by (simp_all add: eq set_buf_def ch)
  note x = prefix_bytes [OF bw(1) b(1), folded h_def]
  have le: "10 + length pre \<le> n" using bw(1) b(1,2) by (auto simp: buf_wf_def)
  then have hp: "buf_pos h = 10" "length (buf_data h) = n" using b(2) by (simp_all add: h_def)
  show w2: "bufs_wf bufs2" using wf x(1) ch unfolding bufs_wf_def c2 by (simp add: eq set_buf_def)
  show "bufs_bytes bufs2 = pre @ bufs_bytes bufs'" unfolding bufs_bytes_def c2 ch using x(2) by simp
  have "\<forall>buf\<in>set (bufs_chain bufs2). buf_pos buf = 10 \<and> buf_wf buf \<and> length (buf_data buf) = n"
    using rest bw(2) x(1) hp unfolding c2 by (simp add: list_all_iff)
  then have al: "\<forall>buf\<in>set (bufs_chain bufs2). chunk_small buf \<and> buf_pos buf = 10"
    using b(3) by (auto simp: chunk_small_def packable_def buf_wf_def nghttp2_buf_len_def)
  then show "\<forall>buf\<in>set (bufs_chain bufs2). buf_pos buf = 10" by blast
  show "\<forall>i\<le>bufs_cur bufs2. chunk_small (bufs_chain bufs2 ! i)" using al w2 by (auto simp: bufs_wf_def)
qed

text \<open>A header block behind a prefix: what the chain holds once the prefix is stored.\<close>

lemma pack_header_block_ok:
  assumes ready: "frame_ready bufs" and mem: "mem_reliable (bufs_mem bufs)" and sy: "hpack_sync df ir" and nva: "list_all nv_short nva"
    and room: "length pre + nghttp2_hd_deflate_bound nva \<le> bufs_room bufs" "10 + length pre \<le> chunk_length bufs"
  obtains df' bufs1 block ir' where "pack_header_block bufs nva (length pre) df = Some (Inr (), df', bufs1)"
    "inflate_fields ir block True [] = Some (Inr (), map received nva, ir')" "hpack_sync df' ir'"
    "buf_pos (head_buf bufs1) = 10" "10 + length pre \<le> length (buf_data (head_buf bufs1))"
    "bufs_wf (fill_head bufs1 pre)" "bufs_bytes (fill_head bufs1 pre) = pre @ block"
    "\<forall>i\<le>bufs_cur (fill_head bufs1 pre). chunk_small (bufs_chain (fill_head bufs1 pre) ! i)"
    "\<forall>buf\<in>set (bufs_chain (fill_head bufs1 pre)). buf_pos buf = 10"
proof -
  define b0 where "b0 = skip_head bufs (length pre)"
  note r = frame_ready_head [OF ready]
  note k = skip_head_ok [OF ready room(2), folded b0_def]
  obtain df' bufs' ir' where d: "nghttp2_hd_deflate_hd_bufs df b0 nva = Some (Inr (), df', bufs')" "bufs_wf bufs'"
    "inflate_fields ir (bufs_bytes bufs') True [] = Some (Inr (), map received nva, ir')" "hpack_sync df' ir'"
    by (rule deflate_bufs_sync [OF k(1,2) _ _ sy nva]) (use room(1) k(3,4) mem in simp_all)
  have g: "bufs_grows (skip_head bufs (length pre)) bufs'" using grows_deflate_hd_bufs [OF d(1)] by (simp add: b0_def)
  obtain b rest where ch: "bufs_chain bufs' = b # rest" "buf_pos b = 10 + length pre" "length (buf_data b) = chunk_length bufs"
    "\<forall>c\<in>set rest. buf_pos c = 10 \<and> length (buf_data c) = chunk_length bufs"
    by (rule grown_chain [OF ready room(2) g])
  define bufs1 where "bufs1 = set_buf bufs' 0 (b\<lparr>buf_pos := 10\<rparr>)"
  have n: "chunk_length bufs \<le> 2 ^ 24" using ready by (simp add: frame_ready_def)
  have "\<not> 10 + length pre > length (buf_data (head_buf bufs))" using room(2) ready_chain(1,2) [OF ready] by (cases "bufs_chain bufs") auto
  then have p: "pack_header_block bufs nva (length pre) df = Some (Inr (), df', bufs1)"
    using r(3,5) d(1) ch(1,2) by (simp add: pack_header_block_def b0_def skip_head_def Let_def bufs1_def)
  have h: "buf_pos (head_buf bufs1) = 10" "10 + length pre \<le> length (buf_data (head_buf bufs1))"
    using ch(1,3) room(2) by (simp_all add: bufs1_def set_buf_def)
  show ?thesis by (rule that [OF p d(3,4) h]; unfold bufs1_def; rule fill_head_ok [OF d(2) ch(1-3) n ch(4)])
qed

lemma flag_clear_or: "f AND NGHTTP2_FLAG_END_HEADERS \<noteq> 0 \<Longrightarrow> (f AND NOT NGHTTP2_FLAG_END_HEADERS) OR NGHTTP2_FLAG_END_HEADERS = f"
proof -
  assume a: "f AND NGHTTP2_FLAG_END_HEADERS \<noteq> 0"
  have e: "NGHTTP2_FLAG_END_HEADERS = push_bit 2 1" unfolding NGHTTP2_FLAG_END_HEADERS_def by code_simp
  have b: "bit NGHTTP2_FLAG_END_HEADERS n \<longleftrightarrow> n = 2" for n unfolding e by (auto simp: bit_push_bit_iff bit_1_iff simp del: push_bit_of_1)
  have "bit f 2"
  proof (rule ccontr)
    assume "\<not> bit f 2"
    then have "f AND NGHTTP2_FLAG_END_HEADERS = 0" by (intro bit_word_eqI) (auto simp: bit_and_iff b)
    then show False using a by simp
  qed
  then show ?thesis by (intro bit_word_eqI) (auto simp: bit_and_iff bit_or_iff bit_not_iff b)
qed

lemma flag_clear_priority: "(f AND NOT NGHTTP2_FLAG_END_HEADERS) AND NGHTTP2_FLAG_PRIORITY = f AND NGHTTP2_FLAG_PRIORITY"
proof -
  have "NOT NGHTTP2_FLAG_END_HEADERS AND NGHTTP2_FLAG_PRIORITY = NGHTTP2_FLAG_PRIORITY"
    unfolding NGHTTP2_FLAG_END_HEADERS_def NGHTTP2_FLAG_PRIORITY_def by code_simp
  then show ?thesis by (simp add: and.assoc)
qed

lemma fill_store:
  assumes "buf_pos (head_buf bufs) = 10" "mem_store (buf_data (head_buf bufs)) 10 pre = Some d"
  shows "set_buf bufs 0 ((head_buf bufs)\<lparr>buf_data := d\<rparr>) = fill_head bufs pre"
  using assms mem_store_Some [of 10 pre "buf_data (head_buf bufs)"] by (auto simp: fill_head_def mem_store_def split: if_splits)

text \<open>What the receiver of a HEADERS frame gets from its frames.\<close>

definition headers_received ::
  "u8 list \<Rightarrow> nghttp2_headers \<Rightarrow> nghttp2_hd_inflater \<Rightarrow> nghttp2_hd_inflater \<Rightarrow> bool" where
  "headers_received wire frame ir ir' \<longleftrightarrow> (\<exists>fh payload.
     read_block wire = Some (fh, payload, []) \<and> fh_type fh = fh_type (headers_hd frame) \<and>
     fh_stream_id fh = fh_stream_id (headers_hd frame) \<and> fh_flags fh OR NGHTTP2_FLAG_END_HEADERS = fh_flags (headers_hd frame) \<and>
     headers_pri_spec (nghttp2_frame_unpack_headers_payload (frame\<lparr>headers_hd := fh\<rparr>) payload) =
       (if fh_flags (headers_hd frame) AND NGHTTP2_FLAG_PRIORITY \<noteq> 0 then headers_pri_spec frame else nghttp2_priority_spec_default_init) \<and>
     inflate_fields ir (drop (nghttp2_frame_priority_len (fh_flags fh)) payload) True [] = Some (Inr (), map received (headers_nva frame), ir'))"

lemma pack_headers_ok:
  assumes ready: "frame_ready bufs" "mem_reliable (bufs_mem bufs)" "hpack_sync df ir" "list_all nv_short (headers_nva frame)"
    and v: "hd_valid ((headers_hd frame)\<lparr>fh_length := 0\<rparr>)" "end_headers (headers_hd frame)" "prio_valid (headers_pri_spec frame)"
    and room: "NGHTTP2_PRIORITY_SPECLEN + nghttp2_hd_deflate_bound (headers_nva frame) \<le> bufs_room bufs" "15 \<le> chunk_length bufs"
  obtains frame' df' bufs' ir' where "nghttp2_frame_pack_headers bufs frame df = Some (Inr (), frame', df', bufs')"
    "headers_received (bufs_bytes bufs') frame ir ir'" "hpack_sync df' ir'"
proof -
  let ?fl = "fh_flags (headers_hd frame)"
  define pre where "pre = (if ?fl AND NGHTTP2_FLAG_PRIORITY \<noteq> 0 then prio_wire (headers_pri_spec frame) else [])"
  have off: "nghttp2_frame_headers_payload_nv_offset frame = length pre"
    by (simp add: nghttp2_frame_headers_payload_nv_offset_def nghttp2_frame_priority_len_def pre_def NGHTTP2_PRIORITY_SPECLEN_def)
  have l5: "length pre \<le> 5" by (simp add: pre_def)
  have rm: "length pre + nghttp2_hd_deflate_bound (headers_nva frame) \<le> bufs_room bufs" "10 + length pre \<le> chunk_length bufs"
    using l5 room by (simp_all add: NGHTTP2_PRIORITY_SPECLEN_def)
  obtain df' bufs1 block ir' where b: "pack_header_block bufs (headers_nva frame) (length pre) df = Some (Inr (), df', bufs1)"
    "inflate_fields ir block True [] = Some (Inr (), map received (headers_nva frame), ir')" "hpack_sync df' ir'"
    "buf_pos (head_buf bufs1) = 10" "10 + length pre \<le> length (buf_data (head_buf bufs1))"
    "bufs_wf (fill_head bufs1 pre)" "bufs_bytes (fill_head bufs1 pre) = pre @ block"
    "\<forall>i\<le>bufs_cur (fill_head bufs1 pre). chunk_small (bufs_chain (fill_head bufs1 pre) ! i)"
    by (rule pack_header_block_ok [OF ready rm])
  let ?h = "head_buf bufs1" and ?b2 = "fill_head bufs1 pre"
  obtain d where d: "(if ?fl AND NGHTTP2_FLAG_PRIORITY \<noteq> 0 then nghttp2_frame_pack_priority_spec (buf_data ?h) (buf_pos ?h) (headers_pri_spec frame)
      else Some (buf_data ?h)) = Some d" "set_buf bufs1 0 (?h\<lparr>buf_data := d\<rparr>) = ?b2"
  proof (cases "?fl AND NGHTTP2_FLAG_PRIORITY = 0")
    case True
    then show ?thesis using that [of "buf_data ?h"] by (simp add: pre_def fill_head_def)
  next
    case False
    then show ?thesis using that pack_priority_spec_Some [of 10 "buf_data ?h" "headers_pri_spec frame"] b(4,5) by (simp add: pre_def fill_head_def)
  qed
  define f' where "f' = frame\<lparr>headers_padlen := 0, headers_hd := (headers_hd frame)\<lparr>fh_length := nghttp2_bufs_len ?b2\<rparr>\<rparr>"
  have fv: "hd_valid ((headers_hd f')\<lparr>fh_length := 0\<rparr>)" "end_headers (headers_hd f')" using v by (simp_all add: f'_def)
  obtain bufs' fh where s: "frame_pack_headers_shared ?b2 (headers_hd f') = Some bufs'" "read_block (bufs_bytes bufs') = Some (fh, bufs_bytes ?b2, [])"
    "fh_type fh = fh_type (headers_hd f')" "fh_stream_id fh = fh_stream_id (headers_hd f')"
    "fh_flags fh = fh_flags (headers_hd f') \<or> fh_flags fh = fh_flags (hd_first (headers_hd f'))"
    by (rule shared_ok [OF b(6,8) fv]) blast
  have p: "nghttp2_frame_pack_headers bufs frame df = Some (Inr (), f', df', bufs')"
    using b(1) d s(1) by (simp add: nghttp2_frame_pack_headers_def off f'_def Let_def)
  have fl: "fh_flags fh = ?fl \<or> fh_flags fh = ?fl AND NOT NGHTTP2_FLAG_END_HEADERS" using s(5) by (simp add: f'_def)
  have pf: "fh_flags fh AND NGHTTP2_FLAG_PRIORITY = ?fl AND NGHTTP2_FLAG_PRIORITY" using fl flag_clear_priority by auto
  have pl: "nghttp2_frame_priority_len (fh_flags fh) = length pre" using off pf by (simp add: nghttp2_frame_headers_payload_nv_offset_def nghttp2_frame_priority_len_def)
  have "?fl OR NGHTTP2_FLAG_END_HEADERS = ?fl" using flag_clear_or [OF v(2)] by (metis or.assoc or.idem)
  then have eh: "fh_flags fh OR NGHTTP2_FLAG_END_HEADERS = ?fl" using fl flag_clear_or [OF v(2)] by auto
  have ps: "headers_pri_spec (nghttp2_frame_unpack_headers_payload (frame\<lparr>headers_hd := fh\<rparr>) (pre @ block)) =
       (if ?fl AND NGHTTP2_FLAG_PRIORITY \<noteq> 0 then headers_pri_spec frame else nghttp2_priority_spec_default_init)"
    using prio_roundtrip [OF v(3)] by (simp add: nghttp2_frame_unpack_headers_payload_def pf pre_def)
  have "headers_received (bufs_bytes bufs') frame ir ir'" unfolding headers_received_def
    by (rule exI [of _ fh], rule exI [of _ "pre @ block"]) (use s(2-4) b(2,7) pl eh ps in \<open>simp add: f'_def\<close>)
  then show ?thesis by (rule that [OF p _ b(3)])
qed

lemma pack_push_promise_ok:
  assumes ready: "frame_ready bufs" "mem_reliable (bufs_mem bufs)" "hpack_sync df ir" "list_all nv_short (pp_nva frame)"
    and v: "hd_valid ((pp_hd frame)\<lparr>fh_length := 0\<rparr>)" "end_headers (pp_hd frame)" "is_id31 (promised_stream_id frame)"
    and room: "4 + nghttp2_hd_deflate_bound (pp_nva frame) \<le> bufs_room bufs" "14 \<le> chunk_length bufs"
  obtains frame' df' bufs' ir' fh payload where "nghttp2_frame_pack_push_promise bufs frame df = Some (Inr (), frame', df', bufs')"
    "read_block (bufs_bytes bufs') = Some (fh, payload, [])" "fh_type fh = fh_type (pp_hd frame)" "fh_stream_id fh = fh_stream_id (pp_hd frame)"
    "promised_stream_id (nghttp2_frame_unpack_push_promise_payload frame payload) = promised_stream_id frame"
    "inflate_fields ir (drop 4 payload) True [] = Some (Inr (), map received (pp_nva frame), ir')" "hpack_sync df' ir'"
proof -
  define pre where "pre = nghttp2_put_uint32be (word_of_int (promised_stream_id frame))"
  have l4: "length pre = 4" by (simp add: pre_def)
  have rm: "length pre + nghttp2_hd_deflate_bound (pp_nva frame) \<le> bufs_room bufs" "10 + length pre \<le> chunk_length bufs" using l4 room by simp_all
  obtain df' bufs1 block ir' where b: "pack_header_block bufs (pp_nva frame) (length pre) df = Some (Inr (), df', bufs1)"
    "inflate_fields ir block True [] = Some (Inr (), map received (pp_nva frame), ir')" "hpack_sync df' ir'"
    "buf_pos (head_buf bufs1) = 10" "10 + length pre \<le> length (buf_data (head_buf bufs1))"
    "bufs_wf (fill_head bufs1 pre)" "bufs_bytes (fill_head bufs1 pre) = pre @ block"
    "\<forall>i\<le>bufs_cur (fill_head bufs1 pre). chunk_small (bufs_chain (fill_head bufs1 pre) ! i)"
    by (rule pack_header_block_ok [OF ready rm])
  let ?h = "head_buf bufs1" and ?b2 = "fill_head bufs1 pre"
  obtain d where d: "mem_store (buf_data ?h) (buf_pos ?h) pre = Some d" "set_buf bufs1 0 (?h\<lparr>buf_data := d\<rparr>) = ?b2"
    using fill_store [OF b(4)] b(4,5) by (auto simp: mem_store_Some)
  define f' where "f' = frame\<lparr>pp_padlen := 0, pp_hd := (pp_hd frame)\<lparr>fh_length := nghttp2_bufs_len ?b2\<rparr>\<rparr>"
  have fv: "hd_valid ((pp_hd f')\<lparr>fh_length := 0\<rparr>)" "end_headers (pp_hd f')" using v by (simp_all add: f'_def)
  obtain bufs' fh where s: "frame_pack_headers_shared ?b2 (pp_hd f') = Some bufs'" "read_block (bufs_bytes bufs') = Some (fh, bufs_bytes ?b2, [])"
    "fh_type fh = fh_type (pp_hd f')" "fh_stream_id fh = fh_stream_id (pp_hd f')"
    by (rule shared_ok [OF b(6,8) fv]) blast
  have p: "nghttp2_frame_pack_push_promise bufs frame df = Some (Inr (), f', df', bufs')"
    using b(1) d s(1) l4 by (simp add: nghttp2_frame_pack_push_promise_def pre_def [symmetric] f'_def Let_def)
  have "promised_stream_id (nghttp2_frame_unpack_push_promise_payload frame (pre @ block)) = promised_stream_id frame"
    using mask31 [OF v(3)] by (simp add: nghttp2_frame_unpack_push_promise_payload_def NGHTTP2_STREAM_ID_MASK_def pre_def)
  then show ?thesis by (intro that [OF p s(2) _ _ _ _ b(3)]) (use s(3,4) b(2,7) l4 in \<open>simp_all add: f'_def\<close>)
qed

section \<open>Padding keeps the payload\<close>

abbreviation padded_hd :: "nghttp2_frame_hd \<Rightarrow> nat \<Rightarrow> nghttp2_frame_hd" where
  "padded_hd fh padlen \<equiv> fh\<lparr>fh_length := fh_length fh + padlen, fh_flags := fh_flags fh OR NGHTTP2_FLAG_PADDED\<rparr>"

lemma put_len_type:
  "nghttp2_put_uint32be (of_nat (push_bit 8 n + unat (t :: u8))) = take 3 (nghttp2_put_uint32be (of_nat (push_bit 8 n))) @ [t]"
proof -
  define w :: u32 where "w = push_bit 8 (of_nat n)"
  have w: "of_nat (push_bit 8 n) = w" by (simp add: w_def push_bit_of_nat)
  have bw: "bit w i \<Longrightarrow> 8 \<le> i" for i by (simp add: w_def bit_push_bit_iff)
  have "w + ucast t = w OR ucast t" by (rule disjunctive_add) (use bw in \<open>auto simp: bit_simps\<close>)
  then have e: "of_nat (push_bit 8 n + unat t) = w OR ucast t" by (simp add: w)
  have "ucast (drop_bit k (w OR ucast t)) = (ucast (drop_bit k w) :: u8)" if "8 \<le> k" for k
    using that by (intro bit_word_eqI) (auto simp: bit_simps)
  moreover have "ucast (w OR ucast t) = t"
    by (intro bit_word_eqI) (auto simp: bit_simps dest: bw)
  ultimately show ?thesis unfolding e w by (simp add: nghttp2_put_uint32be_def)
qed

lemma hd_wire_length:
  assumes "fh_length fh < 2 ^ 24"
  shows "unat (drop_bit 8 (nghttp2_get_uint32 (take 4 (hd_wire fh) @ r))) = fh_length fh"
proof -
  let ?g = "fh\<lparr>fh_stream_id := 0, fh_reserved := 0\<rparr>"
  have "hd_valid ?g" using assms by (simp add: hd_valid_def)
  from arg_cong [OF hd_roundtrip [OF this, of "[]"], of fh_length] have "unat (drop_bit 8 (nghttp2_get_uint32 (hd_wire ?g))) = fh_length fh"
    by (simp add: nghttp2_frame_unpack_frame_hd_def)
  moreover have "nghttp2_get_uint32 (take 4 (hd_wire fh) @ r) = nghttp2_get_uint32 (hd_wire ?g)"
    by (simp add: nghttp2_get_uint32_def hd_wire_def nghttp2_put_uint32be_def)
  ultimately show ?thesis by simp
qed

text \<open>Only the frame header moves; the pad length byte and the zeros go around the payload.\<close>

lemma frame_set_pad_ok:
  assumes wf: "buf_wf buf" and pos: "1 \<le> buf_pos buf" and bytes: "buf_bytes buf = hd_wire fh @ payload"
    and len: "fh_length fh < 2 ^ 24" and pad: "0 < padlen" "padlen - 1 \<le> nghttp2_buf_avail buf"
  obtains buf' where "frame_set_pad buf padlen False = Some buf'" "buf_wf buf'"
    "buf_bytes buf' = hd_wire (padded_hd fh padlen) @ of_nat (padlen - 1) # payload @ replicate (padlen - 1) 0"
proof -
  let ?p = "buf_pos buf" and ?d = "buf_data buf"
  have le: "?p \<le> buf_last buf" "buf_last buf \<le> length ?d" using wf by (auto simp: buf_wf_def)
  obtain a0 a1 a2 a3 where a: "nghttp2_put_uint32be (of_nat (push_bit 8 (fh_length fh))) = [a0, a1, a2, a3]" by (simp add: nghttp2_put_uint32be_def)
  obtain s0 s1 s2 s3 where s: "nghttp2_put_uint32be (word_of_int (fh_stream_id fh)) = [s0, s1, s2, s3]" by (simp add: nghttp2_put_uint32be_def)
  have w: "hd_wire fh = [a0, a1, a2, fh_type fh, fh_flags fh, s0, s1, s2, s3]" by (simp add: hd_wire_def a s)
  have lb: "buf_last buf - ?p = 9 + length payload"
  proof -
    have "length (buf_bytes buf) = buf_last buf - ?p" using le by (simp add: buf_bytes_def nghttp2_buf_len_def)
    then show ?thesis by (simp add: bytes)
  qed
  define A x R where "A = take (?p - 1) ?d" and "x = ?d ! (?p - 1)" and "R = drop (buf_last buf) ?d"
  have A: "length A = ?p - 1" using le pos by (simp add: A_def)
  have d: "?d = A @ x # hd_wire fh @ payload @ R"
  proof -
    have "?d = A @ x # drop ?p ?d" using id_take_nth_drop [of "?p - 1" ?d] le pos lb by (simp add: A_def x_def)
    moreover have "drop ?p ?d = buf_bytes buf @ drop (nghttp2_buf_len buf) (drop ?p ?d)" by (simp only: buf_bytes_def append_take_drop_id)
    moreover have "drop (nghttp2_buf_len buf) (drop ?p ?d) = R" using le by (simp add: R_def nghttp2_buf_len_def)
    ultimately have "?d = A @ x # (hd_wire fh @ payload) @ R" by (simp only: bytes)
    then show ?thesis by simp
  qed
  let ?w' = "hd_wire (padded_hd fh padlen)" and ?t = "of_nat (padlen - 1) :: u8" and ?F = "fh_flags fh OR NGHTTP2_FLAG_PADDED"
  let ?m = "[a0, a1, a2, fh_type fh, ?F, s0, s1, s2, s3]"
  have last: "buf_last buf = length (A @ ?w' @ ?t # payload)" using A lb le pos by simp
  have t9: "take 9 (drop ?p ?d) = hd_wire fh"
    using A pos arg_cong [OF d, of "\<lambda>l. take 9 (drop ?p l)"] by simp
  have 1: "mem_store ?d (length A) (hd_wire fh) = Some (A @ hd_wire fh @ s3 # payload @ R)"
    using mem_store_at [of "x # take 8 (hd_wire fh)" "hd_wire fh" A "s3 # payload @ R"] by (simp add: d w)
  have 2: "mem_store (A @ hd_wire fh @ s3 # payload @ R) (length A + 4) [?F] = Some (A @ ?m @ s3 # payload @ R)"
    using mem_store_at [of "[fh_flags fh]" "[?F]" "A @ [a0, a1, a2, fh_type fh]" "[s0, s1, s2, s3] @ s3 # payload @ R"] by (simp add: w numeral_eq_Suc)
  have fl: "(A @ hd_wire fh @ s3 # payload @ R) ! (length A + 4) = fh_flags fh" "(A @ ?m @ s3 # payload @ R) ! (length A + 3) = fh_type fh"
    by (simp_all add: w nth_append)
  have nl: "unat (drop_bit 8 (nghttp2_get_uint32 (drop (length A) (A @ ?m @ s3 # payload @ R)))) = fh_length fh"
    using hd_wire_length [OF len, of "[?F, s0, s1, s2, s3] @ s3 # payload @ R"] by (simp add: w)
  have w': "?w' = nghttp2_put_uint32be (of_nat (push_bit 8 (fh_length fh + padlen) + unat (fh_type fh))) @ [?F, s0, s1, s2, s3]"
    unfolding put_len_type by (simp add: hd_wire_def s)
  have 3: "mem_store (A @ ?m @ s3 # payload @ R) (length A) (nghttp2_put_uint32be (of_nat (push_bit 8 (fh_length fh + padlen) + unat (fh_type fh)))) =
      Some (A @ ?w' @ s3 # payload @ R)"
    unfolding w' using mem_store_at [of "[a0, a1, a2, fh_type fh]" "nghttp2_put_uint32be (of_nat (push_bit 8 (fh_length fh + padlen) + unat (fh_type fh)))" A
        "[?F, s0, s1, s2, s3] @ s3 # payload @ R"] by simp
  have 4: "mem_store (A @ ?w' @ s3 # payload @ R) (length A + 9) [?t] = Some (A @ ?w' @ ?t # payload @ R)"
    using mem_store_at [of "[s3]" "[?t]" "A @ ?w'" "payload @ R"] by simp
  have lR: "padlen - 1 \<le> length R" using pad(2) le by (simp add: R_def nghttp2_buf_avail_def)
  have 5: "mem_store (A @ ?w' @ ?t # payload @ R) (buf_last buf) (replicate (padlen - 1) 0) =
      Some (A @ ?w' @ ?t # payload @ replicate (padlen - 1) 0 @ drop (padlen - 1) R)"
    using mem_store_at [of "take (padlen - 1) R" "replicate (padlen - 1) 0" "A @ ?w' @ ?t # payload" "drop (padlen - 1) R"] lR
    unfolding last by simp
  let ?d' = "A @ ?w' @ ?t # payload @ replicate (padlen - 1) 0 @ drop (padlen - 1) R"
  let ?b = "buf\<lparr>buf_data := ?d', buf_pos := length A, buf_last := buf_last buf + (padlen - 1)\<rparr>"
  have g: "\<not> (?p < 1 \<or> ?p + NGHTTP2_FRAME_HDLEN > length ?d)" using pos lb le by (simp add: NGHTTP2_FRAME_HDLEN_def)
  have "frame_set_pad buf padlen False = Some ?b"
    unfolding frame_set_pad_def if_not_P [OF g] by (simp only: Let_def NGHTTP2_FRAME_HDLEN_def t9 A [symmetric] 1 bind.bind_lunit fl 2 nl 3 4 5 if_False HOL.simp_thms)
  moreover have "buf_wf ?b" using A lR last by (simp add: buf_wf_def)
  moreover have "buf_bytes ?b = ?w' @ ?t # payload @ replicate (padlen - 1) 0"
    using A last by (simp add: buf_bytes_def nghttp2_buf_len_def)
  ultimately show ?thesis by (rule that)
qed

section \<open>Copies of name-value arrays\<close>

definition nv_copied :: "nghttp2_nv \<Rightarrow> nghttp2_nv" where
  "nv_copied nv = nv\<lparr>nv_name := (if nv_flags nv AND NGHTTP2_NV_FLAG_NO_COPY_NAME \<noteq> 0 then nv_name nv else nghttp2_downcase (nv_name nv))\<rparr>"

fun nv_need :: "nghttp2_nv list \<Rightarrow> nat" where
  "nv_need [] = 0"
| "nv_need (nv # nva) =
     (if nv_flags nv AND NGHTTP2_NV_FLAG_NO_COPY_NAME = 0 then length (nv_name nv) + 1 else 0) +
     (if nv_flags nv AND NGHTTP2_NV_FLAG_NO_COPY_VALUE = 0 then length (nv_value nv) + 1 else 0) + nv_need nva"

lemma nv_copy_len_need: "nv_copy_len nva n = n + nv_need nva"
  by (induction nva n rule: nv_copy_len.induct) (simp_all add: Let_def)

text \<open>One string with its terminating zero at offset \<open>at\<close>.\<close>

definition put_string :: "u8 list \<Rightarrow> nat \<Rightarrow> u8 list \<Rightarrow> u8 list" where
  "put_string d at s = take at d @ s @ 0 # drop (at + length s + 1) d"

lemma put_string_ok:
  assumes "at + length s + 1 \<le> length d"
  shows "length (put_string d at s) = length d" "take at (put_string d at s) = take at d"
    "take (length s) (drop at (put_string d at s)) = s"
    "do { d \<leftarrow> mem_store d at s; mem_store d (at + length s) [0] } = Some (put_string d at s)"
  using assms by (simp_all add: put_string_def mem_store_Some)

lemma store_in_string:
  assumes "at + length s + 1 \<le> length d" "length t = length s"
  shows "mem_store (put_string d at s) at t = Some (put_string d at t)"
  using mem_store_at [of s t "take at d" "0 # drop (at + length s + 1) d"] assms by (simp add: put_string_def)

lemma length_downcase [simp]: "length (nghttp2_downcase s) = length s"
  by (simp add: nghttp2_downcase_def)

text \<open>What a string that is read later needs of the memory: it lies below \<open>hi\<close>.\<close>

fun string_below :: "nv_string \<Rightarrow> nat \<Rightarrow> bool" where
  "string_below (App_string s) hi \<longleftrightarrow> True"
| "string_below (Own_string off n) hi \<longleftrightarrow> off + n \<le> hi"

lemma nv_read_cong: "string_below s hi \<Longrightarrow> take hi d' = take hi d \<Longrightarrow> nv_read d' s = nv_read d s"
proof (cases s)
  case (Own_string off n)
  assume a: "string_below s hi" "take hi d' = take hi d"
  have "take n (drop off (take hi e)) = take n (drop off e)" for e :: "u8 list"
    using a(1) Own_string by (simp add: drop_take min_def)
  then show ?thesis using a(2) Own_string by (metis nv_read.simps(2))
qed simp

definition copy_step :: "u8 \<Rightarrow> (u8 list \<Rightarrow> u8 list) \<Rightarrow> u8 list \<Rightarrow> u8 list \<Rightarrow> nat \<Rightarrow> nv_string \<times> u8 list \<times> nat" where
  "copy_step noflag f s d at =
     (if noflag \<noteq> 0 then (App_string s, d, at) else (Own_string at (length s), put_string d at (f s), at + length s + 1))"

lemma nv_copy_loop_step:
  assumes "at + nv_need [nv] \<le> length d"
  shows "nv_copy_loop (nv # nva) d at =
     (let (n, d1, at1) = copy_step (nv_flags nv AND NGHTTP2_NV_FLAG_NO_COPY_NAME) nghttp2_downcase (nv_name nv) d at;
          (v, d2, at2) = copy_step (nv_flags nv AND NGHTTP2_NV_FLAG_NO_COPY_VALUE) id (nv_value nv) d1 at1 in
      do { (ps, d) \<leftarrow> nv_copy_loop nva d2 at2; Some (\<lparr>copy_name = n, copy_value = v, copy_flags = nv_flags nv\<rparr> # ps, d) })"
proof -
  have n: "(if c \<noteq> 0 then Some (App_string s, d, at)
        else do {
          d \<leftarrow> mem_store d at s;
          d \<leftarrow> mem_store d (at + length s) [0];
          d \<leftarrow> mem_store d at (nghttp2_downcase (take (length s) (drop at d)));
          Some (Own_string at (length s), d, at + length s + 1) }) = Some (copy_step c nghttp2_downcase s d at)"
    if fit: "c = 0 \<longrightarrow> at + length s + 1 \<le> length d" for c :: u8 and s d at
  proof (cases "c = 0")
    case True
    note p = put_string_ok [OF fit [rule_format, OF True]]
    have "do { d \<leftarrow> do { d \<leftarrow> mem_store d at s; mem_store d (at + length s) [0] };
          d \<leftarrow> mem_store d at (nghttp2_downcase (take (length s) (drop at d)));
          Some (Own_string at (length s), d, at + length s + 1) } = Some (copy_step c nghttp2_downcase s d at)"
      unfolding p(4) using store_in_string [OF fit [rule_format, OF True], of "nghttp2_downcase s"] p(3) True by (simp add: copy_step_def)
    then show ?thesis using True by (simp add: Option.bind_assoc)
  qed (simp add: copy_step_def)
  have v: "(if c \<noteq> 0 then Some (App_string s, d, at)
        else do {
          d \<leftarrow> mem_store d at s;
          d \<leftarrow> mem_store d (at + length s) [0];
          Some (Own_string at (length s), d, at + length s + 1) }) = Some (copy_step c id s d at)"
    if fit: "c = 0 \<longrightarrow> at + length s + 1 \<le> length d" for c :: u8 and s d at
  proof (cases "c = 0")
    case True
    note p = put_string_ok [OF fit [rule_format, OF True]]
    have "do { d \<leftarrow> do { d \<leftarrow> mem_store d at s; mem_store d (at + length s) [0] };
          Some (Own_string at (length s), d, at + length s + 1) } = Some (copy_step c id s d at)"
      unfolding p(4) using True by (simp add: copy_step_def)
    then show ?thesis using True by (simp add: Option.bind_assoc)
  qed (simp add: copy_step_def)
  obtain n1 d1 at1 where c1: "copy_step (nv_flags nv AND NGHTTP2_NV_FLAG_NO_COPY_NAME) nghttp2_downcase (nv_name nv) d at = (n1, d1, at1)"
    by (metis prod.exhaust)
  have fit1: "nv_flags nv AND NGHTTP2_NV_FLAG_NO_COPY_NAME = 0 \<longrightarrow> at + length (nv_name nv) + 1 \<le> length d" using assms by auto
  have l1: "length d1 = length d" using c1 put_string_ok(1) [of at "nghttp2_downcase (nv_name nv)" d] fit1 by (auto simp: copy_step_def split: if_splits)
  have fit2: "nv_flags nv AND NGHTTP2_NV_FLAG_NO_COPY_VALUE = 0 \<longrightarrow> at1 + length (nv_value nv) + 1 \<le> length d1"
    using assms c1 l1 by (auto simp: copy_step_def split: if_splits)
  show ?thesis
    unfolding nv_copy_loop.simps n [OF fit1] bind.bind_lunit c1 prod.case v [OF fit2] Let_def
    by (simp add: case_prod_beta)
qed

lemma nv_copy_loop_ok:
  assumes "at + nv_need nva \<le> length d"
  obtains ps d' where "nv_copy_loop nva d at = Some (ps, d')" "take at d' = take at d"
    "map (\<lambda>p. \<lparr>nv_name = nv_read d' (copy_name p), nv_value = nv_read d' (copy_value p), nv_flags = copy_flags p\<rparr>) ps = map nv_copied nva"
proof -
  have "\<exists>ps d'. nv_copy_loop nva d at = Some (ps, d') \<and> length d' = length d \<and> take at d' = take at d \<and>
    map (\<lambda>p. \<lparr>nv_name = nv_read d' (copy_name p), nv_value = nv_read d' (copy_value p), nv_flags = copy_flags p\<rparr>) ps = map nv_copied nva"
    using assms
  proof (induction nva arbitrary: d at)
    case (Cons nv nva)
    let ?cn = "nv_flags nv AND NGHTTP2_NV_FLAG_NO_COPY_NAME" and ?cv = "nv_flags nv AND NGHTTP2_NV_FLAG_NO_COPY_VALUE"
    obtain n1 d1 at1 where c1: "copy_step ?cn nghttp2_downcase (nv_name nv) d at = (n1, d1, at1)" by (metis prod.exhaust)
    obtain v2 d2 at2 where c2: "copy_step ?cv id (nv_value nv) d1 at1 = (v2, d2, at2)" by (metis prod.exhaust)
    have s1: "length d1 = length d" "take at d1 = take at d" "at \<le> at1" "string_below n1 at1"
      "nv_read d1 n1 = nv_name (nv_copied nv)" "at1 = at + (if ?cn = 0 then length (nv_name nv) + 1 else 0)"
      using c1 put_string_ok [of at "nghttp2_downcase (nv_name nv)" d] Cons.prems
      by (auto simp: copy_step_def nv_copied_def split: if_splits)
    have s2: "length d2 = length d1" "take at1 d2 = take at1 d1" "at1 \<le> at2" "string_below v2 at2"
      "nv_read d2 v2 = nv_value nv" "at2 = at1 + (if ?cv = 0 then length (nv_value nv) + 1 else 0)"
      using c2 put_string_ok [of at1 "nv_value nv" d1] Cons.prems s1(1,6)
      by (auto simp: copy_step_def split: if_splits)
    have fit: "at2 + nv_need nva \<le> length d2" using Cons.prems s1(1,6) s2(1,6) by simp
    obtain ps d' where ih: "nv_copy_loop nva d2 at2 = Some (ps, d')" "length d' = length d2" "take at2 d' = take at2 d2"
      "map (\<lambda>p. \<lparr>nv_name = nv_read d' (copy_name p), nv_value = nv_read d' (copy_value p), nv_flags = copy_flags p\<rparr>) ps = map nv_copied nva"
      using Cons.IH [OF fit] by blast
    have t1: "take at1 d' = take at1 d1"
      using arg_cong [OF ih(3), of "take at1"] s2(2,3) by (simp add: min_def split: if_splits)
    have t0: "take at d' = take at d" using arg_cong [OF t1, of "take at"] s1(2,3) by (simp add: min_def split: if_splits)
    have r: "nv_read d' n1 = nv_name (nv_copied nv)" "nv_read d' v2 = nv_value nv"
      using nv_read_cong [OF s1(4) t1] nv_read_cong [OF s2(4) ih(3)] s1(5) s2(5) by simp_all
    have need: "at + nv_need [nv] \<le> length d" using Cons.prems by simp
    have eq: "nv_copy_loop (nv # nva) d at = Some (\<lparr>copy_name = n1, copy_value = v2, copy_flags = nv_flags nv\<rparr> # ps, d')"
      unfolding nv_copy_loop_step [OF need] c1 Let_def prod.case c2 ih(1) by simp
    show ?case using eq ih(2,4) s1(1) s2(1) t0 r by (auto simp: nv_copied_def)
  qed simp
  then show ?thesis using that by blast
qed

section \<open>Properties\<close>

text \<open>
  C2: a header block survives framing and compression.  The conditions: the chain is ready for a new frame, as a session
  creates and resets it, with chunks of at least 15 bytes and room for the deflate bound of the fields and the five priority
  bytes; its allocator does not fail; the deflater and the receiver's inflater are in step; no name or value is
  longer than \<^verbatim>\<open>NGHTTP2_HD_MAX_NV\<close>; the frame has END_HEADERS set, and its header and priority fields fit their
  wire fields.  Then \<^verbatim>\<open>nghttp2_frame_pack_headers\<close> succeeds; the bytes in the
  buffers are a HEADERS frame and, if the block does not fit, CONTINUATION frames of the same stream,
  of which exactly the last has END_HEADERS.  A receiver that puts the payloads together gets the
  priority fields and, from the inflater, exactly the fields of the frame, and the two ends are in
  step again.
\<close>

theorem headers_frame_roundtrip:
  assumes "frame_ready bufs" "mem_reliable (bufs_mem bufs)" "hpack_sync df ir" "list_all nv_short (headers_nva frame)"
    and "hd_valid ((headers_hd frame)\<lparr>fh_length := 0\<rparr>)" "end_headers (headers_hd frame)" "prio_valid (headers_pri_spec frame)"
    and "NGHTTP2_PRIORITY_SPECLEN + nghttp2_hd_deflate_bound (headers_nva frame) \<le> bufs_room bufs" "15 \<le> chunk_length bufs"
  shows "\<exists>frame' df' bufs' ir'. nghttp2_frame_pack_headers bufs frame df = Some (Inr (), frame', df', bufs') \<and>
     headers_received (bufs_bytes bufs') frame ir ir' \<and> hpack_sync df' ir'"
  by (rule pack_headers_ok [OF assms]) blast

definition frame0 :: nghttp2_headers where
  "frame0 = nghttp2_frame_headers_init (NGHTTP2_FLAG_END_HEADERS OR NGHTTP2_FLAG_PRIORITY) 3 HCAT_REQUEST
     (Some (nghttp2_priority_spec_init 1 200 1)) nva0"

definition bufs1 :: nghttp2_bufs where
  "bufs1 = \<lparr>bufs_chain = [\<lparr>buf_data = replicate 26 0, buf_pos = 10, buf_last = 10, buf_mark = 0\<rparr>], bufs_cur = 0,
     bufs_mem = \<lparr>mem_ok = [], mem_junk = (\<lambda>_. 0)\<rparr>, chunk_length = 26, max_chunk = 100, chunk_used = 1, chunk_keep = 1, bufs_offset = 10\<rparr>"

lemma bufs1_ready: "frame_ready bufs1" "mem_reliable (bufs_mem bufs1)" "bufs_room bufs1 = 1600"
  by (simp_all add: frame_ready_def bufs_regular_def bufs_wf_def buf_wf_def bufs1_def nghttp2_buf_len_def NGHTTP2_FRAME_HDLEN_def
      mem_reliable_def bufs_room_def nghttp2_buf_avail_def)

theorem headers_frame_roundtrip_witness:
  "\<exists>frame' df' bufs' ir'. nghttp2_frame_pack_headers bufs1 frame0 df0 = Some (Inr (), frame', df', bufs') \<and>
     headers_received (bufs_bytes bufs') frame0 ir0 ir' \<and> hpack_sync df' ir'"
proof (rule headers_frame_roundtrip [OF bufs1_ready(1,2)])
  show "hpack_sync df0 ir0" by (rule sync0)
  show "list_all nv_short (headers_nva frame0)"
    by (simp add: frame0_def nghttp2_frame_headers_init_def nva0_def nv_short_def NGHTTP2_HD_MAX_NV_def)
  show "hd_valid ((headers_hd frame0)\<lparr>fh_length := 0\<rparr>)"
    by (simp add: frame0_def nghttp2_frame_headers_init_def nghttp2_frame_hd_init_def hd_valid_def)
  show "end_headers (headers_hd frame0)"
    by (simp add: frame0_def nghttp2_frame_headers_init_def nghttp2_frame_hd_init_def NGHTTP2_FLAG_END_HEADERS_def NGHTTP2_FLAG_PRIORITY_def)
  show "prio_valid (headers_pri_spec frame0)"
    by (simp add: frame0_def nghttp2_frame_headers_init_def nghttp2_priority_spec_init_def prio_valid_def)
  show "NGHTTP2_PRIORITY_SPECLEN + nghttp2_hd_deflate_bound (headers_nva frame0) \<le> bufs_room bufs1"
    by (simp add: frame0_def nghttp2_frame_headers_init_def nva0_def nghttp2_hd_deflate_bound_def bufs1_ready NGHTTP2_PRIORITY_SPECLEN_def)
  show "15 \<le> chunk_length bufs1" by (simp add: bufs1_def)
qed

text \<open>Dropping the padding, as a receiver does.\<close>

definition unpad :: "u8 list \<Rightarrow> u8 list" where
  "unpad p = take (length p - 1 - unat (p ! 0)) (drop 1 p)"

text \<open>
  C12: padding does not change a frame's content.  \<^verbatim>\<open>nghttp2_frame_add_pad\<close>, on a buffer with one byte free in front
  of a frame and room behind it, adds the padding to the length in the frame header, sets the PADDED flag there
  and in the header it is given, keeps type and stream, and stores the padding length and zeros around the
  payload, so that a receiver that drops the padding reads the same payload.
\<close>

theorem add_pad_keeps_payload:
  assumes "bufs_chain bufs \<noteq> []" "buf_wf (head_buf bufs)" "1 \<le> buf_pos (head_buf bufs)" "buf_bytes (head_buf bufs) = hd_wire fh @ payload"
    and "hd_valid fh" "fh_length fh = length payload" "0 < padlen" "padlen \<le> NGHTTP2_MAX_PADLEN" "length payload + padlen < 2 ^ 24"
    and "padlen - 1 \<le> nghttp2_buf_avail (head_buf bufs)"
  shows "\<exists>bufs' p. nghttp2_frame_add_pad bufs fh padlen False = Some (bufs', padded_hd fh padlen) \<and>
     read_frame (buf_bytes (head_buf bufs')) = Some (padded_hd fh padlen, p, []) \<and> unpad p = payload \<and>
     list_all (\<lambda>b. b = 0) (drop (1 + length payload) p)"
proof -
  let ?p = "of_nat (padlen - 1) # payload @ replicate (padlen - 1) 0"
  have l24: "fh_length fh < 2 ^ 24" using assms(5) by (simp add: hd_valid_def)
  obtain buf where b: "frame_set_pad (head_buf bufs) padlen False = Some buf" "buf_bytes buf = hd_wire (padded_hd fh padlen) @ ?p"
    by (rule frame_set_pad_ok [OF assms(2-4) l24 assms(7,10)])
  have v: "hd_valid (padded_hd fh padlen)" "fh_length (padded_hd fh padlen) = length ?p" using assms(5-7,9) by (simp_all add: hd_valid_def)
  have u: "unat (of_nat (padlen - 1) :: u8) = padlen - 1" using assms(8) by (intro unat_of_nat_u8) (simp add: NGHTTP2_MAX_PADLEN_def)
  have "nghttp2_frame_add_pad bufs fh padlen False = Some (set_buf bufs 0 buf, padded_hd fh padlen)"
    using b(1) assms(7,10) by (simp add: nghttp2_frame_add_pad_def)
  moreover have "read_frame (buf_bytes (head_buf (set_buf bufs 0 buf))) = Some (padded_hd fh padlen, ?p, [])"
    using read_frame_wire [OF v, of "[]"] b(2) assms(1) by (simp add: set_buf_def)
  moreover have "unpad ?p = payload" unfolding unpad_def nth_Cons_0 u by simp
  ultimately show ?thesis by (auto simp: list_all_iff)
qed

definition bufs2 :: nghttp2_bufs where
  "bufs2 = bufs0\<lparr>bufs_chain := [\<lparr>buf_data = 0 # hd_wire (nghttp2_frame_hd_init 3 NGHTTP2_DATA 0 1) @ [1, 2, 3] @ replicate 9 7,
     buf_pos = 1, buf_last = 13, buf_mark = 0\<rparr>]\<rparr>"

theorem add_pad_keeps_payload_witness:
  "\<exists>bufs' p. nghttp2_frame_add_pad bufs2 (nghttp2_frame_hd_init 3 NGHTTP2_DATA 0 1) 4 False =
      Some (bufs', nghttp2_frame_hd_init 7 NGHTTP2_DATA NGHTTP2_FLAG_PADDED 1) \<and>
     read_frame (buf_bytes (head_buf bufs')) = Some (nghttp2_frame_hd_init 7 NGHTTP2_DATA NGHTTP2_FLAG_PADDED 1, p, []) \<and> unpad p = [1, 2, 3]"
proof -
  let ?fh = "nghttp2_frame_hd_init 3 NGHTTP2_DATA 0 1"
  have "\<exists>bufs' p. nghttp2_frame_add_pad bufs2 ?fh 4 False = Some (bufs', padded_hd ?fh 4) \<and>
     read_frame (buf_bytes (head_buf bufs')) = Some (padded_hd ?fh 4, p, []) \<and> unpad p = [1, 2, 3] \<and>
     list_all (\<lambda>b. b = 0) (drop (1 + length [1 :: u8, 2, 3]) p)"
    by (rule add_pad_keeps_payload)
      (simp_all add: bufs2_def bufs0_def buf_wf_def buf_bytes_def nghttp2_buf_len_def nghttp2_buf_avail_def hd_valid_def
        nghttp2_frame_hd_init_def NGHTTP2_MAX_PADLEN_def)
  moreover have "padded_hd ?fh 4 = nghttp2_frame_hd_init 7 NGHTTP2_DATA NGHTTP2_FLAG_PADDED 1" by (simp add: nghttp2_frame_hd_init_def)
  ultimately show ?thesis by auto
qed

text \<open>
  C22: a copy of a name-value array has the same fields.  \<^verbatim>\<open>nghttp2_nv_array_copy\<close> computes the memory its copies need
  exactly: no store is outside of it.  The copied array has the fields of the original in order, with
  their flags; names are in lower case, unless the application asked not to copy them.  It fails only
  if the allocation does.
\<close>

theorem nv_array_copy_faithful:
  "nghttp2_nv_array_copy mem nva =
     Some (if nva = [] then (Inr [], mem)
           else if fst (mem_call mem) then (Inr (map nv_copied nva), snd (mem_call mem)) else (Inl ERR_NOMEM, snd (mem_call mem)))"
proof -
  have fit: "0 + nv_need nva \<le> length (mem_fresh mem (nv_copy_len nva 0))" by (simp add: nv_copy_len_need)
  obtain ps d' where l: "nv_copy_loop nva (mem_fresh mem (nv_copy_len nva 0)) 0 = Some (ps, d')"
    "map (\<lambda>p. \<lparr>nv_name = nv_read d' (copy_name p), nv_value = nv_read d' (copy_value p), nv_flags = copy_flags p\<rparr>) ps = map nv_copied nva"
    by (rule nv_copy_loop_ok [OF fit])
  show ?thesis using l(1) by (simp add: nghttp2_nv_array_copy_def Let_def case_prod_beta l(2))
qed

end
