(* ===== verification/Queue.thy ===== *)
theory Queue
  imports Frame
begin

text \<open>
  \<^verbatim>\<open>lib/nghttp2_queue.c\<close> and \<^verbatim>\<open>lib/nghttp2_outbound_item.c\<close>: the two singly linked first-in first-out
  queues.  \<^verbatim>\<open>nghttp2_queue\<close> allocates a cell for every element; \<^verbatim>\<open>nghttp2_outbound_queue\<close> is intrusive and
  links the frames that wait for transmission through their \<^verbatim>\<open>qnext\<close> pointers.  Pointers are addresses
  into a store of cells, \<^verbatim>\<open>NULL\<close> is \<open>None\<close>; a result \<open>None\<close> of an operation is a failed assertion or the
  dereference of a dangling pointer.  The contract of a queue is a locale, interpreted on both.
\<close>

section \<open>The pointer queue\<close>

record nghttp2_queue_cell =
  cell_data :: nat
  cell_next :: "nat option"

record nghttp2_queue =
  queue_front :: "nat option"
  queue_back :: "nat option"

text \<open>The cells \<^verbatim>\<open>malloc\<close> handed out, with the address of the next allocation.\<close>

record queue_heap =
  qh_cells :: "nat \<Rightarrow> nghttp2_queue_cell option"
  qh_fresh :: nat
  qh_mem :: nghttp2_mem

definition nghttp2_queue_init :: nghttp2_queue where
  "nghttp2_queue_init = \<lparr>queue_front = None, queue_back = None\<rparr>"

definition nghttp2_queue_push ::
  "queue_heap \<Rightarrow> nghttp2_queue \<Rightarrow> nat \<Rightarrow> ((nghttp2_error + unit) \<times> queue_heap \<times> nghttp2_queue) option" where
  "nghttp2_queue_push h queue data =
     (let (ok, mem) = mem_call (qh_mem h); h = h\<lparr>qh_mem := mem\<rparr> in
      if \<not> ok then Some (Inl ERR_NOMEM, h, queue)
      else
        let new_cell = qh_fresh h;
            h = h\<lparr>qh_cells := (qh_cells h)(new_cell \<mapsto> \<lparr>cell_data = data, cell_next = None\<rparr>), qh_fresh := Suc new_cell\<rparr> in
        case queue_back queue of
          Some b \<Rightarrow>
            (case qh_cells h b of
               None \<Rightarrow> None
             | Some c \<Rightarrow> Some (Inr (), h\<lparr>qh_cells := (qh_cells h)(b \<mapsto> c\<lparr>cell_next := Some new_cell\<rparr>)\<rparr>,
                           queue\<lparr>queue_back := Some new_cell\<rparr>))
        | None \<Rightarrow> Some (Inr (), h, queue\<lparr>queue_front := Some new_cell, queue_back := Some new_cell\<rparr>))"

definition nghttp2_queue_pop :: "queue_heap \<Rightarrow> nghttp2_queue \<Rightarrow> (queue_heap \<times> nghttp2_queue) option" where
  "nghttp2_queue_pop h queue =
     (case queue_front queue of
        None \<Rightarrow> None
      | Some front \<Rightarrow>
          (case qh_cells h front of
             None \<Rightarrow> None
           | Some c \<Rightarrow>
               let back = queue_back queue;
                   queue = queue\<lparr>queue_front := cell_next c\<rparr>;
                   queue = (if Some front = back then queue\<lparr>queue_back := None\<rparr> else queue) in
               Some (h\<lparr>qh_cells := (qh_cells h)(front := None)\<rparr>, queue)))"

definition nghttp2_queue_front :: "queue_heap \<Rightarrow> nghttp2_queue \<Rightarrow> nat option" where
  "nghttp2_queue_front h queue =
     (case queue_front queue of None \<Rightarrow> None | Some a \<Rightarrow> map_option cell_data (qh_cells h a))"

definition nghttp2_queue_back :: "queue_heap \<Rightarrow> nghttp2_queue \<Rightarrow> nat option" where
  "nghttp2_queue_back h queue =
     (case queue_back queue of None \<Rightarrow> None | Some a \<Rightarrow> map_option cell_data (qh_cells h a))"

definition nghttp2_queue_empty :: "nghttp2_queue \<Rightarrow> bool" where
  "nghttp2_queue_empty queue \<longleftrightarrow> queue_front queue = None"

text \<open>Every cell is returned; the pointers of the queue are left as they are.\<close>

partial_function (option) queue_free_loop :: "queue_heap \<Rightarrow> nat option \<Rightarrow> queue_heap option" where
  "queue_free_loop h p =
     (case p of
        None \<Rightarrow> Some h
      | Some a \<Rightarrow>
          (case qh_cells h a of
             None \<Rightarrow> None
           | Some c \<Rightarrow> queue_free_loop (h\<lparr>qh_cells := (qh_cells h)(a := None)\<rparr>) (cell_next c)))"

definition nghttp2_queue_free :: "queue_heap \<Rightarrow> nghttp2_queue option \<Rightarrow> queue_heap option" where
  "nghttp2_queue_free h queue = (case queue of None \<Rightarrow> Some h | Some q \<Rightarrow> queue_free_loop h (queue_front q))"

section \<open>Outbound items\<close>

record nghttp2_data_provider =
  dp_source :: nat
  dp_read_callback :: "nat option"

record nghttp2_headers_aux_data =
  ha_data_prd :: nghttp2_data_provider
  ha_stream_user_data :: "nat option"
  ha_error_code :: u32
  ha_canceled :: bool

record nghttp2_data_aux_data =
  da_data_prd :: nghttp2_data_provider
  da_flags :: u8
  da_eof :: bool
  da_no_copy :: bool

definition NGHTTP2_GOAWAY_AUX_NONE :: u8 where "NGHTTP2_GOAWAY_AUX_NONE = 0"
definition NGHTTP2_GOAWAY_AUX_TERM_ON_SEND :: u8 where "NGHTTP2_GOAWAY_AUX_TERM_ON_SEND = 1"
definition NGHTTP2_GOAWAY_AUX_SHUTDOWN_NOTICE :: u8 where "NGHTTP2_GOAWAY_AUX_SHUTDOWN_NOTICE = 2"

text \<open>The union \<^verbatim>\<open>nghttp2_aux_data\<close>; \<open>Aux_zero\<close> is its state after \<^verbatim>\<open>memset\<close>.\<close>

datatype nghttp2_aux_data =
    Aux_zero | Aux_data nghttp2_data_aux_data | Aux_headers nghttp2_headers_aux_data | Aux_goaway u8 | Aux_ext bool

text \<open>
  \<^verbatim>\<open>ext_frame_payload\<close> is storage for the payload of an extension frame that the library makes; it is \<open>None\<close> until it is
  filled.  \<^verbatim>\<open>nghttp2_outbound_item_init\<close> does not touch it.
\<close>

record nghttp2_outbound_item =
  oi_frame :: nghttp2_frame
  oi_ext_frame_payload :: "nghttp2_ext_payload option"
  oi_aux_data :: nghttp2_aux_data
  oi_cycle :: u64
  oi_qnext :: "nat option"
  oi_queued :: bool

definition nghttp2_outbound_item_init :: "nghttp2_outbound_item \<Rightarrow> nghttp2_outbound_item" where
  "nghttp2_outbound_item_init item = item\<lparr>oi_cycle := 0, oi_qnext := None, oi_queued := False, oi_aux_data := Aux_zero\<rparr>"

section \<open>Outbound queues\<close>

record nghttp2_outbound_queue =
  oq_head :: "nat option"
  oq_tail :: "nat option"
  oq_n :: nat

type_synonym items = "nat \<Rightarrow> nghttp2_outbound_item option"

definition nghttp2_outbound_queue_init :: nghttp2_outbound_queue where
  "nghttp2_outbound_queue_init = \<lparr>oq_head = None, oq_tail = None, oq_n = 0\<rparr>"

definition nghttp2_outbound_queue_push ::
  "items \<Rightarrow> nghttp2_outbound_queue \<Rightarrow> nat \<Rightarrow> (items \<times> nghttp2_outbound_queue) option" where
  "nghttp2_outbound_queue_push is q item =
     (case oq_tail q of
        Some t \<Rightarrow>
          (case is t of
             None \<Rightarrow> None
           | Some ti \<Rightarrow> Some (is(t \<mapsto> ti\<lparr>oi_qnext := Some item\<rparr>), q\<lparr>oq_tail := Some item, oq_n := oq_n q + 1\<rparr>))
      | None \<Rightarrow> Some (is, q\<lparr>oq_head := Some item, oq_tail := Some item, oq_n := oq_n q + 1\<rparr>))"

definition nghttp2_outbound_queue_pop ::
  "items \<Rightarrow> nghttp2_outbound_queue \<Rightarrow> (items \<times> nghttp2_outbound_queue) option" where
  "nghttp2_outbound_queue_pop is q =
     (case oq_head q of
        None \<Rightarrow> Some (is, q)
      | Some h \<Rightarrow>
          (case is h of
             None \<Rightarrow> None
           | Some hi \<Rightarrow>
               let q = q\<lparr>oq_head := oi_qnext hi\<rparr>;
                   q = (if oq_head q = None then q\<lparr>oq_tail := None\<rparr> else q) in
               Some (is(h \<mapsto> hi\<lparr>oi_qnext := None\<rparr>), q\<lparr>oq_n := oq_n q - 1\<rparr>)))"

definition nghttp2_outbound_queue_top :: "nghttp2_outbound_queue \<Rightarrow> nat option" where
  "nghttp2_outbound_queue_top q = oq_head q"

definition nghttp2_outbound_queue_size :: "nghttp2_outbound_queue \<Rightarrow> nat" where
  "nghttp2_outbound_queue_size q = oq_n q"

section \<open>The contract of a queue\<close>

text \<open>
  \<open>holds s xs\<close>: the queue in state \<open>s\<close> holds \<open>xs\<close>, oldest first.  \<open>able xs x\<close>: a queue that holds \<open>xs\<close> may
  be given \<open>x\<close>.  A client is a sequence of pushes and pops; what it observes is the oldest element
  before every step.
\<close>

datatype 'e fifo_op = Push 'e | Pop

fun fifo_run :: "('s \<Rightarrow> 'e \<Rightarrow> 's option) \<Rightarrow> ('s \<Rightarrow> 's option) \<Rightarrow> ('s \<Rightarrow> 'e option) \<Rightarrow> 's \<Rightarrow> 'e fifo_op list \<Rightarrow>
    ('e option list \<times> 's) option" where
  "fifo_run push pop front s [] = Some ([], s)"
| "fifo_run push pop front s (x # xs) =
     (case (case x of Push e \<Rightarrow> push s e | Pop \<Rightarrow> pop s) of
        None \<Rightarrow> None
      | Some s1 \<Rightarrow> map_option (\<lambda>(os, s2). (front s # os, s2)) (fifo_run push pop front s1 xs))"

fun list_front :: "'e list \<Rightarrow> 'e option" where
  "list_front [] = None"
| "list_front (x # xs) = Some x"

definition list_push :: "('e list \<Rightarrow> 'e \<Rightarrow> bool) \<Rightarrow> 'e list \<Rightarrow> 'e \<Rightarrow> 'e list option" where
  "list_push able xs x = (if able xs x then Some (xs @ [x]) else None)"

fun list_pop :: "'e list \<Rightarrow> 'e list option" where
  "list_pop [] = None"
| "list_pop (x # xs) = Some xs"

locale fifo_queue =
  fixes holds :: "'s \<Rightarrow> 'e list \<Rightarrow> bool" and able :: "'e list \<Rightarrow> 'e \<Rightarrow> bool"
    and push :: "'s \<Rightarrow> 'e \<Rightarrow> 's option" and pop :: "'s \<Rightarrow> 's option" and front :: "'s \<Rightarrow> 'e option"
  assumes push_holds: "holds s xs \<Longrightarrow> able xs x \<Longrightarrow> \<exists>s'. push s x = Some s' \<and> holds s' (xs @ [x])"
    and pop_holds: "holds s (x # xs) \<Longrightarrow> \<exists>s'. pop s = Some s' \<and> holds s' xs"
    and front_holds: "holds s xs \<Longrightarrow> front s = list_front xs"
begin

lemma run_refines:
  assumes "holds s xs" "fifo_run (list_push able) list_pop list_front xs ops = Some (os, ys)"
  shows "\<exists>s'. fifo_run push pop front s ops = Some (os, s') \<and> holds s' ys"
  using assms
proof (induction ops arbitrary: s xs os)
  case (Cons x ops)
  obtain zs os' where zs: "(case x of Push e \<Rightarrow> list_push able xs e | Pop \<Rightarrow> list_pop xs) = Some zs"
      "fifo_run (list_push able) list_pop list_front zs ops = Some (os', ys)" "os = list_front xs # os'"
    using Cons.prems(2) by (auto split: option.splits)
  have "\<exists>s1. (case x of Push e \<Rightarrow> push s e | Pop \<Rightarrow> pop s) = Some s1 \<and> holds s1 zs"
  proof (cases x)
    case (Push e)
    then show ?thesis using zs(1) push_holds [OF Cons.prems(1)] by (auto simp: list_push_def split: if_splits)
  next
    case Pop
    then show ?thesis using zs(1) pop_holds Cons.prems(1) by (cases xs) auto
  qed
  then obtain s1 where s1: "(case x of Push e \<Rightarrow> push s e | Pop \<Rightarrow> pop s) = Some s1" "holds s1 zs" by blast
  show ?case using Cons.IH [OF s1(2) zs(2)] s1(1) front_holds [OF Cons.prems(1)] zs(3) by auto
qed simp

lemma drain_in_order:
  "holds s (xs @ ys) \<Longrightarrow> \<exists>s'. fifo_run push pop front s (replicate (length xs) Pop) = Some (map Some xs, s') \<and> holds s' ys"
proof (induction xs arbitrary: s)
  case (Cons x xs)
  then obtain s1 where "pop s = Some s1" "holds s1 (xs @ ys)" using pop_holds by fastforce
  then show ?case using Cons.IH [of s1] front_holds [OF Cons.prems] by auto
qed simp

end

section \<open>Chains with a tail pointer\<close>

text \<open>The end pointer of a chain of cells.\<close>

definition end_of :: "'a list \<Rightarrow> 'a option" where
  "end_of xs = (if xs = [] then None else Some (last xs))"

lemma links_snoc:
  assumes "links nx p xs" "xs \<noteq> []" "x \<notin> set xs" "distinct xs" "nx x = Some None"
  shows "links (nx(last xs := Some (Some x))) p (xs @ [x])"
  using assms
proof (induction xs arbitrary: p)
  case (Cons y ys)
  then obtain q where q: "p = Some y" "nx y = Some q" "links nx q ys" by auto
  show ?case
  proof (cases "ys = []")
    case True
    then show ?thesis using q Cons.prems by auto
  next
    case False
    then have "links (nx(last ys := Some (Some x))) q (ys @ [x])" by (intro Cons.IH q(3)) (use Cons.prems in auto)
    moreover have "y \<noteq> last ys" using False Cons.prems by auto
    ultimately show ?thesis using q False by (auto simp: fun_upd_def)
  qed
qed simp

section \<open>Outbound queues hold lists of items\<close>

definition item_nexts :: "items \<Rightarrow> nat \<Rightarrow> nat option option" where
  "item_nexts is a = map_option oi_qnext (is a)"

definition oq_holds :: "nat set \<Rightarrow> items \<times> nghttp2_outbound_queue \<Rightarrow> nat list \<Rightarrow> bool" where
  "oq_holds I = (\<lambda>(is, q) xs.
     links (item_nexts is) (oq_head q) xs \<and> oq_tail q = end_of xs \<and> oq_n q = length xs \<and> distinct xs \<and> set xs \<subseteq> I \<and>
     (\<forall>a \<in> I. a \<notin> set xs \<longrightarrow> item_nexts is a = Some None) \<and> I \<subseteq> dom is)"

definition oq_able :: "nat set \<Rightarrow> nat list \<Rightarrow> nat \<Rightarrow> bool" where
  "oq_able I xs x \<longleftrightarrow> x \<in> I \<and> x \<notin> set xs"

lemma item_nexts_upd: "item_nexts (is(t \<mapsto> i\<lparr>oi_qnext := p\<rparr>)) = (item_nexts is)(t := Some p)"
  by (auto simp: item_nexts_def fun_eq_iff)

lemma oq_push_holds:
  assumes "oq_holds I (is, q) xs" "oq_able I xs x"
  shows "\<exists>s'. nghttp2_outbound_queue_push is q x = Some s' \<and> oq_holds I s' (xs @ [x])"
proof (cases "xs = []")
  case True
  then show ?thesis using assms
    by (auto simp: oq_holds_def oq_able_def nghttp2_outbound_queue_push_def end_of_def)
next
  case False
  obtain ti where ti: "is (last xs) = Some ti" using assms(1) last_in_set [OF False] by (auto simp: oq_holds_def)
  have "links (item_nexts (is(last xs \<mapsto> ti\<lparr>oi_qnext := Some x\<rparr>))) (oq_head q) (xs @ [x])"
    unfolding item_nexts_upd using assms False by (intro links_snoc) (auto simp: oq_holds_def oq_able_def)
  then show ?thesis using assms False ti last_in_set [OF False]
    by (auto simp: oq_holds_def oq_able_def nghttp2_outbound_queue_push_def end_of_def item_nexts_upd)
qed

lemma oq_pop_holds:
  assumes "oq_holds I (is, q) (x # xs)"
  shows "\<exists>s'. nghttp2_outbound_queue_pop is q = Some s' \<and> oq_holds I s' xs"
proof -
  obtain hi where hi: "is x = Some hi" using assms by (auto simp: oq_holds_def)
  have l: "links (item_nexts is) (oi_qnext hi) xs" using assms hi by (auto simp: oq_holds_def item_nexts_def)
  have "links (item_nexts (is(x \<mapsto> hi\<lparr>oi_qnext := None\<rparr>))) (oi_qnext hi) xs"
    unfolding item_nexts_upd using assms by (intro links_frame [OF l]) (auto simp: oq_holds_def)
  moreover have "oi_qnext hi = None \<longleftrightarrow> xs = []" using l by (cases xs) auto
  ultimately show ?thesis using assms hi
    by (auto simp: oq_holds_def nghttp2_outbound_queue_pop_def end_of_def item_nexts_upd Let_def)
qed

interpretation oq: fifo_queue "oq_holds I" "oq_able I"
  "\<lambda>(is, q). nghttp2_outbound_queue_push is q" "\<lambda>(is, q). nghttp2_outbound_queue_pop is q"
  "\<lambda>(is, q). nghttp2_outbound_queue_top q" for I
proof unfold_locales
  fix s :: "items \<times> nghttp2_outbound_queue" and xs
  assume "oq_holds I s xs"
  then show "(case s of (is, q) \<Rightarrow> nghttp2_outbound_queue_top q) = list_front xs"
    by (cases xs; cases s) (auto simp: oq_holds_def nghttp2_outbound_queue_top_def)
qed (auto dest: oq_push_holds oq_pop_holds)

section \<open>Pointer queues hold lists of pointers\<close>

definition cell_nexts :: "(nat \<Rightarrow> nghttp2_queue_cell option) \<Rightarrow> nat \<Rightarrow> nat option option" where
  "cell_nexts cs a = map_option cell_next (cs a)"

definition queue_holds :: "queue_heap \<times> nghttp2_queue \<Rightarrow> nat list \<Rightarrow> bool" where
  "queue_holds = (\<lambda>(h, q) xs. \<exists>as.
     links (cell_nexts (qh_cells h)) (queue_front q) as \<and> queue_back q = end_of as \<and> distinct as \<and>
     dom (qh_cells h) = set as \<and> (\<forall>a \<in> set as. a < qh_fresh h) \<and>
     map (\<lambda>a. cell_data (the (qh_cells h a))) as = xs \<and> mem_reliable (qh_mem h))"

lemma cell_nexts_upd: "cell_nexts (cs(t \<mapsto> c)) = (cell_nexts cs)(t := Some (cell_next c))"
  by (auto simp: cell_nexts_def fun_eq_iff)

lemma cell_nexts_del: "cell_nexts (cs(t := None)) = (cell_nexts cs)(t := None)"
  by (auto simp: cell_nexts_def fun_eq_iff)

definition queue_push_ok :: "queue_heap \<times> nghttp2_queue \<Rightarrow> nat \<Rightarrow> (queue_heap \<times> nghttp2_queue) option" where
  "queue_push_ok = (\<lambda>(h, q) x.
     (case nghttp2_queue_push h q x of Some (Inr u, h', q') \<Rightarrow> Some (h', q') | _ \<Rightarrow> None))"

lemma queue_push_holds:
  assumes "queue_holds (h, q) xs"
  shows "\<exists>s'. queue_push_ok (h, q) x = Some s' \<and> queue_holds s' (xs @ [x])"
proof -
  obtain as where as: "links (cell_nexts (qh_cells h)) (queue_front q) as" "queue_back q = end_of as" "distinct as"
      "dom (qh_cells h) = set as" "\<And>a. a \<in> set as \<Longrightarrow> a < qh_fresh h"
      "xs = map (\<lambda>a. cell_data (the (qh_cells h a))) as" "mem_reliable (qh_mem h)"
    using assms by (auto simp: queue_holds_def)
  obtain m where m: "mem_call (qh_mem h) = (True, m)" "mem_reliable m"
    using mem_call_reliable [OF as(7)] by (cases "mem_call (qh_mem h)") auto
  define n where "n = qh_fresh h"
  have new: "n \<notin> set as" using as(5) by (auto simp: n_def)
  define cs where "cs = (qh_cells h)(n \<mapsto> \<lparr>cell_data = x, cell_next = None\<rparr>)"
  have l: "links (cell_nexts cs) (queue_front q) as" unfolding cs_def cell_nexts_upd
    by (rule links_frame [OF as(1)]) (use new in auto)
  have mapcs: "map (\<lambda>a. cell_data (the (cs a))) as = xs" unfolding as(6) cs_def using new by auto
  show ?thesis
  proof (cases "as = []")
    case True
    have "queue_holds (h\<lparr>qh_mem := m, qh_cells := cs, qh_fresh := Suc n\<rparr>, q\<lparr>queue_front := Some n, queue_back := Some n\<rparr>) (xs @ [x])"
      unfolding queue_holds_def using True as m mapcs by (auto simp: cs_def cell_nexts_upd end_of_def intro!: exI [of _ "[n]"])
    then show ?thesis using True as m
      by (auto simp: queue_push_ok_def nghttp2_queue_push_def end_of_def Let_def cs_def n_def)
  next
    case False
    define b where "b = last as"
    have b: "b \<in> set as" "b \<noteq> n" using False new by (auto simp: b_def)
    obtain c where c: "qh_cells h b = Some c" using b as(4) by auto
    define cs' where "cs' = cs(b \<mapsto> c\<lparr>cell_next := Some n\<rparr>)"
    have "links (cell_nexts cs') (queue_front q) (as @ [n])" unfolding cs'_def cell_nexts_upd b_def
      using links_snoc [OF l False new as(3), of ] by (simp add: cs_def cell_nexts_upd)
    moreover have "map (\<lambda>a. cell_data (the (cs' a))) (as @ [n]) = xs @ [x]"
      unfolding mapcs [symmetric] using b c new by (auto simp: cs'_def cs_def)
    moreover have "dom cs' = set (as @ [n])" using as(4) b by (auto simp: cs'_def cs_def)
    ultimately have "queue_holds (h\<lparr>qh_mem := m, qh_fresh := Suc n, qh_cells := cs'\<rparr>, q\<lparr>queue_back := Some n\<rparr>) (xs @ [x])"
      unfolding queue_holds_def using as(3,5) m new by (auto simp: end_of_def n_def less_Suc_eq intro!: exI [of _ "as @ [n]"])
    then show ?thesis using False as(2) m c b
      by (auto simp: queue_push_ok_def nghttp2_queue_push_def end_of_def Let_def cs_def cs'_def n_def b_def)
  qed
qed

lemma queue_pop_holds:
  assumes "queue_holds (h, q) (x # xs)"
  shows "\<exists>s'. nghttp2_queue_pop h q = Some s' \<and> queue_holds s' xs"
proof -
  obtain a as where as: "links (cell_nexts (qh_cells h)) (queue_front q) (a # as)" "queue_back q = end_of (a # as)" "distinct (a # as)"
      "dom (qh_cells h) = set (a # as)" "\<And>b. b \<in> set (a # as) \<Longrightarrow> b < qh_fresh h"
      "x # xs = map (\<lambda>a. cell_data (the (qh_cells h a))) (a # as)" "mem_reliable (qh_mem h)"
    using assms by (auto simp: queue_holds_def Cons_eq_map_conv)
  obtain c where c: "qh_cells h a = Some c" using as(4) by auto
  have l: "links (cell_nexts (qh_cells h)) (cell_next c) as" using as(1) c by (auto simp: cell_nexts_def)
  have l': "links (cell_nexts ((qh_cells h)(a := None))) (cell_next c) as"
    unfolding cell_nexts_del by (rule links_frame [OF l]) (use as(3) in auto)
  have "queue_holds (h\<lparr>qh_cells := (qh_cells h)(a := None)\<rparr>, q\<lparr>queue_front := cell_next c, queue_back := end_of as\<rparr>) xs"
    unfolding queue_holds_def using l' as by (auto intro!: exI [of _ as])
  moreover have "(if Some a = queue_back q then q\<lparr>queue_front := cell_next c, queue_back := None\<rparr> else q\<lparr>queue_front := cell_next c\<rparr>) =
      q\<lparr>queue_front := cell_next c, queue_back := end_of as\<rparr>"
    using as(2,3) by (cases q) (auto simp: end_of_def)
  ultimately show ?thesis using as(1) c by (simp add: nghttp2_queue_pop_def Let_def)
qed

interpretation pointer_queue: fifo_queue queue_holds "\<lambda>xs x. True" queue_push_ok
  "\<lambda>(h, q). nghttp2_queue_pop h q" "\<lambda>(h, q). nghttp2_queue_front h q"
proof unfold_locales
  fix s :: "queue_heap \<times> nghttp2_queue" and xs
  assume "queue_holds s xs"
  then show "(case s of (h, q) \<Rightarrow> nghttp2_queue_front h q) = list_front xs"
    by (cases xs; cases s) (auto simp: queue_holds_def nghttp2_queue_front_def Cons_eq_map_conv cell_nexts_def [abs_def])
qed (use queue_push_holds queue_pop_holds in auto)

text \<open>\<^verbatim>\<open>nghttp2_queue_free\<close> ends and returns every cell.\<close>

lemma queue_free_all:
  "links (cell_nexts (qh_cells h)) p as \<Longrightarrow> distinct as \<Longrightarrow> dom (qh_cells h) = set as \<Longrightarrow>
   \<exists>h'. queue_free_loop h p = Some h' \<and> qh_cells h' = Map.empty"
proof (induction as arbitrary: h p)
  case Nil
  then show ?case by (simp add: queue_free_loop.simps)
next
  case (Cons a as)
  then obtain c where c: "p = Some a" "qh_cells h a = Some c" "links (cell_nexts (qh_cells h)) (cell_next c) as"
    by (auto simp: cell_nexts_def [abs_def])
  have "links (cell_nexts ((qh_cells h)(a := None))) (cell_next c) as"
    unfolding cell_nexts_del by (rule links_frame [OF c(3)]) (use Cons.prems in auto)
  moreover have "dom ((qh_cells h)(a := None)) = set as" using Cons.prems by auto
  ultimately have "\<exists>h'. queue_free_loop (h\<lparr>qh_cells := (qh_cells h)(a := None)\<rparr>) (cell_next c) = Some h' \<and> qh_cells h' = Map.empty"
    by (intro Cons.IH) (use Cons.prems in \<open>simp_all add: fun_upd_def\<close>)
  then show ?case using c by (subst queue_free_loop.simps) simp
qed

text \<open>
  C11. The outbound queues are first-in first-out queues: on any sequence of pushes of items that are
  not queued and pops that the list of queued items allows, \<^verbatim>\<open>nghttp2_outbound_queue_push\<close>,
  \<^verbatim>\<open>nghttp2_outbound_queue_pop\<close> and \<^verbatim>\<open>nghttp2_outbound_queue_top\<close> follow no dangling pointer and show at
  every step the oldest queued item; the size is the number of queued items; an item that has
  been popped is unlinked, so that it can be queued again.
\<close>

theorem outbound_queue_is_fifo:
  assumes "oq_holds I (is, q) xs" "fifo_run (list_push (oq_able I)) list_pop list_front xs ops = Some (os, ys)"
  shows "\<exists>is' q'. fifo_run (\<lambda>(is, q). nghttp2_outbound_queue_push is q) (\<lambda>(is, q). nghttp2_outbound_queue_pop is q)
      (\<lambda>(is, q). nghttp2_outbound_queue_top q) (is, q) ops = Some (os, is', q') \<and>
    nghttp2_outbound_queue_top q' = list_front ys \<and> nghttp2_outbound_queue_size q' = length ys \<and>
    (\<forall>a \<in> I. a \<notin> set ys \<longrightarrow> map_option oi_qnext (is' a) = Some None)"
proof -
  obtain is' q' where s: "fifo_run (\<lambda>(is, q). nghttp2_outbound_queue_push is q) (\<lambda>(is, q). nghttp2_outbound_queue_pop is q)
      (\<lambda>(is, q). nghttp2_outbound_queue_top q) (is, q) ops = Some (os, is', q')" "oq_holds I (is', q') ys"
    using oq.run_refines [OF assms] by (metis surj_pair)
  have "nghttp2_outbound_queue_top q' = list_front ys" using oq.front_holds [OF s(2)] by simp
  then show ?thesis using s by (auto simp: oq_holds_def nghttp2_outbound_queue_size_def item_nexts_def)
qed

definition item0 :: nghttp2_outbound_item where
  "item0 = nghttp2_outbound_item_init \<lparr>oi_frame = Frame_ping (nghttp2_frame_ping_init 0 None), oi_ext_frame_payload = None, oi_aux_data = Aux_goaway 1,
     oi_cycle = 7, oi_qnext = Some 3, oi_queued = True\<rparr>"

theorem outbound_queue_is_fifo_witness:
  "oq_holds {1, 2} ([1 \<mapsto> item0, 2 \<mapsto> item0], nghttp2_outbound_queue_init) [] \<and>
   (\<exists>is' q'. fifo_run (\<lambda>(is, q). nghttp2_outbound_queue_push is q) (\<lambda>(is, q). nghttp2_outbound_queue_pop is q)
      (\<lambda>(is, q). nghttp2_outbound_queue_top q) ([1 \<mapsto> item0, 2 \<mapsto> item0], nghttp2_outbound_queue_init)
      [Push 2, Push 1, Pop, Push 2] = Some ([None, Some 2, Some 2, Some 1], is', q') \<and>
    nghttp2_outbound_queue_top q' = Some 1 \<and> nghttp2_outbound_queue_size q' = 2)"
proof -
  have h: "oq_holds {1, 2} ([1 \<mapsto> item0, 2 \<mapsto> item0], nghttp2_outbound_queue_init) []"
    by (auto simp: oq_holds_def nghttp2_outbound_queue_init_def end_of_def item_nexts_def item0_def nghttp2_outbound_item_init_def)
  have "fifo_run (list_push (oq_able {1, 2})) list_pop list_front [] [Push 2, Push 1, Pop, Push 2] =
      Some ([None, Some 2, Some 2, Some 1], [1, 2 :: nat])"
    by (simp add: oq_able_def list_push_def)
  from outbound_queue_is_fifo [OF h this] h show ?thesis by auto
qed

end
