(* ===== verification/Spec2Isabelle.thy ===== *)
theory Spec2Isabelle
  imports Pq Hash_Map Frame_Headers Queue
begin

text \<open>
  A verification library for nghttp2, the C implementation of HTTP/2 (sources under
  \<^verbatim>\<open>src/lib/\<close>).

  \<^bold>\<open>The program.\<close>  The library keeps a session between an application and a byte stream.  Towards the peer
  it serialises frames (\<^verbatim>\<open>nghttp2_frame.c\<close>) into chains of buffers (\<^verbatim>\<open>nghttp2_buf.c\<close>), compressing header lists
  with HPACK (\<^verbatim>\<open>nghttp2_hd.c\<close>, \<^verbatim>\<open>nghttp2_hd_huffman.c\<close>, \<^verbatim>\<open>nghttp2_hd_huffman_data.c\<close>); from the peer it parses frames
  and decompresses header blocks.  HPACK tables share strings through reference counted buffers
  (\<^verbatim>\<open>nghttp2_rcbuf.c\<close>).  Streams are found in a hash table (\<^verbatim>\<open>nghttp2_map.c\<close>), frames wait in queues
  (\<^verbatim>\<open>nghttp2_outbound_item.c\<close>) and streams with data are scheduled by priority queues (\<^verbatim>\<open>nghttp2_pq.c\<close>).

  \<^bold>\<open>Theories.\<close>  Each theory models the named sources with one definition per function, in the order of the
  code, under the names of the code.

  \<^item> \<open>Nghttp2_Prelude\<close>: machine types, error codes, the application's allocator, linked chains, functional simulation.
  \<^item> \<open>Helper\<close> (\<^verbatim>\<open>nghttp2_helper.c\<close>, \<^verbatim>\<open>nghttp2_priority_spec.c\<close>, \<^verbatim>\<open>nghttp2_npn.c\<close>): byte order, character tables, local
    window arithmetic, priority specifications, ALPN.  Window changes conserve what the peer may send;
    the tables are the character classes of the RFCs; the protocol search is exact.
  \<^item> \<open>Pq\<close> (\<^verbatim>\<open>nghttp2_pq.c\<close>): heap order, intrusive indices and contents under push, pop, remove and update.  The order is
    the locale \<open>pq_order\<close>; draining in order is proved from the contract \<open>min_queue\<close>.
  \<^item> \<open>Hash_Map\<close> (\<^verbatim>\<open>nghttp2_map.c\<close>): the table refines a finite map on any sequence of operations, resizing and
    allocation failure included (\<open>functional_simulation\<close>).
  \<^item> \<open>Queue\<close> (\<^verbatim>\<open>nghttp2_queue.c\<close>, \<^verbatim>\<open>nghttp2_outbound_item.c\<close>): both linked queues satisfy the contract \<open>fifo_queue\<close>.
  \<^item> \<open>Buf\<close> (\<^verbatim>\<open>nghttp2_buf.c\<close>): single buffers and chains; what is added is appended, within bounds, and comes out in order.
  \<^item> \<open>Huffman_Data\<close>, \<open>Huffman_Tree\<close>, \<open>Huffman\<close> (\<^verbatim>\<open>nghttp2_hd_huffman.c\<close>, \<^verbatim>\<open>nghttp2_hd_huffman_data.c\<close>): both tables entry by entry
    against one code tree; the encoder against the reference bit string; the decoder accepts exactly the padded
    encodings, whole or in pieces.
  \<^item> \<open>Hpack_Int\<close>, \<open>Hpack_Token\<close>, \<open>Rcbuf\<close>, \<open>Hpack_Table\<close>, \<open>Hpack_Deflate\<close>, \<open>Hpack_Inflate\<close>, \<open>Hpack_Roundtrip\<close> (\<^verbatim>\<open>nghttp2_hd.c\<close>,
    \<^verbatim>\<open>nghttp2_rcbuf.c\<close>): prefixed integers with their 32-bit overflow checks, the token lookup, reference counts with
    an ownership multiset, the dynamic table as ring buffer and hash map over one store of entries, the encoder, the
    decoder as the state machine of the code, and both ends of a connection kept in step over a history of header blocks and
    table size changes.
  \<^item> \<open>Frame\<close>, \<open>Frame_Headers\<close> (\<^verbatim>\<open>nghttp2_frame.c\<close>): packing and parsing of every frame type; control frames read back as they
    were packed, but for the empty entries of ORIGIN, which the receiver drops; a header list packed into HEADERS and CONTINUATION frames of any chunk size is inflated by the
    peer to the same list; padding leaves the payload in place.

  \<^bold>\<open>Correspondence.\<close>  \<^verbatim>\<open>uintN_t\<close> is a word of that width, \<^verbatim>\<open>int32_t\<close> is \<open>int\<close> with its range in the invariants, \<^verbatim>\<open>size_t\<close> is
  \<open>nat\<close>.  Structures are records, pointers are addresses into a store (\<^verbatim>\<open>NULL\<close> is \<open>None\<close>), a negative return value is \<open>Inl\<close>
  of an error.  An operation with an option result returns \<open>None\<close> for a failed assertion, a dangling
  pointer, an access out of bounds or a loop that does not end; the lemmas show that it does not.  The allocator is
  a parameter \<open>nghttp2_mem\<close> that decides which allocations succeed and what fresh memory holds.

  \<^bold>\<open>Loops and bounds.\<close>  Loops are structural recursion, recursion with a termination measure, or
  \<^verbatim>\<open>partial_function (option)\<close>, with lemmas that the result is not \<open>None\<close>.  There is no fuel.  The round trips of HPACK assume
  names and values of at most \<open>NGHTTP2_HD_MAX_NV\<close> bytes each, the limit the decoder puts on every string; statements about
  sequences of hash table operations assume at most \<open>3 * 2 ^ 28\<close> entries, since the capacity is a \<^verbatim>\<open>uint32_t\<close> that is
  tripled in the load test.

  \<^bold>\<open>Not modelled.\<close>  The session (\<^verbatim>\<open>nghttp2_session.c\<close>), the submission functions, streams with their dependency tree,
  the HTTP messaging rules and the option setters: the session is a composition of the modelled components with
  application callbacks, and its state machine is not part of this development.  Functions that only free memory, constant
  strings, callback setters and debug output have no model.  The applications under \<^verbatim>\<open>src/src/\<close>, the bindings and the
  examples are clients of the library.
\<close>

end
